(* ===== verification/Prelude.thy ===== *)
theory Prelude
  imports Main "HOL-Library.Word" "HOL-Library.Char_ord" "HOL-Library.List_Lexorder"
begin

text \<open>
  What every component uses of C++ and of its standard library: decimal output of
  \<open>std::stringstream\<close>, \<open>atoi\<close>, the \<open>std::string\<close> searches and erasures, \<open>std::map\<close> as an
  association list kept in key order (so that an iterator's order is the list's order), and
  \<open>std::list::sort\<close> followed by \<open>unique\<close>. Pointers are natural numbers, with 0 for NULL.
  Boost.Regex is not part of the repository: its two entry points that the sources call are the
  fields of a record of parameters.
\<close>

named_theorems std_simps \<open>equations of the standard library model\<close>
named_theorems inv_intros \<open>preservation lemmas of the components' invariants\<close>

type_synonym ptr = nat
type_synonym u8 = "8 word"
type_synonym u16 = "16 word"
type_synonym u32 = "32 word"
type_synonym u64 = "64 word"
type_synonym s16 = "16 word"

abbreviation (input) NULL :: ptr where "NULL \<equiv> 0"

lemma unat_u8_range: "unat (b :: u8) < 256"
proof -
  have "int (unat b) < 256" using uint_bounded [of b] unfolding uint_nat by simp
  then show ?thesis by linarith
qed

lemma ucast_u64_u32: "unat w < 2 ^ 32 \<Longrightarrow> (ucast (ucast (w :: u64) :: u32) :: u64) = w"
  by (simp add: word_unat_eq_iff unsigned_ucast_eq unsigned_take_bit_eq take_bit_nat_eq_self)

subsection \<open>Boost.Regex as a parameter\<close>

text \<open>
  \<open>bx_match p s\<close> stands for \<open>regex_match(s.c_str(), matches, re)\<close> with \<open>re.assign(p, icase)\<close>:
  \<open>None\<close> when it returns false, otherwise the sub-matches as strings, index 0 first, the empty
  string for a group that took no part (its \<open>first\<close> equals its \<open>second\<close>). \<open>bx_tokens p s\<close> stands
  for the sequence that \<open>sregex_token_iterator(s.begin(), s.end(), p, -1)\<close> runs through.
\<close>

record boost =
  bx_match :: "string \<Rightarrow> string \<Rightarrow> string list option"
  bx_tokens :: "string \<Rightarrow> string \<Rightarrow> string list"

definition sub :: "string list \<Rightarrow> nat \<Rightarrow> string" where
  "sub ms i = (if i < length ms then ms ! i else '''')"

subsection \<open>Undefined behaviour\<close>

text \<open>
  The result of code that C++ may leave undefined: \<open>Undef\<close> for a read or write outside an
  object, the use of a deleted object, a call through NULL; \<open>Val\<close> for a value.
\<close>

datatype 'a cpp = Undef | Val 'a

fun cpp_bind :: "'a cpp \<Rightarrow> ('a \<Rightarrow> 'b cpp) \<Rightarrow> 'b cpp" where
  "cpp_bind Undef f = Undef"
| "cpp_bind (Val x) f = f x"

lemma cpp_bind_Val: "cpp_bind r f = Val y \<longleftrightarrow> (\<exists>x. r = Val x \<and> f x = Val y)"
  by (cases r) auto

subsection \<open>Decimal numbers\<close>

definition crlf :: string where
  "crlf = [CHR 0x0D, CHR 0x0A]"

definition digit_char :: "nat \<Rightarrow> char" where
  "digit_char n = char_of (48 + n)"

definition is_digit :: "char \<Rightarrow> bool" where
  "is_digit c \<longleftrightarrow> 48 \<le> (of_char c :: nat) \<and> (of_char c :: nat) \<le> 57"

definition digit_val :: "char \<Rightarrow> nat" where
  "digit_val c = of_char c - 48"

fun dec_nat :: "nat \<Rightarrow> string" where
  "dec_nat n = (if n < 10 then [digit_char n] else dec_nat (n div 10) @ [digit_char (n mod 10)])"

declare dec_nat.simps [simp del]

definition dec_int :: "int \<Rightarrow> string" where
  "dec_int i = (if i < 0 then CHR ''-'' # dec_nat (nat (- i)) else dec_nat (nat i))"

definition digits_val :: "string \<Rightarrow> nat" where
  "digits_val ds = foldl (\<lambda>a c. 10 * a + digit_val c) 0 ds"

text \<open>C's \<open>atoi\<close>: white space, one sign, then the longest run of digits.\<close>

definition is_space :: "char \<Rightarrow> bool" where
  "is_space c \<longleftrightarrow> c = CHR '' '' \<or> (9 \<le> (of_char c :: nat) \<and> (of_char c :: nat) \<le> 13)"

definition atoi :: "string \<Rightarrow> int" where
  "atoi s = (let t = dropWhile is_space s in
     case t of [] \<Rightarrow> 0
     | c # cs \<Rightarrow> if c = CHR ''-'' then - int (digits_val (takeWhile is_digit cs))
                else if c = CHR ''+'' then int (digits_val (takeWhile is_digit cs))
                else int (digits_val (takeWhile is_digit t)))"

lemma digit_char_simps:
  "digit_char 0 = CHR ''0''"
  "digit_char 1 = CHR ''1''"
  "digit_char 2 = CHR ''2''"
  "digit_char 3 = CHR ''3''"
  "digit_char 4 = CHR ''4''"
  "digit_char 5 = CHR ''5''"
  "digit_char 6 = CHR ''6''"
  "digit_char 7 = CHR ''7''"
  "digit_char 8 = CHR ''8''"
  "digit_char 9 = CHR ''9''"
  by code_simp+

lemma of_char_digit [simp]: "n < 10 \<Longrightarrow> (of_char (digit_char n) :: nat) = 48 + n"
  by (simp add: digit_char_def)

lemma is_digit_digit_char [simp]: "n < 10 \<Longrightarrow> is_digit (digit_char n)"
  by (simp add: is_digit_def)

lemma digit_val_digit_char [simp]: "n < 10 \<Longrightarrow> digit_val (digit_char n) = n"
  by (simp add: digit_val_def)

lemma dec_nat_nonempty [simp]: "dec_nat n \<noteq> []"
  by (subst dec_nat.simps) simp

lemma dec_nat_digits: "list_all is_digit (dec_nat n)"
proof (induction n rule: dec_nat.induct)
  case (1 n)
  then show ?case
    by (cases "n < 10") (auto simp: dec_nat.simps [of n])
qed

lemma digits_val_snoc: "digits_val (ds @ [c]) = 10 * digits_val ds + digit_val c"
  by (simp add: digits_val_def)

lemma digits_val_dec_nat [simp]: "digits_val (dec_nat n) = n"
proof (induction n rule: dec_nat.induct)
  case (1 n)
  show ?case
  proof (cases "n < 10")
    case True
    then show ?thesis by (simp add: dec_nat.simps [of n] digits_val_def)
  next
    case False
    with 1 show ?thesis by (simp add: dec_nat.simps [of n] digits_val_snoc)
  qed
qed

lemma takeWhile_all: "list_all P xs \<Longrightarrow> takeWhile P xs = xs"
  by (induction xs) auto

lemma digit_not_space: "is_digit c \<Longrightarrow> \<not> is_space c"
  by (auto simp: is_digit_def is_space_def)

lemma digit_not_sign: "is_digit c \<Longrightarrow> c \<noteq> CHR ''-'' \<and> c \<noteq> CHR ''+''"
  by (auto simp: is_digit_def)

lemma atoi_digits:
  assumes "list_all is_digit ds" and "ds \<noteq> []"
  shows "atoi ds = int (digits_val ds)"
proof -
  obtain c cs where ds: "ds = c # cs" using assms(2) by (cases ds) auto
  with assms(1) have "is_digit c" by simp
  with ds assms(1) show ?thesis
    by (simp add: atoi_def digit_not_space digit_not_sign takeWhile_all)
qed

lemma atoi_dec_nat [simp]: "atoi (dec_nat n) = int n"
  by (simp add: atoi_digits dec_nat_digits)

subsection \<open>\<open>std::string\<close>\<close>

text \<open>\<open>s.find(pat, from)\<close>: the least position at or after \<open>from\<close>, \<open>None\<close> for \<open>npos\<close>.\<close>

definition starts_with :: "string \<Rightarrow> string \<Rightarrow> bool" where
  "starts_with pat s \<longleftrightarrow> take (length pat) s = pat"

fun find_at :: "string \<Rightarrow> string \<Rightarrow> nat \<Rightarrow> nat option" where
  "find_at pat [] i = (if pat = [] then Some i else None)"
| "find_at pat (c # s) i = (if starts_with pat (c # s) then Some i else find_at pat s (Suc i))"

definition str_find :: "string \<Rightarrow> string \<Rightarrow> nat \<Rightarrow> nat option" where
  "str_find s pat from = (if length s < from then None else find_at pat (drop from s) from)"

text \<open>\<open>s.erase(pos, n)\<close>.\<close>

definition str_erase :: "string \<Rightarrow> nat \<Rightarrow> nat \<Rightarrow> string" where
  "str_erase s pos n = take pos s @ drop (pos + n) s"

text \<open>\<open>(const char * )s\<close> read back as a \<open>std::string\<close>: everything before the first NUL.\<close>

definition c_string :: "string \<Rightarrow> string" where
  "c_string s = takeWhile (\<lambda>c. c \<noteq> CHR 0x00) s"

lemma find_at_bound: "find_at pat s i = Some k \<Longrightarrow> i \<le> k \<and> k + length pat \<le> i + length s"
proof (induction pat s i rule: find_at.induct)
  case (1 pat i)
  then show ?case by (auto split: if_splits)
next
  case (2 pat c s i)
  show ?case
  proof (cases "starts_with pat (c # s)")
    case True
    then have "length pat \<le> length (c # s)"
      unfolding starts_with_def by (metis length_take min.cobounded1)
    with True "2.prems" show ?thesis by simp
  next
    case False
    with 2 show ?thesis by auto
  qed
qed

lemma str_find_bound: "str_find s pat from = Some k \<Longrightarrow> from \<le> k \<and> k + length pat \<le> length s"
  by (auto simp: str_find_def split: if_splits dest!: find_at_bound)

lemma find_at_sound: "find_at pat s i = Some k \<Longrightarrow> take (length pat) (drop (k - i) s) = pat"
proof (induction pat s i rule: find_at.induct)
  case (1 pat i)
  then show ?case by (auto split: if_splits)
next
  case (2 pat c s i)
  show ?case
  proof (cases "starts_with pat (c # s)")
    case True
    with "2.prems" show ?thesis by (auto simp: starts_with_def)
  next
    case False
    with "2.prems" have f: "find_at pat s (Suc i) = Some k" by simp
    then have "Suc i \<le> k" by (auto dest: find_at_bound)
    then have "drop (k - i) (c # s) = drop (k - Suc i) s"
      by (simp add: Suc_diff_le [symmetric] drop_Cons' )
    with 2(1) [OF False f] show ?thesis by simp
  qed
qed

lemma find_at_None: "find_at pat s i = None \<Longrightarrow> \<not> starts_with pat (drop j s) \<or> length s < j"
proof (induction pat s i arbitrary: j rule: find_at.induct)
  case (1 pat i)
  then show ?case by (cases j) (auto simp: starts_with_def split: if_splits)
next
  case (2 pat c s i)
  then show ?case by (cases j) (auto split: if_splits)
qed

lemma length_str_erase: "pos + n \<le> length s \<Longrightarrow> length (str_erase s pos n) = length s - n"
  by (simp add: str_erase_def)

lemma c_string_id: "CHR 0x00 \<notin> set s \<Longrightarrow> c_string s = s"
  by (induction s) (auto simp: c_string_def)

subsection \<open>Case and characters\<close>

definition to_lower :: "char \<Rightarrow> char" where
  "to_lower c = (if 65 \<le> (of_char c :: nat) \<and> (of_char c :: nat) \<le> 90 then char_of (of_char c + 32 :: nat) else c)"

definition to_upper :: "char \<Rightarrow> char" where
  "to_upper c = (if 97 \<le> (of_char c :: nat) \<and> (of_char c :: nat) \<le> 122 then char_of (of_char c - 32 :: nat) else c)"

text \<open>\<open>!strcasecmp(a, b)\<close>.\<close>

definition strcaseeq :: "string \<Rightarrow> string \<Rightarrow> bool" where
  "strcaseeq a b \<longleftrightarrow> map to_lower (c_string a) = map to_lower (c_string b)"

text \<open>The backslash of the regular expressions.\<close>

definition bsl :: string where
  "bsl = [CHR 0x5C]"

definition tabs :: "nat \<Rightarrow> string" where
  "tabs n = replicate n CHR 0x09"

text \<open>The strings joined with a comma.\<close>

fun join_comma :: "string list \<Rightarrow> string" where
  "join_comma [] = ''''"
| "join_comma [s] = s"
| "join_comma (s # t # ss) = s @ '','' @ join_comma (t # ss)"

end
