(* ===== verification/StdMap.thy ===== *)
theory StdMap
  imports Prelude
begin

text \<open>
  \<open>std::map\<close>: the interface its clients use, as the locale \<open>std_map\<close> with the lookup laws and
  the representation invariant, and the model of it, an association list in strictly increasing
  key order, on which the locale is interpreted. Iterating a \<open>std::map\<close> is walking that list.
  \<open>smap_index\<close> is \<open>operator[]\<close>, which inserts a default value for a missing key. Also here:
  \<open>std::list::sort\<close> then \<open>unique\<close> on lists of pointers.
\<close>

type_synonym ('k, 'v) smap = "('k \<times> 'v) list"

definition smap_get :: "('k, 'v) smap \<Rightarrow> 'k \<Rightarrow> 'v option" where
  "smap_get m k = map_of m k"

fun smap_put :: "'k::linorder \<Rightarrow> 'v \<Rightarrow> ('k, 'v) smap \<Rightarrow> ('k, 'v) smap" where
  "smap_put k v [] = [(k, v)]"
| "smap_put k v ((k', v') # m) =
     (if k < k' then (k, v) # (k', v') # m
      else if k = k' then (k, v) # m
      else (k', v') # smap_put k v m)"

definition smap_erase :: "'k \<Rightarrow> ('k, 'v) smap \<Rightarrow> ('k, 'v) smap" where
  "smap_erase k m = filter (\<lambda>e. fst e \<noteq> k) m"

definition smap_ok :: "('k::linorder, 'v) smap \<Rightarrow> bool" where
  "smap_ok m \<longleftrightarrow> sorted_wrt (<) (map fst m)"

text \<open>\<open>m[k]\<close>: the value and the map after the access.\<close>

definition smap_index :: "'v \<Rightarrow> 'k::linorder \<Rightarrow> ('k, 'v) smap \<Rightarrow> 'v \<times> ('k, 'v) smap" where
  "smap_index d k m = (case smap_get m k of Some v \<Rightarrow> (v, m) | None \<Rightarrow> (d, smap_put k d m))"

locale std_map =
  fixes get :: "'m \<Rightarrow> 'k \<Rightarrow> 'v option"
    and put :: "'k \<Rightarrow> 'v \<Rightarrow> 'm \<Rightarrow> 'm"
    and erase :: "'k \<Rightarrow> 'm \<Rightarrow> 'm"
    and empty :: 'm
    and ok :: "'m \<Rightarrow> bool"
  assumes get_empty: "get empty k = None"
    and get_put: "ok m \<Longrightarrow> get (put k v m) k' = (if k' = k then Some v else get m k')"
    and get_erase: "ok m \<Longrightarrow> get (erase k m) k' = (if k' = k then None else get m k')"
    and ok_empty: "ok empty"
    and ok_put: "ok m \<Longrightarrow> ok (put k v m)"
    and ok_erase: "ok m \<Longrightarrow> ok (erase k m)"
begin

text \<open>\<open>m[k]\<close> over the interface, and what it keeps.\<close>

definition index :: "'v \<Rightarrow> 'k \<Rightarrow> 'm \<Rightarrow> 'v \<times> 'm" where
  "index d k m = (case get m k of Some v \<Rightarrow> (v, m) | None \<Rightarrow> (d, put k d m))"

lemma index_value: "fst (index d k m) = (case get m k of Some v \<Rightarrow> v | None \<Rightarrow> d)"
  by (simp add: index_def split: option.split)

lemma index_ok: "ok m \<Longrightarrow> ok (snd (index d k m))"
  by (simp add: index_def ok_put split: option.split)

text \<open>An access changes no value that a later access with the same default reads.\<close>

lemma index_index:
  "ok m \<Longrightarrow> fst (index d k' (snd (index d k m))) = fst (index d k' m)"
  by (auto simp: index_def get_put split: option.splits if_splits)

lemma get_put_erase: "ok m \<Longrightarrow> get (put k v (erase k m)) k' = get (put k v m) k'"
  by (simp add: get_put get_erase ok_erase)

lemma get_erase_put: "ok m \<Longrightarrow> get m k = None \<Longrightarrow> get (erase k (put k v m)) k' = get m k'"
  by (simp add: get_erase get_put ok_put)

end

lemma smap_get_Nil [simp]: "smap_get [] k = None"
  by (simp add: smap_get_def)

lemma smap_get_put [simp]:
  "smap_get (smap_put k v m) k' = (if k' = k then Some v else smap_get m k')"
  if "smap_ok m" for m :: "('k::linorder, 'v) smap"
  using that
proof (induction m)
  case Nil
  then show ?case by (simp add: smap_get_def)
next
  case (Cons e m)
  obtain a b where e: "e = (a, b)" by (cases e)
  from Cons.prems have ok: "smap_ok m" and lt: "\<forall>x\<in>set m. a < fst x"
    by (auto simp: smap_ok_def e)
  have "k' \<noteq> k \<or> map_of m k = None" if "k < a"
    using that lt by (auto simp: map_of_eq_None_iff dest: order.strict_trans)
  then show ?case
    using Cons.IH [OF ok] by (auto simp: e smap_get_def)
qed

lemma smap_get_erase [simp]:
  "smap_get (smap_erase k m) k' = (if k' = k then None else smap_get m k')"
  by (induction m) (auto simp: smap_get_def smap_erase_def)

lemma set_smap_put: "set (map fst (smap_put k v m)) = insert k (set (map fst m))"
  by (induction k v m rule: smap_put.induct) auto

lemma smap_ok_Nil [simp]: "smap_ok []"
  by (simp add: smap_ok_def)

lemma smap_ok_put [simp, intro]: "smap_ok m \<Longrightarrow> smap_ok (smap_put k v m)"
proof (induction k v m rule: smap_put.induct)
  case (1 k v)
  then show ?case by (simp add: smap_ok_def)
next
  case (2 k v k' v' m)
  from "2.prems" have ok: "smap_ok m" and lt: "\<forall>x\<in>set (map fst m). k' < x"
    by (auto simp: smap_ok_def)
  show ?case
  proof (cases "k < k' \<or> k = k'")
    case True
    with ok lt show ?thesis by (auto simp: smap_ok_def)
  next
    case False
    with ok "2.IH" have "smap_ok (smap_put k v m)" by auto
    moreover from False lt have "\<forall>x\<in>set (map fst (smap_put k v m)). k' < x"
      by (auto simp: set_smap_put simp del: set_map)
    ultimately show ?thesis using False by (simp add: smap_ok_def)
  qed
qed

lemma smap_ok_erase [simp, intro]: "smap_ok m \<Longrightarrow> smap_ok (smap_erase k m)"
  by (induction m) (auto simp: smap_ok_def smap_erase_def)

interpretation sm: std_map smap_get smap_put smap_erase "[]" smap_ok
  by unfold_locales auto

lemma smap_index_eq: "smap_index = sm.index"
  by (simp add: fun_eq_iff smap_index_def sm.index_def)

lemma smap_index_value [simp]:
  "fst (smap_index d k m) = (case smap_get m k of Some v \<Rightarrow> v | None \<Rightarrow> d)"
  by (simp add: smap_index_eq sm.index_value)

lemma smap_index_ok [simp, intro]: "smap_ok m \<Longrightarrow> smap_ok (snd (smap_index d k m))"
  by (simp add: smap_index_eq sm.index_ok)

lemma smap_get_index [simp]:
  "smap_ok m \<Longrightarrow> smap_get (snd (smap_index d k m)) k' =
     (if k' = k \<and> smap_get m k = None then Some d else smap_get m k')"
  by (auto simp: smap_index_def split: option.split)

lemma smap_get_Some_in: "smap_get m k = Some v \<Longrightarrow> (k, v) \<in> set m"
  by (simp add: smap_get_def map_of_SomeD)

lemma smap_ok_distinct: "smap_ok m \<Longrightarrow> distinct (map fst m)"
  by (simp add: smap_ok_def strict_sorted_iff)

lemma smap_in_get: "smap_ok m \<Longrightarrow> (k, v) \<in> set m \<Longrightarrow> smap_get m k = Some v"
  by (simp add: smap_get_def smap_ok_distinct)

subsection \<open>Lists of pointers\<close>

text \<open>\<open>l.push_back(x); l.sort(); l.unique();\<close> and \<open>l.remove(x)\<close>.\<close>

definition sort_unique :: "'a::linorder list \<Rightarrow> 'a list" where
  "sort_unique xs = remdups_adj (sort xs)"

lemma set_sort_unique [simp]: "set (sort_unique xs) = set xs"
  by (simp add: sort_unique_def)

lemma strict_sorted_remdups_adj: "sorted xs \<Longrightarrow> sorted_wrt (<) (remdups_adj xs)"
  by (induction xs rule: remdups_adj.induct) auto

lemma sort_unique_strict [simp]: "sorted_wrt (<) (sort_unique xs)"
  by (simp add: sort_unique_def strict_sorted_remdups_adj)

lemma sort_unique_distinct [simp]: "distinct (sort_unique xs)"
  using sort_unique_strict strict_sorted_iff by blast

lemma strict_sorted_removeAll: "sorted_wrt (<) xs \<Longrightarrow> sorted_wrt (<) (removeAll x xs)"
  by (induction xs) auto

end
