(* ===== verification/MediaFrame.thy ===== *)
theory MediaFrame
  imports Prelude
begin

text \<open>
  \<open>src/MediaCtrlCodec.h\<close> and \<open>src/MediaCtrlCodec.cxx\<close>: media frames (class
  \<open>MediaCtrlFrame\<close>), and the collector thread that frees frames three seconds after their
  construction (class \<open>MediaCtrlFrameCollector\<close>). A frame's buffer is the list of its bytes.
\<close>

subsection \<open>Enumerations\<close>

abbreviation (input) MEDIACTRL_MEDIA_UNKNOWN :: int where "MEDIACTRL_MEDIA_UNKNOWN \<equiv> -1"
abbreviation (input) MEDIACTRL_MEDIA_AUDIO :: int where "MEDIACTRL_MEDIA_AUDIO \<equiv> 0"
abbreviation (input) MEDIACTRL_RAW :: int where "MEDIACTRL_RAW \<equiv> -1"
abbreviation (input) MEDIACTRL_CODEC_ULAW :: int where "MEDIACTRL_CODEC_ULAW \<equiv> 0"
abbreviation (input) MEDIACTRL_CODEC_GSM :: int where "MEDIACTRL_CODEC_GSM \<equiv> 3"
abbreviation (input) MEDIACTRL_CODEC_ALAW :: int where "MEDIACTRL_CODEC_ALAW \<equiv> 8"
abbreviation (input) MEDIACTRL_CODEC_H264 :: int where "MEDIACTRL_CODEC_H264 \<equiv> 99"
abbreviation (input) MEDIACTRL_FLAG_NONE :: u32 where "MEDIACTRL_FLAG_NONE \<equiv> 0"
abbreviation (input) MEDIACTRL_FLAG_QCIF :: u32 where "MEDIACTRL_FLAG_QCIF \<equiv> 1"
abbreviation (input) MEDIACTRL_FLAG_CIF :: u32 where "MEDIACTRL_FLAG_CIF \<equiv> 2"
abbreviation (input) NORMAL_FRAME :: int where "NORMAL_FRAME \<equiv> 0"
abbreviation (input) LOCKING_FRAME :: int where "LOCKING_FRAME \<equiv> 1"
abbreviation (input) UNLOCKING_FRAME :: int where "UNLOCKING_FRAME \<equiv> 2"
abbreviation (input) ALLOC_RTP :: int where "ALLOC_RTP \<equiv> 1"
abbreviation (input) ALLOC_MIXER :: int where "ALLOC_MIXER \<equiv> 3"
abbreviation (input) ALLOC_CODEC :: int where "ALLOC_CODEC \<equiv> 4"

subsection \<open>Frames\<close>

text \<open>
  The fields of \<open>MediaCtrlFrame\<close>. \<open>fr_buffer\<close> is \<open>None\<close> for a NULL buffer; \<open>fr_flags\<close> is
  \<open>None\<close> where the constructor leaves the field unset; \<open>fr_frames\<close> holds pointers to the
  appended frames.
\<close>

record frame =
  fr_media :: int
  fr_format :: int
  fr_buffer :: "u8 list option"
  fr_len :: int
  fr_type :: int
  fr_flags :: "u32 option"
  fr_counter :: int
  fr_ts :: int
  fr_allocated :: bool
  fr_timeBorn :: int
  fr_frames :: "ptr list option"
  fr_original :: ptr
  fr_owner :: ptr
  fr_who :: int
  fr_tid :: string

text \<open>\<open>now\<close> is the time of day in microseconds, as \<open>gettimeofday\<close> gives it.\<close>

definition newFrame :: "int \<Rightarrow> int \<Rightarrow> frame" where
  "newFrame media now =
     \<lparr>fr_media = media, fr_format = MEDIACTRL_RAW, fr_buffer = None, fr_len = 0,
      fr_type = NORMAL_FRAME, fr_flags = None, fr_counter = 0,
      fr_ts = (if media = MEDIACTRL_MEDIA_AUDIO then 160 else 0),
      fr_allocated = False, fr_timeBorn = now, fr_frames = None, fr_original = NULL,
      fr_owner = NULL, fr_who = 0, fr_tid = ''''\<rparr>"

text \<open>
  \<open>setBuffer\<close>: only an audio frame copies the bytes (\<open>calloc\<close> then \<open>memcpy\<close> of \<open>len\<close> bytes);
  a source shorter than \<open>len\<close> is read past its end.
\<close>

definition setBuffer :: "frame \<Rightarrow> u8 list \<Rightarrow> int \<Rightarrow> frame cpp" where
  "setBuffer f buf len =
     (let f1 = f\<lparr>fr_len := len\<rparr> in
      if fr_media f1 = MEDIACTRL_MEDIA_AUDIO then
        (if len < 0 \<or> int (length buf) < len then Undef
         else Val (f1\<lparr>fr_allocated := True, fr_buffer := Some (take (nat len) buf)\<rparr>))
      else Val f1)"

text \<open>
  The second constructor: the frame is filled before \<open>type\<close>, \<open>counter\<close> and the pointers are
  set; for a media type other than audio \<open>buffer\<close> stays unset, which is \<open>None\<close> here.
\<close>

definition newFrameBuf :: "int \<Rightarrow> u8 list \<Rightarrow> int \<Rightarrow> int \<Rightarrow> int \<Rightarrow> frame cpp" where
  "newFrameBuf media buf len format now =
     cpp_bind (setBuffer ((newFrame media now)\<lparr>fr_flags :=
                 (if media = MEDIACTRL_MEDIA_AUDIO then Some MEDIACTRL_FLAG_NONE else None),
                 fr_format := format\<rparr>) buf len)
       (\<lambda>f. Val (f\<lparr>fr_type := NORMAL_FRAME, fr_counter := 0, fr_frames := None,
                  fr_original := NULL, fr_owner := NULL, fr_who := 0, fr_tid := '''',
                  fr_timeBorn := now\<rparr>))"

definition appendFrame :: "frame \<Rightarrow> ptr \<Rightarrow> frame" where
  "appendFrame f p = f\<lparr>fr_frames :=
     Some ((case fr_frames f of None \<Rightarrow> [] | Some ps \<Rightarrow> ps) @ [p])\<rparr>"

lemma newFrameBuf_audio:
  assumes "0 \<le> len" and "len \<le> int (length buf)"
  shows "\<exists>f. newFrameBuf MEDIACTRL_MEDIA_AUDIO buf len format now = Val f \<and>
     fr_buffer f = Some (take (nat len) buf) \<and> fr_len f = len \<and> fr_format f = format \<and>
     fr_type f = NORMAL_FRAME \<and> fr_media f = MEDIACTRL_MEDIA_AUDIO \<and> fr_who f = 0"
  using assms by (simp add: newFrameBuf_def setBuffer_def newFrame_def)

subsection \<open>The collector\<close>

text \<open>
  State of \<open>MediaCtrlFrameCollector\<close>: the flag and the list of frame pointers. \<open>col_deleted\<close>
  records the frames the thread has deleted, in order; \<open>born\<close> is \<open>getTimeBorn\<close> of the frame a
  pointer refers to.
\<close>

record collector =
  col_active :: bool
  col_frames :: "ptr list"
  col_deleted :: "ptr list"

definition newCollector :: collector where
  "newCollector = \<lparr>col_active = False, col_frames = [], col_deleted = []\<rparr>"

definition addFrame :: "ptr \<Rightarrow> collector \<Rightarrow> collector" where
  "addFrame p c = (if col_active c then c\<lparr>col_frames := col_frames c @ [p]\<rparr> else c)"

text \<open>The loop over \<open>oldFrames\<close>: each is removed from the list and deleted.\<close>

fun collect_old :: "ptr list \<Rightarrow> collector \<Rightarrow> collector" where
  "collect_old [] c = c"
| "collect_old (p # old) c =
     collect_old old (c\<lparr>col_frames := removeAll p (col_frames c),
                        col_deleted := col_deleted c @ [p]\<rparr>)"

text \<open>One round of \<open>run()\<close>'s loop, woken up at time \<open>current\<close> (in microseconds).\<close>

definition collector_round :: "(ptr \<Rightarrow> int) \<Rightarrow> int \<Rightarrow> collector \<Rightarrow> collector" where
  "collector_round born current c =
     (if \<not> col_active c then c
      else if col_frames c = [] then c
      else collect_old (filter (\<lambda>p. p \<noteq> NULL \<and> 3000000 \<le> current - born p) (col_frames c)) c)"

text \<open>The destructor frees what is left.\<close>

definition stopCollector :: "collector \<Rightarrow> collector" where
  "stopCollector c = c\<lparr>col_active := False, col_frames := [],
      col_deleted := col_deleted c @ filter (\<lambda>p. p \<noteq> NULL) (col_frames c)\<rparr>"

lemma collect_old_frames:
  "col_frames (collect_old old c) = filter (\<lambda>p. p \<notin> set old) (col_frames c)"
proof (induction old arbitrary: c)
  case (Cons p old)
  then show ?case by (auto simp: removeAll_filter_not_eq intro: filter_cong)
qed simp

lemma collect_old_deleted: "col_deleted (collect_old old c) = col_deleted c @ old"
  by (induction old arbitrary: c) auto

lemma collect_old_active: "col_active (collect_old old c) = col_active c"
  by (induction old arbitrary: c) auto

text \<open>Which frames a round keeps, and which it deletes.\<close>

lemma collector_round_frames:
  "col_active c \<Longrightarrow> col_frames (collector_round born now c) =
     filter (\<lambda>p. p = NULL \<or> now - born p < 3000000) (col_frames c)"
  by (auto simp: collector_round_def collect_old_frames intro!: filter_cong)

lemma collector_round_deleted:
  "col_active c \<Longrightarrow> col_deleted (collector_round born now c) = col_deleted c @
     filter (\<lambda>p. p \<noteq> NULL \<and> 3000000 \<le> now - born p) (col_frames c)"
  by (simp add: collector_round_def collect_old_deleted)

text \<open>Frames are owned once: listed at most once, deleted at most once, never listed once deleted.\<close>

definition collector_ok :: "collector \<Rightarrow> bool" where
  "collector_ok c \<longleftrightarrow> distinct (col_frames c @ col_deleted c) \<and> NULL \<notin> set (col_frames c)"

lemma collector_ok_new [inv_intros]: "collector_ok newCollector"
  by (simp add: collector_ok_def newCollector_def)

lemma collector_ok_add [inv_intros]:
  "collector_ok c \<Longrightarrow> p \<noteq> NULL \<Longrightarrow> p \<notin> set (col_frames c @ col_deleted c) \<Longrightarrow>
     collector_ok (addFrame p c)"
  by (auto simp: collector_ok_def addFrame_def)

lemma collector_ok_round [inv_intros]: "collector_ok c \<Longrightarrow> collector_ok (collector_round born now c)"
proof (cases "col_active c")
  case True
  moreover assume "collector_ok c"
  ultimately show ?thesis
    by (auto simp: collector_ok_def collector_round_frames collector_round_deleted)
next
  case False
  moreover assume "collector_ok c"
  ultimately show ?thesis by (simp add: collector_round_def)
qed

lemma collector_ok_stop [inv_intros]: "collector_ok c \<Longrightarrow> collector_ok (stopCollector c)"
  by (auto simp: collector_ok_def stopCollector_def)

text \<open>
  One round of the frame collector frees exactly the frames that are at least three seconds
  old: they leave the list and are deleted, once each and in order, and every younger frame
  stays listed and undeleted; the ownership invariant is kept.
\<close>

theorem collector_frees_old_frames:
  assumes "collector_ok c" and "col_active c"
  shows "collector_ok (collector_round born now c) \<and>
     (\<forall>p. p \<in> set (col_frames (collector_round born now c)) \<longleftrightarrow>
          p \<in> set (col_frames c) \<and> now - born p < 3000000) \<and>
     (\<forall>p. p \<in> set (col_deleted (collector_round born now c)) \<longleftrightarrow>
          p \<in> set (col_deleted c) \<or> p \<in> set (col_frames c) \<and> 3000000 \<le> now - born p)"
proof -
  have "NULL \<notin> set (col_frames c)" using assms(1) by (simp add: collector_ok_def)
  moreover have "collector_ok (collector_round born now c)"
    using assms(1) by (rule collector_ok_round)
  ultimately show ?thesis
    by (auto simp only: collector_round_frames [OF assms(2)] collector_round_deleted [OF assms(2)]
        set_append set_filter Un_iff mem_Collect_eq linorder_not_le) (metis gr0I)+
qed

theorem collector_frees_old_frames_witness:
  "let c = \<lparr>col_active = True, col_frames = [7, 8], col_deleted = []\<rparr>;
       c' = collector_round (\<lambda>p. if p = 7 then 0 else 2500000) 3100000 c
   in collector_ok c' \<and> col_frames c' = [8] \<and> col_deleted c' = [7]"
proof -
  let ?c = "\<lparr>col_active = True, col_frames = [7, 8], col_deleted = []\<rparr>"
  let ?c' = "collector_round (\<lambda>p. if p = 7 then 0 else 2500000) 3100000 ?c"
  have "collector_ok ?c" and "col_active ?c" by (simp_all add: collector_ok_def)
  from collector_frees_old_frames [OF this] have "collector_ok ?c'" by blast
  moreover have "col_frames ?c' = [8] \<and> col_deleted ?c' = [7]"
    by (simp add: collector_round_def)
  ultimately show ?thesis by (simp only: Let_def)
qed

end
