(* ===== verification/PcmSamples.thy ===== *)
theory PcmSamples
  imports MediaFrame
begin

text \<open>
  The sample arithmetic the codecs and the mixer share: a frame's bytes read as \<open>short\<close>s on the
  little-endian hosts the program runs on, the casts to \<open>short\<close> and \<open>uint8_t\<close>, and the interface
  \<open>audio_codec\<close> of the abstract class \<open>MediaCtrlCodec\<close> (\<open>src/MediaCtrlCodec.h\<close>) that the core
  relies on when it decodes and encodes frames. C's \<open>int\<close> arithmetic on promoted samples never
  leaves 32 bits here and is \<open>int\<close>; the casts that truncate are written out.
\<close>

unbundle bit_operations_syntax

definition to_short :: "int \<Rightarrow> int" where
  "to_short x = (x + 32768) mod 65536 - 32768"

definition is_short :: "int \<Rightarrow> bool" where
  "is_short x \<longleftrightarrow> -32768 \<le> x \<and> x < 32768"

lemma to_short_range [simp]: "is_short (to_short x)"
  by (simp add: to_short_def is_short_def)

lemma to_short_id [simp]: "is_short x \<Longrightarrow> to_short x = x"
  by (simp add: to_short_def is_short_def)

definition short_of :: "u8 \<Rightarrow> u8 \<Rightarrow> int" where
  "short_of lo hi = to_short (uint lo + 256 * uint hi)"

fun samples_of :: "u8 list \<Rightarrow> int list" where
  "samples_of (lo # hi # bs) = short_of lo hi # samples_of bs"
| "samples_of bs = []"

definition short_bytes :: "int \<Rightarrow> u8 list" where
  "short_bytes s = [word_of_int s, word_of_int (s div 256)]"

definition bytes_of :: "int list \<Rightarrow> u8 list" where
  "bytes_of ss = concat (map short_bytes ss)"

lemma bytes_of_simps [simp]:
  "bytes_of [] = []"
  "bytes_of (s # ss) = word_of_int s # word_of_int (s div 256) # bytes_of ss"
  by (simp_all add: bytes_of_def short_bytes_def)

lemma length_bytes_of [simp]: "length (bytes_of ss) = 2 * length ss"
  by (induction ss) auto

lemma length_samples_of [simp]: "length (samples_of bs) = length bs div 2"
  by (induction bs rule: samples_of.induct) auto

lemma samples_of_short: "s \<in> set (samples_of bs) \<Longrightarrow> is_short s"
  by (induction bs rule: samples_of.induct) (auto simp: short_of_def)

lemma short_of_bytes: "is_short s \<Longrightarrow> short_of (word_of_int s) (word_of_int (s div 256)) = s"
proof -
  assume s: "is_short s"
  have "s mod 256 + 256 * (s div 256 mod 256) = s mod 65536"
    by (simp add: zmod_zmult2_eq [of 256 s 256, simplified])
  then have "short_of (word_of_int s) (word_of_int (s div 256)) = to_short (s mod 65536)"
    by (simp add: short_of_def uint_word_of_int)
  also have "\<dots> = to_short s"
    by (simp add: to_short_def mod_add_left_eq)
  finally show ?thesis using s by simp
qed

text \<open>The bytes of a list of samples read back as those samples.\<close>

lemma samples_bytes: "list_all is_short ss \<Longrightarrow> samples_of (bytes_of ss) = ss"
  by (induction ss) (auto simp: short_of_bytes)

lemma take_samples: "take n (samples_of bs) = samples_of (take (2 * n) bs)"
proof (induction bs arbitrary: n rule: samples_of.induct)
  case (1 lo hi bs)
  then show ?case by (cases n) auto
qed (simp_all add: take_Cons')

text \<open>Masks of the sample routines as remainders.\<close>

lemma and_mask_simps: "(x::int) AND 255 = x mod 256" "(x::int) AND 15 = x mod 16" "(x::int) AND 127 = x mod 128"
  using take_bit_eq_mask [of 8 x] take_bit_eq_mask [of 4 x] take_bit_eq_mask [of 7 x]
  by (simp_all add: take_bit_eq_mod mask_eq_exp_minus_1)

lemma uint_u8_range: "0 \<le> uint (b :: u8)" "uint (b :: u8) < 256"
  using uint_bounded [of b] by simp_all

text \<open>The sign of a \<open>short\<close> is its bit 15.\<close>

lemma short_sign_bit: "is_short s \<Longrightarrow> bit s 15 \<longleftrightarrow> s < 0"
proof -
  assume s: "is_short s"
  have "s div 32768 = (if s < 0 then - 1 else 0)"
    using s int_div_pos_eq [of s 32768 "- 1" "s + 32768"] by (auto simp: is_short_def)
  then show ?thesis by (simp add: bit_iff_odd)
qed

subsection \<open>Codec objects\<close>

text \<open>The fields of class \<open>MediaCtrlCodec\<close> that its subclasses set in their constructors.\<close>

record codec_obj =
  co_media :: int
  co_format :: int
  co_clockrate :: u32
  co_name :: string
  co_nameMask :: string
  co_blockLen :: u16
  co_avts :: "int list"
  co_started :: bool

definition checkAvt :: "codec_obj \<Rightarrow> int \<Rightarrow> bool cpp" where
  "checkAvt c avt = (case co_avts c of [] \<Rightarrow> Undef | a # _ \<Rightarrow> Val (avt = a))"

subsection \<open>The codec interface\<close>

text \<open>
  What the core relies on: an encoder turns a raw frame of 160 samples into a frame of its own
  format and block length, and its decoder turns that back into a raw frame of 160 samples.
  \<open>now\<close> is the time the new frame is stamped with.
\<close>

definition raw_frame :: "frame \<Rightarrow> bool" where
  "raw_frame f \<longleftrightarrow> fr_format f = MEDIACTRL_RAW \<and> fr_media f = MEDIACTRL_MEDIA_AUDIO \<and>
     fr_len f = 320 \<and> (\<exists>buf. fr_buffer f = Some buf \<and> length buf = 320)"

definition coded_frame :: "int \<Rightarrow> int \<Rightarrow> frame \<Rightarrow> bool" where
  "coded_frame fmt n f \<longleftrightarrow> fr_format f = fmt \<and> fr_media f = MEDIACTRL_MEDIA_AUDIO \<and>
     fr_len f = n \<and> (\<exists>buf. fr_buffer f = Some buf \<and> int (length buf) = n)"

locale audio_codec =
  fixes enc :: "frame option \<Rightarrow> int \<Rightarrow> frame option cpp"
    and dec :: "frame option \<Rightarrow> int \<Rightarrow> frame option cpp"
    and fmt :: int
    and blockLen :: int
  assumes enc_NULL: "enc None now = Val None"
    and dec_NULL: "dec None now = Val None"
    and enc_raw: "raw_frame f \<Longrightarrow> \<exists>g. enc (Some f) now = Val (Some g) \<and> coded_frame fmt blockLen g"
    and dec_coded: "coded_frame fmt blockLen g \<Longrightarrow>
                      \<exists>f. dec (Some g) now = Val (Some f) \<and> raw_frame f"
    and dec_wrong_length: "fr_len g \<noteq> blockLen \<Longrightarrow> dec (Some g) now = Val None"
begin

lemma dec_enc:
  "raw_frame f \<Longrightarrow> \<exists>g h. enc (Some f) now = Val (Some g) \<and> dec (Some g) now' = Val (Some h) \<and>
     raw_frame h"
  using enc_raw [of f now] dec_coded [of _ now'] by blast

lemma enc_defined: "raw_frame f \<Longrightarrow> enc (Some f) now \<noteq> Undef"
  using enc_raw [of f now] by auto

end

text \<open>\<open>setBuffer\<close> on a fresh audio frame, as the codecs call it.\<close>

lemma setBuffer_fresh:
  "int (length buf) = n \<Longrightarrow> setBuffer ((newFrame MEDIACTRL_MEDIA_AUDIO now)\<lparr>fr_format := fmt, fr_who := w\<rparr>) buf n =
     Val ((newFrame MEDIACTRL_MEDIA_AUDIO now)\<lparr>fr_format := fmt, fr_who := w, fr_len := n,
            fr_allocated := True, fr_buffer := Some buf\<rparr>)"
  by (auto simp: setBuffer_def newFrame_def)

end
