(* ===== verification/UlawCodec.thy ===== *)
theory UlawCodec
  imports PcmSamples
begin

text \<open>
  \<open>src/codecs/UlawCodec.cxx\<close>: the mu-law codec. The two tables and the sample routine are
  transcribed; the lemmas identify them with the arithmetic of the G.711 segments, from which
  the error bound and the round trip on code bytes follow. \<open>encode\<close> and \<open>decode\<close> are the frame
  operations, and the codec interface is interpreted on them.
\<close>

definition MuLawCompressTable :: "int list" where
  "MuLawCompressTable = [
   0, 0, 1, 1, 2, 2, 2, 2, 3, 3, 3, 3, 3, 3, 3, 3, 4, 4, 4, 4, 4, 4, 4, 4, 4, 4, 4, 4, 4, 4, 4, 4,
   5, 5, 5, 5, 5, 5, 5, 5, 5, 5, 5, 5, 5, 5, 5, 5, 5, 5, 5, 5, 5, 5, 5, 5, 5, 5, 5, 5, 5, 5, 5, 5,
   6, 6, 6, 6, 6, 6, 6, 6, 6, 6, 6, 6, 6, 6, 6, 6, 6, 6, 6, 6, 6, 6, 6, 6, 6, 6, 6, 6, 6, 6, 6, 6,
   6, 6, 6, 6, 6, 6, 6, 6, 6, 6, 6, 6, 6, 6, 6, 6, 6, 6, 6, 6, 6, 6, 6, 6, 6, 6, 6, 6, 6, 6, 6, 6,
   7, 7, 7, 7, 7, 7, 7, 7, 7, 7, 7, 7, 7, 7, 7, 7, 7, 7, 7, 7, 7, 7, 7, 7, 7, 7, 7, 7, 7, 7, 7, 7,
   7, 7, 7, 7, 7, 7, 7, 7, 7, 7, 7, 7, 7, 7, 7, 7, 7, 7, 7, 7, 7, 7, 7, 7, 7, 7, 7, 7, 7, 7, 7, 7,
   7, 7, 7, 7, 7, 7, 7, 7, 7, 7, 7, 7, 7, 7, 7, 7, 7, 7, 7, 7, 7, 7, 7, 7, 7, 7, 7, 7, 7, 7, 7, 7,
   7, 7, 7, 7, 7, 7, 7, 7, 7, 7, 7, 7, 7, 7, 7, 7, 7, 7, 7, 7, 7, 7, 7, 7, 7, 7, 7, 7, 7, 7, 7, 7
  ]"

definition MuLawDecompressTable :: "int list" where
  "MuLawDecompressTable = [
   -32124, -31100, -30076, -29052, -28028, -27004, -25980, -24956, -23932, -22908, -21884, -20860, -19836, -18812, -17788, -16764,
   -15996, -15484, -14972, -14460, -13948, -13436, -12924, -12412, -11900, -11388, -10876, -10364, -9852, -9340, -8828, -8316,
   -7932, -7676, -7420, -7164, -6908, -6652, -6396, -6140, -5884, -5628, -5372, -5116, -4860, -4604, -4348, -4092,
   -3900, -3772, -3644, -3516, -3388, -3260, -3132, -3004, -2876, -2748, -2620, -2492, -2364, -2236, -2108, -1980,
   -1884, -1820, -1756, -1692, -1628, -1564, -1500, -1436, -1372, -1308, -1244, -1180, -1116, -1052, -988, -924,
   -876, -844, -812, -780, -748, -716, -684, -652, -620, -588, -556, -524, -492, -460, -428, -396,
   -372, -356, -340, -324, -308, -292, -276, -260, -244, -228, -212, -196, -180, -164, -148, -132,
   -120, -112, -104, -96, -88, -80, -72, -64, -56, -48, -40, -32, -24, -16, -8, 0,
   32124, 31100, 30076, 29052, 28028, 27004, 25980, 24956, 23932, 22908, 21884, 20860, 19836, 18812, 17788, 16764,
   15996, 15484, 14972, 14460, 13948, 13436, 12924, 12412, 11900, 11388, 10876, 10364, 9852, 9340, 8828, 8316,
   7932, 7676, 7420, 7164, 6908, 6652, 6396, 6140, 5884, 5628, 5372, 5116, 4860, 4604, 4348, 4092,
   3900, 3772, 3644, 3516, 3388, 3260, 3132, 3004, 2876, 2748, 2620, 2492, 2364, 2236, 2108, 1980,
   1884, 1820, 1756, 1692, 1628, 1564, 1500, 1436, 1372, 1308, 1244, 1180, 1116, 1052, 988, 924,
   876, 844, 812, 780, 748, 716, 684, 652, 620, 588, 556, 524, 492, 460, 428, 396,
   372, 356, 340, 324, 308, 292, 276, 260, 244, 228, 212, 196, 180, 164, 148, 132,
   120, 112, 104, 96, 88, 80, 72, 64, 56, 48, 40, 32, 24, 16, 8, 0
  ]"

abbreviation (input) ulaw_cBias :: int where "ulaw_cBias \<equiv> 132"
abbreviation (input) ulaw_cClip :: int where "ulaw_cClip \<equiv> 32635"
abbreviation (input) ULAW_FRAME_LENGTH :: nat where "ULAW_FRAME_LENGTH \<equiv> 160"

text \<open>\<open>sample\<close> ranges over the \<open>short\<close>s; every assignment to it truncates to 16 bits.\<close>

definition LinearToMuLawSample :: "int \<Rightarrow> u8" where
  "LinearToMuLawSample sample0 =
     (let sign = drop_bit 8 sample0 AND 128;
          sample1 = (if sign \<noteq> 0 then to_short (- sample0) else sample0);
          sample2 = (if ulaw_cClip < sample1 then ulaw_cClip else sample1);
          sample3 = to_short (sample2 + ulaw_cBias);
          exponent = MuLawCompressTable ! nat (drop_bit 7 sample3 AND 255);
          mantissa = drop_bit (nat (exponent + 3)) sample3 AND 15;
          compressedByte = NOT (sign OR push_bit 4 exponent OR mantissa)
      in word_of_int compressedByte)"

definition ulaw_decode_sample :: "u8 \<Rightarrow> int" where
  "ulaw_decode_sample b = MuLawDecompressTable ! unat b"

subsection \<open>The codec object\<close>

definition newUlawCodec :: codec_obj where
  "newUlawCodec = \<lparr>co_media = MEDIACTRL_MEDIA_AUDIO, co_format = MEDIACTRL_CODEC_ULAW,
     co_clockrate = 8000, co_name = ''PCMU'', co_nameMask = ''PCMU'',
     co_blockLen = of_nat ULAW_FRAME_LENGTH, co_avts = [0], co_started = False\<rparr>"

definition ulaw_start :: "codec_obj \<Rightarrow> codec_obj \<times> bool" where
  "ulaw_start c = (c\<lparr>co_started := True\<rparr>, True)"

subsection \<open>Frames\<close>

text \<open>
  \<open>encode\<close> reads \<open>ULAW_FRAME_LENGTH\<close> shorts from the buffer whatever the frame's length says: a
  buffer of fewer than 320 bytes is read past its end.
\<close>

definition ulaw_encode :: "frame option \<Rightarrow> int \<Rightarrow> frame option cpp" where
  "ulaw_encode outgoing now =
     (case outgoing of None \<Rightarrow> Val None
      | Some f \<Rightarrow>
          (case fr_buffer f of None \<Rightarrow> Val None
           | Some buf \<Rightarrow>
               if fr_len f < 0 then Val None
               else if length buf < 2 * ULAW_FRAME_LENGTH then Undef
               else cpp_bind (setBuffer ((newFrame MEDIACTRL_MEDIA_AUDIO now)
                        \<lparr>fr_format := MEDIACTRL_CODEC_ULAW, fr_who := ALLOC_CODEC\<rparr>)
                      (map LinearToMuLawSample (take ULAW_FRAME_LENGTH (samples_of buf)))
                      (int ULAW_FRAME_LENGTH))
                    (\<lambda>e. Val (Some e))))"

definition ulaw_decode :: "frame option \<Rightarrow> int \<Rightarrow> frame option cpp" where
  "ulaw_decode incoming now =
     (case incoming of None \<Rightarrow> Val None
      | Some f \<Rightarrow>
          (case fr_buffer f of None \<Rightarrow> Val None
           | Some buf \<Rightarrow>
               if fr_len f \<noteq> int ULAW_FRAME_LENGTH then Val None
               else if length buf < ULAW_FRAME_LENGTH then Undef
               else cpp_bind (setBuffer ((newFrame MEDIACTRL_MEDIA_AUDIO now)
                        \<lparr>fr_format := MEDIACTRL_RAW, fr_who := ALLOC_CODEC\<rparr>)
                      (bytes_of (map ulaw_decode_sample (take ULAW_FRAME_LENGTH buf)))
                      (int ULAW_FRAME_LENGTH * 2))
                    (\<lambda>d. Val (Some d))))"

lemma ulaw_encode_raw:
  assumes "raw_frame f"
  shows "\<exists>buf g. fr_buffer f = Some buf \<and> ulaw_encode (Some f) now = Val (Some g) \<and>
     coded_frame MEDIACTRL_CODEC_ULAW 160 g \<and>
     fr_buffer g = Some (map LinearToMuLawSample (samples_of buf))"
proof -
  obtain buf where buf: "fr_buffer f = Some buf" "length buf = 320"
    using assms by (auto simp: raw_frame_def)
  then show ?thesis using assms
    by (simp add: ulaw_encode_def raw_frame_def setBuffer_def coded_frame_def newFrame_def)
qed

lemma ulaw_decode_coded:
  assumes "coded_frame MEDIACTRL_CODEC_ULAW 160 g"
  shows "\<exists>buf f. fr_buffer g = Some buf \<and> ulaw_decode (Some g) now = Val (Some f) \<and> raw_frame f \<and>
     fr_buffer f = Some (bytes_of (map ulaw_decode_sample buf))"
proof -
  obtain buf where buf: "fr_buffer g = Some buf" "length buf = 160"
    using assms by (auto simp: coded_frame_def)
  then show ?thesis using assms
    by (simp add: ulaw_decode_def raw_frame_def setBuffer_def coded_frame_def newFrame_def)
qed

interpretation ulaw: audio_codec ulaw_encode ulaw_decode MEDIACTRL_CODEC_ULAW 160
proof
  show "\<exists>g. ulaw_encode (Some f) now = Val (Some g) \<and> coded_frame MEDIACTRL_CODEC_ULAW 160 g"
    if "raw_frame f" for f now
    using ulaw_encode_raw [OF that] by blast
  show "\<exists>f. ulaw_decode (Some g) now = Val (Some f) \<and> raw_frame f"
    if "coded_frame MEDIACTRL_CODEC_ULAW 160 g" for g now
    using ulaw_decode_coded [OF that] by blast
qed (auto simp: ulaw_encode_def ulaw_decode_def split: option.split)

subsection \<open>The sample routine as G.711 arithmetic\<close>

definition ulaw_exp :: "int \<Rightarrow> int" where
  "ulaw_exp i = (if i < 2 then 0 else if i < 4 then 1 else if i < 8 then 2 else if i < 16 then 3
     else if i < 32 then 4 else if i < 64 then 5 else if i < 128 then 6 else 7)"

lemma MuLawCompressTable_eq: "MuLawCompressTable = map (\<lambda>i. ulaw_exp (int i)) [0..<256]"
  by code_simp

definition ulaw_value :: "int \<Rightarrow> int" where
  "ulaw_value c = (let v = 255 - c; mag = (8 * (v mod 16) + 132) * 2 ^ nat (v mod 128 div 16) - 132
                   in if 128 \<le> v then - mag else mag)"

lemma MuLawDecompressTable_eq: "MuLawDecompressTable = map (\<lambda>i. ulaw_value (int i)) [0..<256]"
  by code_simp

lemma ulaw_bits_all: "list_all (\<lambda>e. list_all (\<lambda>m. NOT ((0::int) OR push_bit 4 e OR m) = - 1 - 16 * e - m \<and>
   NOT ((128::int) OR push_bit 4 e OR m) = - 129 - 16 * e - m) (map int [0..<16])) (map int [0..<8])"
  by code_simp

definition ulaw_clip :: "int \<Rightarrow> int" where
  "ulaw_clip s = max (- 32635) (min 32635 s)"

definition ulaw_code :: "int \<Rightarrow> int" where
  "ulaw_code s = (let b = \<bar>ulaw_clip s\<bar> + 132; e = ulaw_exp (b div 128)
                  in 255 - ((if s < 0 then 128 else 0) + 16 * e + b div 2 ^ nat (e + 3) mod 16))"

lemma ulaw_exp_range: "ulaw_exp i \<in> {0..7}"
  by (simp add: ulaw_exp_def)

lemma ulaw_exp_bounds:
  "1 \<le> i \<Longrightarrow> i < 256 \<Longrightarrow> 2 ^ nat (ulaw_exp i) \<le> i \<and> i < 2 * 2 ^ nat (ulaw_exp i)"
  by (auto simp: ulaw_exp_def)

lemma ulaw_bits:
  assumes "0 \<le> e" "e < 8" "0 \<le> m" "m < 16"
  shows "NOT ((0::int) OR push_bit 4 e OR m) = - 1 - 16 * e - m"
    and "NOT ((128::int) OR push_bit 4 e OR m) = - 129 - 16 * e - m"
proof -
  have "e \<in> set (map int [0..<8])"
    using assms by (auto simp: image_iff intro!: bexI [of _ "nat e"])
  moreover have "m \<in> set (map int [0..<16])"
    using assms by (auto simp: image_iff intro!: bexI [of _ "nat m"])
  ultimately
  show "NOT ((0::int) OR push_bit 4 e OR m) = - 1 - 16 * e - m"
    and "NOT ((128::int) OR push_bit 4 e OR m) = - 129 - 16 * e - m"
    using ulaw_bits_all unfolding list_all_iff by blast+
qed

lemma ulaw_sign_bit: "is_short s \<Longrightarrow> drop_bit 8 s AND 128 = (if s < 0 then 128 else 0)"
proof -
  assume s: "is_short s"
  have "drop_bit 8 s AND 128 = of_bool (bit s 15) * 128"
  proof (rule bit_eqI)
    fix n
    have "bit (128::int) n \<longleftrightarrow> n = 7" using bit_exp_iff [of 7 n, where 'a = int] by simp
    then show "bit (drop_bit 8 s AND 128) n = bit (of_bool (bit s 15) * (128::int)) n"
      by (auto simp: bit_and_iff bit_drop_bit_eq)
  qed
  moreover note short_sign_bit [OF s]
  ultimately show ?thesis by simp
qed

lemma LinearToMuLawSample_eq:
  assumes "is_short s" "s \<noteq> - 32768"
  shows "LinearToMuLawSample s = word_of_int (ulaw_code s)"
proof -
  define b where "b = \<bar>ulaw_clip s\<bar> + 132"
  have b: "132 \<le> b" "b \<le> 32767" by (auto simp: b_def ulaw_clip_def)
  define e where "e = ulaw_exp (b div 128)"
  have e: "0 \<le> e" "e < 8" using ulaw_exp_range [of "b div 128"] by (auto simp: e_def)
  define m where "m = b div 2 ^ nat (e + 3) mod 16"
  have m: "0 \<le> m" "m < 16" by (auto simp: m_def)
  have idx: "nat (drop_bit 7 b AND 255) < 256" and idx': "int (nat (drop_bit 7 b AND 255)) = b div 128"
    using b by (auto simp: and_mask_simps drop_bit_eq_div)
  have tab: "MuLawCompressTable ! nat (drop_bit 7 b AND 255) = e"
    unfolding MuLawCompressTable_eq using b idx idx' by (simp add: e_def)
  have man: "drop_bit (nat (e + 3)) b AND 15 = m"
    by (simp add: and_mask_simps drop_bit_eq_div m_def)
  have s1: "(if (if s < 0 then 128 else 0) \<noteq> (0::int) then to_short (- s) else s) = \<bar>s\<bar>"
    using assms by (auto simp: is_short_def to_short_def)
  have s3: "to_short ((if ulaw_cClip < \<bar>s\<bar> then ulaw_cClip else \<bar>s\<bar>) + ulaw_cBias) = b"
    using assms by (auto simp: b_def ulaw_clip_def to_short_def is_short_def max_def min_def)
  have "LinearToMuLawSample s = word_of_int (NOT ((if s < 0 then 128 else 0) OR push_bit 4 e OR m))"
    unfolding LinearToMuLawSample_def Let_def ulaw_sign_bit [OF assms(1)] s1 s3 tab man ..
  also have "\<dots> = word_of_int ((if s < 0 then - 129 else - 1) - 16 * e - m)"
    using ulaw_bits [OF e m] by simp
  also have "\<dots> = word_of_int (ulaw_code s)"
    by (rule word_of_int_eq_iff [THEN iffD2]) (simp add: take_bit_eq_mod ulaw_code_def Let_def b_def [symmetric] e_def [symmetric] m_def [symmetric] mod_eq_dvd_iff)
  finally show ?thesis .
qed

lemma ulaw_segments: "list_all (\<lambda>e. list_all (\<lambda>m.
     ulaw_exp ((8 * m + 132) * 2 ^ e div 128) = int e \<and>
     (8 * m + 132) * 2 ^ e div 2 ^ (e + 3) mod 16 = m \<and>
     132 \<le> (8 * m + 132) * 2 ^ e \<and> (8 * m + 132) * 2 ^ e \<le> 32256) (map int [0..<16])) [0..<8]"
  by (simp add: upt_rec ulaw_exp_def)

lemma ulaw_code_value:
  assumes "0 \<le> c" "c < 256"
  shows "ulaw_code (ulaw_value c) = (if c = 127 then 255 else c)"
    and "\<bar>ulaw_value c\<bar> \<le> 32124"
proof -
  define v where "v = 255 - c"
  define e where "e = v mod 128 div 16"
  define m where "m = v mod 16"
  have e: "0 \<le> e" "e < 8" and m: "0 \<le> m" "m < 16" by (auto simp: e_def m_def)
  have ve: "v = (if 128 \<le> v then 128 else 0) + 16 * e + m"
  proof -
    have "v mod 128 = 16 * e + v mod 128 mod 16" by (simp add: e_def)
    moreover have "v mod 128 mod 16 = m" by (simp add: m_def mod_mod_cancel)
    moreover have "v mod 128 = (if 128 \<le> v then v - 128 else v)"
    proof (cases "128 \<le> v")
      case True
      have "(v - 128) mod 128 = v - 128" using True assms by (simp add: v_def)
      with True show ?thesis using minus_mod_self2 [of v 128] by simp
    qed (use assms in \<open>simp add: v_def\<close>)
    ultimately show ?thesis by auto
  qed
  define b where "b = (8 * m + 132) * 2 ^ nat e"
  have "nat e \<in> set [0..<8]" "m \<in> set (map int [0..<16])"
    using e m by (auto simp: image_iff intro!: bexI [of _ "nat m"])
  with ulaw_segments have seg: "ulaw_exp (b div 128) = e" "b div 2 ^ (nat e + 3) mod 16 = m"
      "132 \<le> b" "b \<le> 32256"
    using e unfolding list_all_iff b_def by fastforce+
  have val: "ulaw_value c = (if 128 \<le> v then - (b - 132) else b - 132)"
    by (simp add: ulaw_value_def Let_def b_def v_def e_def m_def)
  have em: "16 * e + m = 0 \<longleftrightarrow> e = 0 \<and> m = 0" using e m by (intro iffI conjI) linarith+
  show "\<bar>ulaw_value c\<bar> \<le> 32124" using val seg by auto
  have clip: "\<bar>ulaw_clip (ulaw_value c)\<bar> + 132 = b"
    using val seg by (auto simp: ulaw_clip_def)
  have "nat (e + 3) = nat e + 3" using e by simp
  then have code: "ulaw_code (ulaw_value c) = 255 - ((if ulaw_value c < 0 then 128 else 0) + 16 * e + m)"
    by (simp add: ulaw_code_def Let_def clip seg)
  have z: "b = 132 \<longleftrightarrow> e = 0 \<and> m = 0"
  proof
    assume "b = 132"
    then have "(8 * m + 132) * 2 ^ nat e = 132" by (simp add: b_def)
    moreover have "8 * m + 132 \<le> (8 * m + 132) * 2 ^ nat e" using m by simp
    ultimately have "m = 0" using m by linarith
    with \<open>(8 * m + 132) * 2 ^ nat e = 132\<close> have "(2::int) ^ nat e = 1" by simp
    then have "nat e = 0" using one_less_power [of "2::int" "nat e"] by (cases "nat e = 0") auto
    with \<open>m = 0\<close> e show "e = 0 \<and> m = 0" by simp
  qed (simp add: b_def)
  show "ulaw_code (ulaw_value c) = (if c = 127 then 255 else c)"
    using code val ve seg(3) z em e m unfolding v_def by (auto split: if_splits)
qed

lemma ulaw_value_code: assumes "is_short s" shows "32 * \<bar>ulaw_value (ulaw_code s) - ulaw_clip s\<bar> \<le> \<bar>ulaw_clip s\<bar> + 132"
proof -
  define b where "b = \<bar>ulaw_clip s\<bar> + 132"
  have b: "132 \<le> b" "b \<le> 32767" by (auto simp: b_def ulaw_clip_def)
  define e where "e = ulaw_exp (b div 128)"
  define m where "m = b div 2 ^ nat (e + 3) mod 16"
  have e: "0 \<le> e" "e < 8" using ulaw_exp_range [of "b div 128"] by (auto simp: e_def)
  have m: "0 \<le> m" "m < 16" by (auto simp: m_def)
  define mag where "mag = (8 * m + 132) * 2 ^ nat e"
  have v: "255 - ulaw_code s = (if s < 0 then 128 else 0) + 16 * e + m"
    by (simp add: ulaw_code_def Let_def b_def e_def m_def)
  have v1: "(255 - ulaw_code s) mod 16 = m" and v2: "(255 - ulaw_code s) mod 128 div 16 = e"
    and v3: "128 \<le> 255 - ulaw_code s \<longleftrightarrow> s < 0"
  proof -
    have w: "(16 * e + m) mod 128 = 16 * e + m" and d: "(16 * e + m) div 16 = e"
      using e m by simp_all
    have sh: "128 + 16 * e + m = m + 16 * (8 + e)" "128 + 16 * e + m = 16 * e + m + 128" by simp_all
    show "(255 - ulaw_code s) mod 16 = m" unfolding v
      using m by (cases "s < 0") (simp_all only: sh(1) mod_mult_self2 if_True if_False, simp_all)
    show "(255 - ulaw_code s) mod 128 div 16 = e" unfolding v
      by (cases "s < 0") (simp_all only: sh(2) mod_add_self2 if_True if_False, simp_all add: w d)
    show "128 \<le> 255 - ulaw_code s \<longleftrightarrow> s < 0" unfolding v using e m by auto
  qed
  have val: "ulaw_value (ulaw_code s) = (if s < 0 then - (mag - 132) else mag - 132)"
    unfolding ulaw_value_def Let_def v1 v2 v3 mag_def ..
  have c: "ulaw_clip s = (if s < 0 then - (b - 132) else b - 132)"
    by (auto simp: b_def ulaw_clip_def)
  define P where "P = (2::int) ^ nat e"
  define q where "q = b div (8 * P)"
  have P: "0 < P" "P \<le> b div 128" "b div 128 < 2 * P"
    using ulaw_exp_bounds [of "b div 128"] b by (auto simp: P_def e_def)
  have "2 ^ nat (e + 3) = 8 * P"
    using e by (simp add: P_def nat_add_distrib power_add)
  then have m_eq: "m = q mod 16" by (simp add: m_def q_def)
  have r: "b = 8 * P * q + b mod (8 * P)" "0 \<le> b mod (8 * P)" "b mod (8 * P) < 8 * P"
    using P(1) by (auto simp: q_def)
  have "16 \<le> q"
    using zdiv_mono1 [of "16 * (8 * P)" b "8 * P"] P by (simp add: q_def)
  moreover have "q < 32"
  proof (rule ccontr)
    assume "\<not> q < 32"
    then have "8 * P * 32 \<le> 8 * P * q" using P(1) by simp
    with r P show False by linarith
  qed
  ultimately have "q = m + 16" using m_eq by presburger
  moreover have "mag - b = 4 * P - b mod (8 * P)" if "q = m + 16"
  proof -
    from that have "8 * P * q = 8 * P * m + 128 * P" by (simp add: algebra_simps)
    moreover have "mag = 8 * P * m + 132 * P" by (simp add: mag_def P_def [symmetric] algebra_simps)
    ultimately show ?thesis using r(1) by linarith
  qed
  ultimately have "mag - b = 4 * P - b mod (8 * P)" by blast
  with r(2,3) have "- (4 * P) \<le> mag - b" "mag - b \<le> 4 * P" by linarith+
  moreover have "128 * P \<le> b" using P(2) by linarith
  ultimately have "32 * \<bar>mag - b\<bar> \<le> b" by (auto simp: abs_if)
  with val c show ?thesis unfolding b_def [symmetric] by (auto simp: abs_minus_commute split: if_splits)
qed
lemma ulaw_decode_sample_eq: "ulaw_decode_sample b = ulaw_value (uint b)"
proof -
  have "unat b < 256 - 0" using unat_u8_range [of b] by simp
  from nth_map_upt [OF this, where f = "\<lambda>i. ulaw_value (int i)"] show ?thesis
    by (simp only: ulaw_decode_sample_def MuLawDecompressTable_eq add_0 uint_nat)
qed

lemma ulaw_code_range: "0 \<le> ulaw_code s \<and> ulaw_code s < 256"
proof -
  define b where "b = \<bar>ulaw_clip s\<bar> + 132"
  define e where "e = ulaw_exp (b div 128)"
  define m where "m = b div 2 ^ nat (e + 3) mod 16"
  have "ulaw_code s = 255 - ((if s < 0 then 128 else 0) + 16 * e + m)"
    by (simp add: ulaw_code_def Let_def b_def e_def m_def)
  moreover have "0 \<le> m" "m < 16" by (simp_all add: m_def)
  moreover have "0 \<le> e" "e \<le> 7" using ulaw_exp_range [of "b div 128"] by (simp_all add: e_def)
  ultimately show ?thesis by auto
qed

lemma ulaw_decode_short: "is_short (ulaw_decode_sample b)"
  using ulaw_code_value(2) [OF uint_u8_range [of b]]
  by (simp add: ulaw_decode_sample_eq is_short_def abs_le_iff)

text \<open>What a sample becomes when it is encoded and decoded again.\<close>

lemma ulaw_transcode_sample:
  "is_short s \<Longrightarrow> s \<noteq> - 32768 \<Longrightarrow>
     ulaw_decode_sample (LinearToMuLawSample s) = ulaw_value (ulaw_code s)"
  using ulaw_code_range [of s]
  by (simp add: ulaw_decode_sample_eq LinearToMuLawSample_eq uint_word_of_int)

lemma ulaw_sample_error:
  assumes "is_short s" and "s \<noteq> - 32768"
  shows "32 * \<bar>ulaw_decode_sample (LinearToMuLawSample s) - ulaw_clip s\<bar> \<le> \<bar>ulaw_clip s\<bar> + 132"
  using assms by (simp add: ulaw_transcode_sample ulaw_value_code)

text \<open>
  Encoding what a mu-law byte decodes to gives that byte back, for every byte but 0x7F
  (negative zero), which comes back as 0xFF (positive zero): the decoder and the encoder agree
  on all 255 values of the code.
\<close>

theorem ulaw_code_roundtrip:
  "LinearToMuLawSample (ulaw_decode_sample b) = (if b = 0x7F then 0xFF else b)"
proof -
  have v: "\<bar>ulaw_value (uint b)\<bar> \<le> 32124"
    by (rule ulaw_code_value(2) [OF uint_u8_range])
  have "LinearToMuLawSample (ulaw_value (uint b)) = word_of_int (ulaw_code (ulaw_value (uint b)))"
    by (rule LinearToMuLawSample_eq) (use v in \<open>auto simp: is_short_def\<close>)
  moreover have "uint b = 127 \<longleftrightarrow> b = 0x7F" using word_uint_eq_iff [of b "0x7F"] by simp
  ultimately show ?thesis
    by (simp add: ulaw_decode_sample_eq ulaw_code_value(1) [OF uint_u8_range])
qed

text \<open>
  C40. A raw frame that is encoded and decoded again comes back as a raw frame whose samples are
  the original ones, clipped to 32635, up to one thirty-second of their biased magnitude; only
  the sample -32768 is excepted.
\<close>

theorem ulaw_frame_roundtrip:
  assumes "raw_frame f" and "fr_buffer f = Some buf"
  shows "\<exists>g h buf'. ulaw_encode (Some f) now = Val (Some g) \<and>
     ulaw_decode (Some g) now' = Val (Some h) \<and> raw_frame h \<and> fr_buffer h = Some buf' \<and>
     (\<forall>i < 160. let s = samples_of buf ! i; s' = samples_of buf' ! i in
        s \<noteq> - 32768 \<longrightarrow> 32 * \<bar>s' - ulaw_clip s\<bar> \<le> \<bar>ulaw_clip s\<bar> + 132)"
proof -
  obtain g where g: "ulaw_encode (Some f) now = Val (Some g)"
      "coded_frame MEDIACTRL_CODEC_ULAW 160 g"
      "fr_buffer g = Some (map LinearToMuLawSample (samples_of buf))"
    using ulaw_encode_raw [OF assms(1), of now] assms(2) by auto
  then obtain h where h: "ulaw_decode (Some g) now' = Val (Some h)" "raw_frame h"
      "fr_buffer h = Some (bytes_of (map ulaw_decode_sample (map LinearToMuLawSample (samples_of buf))))"
    using ulaw_decode_coded [OF g(2), of now'] by (auto simp del: map_map)
  have len: "length (samples_of buf) = 160" using assms by (auto simp: raw_frame_def)
  have rt: "samples_of (bytes_of (map ulaw_decode_sample bs)) = map ulaw_decode_sample bs" for bs
    by (rule samples_bytes) (simp add: list_all_iff ulaw_decode_short)
  have "32 * \<bar>ulaw_decode_sample (LinearToMuLawSample s) - ulaw_clip s\<bar> \<le> \<bar>ulaw_clip s\<bar> + 132"
    if "i < 160" "s = samples_of buf ! i" "s \<noteq> - 32768" for i s
    using that len by (intro ulaw_sample_error samples_of_short [of _ buf]) auto
  with g h len show ?thesis by (simp add: rt Let_def del: map_map)
qed

theorem ulaw_frame_roundtrip_witness:
  "let f = (newFrame MEDIACTRL_MEDIA_AUDIO 0)\<lparr>fr_len := 320, fr_buffer := Some (replicate 320 0)\<rparr>
   in \<exists>g h. ulaw_encode (Some f) 0 = Val (Some g) \<and> ulaw_decode (Some g) 0 = Val (Some h) \<and>
        raw_frame h"
proof -
  let ?f = "(newFrame MEDIACTRL_MEDIA_AUDIO 0)\<lparr>fr_len := 320, fr_buffer := Some (replicate 320 0)\<rparr>"
  have "raw_frame ?f" and "fr_buffer ?f = Some (replicate 320 0)"
    by (simp_all add: raw_frame_def newFrame_def)
  from ulaw_frame_roundtrip [OF this, of 0 0] show ?thesis by (auto simp only: Let_def)
qed

text \<open>
  The sample -32768 does not survive: its negation does not fit a \<open>short\<close>, so the routine
  treats it as a positive value below the bias and emits 0x7F, which decodes to silence.
\<close>

theorem ulaw_minimum_becomes_silence:
  "LinearToMuLawSample (- 32768) = 0x7F \<and> ulaw_decode_sample (LinearToMuLawSample (- 32768)) = 0"
  by code_simp

end
