(* ===== verification/AlawCodec.thy ===== *)
theory AlawCodec
  imports PcmSamples
begin

text \<open>
  \<open>src/codecs/AlawCodec.cxx\<close>: the A-law codec. The two tables and the sample routine are
  transcribed; the lemmas identify them with the arithmetic of the G.711 segments, from which
  the error bound and the round trip on code bytes follow. \<open>encode\<close> and \<open>decode\<close> are the frame
  operations, and the codec interface is interpreted on them.
\<close>

definition ALawCompressTable :: "int list" where
  "ALawCompressTable = [
   1, 1, 2, 2, 3, 3, 3, 3, 4, 4, 4, 4, 4, 4, 4, 4, 5, 5, 5, 5, 5, 5, 5, 5, 5, 5, 5, 5, 5, 5, 5, 5,
   6, 6, 6, 6, 6, 6, 6, 6, 6, 6, 6, 6, 6, 6, 6, 6, 6, 6, 6, 6, 6, 6, 6, 6, 6, 6, 6, 6, 6, 6, 6, 6,
   7, 7, 7, 7, 7, 7, 7, 7, 7, 7, 7, 7, 7, 7, 7, 7, 7, 7, 7, 7, 7, 7, 7, 7, 7, 7, 7, 7, 7, 7, 7, 7,
   7, 7, 7, 7, 7, 7, 7, 7, 7, 7, 7, 7, 7, 7, 7, 7, 7, 7, 7, 7, 7, 7, 7, 7, 7, 7, 7, 7, 7, 7, 7, 7
  ]"

definition ALawDecompressTable :: "int list" where
  "ALawDecompressTable = [
   -5504, -5248, -6016, -5760, -4480, -4224, -4992, -4736, -7552, -7296, -8064, -7808, -6528, -6272, -7040, -6784,
   -2752, -2624, -3008, -2880, -2240, -2112, -2496, -2368, -3776, -3648, -4032, -3904, -3264, -3136, -3520, -3392,
   -22016, -20992, -24064, -23040, -17920, -16896, -19968, -18944, -30208, -29184, -32256, -31232, -26112, -25088, -28160, -27136,
   -11008, -10496, -12032, -11520, -8960, -8448, -9984, -9472, -15104, -14592, -16128, -15616, -13056, -12544, -14080, -13568,
   -344, -328, -376, -360, -280, -264, -312, -296, -472, -456, -504, -488, -408, -392, -440, -424,
   -88, -72, -120, -104, -24, -8, -56, -40, -216, -200, -248, -232, -152, -136, -184, -168,
   -1376, -1312, -1504, -1440, -1120, -1056, -1248, -1184, -1888, -1824, -2016, -1952, -1632, -1568, -1760, -1696,
   -688, -656, -752, -720, -560, -528, -624, -592, -944, -912, -1008, -976, -816, -784, -880, -848,
   5504, 5248, 6016, 5760, 4480, 4224, 4992, 4736, 7552, 7296, 8064, 7808, 6528, 6272, 7040, 6784,
   2752, 2624, 3008, 2880, 2240, 2112, 2496, 2368, 3776, 3648, 4032, 3904, 3264, 3136, 3520, 3392,
   22016, 20992, 24064, 23040, 17920, 16896, 19968, 18944, 30208, 29184, 32256, 31232, 26112, 25088, 28160, 27136,
   11008, 10496, 12032, 11520, 8960, 8448, 9984, 9472, 15104, 14592, 16128, 15616, 13056, 12544, 14080, 13568,
   344, 328, 376, 360, 280, 264, 312, 296, 472, 456, 504, 488, 408, 392, 440, 424,
   88, 72, 120, 104, 24, 8, 56, 40, 216, 200, 248, 232, 152, 136, 184, 168,
   1376, 1312, 1504, 1440, 1120, 1056, 1248, 1184, 1888, 1824, 2016, 1952, 1632, 1568, 1760, 1696,
   688, 656, 752, 720, 560, 528, 624, 592, 944, 912, 1008, 976, 816, 784, 880, 848
  ]"

abbreviation (input) alaw_cClip :: int where "alaw_cClip \<equiv> 32635"
abbreviation (input) ALAW_FRAME_LENGTH :: nat where "ALAW_FRAME_LENGTH \<equiv> 160"

text \<open>\<open>sample\<close> ranges over the \<open>short\<close>s; every assignment to it truncates to 16 bits.\<close>

definition LinearToALawSample :: "int \<Rightarrow> u8" where
  "LinearToALawSample sample0 =
     (let sign = drop_bit 8 (NOT sample0) AND 128;
          sample1 = (if sign = 0 then to_short (- sample0) else sample0);
          sample2 = (if alaw_cClip < sample1 then alaw_cClip else sample1);
          compressedByte =
            (if 256 \<le> sample2 then
               (let exponent = ALawCompressTable ! nat (drop_bit 8 sample2 AND 127);
                    mantissa = drop_bit (nat (exponent + 3)) sample2 AND 15
                in word_of_int (push_bit 4 exponent OR mantissa))
             else word_of_int (drop_bit 4 sample2))
      in compressedByte XOR word_of_int (sign XOR 85))"

definition alaw_decode_sample :: "u8 \<Rightarrow> int" where
  "alaw_decode_sample b = ALawDecompressTable ! unat b"

subsection \<open>The codec object\<close>

definition newAlawCodec :: codec_obj where
  "newAlawCodec = \<lparr>co_media = MEDIACTRL_MEDIA_AUDIO, co_format = MEDIACTRL_CODEC_ALAW,
     co_clockrate = 8000, co_name = ''PCMA'', co_nameMask = ''PCMA'',
     co_blockLen = of_nat ALAW_FRAME_LENGTH, co_avts = [8], co_started = False\<rparr>"

definition alaw_start :: "codec_obj \<Rightarrow> codec_obj \<times> bool" where
  "alaw_start c = (c\<lparr>co_started := True\<rparr>, True)"

subsection \<open>Frames\<close>

text \<open>
  \<open>encode\<close> reads \<open>ALAW_FRAME_LENGTH\<close> shorts from the buffer whatever the frame's length says: a
  buffer of fewer than 320 bytes is read past its end.
\<close>

definition alaw_encode :: "frame option \<Rightarrow> int \<Rightarrow> frame option cpp" where
  "alaw_encode outgoing now =
     (case outgoing of None \<Rightarrow> Val None
      | Some f \<Rightarrow>
          (case fr_buffer f of None \<Rightarrow> Val None
           | Some buf \<Rightarrow>
               if fr_len f < 0 then Val None
               else if length buf < 2 * ALAW_FRAME_LENGTH then Undef
               else cpp_bind (setBuffer ((newFrame MEDIACTRL_MEDIA_AUDIO now)
                        \<lparr>fr_format := MEDIACTRL_CODEC_ALAW, fr_who := ALLOC_CODEC\<rparr>)
                      (map LinearToALawSample (take ALAW_FRAME_LENGTH (samples_of buf)))
                      (int ALAW_FRAME_LENGTH))
                    (\<lambda>e. Val (Some e))))"

definition alaw_decode :: "frame option \<Rightarrow> int \<Rightarrow> frame option cpp" where
  "alaw_decode incoming now =
     (case incoming of None \<Rightarrow> Val None
      | Some f \<Rightarrow>
          (case fr_buffer f of None \<Rightarrow> Val None
           | Some buf \<Rightarrow>
               if fr_len f \<noteq> int ALAW_FRAME_LENGTH then Val None
               else if length buf < ALAW_FRAME_LENGTH then Undef
               else cpp_bind (setBuffer ((newFrame MEDIACTRL_MEDIA_AUDIO now)
                        \<lparr>fr_format := MEDIACTRL_RAW, fr_who := ALLOC_CODEC\<rparr>)
                      (bytes_of (map alaw_decode_sample (take ALAW_FRAME_LENGTH buf)))
                      (int ALAW_FRAME_LENGTH * 2))
                    (\<lambda>d. Val (Some d))))"

lemma alaw_encode_raw:
  assumes "raw_frame f"
  shows "\<exists>buf g. fr_buffer f = Some buf \<and> alaw_encode (Some f) now = Val (Some g) \<and>
     coded_frame MEDIACTRL_CODEC_ALAW 160 g \<and>
     fr_buffer g = Some (map LinearToALawSample (samples_of buf))"
proof -
  obtain buf where buf: "fr_buffer f = Some buf" "length buf = 320"
    using assms by (auto simp: raw_frame_def)
  then show ?thesis using assms
    by (simp add: alaw_encode_def raw_frame_def setBuffer_def coded_frame_def newFrame_def)
qed

lemma alaw_decode_coded:
  assumes "coded_frame MEDIACTRL_CODEC_ALAW 160 g"
  shows "\<exists>buf f. fr_buffer g = Some buf \<and> alaw_decode (Some g) now = Val (Some f) \<and> raw_frame f \<and>
     fr_buffer f = Some (bytes_of (map alaw_decode_sample buf))"
proof -
  obtain buf where buf: "fr_buffer g = Some buf" "length buf = 160"
    using assms by (auto simp: coded_frame_def)
  then show ?thesis using assms
    by (simp add: alaw_decode_def raw_frame_def setBuffer_def coded_frame_def newFrame_def)
qed

interpretation alaw: audio_codec alaw_encode alaw_decode MEDIACTRL_CODEC_ALAW 160
proof
  show "\<exists>g. alaw_encode (Some f) now = Val (Some g) \<and> coded_frame MEDIACTRL_CODEC_ALAW 160 g"
    if "raw_frame f" for f now
    using alaw_encode_raw [OF that] by blast
  show "\<exists>f. alaw_decode (Some g) now = Val (Some f) \<and> raw_frame f"
    if "coded_frame MEDIACTRL_CODEC_ALAW 160 g" for g now
    using alaw_decode_coded [OF that] by blast
qed (auto simp: alaw_encode_def alaw_decode_def split: option.split)

subsection \<open>The sample routine as G.711 arithmetic\<close>

definition alaw_exp :: "int \<Rightarrow> int" where
  "alaw_exp i = (if i < 1 then 0 else if i < 2 then 1 else if i < 4 then 2 else if i < 8 then 3
     else if i < 16 then 4 else if i < 32 then 5 else if i < 64 then 6 else 7)"

lemma ALawCompressTable_eq: "ALawCompressTable = map (\<lambda>i. max 1 (alaw_exp (int i))) [0..<128]"
  by code_simp

definition alaw_clip :: "int \<Rightarrow> int" where
  "alaw_clip s = max (- 32635) (min 32635 s)"

text \<open>Segment and mantissa of a magnitude, then the byte before and after the even-bit inversion.\<close>

definition alaw_mag_code :: "int \<Rightarrow> int" where
  "alaw_mag_code m = (let e = alaw_exp (m div 256) in 16 * e + m div 2 ^ nat (max e 1 + 3) mod 16)"

definition alaw_mag_value :: "int \<Rightarrow> int" where
  "alaw_mag_value c = (let e = c div 16; man = c mod 16
                       in if e = 0 then 16 * man + 8 else (16 * man + 264) * 2 ^ nat (e - 1))"

definition alaw_code :: "int \<Rightarrow> int" where
  "alaw_code s = (alaw_mag_code \<bar>alaw_clip s\<bar> + (if s < 0 then 0 else 128)) XOR 85"

definition alaw_value :: "int \<Rightarrow> int" where
  "alaw_value c = (let a = c XOR 85 in if a < 128 then - alaw_mag_value a else alaw_mag_value (a - 128))"

lemma ALawDecompressTable_eq: "ALawDecompressTable = map (\<lambda>i. alaw_value (int i)) [0..<256]"
  by code_simp

lemma alaw_xor_all: "list_all (\<lambda>c. (c XOR (128 XOR 85) :: int) = (c + 128) XOR 85 \<and>
     (c XOR 85) XOR 85 = c \<and> ((c + 128) XOR 85) XOR 85 = c + 128 \<and> 0 \<le> c XOR 85 \<and> c XOR 85 < 256 \<and>
     0 \<le> (c + 128) XOR 85 \<and> (c + 128) XOR 85 < 256) (map int [0..<128])"
  by code_simp

lemma alaw_xor:
  assumes "0 \<le> c" "c < 128"
  shows "c XOR (128 XOR 85) = (c + 128) XOR (85::int)" "(c XOR 85) XOR 85 = c"
    "((c + 128) XOR 85) XOR 85 = c + 128" "0 \<le> c XOR 85" "c XOR 85 < 256"
    "0 \<le> (c + 128) XOR 85" "(c + 128) XOR 85 < 256"
proof -
  have "c \<in> set (map int [0..<128])"
    using assms by (auto simp: image_iff intro!: bexI [of _ "nat c"])
  then have "c XOR (128 XOR 85) = (c + 128) XOR 85 \<and>
     (c XOR 85) XOR 85 = c \<and> ((c + 128) XOR 85) XOR 85 = c + 128 \<and> 0 \<le> c XOR 85 \<and> c XOR 85 < 256 \<and>
     0 \<le> (c + 128) XOR 85 \<and> (c + 128) XOR 85 < 256"
    using alaw_xor_all unfolding list_all_iff by (rule bspec [rotated])
  then show "c XOR (128 XOR 85) = (c + 128) XOR (85::int)" "(c XOR 85) XOR 85 = c"
    "((c + 128) XOR 85) XOR 85 = c + 128" "0 \<le> c XOR 85" "c XOR 85 < 256"
    "0 \<le> (c + 128) XOR 85" "(c + 128) XOR 85 < 256" by blast+
qed

lemma alaw_exp_range: "0 \<le> alaw_exp i \<and> alaw_exp i \<le> 7"
  by (simp add: alaw_exp_def)

lemma alaw_exp_bounds:
  "1 \<le> i \<Longrightarrow> i < 128 \<Longrightarrow> 1 \<le> alaw_exp i \<and> 2 ^ nat (alaw_exp i - 1) \<le> i \<and> i < 2 * 2 ^ nat (alaw_exp i - 1)"
  by (auto simp: alaw_exp_def)

lemma alaw_mag_code_range: "0 \<le> alaw_mag_code m \<and> alaw_mag_code m < 128"
proof -
  define e where "e = alaw_exp (m div 256)"
  define man where "man = m div 2 ^ nat (max e 1 + 3) mod 16"
  have "alaw_mag_code m = 16 * e + man"
    by (simp add: alaw_mag_code_def Let_def e_def man_def)
  moreover have "0 \<le> e \<and> e \<le> 7" unfolding e_def by (rule alaw_exp_range)
  moreover have "0 \<le> man \<and> man < 16" by (simp add: man_def)
  ultimately show ?thesis by simp
qed

lemma alaw_byte_range: "0 \<le> alaw_code s \<and> alaw_code s < 256"
  using alaw_mag_code_range [of "\<bar>alaw_clip s\<bar>"] by (auto simp: alaw_code_def alaw_xor)

lemma alaw_sign_bit: "is_short s \<Longrightarrow> drop_bit 8 (NOT s) AND 128 = (if s < 0 then 0 else 128)"
proof -
  assume s: "is_short s"
  have "drop_bit 8 (NOT s) AND 128 = of_bool (\<not> bit s 15) * 128"
  proof (rule bit_eqI)
    fix n
    have "bit (128::int) n \<longleftrightarrow> n = 7" using bit_exp_iff [of 7 n, where 'a = int] by simp
    then show "bit (drop_bit 8 (NOT s) AND 128) n = bit (of_bool (\<not> bit s 15) * (128::int)) n"
      by (auto simp: bit_and_iff bit_drop_bit_eq bit_not_iff)
  qed
  moreover note short_sign_bit [OF s]
  ultimately show ?thesis by simp
qed

lemma alaw_or_all: "list_all (\<lambda>e. list_all (\<lambda>m. ((push_bit 4 e OR m) :: int) = 16 * e + m)
   (map int [0..<16])) (map int [0..<8])"
  by code_simp

lemma alaw_or: assumes "0 \<le> e" "e < 8" "0 \<le> m" "m < 16" shows "(push_bit 4 e OR m) = 16 * e + (m::int)"
proof -
  have "e \<in> set (map int [0..<8])"
    using assms by (auto simp: image_iff intro!: bexI [of _ "nat e"])
  moreover have "m \<in> set (map int [0..<16])"
    using assms by (auto simp: image_iff intro!: bexI [of _ "nat m"])
  ultimately show ?thesis using alaw_or_all unfolding list_all_iff by blast
qed

lemma LinearToALawSample_eq:
  assumes "is_short s" "s \<noteq> - 32768"
  shows "LinearToALawSample s = word_of_int (alaw_code s)"
proof -
  define m where "m = \<bar>alaw_clip s\<bar>"
  have m: "0 \<le> m" "m \<le> 32635" by (auto simp: m_def alaw_clip_def)
  define e where "e = alaw_exp (m div 256)"
  have e: "0 \<le> e" "e < 8" using alaw_exp_range [of "m div 256"] by (auto simp: e_def)
  have s1: "(if (if s < 0 then 0 else 128) = (0::int) then to_short (- s) else s) = \<bar>s\<bar>"
    using assms by (auto simp: is_short_def to_short_def)
  have s2: "(if alaw_cClip < \<bar>s\<bar> then alaw_cClip else \<bar>s\<bar>) = m"
    by (auto simp: m_def alaw_clip_def max_def min_def)
  have byte: "(if 256 \<le> m then word_of_int (push_bit 4 (ALawCompressTable ! nat (drop_bit 8 m AND 127)) OR
        (drop_bit (nat (ALawCompressTable ! nat (drop_bit 8 m AND 127) + 3)) m AND 15))
      else word_of_int (drop_bit 4 m)) = (word_of_int (alaw_mag_code m) :: u8)"
  proof (cases "256 \<le> m")
    case True
    have idx: "nat (drop_bit 8 m AND 127) < 128 - 0" and idx': "int (nat (drop_bit 8 m AND 127)) = m div 256"
      using m by (auto simp: and_mask_simps drop_bit_eq_div)
    have e1: "1 \<le> e" using alaw_exp_bounds [of "m div 256"] True m by (simp add: e_def)
    have tab: "ALawCompressTable ! nat (drop_bit 8 m AND 127) = e"
      using nth_map_upt [OF idx, of "\<lambda>i. max 1 (alaw_exp (int i))"] e1
      by (simp only: ALawCompressTable_eq add_0 idx' e_def [symmetric] max_absorb2)
    have "drop_bit (nat (e + 3)) m AND 15 = m div 2 ^ nat (max e 1 + 3) mod 16"
      using e1 by (simp add: and_mask_simps drop_bit_eq_div max_absorb1)
    then show ?thesis using True e unfolding tab
      by (simp add: alaw_or alaw_mag_code_def Let_def e_def [symmetric])
  next
    case False
    with m show ?thesis
      by (simp add: alaw_mag_code_def alaw_exp_def drop_bit_eq_div)
  qed
  have "LinearToALawSample s = word_of_int (alaw_mag_code m) XOR
      word_of_int ((if s < 0 then 0 else 128) XOR 85)"
    unfolding LinearToALawSample_def Let_def alaw_sign_bit [OF assms(1)] s1 s2 byte ..
  also have "\<dots> = word_of_int (alaw_mag_code m XOR ((if s < 0 then 0 else 128) XOR 85))"
    by (simp add: of_int_xor_eq)
  also have "\<dots> = word_of_int (alaw_code s)"
    using alaw_xor(1) [of "alaw_mag_code m"] alaw_mag_code_range [of m]
    by (simp add: alaw_code_def m_def [symmetric])
  finally show ?thesis .
qed

lemma alaw_mag_segments: "list_all (\<lambda>c. alaw_mag_code (alaw_mag_value c) = c \<and>
     8 \<le> alaw_mag_value c \<and> alaw_mag_value c \<le> 32256) (map int [0..<128])"
  by code_simp

lemma alaw_mag_code_value:
  assumes "0 \<le> c" "c < 128"
  shows "alaw_mag_code (alaw_mag_value c) = c" "8 \<le> alaw_mag_value c" "alaw_mag_value c \<le> 32256"
proof -
  have "c \<in> set (map int [0..<128])"
    using assms by (auto simp: image_iff intro!: bexI [of _ "nat c"])
  then have "alaw_mag_code (alaw_mag_value c) = c \<and> 8 \<le> alaw_mag_value c \<and> alaw_mag_value c \<le> 32256"
    using alaw_mag_segments unfolding list_all_iff by (rule bspec [rotated])
  then show "alaw_mag_code (alaw_mag_value c) = c" "8 \<le> alaw_mag_value c" "alaw_mag_value c \<le> 32256"
    by blast+
qed

lemma alaw_xor_byte_all: "list_all (\<lambda>c. (c XOR 85) XOR 85 = c \<and> 0 \<le> c XOR 85 \<and> c XOR (85::int) < 256) (map int [0..<256])"
  by code_simp

lemma alaw_xor_byte:
  assumes "0 \<le> c" "c < 256"
  shows "(c XOR 85) XOR 85 = c" "0 \<le> c XOR 85" "c XOR (85::int) < 256"
proof -
  have "c \<in> set (map int [0..<256])"
    using assms by (auto simp: image_iff intro!: bexI [of _ "nat c"])
  then have "(c XOR 85) XOR 85 = c \<and> 0 \<le> c XOR 85 \<and> c XOR (85::int) < 256"
    using alaw_xor_byte_all unfolding list_all_iff by (rule bspec [rotated])
  then show "(c XOR 85) XOR 85 = c" "0 \<le> c XOR 85" "c XOR (85::int) < 256"
    by blast+
qed

lemma alaw_code_value:
  assumes "0 \<le> c" "c < 256"
  shows "alaw_code (alaw_value c) = c" and "\<bar>alaw_value c\<bar> \<le> 32256"
proof -
  define a where "a = c XOR 85"
  have a: "0 \<le> a" "a < 256" "a XOR 85 = c" using alaw_xor_byte [OF assms] by (simp_all add: a_def)
  show "alaw_code (alaw_value c) = c"
  proof (cases "a < 128")
    case True
    with a alaw_mag_code_value [of a] show ?thesis
      by (simp add: alaw_value_def alaw_code_def Let_def a_def [symmetric] alaw_clip_def)
  next
    case False
    with a alaw_mag_code_value [of "a - 128"] show ?thesis
      by (simp add: alaw_value_def alaw_code_def Let_def a_def [symmetric] alaw_clip_def)
  qed
  show "\<bar>alaw_value c\<bar> \<le> 32256"
    using a alaw_mag_code_value [of a] alaw_mag_code_value [of "a - 128"]
    by (auto simp: alaw_value_def Let_def a_def [symmetric])
qed

text \<open>The quantisation error of one magnitude.\<close>

lemma alaw_mag_error:
  assumes "0 \<le> m" "m \<le> 32635"
  shows "32 * \<bar>alaw_mag_value (alaw_mag_code m) - m\<bar> \<le> max 256 m"
proof -
  define e where "e = alaw_exp (m div 256)"
  define P where "P = (2::int) ^ nat (max e 1 - 1)"
  define q where "q = m div (16 * P)"
  have P: "0 < P" by (simp add: P_def)
  have e: "0 \<le> e" "e \<le> 7" using alaw_exp_range [of "m div 256"] by (auto simp: e_def)
  have "nat (max e 1 + 3) = nat (max e 1 - 1) + 4" by simp
  then have "2 ^ nat (max e 1 + 3) = 16 * P" by (simp add: P_def power_add)
  then have code: "alaw_mag_code m = 16 * e + q mod 16"
    by (simp add: alaw_mag_code_def Let_def e_def [symmetric] q_def)
  then have val: "alaw_mag_value (alaw_mag_code m) =
      (if e = 0 then 16 * (q mod 16) + 8 else (16 * (q mod 16) + 264) * 2 ^ nat (e - 1))"
    by (simp add: alaw_mag_value_def Let_def)
  have r: "m = 16 * P * q + m mod (16 * P)" "0 \<le> m mod (16 * P)" "m mod (16 * P) < 16 * P"
    using P by (auto simp: q_def)
  show ?thesis
  proof (cases "m < 256")
    case True
    then have "e = 0" using assms by (simp add: e_def alaw_exp_def)
    then have "P = 1" by (simp add: P_def)
    have "q < 16" using True \<open>P = 1\<close> by (simp add: q_def)
    moreover have "0 \<le> q" using assms \<open>P = 1\<close> by (simp add: q_def)
    ultimately have "alaw_mag_value (alaw_mag_code m) = 16 * q + 8"
      using val \<open>e = 0\<close> by simp
    moreover have "m = 16 * q + m mod 16" using \<open>P = 1\<close> by (simp add: q_def)
    moreover have "0 \<le> m mod 16" "m mod 16 < 16" by simp_all
    ultimately have "\<bar>alaw_mag_value (alaw_mag_code m) - m\<bar> \<le> 8" unfolding abs_le_iff by linarith
    then show ?thesis using True by (simp add: max_absorb1)
  next
    case False
    with alaw_exp_bounds [of "m div 256"] assms
    have e1: "1 \<le> e" "P \<le> m div 256" "m div 256 < 2 * P" by (auto simp: e_def P_def max_def)
    have m: "256 * P \<le> m" "m < 512 * P" using e1(2,3) by linarith+
    have "16 \<le> q" using zdiv_mono1 [of "16 * (16 * P)" m "16 * P"] P m by (simp add: q_def)
    moreover have "q < 32"
    proof (rule ccontr)
      assume "\<not> q < 32"
      then have "16 * P * 32 \<le> 16 * P * q" using P by simp
      with r m show False by linarith
    qed
    ultimately have "q mod 16 = q - 16"
      using int_mod_pos_eq [of q 16 1 "q - 16"] by simp
    moreover have "(16 * (q - 16) + 264) * P = 16 * P * q + 8 * P" by (simp add: algebra_simps)
    ultimately have "alaw_mag_value (alaw_mag_code m) = 16 * P * q + 8 * P"
      using val e1(1) by (simp add: P_def max_def)
    then have "\<bar>alaw_mag_value (alaw_mag_code m) - m\<bar> \<le> 8 * P"
      unfolding abs_le_iff using r by linarith
    with m False show ?thesis by (simp add: max_absorb2)
  qed
qed

lemma alaw_value_code:
  "32 * \<bar>alaw_value (alaw_code s) - alaw_clip s\<bar> \<le> max 256 \<bar>alaw_clip s\<bar>"
proof -
  define m where "m = \<bar>alaw_clip s\<bar>"
  have m: "0 \<le> m" "m \<le> 32635" by (auto simp: m_def alaw_clip_def)
  have "alaw_value (alaw_code s) = (if s < 0 then - alaw_mag_value (alaw_mag_code m) else alaw_mag_value (alaw_mag_code m))"
    using alaw_mag_code_range [of m]
    by (simp add: alaw_value_def alaw_code_def Let_def m_def [symmetric] alaw_xor)
  moreover have "alaw_clip s = (if s < 0 then - m else m)" by (auto simp: m_def alaw_clip_def)
  ultimately show ?thesis using alaw_mag_error [OF m] unfolding m_def [symmetric]
    by (simp add: abs_minus_commute)
qed

lemma alaw_decode_sample_eq: "alaw_decode_sample b = alaw_value (uint b)"
proof -
  have "unat b < 256 - 0" using unat_u8_range [of b] by simp
  from nth_map_upt [OF this, where f = "\<lambda>i. alaw_value (int i)"] show ?thesis
    by (simp only: alaw_decode_sample_def ALawDecompressTable_eq add_0 uint_nat)
qed

lemma alaw_decode_short: "is_short (alaw_decode_sample b)"
  using alaw_code_value(2) [OF uint_u8_range [of b]]
  by (simp add: alaw_decode_sample_eq is_short_def abs_le_iff)

text \<open>What a sample becomes when it is encoded and decoded again.\<close>

lemma alaw_transcode_sample:
  "is_short s \<Longrightarrow> s \<noteq> - 32768 \<Longrightarrow>
     alaw_decode_sample (LinearToALawSample s) = alaw_value (alaw_code s)"
  using alaw_byte_range [of s]
  by (simp add: alaw_decode_sample_eq LinearToALawSample_eq uint_word_of_int)

lemma alaw_sample_error:
  assumes "is_short s" and "s \<noteq> - 32768"
  shows "32 * \<bar>alaw_decode_sample (LinearToALawSample s) - alaw_clip s\<bar> \<le> max 256 \<bar>alaw_clip s\<bar>"
  using assms by (simp add: alaw_transcode_sample alaw_value_code)

text \<open>
  Encoding what an A-law byte decodes to gives that byte back, for each of the 256 bytes.
\<close>

theorem alaw_code_roundtrip: "LinearToALawSample (alaw_decode_sample b) = b"
proof -
  have v: "\<bar>alaw_value (uint b)\<bar> \<le> 32256"
    by (rule alaw_code_value(2) [OF uint_u8_range])
  have "LinearToALawSample (alaw_value (uint b)) = word_of_int (alaw_code (alaw_value (uint b)))"
    by (rule LinearToALawSample_eq) (use v in \<open>auto simp: is_short_def\<close>)
  then show ?thesis
    by (simp add: alaw_decode_sample_eq alaw_code_value(1) [OF uint_u8_range])
qed

text \<open>
  A raw frame that is encoded and decoded again comes back as a raw frame whose samples are
  the original ones, clipped to 32635, up to one thirty-second of their magnitude, and up to 8
  in the lowest segment; only the sample -32768 is excepted.
\<close>

theorem alaw_frame_roundtrip:
  assumes "raw_frame f" and "fr_buffer f = Some buf"
  shows "\<exists>g h buf'. alaw_encode (Some f) now = Val (Some g) \<and>
     alaw_decode (Some g) now' = Val (Some h) \<and> raw_frame h \<and> fr_buffer h = Some buf' \<and>
     (\<forall>i < 160. let s = samples_of buf ! i; s' = samples_of buf' ! i in
        s \<noteq> - 32768 \<longrightarrow> 32 * \<bar>s' - alaw_clip s\<bar> \<le> max 256 \<bar>alaw_clip s\<bar>)"
proof -
  obtain g where g: "alaw_encode (Some f) now = Val (Some g)"
      "coded_frame MEDIACTRL_CODEC_ALAW 160 g"
      "fr_buffer g = Some (map LinearToALawSample (samples_of buf))"
    using alaw_encode_raw [OF assms(1), of now] assms(2) by auto
  then obtain h where h: "alaw_decode (Some g) now' = Val (Some h)" "raw_frame h"
      "fr_buffer h = Some (bytes_of (map alaw_decode_sample (map LinearToALawSample (samples_of buf))))"
    using alaw_decode_coded [OF g(2), of now'] by (auto simp del: map_map)
  have len: "length (samples_of buf) = 160" using assms by (auto simp: raw_frame_def)
  have rt: "samples_of (bytes_of (map alaw_decode_sample bs)) = map alaw_decode_sample bs" for bs
    by (rule samples_bytes) (simp add: list_all_iff alaw_decode_short)
  have "32 * \<bar>alaw_decode_sample (LinearToALawSample s) - alaw_clip s\<bar> \<le> max 256 \<bar>alaw_clip s\<bar>"
    if "i < 160" "s = samples_of buf ! i" "s \<noteq> - 32768" for i s
    using that len by (intro alaw_sample_error samples_of_short [of _ buf]) auto
  with g h len show ?thesis by (simp add: rt Let_def del: map_map)
qed

theorem alaw_frame_roundtrip_witness:
  "let f = (newFrame MEDIACTRL_MEDIA_AUDIO 0)\<lparr>fr_len := 320, fr_buffer := Some (replicate 320 0)\<rparr>
   in \<exists>g h. alaw_encode (Some f) 0 = Val (Some g) \<and> alaw_decode (Some g) 0 = Val (Some h) \<and>
        raw_frame h"
proof -
  let ?f = "(newFrame MEDIACTRL_MEDIA_AUDIO 0)\<lparr>fr_len := 320, fr_buffer := Some (replicate 320 0)\<rparr>"
  have "raw_frame ?f" and "fr_buffer ?f = Some (replicate 320 0)"
    by (simp_all add: raw_frame_def newFrame_def)
  from alaw_frame_roundtrip [OF this, of 0 0] show ?thesis by (auto simp only: Let_def)
qed

text \<open>
  The sample -32768 does not survive: its negation does not fit a \<open>short\<close>, so the loudest
  negative sample is emitted as the byte 0x55, which decodes to -8.
\<close>

theorem alaw_minimum_becomes_silence:
  "LinearToALawSample (- 32768) = 0x55 \<and> alaw_decode_sample (LinearToALawSample (- 32768)) = - 8"
  by code_simp

end
