(* ===== verification/GsmCodec.thy ===== *)
theory GsmCodec
  imports PcmSamples
begin

text \<open>
  \<open>src/codecs/GsmCodec.cxx\<close>: the frame operations of the GSM codec. The compression itself is
  libgsm's and a parameter: \<open>gsm_encode\<close> and \<open>gsm_decode\<close> read and update the context, take the
  160 samples or the 33 bytes of a frame and return the other; \<open>gsm_decode\<close>'s negative result is
  \<open>None\<close>. \<open>gsm_create\<close> returns no context when its allocation fails.
\<close>

abbreviation (input) GSM_FRAME_LENGTH :: nat where "GSM_FRAME_LENGTH \<equiv> 33"
abbreviation (input) GSM_SAMPLES :: nat where "GSM_SAMPLES \<equiv> 160"

record 'c libgsm =
  gsm_create :: "'c option"
  gsm_encode :: "'c \<Rightarrow> int list \<Rightarrow> u8 list \<times> 'c"
  gsm_decode :: "'c \<Rightarrow> u8 list \<Rightarrow> int list option \<times> 'c"

record 'c gsm_codec = codec_obj +
  gsm_context :: "'c option"

definition newGsmCodec :: "'c gsm_codec" where
  "newGsmCodec = \<lparr>co_media = MEDIACTRL_MEDIA_AUDIO, co_format = MEDIACTRL_CODEC_GSM,
     co_clockrate = 8000, co_name = ''GSM'', co_nameMask = ''GSM'',
     co_blockLen = of_nat GSM_FRAME_LENGTH, co_avts = [3], co_started = False,
     gsm_context = None\<rparr>"

text \<open>A restart destroys the context first and then creates a new one.\<close>

definition gsm_start :: "'c libgsm \<Rightarrow> 'c gsm_codec \<Rightarrow> 'c gsm_codec \<times> bool" where
  "gsm_start lib c =
     (let c1 = c\<lparr>gsm_context := gsm_create lib\<rparr> in
      case gsm_context c1 of None \<Rightarrow> (c1, False)
      | Some _ \<Rightarrow> (c1\<lparr>co_started := True\<rparr>, True))"

text \<open>A frame that reaches libgsm before \<open>start()\<close> created the context passes it NULL.\<close>

definition gsm_encode_frame ::
  "'c libgsm \<Rightarrow> 'c gsm_codec \<Rightarrow> frame option \<Rightarrow> int \<Rightarrow> (frame option \<times> 'c gsm_codec) cpp" where
  "gsm_encode_frame lib c outgoing now =
     (case outgoing of None \<Rightarrow> Val (None, c)
      | Some f \<Rightarrow>
          (case fr_buffer f of None \<Rightarrow> Val (None, c)
           | Some buf \<Rightarrow>
               if fr_len f \<noteq> int GSM_SAMPLES * 2 then Val (None, c)
               else if length buf < 2 * GSM_SAMPLES then Undef
               else (case gsm_context c of None \<Rightarrow> Undef
                     | Some ctx \<Rightarrow>
                         (let (bytes, ctx') = gsm_encode lib ctx (take GSM_SAMPLES (samples_of buf)) in
                          cpp_bind (setBuffer ((newFrame MEDIACTRL_MEDIA_AUDIO now)
                              \<lparr>fr_format := MEDIACTRL_CODEC_GSM, fr_who := ALLOC_CODEC\<rparr>)
                              bytes (int GSM_FRAME_LENGTH))
                            (\<lambda>e. Val (Some e, c\<lparr>gsm_context := Some ctx'\<rparr>))))))"

definition gsm_decode_frame ::
  "'c libgsm \<Rightarrow> 'c gsm_codec \<Rightarrow> frame option \<Rightarrow> int \<Rightarrow> (frame option \<times> 'c gsm_codec) cpp" where
  "gsm_decode_frame lib c incoming now =
     (case incoming of None \<Rightarrow> Val (None, c)
      | Some f \<Rightarrow>
          (case fr_buffer f of None \<Rightarrow> Val (None, c)
           | Some buf \<Rightarrow>
               if fr_len f \<noteq> int GSM_FRAME_LENGTH then Val (None, c)
               else if length buf < GSM_FRAME_LENGTH then Undef
               else (case gsm_context c of None \<Rightarrow> Undef
                     | Some ctx \<Rightarrow>
                         (let (res, ctx') = gsm_decode lib ctx (take GSM_FRAME_LENGTH buf);
                              c' = c\<lparr>gsm_context := Some ctx'\<rparr> in
                          case res of None \<Rightarrow> Val (None, c')
                          | Some samples \<Rightarrow>
                              cpp_bind (setBuffer ((newFrame MEDIACTRL_MEDIA_AUDIO now)
                                  \<lparr>fr_format := MEDIACTRL_RAW, fr_who := ALLOC_CODEC\<rparr>)
                                  (bytes_of samples) (int GSM_SAMPLES * 2))
                                (\<lambda>d. Val (Some d, c'))))))"

text \<open>libgsm's documented sizes: 33 bytes for a frame, 160 samples back.\<close>

definition libgsm_sizes :: "'c libgsm \<Rightarrow> bool" where
  "libgsm_sizes lib \<longleftrightarrow>
     (\<forall>ctx ss. length (fst (gsm_encode lib ctx ss)) = GSM_FRAME_LENGTH) \<and>
     (\<forall>ctx bs ss. fst (gsm_decode lib ctx bs) = Some ss \<longrightarrow> length ss = GSM_SAMPLES)"

lemma gsm_encode_raw:
  assumes "libgsm_sizes lib" and "gsm_context c = Some ctx" and "raw_frame f"
  shows "\<exists>g c'. gsm_encode_frame lib c (Some f) now = Val (Some g, c') \<and>
     coded_frame MEDIACTRL_CODEC_GSM 33 g \<and> gsm_context c' \<noteq> None"
proof -
  obtain buf where buf: "fr_buffer f = Some buf" "length buf = 320" "fr_len f = 320"
    using assms(3) by (auto simp: raw_frame_def)
  obtain bytes ctx' where e: "gsm_encode lib ctx (take GSM_SAMPLES (samples_of buf)) = (bytes, ctx')"
    by fastforce
  then have "length bytes = 33" using assms(1) unfolding libgsm_sizes_def by (metis fst_conv)
  with buf e assms(2) show ?thesis
    by (simp add: gsm_encode_frame_def coded_frame_def newFrame_def setBuffer_def)
qed

lemma gsm_decode_coded:
  assumes "libgsm_sizes lib" and "gsm_context c = Some ctx" and "coded_frame MEDIACTRL_CODEC_GSM 33 g"
  shows "\<exists>r c'. gsm_decode_frame lib c (Some g) now = Val (r, c') \<and>
     (\<forall>h. r = Some h \<longrightarrow> raw_frame h) \<and> gsm_context c' \<noteq> None"
proof -
  obtain buf where buf: "fr_buffer g = Some buf" "length buf = 33" "fr_len g = 33"
    using assms(3) by (auto simp: coded_frame_def)
  obtain res ctx' where e: "gsm_decode lib ctx buf = (res, ctx')" by fastforce
  show ?thesis
  proof (cases res)
    case None
    with buf e assms(2) show ?thesis by (simp add: gsm_decode_frame_def)
  next
    case (Some ss)
    with e assms(1) have "length ss = 160" unfolding libgsm_sizes_def by (metis fst_conv)
    with Some buf e assms(2) show ?thesis
      by (simp add: gsm_decode_frame_def raw_frame_def newFrame_def setBuffer_def)
  qed
qed

end
