(* ===== verification/CfwTransaction.thy ===== *)
theory CfwTransaction
  imports StdMap
begin

text \<open>
  \<open>src/CfwStack.h\<close> and \<open>src/CfwStack.cxx\<close>: the transaction of the Media Control Channel
  Framework (classes \<open>CfwMessage\<close> and \<open>CfwTransaction\<close>). Messages are heap objects, queued by
  pointer on \<open>messages\<close> and, once they may be freed, also on \<open>oldMessages\<close>. The transaction's
  thread alternates between its timer check and a section under the mutex \<open>mMsg\<close>; every other
  operation may run between the two. \<open>tx_wire\<close> records what the thread hands to the client's
  \<open>sendMessage\<close>, whose result the code only logs.
\<close>

abbreviation (input) CFW_200 :: int where "CFW_200 \<equiv> 0"
abbreviation (input) CFW_202 :: int where "CFW_202 \<equiv> 1"
abbreviation (input) CFW_403 :: int where "CFW_403 \<equiv> 2"
abbreviation (input) CFW_REPORT_UPDATE :: int where "CFW_REPORT_UPDATE \<equiv> 3"
abbreviation (input) CFW_REPORT_TERMINATE :: int where "CFW_REPORT_TERMINATE \<equiv> 4"

subsection \<open>Messages\<close>

record message =
  cm_sent :: bool
  cm_seq :: int
  cm_text :: string
  cm_waitingForAck :: bool

definition newMessage :: "int \<Rightarrow> string \<Rightarrow> message" where
  "newMessage seq text = \<lparr>cm_sent = False, cm_seq = seq, cm_text = text, cm_waitingForAck = True\<rparr>"

definition dontWait :: "message \<Rightarrow> message" where
  "dontWait m = m\<lparr>cm_waitingForAck := False\<rparr>"

definition setSent :: "message \<Rightarrow> message" where
  "setSent m = m\<lparr>cm_sent := True\<rparr>"

subsection \<open>The transaction\<close>

text \<open>
  \<open>tx_pc\<close> is where the transaction's thread stands: at the loop's head, before the mutex, past
  the loop, or returned from \<open>run\<close>. \<open>tx_timer\<close> says whether the timer object exists; the
  timer's readings are arguments.
\<close>

datatype tx_pc = AtTop | AtLock | Leaving | Ended

record transaction =
  tx_client :: ptr
  tx_tid :: string
  tx_seq :: int
  tx_status :: int
  tx_running :: bool
  tx_active :: bool
  tx_timer :: bool
  tx_timeoutStart :: u32
  tx_messages :: "ptr list"
  tx_oldMessages :: "ptr list"
  tx_heap :: "ptr \<rightharpoonup> message"
  tx_next :: ptr
  tx_wire :: "(ptr \<times> string) list"
  tx_pc :: tx_pc

definition newTransaction :: "ptr \<Rightarrow> string \<Rightarrow> transaction" where
  "newTransaction client tid =
     \<lparr>tx_client = client, tx_tid = tid, tx_seq = 0, tx_status = -1, tx_running = True,
      tx_active = True, tx_timer = False, tx_timeoutStart = 0, tx_messages = [],
      tx_oldMessages = [], tx_heap = Map.empty, tx_next = 1, tx_wire = [], tx_pc = AtTop\<rparr>"

text \<open>\<open>new CfwMessage(...)\<close>.\<close>

definition allocMessage :: "message \<Rightarrow> transaction \<Rightarrow> ptr \<times> transaction" where
  "allocMessage msg t =
     (tx_next t, t\<lparr>tx_heap := (tx_heap t)(tx_next t \<mapsto> msg), tx_next := tx_next t + 1\<rparr>)"

text \<open>\<open>newstatus = -1\<close> is the default argument; a message that is not queued is never freed.\<close>

definition queueMessage :: "ptr \<Rightarrow> int \<Rightarrow> transaction \<Rightarrow> transaction" where
  "queueMessage msg newstatus t =
     (if msg = NULL then t
      else if tx_status t = CFW_REPORT_TERMINATE then t
      else t\<lparr>tx_messages := tx_messages t @ [msg],
             tx_status := (if newstatus \<noteq> -1 then newstatus else tx_status t)\<rparr>)"

definition queueNew :: "message \<Rightarrow> int \<Rightarrow> transaction \<Rightarrow> transaction" where
  "queueNew msg newstatus t = (let (p, t') = allocMessage msg t in queueMessage p newstatus t')"

text \<open>\<open>getElapsed\<close> returns a 64-bit \<open>unsigned long\<close>; the start is kept in 32 bits.\<close>

definition startTimer :: "u64 \<Rightarrow> transaction \<Rightarrow> transaction" where
  "startTimer elapsed t = t\<lparr>tx_timer := True, tx_timeoutStart := ucast elapsed\<rparr>"

text \<open>The first message with the acknowledged sequence number is put on the list of old ones.\<close>

fun ack_scan :: "(ptr \<rightharpoonup> message) \<Rightarrow> int \<Rightarrow> ptr list \<Rightarrow> ptr option cpp" where
  "ack_scan h seq [] = Val None"
| "ack_scan h seq (p # ps) =
     (case h p of None \<Rightarrow> Undef
      | Some m \<Rightarrow> if cm_seq m = seq then Val (Some p) else ack_scan h seq ps)"

definition ackReceived :: "int \<Rightarrow> transaction \<Rightarrow> transaction cpp" where
  "ackReceived seq t =
     (if tx_messages t = [] then Val t
      else cpp_bind (ack_scan (tx_heap t) seq (tx_messages t))
        (\<lambda>r. Val (case r of None \<Rightarrow> t
                  | Some p \<Rightarrow> t\<lparr>tx_oldMessages := tx_oldMessages t @ [p]\<rparr>)))"

subsection \<open>What the package and the stack queue\<close>

definition hdr_line :: "string \<Rightarrow> string \<Rightarrow> string" where
  "hdr_line name value = name @ '': '' @ value @ crlf"

definition cfw_start :: "string \<Rightarrow> string \<Rightarrow> string" where
  "cfw_start tid method = ''CFW '' @ tid @ '' '' @ method @ crlf"

definition text_202 :: "string \<Rightarrow> string" where
  "text_202 tid = cfw_start tid ''202'' @ hdr_line ''Timeout'' ''10'' @ crlf"

definition text_update :: "string \<Rightarrow> int \<Rightarrow> string" where
  "text_update tid seq =
     cfw_start tid ''REPORT'' @ hdr_line ''Seq'' (dec_int seq) @ hdr_line ''Status'' ''update'' @
     hdr_line ''Timeout'' ''10'' @ crlf"

definition error_text :: "string \<Rightarrow> int \<Rightarrow> string \<Rightarrow> int \<Rightarrow> string \<Rightarrow> string" where
  "error_text tid code header seq blob =
     cfw_start tid (dec_int code) @ header @
     (if 0 < seq then hdr_line ''Seq'' (dec_int seq) else '''') @
     (if blob \<noteq> '''' then hdr_line ''Content-Length'' (dec_nat (length blob)) @ crlf @ blob else crlf)"

definition errorCode :: "int \<Rightarrow> string \<Rightarrow> string \<Rightarrow> transaction \<Rightarrow> transaction \<times> int" where
  "errorCode code header blob t =
     (if code \<notin> {200, 202, 400, 403, 405, 420, 421, 422, 423, 481, 500} then (t, -1)
      else (let messageSeq = (if 0 < tx_seq t then tx_seq t else 0);
                text = error_text (tx_tid t) code header (tx_seq t) blob;
                t1 = t\<lparr>tx_seq := tx_seq t + 1\<rparr>;
                msg = dontWait (newMessage messageSeq text)
            in (queueNew msg (if code \<noteq> 202 \<and> code \<noteq> 423 then CFW_REPORT_TERMINATE else -1) t1, 0)))"

definition report_text ::
  "string \<Rightarrow> int \<Rightarrow> int \<Rightarrow> int \<Rightarrow> string \<Rightarrow> string \<Rightarrow> string" where
  "report_text tid status seq timeout mime blob =
     cfw_start tid (if status = -1 then ''200'' else ''REPORT'') @
     (if 0 < seq then hdr_line ''Seq'' (dec_int seq) else '''') @
     (if -1 < status then hdr_line ''Status'' ''terminate'' else '''') @
     hdr_line ''Timeout'' (dec_int timeout) @
     (if blob \<noteq> '''' then hdr_line ''Content-Type'' mime @
        hdr_line ''Content-Length'' (dec_nat (length blob)) @ crlf @ blob
      else crlf)"

definition report :: "int \<Rightarrow> int \<Rightarrow> string \<Rightarrow> string \<Rightarrow> transaction \<Rightarrow> transaction \<times> int" where
  "report newstatus timeout mime blob t =
     (if newstatus = CFW_202 then (t, 0)
      else if newstatus \<noteq> 200 then (fst (errorCode newstatus '''' '''' t), 0)
      else (let messageSeq = (if 0 < tx_seq t then tx_seq t else 0);
                text = report_text (tx_tid t) (tx_status t) (tx_seq t) timeout mime blob;
                t1 = t\<lparr>tx_seq := tx_seq t + 1\<rparr>;
                msg = newMessage messageSeq text
            in (if tx_status t = -1 then queueNew (dontWait msg) CFW_200 t1
                else queueNew msg CFW_REPORT_TERMINATE t1, 0)))"

definition control_text :: "string \<Rightarrow> string \<Rightarrow> string \<Rightarrow> string \<Rightarrow> string" where
  "control_text tid cp mime blob =
     cfw_start tid ''CONTROL'' @ hdr_line ''Control-Package'' cp @ hdr_line ''Content-Type'' mime @
     hdr_line ''Content-Length'' (dec_nat (length blob)) @ crlf @ blob"

definition control :: "string \<Rightarrow> string \<Rightarrow> string \<Rightarrow> transaction \<Rightarrow> transaction \<times> int" where
  "control cp mime blob t =
     (let text = control_text (tx_tid t) cp mime blob;
          t1 = t\<lparr>tx_seq := tx_seq t + 1\<rparr>
      in (queueNew (newMessage 0 text) CFW_REPORT_TERMINATE t1, 0))"

subsection \<open>The transaction's thread\<close>

text \<open>
  The timer check of \<open>run()\<close>, with the timer's reading: after 8000 milliseconds the peer is told
  to keep waiting, by a 202 the first time and by a REPORT update later.
\<close>

definition refresh :: "transaction \<Rightarrow> transaction" where
  "refresh t =
     (let seq = tx_seq t; t1 = t\<lparr>tx_seq := seq + 1\<rparr> in
      if tx_status t = -1 then queueNew (dontWait (newMessage seq (text_202 (tx_tid t)))) CFW_202 t1
      else queueNew (newMessage seq (text_update (tx_tid t) seq)) CFW_REPORT_UPDATE t1)"

definition run_top :: "u64 \<Rightarrow> transaction \<Rightarrow> transaction" where
  "run_top elapsed t =
     (if \<not> tx_active t then t\<lparr>tx_pc := Leaving\<rparr>
      else let t1 = (if tx_timer t \<and> 8000 \<le> elapsed - ucast (tx_timeoutStart t)
                     then startTimer elapsed (refresh t) else t)
           in t1\<lparr>tx_pc := AtLock\<rparr>)"

text \<open>The purge: each old message is unlinked and deleted; one that is gone already is read.\<close>

fun purge :: "ptr list \<Rightarrow> transaction \<Rightarrow> transaction cpp" where
  "purge [] t = Val (t\<lparr>tx_oldMessages := []\<rparr>)"
| "purge (p # old) t =
     (case tx_heap t p of None \<Rightarrow> Undef
      | Some m \<Rightarrow> purge old (t\<lparr>tx_messages := removeAll p (tx_messages t),
                                tx_heap := (tx_heap t)(p := None)\<rparr>))"

text \<open>
  The sending loop over the queue; \<open>online\<close> says that the client exists and its descriptor is
  valid.
\<close>

fun send_queue :: "bool \<Rightarrow> ptr list \<Rightarrow> transaction \<Rightarrow> transaction cpp" where
  "send_queue online [] t = Val t"
| "send_queue online (p # ps) t =
     (if p = NULL then send_queue online ps t
      else case tx_heap t p of None \<Rightarrow> Undef
      | Some m \<Rightarrow>
          if cm_sent m then send_queue online ps t
          else (let t1 = (if online then t\<lparr>tx_wire := tx_wire t @ [(p, cm_text m)]\<rparr> else t);
                    t2 = (if \<not> cm_waitingForAck m then t1\<lparr>tx_oldMessages := tx_oldMessages t1 @ [p]\<rparr>
                          else t1\<lparr>tx_heap := (tx_heap t1)(p \<mapsto> setSent m)\<rparr>)
                in send_queue online ps t2))"

definition run_locked :: "bool \<Rightarrow> transaction \<Rightarrow> transaction cpp" where
  "run_locked online t =
     cpp_bind (purge (tx_oldMessages t) t) (\<lambda>t1.
       if tx_messages t1 = [] then
         (if tx_status t1 = CFW_REPORT_TERMINATE then
            Val (t1\<lparr>tx_timer := False, tx_active := False, tx_pc := Leaving\<rparr>)
          else if tx_status t1 = CFW_200 then
            Val (t1\<lparr>tx_active := False, tx_pc := Leaving\<rparr>)
          else if \<not> tx_running t1 then Val (t1\<lparr>tx_pc := Leaving\<rparr>)
          else Val (t1\<lparr>tx_pc := AtTop\<rparr>))
       else cpp_bind (send_queue online (tx_messages t1) t1) (\<lambda>t2. Val (t2\<lparr>tx_pc := AtTop\<rparr>)))"

text \<open>Past the loop: what is still queued is deleted, and the stack is told.\<close>

fun drop_queue :: "ptr list \<Rightarrow> transaction \<Rightarrow> transaction cpp" where
  "drop_queue [] t = Val (t\<lparr>tx_messages := []\<rparr>)"
| "drop_queue (p # ps) t =
     (if p \<noteq> NULL \<and> tx_heap t p = None then Undef
      else drop_queue ps (t\<lparr>tx_heap := (tx_heap t)(p := None)\<rparr>))"

definition run_leave :: "transaction \<Rightarrow> transaction cpp" where
  "run_leave t = cpp_bind (drop_queue (tx_messages t) t)
     (\<lambda>t1. Val (t1\<lparr>tx_running := False, tx_pc := Ended\<rparr>))"

text \<open>The destructor's request to stop: the flag is cleared, then the thread is joined.\<close>

definition stopTransaction :: "transaction \<Rightarrow> transaction" where
  "stopTransaction t = t\<lparr>tx_running := False\<rparr>"

subsection \<open>Steps\<close>

text \<open>
  The interleavings: the thread moves from one of its positions to the next, and every other
  operation may come between. \<open>CfwStack::control\<close> calls \<open>control\<close> on the transaction it has just
  constructed, whose sequence number is 0.
\<close>

inductive tx_step :: "transaction \<Rightarrow> transaction \<Rightarrow> bool" where
  top: "tx_pc t = AtTop \<Longrightarrow> tx_step t (run_top elapsed t)"
| locked: "tx_pc t = AtLock \<Longrightarrow> run_locked online t = Val t' \<Longrightarrow> tx_step t t'"
| leave: "tx_pc t = Leaving \<Longrightarrow> run_leave t = Val t' \<Longrightarrow> tx_step t t'"
| ack: "ackReceived seq t = Val t' \<Longrightarrow> tx_step t t'"
| rep: "tx_step t (fst (report newstatus timeout mime blob t))"
| err: "tx_step t (fst (errorCode code header blob t))"
| ctl: "tx_seq t = 0 \<Longrightarrow> tx_step t (fst (control cp mime blob t))"
| tim: "tx_step t (startTimer elapsed t)"
| stp: "tx_step t (stopTransaction t)"

inductive tx_reach :: "transaction \<Rightarrow> bool" where
  new: "tx_reach (newTransaction client tid)"
| step: "tx_reach t \<Longrightarrow> tx_step t t' \<Longrightarrow> tx_reach t'"

text \<open>
  The invariant of the queue, the heap and the wire. A message that went out is marked as sent or
  is about to be purged, and what has not gone out yet is younger than all that has.
\<close>

definition tx_out :: "transaction \<Rightarrow> ptr list" where
  "tx_out t = map fst (tx_wire t)"

lemma tx_out_upd [simp]:
  "tx_out (t\<lparr>tx_messages := ms\<rparr>) = tx_out t" "tx_out (t\<lparr>tx_oldMessages := ms\<rparr>) = tx_out t"
  "tx_out (t\<lparr>tx_heap := h\<rparr>) = tx_out t" "tx_out (t\<lparr>tx_next := p\<rparr>) = tx_out t"
  "tx_out (t\<lparr>tx_status := i\<rparr>) = tx_out t" "tx_out (t\<lparr>tx_seq := i\<rparr>) = tx_out t"
  "tx_out (t\<lparr>tx_pc := c\<rparr>) = tx_out t" "tx_out (t\<lparr>tx_active := b\<rparr>) = tx_out t"
  "tx_out (t\<lparr>tx_running := b\<rparr>) = tx_out t" "tx_out (t\<lparr>tx_timer := b\<rparr>) = tx_out t"
  "tx_out (t\<lparr>tx_timeoutStart := w\<rparr>) = tx_out t"
  "tx_out (t\<lparr>tx_wire := tx_wire t @ [(p, x)]\<rparr>) = tx_out t @ [p]"
  by (simp_all add: tx_out_def)

definition tx_ok :: "transaction \<Rightarrow> bool" where
  "tx_ok t \<longleftrightarrow>
     0 < tx_next t \<and> 0 \<le> tx_seq t \<and> sorted_wrt (<) (tx_messages t) \<and>
     (\<forall>p \<in> set (tx_messages t). 0 < p \<and> p < tx_next t \<and> tx_heap t p \<noteq> None) \<and>
     set (tx_oldMessages t) \<subseteq> set (tx_messages t) \<and>
     sorted_wrt (<) (tx_out t) \<and> (\<forall>q \<in> set (tx_out t). q < tx_next t) \<and>
     (\<forall>p \<in> set (tx_messages t). \<forall>m. p \<notin> set (tx_oldMessages t) \<longrightarrow> tx_heap t p = Some m \<longrightarrow>
        \<not> cm_sent m \<longrightarrow> (\<forall>q \<in> set (tx_out t). q < p))"

lemma tx_ok_new [inv_intros]: "tx_ok (newTransaction client tid)"
  by (simp add: tx_ok_def newTransaction_def tx_out_def)

lemma tx_ok_queueNew [inv_intros]: "tx_ok t \<Longrightarrow> tx_ok (queueNew m s t)"
  by (auto simp: tx_ok_def queueNew_def allocMessage_def queueMessage_def sorted_wrt_append
      dest: less_SucI)

lemma tx_ok_upd [simp]:
  "tx_ok (t\<lparr>tx_pc := c\<rparr>) = tx_ok t" "tx_ok (t\<lparr>tx_status := x\<rparr>) = tx_ok t"
  "tx_ok (t\<lparr>tx_active := b\<rparr>) = tx_ok t" "tx_ok (t\<lparr>tx_running := b\<rparr>) = tx_ok t"
  "tx_ok (t\<lparr>tx_timer := b\<rparr>) = tx_ok t" "tx_ok (t\<lparr>tx_timeoutStart := w\<rparr>) = tx_ok t"
  by (simp_all add: tx_ok_def)

lemma tx_ok_seq: "tx_ok t \<Longrightarrow> tx_ok (t\<lparr>tx_seq := tx_seq t + 1\<rparr>)"
  by (simp add: tx_ok_def)

lemma tx_ok_errorCode [inv_intros]: "tx_ok t \<Longrightarrow> tx_ok (fst (errorCode code header blob t))"
  by (auto simp: errorCode_def Let_def intro!: tx_ok_queueNew tx_ok_seq)

lemma tx_ok_report [inv_intros]: "tx_ok t \<Longrightarrow> tx_ok (fst (report newstatus timeout mime blob t))"
  by (auto simp: report_def Let_def intro!: tx_ok_queueNew tx_ok_seq tx_ok_errorCode)

lemma tx_ok_control [inv_intros]: "tx_ok t \<Longrightarrow> tx_ok (fst (control cp mime blob t))"
  by (auto simp: control_def Let_def intro!: tx_ok_queueNew tx_ok_seq)

lemma tx_ok_startTimer [inv_intros]: "tx_ok t \<Longrightarrow> tx_ok (startTimer elapsed t)"
  by (simp add: startTimer_def)

lemma tx_ok_run_top [inv_intros]: "tx_ok t \<Longrightarrow> tx_ok (run_top elapsed t)"
  by (auto simp: run_top_def refresh_def Let_def intro!: tx_ok_startTimer tx_ok_queueNew tx_ok_seq)

lemma ack_scan_mem: "ack_scan h seq ps = Val (Some p) \<Longrightarrow>
    p \<in> set ps \<and> (\<exists>m. h p = Some m \<and> cm_seq m = seq)"
  by (induction h seq ps rule: ack_scan.induct) (auto split: option.splits if_splits)

lemma tx_ok_ack [inv_intros]: "tx_ok t \<Longrightarrow> ackReceived seq t = Val t' \<Longrightarrow> tx_ok t'"
  by (auto simp: ackReceived_def cpp_bind_Val tx_ok_def split: if_splits option.splits
      dest!: ack_scan_mem) blast

text \<open>The purge removes the old messages from the queue and from the heap.\<close>

lemma purge_Val:
  "purge old t = Val t' \<Longrightarrow> distinct old \<and> (\<forall>p \<in> set old. tx_heap t p \<noteq> None) \<and>
     t' = t\<lparr>tx_messages := filter (\<lambda>p. p \<notin> set old) (tx_messages t), tx_oldMessages := [],
            tx_heap := (\<lambda>p. if p \<in> set old then None else tx_heap t p)\<rparr>"
proof (induction old arbitrary: t)
  case Nil
  then show ?case by auto
next
  case (Cons p old)
  then obtain m where m: "tx_heap t p = Some m"
    and r: "purge old (t\<lparr>tx_messages := removeAll p (tx_messages t), tx_heap := (tx_heap t)(p := None)\<rparr>) = Val t'"
    by (auto split: option.splits)
  from Cons.IH [OF r] m show ?case
    by (auto simp: removeAll_filter_not_eq fun_eq_iff intro!: arg_cong2 [where f = "\<lambda>x y. t\<lparr>tx_messages := x, tx_oldMessages := [], tx_heap := y\<rparr>"] filter_cong split: if_splits)
qed

lemma purge_defined:
  "distinct old \<Longrightarrow> (\<And>p. p \<in> set old \<Longrightarrow> tx_heap t p \<noteq> None) \<Longrightarrow> purge old t \<noteq> Undef"
proof (induction old arbitrary: t)
  case (Cons a old)
  from Cons.prems obtain m where m: "tx_heap t a = Some m" by fastforce
  have "purge old (t\<lparr>tx_messages := removeAll a (tx_messages t), tx_heap := (tx_heap t)(a := None)\<rparr>) \<noteq> Undef"
    by (rule Cons.IH) (use Cons.prems in auto)
  with m show ?case by simp
qed simp

lemma purge_duplicate: "\<not> distinct old \<Longrightarrow> purge old t = Undef"
  by (cases "purge old t") (auto dest: purge_Val)

lemma tx_ok_purge:
  assumes ok: "tx_ok t" and p: "purge (tx_oldMessages t) t = Val t'"
  shows "tx_ok t' \<and> tx_oldMessages t' = []"
  using ok purge_Val [OF p] by (auto simp: tx_ok_def sorted_wrt_filter)

text \<open>The sending loop, from a state where what is still to send lies ahead of it.\<close>

definition unsent :: "transaction \<Rightarrow> ptr \<Rightarrow> bool" where
  "unsent t p \<longleftrightarrow> (\<exists>m. tx_heap t p = Some m \<and> \<not> cm_sent m)"

lemma tx_ok_send1:
  assumes ok: "tx_ok t" and p: "p \<in> set (tx_messages t)" "p \<notin> set (tx_oldMessages t)"
    and m: "tx_heap t p = Some m" "\<not> cm_sent m"
    and ahead: "\<And>r. r \<in> set (tx_messages t) \<Longrightarrow> r \<notin> set (tx_oldMessages t) \<Longrightarrow> unsent t r \<Longrightarrow> p \<le> r"
    and t1: "t1 = (if online then t\<lparr>tx_wire := tx_wire t @ [(p, cm_text m)]\<rparr> else t)"
    and t2: "t2 = (if \<not> cm_waitingForAck m then t1\<lparr>tx_oldMessages := tx_oldMessages t1 @ [p]\<rparr>
                   else t1\<lparr>tx_heap := (tx_heap t1)(p \<mapsto> setSent m)\<rparr>)"
  shows "tx_ok t2"
proof -
  have lt: "q < p" if "q \<in> set (tx_out t)" for q
    using ok p m that by (auto simp: tx_ok_def)
  have out: "tx_out t2 = tx_out t @ (if online then [p] else [])"
    by (simp add: t2 t1)
  have ah: "p < r" if "r \<in> set (tx_messages t)" "r \<notin> set (tx_oldMessages t)" "tx_heap t r = Some n"
    "\<not> cm_sent n" "r \<noteq> p" for r n
    using ahead [of r] that by (force simp: unsent_def)
  have base: "0 < tx_next t" "0 \<le> tx_seq t" "sorted_wrt (<) (tx_messages t)"
    "\<forall>p \<in> set (tx_messages t). 0 < p \<and> p < tx_next t \<and> tx_heap t p \<noteq> None"
    "set (tx_oldMessages t) \<subseteq> set (tx_messages t)" "sorted_wrt (<) (tx_out t)"
    "\<forall>q \<in> set (tx_out t). q < tx_next t"
    using ok by (simp_all add: tx_ok_def)
  have sorted: "sorted_wrt (<) (tx_out t2)"
    unfolding out using base(6) lt by (auto simp: sorted_wrt_append)
  have bound: "\<forall>q \<in> set (tx_out t2). q < tx_next t"
    unfolding out using base(4,7) p(1) by auto
  have young: "\<forall>q \<in> set (tx_out t2). q < r"
    if r: "r \<in> set (tx_messages t)" "r \<notin> set (tx_oldMessages t)" "tx_heap t r = Some n" "\<not> cm_sent n" "r \<noteq> p" for r n
    unfolding out using ah [OF r] lt by (auto intro: less_trans)
  show ?thesis
  proof (cases "cm_waitingForAck m")
    case True
    have t2': "tx_messages t2 = tx_messages t" "tx_oldMessages t2 = tx_oldMessages t" "tx_next t2 = tx_next t"
      "tx_seq t2 = tx_seq t" "tx_heap t2 = (tx_heap t)(p \<mapsto> setSent m)"
      using True by (simp_all add: t2 t1)
    show ?thesis unfolding tx_ok_def t2'
      using base(1-5) sorted bound young by (auto simp: setSent_def)
  next
    case False
    have t2': "tx_messages t2 = tx_messages t" "tx_oldMessages t2 = tx_oldMessages t @ [p]" "tx_next t2 = tx_next t"
      "tx_seq t2 = tx_seq t" "tx_heap t2 = tx_heap t"
      using False by (simp_all add: t2 t1)
    show ?thesis unfolding tx_ok_def t2'
      using base(1-5) sorted bound young p(1) by auto
  qed
qed

lemma send_queue_ok:
  "tx_ok t \<Longrightarrow> sorted_wrt (<) ps \<Longrightarrow> set ps \<subseteq> set (tx_messages t) \<Longrightarrow>
   set ps \<inter> set (tx_oldMessages t) = {} \<Longrightarrow>
   (\<forall>r \<in> set (tx_messages t). r \<notin> set (tx_oldMessages t) \<longrightarrow> unsent t r \<longrightarrow> r \<in> set ps) \<Longrightarrow>
   \<exists>t'. send_queue online ps t = Val t' \<and> tx_ok t' \<and> tx_messages t' = tx_messages t \<and>
      tx_status t' = tx_status t \<and> tx_seq t' = tx_seq t \<and> (\<forall>r. map_option cm_seq (tx_heap t' r) = map_option cm_seq (tx_heap t r))"
proof (induction ps arbitrary: t)
  case Nil
  then show ?case by simp
next
  case (Cons p ps)
  have p: "p \<in> set (tx_messages t)" "p \<notin> set (tx_oldMessages t)" using Cons.prems by auto
  then obtain m where m: "tx_heap t p = Some m" and p0: "p \<noteq> NULL"
    using Cons.prems(1) by (fastforce simp: tx_ok_def)
  show ?case
  proof (cases "cm_sent m")
    case True
    have "\<exists>t'. send_queue online ps t = Val t' \<and> tx_ok t' \<and> tx_messages t' = tx_messages t \<and>
      tx_status t' = tx_status t \<and> tx_seq t' = tx_seq t \<and> (\<forall>r. map_option cm_seq (tx_heap t' r) = map_option cm_seq (tx_heap t r))"
      by (rule Cons.IH) (use Cons.prems m True in \<open>auto simp: unsent_def\<close>)
    with True m p0 show ?thesis by simp
  next
    case False
    define t1 where "t1 = (if online then t\<lparr>tx_wire := tx_wire t @ [(p, cm_text m)]\<rparr> else t)"
    define t2 where "t2 = (if \<not> cm_waitingForAck m then t1\<lparr>tx_oldMessages := tx_oldMessages t1 @ [p]\<rparr>
                   else t1\<lparr>tx_heap := (tx_heap t1)(p \<mapsto> setSent m)\<rparr>)"
    have ok2: "tx_ok t2"
      by (rule tx_ok_send1 [OF Cons.prems(1) p m False _ t1_def t2_def])
         (use Cons.prems in \<open>auto intro: less_imp_le\<close>)
    have f: "tx_messages t2 = tx_messages t" "tx_status t2 = tx_status t" "tx_seq t2 = tx_seq t"
      "\<And>r. map_option cm_seq (tx_heap t2 r) = map_option cm_seq (tx_heap t r)"
      "set (tx_oldMessages t2) \<subseteq> insert p (set (tx_oldMessages t))"
      "\<And>r. r \<noteq> p \<Longrightarrow> unsent t2 r = unsent t r" "unsent t2 p \<longrightarrow> p \<in> set (tx_oldMessages t2)"
      "set (tx_oldMessages t) \<subseteq> set (tx_oldMessages t2)"
      using m by (auto simp: t2_def t1_def setSent_def unsent_def)
    have "\<exists>t'. send_queue online ps t2 = Val t' \<and> tx_ok t' \<and> tx_messages t' = tx_messages t2 \<and>
      tx_status t' = tx_status t2 \<and> tx_seq t' = tx_seq t2 \<and> (\<forall>r. map_option cm_seq (tx_heap t' r) = map_option cm_seq (tx_heap t2 r))"
    proof (rule Cons.IH [OF ok2])
      show "sorted_wrt (<) ps" "set ps \<subseteq> set (tx_messages t2)" using Cons.prems f(1) by auto
      show "set ps \<inter> set (tx_oldMessages t2) = {}" using Cons.prems f(5) by fastforce
      show "\<forall>r \<in> set (tx_messages t2). r \<notin> set (tx_oldMessages t2) \<longrightarrow> unsent t2 r \<longrightarrow> r \<in> set ps"
        using Cons.prems(5) f(1,6,7,8) by (metis in_mono set_ConsD)
    qed
    moreover have "send_queue online (p # ps) t = send_queue online ps t2"
      using False m p0 by (simp add: Let_def t2_def t1_def)
    ultimately show ?thesis using f by simp
  qed
qed

lemma run_locked_ok [inv_intros]:
  assumes ok: "tx_ok t" and r: "run_locked online t = Val t'"
  shows "tx_ok t'"
proof -
  obtain t1 where t1: "purge (tx_oldMessages t) t = Val t1"
    using r by (auto simp: run_locked_def cpp_bind_Val)
  have ok1: "tx_ok t1" "tx_oldMessages t1 = []" using tx_ok_purge [OF ok t1] by auto
  show ?thesis
  proof (cases "tx_messages t1 = []")
    case True
    with r t1 ok1 show ?thesis by (auto simp: run_locked_def split: if_splits)
  next
    case False
    obtain t2 where "send_queue online (tx_messages t1) t1 = Val t2" "tx_ok t2"
      using send_queue_ok [OF ok1(1), of "tx_messages t1" online] ok1 by (auto simp: tx_ok_def)
    with r t1 False show ?thesis by (auto simp: run_locked_def)
  qed
qed

lemma drop_queue_ok: "distinct ps \<Longrightarrow> (\<And>p. p \<in> set ps \<Longrightarrow> tx_heap t p \<noteq> None) \<Longrightarrow>
   drop_queue ps t = Val (t\<lparr>tx_messages := [], tx_heap := (\<lambda>p. if p \<in> set ps then None else tx_heap t p)\<rparr>)"
proof (induction ps arbitrary: t)
  case (Cons p ps)
  have "drop_queue ps (t\<lparr>tx_heap := (tx_heap t)(p := None)\<rparr>) =
      Val (t\<lparr>tx_messages := [], tx_heap := (\<lambda>q. if q \<in> set ps then None else ((tx_heap t)(p := None)) q)\<rparr>)"
    by (subst Cons.IH) (use Cons.prems in \<open>auto cong: if_cong\<close>)
  moreover have "(\<lambda>q. if q \<in> set ps then None else ((tx_heap t)(p := None)) q) =
      (\<lambda>q. if q \<in> set (p # ps) then None else tx_heap t q)" by auto
  ultimately show ?case using Cons.prems by simp
qed (simp add: fun_eq_iff)

text \<open>Only an acknowledgement that repeats makes the thread touch a deleted message.\<close>

lemma run_locked_defined:
  assumes "tx_ok t" and "distinct (tx_oldMessages t)"
  shows "\<exists>t'. run_locked online t = Val t'"
proof -
  have "purge (tx_oldMessages t) t \<noteq> Undef"
    by (rule purge_defined) (use assms in \<open>auto simp: tx_ok_def\<close>)
  then obtain t1 where t1: "purge (tx_oldMessages t) t = Val t1" by (cases "purge (tx_oldMessages t) t") auto
  then have ok1: "tx_ok t1" "tx_oldMessages t1 = []" using tx_ok_purge [OF assms(1) t1] by auto
  have "\<exists>t2. send_queue online (tx_messages t1) t1 = Val t2"
    using send_queue_ok [OF ok1(1), of "tx_messages t1" online] ok1 by (auto simp: tx_ok_def)
  with t1 show ?thesis by (auto simp: run_locked_def)
qed

lemma tx_ok_leave [inv_intros]:
  assumes ok: "tx_ok t" and r: "run_leave t = Val t'"
  shows "tx_messages t' = [] \<and> tx_wire t' = tx_wire t \<and> \<not> tx_running t' \<and> tx_pc t' = Ended"
    and "set (tx_oldMessages t') = set (tx_oldMessages t)"
proof -
  have "drop_queue (tx_messages t) t = Val (t\<lparr>tx_messages := [],
      tx_heap := (\<lambda>p. if p \<in> set (tx_messages t) then None else tx_heap t p)\<rparr>)"
    by (rule drop_queue_ok) (use ok in \<open>auto simp: tx_ok_def strict_sorted_iff\<close>)
  with r show "tx_messages t' = [] \<and> tx_wire t' = tx_wire t \<and> \<not> tx_running t' \<and> tx_pc t' = Ended"
    and "set (tx_oldMessages t') = set (tx_oldMessages t)"
    by (auto simp: run_leave_def)
qed

subsection \<open>Sequence numbers\<close>

text \<open>The numbers of the queued messages grow strictly, below the next one.\<close>

definition seq_of :: "transaction \<Rightarrow> ptr \<Rightarrow> int" where
  "seq_of t p = (case map_option cm_seq (tx_heap t p) of None \<Rightarrow> -1 | Some i \<Rightarrow> i)"

definition seq_ok :: "transaction \<Rightarrow> bool" where
  "seq_ok t \<longleftrightarrow> sorted_wrt (<) (map (seq_of t) (tx_messages t)) \<and>
     (\<forall>p \<in> set (tx_messages t). seq_of t p < tx_seq t)"

lemma seq_ok_new [inv_intros]: "seq_ok (newTransaction client tid)"
  by (simp add: seq_ok_def newTransaction_def)

lemma seq_of_cong: "(\<forall>r. map_option cm_seq (tx_heap t' r) = map_option cm_seq (tx_heap t r)) \<Longrightarrow> seq_of t' = seq_of t"
  unfolding seq_of_def by simp

lemma seq_of_upd [simp]:
  "seq_of (t\<lparr>tx_messages := ms\<rparr>) = seq_of t" "seq_of (t\<lparr>tx_oldMessages := ms\<rparr>) = seq_of t"
  "seq_of (t\<lparr>tx_seq := i\<rparr>) = seq_of t" "seq_of (t\<lparr>tx_status := i\<rparr>) = seq_of t"
  "seq_of (t\<lparr>tx_pc := c\<rparr>) = seq_of t" "seq_of (t\<lparr>tx_active := b\<rparr>) = seq_of t"
  "seq_of (t\<lparr>tx_running := b\<rparr>) = seq_of t" "seq_of (t\<lparr>tx_timer := b\<rparr>) = seq_of t"
  "seq_of (t\<lparr>tx_timeoutStart := w\<rparr>) = seq_of t"
  by (simp_all add: seq_of_def fun_eq_iff)

lemma seq_ok_upd [simp]:
  "seq_ok (t\<lparr>tx_oldMessages := ms\<rparr>) = seq_ok t" "seq_ok (t\<lparr>tx_pc := c\<rparr>) = seq_ok t"
  "seq_ok (t\<lparr>tx_status := i\<rparr>) = seq_ok t" "seq_ok (t\<lparr>tx_active := b\<rparr>) = seq_ok t"
  "seq_ok (t\<lparr>tx_running := b\<rparr>) = seq_ok t" "seq_ok (t\<lparr>tx_timer := b\<rparr>) = seq_ok t"
  "seq_ok (t\<lparr>tx_timeoutStart := w\<rparr>) = seq_ok t"
  by (simp_all add: seq_ok_def)

text \<open>Queueing a message that carries the next number.\<close>

lemma seq_ok_queueNew:
  assumes "tx_ok t" and "seq_ok t" and "cm_seq m = tx_seq t"
  shows "seq_ok (queueNew m s (t\<lparr>tx_seq := tx_seq t + 1\<rparr>))"
proof -
  define t' where "t' = queueNew m s (t\<lparr>tx_seq := tx_seq t + 1\<rparr>)"
  have same: "seq_of t' q = seq_of t q" if "q \<in> set (tx_messages t)" for q
    using assms(1) that by (auto simp: t'_def tx_ok_def queueNew_def allocMessage_def queueMessage_def seq_of_def)
  have new: "seq_of t' (tx_next t) = tx_seq t"
    using assms(3) by (simp add: t'_def queueNew_def allocMessage_def queueMessage_def seq_of_def)
  have ms: "tx_messages t' = tx_messages t \<or> tx_messages t' = tx_messages t @ [tx_next t]"
    and sq: "tx_seq t' = tx_seq t + 1"
    by (auto simp: t'_def queueNew_def allocMessage_def queueMessage_def)
  have eq: "map (seq_of t') (tx_messages t) = map (seq_of t) (tx_messages t)"
    using same by simp
  with ms same new assms(2) show ?thesis
    unfolding t'_def [symmetric] seq_ok_def sq by (elim disjE) (auto simp: sorted_wrt_append eq simp del: map_eq_conv)
qed

lemma tx_seq_bound: "tx_ok t \<Longrightarrow> (if 0 < tx_seq t then tx_seq t else 0) = tx_seq t"
  by (auto simp: tx_ok_def)

lemma seq_ok_errorCode [inv_intros]:
  "tx_ok t \<Longrightarrow> seq_ok t \<Longrightarrow> seq_ok (fst (errorCode code header blob t))"
  by (auto simp: errorCode_def Let_def newMessage_def dontWait_def tx_ok_def intro!: seq_ok_queueNew)

lemma seq_ok_report [inv_intros]:
  "tx_ok t \<Longrightarrow> seq_ok t \<Longrightarrow> seq_ok (fst (report newstatus timeout mime blob t))"
  using tx_seq_bound [of t]
  by (auto simp: report_def Let_def newMessage_def dontWait_def simp del: if_split
      intro!: seq_ok_queueNew seq_ok_errorCode split: if_split)

lemma seq_ok_control [inv_intros]:
  "tx_ok t \<Longrightarrow> seq_ok t \<Longrightarrow> tx_seq t = 0 \<Longrightarrow> seq_ok (fst (control cp mime blob t))"
  using seq_ok_queueNew [of t "newMessage 0 (control_text (tx_tid t) cp mime blob)"]
  by (simp add: control_def Let_def newMessage_def)

lemma seq_ok_run_top [inv_intros]: "tx_ok t \<Longrightarrow> seq_ok t \<Longrightarrow> seq_ok (run_top elapsed t)"
  by (auto simp: run_top_def refresh_def startTimer_def Let_def newMessage_def dontWait_def
      intro!: seq_ok_queueNew)

lemma seq_ok_ack [inv_intros]: "seq_ok t \<Longrightarrow> ackReceived seq t = Val t' \<Longrightarrow> seq_ok t'"
  by (auto simp: ackReceived_def cpp_bind_Val split: if_splits option.splits)

lemma seq_ok_purge:
  assumes ok: "seq_ok t" and p: "purge old t = Val t'"
  shows "seq_ok t'"
proof -
  note t' = conjunct2 [OF conjunct2 [OF purge_Val [OF p]]]
  have m: "tx_messages t' = filter (\<lambda>p. p \<notin> set old) (tx_messages t)" and s: "tx_seq t' = tx_seq t"
    and q: "\<And>p. p \<notin> set old \<Longrightarrow> seq_of t' p = seq_of t p"
    by (simp_all add: t' seq_of_def)
  have "map (seq_of t') (tx_messages t') = map (seq_of t) (filter (\<lambda>p. p \<notin> set old) (tx_messages t))"
    using q unfolding m by simp
  then have "sorted_wrt (<) (map (seq_of t') (tx_messages t'))"
    by (simp only:) (use ok in \<open>simp add: seq_ok_def sorted_wrt_map sorted_wrt_filter\<close>)
  with ok q s show ?thesis
    by (auto simp: seq_ok_def m)
qed

lemma seq_ok_locked [inv_intros]:
  assumes "tx_ok t" and "seq_ok t" and r: "run_locked online t = Val t'"
  shows "seq_ok t'"
proof -
  obtain t1 where t1: "purge (tx_oldMessages t) t = Val t1"
    using r by (auto simp: run_locked_def cpp_bind_Val)
  have ok1: "tx_ok t1" "tx_oldMessages t1 = []" "seq_ok t1"
    using tx_ok_purge [OF assms(1) t1] seq_ok_purge [OF assms(2) t1] by auto
  show ?thesis
  proof (cases "tx_messages t1 = []")
    case True
    with r t1 ok1 show ?thesis by (auto simp: run_locked_def split: if_splits)
  next
    case False
    obtain t2 where t2: "send_queue online (tx_messages t1) t1 = Val t2" "tx_messages t2 = tx_messages t1"
        "tx_seq t2 = tx_seq t1" "\<forall>r. map_option cm_seq (tx_heap t2 r) = map_option cm_seq (tx_heap t1 r)"
      using send_queue_ok [OF ok1(1), of "tx_messages t1" online] ok1 by (auto simp: tx_ok_def)
    have "seq_of t2 = seq_of t1" using t2(4) by (rule seq_of_cong)
    with t2 ok1 have "seq_ok t2" by (simp add: seq_ok_def)
    with r t1 t2 False show ?thesis by (auto simp: run_locked_def)
  qed
qed

subsection \<open>Reachable transactions\<close>

definition tx_inv :: "transaction \<Rightarrow> bool" where
  "tx_inv t \<longleftrightarrow> sorted_wrt (<) (tx_out t) \<and> (tx_pc t \<noteq> Ended \<longrightarrow> tx_ok t \<and> seq_ok t)"

lemma tx_inv_live: "tx_inv t \<Longrightarrow> tx_pc t \<noteq> Ended \<Longrightarrow> tx_ok t \<and> seq_ok t"
  by (simp add: tx_inv_def)

lemma tx_invI: "tx_ok t \<Longrightarrow> seq_ok t \<Longrightarrow> tx_inv t"
  by (simp add: tx_inv_def tx_ok_def)

lemma queueNew_frame [simp]:
  "tx_out (queueNew m s t) = tx_out t" "tx_pc (queueNew m s t) = tx_pc t"
  "tx_running (queueNew m s t) = tx_running t" "tx_oldMessages (queueNew m s t) = tx_oldMessages t"
  "tx_wire (queueNew m s t) = tx_wire t" "tx_tid (queueNew m s t) = tx_tid t"
  by (simp_all add: queueNew_def allocMessage_def queueMessage_def)

text \<open>What the operations outside the thread leave alone.\<close>

lemma op_frame [simp]:
  "tx_out (fst (report newstatus timeout mime blob t)) = tx_out t"
  "tx_pc (fst (report newstatus timeout mime blob t)) = tx_pc t"
  "tx_out (fst (errorCode code header blob t)) = tx_out t"
  "tx_pc (fst (errorCode code header blob t)) = tx_pc t"
  "tx_out (fst (control cp mime blob t)) = tx_out t"
  "tx_pc (fst (control cp mime blob t)) = tx_pc t"
  "tx_out (startTimer elapsed t) = tx_out t" "tx_pc (startTimer elapsed t) = tx_pc t"
  by (simp_all add: report_def errorCode_def control_def startTimer_def Let_def)

lemma ack_frame: "ackReceived seq t = Val t' \<Longrightarrow> tx_out t' = tx_out t \<and> tx_pc t' = tx_pc t"
  by (auto simp: ackReceived_def cpp_bind_Val split: if_splits option.splits)

lemma tx_inv_step:
  assumes "tx_inv t" and "tx_step t t'"
  shows "tx_inv t'"
  using assms(2)
proof cases
  case (top elapsed)
  with assms(1) show ?thesis by (auto dest!: tx_inv_live intro!: tx_invI tx_ok_run_top seq_ok_run_top)
next
  case (locked online)
  with assms(1) show ?thesis by (auto dest!: tx_inv_live intro!: tx_invI intro: run_locked_ok seq_ok_locked)
next
  case leave
  with assms(1) tx_ok_leave [of t t'] show ?thesis by (auto simp: tx_inv_def tx_out_def)
next
  case (ack seq)
  with assms(1) ack_frame [OF ack] show ?thesis
    by (auto simp: tx_inv_def intro: tx_ok_ack seq_ok_ack)
next
  case (ctl cp mime blob)
  with assms(1) show ?thesis by (auto simp: tx_inv_def intro: tx_ok_control seq_ok_control)
next
  case (rep newstatus timeout mime blob)
  with assms(1) show ?thesis by (auto simp: tx_inv_def intro: tx_ok_report seq_ok_report)
next
  case (err code header blob)
  with assms(1) show ?thesis by (auto simp: tx_inv_def intro: tx_ok_errorCode seq_ok_errorCode)
next
  case (tim elapsed)
  with assms(1) show ?thesis by (auto simp: tx_inv_def startTimer_def)
next
  case stp
  with assms(1) show ?thesis by (auto simp: tx_inv_def stopTransaction_def)
qed

lemma tx_inv_reach: "tx_reach t \<Longrightarrow> tx_inv t"
  by (induction rule: tx_reach.induct) (auto intro: tx_inv_step tx_invI tx_ok_new seq_ok_new)


text \<open>One pass of the thread: the timer check, then the section under the mutex.\<close>

definition run_round :: "bool \<Rightarrow> u64 \<Rightarrow> transaction \<Rightarrow> transaction cpp" where
  "run_round online elapsed t = run_locked online (run_top elapsed t)"

lemma round_step:
  assumes "tx_reach t" and "tx_pc t = AtTop" and "tx_active t" and "run_round online elapsed t = Val t'"
  shows "tx_reach t'"
proof -
  have "tx_reach (run_top elapsed t)" using assms(1,2) by (blast intro: tx_reach.step tx_step.top)
  moreover have "tx_pc (run_top elapsed t) = AtLock" using assms(3) by (simp add: run_top_def Let_def)
  ultimately show ?thesis using assms(4) unfolding run_round_def by (blast intro: tx_reach.step tx_step.locked)
qed

text \<open>A final answer that needs no acknowledgement: two passes and the transaction is over.\<close>

lemma final_answer_runs:
  assumes "s = CFW_200 \<or> s = CFW_REPORT_TERMINATE" and "t = queueNew (dontWait (newMessage q text)) s
      ((newTransaction client tid)\<lparr>tx_seq := n\<rparr>)"
  shows "\<exists>t1 t2 t3. run_round True e1 t = Val t1 \<and> run_round online e2 t1 = Val t2 \<and>
     tx_pc t2 = Leaving \<and> run_leave t2 = Val t3 \<and> tx_pc t3 = Ended \<and> \<not> tx_running t3 \<and>
     tx_wire t3 = [(1, text)] \<and> tx_messages t3 = [] \<and> tx_heap t3 = Map.empty"
  using assms(1) by (auto simp: assms(2) run_round_def run_top_def run_locked_def run_leave_def
      newTransaction_def queueNew_def allocMessage_def queueMessage_def newMessage_def dontWait_def)




lemma ack_scan_unique:
  "p \<in> set ps \<Longrightarrow> (\<forall>q \<in> set ps. h q \<noteq> None) \<Longrightarrow> h p = Some m \<Longrightarrow> distinct (map (\<lambda>q. map_option cm_seq (h q)) ps) \<Longrightarrow>
     ack_scan h (cm_seq m) ps = Val (Some p)"
proof (induction ps)
  case (Cons q ps)
  show ?case
  proof (cases "q = p")
    case False
    then have p: "p \<in> set ps" using Cons.prems by simp
    obtain n where n: "h q = Some n" using Cons.prems(2) by auto
    have "map_option cm_seq (h q) \<noteq> map_option cm_seq (h p)" using Cons.prems(4) p by force
    with n Cons.prems(3) have "cm_seq n \<noteq> cm_seq m" by simp
    with n Cons.IH [OF p] Cons.prems show ?thesis by simp
  qed (use Cons.prems in simp)
qed simp

lemma ack_selects:
  assumes "tx_inv t" "tx_pc t \<noteq> Ended" "p \<in> set (tx_messages t)" "tx_heap t p = Some m"
  shows "ackReceived (cm_seq m) t = Val (t\<lparr>tx_oldMessages := tx_oldMessages t @ [p]\<rparr>)"
proof -
  have ok: "tx_ok t" "seq_ok t" using tx_inv_live [OF assms(1,2)] by auto
  have live: "\<forall>q \<in> set (tx_messages t). tx_heap t q \<noteq> None" using ok(1) by (simp add: tx_ok_def)
  have "distinct (map (seq_of t) (tx_messages t))" using ok(2) by (simp add: seq_ok_def strict_sorted_iff)
  then have "distinct (map (\<lambda>q. map_option cm_seq (tx_heap t q)) (tx_messages t))"
    unfolding distinct_map inj_on_def by (metis seq_of_def)
  from ack_scan_unique [OF assms(3) live assms(4) this] assms(3) show ?thesis
    by (auto simp: ackReceived_def)
qed

text \<open>
  An acknowledgement names exactly one message: in every reachable state the sequence number
  of a queued message selects that message, and if it was not acknowledged before, the thread's
  next pass takes it off the queue, together with the other old ones, and deletes it; no other
  message leaves the queue.
\<close>

theorem acknowledged_message_removed:
  assumes "tx_reach t" and "tx_pc t = AtLock" and "distinct (tx_oldMessages t)"
    and "p \<in> set (tx_messages t)" and "p \<notin> set (tx_oldMessages t)" and "tx_heap t p = Some m"
  shows "\<exists>t1 t2. ackReceived (cm_seq m) t = Val t1 \<and> run_locked online t1 = Val t2 \<and>
     tx_heap t2 p = None \<and>
     tx_messages t2 = filter (\<lambda>q. q \<noteq> p \<and> q \<notin> set (tx_oldMessages t)) (tx_messages t)"
proof -
  have inv: "tx_inv t" using assms(1) by (rule tx_inv_reach)
  define t1 where "t1 = t\<lparr>tx_oldMessages := tx_oldMessages t @ [p]\<rparr>"
  have a: "ackReceived (cm_seq m) t = Val t1"
    unfolding t1_def by (rule ack_selects [OF inv _ assms(4,6)]) (simp add: assms(2))
  have ok: "tx_ok t1" using tx_ok_ack [OF _ a] tx_inv_live [OF inv] assms(2) by simp
  have dist: "distinct (tx_oldMessages t1)" using assms(3,5) by (simp add: t1_def)
  then obtain t2 where r: "run_locked online t1 = Val t2" using run_locked_defined [OF ok] by blast
  then obtain t3 where t3: "purge (tx_oldMessages t1) t1 = Val t3"
    by (auto simp: run_locked_def cpp_bind_Val)
  have f3: "tx_messages t3 = filter (\<lambda>q. q \<noteq> p \<and> q \<notin> set (tx_oldMessages t)) (tx_messages t)"
      "tx_heap t3 p = None" and ok3: "tx_ok t3" "tx_oldMessages t3 = []"
    using purge_Val [OF t3] tx_ok_purge [OF ok t3] by (auto simp: t1_def intro: filter_cong)
  have "tx_messages t2 = tx_messages t3 \<and> tx_heap t2 p = None"
  proof (cases "tx_messages t3 = []")
    case True
    with r t3 f3 show ?thesis by (auto simp: run_locked_def split: if_splits)
  next
    case False
    obtain t4 where t4: "send_queue online (tx_messages t3) t3 = Val t4" "tx_messages t4 = tx_messages t3"
        "\<forall>r. map_option cm_seq (tx_heap t4 r) = map_option cm_seq (tx_heap t3 r)"
      using send_queue_ok [OF ok3(1), of "tx_messages t3" online] ok3 by (auto simp: tx_ok_def)
    with f3(2) have "tx_heap t4 p = None" by (metis option.map_disc_iff)
    with r t3 t4 False show ?thesis by (auto simp: run_locked_def)
  qed
  with a r f3(1) show ?thesis by auto
qed

text \<open>
  An acknowledgement that arrives twice before the thread's next pass makes the thread use and
  delete a message it has just deleted: \<open>ackReceived\<close> puts the message on the list of old ones
  without looking whether it is there.
\<close>

theorem duplicate_ack_double_free:
  assumes "tx_reach t" and "tx_pc t = AtLock" and "p \<in> set (tx_messages t)" and "tx_heap t p = Some m"
  shows "\<exists>t1 t2. ackReceived (cm_seq m) t = Val t1 \<and> ackReceived (cm_seq m) t1 = Val t2 \<and>
     run_locked online t2 = Undef"
proof -
  have inv: "tx_inv t" using assms(1) by (rule tx_inv_reach)
  define t1 where "t1 = t\<lparr>tx_oldMessages := tx_oldMessages t @ [p]\<rparr>"
  have a: "ackReceived (cm_seq m) t = Val t1"
    unfolding t1_def by (rule ack_selects [OF inv _ assms(3,4)]) (simp add: assms(2))
  have inv1: "tx_inv t1" using inv tx_inv_step [OF inv tx_step.ack [OF a]] by simp
  have a2: "ackReceived (cm_seq m) t1 = Val (t1\<lparr>tx_oldMessages := tx_oldMessages t1 @ [p]\<rparr>)"
    by (rule ack_selects [OF inv1]) (use assms in \<open>simp_all add: t1_def\<close>)
  have "run_locked online (t1\<lparr>tx_oldMessages := tx_oldMessages t1 @ [p]\<rparr>) = Undef"
    by (simp add: run_locked_def t1_def purge_duplicate)
  with a a2 show ?thesis by blast
qed

text \<open>A state with a sent and unacknowledged message, reached by a notification.\<close>

definition sent_control :: transaction where
  "sent_control =
     (newTransaction 5 ''a'')\<lparr>tx_seq := 1, tx_status := CFW_REPORT_TERMINATE, tx_messages := [1],
        tx_heap := [1 \<mapsto> setSent (newMessage 0 (control_text ''a'' ''p'' ''m'' ''''))], tx_next := 2,
        tx_wire := [(1, control_text ''a'' ''p'' ''m'' '''')], tx_pc := AtLock\<rparr>"

lemma sent_control_reach: "tx_reach sent_control"
proof -
  let ?t0 = "newTransaction 5 ''a''"
  let ?t1 = "fst (control ''p'' ''m'' '''' ?t0)"
  have r1: "tx_reach ?t1" by (rule tx_reach.step [OF tx_reach.new tx_step.ctl]) (simp add: newTransaction_def)
  have pc1: "tx_pc ?t1 = AtTop" "tx_active ?t1"
    by (simp_all add: newTransaction_def control_def queueNew_def allocMessage_def queueMessage_def Let_def)
  have "\<exists>t2. run_round True 0 ?t1 = Val t2 \<and> sent_control = run_top 0 t2 \<and> tx_pc t2 = AtTop"
    by (simp add: run_round_def run_top_def run_locked_def newTransaction_def control_def queueNew_def
        allocMessage_def queueMessage_def newMessage_def setSent_def sent_control_def Let_def)
  then show ?thesis using round_step [OF r1 pc1] by (metis tx_reach.step tx_step.top)
qed

theorem acknowledged_message_removed_witness:
  "\<exists>t1 t2. ackReceived 0 sent_control = Val t1 \<and> run_locked True t1 = Val t2 \<and> tx_messages t2 = []"
proof -
  have "\<exists>t1 t2. ackReceived (cm_seq (setSent (newMessage 0 (control_text ''a'' ''p'' ''m'' '''')))) sent_control = Val t1 \<and>
     run_locked True t1 = Val t2 \<and> tx_heap t2 1 = None \<and>
     tx_messages t2 = filter (\<lambda>q. q \<noteq> 1 \<and> q \<notin> set (tx_oldMessages sent_control)) (tx_messages sent_control)"
    by (rule acknowledged_message_removed [OF sent_control_reach])
       (simp_all add: sent_control_def newTransaction_def)
  moreover have "cm_seq (setSent (newMessage 0 x)) = 0" for x by (simp add: setSent_def newMessage_def)
  moreover have "filter (\<lambda>q. q \<noteq> 1 \<and> q \<notin> set (tx_oldMessages sent_control)) (tx_messages sent_control) = []"
    by (simp add: sent_control_def)
  ultimately show ?thesis by (simp only:) blast
qed

theorem duplicate_ack_double_free_witness:
  "\<exists>t1 t2. ackReceived 0 sent_control = Val t1 \<and> ackReceived 0 t1 = Val t2 \<and> run_locked True t2 = Undef"
proof -
  have "\<exists>t1 t2. ackReceived (cm_seq (setSent (newMessage 0 (control_text ''a'' ''p'' ''m'' '''')))) sent_control = Val t1 \<and>
     ackReceived (cm_seq (setSent (newMessage 0 (control_text ''a'' ''p'' ''m'' '''')))) t1 = Val t2 \<and>
     run_locked True t2 = Undef"
    by (rule duplicate_ack_double_free [OF sent_control_reach, of 1])
       (simp_all add: sent_control_def newTransaction_def)
  then show ?thesis by (simp only: setSent_def newMessage_def) simp
qed

subsection \<open>The end of a transaction\<close>

lemma queueNew_terminated: "tx_status t = CFW_REPORT_TERMINATE \<Longrightarrow>
    tx_status (queueNew m s t) = CFW_REPORT_TERMINATE \<and> tx_messages (queueNew m s t) = tx_messages t"
  by (simp add: queueNew_def allocMessage_def queueMessage_def)

lemma locked_terminated:
  assumes ok: "tx_ok t" and r: "run_locked online t = Val t'"
  shows "tx_status t' = tx_status t \<and> set (tx_messages t') \<subseteq> set (tx_messages t)"
proof -
  obtain t1 where t1: "purge (tx_oldMessages t) t = Val t1"
    using r by (auto simp: run_locked_def cpp_bind_Val)
  have ok1: "tx_ok t1" "tx_oldMessages t1 = []" using tx_ok_purge [OF ok t1] by auto
  have s1: "tx_status t1 = tx_status t" "set (tx_messages t1) \<subseteq> set (tx_messages t)"
    using purge_Val [OF t1] by auto
  show ?thesis
  proof (cases "tx_messages t1 = []")
    case True
    with r t1 s1 show ?thesis by (auto simp: run_locked_def split: if_splits)
  next
    case False
    obtain t2 where "send_queue online (tx_messages t1) t1 = Val t2" "tx_messages t2 = tx_messages t1"
        "tx_status t2 = tx_status t1"
      using send_queue_ok [OF ok1(1), of "tx_messages t1" online] ok1 by (auto simp: tx_ok_def)
    with r t1 s1 False show ?thesis by (auto simp: run_locked_def)
  qed
qed

lemma terminated_step:
  assumes "tx_inv t" and "tx_status t = CFW_REPORT_TERMINATE" and "tx_step t t'"
  shows "tx_status t' = CFW_REPORT_TERMINATE \<and> set (tx_messages t') \<subseteq> set (tx_messages t)"
  using assms(3)
proof cases
  case (locked online)
  with assms(1,2) show ?thesis by (auto dest!: tx_inv_live locked_terminated)
next
  case leave
  with assms(1) have "tx_ok t" by (auto dest: tx_inv_live)
  then have "drop_queue (tx_messages t) t = Val (t\<lparr>tx_messages := [],
      tx_heap := (\<lambda>p. if p \<in> set (tx_messages t) then None else tx_heap t p)\<rparr>)"
    by (intro drop_queue_ok) (auto simp: tx_ok_def strict_sorted_iff)
  with leave assms(2) show ?thesis by (auto simp: run_leave_def)
next
  case (ack seq)
  with assms(2) show ?thesis by (auto simp: ackReceived_def cpp_bind_Val split: if_splits option.splits)
qed (use assms(2) in \<open>auto simp: run_top_def refresh_def startTimer_def report_def errorCode_def control_def
       stopTransaction_def Let_def queueNew_terminated\<close>)

text \<open>
  Once a terminating message was queued, the transaction stays terminated and accepts nothing
  more: along any further run, with reports, errors, refreshes and acknowledgements in any order,
  the queue only shrinks. So the terminating message is the last one the peer gets.
\<close>

theorem terminated_accepts_nothing:
  assumes "tx_reach t" and "tx_status t = CFW_REPORT_TERMINATE" and "tx_step\<^sup>*\<^sup>* t t'"
  shows "tx_status t' = CFW_REPORT_TERMINATE \<and> set (tx_messages t') \<subseteq> set (tx_messages t)"
  using assms(3)
proof (induction rule: rtranclp_induct)
  case (step u v)
  from step.hyps(1) assms(1) have "tx_reach u"
    by (induction rule: rtranclp_induct) (auto intro: tx_reach.step)
  with step.IH step.hyps(2) terminated_step [OF tx_inv_reach, of u v] show ?case by blast
qed (use assms(2) in simp)

theorem terminated_accepts_nothing_witness:
  "tx_messages (fst (report 200 10 ''m'' ''b'' sent_control)) = [1]"
proof -
  have "tx_step\<^sup>*\<^sup>* sent_control (fst (report 200 10 ''m'' ''b'' sent_control))"
    by (blast intro: tx_step.rep)
  moreover have "tx_status sent_control = CFW_REPORT_TERMINATE" by (simp add: sent_control_def)
  ultimately have "set (tx_messages (fst (report 200 10 ''m'' ''b'' sent_control))) \<subseteq> set (tx_messages sent_control)"
    using terminated_accepts_nothing [OF sent_control_reach] by blast
  moreover have "tx_messages sent_control = [1]" by (simp add: sent_control_def)
  moreover have "1 \<in> set (tx_messages (fst (report 200 10 ''m'' ''b'' sent_control)))"
    by (simp add: sent_control_def report_def Let_def queueNew_def allocMessage_def queueMessage_def newTransaction_def)
  moreover have "length (tx_messages (fst (report 200 10 ''m'' ''b'' sent_control))) = 1"
    by (simp add: sent_control_def report_def Let_def queueNew_def allocMessage_def queueMessage_def newTransaction_def)
  ultimately show ?thesis by (auto simp: length_Suc_conv)
qed

text \<open>
  While a request is pending the peer is told to keep waiting every eight seconds and not more
  often: the timer check that finds eight seconds gone queues one refresh (a 202 if nothing was
  answered yet, a REPORT update otherwise) and restarts the timer, and a check less than eight
  seconds later queues nothing. This holds while the timer's reading fits the 32-bit start.
\<close>

theorem refresh_every_eight_seconds:
  assumes "tx_reach t" and "tx_pc t = AtTop" and "tx_active t" and "tx_timer t" and "tx_status t \<noteq> CFW_REPORT_TERMINATE" and "unat now < 2 ^ 32"
    and "8000 \<le> now - ucast (tx_timeoutStart t)" and "now \<le> later" and "later - now < 8000"
  shows "\<exists>m. tx_messages (run_top now t) = tx_messages t @ [tx_next t] \<and>
     tx_heap (run_top now t) (tx_next t) = Some m \<and>
     cm_text m = (if tx_status t = -1 then text_202 (tx_tid t) else text_update (tx_tid t) (tx_seq t)) \<and>
     tx_messages (run_top later (run_top now t)) = tx_messages (run_top now t)"
proof -
  have "(ucast (ucast now :: u32) :: u64) = now"
    using assms(6) by (rule ucast_u64_u32)
  moreover have "0 < tx_next t" using tx_inv_live [OF tx_inv_reach [OF assms(1)]] assms(2) by (simp add: tx_ok_def)
  ultimately show ?thesis
    using assms by (auto simp: run_top_def refresh_def startTimer_def queueNew_def allocMessage_def
        queueMessage_def newMessage_def dontWait_def Let_def not_le)
qed

theorem refresh_every_eight_seconds_witness:
  "let t = startTimer 0 (newTransaction 5 ''a'')
   in tx_messages (run_top 9000 t) = [1] \<and> tx_messages (run_top 16000 (run_top 9000 t)) = [1]"
proof -
  let ?t = "startTimer 0 (newTransaction 5 ''a'')"
  have "tx_reach ?t" by (blast intro: tx_reach.intros tx_step.tim)
  then have "\<exists>m. tx_messages (run_top 9000 ?t) = tx_messages ?t @ [tx_next ?t] \<and>
     tx_heap (run_top 9000 ?t) (tx_next ?t) = Some m \<and>
     cm_text m = (if tx_status ?t = -1 then text_202 (tx_tid ?t) else text_update (tx_tid ?t) (tx_seq ?t)) \<and>
     tx_messages (run_top 16000 (run_top 9000 ?t)) = tx_messages (run_top 9000 ?t)"
    by (rule refresh_every_eight_seconds) (simp_all add: newTransaction_def startTimer_def)
  moreover have "tx_messages ?t = []" "tx_next ?t = 1" by (simp_all add: newTransaction_def startTimer_def)
  ultimately show ?thesis unfolding Let_def by (metis append_Nil)
qed

end
