(* ===== verification/CfwClient.thy ===== *)
theory CfwClient
  imports StdMap
begin

text \<open>
  \<open>src/MediaCtrlClient.cxx\<close>: the connection to an application server (class
  \<open>MediaCtrlClient\<close>): its state, the keep-alive counter, the fingerprint comparison of a TLS
  session, the automaton that cuts the byte stream into header blocks, and the reading of a
  message body. Sockets and OpenSSL are not part of the repository: what \<open>recv\<close>, \<open>SSL_read\<close>,
  \<open>SSL_accept\<close>, the digest and the timer return are arguments.
\<close>

subsection \<open>State\<close>

text \<open>
  \<open>cl_session\<close> says whether there is a TLS session. \<open>ip\<close>, \<open>port\<close>, \<open>startTime\<close> and
  \<open>keepAlive\<close> are unset by the constructor and read only after they were assigned; they start
  as 0 here.
\<close>

record client =
  cl_dialogId :: string
  cl_callId :: string
  cl_alive :: bool
  cl_pollfd :: int
  cl_ip :: string
  cl_port :: u16
  cl_fd :: int
  cl_tls :: bool
  cl_fingerprint :: string
  cl_session :: bool
  cl_accepted :: bool
  cl_authenticated :: bool
  cl_startTime :: u32
  cl_keepAlive :: u32
  cl_timer :: bool

definition newClient :: "bool \<Rightarrow> string \<Rightarrow> client" where
  "newClient tls fingerprint =
     \<lparr>cl_dialogId = '''', cl_callId = '''', cl_alive = False, cl_pollfd = -1, cl_ip = '''',
      cl_port = 0, cl_fd = -1, cl_tls = tls, cl_fingerprint = fingerprint, cl_session = False,
      cl_accepted = False, cl_authenticated = False, cl_startTime = 0, cl_keepAlive = 0,
      cl_timer = False\<rparr>"

definition setDialog :: "string \<Rightarrow> string \<Rightarrow> client \<Rightarrow> client" where
  "setDialog callId cfwId c = c\<lparr>cl_callId := callId, cl_dialogId := cfwId\<rparr>"

definition setAddress :: "string \<Rightarrow> u16 \<Rightarrow> client \<Rightarrow> client" where
  "setAddress ip port c = c\<lparr>cl_ip := ip, cl_port := port\<rparr>"

definition setAuthenticated :: "client \<Rightarrow> client" where
  "setAuthenticated c = c\<lparr>cl_authenticated := True\<rparr>"

subsection \<open>The keep-alive counter\<close>

definition resetCounter :: "u64 \<Rightarrow> client \<Rightarrow> client" where
  "resetCounter elapsed c = (if cl_timer c then c\<lparr>cl_startTime := ucast elapsed\<rparr> else c)"

text \<open>A fresh timer, whose first reading is \<open>elapsed\<close>.\<close>

definition startCounter :: "u64 \<Rightarrow> client \<Rightarrow> client" where
  "startCounter elapsed c = resetCounter elapsed (c\<lparr>cl_timer := True\<rparr>)"

definition setKeepAlive :: "int \<Rightarrow> u64 \<Rightarrow> client \<Rightarrow> client" where
  "setKeepAlive seconds elapsed c = resetCounter elapsed (c\<lparr>cl_keepAlive := word_of_int (seconds * 1000)\<rparr>)"

definition getKeepAlive :: "client \<Rightarrow> int" where
  "getKeepAlive c = uint (cl_keepAlive c div 1000)"

definition getTimeout :: "u64 \<Rightarrow> client \<Rightarrow> bool" where
  "getTimeout elapsed c \<longleftrightarrow> cl_timer c \<and> ucast (cl_keepAlive c) < elapsed - ucast (cl_startTime c)"

text \<open>
  \<open>setFd\<close>; \<open>ssl\<close> says whether \<open>SSL_new\<close> returns a session, \<open>elapsed\<close> is the fresh timer's
  reading.
\<close>

definition setFd :: "int \<Rightarrow> bool \<Rightarrow> u64 \<Rightarrow> client \<Rightarrow> client" where
  "setFd fd ssl elapsed c =
     (if fd = -1 then
        c\<lparr>cl_fd := -1, cl_pollfd := -1, cl_session := False, cl_accepted := False\<rparr>
      else
        let c1 = (if \<not> cl_tls c then c\<lparr>cl_fd := fd\<rparr>
                  else c\<lparr>cl_session := ssl, cl_accepted := False, cl_fd := fd\<rparr>)
        in startCounter elapsed (c1\<lparr>cl_keepAlive := 100000\<rparr>))"

text \<open>The wait at the head of \<open>run()\<close>'s loop, once it is signalled.\<close>

definition client_wakeup :: "client \<Rightarrow> client" where
  "client_wakeup c = (if -1 < cl_fd c then c\<lparr>cl_pollfd := cl_fd c\<rparr> else c)"

subsection \<open>Sending\<close>

text \<open>\<open>sendMessage\<close>: \<open>out\<close> is the number of bytes \<open>send\<close> or \<open>SSL_write\<close> reports.\<close>

definition sendMessage :: "string \<Rightarrow> int \<Rightarrow> client \<Rightarrow> int" where
  "sendMessage text out c =
     (if cl_fd c < 0 then -1
      else if text = '''' then -1
      else if \<not> cl_tls c then out
      else if cl_session c then out
      else -1)"

subsection \<open>Fingerprints\<close>

text \<open>
  \<open>sha1Fingerprint\<close> and \<open>sha1FingerprintPeer\<close>: the digest's bytes as upper-case hexadecimal
  pairs joined by colons. The loop writes a colon after every pair; the last one is overwritten
  by the terminating NUL. \<open>md\<close> is \<open>None\<close> if there is no session or no digest.
\<close>

definition hexcodes :: string where
  "hexcodes = ''0123456789ABCDEF''"

definition hex_pair :: "u8 \<Rightarrow> string" where
  "hex_pair b = [hexcodes ! unat (drop_bit 4 (and b 0xf0)), hexcodes ! unat (and b 0x0f)]"

definition fingerprint_cells :: "u8 list \<Rightarrow> string" where
  "fingerprint_cells md =
     (let cells = concat (map (\<lambda>b. hex_pair b @ '':'') md)
      in if md = [] then [CHR 0x00] else cells[3 * (length md - 1) + 2 := CHR 0x00])"

definition sha1Fingerprint :: "u8 list option \<Rightarrow> string" where
  "sha1Fingerprint md = (case md of None \<Rightarrow> '''' | Some bs \<Rightarrow> c_string (fingerprint_cells bs))"

subsection \<open>The framing automaton\<close>

text \<open>
  One byte of \<open>run()\<close>'s inner loop. \<open>rd_buf\<close> holds the bytes up to \<open>position\<close>, \<open>rd_msglen\<close> is
  the size of the allocated block: the byte goes to \<open>position\<close>, a NUL behind it, and the block
  grows by 50 when fewer than 10 bytes are left. \<open>grow n\<close> says whether \<open>realloc\<close> to \<open>n\<close> bytes
  succeeds.
\<close>

record reader =
  rd_buf :: string
  rd_msglen :: nat
  rd_trailer :: nat

definition rd_start :: "nat \<Rightarrow> reader" where
  "rd_start msglen = \<lparr>rd_buf = '''', rd_msglen = msglen, rd_trailer = 0\<rparr>"

definition next_trailer :: "nat \<Rightarrow> char \<Rightarrow> nat" where
  "next_trailer trailer c =
     (if trailer = 1 \<or> trailer = 3 then (if c = CHR 0x0A then trailer + 1 else 0)
      else if trailer = 0 \<or> trailer = 2 then (if c = CHR 0x0D then trailer + 1 else 0)
      else 0)"

datatype byte_result = NoMemory | Stored reader

definition store_byte :: "(nat \<Rightarrow> bool) \<Rightarrow> char \<Rightarrow> reader \<Rightarrow> byte_result cpp" where
  "store_byte grow c r =
     (let position = length (rd_buf r) in
      if rd_msglen r \<le> position + 1 then Undef
      else
        let r1 = r\<lparr>rd_buf := rd_buf r @ [c]\<rparr>; position1 = position + 1 in
        if rd_msglen r < position1 + 10 \<and> \<not> grow (rd_msglen r + 50) then Val NoMemory
        else Val (Stored (r1\<lparr>rd_msglen := (if rd_msglen r < position1 + 10 then rd_msglen r + 50 else rd_msglen r),
                             rd_trailer := next_trailer (rd_trailer r) c\<rparr>)))"

text \<open>
  The inner loop over what \<open>recv\<close> gives: \<open>Some c\<close> for a byte, \<open>None\<close> for a result below 1. It
  ends with a whole block, a lost connection, a failed allocation, or it waits for more.
\<close>

datatype read_result = Block string nat | Lost nat | Failed nat | Waiting reader

fun read_block :: "(nat \<Rightarrow> bool) \<Rightarrow> char option list \<Rightarrow> reader \<Rightarrow> (read_result \<times> char option list) cpp" where
  "read_block grow [] r = Val (Waiting r, [])"
| "read_block grow (None # inp) r = Val (Lost (rd_msglen r), inp)"
| "read_block grow (Some c # inp) r =
     cpp_bind (store_byte grow c r) (\<lambda>res. case res of
         NoMemory \<Rightarrow> Val (Failed (rd_msglen r), inp)
       | Stored r' \<Rightarrow>
           if rd_trailer r' = 4 then Val (Block (rd_buf r') (rd_msglen r'), inp)
           else read_block grow inp r')"

text \<open>What is handed to \<open>parseMessage\<close>: the block as a C string.\<close>

definition new_message :: "read_result \<Rightarrow> string option" where
  "new_message res = (case res of Block buf _ \<Rightarrow> Some (c_string buf) | _ \<Rightarrow> None)"

subsection \<open>The TLS handshake\<close>

text \<open>
  The branch of the inner loop taken before the session is accepted: \<open>accept\<close> is the result of
  \<open>SSL_accept\<close>, \<open>peer\<close> the digest of the peer's certificate. \<open>True\<close> means the loop goes on,
  \<open>False\<close> that the connection was reported lost and closed.
\<close>

definition tls_accept :: "int \<Rightarrow> u8 list option \<Rightarrow> client \<Rightarrow> client \<times> bool" where
  "tls_accept accept peer c =
     (if accept < 1 then (setFd (-1) False 0 c, False)
      else if sha1Fingerprint peer \<noteq> cl_fingerprint c then (setFd (-1) False 0 c, False)
      else (c\<lparr>cl_accepted := True\<rparr>, True))"

subsection \<open>Reading a body\<close>

text \<open>
  \<open>getContent\<close>: each element is what one \<open>recv\<close> finds in the socket, the empty string for a
  result below 1; \<open>recv\<close> takes at most what it is asked for and leaves the rest. \<open>None\<close>: the
  loop has not ended.
\<close>

fun recv_content :: "nat \<Rightarrow> string \<Rightarrow> string list \<Rightarrow> (string \<times> string list) option" where
  "recv_content len blob [] = None"
| "recv_content len blob (ch # chs) =
     (let got = take (len - length blob) ch; rest = drop (len - length blob) ch in
      if got = [] then recv_content len blob chs
      else if len \<le> length (blob @ got) then Some (blob @ got, (if rest = [] then chs else rest # chs))
      else recv_content len (blob @ got) chs)"

definition getContent :: "bool \<Rightarrow> nat \<Rightarrow> string list \<Rightarrow> client \<Rightarrow> (string \<times> string list) option" where
  "getContent same_callback len chs c =
     (if \<not> same_callback then Some ('''', chs)
      else if cl_fd c < 0 then Some ('''', chs)
      else map_option (\<lambda>(blob, rest). (c_string blob, rest)) (recv_content len [] chs))"

subsection \<open>The block stays inside its memory\<close>

definition rd_ok :: "reader \<Rightarrow> bool" where
  "rd_ok r \<longleftrightarrow> length (rd_buf r) + 10 \<le> rd_msglen r"

lemma rd_ok_start [simp]: "10 \<le> n \<Longrightarrow> rd_ok (rd_start n)"
  by (simp add: rd_ok_def rd_start_def)

lemma store_byte_ok:
  "rd_ok r \<Longrightarrow> \<exists>res. store_byte grow c r = Val res \<and>
     (\<forall>r'. res = Stored r' \<longrightarrow> rd_ok r' \<and> rd_buf r' = rd_buf r @ [c] \<and> rd_msglen r \<le> rd_msglen r' \<and>
        rd_trailer r' = next_trailer (rd_trailer r) c)"
  by (auto simp: store_byte_def rd_ok_def Let_def)

lemma store_byte_grow: "rd_ok r \<Longrightarrow> (\<And>n. grow n) \<Longrightarrow> \<exists>r'. store_byte grow c r = Val (Stored r') \<and>
     rd_ok r' \<and> rd_buf r' = rd_buf r @ [c] \<and> rd_trailer r' = next_trailer (rd_trailer r) c"
  by (auto simp: store_byte_def rd_ok_def Let_def)

lemma read_block_defined: "rd_ok r \<Longrightarrow> read_block grow inp r \<noteq> Undef"
proof (induction grow inp r rule: read_block.induct)
  case (3 grow c inp r)
  obtain res where "store_byte grow c r = Val res" "\<And>r'. res = Stored r' \<Longrightarrow> rd_ok r'"
    using store_byte_ok [OF "3.prems", of grow c] by blast
  with "3.IH" show ?case by (cases res) auto
qed simp_all

lemma read_block_size:
  "rd_ok r \<Longrightarrow> read_block grow inp r = Val (res, rest) \<Longrightarrow>
     (case res of Block b n \<Rightarrow> length b + 10 \<le> n | Lost n \<Rightarrow> rd_msglen r \<le> n
      | Failed n \<Rightarrow> rd_msglen r \<le> n | Waiting r' \<Rightarrow> rd_ok r')"
proof (induction grow inp r rule: read_block.induct)
  case (3 grow c inp r)
  obtain re where re: "store_byte grow c r = Val re"
      "\<And>r'. re = Stored r' \<Longrightarrow> rd_ok r' \<and> rd_msglen r \<le> rd_msglen r'"
    using store_byte_ok [OF "3.prems"(1), of grow c] by blast
  show ?case
  proof (cases re)
    case NoMemory
    with re "3.prems"(2) show ?thesis by auto
  next
    case (Stored r')
    show ?thesis
    proof (cases "rd_trailer r' = 4")
      case True
      with re Stored "3.prems"(2) show ?thesis by (auto simp: rd_ok_def)
    next
      case False
      with re Stored "3.prems"(2) have "read_block grow inp r' = Val (res, rest)" by simp
      from "3.IH" [OF False _ this] re Stored show ?thesis
        by (auto split: read_result.splits)
    qed
  qed
qed auto

subsection \<open>The automaton and the end of a header\<close>

definition crlfcrlf :: string where
  "crlfcrlf = [CHR 0x0D, CHR 0x0A, CHR 0x0D, CHR 0x0A]"

definition ends_with :: "string \<Rightarrow> string \<Rightarrow> bool" where
  "ends_with p s \<longleftrightarrow> length p \<le> length s \<and> drop (length s - length p) s = p"

lemma ends_with_iff: "ends_with p s \<longleftrightarrow> (\<exists>u. s = u @ p)"
proof
  assume "ends_with p s"
  then show "\<exists>u. s = u @ p"
    unfolding ends_with_def by (metis append_take_drop_id)
qed (auto simp: ends_with_def)

lemma ends_with_snoc [simp]: "ends_with (p @ [c]) (s @ [d]) \<longleftrightarrow> c = d \<and> ends_with p s"
  by (auto simp: ends_with_iff)

lemma ends_with_Nil [simp]: "ends_with [] s"
  by (simp add: ends_with_def)

lemma ends_with_empty [simp]: "ends_with p [] \<longleftrightarrow> p = []"
  by (auto simp: ends_with_def)

text \<open>How much of the end mark a string ends with.\<close>

definition CR :: char where "CR = CHR 0x0D"
definition LF :: char where "LF = CHR 0x0A"

lemma CR_LF [simp]: "CR \<noteq> LF" "LF \<noteq> CR"
  by (simp_all add: CR_def LF_def)

definition matched :: "string \<Rightarrow> nat" where
  "matched s = (if ends_with [CR, LF, CR, LF] s then 4 else if ends_with [CR, LF, CR] s then 3
     else if ends_with [CR, LF] s then 2 else if ends_with [CR] s then 1 else 0)"

fun no_double_CR :: "string \<Rightarrow> bool" where
  "no_double_CR (c # d # s) \<longleftrightarrow> \<not> (c = CR \<and> d = CR) \<and> no_double_CR (d # s)"
| "no_double_CR s \<longleftrightarrow> True"

lemma no_double_CR_append:
  "no_double_CR (s @ t) \<longleftrightarrow> no_double_CR s \<and> no_double_CR t \<and> \<not> (s \<noteq> [] \<and> t \<noteq> [] \<and> last s = CR \<and> hd t = CR)"
  by (induction s rule: no_double_CR.induct) (cases t; auto)+

lemma ends_with_suffix: "ends_with (p @ q) s \<Longrightarrow> ends_with q s"
  by (auto simp: ends_with_iff)

lemma next_trailer_matched:
  assumes "no_double_CR (s @ [c])" and "matched s \<noteq> 4"
  shows "next_trailer (matched s) c = matched (s @ [c])"
proof -
  have cc: "\<not> (ends_with [CR] s \<and> c = CR)"
    using assms(1) by (auto simp: ends_with_iff no_double_CR_append)
  have sn: "ends_with [CR, LF, CR, LF] (s @ [c]) \<longleftrightarrow> c = LF \<and> ends_with [CR, LF, CR] s"
    "ends_with [CR, LF, CR] (s @ [c]) \<longleftrightarrow> c = CR \<and> ends_with [CR, LF] s"
    "ends_with [CR, LF] (s @ [c]) \<longleftrightarrow> c = LF \<and> ends_with [CR] s"
    "ends_with [CR] (s @ [c]) \<longleftrightarrow> c = CR"
    using ends_with_snoc [of "[CR, LF, CR]" LF s c] ends_with_snoc [of "[CR, LF]" CR s c]
      ends_with_snoc [of "[CR]" LF s c] ends_with_snoc [of "[]" CR s c] by auto
  have im: "ends_with [CR, LF, CR] s \<Longrightarrow> ends_with [CR] s" "ends_with [CR, LF] s \<Longrightarrow> \<not> ends_with [CR] s"
    using ends_with_suffix [of "[CR, LF]" "[CR]" s] by (auto simp: ends_with_iff)
  show ?thesis using assms(2) cc im sn
    by (auto simp: next_trailer_def matched_def CR_def [symmetric] LF_def [symmetric] split: if_splits)
qed

text \<open>
  The end mark found by the automaton: on input whose bytes hold no carriage return right behind
  another, the block ends at the first occurrence of CR LF CR LF and nowhere else.
\<close>

definition first_end :: "string \<Rightarrow> bool" where
  "first_end s \<longleftrightarrow> ends_with [CR, LF, CR, LF] s \<and>
     list_all (\<lambda>k. \<not> ends_with [CR, LF, CR, LF] (take k s)) [0..<length s]"

lemma no_double_CR_prefix: "no_double_CR (s @ t) \<Longrightarrow> no_double_CR s"
  by (simp add: no_double_CR_append)

lemma matched_4: "matched s = 4 \<longleftrightarrow> ends_with [CR, LF, CR, LF] s"
  by (simp add: matched_def)

lemma read_block_framed:
  assumes "rd_ok r" and "\<And>n. grow n" and "rd_trailer r = matched (rd_buf r)" and "matched (rd_buf r) \<noteq> 4"
    and "no_double_CR (rd_buf r @ h)" and "h \<noteq> []"
    and "\<And>k. k < length h \<Longrightarrow> \<not> ends_with [CR, LF, CR, LF] (rd_buf r @ take k h)"
    and "ends_with [CR, LF, CR, LF] (rd_buf r @ h)"
  shows "\<exists>n. read_block grow (map Some (h @ rest)) r = Val (Block (rd_buf r @ h) n, map Some rest)"
  using assms
proof (induction h arbitrary: r)
  case (Cons c h)
  obtain r' where r': "store_byte grow c r = Val (Stored r')" "rd_ok r'" "rd_buf r' = rd_buf r @ [c]"
      "rd_trailer r' = next_trailer (rd_trailer r) c"
    using store_byte_grow [of r grow c] Cons.prems(1,2) by blast
  have nd: "no_double_CR (rd_buf r @ [c])"
    using Cons.prems(5) no_double_CR_prefix [of "rd_buf r @ [c]" h] by simp
  have tr: "rd_trailer r' = matched (rd_buf r')"
    using r' Cons.prems(3,4) next_trailer_matched [OF nd] by simp
  show ?case
  proof (cases "h = []")
    case True
    then have "rd_trailer r' = 4" using tr r'(3) Cons.prems(8) by (simp add: matched_4)
    with r' True show ?thesis by simp
  next
    case False
    then have "\<not> ends_with [CR, LF, CR, LF] (rd_buf r')" using Cons.prems(7) [of 1] r'(3) by (cases h) auto
    then have n4: "matched (rd_buf r') \<noteq> 4" by (simp add: matched_4)
    have "\<exists>n. read_block grow (map Some (h @ rest)) r' = Val (Block (rd_buf r' @ h) n, map Some rest)"
    proof (rule Cons.IH [OF r'(2) Cons.prems(2) tr n4 _ False])
      show "no_double_CR (rd_buf r' @ h)" using Cons.prems(5) r'(3) by simp
      show "ends_with [CR, LF, CR, LF] (rd_buf r' @ h)" using Cons.prems(8) r'(3) by simp
      show "\<not> ends_with [CR, LF, CR, LF] (rd_buf r' @ take k h)" if "k < length h" for k
        using Cons.prems(7) [of "Suc k"] that r'(3) by simp
    qed
    with r' tr n4 show ?thesis by simp
  qed
qed simp

text \<open>
  Reading a header never writes outside the allocated block, whatever bytes arrive, whenever
  the connection is lost or memory runs out; and after the read there is still room for ten more
  bytes, so the next one starts safely in the same block.
\<close>

theorem reading_stays_in_block:
  assumes "100 \<le> msglen"
  shows "\<exists>res rest. read_block grow inp (rd_start msglen) = Val (res, rest) \<and>
     (case res of Block b n \<Rightarrow> length b + 10 \<le> n | Lost n \<Rightarrow> 100 \<le> n | Failed n \<Rightarrow> 100 \<le> n
      | Waiting r \<Rightarrow> length (rd_buf r) + 10 \<le> rd_msglen r)"
proof -
  have ok: "rd_ok (rd_start msglen)" and sz: "100 \<le> rd_msglen (rd_start msglen)"
    using assms by (auto simp: rd_start_def rd_ok_def)
  obtain res rest where r: "read_block grow inp (rd_start msglen) = Val (res, rest)"
    using read_block_defined [OF ok, of grow inp] by (cases "read_block grow inp (rd_start msglen)") auto
  from read_block_size [OF ok r] sz show ?thesis
    by (intro exI [of _ res] exI [of _ rest]) (auto simp: r rd_ok_def split: read_result.splits)
qed

theorem reading_stays_in_block_witness:
  "\<exists>res rest. read_block (\<lambda>n. True) (map Some (replicate 500 CHR ''x'')) (rd_start 100) = Val (res, rest)"
  using reading_stays_in_block [of 100 "\<lambda>n. True" "map Some (replicate 500 CHR ''x'')"] by auto

text \<open>
  C36. Framing: a header block without a doubled carriage return, whose only CR LF CR LF is at its
  end, is read as one message exactly as it was sent, however much follows it in the stream, and
  what follows is left unread.
\<close>

theorem framing_reads_one_block:
  assumes "first_end h" and "no_double_CR h" and "CHR 0x00 \<notin> set h" and "100 \<le> msglen" and "\<And>n. grow n"
  shows "\<exists>res. read_block grow (map Some (h @ rest)) (rd_start msglen) = Val (res, map Some rest) \<and>
     new_message res = Some h"
proof -
  have "\<exists>n. read_block grow (map Some (h @ rest)) (rd_start msglen) = Val (Block (rd_buf (rd_start msglen) @ h) n, map Some rest)"
    by (rule read_block_framed)
       (use assms in \<open>auto simp: rd_start_def rd_ok_def matched_def first_end_def list_all_iff\<close>)
  then show ?thesis using assms(3) by (auto simp: new_message_def rd_start_def c_string_id)
qed

definition keep_alive_block :: string where
  "keep_alive_block = ''CFW a K-ALIVE'' @ [CR, LF, CR, LF]"

theorem framing_reads_one_block_witness:
  "\<exists>res. read_block (\<lambda>n. True) (map Some (keep_alive_block @ ''CFW'')) (rd_start 100) = Val (res, map Some ''CFW'') \<and>
     new_message res = Some keep_alive_block"
proof (rule framing_reads_one_block)
  show "first_end keep_alive_block" by code_simp
  show "no_double_CR keep_alive_block" by code_simp
qed (simp_all add: keep_alive_block_def CR_def LF_def)

text \<open>
  The condition on doubled carriage returns is needed: of a block that ends in CR CR LF CR LF
  the automaton misses the end mark, and goes on reading into whatever comes next.
\<close>

theorem framing_misses_doubled_CR:
  "\<exists>r. read_block (\<lambda>n. True) (map Some (''x'' @ [CR, CR, LF, CR, LF])) (rd_start 100) = Val (Waiting r, []) \<and>
     ends_with [CR, LF, CR, LF] (rd_buf r)"
proof -
  have "(case read_block (\<lambda>n. True) (map Some (''x'' @ [CR, CR, LF, CR, LF])) (rd_start 100) of
      Val (Waiting r, inp) \<Rightarrow> inp = [] \<and> ends_with [CR, LF, CR, LF] (rd_buf r) | _ \<Rightarrow> False)"
    by code_simp
  then show ?thesis by (auto split: cpp.splits prod.splits read_result.splits)
qed

subsection \<open>Bodies\<close>

lemma recv_content_exact:
  "length blob < len \<Longrightarrow> len \<le> length blob + length (concat chs) \<Longrightarrow>
     \<exists>rest. recv_content len blob chs = Some (blob @ take (len - length blob) (concat chs), rest) \<and>
       concat rest = drop (len - length blob) (concat chs)"
proof (induction len blob chs rule: recv_content.induct)
  case (2 len blob ch chs)
  define k where "k = len - length blob"
  have k: "0 < k" using "2.prems" by (simp add: k_def)
  consider (none) "take k ch = []" | (full) "take k ch \<noteq> []" "len \<le> length (blob @ take k ch)"
    | (more) "take k ch \<noteq> []" "\<not> len \<le> length (blob @ take k ch)" by blast
  then show ?case
  proof cases
    case none
    then have "ch = []" using k by simp
    with 2 show ?thesis by (simp add: Let_def)
  next
    case full
    then have "k \<le> length ch" using k by (auto simp: k_def min_def split: if_splits)
    with full show ?thesis by (simp add: Let_def k_def [symmetric])
  next
    case more
    then have lt: "length ch < k" by (auto simp: k_def min_def split: if_splits)
    then have "recv_content len blob (ch # chs) = recv_content len (blob @ ch) chs"
      using more by (simp add: Let_def k_def [symmetric])
    moreover have "\<exists>rest. recv_content len (blob @ ch) chs =
        Some ((blob @ ch) @ take (len - length (blob @ ch)) (concat chs), rest) \<and>
        concat rest = drop (len - length (blob @ ch)) (concat chs)"
      using "2.IH"(2) [of "take k ch" "drop k ch"] more lt "2.prems" by (simp add: k_def)
    moreover have "len - length (blob @ ch) = k - length ch" by (simp add: k_def)
    ultimately show ?thesis using lt by (simp add: k_def [symmetric])
  qed
qed simp

text \<open>
  However the network cuts a body into pieces, and however often \<open>recv\<close> comes back empty in
  between, \<open>getContent\<close> returns exactly the announced number of bytes, in order, and leaves the
  bytes behind them for the next read.
\<close>

theorem content_is_exact:
  assumes "0 \<le> cl_fd c" and "0 < len" and "len \<le> length (concat chs)" and "CHR 0x00 \<notin> set (take len (concat chs))"
  shows "\<exists>rest. getContent True len chs c = Some (take len (concat chs), rest) \<and>
     concat rest = drop len (concat chs)"
  using recv_content_exact [of "[]" len chs] assms by (auto simp: getContent_def c_string_id)

theorem content_is_exact_witness:
  "\<exists>rest. getContent True 4 [''ab'', '''', ''cdef''] ((newClient False '''')\<lparr>cl_fd := 7\<rparr>) = Some (''abcd'', rest) \<and>
     concat rest = ''ef''"
  using content_is_exact [of "(newClient False '''')\<lparr>cl_fd := 7\<rparr>" 4 "[''ab'', '''', ''cdef'']"] by simp

text \<open>
  \<open>getContent\<close> does not notice that the connection is gone: when fewer bytes than announced
  arrive, or when the announced length is 0, it never returns, however long it goes on reading.
\<close>

lemma recv_content_short:
  "length blob + length (concat chs) < len \<Longrightarrow> recv_content len blob chs = None"
proof (induction len blob chs rule: recv_content.induct)
  case (2 len blob ch chs)
  then show ?case by (auto simp: Let_def)
qed simp

lemma recv_content_zero: "recv_content 0 [] chs = None"
  by (induction chs) (auto simp: Let_def)

theorem content_never_returns:
  assumes "0 \<le> cl_fd c" and "length (concat chs) < len \<or> len = 0"
  shows "getContent True len (chs @ replicate n '''') c = None"
  using assms recv_content_short [of "[]" "chs @ replicate n ''''" len] recv_content_zero
  by (auto simp: getContent_def)

theorem content_never_returns_witness:
  "getContent True 5 ([''abc''] @ replicate 1000 '''') ((newClient False '''')\<lparr>cl_fd := 7\<rparr>) = None"
  using content_never_returns [of "(newClient False '''')\<lparr>cl_fd := 7\<rparr>" "[''abc'']" 5 1000] by simp

subsection \<open>Fingerprints\<close>

fun fp_text :: "u8 list \<Rightarrow> string" where
  "fp_text [] = ''''"
| "fp_text [b] = hex_pair b"
| "fp_text (b # c # bs) = hex_pair b @ '':'' @ fp_text (c # bs)"

lemma hex_pair_eq: "hex_pair b = [hexcodes ! (unat b div 16), hexcodes ! (unat b mod 16)]"
proof -
  have "drop_bit 4 (and b 0xf0) = drop_bit 4 b"
  proof (rule bit_word_eqI)
    fix n :: nat
    assume "n < LENGTH(8)"
    then have "n < 8" by simp
    then consider "n = 0" | "n = 1" | "n = 2" | "n = 3" | "4 \<le> n" by linarith
    then show "bit (drop_bit 4 (and b 0xf0)) n = bit (drop_bit 4 b) n"
    proof cases
      case 5
      then have "\<not> bit b (4 + n)" using bit_imp_le_length [of b "4 + n"] by auto
      then show ?thesis by (simp add: bit_drop_bit_eq bit_and_iff)
    qed (simp_all add: bit_drop_bit_eq bit_and_iff)
  qed
  moreover have "unat (drop_bit 4 b) = unat b div 16"
    by (simp add: unat_drop_bit_eq) (simp add: drop_bit_eq_div)
  moreover have "and b 0x0f = take_bit 4 b"
    by (simp add: take_bit_eq_mask mask_numeral)
  moreover have "unat (take_bit 4 b) = unat b mod 16"
    by (simp add: take_bit_eq_mod unat_mod)
  ultimately show ?thesis by (simp add: hex_pair_def)
qed

lemma hexcodes_distinct: "distinct hexcodes" "length hexcodes = 16" "CHR 0x00 \<notin> set hexcodes" "CHR '':'' \<notin> set hexcodes"
  by code_simp+

lemma hex_pair_inj: "hex_pair a = hex_pair b \<Longrightarrow> a = b"
proof -
  assume "hex_pair a = hex_pair b"
  then have "unat a div 16 = unat b div 16" "unat a mod 16 = unat b mod 16"
    using unat_u8_range [of a] unat_u8_range [of b]
    by (auto simp: hex_pair_eq nth_eq_iff_index_eq [OF hexcodes_distinct(1)] hexcodes_distinct(2))
  then have "unat a = unat b" by (metis mult_div_mod_eq)
  then show "a = b" by (simp only: word_unat_eq_iff)
qed

lemma hex_pair_nonul: "CHR 0x00 \<notin> set (hex_pair b)"
proof -
  have "hexcodes ! (unat b div 16) \<in> set hexcodes" "hexcodes ! (unat b mod 16) \<in> set hexcodes"
    using unat_u8_range [of b] by (auto intro!: nth_mem simp: hexcodes_distinct)
  then show ?thesis using hexcodes_distinct(3) by (auto simp: hex_pair_eq)
qed

lemma length_hex_pair [simp]: "length (hex_pair b) = 2"
  by (simp add: hex_pair_def)

lemma length_fp_text: "length (fp_text bs) = 3 * length bs - 1"
  by (induction bs rule: fp_text.induct) auto

lemma fp_text_nonul: "CHR 0x00 \<notin> set (fp_text bs)"
  by (induction bs rule: fp_text.induct) (auto simp: hex_pair_nonul)

lemma fp_text_inj: "fp_text as = fp_text bs \<Longrightarrow> as = bs"
proof (induction as arbitrary: bs rule: fp_text.induct)
  case 1
  then show ?case using length_fp_text [of bs] by (cases bs) auto
next
  case (2 a)
  then have "3 * length bs - 1 = 2" using length_fp_text [of bs] by (metis fp_text.simps(2) length_hex_pair)
  then have "length bs = 1" by simp
  with 2 show ?case by (auto simp: length_Suc_conv dest: hex_pair_inj)
next
  case (3 a c as)
  then have "length bs = Suc (Suc (length as))"
    using length_fp_text [of bs] length_fp_text [of "a # c # as"] by (cases bs) auto
  then obtain b d ds where bs: "bs = b # d # ds" by (auto simp: length_Suc_conv)
  with "3.prems" have "hex_pair a = hex_pair b \<and> fp_text (c # as) = fp_text (d # ds)"
    by (auto simp: append_eq_append_conv)
  with "3.IH" bs show ?case by (auto dest: hex_pair_inj)
qed

text \<open>The cells the loop fills are the joined text and a NUL.\<close>

lemma fingerprint_cells_eq: "fingerprint_cells bs = fp_text bs @ [CHR 0x00]"
proof -
  have "concat (map (\<lambda>b. hex_pair b @ '':'') (b # bs)) = fp_text (b # bs) @ '':''" for b bs
    by (induction bs arbitrary: b) auto
  then show ?thesis
    by (cases bs) (auto simp: fingerprint_cells_def Let_def length_fp_text list_update_append)
qed

lemma sha1Fingerprint_eq: "sha1Fingerprint (Some bs) = fp_text bs"
proof -
  have "c_string (fp_text bs @ [CHR 0x00]) = fp_text bs"
    unfolding c_string_def using fp_text_nonul [of bs] by (subst takeWhile_append2) auto
  then show ?thesis by (simp add: sha1Fingerprint_def fingerprint_cells_eq)
qed

text \<open>
  The fingerprint identifies the certificate: the comparison of strings by which a TLS peer is
  accepted succeeds exactly if the digest of its certificate is, byte for byte, the one whose
  fingerprint was negotiated; otherwise the connection is closed and the client has no descriptor.
\<close>

theorem tls_peer_accepted_iff_digest:
  assumes "cl_fingerprint c = sha1Fingerprint (Some expected)" and "expected \<noteq> []" and "1 \<le> accept"
  shows "(snd (tls_accept accept peer c) \<longleftrightarrow> peer = Some expected) \<and>
     (peer = Some expected \<longrightarrow> tls_accept accept peer c = (c\<lparr>cl_accepted := True\<rparr>, True)) \<and>
     (peer \<noteq> Some expected \<longrightarrow> cl_fd (fst (tls_accept accept peer c)) = -1)"
proof -
  have "fp_text expected \<noteq> ''''" using assms(2) length_fp_text [of expected] by (cases expected) auto
  then have "sha1Fingerprint peer = cl_fingerprint c \<longleftrightarrow> peer = Some expected"
    using assms(1) by (cases peer) (auto simp: sha1Fingerprint_eq dest: fp_text_inj, simp add: sha1Fingerprint_def)
  then show ?thesis using assms(3) by (auto simp: tls_accept_def setFd_def)
qed

theorem tls_peer_accepted_iff_digest_witness:
  "let c = newClient True ''AB:01'' in
     snd (tls_accept 1 (Some [0xAB, 0x01]) c) \<and> \<not> snd (tls_accept 1 (Some [0xAB, 0x02]) c)"
proof -
  have "cl_fingerprint (newClient True ''AB:01'') = sha1Fingerprint (Some [0xAB, 0x01])"
    by (simp add: newClient_def sha1Fingerprint_eq hex_pair_eq hexcodes_def)
  from tls_peer_accepted_iff_digest [OF this] show ?thesis by (simp add: Let_def)
qed

subsection \<open>Keeping alive\<close>

lemma uint_u32_u64: "0 \<le> k \<Longrightarrow> k < 2 ^ 32 \<Longrightarrow> uint (ucast (word_of_int k :: u32) :: u64) = k"
  by (simp add: unsigned_ucast_eq uint_word_of_int take_bit_int_eq_self)

text \<open>
  The keep-alive timeout: after a keep-alive of \<open>seconds\<close> was agreed, the connection times out
  exactly when more than that many seconds have passed since, and not before; a reset starts
  the wait again. The milliseconds and the timer's reading must fit 32 bits.
\<close>

theorem keepalive_timeout:
  assumes "cl_timer c" and "0 \<le> seconds" and "seconds * 1000 < 2 ^ 32" and "unat start < 2 ^ 32" and "start \<le> now"
  shows "getTimeout now (setKeepAlive seconds start c) \<longleftrightarrow> seconds * 1000 < uint now - uint start"
proof -
  have "uint (ucast (word_of_int (seconds * 1000) :: u32) :: u64) = seconds * 1000"
    by (rule uint_u32_u64) (use assms(2,3) in auto)
  moreover have "uint (now - start) = uint now - uint start"
    using assms(5) by (simp add: uint_sub_if' word_le_def)
  ultimately show ?thesis
    using assms(1,4) by (simp add: getTimeout_def setKeepAlive_def resetCounter_def ucast_u64_u32 word_less_def)
qed

theorem keepalive_timeout_witness:
  "let c = setKeepAlive 100 5000 (setFd 7 False 0 (newClient False ''''))
   in \<not> getTimeout 105000 c \<and> getTimeout 105001 c"
proof -
  have t: "cl_timer (setFd 7 False 0 (newClient False ''''))"
    by (simp add: setFd_def startCounter_def resetCounter_def newClient_def)
  show ?thesis
    using keepalive_timeout [OF t, of 100 5000 105000] keepalive_timeout [OF t, of 100 5000 105001]
    by (simp add: Let_def)
qed

end
