(* ===== verification/CfwStack.thy ===== *)
theory CfwStack
  imports CfwTransaction CfwClient
begin

text \<open>
  \<open>src/CfwStack.cxx\<close>: the state of class \<open>CfwStack\<close> and its operations on clients, packages,
  transactions and ended dialogs, and one round of its thread. Clients and transactions are heap
  objects. A control package is the record of its strings; what the stack asks of packages and of
  its manager is recorded on \<open>st_calls\<close>.
\<close>

subsection \<open>State\<close>

record package =
  pk_name :: string
  pk_version :: string
  pk_desc :: string
  pk_mimeType :: string
  pk_info :: string

datatype stack_call =
    PackageControl string ptr string string
  | ManagerEndDialog string

record stack =
  st_hardKeepAlive :: bool
  st_address :: string
  st_port :: int
  st_clients :: "ptr list"
  st_clientHeap :: "ptr \<rightharpoonup> client"
  st_clientsMap :: "(int, ptr) smap"
  st_packages :: "package list"
  st_packagesString :: "string list"
  st_supportedPackages :: string
  st_transactions :: "(string, ptr) smap"
  st_txHeap :: "ptr \<rightharpoonup> transaction"
  st_endedTransactions :: "string list"
  st_endedDialogs :: "string list"
  st_next :: ptr
  st_mClients :: bool
  st_calls :: "stack_call list"

definition newStack :: "string \<Rightarrow> int \<Rightarrow> bool \<Rightarrow> stack" where
  "newStack address port hardKeepAlive =
     \<lparr>st_hardKeepAlive = hardKeepAlive, st_address = address, st_port = port, st_clients = [],
      st_clientHeap = Map.empty, st_clientsMap = [], st_packages = [], st_packagesString = [],
      st_supportedPackages = '''', st_transactions = [], st_txHeap = Map.empty,
      st_endedTransactions = [], st_endedDialogs = [], st_next = 1, st_mClients = False,
      st_calls = []\<rparr>"

subsection \<open>Packages\<close>

text \<open>\<open>setCfwManager\<close>, after \<open>loadPackages\<close> has found the packages \<open>ps\<close>.\<close>

definition package_id :: "package \<Rightarrow> string" where
  "package_id p = pk_name p @ ''/'' @ pk_version p"

fun add_supported :: "package list \<Rightarrow> string \<Rightarrow> string" where
  "add_supported [] supported = supported"
| "add_supported (p # ps) supported =
     add_supported ps (if supported = '''' then package_id p else supported @ '','' @ package_id p)"

definition setCfwManager :: "package list \<Rightarrow> stack \<Rightarrow> stack" where
  "setCfwManager ps s = s\<lparr>st_packages := st_packages s @ ps,
     st_supportedPackages := (if st_packages s @ ps = [] then st_supportedPackages s
        else add_supported (st_packages s @ ps) (st_supportedPackages s))\<rparr>"

definition getPackage :: "string \<Rightarrow> stack \<Rightarrow> package option" where
  "getPackage name s = find (\<lambda>p. pk_name p = name) (st_packages s)"

definition getSupportedPackages :: "stack \<Rightarrow> string" where
  "getSupportedPackages s = st_supportedPackages s"

definition getPackages :: "stack \<Rightarrow> string list \<times> stack" where
  "getPackages s =
     (let s1 = (if st_packagesString s = [] then s\<lparr>st_packagesString := map package_id (st_packages s)\<rparr> else s)
      in (st_packagesString s1, s1))"

subsection \<open>Matching the requested packages\<close>

definition rx_package :: string where
  "rx_package = ''('' @ bsl @ ''S+)'' @ bsl @ ''/('' @ bsl @ ''d)'' @ bsl @ ''.('' @ bsl @ ''d)''"

text \<open>
  The loop over the requested packages: \<open>None\<close> if one of them is malformed or not found, else
  what is required and what remains of the supported ones. An empty token ends the list.
\<close>

fun match_tokens :: "boost \<Rightarrow> string list \<Rightarrow> bool \<Rightarrow> string \<Rightarrow> string \<Rightarrow> (string \<times> string) option" where
  "match_tokens bx [] first required unrequired = Some (required, unrequired)"
| "match_tokens bx (pkg # toks) first required unrequired =
     (case bx_match bx rx_package pkg of
        None \<Rightarrow> None
      | Some ms \<Rightarrow>
          (case str_find unrequired (sub ms 0) 0 of
             None \<Rightarrow> None
           | Some loc \<Rightarrow>
               let required' = required @ (if first then sub ms 0 else '','' @ sub ms 0);
                   unrequired' = str_erase unrequired loc (length (sub ms 0))
               in if toks = [] \<or> hd toks = '''' then Some (required', unrequired')
                  else match_tokens bx toks False required' unrequired'))"

text \<open>One round of the loop that cleans up the commas; the count says how many searches failed.\<close>

definition erase_at :: "nat option \<Rightarrow> nat \<Rightarrow> string \<Rightarrow> string" where
  "erase_at pos off s = (case pos of None \<Rightarrow> s | Some c \<Rightarrow> str_erase s (c + off) 1)"

definition cleanup_round :: "string \<Rightarrow> string \<times> nat" where
  "cleanup_round s0 =
     (let f1 = str_find s0 '' ,'' 0; s1 = erase_at f1 1 s0;
          f2 = str_find s1 '',,'' 0; s2 = erase_at f2 0 s1;
          f3 = (if s2 = '''' then None else str_find s2 '','' (length s2 - 1)); s3 = erase_at f3 0 s2
      in (s3, (if f1 = None then 1 else 0) + (if f2 = None then 1 else 0) + (if f3 = None then 1 else 0)))"

lemma length_erase_at:
  "length (erase_at (str_find s pat from) off s) =
     (if str_find s pat from = None then length s else length s - 1)"
  if "off < length pat"
  using that by (auto simp: erase_at_def length_str_erase dest!: str_find_bound split: option.split)

lemma erase_at_shorter: "off < length pat \<Longrightarrow> str_find s pat from \<noteq> None \<Longrightarrow>
    length (erase_at (str_find s pat from) off s) < length s"
  by (auto simp: length_erase_at dest!: str_find_bound)

lemma erase_at_le: "off < length pat \<Longrightarrow> length (erase_at (str_find s pat from) off s) \<le> length s"
  by (auto simp: length_erase_at)

lemma cleanup_round_shorter: "snd (cleanup_round s) \<noteq> 3 \<Longrightarrow> length (fst (cleanup_round s)) < length s"
proof -
  assume n: "snd (cleanup_round s) \<noteq> 3"
  define s1 where "s1 = erase_at (str_find s '' ,'' 0) 1 s"
  define s2 where "s2 = erase_at (str_find s1 '',,'' 0) 0 s1"
  define f3 where "f3 = (if s2 = '''' then None else str_find s2 '','' (length s2 - 1))"
  have l1: "length s1 \<le> length s" and l2: "length s2 \<le> length s1"
    by (auto simp: s1_def s2_def intro: erase_at_le)
  have l3: "length (erase_at f3 0 s2) \<le> length s2" "f3 \<noteq> None \<Longrightarrow> length (erase_at f3 0 s2) < length s2"
    using erase_at_le [of 0 "'',''" s2 "length s2 - 1"] erase_at_shorter [of 0 "'',''" s2 "length s2 - 1"]
    by (auto simp: f3_def erase_at_def)
  have r: "cleanup_round s = (erase_at f3 0 s2, (if str_find s '' ,'' 0 = None then 1 else 0) +
      (if str_find s1 '',,'' 0 = None then 1 else 0) + (if f3 = None then 1 else 0))"
    by (simp add: cleanup_round_def Let_def s1_def s2_def f3_def)
  have "str_find s '' ,'' 0 \<noteq> None \<or> str_find s1 '',,'' 0 \<noteq> None \<or> f3 \<noteq> None"
    using n unfolding r by (auto split: if_splits)
  then show ?thesis
  proof (elim disjE)
    assume "str_find s '' ,'' 0 \<noteq> None"
    then have "length s1 < length s" unfolding s1_def by (intro erase_at_shorter) auto
    with l2 l3(1) show ?thesis unfolding r by simp
  next
    assume "str_find s1 '',,'' 0 \<noteq> None"
    then have "length s2 < length s1" unfolding s2_def by (intro erase_at_shorter) auto
    with l1 l3(1) show ?thesis unfolding r by simp
  next
    assume "f3 \<noteq> None"
    with l1 l2 l3(2) show ?thesis unfolding r by simp
  qed
qed

function cleanup :: "string \<Rightarrow> string" where
  "cleanup s = (let (s', counter) = cleanup_round s in if counter = 3 then s' else cleanup s')"
  by auto

termination cleanup
  by (relation "measure length") (auto simp: in_measure dest!: sym [of "(_, _)"] intro: cleanup_round_shorter [unfolded prod.sel] simp: prod_eq_iff)

declare cleanup.simps [simp del]

text \<open>\<open>matchPackages\<close>; an empty request has no tokens or an empty first one.\<close>

definition matchPackages :: "boost \<Rightarrow> string \<Rightarrow> stack \<Rightarrow> string \<times> bool" where
  "matchPackages bx pkgs s =
     (let toks = bx_tokens bx '','' pkgs;
          refused = ''Supported: '' @ st_supportedPackages s @ crlf
      in if toks = [] \<or> hd toks = '''' then (refused, False)
         else (case match_tokens bx toks True ''Packages: '' (st_supportedPackages s) of
                 None \<Rightarrow> (refused, False)
               | Some (required, unrequired) \<Rightarrow>
                   let unrequired1 = (if unrequired \<noteq> '''' \<and> hd unrequired = CHR '','' then str_erase unrequired 0 1 else unrequired);
                       unrequired2 = cleanup unrequired1
                   in (required @ crlf @ ''Supported: '' @ unrequired2 @ crlf, True)))"

subsection \<open>Clients\<close>

text \<open>\<open>st_mClients\<close> says that the mutex is held. Every client in the list is dereferenced.\<close>

fun find_client :: "(ptr \<rightharpoonup> client) \<Rightarrow> (client \<Rightarrow> bool) \<Rightarrow> ptr list \<Rightarrow> ptr option cpp" where
  "find_client h P [] = Val None"
| "find_client h P (p # ps) =
     (case h p of None \<Rightarrow> Undef | Some c \<Rightarrow> if P c then Val (Some p) else find_client h P ps)"

definition addClient ::
  "string \<Rightarrow> string \<Rightarrow> string \<Rightarrow> u16 \<Rightarrow> bool \<Rightarrow> string \<Rightarrow> stack \<Rightarrow> (stack \<times> int) cpp" where
  "addClient callId cfwId ip port tls fingerprint s =
     cpp_bind (find_client (st_clientHeap s) (\<lambda>c. cl_dialogId c = cfwId) (st_clients s)) (\<lambda>r. case r of
         Some _ \<Rightarrow> Val (s, 488)
       | None \<Rightarrow>
           let p = st_next s;
               c = (setAddress ip port (setDialog callId cfwId (newClient tls fingerprint)))\<lparr>cl_alive := True\<rparr>
           in Val (s\<lparr>st_clientHeap := (st_clientHeap s)(p \<mapsto> c), st_next := p + 1,
                     st_clients := st_clients s @ [p]\<rparr>, 200))"

definition removeClient :: "string \<Rightarrow> stack \<Rightarrow> (stack \<times> int) cpp" where
  "removeClient cfwId s =
     cpp_bind (find_client (st_clientHeap s) (\<lambda>c. cl_dialogId c = cfwId) (st_clients s)) (\<lambda>r. case r of
         None \<Rightarrow> Val (s, -1)
       | Some p \<Rightarrow>
           (case st_clientHeap s p of None \<Rightarrow> Undef
            | Some c \<Rightarrow> Val (s\<lparr>st_clientsMap := smap_erase (cl_fd c) (st_clientsMap s),
                                st_clients := remove1 p (st_clients s),
                                st_clientHeap := (st_clientHeap s)(p := None)\<rparr>, 0)))"

text \<open>The early return leaves the mutex held.\<close>

definition getClient :: "int \<Rightarrow> stack \<Rightarrow> (ptr \<times> stack) cpp" where
  "getClient fd s =
     cpp_bind (find_client (st_clientHeap s) (\<lambda>c. cl_fd c = fd) (st_clients s)) (\<lambda>r. case r of
         Some p \<Rightarrow> Val (p, s\<lparr>st_mClients := True\<rparr>)
       | None \<Rightarrow> Val (NULL, s))"

text \<open>
  \<open>matchConnection\<close>: \<open>getIp\<close> resolves host names, \<open>resolve\<close> is that resolution; \<open>elapsed\<close> is
  the reading of the timer that \<open>setFd\<close> starts.
\<close>

definition matchConnection ::
  "(string \<Rightarrow> string) \<Rightarrow> bool \<Rightarrow> u64 \<Rightarrow> int \<Rightarrow> string \<Rightarrow> u16 \<Rightarrow> stack \<Rightarrow> (stack \<times> int) cpp" where
  "matchConnection resolve ssl elapsed fd client_ip client_port s =
     cpp_bind (find_client (st_clientHeap s)
         (\<lambda>c. client_port = cl_port c \<and> strcaseeq client_ip (resolve (cl_ip c))) (st_clients s)) (\<lambda>r. case r of
         None \<Rightarrow> Val (s, -1)
       | Some p \<Rightarrow>
           Val (s\<lparr>st_clientHeap := (st_clientHeap s)(p := map_option (setFd fd ssl elapsed) (st_clientHeap s p)),
                  st_clientsMap := smap_put fd p (st_clientsMap s)\<rparr>, 0))"

subsection \<open>Transactions\<close>

definition transactionEnded :: "string \<Rightarrow> stack \<Rightarrow> stack" where
  "transactionEnded tid s = s\<lparr>st_endedTransactions := st_endedTransactions s @ [tid]\<rparr>"

text \<open>\<open>transactions[tid]\<close> inserts a NULL entry for an unknown identifier.\<close>

definition getTransaction :: "string \<Rightarrow> stack \<Rightarrow> ptr \<times> stack" where
  "getTransaction tid s =
     (let (t, m) = smap_index NULL tid (st_transactions s) in (t, s\<lparr>st_transactions := m\<rparr>))"

text \<open>\<open>delete t\<close> joins the thread first; the join is over once the thread has ended.\<close>

definition removeTransaction :: "string \<Rightarrow> stack \<Rightarrow> stack" where
  "removeTransaction tid s =
     (let (t, s1) = getTransaction tid s in
      if t = NULL then s1
      else s1\<lparr>st_transactions := smap_erase tid (st_transactions s1),
              st_txHeap := (st_txHeap s1)(t := None)\<rparr>)"

definition newTx :: "ptr \<Rightarrow> string \<Rightarrow> stack \<Rightarrow> ptr \<times> stack" where
  "newTx client tid s =
     (st_next s, s\<lparr>st_txHeap := (st_txHeap s)(st_next s \<mapsto> newTransaction client tid),
                   st_next := st_next s + 1\<rparr>)"

definition putTx :: "string \<Rightarrow> ptr \<Rightarrow> stack \<Rightarrow> stack" where
  "putTx tid t s = s\<lparr>st_transactions := smap_put tid t (st_transactions s)\<rparr>"

text \<open>A call on a transaction object.\<close>

definition onTx :: "ptr \<Rightarrow> (transaction \<Rightarrow> transaction) \<Rightarrow> stack \<Rightarrow> stack cpp" where
  "onTx t f s = (case st_txHeap s t of None \<Rightarrow> Undef
                 | Some tx \<Rightarrow> Val (s\<lparr>st_txHeap := (st_txHeap s)(t \<mapsto> f tx)\<rparr>))"

fun forget_client :: "ptr \<Rightarrow> (string \<times> ptr) list \<Rightarrow> (ptr \<rightharpoonup> transaction) \<Rightarrow> (ptr \<rightharpoonup> transaction) cpp" where
  "forget_client client [] h = Val h"
| "forget_client client ((tid, t) # m) h =
     (if t = NULL then forget_client client m h
      else case h t of None \<Rightarrow> Undef
      | Some tx \<Rightarrow> forget_client client m
          (if tx_client tx = client then h(t \<mapsto> tx\<lparr>tx_client := NULL\<rparr>) else h))"

definition endDialog :: "ptr \<Rightarrow> stack \<Rightarrow> stack cpp" where
  "endDialog client s =
     (if client = NULL then Val s
      else case st_clientHeap s client of None \<Rightarrow> Undef
      | Some c \<Rightarrow>
          let s1 = s\<lparr>st_endedDialogs := st_endedDialogs s @ [cl_callId c]\<rparr> in
          if st_transactions s1 = [] then Val s1
          else cpp_bind (forget_client client (st_transactions s1) (st_txHeap s1))
                 (\<lambda>h. Val (s1\<lparr>st_txHeap := h\<rparr>)))"

definition connectionLost :: "int \<Rightarrow> stack \<Rightarrow> stack cpp" where
  "connectionLost fd s =
     (let (client, m) = smap_index NULL fd (st_clientsMap s); s1 = s\<lparr>st_clientsMap := m\<rparr> in
      if client = NULL then Val s1
      else case st_clientHeap s1 client of None \<Rightarrow> Undef
      | Some c \<Rightarrow> endDialog client (s1\<lparr>st_clientsMap := smap_erase (cl_fd c) (st_clientsMap s1)\<rparr>))"

subsection \<open>What packages ask of the stack\<close>

definition stack_report :: "package \<Rightarrow> ptr \<Rightarrow> string \<Rightarrow> int \<Rightarrow> int \<Rightarrow> string \<Rightarrow> stack \<Rightarrow> stack cpp" where
  "stack_report cp requester tid status timeout blob s =
     (let (t, s1) = getTransaction tid s in
      if t = NULL then Val s1
      else case st_txHeap s1 t of None \<Rightarrow> Undef
      | Some tx \<Rightarrow>
          if tx_client tx \<noteq> requester then Val s1
          else onTx t (\<lambda>tx. fst (report status timeout (pk_mimeType cp) blob tx)) s1)"

text \<open>
  \<open>control\<close>: \<open>tids\<close> are the identifiers \<open>random_tid\<close> draws; each one looked up leaves an entry.
  \<open>None\<close> if none of them is unused.
\<close>

fun draw_tid :: "string list \<Rightarrow> stack \<Rightarrow> (string \<times> stack) option" where
  "draw_tid [] s = None"
| "draw_tid (tid # tids) s =
     (let (t, s1) = getTransaction tid s in if t = NULL then Some (tid, s1) else draw_tid tids s1)"

definition stack_control :: "package \<Rightarrow> ptr \<Rightarrow> string \<Rightarrow> string list \<Rightarrow> stack \<Rightarrow> stack option cpp" where
  "stack_control cp requester blob tids s =
     (case draw_tid tids s of None \<Rightarrow> Val None
      | Some (tid, s1) \<Rightarrow>
          let (t, s2) = newTx requester tid s1 in
          cpp_bind (onTx t (\<lambda>tx. fst (control (package_id cp) (pk_mimeType cp) blob tx)) (putTx tid t s2))
            (\<lambda>s3. Val (Some s3)))"

text \<open>\<open>random_tid\<close>: four draws of \<open>random()\<close> as eight hexadecimal digits each, cut to twelve.\<close>

definition hex_lower :: string where
  "hex_lower = ''0123456789abcdef''"

fun hex_digits :: "nat \<Rightarrow> nat \<Rightarrow> string" where
  "hex_digits 0 n = []"
| "hex_digits (Suc k) n = hex_digits k (n div 16) @ [hex_lower ! (n mod 16)]"

definition random_tid :: "nat \<Rightarrow> nat \<Rightarrow> nat \<Rightarrow> nat \<Rightarrow> string" where
  "random_tid a b c d = take 12 (hex_digits 8 a @ hex_digits 8 b @ hex_digits 8 c @ hex_digits 8 d)"

subsection \<open>The stack's thread\<close>

definition reap_transactions :: "stack \<Rightarrow> stack" where
  "reap_transactions s =
     (foldl (\<lambda>s tid. removeTransaction tid s) s (st_endedTransactions s))\<lparr>st_endedTransactions := []\<rparr>"

text \<open>\<open>elapsed p\<close> is the reading of the client's own timer.\<close>

fun check_keepalive :: "(ptr \<Rightarrow> u64) \<Rightarrow> ptr list \<Rightarrow> stack \<Rightarrow> stack cpp" where
  "check_keepalive elapsed [] s = Val s"
| "check_keepalive elapsed (p # ps) s =
     (if p = NULL then check_keepalive elapsed ps s
      else case st_clientHeap s p of None \<Rightarrow> Undef
      | Some c \<Rightarrow>
          if getTimeout (elapsed p) c then
            let s1 = s\<lparr>st_clientHeap := (st_clientHeap s)(p \<mapsto> setKeepAlive (getKeepAlive c) (elapsed p) c)\<rparr>
            in cpp_bind (if st_hardKeepAlive s1 then endDialog p s1 else Val s1) (check_keepalive elapsed ps)
          else check_keepalive elapsed ps s)"

definition flush_dialogs :: "stack \<Rightarrow> stack" where
  "flush_dialogs s = s\<lparr>st_endedDialogs := [],
     st_calls := st_calls s @ map ManagerEndDialog (filter (\<lambda>callId. callId \<noteq> '''') (st_endedDialogs s))\<rparr>"

text \<open>
  One round of \<open>thread()\<close>. \<open>conns\<close> are the connections \<open>accept\<close> returns in the round, with the
  peer's address; the result says which descriptors were closed again as unexpected.
\<close>

fun accept_all ::
  "(string \<Rightarrow> string) \<Rightarrow> bool \<Rightarrow> (int \<times> string \<times> u16) list \<Rightarrow> stack \<Rightarrow> (stack \<times> int list) cpp" where
  "accept_all resolve ssl [] s = Val (s, [])"
| "accept_all resolve ssl ((fd, ip, port) # conns) s =
     (if fd < 0 then accept_all resolve ssl conns s
      else cpp_bind (matchConnection resolve ssl 0 fd ip port s) (\<lambda>(s1, res).
        cpp_bind (accept_all resolve ssl conns s1) (\<lambda>(s2, closed).
          Val (s2, if res < 0 then fd # closed else closed))))"

definition stack_round ::
  "(string \<Rightarrow> string) \<Rightarrow> bool \<Rightarrow> (ptr \<Rightarrow> u64) \<Rightarrow> (int \<times> string \<times> u16) list \<Rightarrow> stack \<Rightarrow> (stack \<times> int list) cpp" where
  "stack_round resolve ssl elapsed conns s =
     (let s1 = reap_transactions s in
      cpp_bind (check_keepalive elapsed (st_clients s1) s1) (\<lambda>s2.
        accept_all resolve ssl conns (flush_dialogs s2)))"

subsection \<open>Information about the stack\<close>

definition tab_line :: "nat \<Rightarrow> string \<Rightarrow> string" where
  "tab_line n x = tabs n @ x @ crlf"

definition status_string :: "int \<Rightarrow> string" where
  "status_string status =
     (if status = CFW_200 then ''200'' else if status = CFW_REPORT_UPDATE then ''update''
      else if status = CFW_REPORT_TERMINATE then ''terminate'' else ''unknown'')"

fun info_transactions :: "stack \<Rightarrow> (string \<times> ptr) list \<Rightarrow> string cpp" where
  "info_transactions s [] = Val ''''"
| "info_transactions s ((tid, t) # m) =
     (if t = NULL then info_transactions s m
      else case st_txHeap s t of None \<Rightarrow> Undef
      | Some tx \<Rightarrow>
          cpp_bind (if tx_client tx = NULL then Val (-1)
                    else case st_clientHeap s (tx_client tx) of None \<Rightarrow> Undef | Some c \<Rightarrow> Val (cl_fd c)) (\<lambda>fd.
          cpp_bind (info_transactions s m) (\<lambda>rest.
            Val (tab_line 2 (tx_tid tx) @ tab_line 3 (''Status: '' @ status_string (tx_status tx)) @
                 tab_line 3 (''fd: '' @ dec_int fd) @ rest))))"

fun info_clients :: "(string \<Rightarrow> string) \<Rightarrow> stack \<Rightarrow> ptr list \<Rightarrow> string cpp" where
  "info_clients resolve s [] = Val ''''"
| "info_clients resolve s (p # ps) =
     (if p = NULL then info_clients resolve s ps
      else case st_clientHeap s p of None \<Rightarrow> Undef
      | Some c \<Rightarrow> cpp_bind (info_clients resolve s ps) (\<lambda>rest.
          Val (tab_line 2 (cl_dialogId c) @
               tab_line 3 (''From: '' @ resolve (cl_ip c) @ '':'' @ dec_int (uint (cl_port c))) @
               tab_line 3 (''Authenticated: '' @ (if cl_authenticated c then ''1'' else ''0'')) @
               tab_line 3 (''fd: '' @ dec_int (cl_fd c)) @ rest)))"

text \<open>The lines of a package's own information: CR LF is looked for first, anywhere in the text.\<close>

function info_lines :: "string \<Rightarrow> string" where
  "info_lines x =
     (case str_find x crlf 0 of
        Some i \<Rightarrow> tab_line 3 (take i x) @ info_lines (drop (i + 2) x)
      | None \<Rightarrow> (case str_find x [CHR 0x0A] 0 of
          Some i \<Rightarrow> tab_line 3 (take i x) @ info_lines (drop (i + 1) x)
        | None \<Rightarrow> ''''))"
  by auto

termination info_lines
proof (relation "measure length")
  show "(drop (i + 2) x, x) \<in> measure length" if "str_find x crlf 0 = Some i" for x i
    using str_find_bound [OF that] by (simp add: crlf_def)
  show "(drop (i + 1) x, x) \<in> measure length" if "str_find x [CHR 0x0A] 0 = Some i" for x i
    using str_find_bound [OF that] by simp
qed simp

declare info_lines.simps [simp del]

text \<open>\<open>None\<close> when a package has no information: the whole result is then the empty string.\<close>

fun info_packages :: "string option \<Rightarrow> package list \<Rightarrow> string option" where
  "info_packages only [] = Some ''''"
| "info_packages only (p # ps) =
     (if only \<noteq> None \<and> only \<noteq> Some (pk_name p) then info_packages only ps
      else if pk_info p = '''' then None
      else map_option (\<lambda>rest. tab_line 2 (package_id p) @ info_lines (pk_info p) @ rest) (info_packages only ps))"

definition info_ended :: "string list \<Rightarrow> string" where
  "info_ended ended = (if ended = [] then '''' else
     tab_line 1 ''Ended Transactions:'' @ tabs 2 @ concat (map (\<lambda>tid. tid @ '' '') ended) @ crlf)"

definition getInfo :: "(string \<Rightarrow> string) \<Rightarrow> string \<Rightarrow> stack \<Rightarrow> string cpp" where
  "getInfo resolve about s =
     (if about = '''' then Val ''''
      else
        let what = (if about = ''all'' then 1 else if about = ''transactions'' then 2
                    else if about = ''clients'' then 3
                    else if getPackage about s \<noteq> None then 4 else (0::nat))
        in if what = 0 then Val ''''
        else
          let head = ''CFW:'' @ crlf @
                (if what = 1 then tab_line 1 (st_address s @ '':'' @ dec_int (st_port s)) else '''') in
          cpp_bind (if what < 3 then
                      (if st_transactions s = [] then Val (tab_line 1 ''Transactions:'' @ tab_line 2 ''none'')
                       else cpp_bind (info_transactions s (st_transactions s)) (\<lambda>x.
                         Val (tab_line 1 ''Transactions:'' @ x @ info_ended (st_endedTransactions s))))
                    else Val '''') (\<lambda>txs.
          if what = 2 then Val (head @ txs)
          else cpp_bind (if what = 1 \<or> what = 3 then
                      (if st_clients s = [] then Val (tab_line 1 ''Clients:'' @ tab_line 2 ''none'')
                       else cpp_bind (info_clients resolve s (st_clients s)) (\<lambda>x.
                         Val (tab_line 1 ''Clients:'' @ x)))
                    else Val '''') (\<lambda>cls.
          if what = 3 then Val (head @ txs @ cls)
          else Val (case info_packages (if what = 4 then Some about else None) (st_packages s) of
                  None \<Rightarrow> ''''
                | Some x \<Rightarrow> head @ txs @ cls @ tab_line 1 ''Packages:'' @ x))))"

subsection \<open>The stack's invariant\<close>

text \<open>
  The maps are ordered, listed clients are live objects with pairwise different dialog
  identifiers, and every transaction the map names is a live object that carries the identifier
  it is filed under.
\<close>

definition clients_ok :: "stack \<Rightarrow> bool" where
  "clients_ok s \<longleftrightarrow> distinct (st_clients s) \<and>
     (\<forall>p \<in> set (st_clients s). 0 < p \<and> st_clientHeap s p \<noteq> None) \<and>
     inj_on (\<lambda>p. map_option cl_dialogId (st_clientHeap s p)) (set (st_clients s)) \<and>
     (\<forall>p. st_clientHeap s p \<noteq> None \<longrightarrow> p < st_next s)"

definition txs_ok :: "stack \<Rightarrow> bool" where
  "txs_ok s \<longleftrightarrow> smap_ok (st_transactions s) \<and>
     (\<forall>t. st_txHeap s t \<noteq> None \<longrightarrow> 0 < t \<and> t < st_next s) \<and>
     (\<forall>tid t. smap_get (st_transactions s) tid = Some t \<longrightarrow> t \<noteq> NULL \<longrightarrow>
        (\<exists>tx. st_txHeap s t = Some tx \<and> tx_tid tx = tid))"

definition stack_ok :: "stack \<Rightarrow> bool" where
  "stack_ok s \<longleftrightarrow> 0 < st_next s \<and> smap_ok (st_clientsMap s) \<and> clients_ok s \<and> txs_ok s"

lemma stack_ok_new: "stack_ok (newStack address port hard)"
  by (simp add: stack_ok_def clients_ok_def txs_ok_def newStack_def)

lemma find_client_Some: "find_client h P ps = Val (Some p) \<Longrightarrow> p \<in> set ps \<and> (\<exists>c. h p = Some c \<and> P c)"
  by (induction h P ps rule: find_client.induct) (auto split: option.splits if_splits)

lemma find_client_None: "find_client h P ps = Val None \<Longrightarrow> p \<in> set ps \<Longrightarrow> \<exists>c. h p = Some c \<and> \<not> P c"
  by (induction h P ps rule: find_client.induct) (auto split: option.splits if_splits)

lemma find_client_defined: "\<forall>p \<in> set ps. h p \<noteq> None \<Longrightarrow> find_client h P ps \<noteq> Undef"
  by (induction h P ps rule: find_client.induct) (auto split: option.splits)

lemma find_client_clients: "clients_ok s \<Longrightarrow> find_client (st_clientHeap s) P (st_clients s) \<noteq> Undef"
  by (rule find_client_defined) (auto simp: clients_ok_def)

lemma stack_ok_addClient:
  assumes ok: "stack_ok s" and r: "addClient callId cfwId ip port tls fp s = Val (s', code)"
  shows "stack_ok s'"
proof -
  obtain f where f: "find_client (st_clientHeap s) (\<lambda>c. cl_dialogId c = cfwId) (st_clients s) = Val f"
    using r by (auto simp: addClient_def cpp_bind_Val)
  show ?thesis
  proof (cases f)
    case (Some p)
    with r f ok show ?thesis by (auto simp: addClient_def)
  next
    case None
    define c where "c = (setAddress ip port (setDialog callId cfwId (newClient tls fp)))\<lparr>cl_alive := True\<rparr>"
    have cd: "cl_dialogId c = cfwId" by (simp add: c_def setAddress_def setDialog_def)
    have s': "s' = s\<lparr>st_clientHeap := (st_clientHeap s)(st_next s \<mapsto> c), st_next := st_next s + 1,
                     st_clients := st_clients s @ [st_next s]\<rparr>"
      using r f None by (simp add: addClient_def Let_def c_def)
    have fresh: "st_next s \<notin> set (st_clients s)" and lt: "\<And>p. p \<in> set (st_clients s) \<Longrightarrow> p < st_next s"
      using ok by (auto simp: stack_ok_def clients_ok_def)
    have new: "map_option cl_dialogId (st_clientHeap s p) \<noteq> Some cfwId" if "p \<in> set (st_clients s)" for p
      using find_client_None [OF f [unfolded None] that] by auto
    have inj: "inj_on (\<lambda>p. map_option cl_dialogId (((st_clientHeap s)(st_next s \<mapsto> c)) p)) (set (st_clients s))"
      using ok fresh by (auto simp: stack_ok_def clients_ok_def inj_on_def)
    have ni: "Some cfwId \<notin> (\<lambda>p. map_option cl_dialogId (st_clientHeap s p)) ` set (st_clients s)"
      using new by (metis (no_types, lifting) imageE)
    have im: "(\<lambda>p. map_option cl_dialogId (((st_clientHeap s)(st_next s \<mapsto> c)) p)) ` set (st_clients s) =
        (\<lambda>p. map_option cl_dialogId (st_clientHeap s p)) ` set (st_clients s)"
      using fresh by (intro image_cong) auto
    have inj': "inj_on (\<lambda>p. map_option cl_dialogId (((st_clientHeap s)(st_next s \<mapsto> c)) p))
        (insert (st_next s) (set (st_clients s)))"
      unfolding inj_on_insert using inj fresh ni im cd by (simp del: fun_upd_apply add: fun_upd_same)
    show ?thesis using ok inj' fresh
      by (auto simp: s' stack_ok_def clients_ok_def txs_ok_def less_Suc_eq)
  qed
qed

lemma stack_ok_removeClient:
  assumes ok: "stack_ok s" and r: "removeClient cfwId s = Val (s', code)"
  shows "stack_ok s'"
proof -
  obtain f where f: "find_client (st_clientHeap s) (\<lambda>c. cl_dialogId c = cfwId) (st_clients s) = Val f"
    using r by (auto simp: removeClient_def cpp_bind_Val)
  show ?thesis
  proof (cases f)
    case None
    with r f ok show ?thesis by (auto simp: removeClient_def)
  next
    case (Some p)
    with find_client_Some f obtain c where c: "st_clientHeap s p = Some c" "p \<in> set (st_clients s)" by blast
    have s': "s' = s\<lparr>st_clientsMap := smap_erase (cl_fd c) (st_clientsMap s),
        st_clients := remove1 p (st_clients s), st_clientHeap := (st_clientHeap s)(p := None)\<rparr>"
      using r f Some c by (simp add: removeClient_def)
    have "set (remove1 p (st_clients s)) = set (st_clients s) - {p}"
      using ok by (simp add: stack_ok_def clients_ok_def)
    with ok show ?thesis
      by (auto simp: s' stack_ok_def clients_ok_def txs_ok_def inj_on_def)
  qed
qed

text \<open>A client keeps its dialog identifier whatever happens to its descriptor and its counter.\<close>

lemma stack_ok_client_upd:
  assumes ok: "stack_ok s" and p: "st_clientHeap s p = Some c" and d: "cl_dialogId c' = cl_dialogId c"
  shows "stack_ok (s\<lparr>st_clientHeap := (st_clientHeap s)(p \<mapsto> c')\<rparr>)"
proof -
  have "(\<lambda>q. map_option cl_dialogId (((st_clientHeap s)(p \<mapsto> c')) q)) = (\<lambda>q. map_option cl_dialogId (st_clientHeap s q))"
    using p d by auto
  with ok p show ?thesis by (auto simp: stack_ok_def clients_ok_def txs_ok_def)
qed

lemma setFd_dialog [simp]: "cl_dialogId (setFd fd ssl elapsed c) = cl_dialogId c"
  by (simp add: setFd_def startCounter_def resetCounter_def Let_def)

lemma setKeepAlive_dialog [simp]: "cl_dialogId (setKeepAlive k elapsed c) = cl_dialogId c"
  "cl_callId (setKeepAlive k elapsed c) = cl_callId c"
  by (simp_all add: setKeepAlive_def resetCounter_def)

lemma stack_ok_clientsMap [simp]:
  "smap_ok m \<Longrightarrow> stack_ok s \<Longrightarrow> stack_ok (s\<lparr>st_clientsMap := m\<rparr>)"
  by (simp add: stack_ok_def clients_ok_def txs_ok_def)

lemma stack_ok_misc [simp]:
  "stack_ok (s\<lparr>st_endedDialogs := x\<rparr>) = stack_ok s" "stack_ok (s\<lparr>st_endedTransactions := x\<rparr>) = stack_ok s"
  "stack_ok (s\<lparr>st_calls := y\<rparr>) = stack_ok s" "stack_ok (s\<lparr>st_mClients := b\<rparr>) = stack_ok s"
  by (simp_all add: stack_ok_def clients_ok_def txs_ok_def)

lemma stack_ok_matchConnection:
  assumes ok: "stack_ok s" and r: "matchConnection resolve ssl e fd ip port s = Val (s', res)"
  shows "stack_ok s'"
proof -
  obtain f where f: "find_client (st_clientHeap s) (\<lambda>c. port = cl_port c \<and> strcaseeq ip (resolve (cl_ip c))) (st_clients s) = Val f"
    using r by (auto simp: matchConnection_def cpp_bind_Val)
  show ?thesis
  proof (cases f)
    case None
    with r f ok show ?thesis by (auto simp: matchConnection_def)
  next
    case (Some p)
    with find_client_Some f obtain c where c: "st_clientHeap s p = Some c" by blast
    have s': "s' = s\<lparr>st_clientHeap := (st_clientHeap s)(p \<mapsto> setFd fd ssl e c)\<rparr>\<lparr>st_clientsMap := smap_put fd p (st_clientsMap s)\<rparr>"
      using r f Some c by (auto simp: matchConnection_def)
    have "stack_ok (s\<lparr>st_clientHeap := (st_clientHeap s)(p \<mapsto> setFd fd ssl e c)\<rparr>)"
      by (rule stack_ok_client_upd [OF ok c]) simp
    then show ?thesis unfolding s' by (rule stack_ok_clientsMap [rotated]) (use ok in \<open>simp add: stack_ok_def\<close>)
  qed
qed

text \<open>Transactions.\<close>

lemma getTransaction_state: "getTransaction tid s = (t, s1) \<Longrightarrow>
    t = (case smap_get (st_transactions s) tid of Some t \<Rightarrow> t | None \<Rightarrow> NULL) \<and>
    s1 = s\<lparr>st_transactions := snd (smap_index NULL tid (st_transactions s))\<rparr>"
  by (auto simp: getTransaction_def split: prod.splits dest: arg_cong [of _ _ fst] arg_cong [of _ _ snd])

lemma stack_ok_transactions:
  assumes "stack_ok s" and "smap_ok m"
    and "\<And>tid t. smap_get m tid = Some t \<Longrightarrow> t \<noteq> NULL \<Longrightarrow> \<exists>tx. st_txHeap s t = Some tx \<and> tx_tid tx = tid"
  shows "stack_ok (s\<lparr>st_transactions := m\<rparr>)"
  using assms by (auto simp: stack_ok_def clients_ok_def txs_ok_def)

lemma stack_ok_tx: "stack_ok s \<Longrightarrow> smap_ok (st_transactions s)"
  "stack_ok s \<Longrightarrow> smap_get (st_transactions s) tid = Some t \<Longrightarrow> t \<noteq> NULL \<Longrightarrow>
     \<exists>tx. st_txHeap s t = Some tx \<and> tx_tid tx = tid"
  by (auto simp: stack_ok_def txs_ok_def)

lemma stack_ok_getTransaction: "stack_ok s \<Longrightarrow> getTransaction tid s = (t, s1) \<Longrightarrow>
    stack_ok s1 \<and> (t \<noteq> NULL \<longrightarrow> (\<exists>tx. st_txHeap s1 t = Some tx \<and> tx_tid tx = tid)) \<and>
    smap_get (st_transactions s1) tid = Some t"
  by (drule getTransaction_state)
     (auto intro!: stack_ok_transactions simp: stack_ok_tx split: option.splits if_splits dest: stack_ok_tx(2))

lemma getTransaction_frame: "getTransaction tid s = (t, s1) \<Longrightarrow>
    st_txHeap s1 = st_txHeap s \<and> st_next s1 = st_next s \<and> st_clientHeap s1 = st_clientHeap s \<and>
    st_clients s1 = st_clients s \<and> st_calls s1 = st_calls s \<and> st_endedDialogs s1 = st_endedDialogs s \<and>
    st_supportedPackages s1 = st_supportedPackages s \<and> st_packages s1 = st_packages s"
  by (drule getTransaction_state) auto

lemma stack_ok_removeTransaction: "stack_ok s \<Longrightarrow> stack_ok (removeTransaction tid s)"
proof -
  assume ok: "stack_ok s"
  obtain t s1 where g: "getTransaction tid s = (t, s1)" by fastforce
  note ok1 = stack_ok_getTransaction [OF ok g]
  show ?thesis
  proof (cases "t = NULL")
    case True
    with g ok1 show ?thesis by (simp add: removeTransaction_def)
  next
    case False
    have "\<exists>tx. ((st_txHeap s1)(t := None)) t' = Some tx \<and> tx_tid tx = tid'"
      if "smap_get (smap_erase tid (st_transactions s1)) tid' = Some t'" "t' \<noteq> NULL" for tid' t'
    proof -
      have g': "tid' \<noteq> tid" "smap_get (st_transactions s1) tid' = Some t'" using that(1) by (auto split: if_splits)
      have "\<exists>tx. st_txHeap s1 t' = Some tx \<and> tx_tid tx = tid'"
        using stack_ok_tx(2) [OF conjunct1 [OF ok1] g'(2) that(2)] .
      with g' ok1 False show ?thesis by auto
    qed
    then have "stack_ok (s1\<lparr>st_transactions := smap_erase tid (st_transactions s1), st_txHeap := (st_txHeap s1)(t := None)\<rparr>)"
      using ok1 by (auto simp: stack_ok_def clients_ok_def txs_ok_def)
    then show ?thesis using g False by (simp add: removeTransaction_def)
  qed
qed

lemma stack_ok_newTx:
  assumes ok: "stack_ok s" and n: "newTx client tid s = (t, s1)"
  shows "stack_ok s1 \<and> 0 < t \<and> st_txHeap s1 t = Some (newTransaction client tid) \<and> st_txHeap s t = None \<and>
    (\<forall>tid' t'. smap_get (st_transactions s1) tid' = Some t' \<longrightarrow> t' \<noteq> t)"
proof -
  have t: "t = st_next s" and s1: "s1 = s\<lparr>st_txHeap := (st_txHeap s)(t \<mapsto> newTransaction client tid), st_next := t + 1\<rparr>"
    using n by (auto simp: newTx_def)
  have lt: "t' < t" if "st_txHeap s t' \<noteq> None" for t' using ok that by (simp add: t stack_ok_def txs_ok_def)
  have t0: "0 < t" using ok by (simp add: t stack_ok_def)
  then have fresh: "st_txHeap s t = None" using lt [of t] by blast
  have unused: "t' \<noteq> t" if "smap_get (st_transactions s) tid' = Some t'" for tid' t'
    using stack_ok_tx(2) [OF ok that] fresh t0 by (cases "t' = NULL") auto
  have "stack_ok s1"
    unfolding s1 using ok fresh unused t0
    by (auto simp: stack_ok_def clients_ok_def txs_ok_def t less_Suc_eq)
  with t0 fresh unused show ?thesis by (auto simp: s1)
qed

lemma newTransaction_tid [simp]: "tx_tid (newTransaction client tid) = tid"
  by (simp add: newTransaction_def)

lemma stack_ok_putTx:
  "stack_ok s \<Longrightarrow> st_txHeap s t = Some tx \<Longrightarrow> tx_tid tx = tid \<Longrightarrow> stack_ok (putTx tid t s)"
  unfolding putTx_def by (rule stack_ok_transactions) (auto simp: stack_ok_tx split: if_splits dest: stack_ok_tx(2))

lemma stack_ok_onTx:
  assumes ok: "stack_ok s" and r: "onTx t f s = Val s'" and f: "\<And>tx. tx_tid (f tx) = tx_tid tx"
  shows "stack_ok s'"
proof -
  obtain tx where tx: "st_txHeap s t = Some tx" and s': "s' = s\<lparr>st_txHeap := (st_txHeap s)(t \<mapsto> f tx)\<rparr>"
    using r by (auto simp: onTx_def split: option.splits)
  have "\<exists>tx'. ((st_txHeap s)(t \<mapsto> f tx)) t' = Some tx' \<and> tx_tid tx' = tid"
    if "smap_get (st_transactions s) tid = Some t'" "t' \<noteq> NULL" for tid t'
    using stack_ok_tx(2) [OF ok that] tx f by auto
  with ok tx show ?thesis
    by (auto simp: s' stack_ok_def clients_ok_def txs_ok_def)
qed

lemma tx_ops_tid [simp]:
  "tx_tid (fst (report status timeout mime blob tx)) = tx_tid tx"
  "tx_tid (fst (errorCode code header blob tx)) = tx_tid tx"
  "tx_tid (fst (control cp mime blob tx)) = tx_tid tx"
  "tx_tid (startTimer e tx) = tx_tid tx"
  by (simp_all add: report_def errorCode_def control_def startTimer_def Let_def)

text \<open>\<open>endDialog\<close>: which transactions lose their client.\<close>

definition orphan :: "ptr \<Rightarrow> transaction \<Rightarrow> transaction" where
  "orphan client tx = (if tx_client tx = client then tx\<lparr>tx_client := NULL\<rparr> else tx)"

lemma orphan_idem [simp]: "orphan client (orphan client tx) = orphan client tx"
  by (simp add: orphan_def)

lemma orphan_tid [simp]: "tx_tid (orphan client tx) = tx_tid tx"
  by (simp add: orphan_def)

lemma forget_client_eq:
  "\<forall>(tid, t) \<in> set m. t = NULL \<or> h t \<noteq> None \<Longrightarrow>
     forget_client client m h = Val (\<lambda>t. if t \<noteq> NULL \<and> t \<in> snd ` set m then map_option (orphan client) (h t) else h t)"
proof (induction client m h rule: forget_client.induct)
  case (2 client tid t m h)
  show ?case
  proof (cases "t = NULL")
    case True
    with 2 show ?thesis by (auto simp: fun_eq_iff)
  next
    case False
    with "2.prems" obtain tx where tx: "h t = Some tx" by auto
    define h' where "h' = h(t \<mapsto> orphan client tx)"
    have h'_eq: "(if tx_client tx = client then h(t \<mapsto> tx\<lparr>tx_client := NULL\<rparr>) else h) = h'"
      using tx by (auto simp: h'_def orphan_def)
    have "forget_client client m h' =
        Val (\<lambda>t. if t \<noteq> NULL \<and> t \<in> snd ` set m then map_option (orphan client) (h' t) else h' t)"
      by (rule "2.IH"(2) [OF False tx, unfolded h'_eq]) (use "2.prems" in \<open>auto simp: h'_def\<close>)
    moreover have "forget_client client ((tid, t) # m) h = forget_client client m h'"
      using False tx h'_eq by simp
    moreover have "(\<lambda>u. if u \<noteq> NULL \<and> u \<in> snd ` set m then map_option (orphan client) (h' u) else h' u) =
        (\<lambda>u. if u \<noteq> NULL \<and> u \<in> snd ` set ((tid, t) # m) then map_option (orphan client) (h u) else h u)"
      using False tx by (auto simp: fun_eq_iff h'_def)
    ultimately show ?thesis by simp
  qed
qed (simp add: fun_eq_iff)

lemma endDialog_Val:
  assumes ok: "stack_ok s" and c: "client \<noteq> NULL" "st_clientHeap s client = Some c"
  shows "endDialog client s = Val (s\<lparr>st_endedDialogs := st_endedDialogs s @ [cl_callId c],
     st_txHeap := (\<lambda>t. if t \<noteq> NULL \<and> t \<in> snd ` set (st_transactions s) then map_option (orphan client) (st_txHeap s t)
                       else st_txHeap s t)\<rparr>)"
proof -
  have "\<forall>(tid, t) \<in> set (st_transactions s). t = NULL \<or> st_txHeap s t \<noteq> None"
    using ok smap_in_get [of "st_transactions s"] stack_ok_tx(2) [OF ok] by (fastforce simp: stack_ok_tx)
  from forget_client_eq [OF this] c show ?thesis
    by (auto simp: endDialog_def Let_def)
qed

lemma stack_ok_txHeap:
  assumes "stack_ok s" and "\<And>t. h t = map_option (f t) (st_txHeap s t)" and "\<And>t tx. tx_tid (f t tx) = tx_tid tx"
  shows "stack_ok (s\<lparr>st_txHeap := h\<rparr>)"
proof -
  have n: "h t = None \<longleftrightarrow> st_txHeap s t = None" for t using assms(2) [of t] by simp
  have k: "\<exists>tx. h t = Some tx \<and> tx_tid tx = tid" if g: "smap_get (st_transactions s) tid = Some t" "t \<noteq> NULL" for tid t
    using stack_ok_tx(2) [OF assms(1) g] assms(2) [of t] assms(3) by auto
  from assms(1) show ?thesis
    unfolding stack_ok_def clients_ok_def txs_ok_def using n k by simp
qed

lemma stack_ok_endDialog: "stack_ok s \<Longrightarrow> endDialog client s = Val s' \<Longrightarrow> stack_ok s'"
proof -
  assume ok: "stack_ok s" and r: "endDialog client s = Val s'"
  show "stack_ok s'"
  proof (cases "client = NULL")
    case True
    with ok r show ?thesis by (simp add: endDialog_def)
  next
    case False
    then obtain c where c: "st_clientHeap s client = Some c"
      using r by (cases "st_clientHeap s client") (auto simp: endDialog_def)
    define h where "h = (\<lambda>t. if t \<noteq> NULL \<and> t \<in> snd ` set (st_transactions s)
        then map_option (orphan client) (st_txHeap s t) else st_txHeap s t)"
    have "stack_ok ((s\<lparr>st_endedDialogs := st_endedDialogs s @ [cl_callId c]\<rparr>)\<lparr>st_txHeap := h\<rparr>)"
      by (rule stack_ok_txHeap [where f = "\<lambda>t. if t \<noteq> NULL \<and> t \<in> snd ` set (st_transactions s) then orphan client else id"])
         (use ok in \<open>auto simp: h_def option.map_id\<close>)
    with endDialog_Val [OF ok False c] r show ?thesis by (simp add: h_def)
  qed
qed

lemma stack_ok_connectionLost:
  assumes ok: "stack_ok s" and r: "connectionLost fd s = Val s'"
  shows "stack_ok s'"
proof -
  obtain client m where m: "smap_index NULL fd (st_clientsMap s) = (client, m)" by fastforce
  have sm: "smap_ok (st_clientsMap s)" using ok by (simp add: stack_ok_def)
  then have "smap_ok m" using smap_index_ok [of "st_clientsMap s" NULL fd] m by simp
  then have ok1: "stack_ok (s\<lparr>st_clientsMap := m\<rparr>)" "\<And>k. stack_ok (s\<lparr>st_clientsMap := smap_erase k m\<rparr>)"
    using ok by auto
  show ?thesis
  proof (cases "client = NULL")
    case True
    with r m ok1 show ?thesis by (auto simp: connectionLost_def)
  next
    case False
    with r m obtain c :: client where "endDialog client (s\<lparr>st_clientsMap := smap_erase (cl_fd c) m\<rparr>) = Val s'"
      by (auto simp: connectionLost_def Let_def split: option.splits)
    with ok1(2) show ?thesis by (rule stack_ok_endDialog)
  qed
qed

lemma stack_ok_reap: "stack_ok s \<Longrightarrow> stack_ok (reap_transactions s)"
proof -
  have "stack_ok s \<Longrightarrow> stack_ok (foldl (\<lambda>s tid. removeTransaction tid s) s tids)" for tids s
    by (induction tids arbitrary: s) (auto intro: stack_ok_removeTransaction)
  then show "stack_ok s \<Longrightarrow> stack_ok (reap_transactions s)" by (simp add: reap_transactions_def)
qed

lemma stack_ok_keepalive: "stack_ok s \<Longrightarrow> check_keepalive elapsed ps s = Val s' \<Longrightarrow> stack_ok s'"
proof (induction elapsed ps s rule: check_keepalive.induct)
  case (2 elapsed p ps s)
  show ?case
  proof (cases "p = NULL \<or> st_clientHeap s p = None \<or> \<not> getTimeout (elapsed p) (the (st_clientHeap s p))")
    case True
    with 2 show ?thesis by (auto split: option.splits if_splits)
  next
    case False
    then obtain c where c: "p \<noteq> NULL" "st_clientHeap s p = Some c" "getTimeout (elapsed p) c" by auto
    define s1 where "s1 = s\<lparr>st_clientHeap := (st_clientHeap s)(p \<mapsto> setKeepAlive (getKeepAlive c) (elapsed p) c)\<rparr>"
    have ok1: "stack_ok s1" unfolding s1_def by (rule stack_ok_client_upd [OF "2.prems"(1) c(2)]) simp
    obtain s2 where s2: "(if st_hardKeepAlive s1 then endDialog p s1 else Val s1) = Val s2"
        "check_keepalive elapsed ps s2 = Val s'"
      using "2.prems"(2) c by (auto simp: s1_def [symmetric] cpp_bind_Val Let_def)
    have "stack_ok s2" using s2(1) ok1 by (auto split: if_splits intro: stack_ok_endDialog)
    then show ?thesis using "2.IH"(2) [OF c s1_def _ s2(2)] by blast
  qed
qed simp

lemma stack_ok_accept: "stack_ok s \<Longrightarrow> accept_all resolve ssl conns s = Val (s', closed) \<Longrightarrow> stack_ok s'"
proof (induction conns arbitrary: s closed)
  case (Cons conn conns)
  obtain fd ip port where conn: "conn = (fd, ip, port)" by (cases conn)
  show ?case
  proof (cases "fd < 0")
    case True
    with Cons conn show ?thesis by auto
  next
    case False
    then obtain s1 res cl where "matchConnection resolve ssl 0 fd ip port s = Val (s1, res)"
        "accept_all resolve ssl conns s1 = Val (s', cl)"
      using Cons.prems(2) conn by (auto simp: cpp_bind_Val split: prod.splits)
    with Cons.IH Cons.prems(1) show ?thesis by (blast intro: stack_ok_matchConnection)
  qed
qed simp

lemma stack_ok_round:
  assumes "stack_ok s" and "stack_round resolve ssl elapsed conns s = Val (s', closed)"
  shows "stack_ok s'"
proof -
  obtain s2 where s2: "check_keepalive elapsed (st_clients (reap_transactions s)) (reap_transactions s) = Val s2"
      "accept_all resolve ssl conns (flush_dialogs s2) = Val (s', closed)"
    using assms(2) by (auto simp: stack_round_def cpp_bind_Val Let_def)
  have "stack_ok (flush_dialogs s2)"
    using stack_ok_keepalive [OF stack_ok_reap [OF assms(1)] s2(1)] by (simp add: flush_dialogs_def)
  then show ?thesis using s2(2) by (rule stack_ok_accept)
qed

lemma stack_ok_report:
  assumes ok: "stack_ok s" and r: "stack_report cp requester tid status timeout blob s = Val s'"
  shows "stack_ok s'"
proof -
  obtain t s1 where g: "getTransaction tid s = (t, s1)" by fastforce
  have ok1: "stack_ok s1" using stack_ok_getTransaction [OF ok g] by blast
  have "s' = s1 \<or> onTx t (\<lambda>tx. fst (report status timeout (pk_mimeType cp) blob tx)) s1 = Val s'"
    using r g by (auto simp: stack_report_def split: if_splits option.splits)
  then show ?thesis using ok1 by (auto intro: stack_ok_onTx)
qed

lemma draw_tid_ok: "stack_ok s \<Longrightarrow> draw_tid tids s = Some (tid, s1) \<Longrightarrow>
    stack_ok s1 \<and> tid \<in> set tids \<and> smap_get (st_transactions s1) tid = Some NULL"
proof (induction tids arbitrary: s)
  case (Cons x tids)
  obtain t s2 where g: "getTransaction x s = (t, s2)" by fastforce
  note gg = stack_ok_getTransaction [OF Cons.prems(1) g]
  show ?case
  proof (cases "t = NULL")
    case True
    with Cons.prems(2) g gg show ?thesis by simp
  next
    case False
    with Cons.prems(2) g have "draw_tid tids s2 = Some (tid, s1)" by simp
    then show ?thesis using Cons.IH [of s2] gg by simp
  qed
qed simp

lemma stack_ok_control:
  assumes ok: "stack_ok s" and r: "stack_control cp requester blob tids s = Val (Some s')"
  shows "stack_ok s'"
proof -
  obtain tid s1 where d: "draw_tid tids s = Some (tid, s1)"
    using r by (cases "draw_tid tids s") (auto simp: stack_control_def)
  obtain t s2 where n: "newTx requester tid s1 = (t, s2)" by fastforce
  have ok1: "stack_ok s1" using draw_tid_ok [OF ok d] by blast
  note ok2 = stack_ok_newTx [OF ok1 n]
  have "onTx t (\<lambda>tx. fst (control (package_id cp) (pk_mimeType cp) blob tx)) (putTx tid t s2) = Val s'"
    using r d n by (auto simp: stack_control_def cpp_bind_Val split: cpp.splits)
  moreover have "stack_ok (putTx tid t s2)" using ok2 by (auto intro: stack_ok_putTx)
  ultimately show ?thesis by (auto intro: stack_ok_onTx)
qed

subsection \<open>What the operations achieve\<close>

lemma join_comma_concat: "join_comma (x # xs) = x @ concat (map (\<lambda>y. '','' @ y) xs)"
  by (induction xs arbitrary: x) auto

definition matched_pkg :: "boost \<Rightarrow> string \<Rightarrow> string" where
  "matched_pkg bx pkg = (case bx_match bx rx_package pkg of None \<Rightarrow> '''' | Some ms \<Rightarrow> sub ms 0)"

lemma match_tokens_result:
  "match_tokens bx (pkg # toks) first required unrequired = Some (req, unr) \<Longrightarrow>
     req = required @ concat (map (\<lambda>(b, y). (if b then y else '','' @ y))
       (zip (first # replicate (length toks) False) (map (matched_pkg bx) (pkg # takeWhile (\<lambda>t. t \<noteq> '''') toks)))) \<and>
     (\<forall>p \<in> set (pkg # takeWhile (\<lambda>t. t \<noteq> '''') toks). bx_match bx rx_package p \<noteq> None)"
proof (induction toks arbitrary: pkg first required unrequired)
  case Nil
  then show ?case by (auto simp: Let_def matched_pkg_def split: option.splits)
next
  case (Cons t toks)
  obtain ms loc where m: "bx_match bx rx_package pkg = Some ms" "str_find unrequired (sub ms 0) 0 = Some loc"
    using Cons.prems by (auto split: option.splits)
  show ?case
  proof (cases "t = ''''")
    case True
    with Cons.prems m show ?thesis by (auto simp: Let_def matched_pkg_def)
  next
    case False
    with Cons.prems m have "match_tokens bx (t # toks) False (required @ (if first then sub ms 0 else '','' @ sub ms 0))
        (str_erase unrequired loc (length (sub ms 0))) = Some (req, unr)" by (simp add: Let_def)
    from Cons.IH [OF this] False m show ?thesis by (auto simp: matched_pkg_def)
  qed
qed

lemma zip_replicate_tail: "length ys \<le> n \<Longrightarrow>
    concat (map (\<lambda>(b, y). (if b then y else '','' @ y)) (zip (replicate n False) ys)) = concat (map (\<lambda>y. '','' @ y) ys)"
proof (induction ys arbitrary: n)
  case (Cons y ys)
  then show ?case by (cases n) auto
qed simp

lemma match_tokens_join:
  assumes "match_tokens bx (pkg # toks) True required unrequired = Some (req, unr)"
  shows "req = required @ join_comma (map (matched_pkg bx) (pkg # takeWhile (\<lambda>t. t \<noteq> '''') toks))"
proof -
  have len: "length (map (matched_pkg bx) (takeWhile (\<lambda>t. t \<noteq> '''') toks)) \<le> length toks"
    by (simp add: length_takeWhile_le)
  from match_tokens_result [OF assms] show ?thesis
    using zip_replicate_tail [OF len] by (simp add: join_comma_concat del: map_map)
qed

text \<open>What the clean-up leaves has no empty entry.\<close>

definition clean_list :: "string \<Rightarrow> bool" where
  "clean_list s \<longleftrightarrow> str_find s '' ,'' 0 = None \<and> str_find s '',,'' 0 = None \<and> (s = '''' \<or> last s \<noteq> CHR '','')"

lemma cleanup_round_done:
  assumes "cleanup_round s = (s', 3)"
  shows "s' = s \<and> str_find s '' ,'' 0 = None \<and> str_find s '',,'' 0 = None \<and>
     (s = '''' \<or> str_find s '','' (length s - 1) = None)"
proof -
  define f1 where "f1 = str_find s '' ,'' 0"
  define s1 where "s1 = erase_at f1 1 s"
  define f2 where "f2 = str_find s1 '',,'' 0"
  define s2 where "s2 = erase_at f2 0 s1"
  define f3 where "f3 = (if s2 = '''' then None else str_find s2 '','' (length s2 - 1))"
  have r: "cleanup_round s = (erase_at f3 0 s2, (if f1 = None then 1 else 0) + (if f2 = None then 1 else 0) + (if f3 = None then 1 else 0))"
    unfolding cleanup_round_def Let_def f1_def s1_def f2_def s2_def f3_def ..
  have n: "f1 = None \<and> f2 = None \<and> f3 = None"
    using assms unfolding r by (cases f1; cases f2; cases f3) simp_all
  then have s1: "s1 = s" and s2: "s2 = s" by (simp_all add: s1_def s2_def erase_at_def)
  have "s' = erase_at f3 0 s2" using assms unfolding r by simp
  then have "s' = s" using n s2 by (simp add: erase_at_def)
  moreover have "str_find s '' ,'' 0 = None" using n by (simp add: f1_def)
  moreover have "str_find s '',,'' 0 = None" using n s1 by (simp add: f2_def)
  moreover have "s = '''' \<or> str_find s '','' (length s - 1) = None"
    using n s2 by (cases "s = ''''") (simp_all add: f3_def)
  ultimately show ?thesis by blast
qed

lemma cleanup_clean: "clean_list (cleanup s)"
proof (induction s rule: cleanup.induct)
  case (1 s)
  obtain s' n where r: "cleanup_round s = (s', n)" by fastforce
  show ?case
  proof (cases "n = 3")
    case False
    with r 1 show ?thesis by (subst cleanup.simps) simp
  next
    case True
    note none = cleanup_round_done [OF r [unfolded True]]
    have "s = '''' \<or> last s \<noteq> CHR '',''"
    proof (rule disjCI)
      assume "\<not> last s \<noteq> CHR '',''"
      show "s = ''''"
      proof (rule ccontr)
        assume ne: "s \<noteq> ''''"
        then have "drop (length s - 1) s = [last s]" by (cases s rule: rev_cases) auto
        then have "str_find s '','' (length s - 1) \<noteq> None"
          using \<open>\<not> last s \<noteq> CHR '',''\<close> by (simp add: str_find_def starts_with_def)
        with none ne show False by simp
      qed
    qed
    moreover have "cleanup s = s" using none r True by (subst cleanup.simps) simp
    ultimately show ?thesis using none by (simp add: clean_list_def)
  qed
qed

text \<open>
  Package negotiation: the answer to a SYNC either lists all supported packages and refuses, or
  it lists exactly the requested packages, in the order of the request and each of them well
  formed, followed by a list of the remaining ones with no empty entry.
\<close>

theorem package_negotiation:
  "(\<not> snd (matchPackages bx pkgs s) \<longrightarrow>
      fst (matchPackages bx pkgs s) = ''Supported: '' @ st_supportedPackages s @ crlf) \<and>
   (snd (matchPackages bx pkgs s) \<longrightarrow>
      (\<exists>rest. fst (matchPackages bx pkgs s) =
           ''Packages: '' @ join_comma (map (matched_pkg bx) (takeWhile (\<lambda>t. t \<noteq> '''') (bx_tokens bx '','' pkgs))) @ crlf @
           ''Supported: '' @ rest @ crlf \<and> clean_list rest) \<and>
      (\<forall>p \<in> set (takeWhile (\<lambda>t. t \<noteq> '''') (bx_tokens bx '','' pkgs)). bx_match bx rx_package p \<noteq> None))"
proof -
  define toks where "toks = bx_tokens bx '','' pkgs"
  show ?thesis
  proof (cases "toks = [] \<or> hd toks = '''' \<or> match_tokens bx toks True ''Packages: '' (st_supportedPackages s) = None")
    case True
    then have "matchPackages bx pkgs s = (''Supported: '' @ st_supportedPackages s @ crlf, False)"
      unfolding matchPackages_def Let_def toks_def [symmetric] by (elim disjE) simp_all
    then show ?thesis by simp
  next
    case False
    then obtain pkg ts where toks: "toks = pkg # ts" "pkg \<noteq> ''''" by (cases toks) auto
    from False obtain req unr where m: "match_tokens bx (pkg # ts) True ''Packages: '' (st_supportedPackages s) = Some (req, unr)"
      using toks by auto
    define u where "u = (if unr \<noteq> '''' \<and> hd unr = CHR '','' then str_erase unr 0 1 else unr)"
    have "matchPackages bx pkgs s = (req @ crlf @ ''Supported: '' @ cleanup u @ crlf, True)"
      using toks m by (simp add: matchPackages_def Let_def toks_def [symmetric] u_def)
    with match_tokens_join [OF m] match_tokens_result [OF m] cleanup_clean [of u] toks show ?thesis
      by (auto simp: toks_def [symmetric])
  qed
qed

theorem package_negotiation_witness:
  "let bx = \<lparr>bx_match = (\<lambda>p s. Some [s]), bx_tokens = (\<lambda>p s. [s])\<rparr>;
       s = (newStack ''h'' 5 True)\<lparr>st_supportedPackages := ''ivr/1.0,mix/1.0''\<rparr>
   in snd (matchPackages bx ''mix/1.0'' s) \<and>
      (\<exists>rest. fst (matchPackages bx ''mix/1.0'' s) = ''Packages: mix/1.0'' @ crlf @ ''Supported: '' @ rest @ crlf)"
proof -
  let ?bx = "\<lparr>bx_match = (\<lambda>p s. Some [s]), bx_tokens = (\<lambda>p s. [s])\<rparr> :: boost"
  let ?s = "(newStack ''h'' 5 True)\<lparr>st_supportedPackages := ''ivr/1.0,mix/1.0''\<rparr>"
  have ok: "snd (matchPackages ?bx ''mix/1.0'' ?s)"
    by (simp add: matchPackages_def Let_def newStack_def sub_def str_find_def starts_with_def)
  with package_negotiation [of ?bx "''mix/1.0''" ?s] obtain rest where
    "fst (matchPackages ?bx ''mix/1.0'' ?s) = ''Packages: '' @ join_comma (map (matched_pkg ?bx) (takeWhile (\<lambda>t. t \<noteq> '''') (bx_tokens ?bx '','' ''mix/1.0''))) @ crlf @
           ''Supported: '' @ rest @ crlf" by blast
  with ok show ?thesis by (simp add: Let_def matched_pkg_def sub_def)
qed

text \<open>
  The search by substring accepts packages nobody supports: with only \<open>msc-ivr/1.0\<close> loaded, a
  request for \<open>ivr/1.0\<close> (split and recognised as the regular expressions say) is granted, and the
  answer offers the rest of the name as a package.
\<close>

theorem substring_package_accepted:
  assumes "bx_tokens bx '','' ''ivr/1.0'' = [''ivr/1.0'']"
    and "bx_match bx rx_package ''ivr/1.0'' = Some [''ivr/1.0'', ''ivr'', ''1'', ''0'']"
    and "st_supportedPackages s = ''msc-ivr/1.0''"
  shows "matchPackages bx ''ivr/1.0'' s = (''Packages: ivr/1.0'' @ crlf @ ''Supported: msc-'' @ crlf, True)"
proof -
  have f: "str_find ''msc-ivr/1.0'' ''ivr/1.0'' 0 = Some 4" by code_simp

  have r: "cleanup_round ''msc-'' = (''msc-'', 3)" by code_simp
  have "cleanup ''msc-'' = ''msc-''" by (subst cleanup.simps) (simp add: r)
  then show ?thesis
    using assms f by (simp add: matchPackages_def Let_def sub_def str_erase_def)
qed

theorem substring_package_accepted_witness:
  "let bx = \<lparr>bx_match = (\<lambda>p s. if s = ''ivr/1.0'' then Some [''ivr/1.0'', ''ivr'', ''1'', ''0''] else None),
             bx_tokens = (\<lambda>p s. [s])\<rparr>
   in snd (matchPackages bx ''ivr/1.0'' ((newStack ''h'' 5 True)\<lparr>st_supportedPackages := ''msc-ivr/1.0''\<rparr>))"
  using substring_package_accepted [of "\<lparr>bx_match = (\<lambda>p s. if s = ''ivr/1.0'' then Some [''ivr/1.0'', ''ivr'', ''1'', ''0''] else None),
             bx_tokens = (\<lambda>p s. [s])\<rparr>" "(newStack ''h'' 5 True)\<lparr>st_supportedPackages := ''msc-ivr/1.0''\<rparr>"]
  by (simp add: Let_def)

text \<open>
  C39. A package answers only its own requests: a report for a transaction that does not exist, or
  from another client than the one that opened the transaction, changes no transaction; a report
  by the right client changes that transaction alone.
\<close>

theorem report_reaches_own_transaction:
  assumes "stack_ok s"
  shows "\<exists>s'. stack_report cp requester tid status timeout blob s = Val s' \<and> stack_ok s' \<and>
     (\<forall>t. st_txHeap s' t =
        (if smap_get (st_transactions s) tid = Some t \<and> t \<noteq> NULL \<and>
            map_option tx_client (st_txHeap s t) = Some requester
         then map_option (\<lambda>tx. fst (report status timeout (pk_mimeType cp) blob tx)) (st_txHeap s t)
         else st_txHeap s t))"
proof -
  obtain t s1 where g: "getTransaction tid s = (t, s1)" by fastforce
  note g1 = stack_ok_getTransaction [OF assms g] and fr = getTransaction_frame [OF g]
    and st = getTransaction_state [OF g]
  show ?thesis
  proof (cases "t = NULL \<or> map_option tx_client (st_txHeap s t) \<noteq> Some requester")
    case True
    then have r: "stack_report cp requester tid status timeout blob s = Val s1"
      using g g1 fr by (auto simp: stack_report_def)
    have "\<not> (smap_get (st_transactions s) tid = Some u \<and> u \<noteq> NULL \<and> map_option tx_client (st_txHeap s u) = Some requester)" for u
      using True st by auto
    then show ?thesis using r g1 fr by (intro exI [of _ s1]) auto
  next
    case False
    then obtain tx where tx: "st_txHeap s1 t = Some tx" "tx_client tx = requester" "t \<noteq> NULL" using fr by auto
    define s2 where "s2 = s1\<lparr>st_txHeap := (st_txHeap s1)(t \<mapsto> fst (report status timeout (pk_mimeType cp) blob tx))\<rparr>"
    have o: "onTx t (\<lambda>tx. fst (report status timeout (pk_mimeType cp) blob tx)) s1 = Val s2"
      using tx by (simp add: onTx_def s2_def)
    have r: "stack_report cp requester tid status timeout blob s = Val s2"
      using g tx o by (simp add: stack_report_def)
    have "stack_ok s2" by (rule stack_ok_report [OF assms r])
    moreover have "smap_get (st_transactions s) tid = Some t" using st tx(3) by (auto split: option.splits)
    ultimately show ?thesis using r tx fr by (intro exI [of _ s2]) (auto simp: s2_def)
  qed
qed

theorem report_reaches_own_transaction_witness:
  "let s = putTx ''a'' 1 (snd (newTx 5 ''a'' (newStack ''h'' 5 True)));
       cp = \<lparr>pk_name = ''ivr'', pk_version = ''1.0'', pk_desc = '''', pk_mimeType = ''m'', pk_info = ''''\<rparr>
   in \<exists>s'. stack_report cp 6 ''a'' 200 10 '''' s = Val s' \<and> st_txHeap s' 1 = Some (newTransaction 5 ''a'')"
proof -
  let ?init = "newStack ''h'' 5 True"
  let ?s = "putTx ''a'' 1 (snd (newTx 5 ''a'' ?init))"
  let ?cp = "\<lparr>pk_name = ''ivr'', pk_version = ''1.0'', pk_desc = '''', pk_mimeType = ''m'', pk_info = ''''\<rparr>"
  have n: "newTx 5 ''a'' ?init = (1, snd (newTx 5 ''a'' ?init))" by (simp add: newTx_def newStack_def)
  have "stack_ok ?s"
    using stack_ok_newTx [OF stack_ok_new n] by (intro stack_ok_putTx [where tx = "newTransaction 5 ''a''"]) auto
  from report_reaches_own_transaction [OF this, of ?cp 6 "''a''" 200 10 "''''"]
  obtain s' where s': "stack_report ?cp 6 ''a'' 200 10 '''' ?s = Val s'"
    "\<And>t. st_txHeap s' t = (if smap_get (st_transactions ?s) ''a'' = Some t \<and> t \<noteq> NULL \<and>
            map_option tx_client (st_txHeap ?s t) = Some 6
         then map_option (\<lambda>tx. fst (report 200 10 (pk_mimeType ?cp) '''' tx)) (st_txHeap ?s t)
         else st_txHeap ?s t)" by blast
  have "st_txHeap ?s 1 = Some (newTransaction 5 ''a'')" by (simp add: putTx_def newTx_def newStack_def)
  then have "st_txHeap s' 1 = Some (newTransaction 5 ''a'')" using s'(2) [of 1] by (simp add: newTransaction_def)
  with s'(1) show ?thesis by (simp add: Let_def)
qed

text \<open>
  When a client's dialog ends, every transaction of the map that belonged to that client is cut
  off from it, every other transaction stays as it was, and exactly one request to end the client's
  SIP call is queued.
\<close>

theorem ended_dialog_cut_off:
  assumes "stack_ok s" and "client \<in> set (st_clients s)"
  shows "\<exists>c s'. st_clientHeap s client = Some c \<and> endDialog client s = Val s' \<and> stack_ok s' \<and>
     st_endedDialogs s' = st_endedDialogs s @ [cl_callId c] \<and>
     (\<forall>tid t tx. smap_get (st_transactions s) tid = Some t \<longrightarrow> t \<noteq> NULL \<longrightarrow> st_txHeap s t = Some tx \<longrightarrow>
        st_txHeap s' t = Some (if tx_client tx = client then tx\<lparr>tx_client := NULL\<rparr> else tx)) \<and>
     st_transactions s' = st_transactions s \<and> st_clientHeap s' = st_clientHeap s"
proof -
  obtain c where c: "client \<noteq> NULL" "st_clientHeap s client = Some c"
    using assms by (auto simp: stack_ok_def clients_ok_def)
  obtain s' where s': "endDialog client s = Val s'" "s' = s\<lparr>st_endedDialogs := st_endedDialogs s @ [cl_callId c],
     st_txHeap := (\<lambda>t. if t \<noteq> NULL \<and> t \<in> snd ` set (st_transactions s) then map_option (orphan client) (st_txHeap s t)
                       else st_txHeap s t)\<rparr>" using endDialog_Val [OF assms(1) c] by blast
  have "t \<in> snd ` set (st_transactions s)" if "smap_get (st_transactions s) tid = Some t" for tid t
    using smap_get_Some_in [OF that] by force
  with s' c stack_ok_endDialog [OF assms(1) s'(1)] show ?thesis
    by (intro exI [of _ c] exI [of _ s']) (auto simp: orphan_def)
qed

theorem ended_dialog_cut_off_witness:
  "\<exists>s s'. addClient ''call'' ''dlg'' ''1.2.3.4'' 8 False '''' (newStack ''h'' 5 True) = Val (s, 200) \<and>
     endDialog 1 s = Val s' \<and> st_endedDialogs s' = [''call'']"
proof -
  have "\<exists>s. addClient ''call'' ''dlg'' ''1.2.3.4'' 8 False '''' (newStack ''h'' 5 True) = Val (s, 200) \<and>
      1 \<in> set (st_clients s) \<and> map_option cl_callId (st_clientHeap s 1) = Some ''call'' \<and> st_endedDialogs s = []"
    by (simp add: addClient_def newStack_def setAddress_def setDialog_def)
  then obtain s where s: "addClient ''call'' ''dlg'' ''1.2.3.4'' 8 False '''' (newStack ''h'' 5 True) = Val (s, 200)"
      "1 \<in> set (st_clients s)" "map_option cl_callId (st_clientHeap s 1) = Some ''call''" "st_endedDialogs s = []" by blast
  from ended_dialog_cut_off [OF stack_ok_addClient [OF stack_ok_new s(1)] s(2)] s show ?thesis by auto
qed

end
