(* ===== verification/CfwParser.thy ===== *)
theory CfwParser
  imports CfwStack
begin

text \<open>
  \<open>CfwStack::parseMessage\<close> of \<open>src/CfwStack.cxx\<close>: the requests of the Media Control Channel
  Framework. The lines of a message are the tokens that Boost's token iterator yields for the
  separator CR LF; the regular expressions are given to Boost's matcher as they are written in
  the code. \<open>now\<close> is the reading of the timers involved, \<open>inp\<close> is what the connection delivers
  when a body is read. \<open>Forever\<close> is the result of a call that never returns.
\<close>

datatype 'a outcome = Forever | Done 'a

subsection \<open>The regular expressions\<close>

definition rx_header :: string where
  "rx_header = ''(CFW ('' @ bsl @ ''w+) ('' @ bsl @ ''D+))|(CFW ('' @ bsl @ ''w+) ('' @ bsl @ ''d+)('' @ bsl @
     ''s(('' @ bsl @ ''S+'' @ bsl @ ''s?)+))?)''"

definition rx_seq :: string where
  "rx_seq = ''Seq: ('' @ bsl @ ''d+)''"

definition rx_dialog :: string where
  "rx_dialog = ''Dialog-ID: ('' @ bsl @ ''S+)''"

definition rx_keepalive :: string where
  "rx_keepalive = ''Keep-Alive: ('' @ bsl @ ''d+)''"

definition rx_packages :: string where
  "rx_packages = ''Packages: ('' @ bsl @ ''S+)''"

definition rx_length :: string where
  "rx_length = ''Content-Length: ('' @ bsl @ ''d+)''"

definition rx_type :: string where
  "rx_type = ''Content-Type: ('' @ bsl @ ''S+)''"

definition rx_cp :: string where
  "rx_cp = ''Control-Package: (('' @ bsl @ ''D+)('' @ bsl @ ''/('' @ bsl @ ''d)'' @ bsl @ ''.('' @ bsl @ ''d))?)''"

subsection \<open>The first line\<close>

text \<open>
  Request and transaction identifier. The loop that turns a directive into upper case counts with
  16 bits, so it never ends for a directive of more than 65535 characters.
\<close>

definition parse_header :: "boost \<Rightarrow> string \<Rightarrow> (string \<times> string) outcome option" where
  "parse_header bx line =
     (case bx_match bx rx_header line of
        None \<Rightarrow> None
      | Some ms \<Rightarrow>
          if sub ms 1 \<noteq> '''' then
            (if 65535 < length (sub ms 3) then Some Forever
             else Some (Done (map to_upper (sub ms 3), sub ms 2)))
          else Some (Done (sub ms 6, sub ms 5)))"

subsection \<open>Replies\<close>

text \<open>A new transaction, filed under its identifier, that answers with an error code.\<close>

definition answer_new :: "ptr \<Rightarrow> string \<Rightarrow> int \<Rightarrow> stack \<Rightarrow> stack cpp" where
  "answer_new client tid code s =
     (let (t, s1) = newTx client tid s in
      onTx t (\<lambda>tx. fst (errorCode code '''' '''' tx)) (putTx tid t s1))"

definition answer :: "ptr \<Rightarrow> int \<Rightarrow> string \<Rightarrow> stack \<Rightarrow> stack cpp" where
  "answer t code header s = onTx t (\<lambda>tx. fst (errorCode code header '''' tx)) s"

definition onClient :: "ptr \<Rightarrow> (client \<Rightarrow> client) \<Rightarrow> stack \<Rightarrow> stack cpp" where
  "onClient p f s = (case st_clientHeap s p of None \<Rightarrow> Undef
                     | Some c \<Rightarrow> Val (s\<lparr>st_clientHeap := (st_clientHeap s)(p \<mapsto> f c)\<rparr>))"

text \<open>An answer after which the client's dialog is ended.\<close>

definition refuse :: "ptr \<Rightarrow> ptr \<Rightarrow> int \<Rightarrow> string \<Rightarrow> stack \<Rightarrow> stack cpp" where
  "refuse client t code header s = cpp_bind (answer t code header s) (endDialog client)"

subsection \<open>200: an acknowledgement\<close>

fun ack_lines :: "boost \<Rightarrow> string list \<Rightarrow> int \<Rightarrow> int option" where
  "ack_lines bx [] seqno = Some seqno"
| "ack_lines bx (line # ls) seqno =
     (if line = '''' then Some seqno
      else case bx_match bx rx_seq line of None \<Rightarrow> None
      | Some ms \<Rightarrow> ack_lines bx ls (atoi (sub ms 1)))"

definition onTx_ack :: "ptr \<Rightarrow> int \<Rightarrow> stack \<Rightarrow> stack cpp" where
  "onTx_ack t seqno s = (case st_txHeap s t of None \<Rightarrow> Undef
     | Some tx \<Rightarrow> cpp_bind (ackReceived seqno tx) (\<lambda>tx'. Val (s\<lparr>st_txHeap := (st_txHeap s)(t \<mapsto> tx')\<rparr>)))"

definition parse_200 :: "boost \<Rightarrow> ptr \<Rightarrow> string \<Rightarrow> string list \<Rightarrow> stack \<Rightarrow> stack cpp" where
  "parse_200 bx client tid ls s =
     (let (t, s1) = getTransaction tid s in
      if t = NULL then answer_new client tid 481 s1
      else (case ack_lines bx ls 0 of
              None \<Rightarrow> answer t 400 '''' s1
            | Some seqno \<Rightarrow> if 0 \<le> seqno then onTx_ack t seqno s1 else Val s1))"

subsection \<open>K-ALIVE\<close>

text \<open>The transaction of a malformed K-ALIVE answers before it is filed.\<close>

definition parse_kalive :: "u64 \<Rightarrow> ptr \<Rightarrow> string \<Rightarrow> string list \<Rightarrow> stack \<Rightarrow> stack cpp" where
  "parse_kalive now client tid ls s =
     (let (t, s1) = newTx client tid s in
      if ls \<noteq> [] \<and> hd ls \<noteq> '''' then cpp_bind (answer t 400 '''' s1) (\<lambda>s2. Val (putTx tid t s2))
      else cpp_bind (onClient client (\<lambda>c. setKeepAlive (getKeepAlive c) now c) s1)
             (\<lambda>s2. answer t 200 '''' (putTx tid t s2)))"

subsection \<open>SYNC\<close>

record sync_req =
  sy_dialogid :: string
  sy_kalive :: string
  sy_packages :: string

fun sync_lines :: "boost \<Rightarrow> string list \<Rightarrow> sync_req \<Rightarrow> sync_req option" where
  "sync_lines bx [] r = Some r"
| "sync_lines bx (line # ls) r =
     (if line = '''' then Some r
      else case bx_match bx rx_dialog line of
        Some ms \<Rightarrow> sync_lines bx ls (r\<lparr>sy_dialogid := sub ms 1\<rparr>)
      | None \<Rightarrow> (case bx_match bx rx_keepalive line of
          Some ms \<Rightarrow> sync_lines bx ls (r\<lparr>sy_kalive := sub ms 1\<rparr>)
        | None \<Rightarrow> (case bx_match bx rx_packages line of
            Some ms \<Rightarrow> sync_lines bx ls (r\<lparr>sy_packages := sub ms 1\<rparr>)
          | None \<Rightarrow> None)))"

text \<open>After the header lines: dialog, keep-alive and packages, in that order.\<close>

definition sync_checks :: "boost \<Rightarrow> u64 \<Rightarrow> ptr \<Rightarrow> ptr \<Rightarrow> sync_req \<Rightarrow> stack \<Rightarrow> stack cpp" where
  "sync_checks bx now client t r s =
     (case st_clientHeap s client of None \<Rightarrow> Undef
      | Some c \<Rightarrow>
          if sy_dialogid r = '''' then refuse client t 481 '''' s
          else if cl_dialogId c \<noteq> sy_dialogid r then refuse client t 481 '''' s
          else cpp_bind (onClient client setAuthenticated s) (\<lambda>s1.
            if sy_kalive r = '''' then refuse client t 481 '''' s1
            else
              let k = uint (word_of_int (atoi (sy_kalive r)) :: u16);
                  header = ''Keep-Alive: '' @ dec_int k @ crlf
              in cpp_bind (onClient client (setKeepAlive k now) s1) (\<lambda>s2.
                if sy_packages r = '''' then refuse client t 481 '''' s2
                else let (res, ok) = matchPackages bx (sy_packages r) s2 in
                  if ok then answer t 200 (header @ res) s2 else refuse client t 422 res s2)))"

definition parse_sync :: "boost \<Rightarrow> u64 \<Rightarrow> ptr \<Rightarrow> string \<Rightarrow> string list \<Rightarrow> stack \<Rightarrow> stack cpp" where
  "parse_sync bx now client tid ls s =
     (let (t, s1) = getTransaction tid s in
      if t \<noteq> NULL then answer t 423 '''' s1
      else
        let (t', s2) = newTx client tid s1; s3 = putTx tid t' s2 in
        case sync_lines bx ls \<lparr>sy_dialogid = '''', sy_kalive = '''', sy_packages = ''''\<rparr> of
          None \<Rightarrow> refuse client t' 400 '''' s3
        | Some r \<Rightarrow> sync_checks bx now client t' r s3)"

subsection \<open>CONTROL\<close>

record control_req =
  cr_cp :: string
  cr_content :: string
  cr_mimeType :: string

fun control_lines :: "boost \<Rightarrow> string list \<Rightarrow> control_req \<Rightarrow> control_req option" where
  "control_lines bx [] r = Some r"
| "control_lines bx (line # ls) r =
     (if line = '''' then Some r
      else case bx_match bx rx_length line of
        Some ms \<Rightarrow> control_lines bx ls (r\<lparr>cr_content := sub ms 1\<rparr>)
      | None \<Rightarrow> (case bx_match bx rx_type line of
          Some ms \<Rightarrow> control_lines bx ls (r\<lparr>cr_mimeType := sub ms 1\<rparr>)
        | None \<Rightarrow> (case bx_match bx rx_cp line of
            Some ms \<Rightarrow> control_lines bx ls (r\<lparr>cr_cp := sub ms 2\<rparr>)
          | None \<Rightarrow> None)))"

text \<open>The body, if one was announced.\<close>

definition control_body :: "string list \<Rightarrow> control_req \<Rightarrow> client \<Rightarrow> string outcome" where
  "control_body inp r c =
     (let len = (if cr_content r \<noteq> '''' then atoi (cr_content r) else 0) in
      if 0 < len then (case getContent True (nat len) inp c of None \<Rightarrow> Forever | Some (blob, _) \<Rightarrow> Done blob)
      else Done '''')"

definition control_checks :: "u64 \<Rightarrow> string list \<Rightarrow> ptr \<Rightarrow> string \<Rightarrow> ptr \<Rightarrow> control_req \<Rightarrow> stack \<Rightarrow> stack outcome cpp" where
  "control_checks now inp client tid t r s =
     (case st_clientHeap s client of None \<Rightarrow> Undef
      | Some c \<Rightarrow>
          if cr_cp r = '''' then cpp_bind (answer t 400 '''' s) (\<lambda>s1. Val (Done s1))
          else (case control_body inp r c of
                  Forever \<Rightarrow> Val Forever
                | Done blob \<Rightarrow>
                    (case getPackage (cr_cp r) s of
                       Some package \<Rightarrow>
                         if pk_mimeType package \<noteq> cr_mimeType r then
                           cpp_bind (answer t 420 '''' s) (\<lambda>s1. Val (Done s1))
                         else cpp_bind (onTx t (startTimer now) s) (\<lambda>s1.
                           Val (Done (s1\<lparr>st_calls := st_calls s1 @ [PackageControl (pk_name package) client tid blob]\<rparr>)))
                     | None \<Rightarrow> cpp_bind (answer t 420 '''' s) (\<lambda>s1. Val (Done s1)))))"

definition parse_control ::
  "boost \<Rightarrow> u64 \<Rightarrow> string list \<Rightarrow> ptr \<Rightarrow> string \<Rightarrow> string list \<Rightarrow> stack \<Rightarrow> stack outcome cpp" where
  "parse_control bx now inp client tid ls s =
     (let (t, s1) = getTransaction tid s in
      if t \<noteq> NULL then cpp_bind (answer t 423 '''' s1) (\<lambda>s2. Val (Done s2))
      else
        let (t', s2) = newTx client tid s1; s3 = putTx tid t' s2 in
        case control_lines bx ls \<lparr>cr_cp = '''', cr_content = '''', cr_mimeType = ''''\<rparr> of
          None \<Rightarrow> cpp_bind (refuse client t' 400 '''' s3) (\<lambda>s4. Val (Done s4))
        | Some r \<Rightarrow> control_checks now inp client tid t' r s3)"

subsection \<open>Any other method\<close>

definition parse_other :: "ptr \<Rightarrow> string \<Rightarrow> stack \<Rightarrow> stack cpp" where
  "parse_other client tid s =
     (let (t, s1) = getTransaction tid s in
      if t = NULL then answer_new client tid 405 s1 else answer t 405 '''' s1)"

subsection \<open>The dispatch\<close>

definition returned :: "stack cpp \<Rightarrow> stack outcome cpp" where
  "returned r = cpp_bind r (\<lambda>s. Val (Done s))"

definition parse_request ::
  "boost \<Rightarrow> u64 \<Rightarrow> string list \<Rightarrow> ptr \<Rightarrow> client \<Rightarrow> string \<Rightarrow> string \<Rightarrow> string list \<Rightarrow> stack \<Rightarrow> stack outcome cpp" where
  "parse_request bx now inp client c request tid ls s =
     (if request \<noteq> ''SYNC'' \<and> \<not> cl_authenticated c then returned (answer_new client tid 403 s)
      else if request = ''200'' then returned (parse_200 bx client tid ls s)
      else if request = ''K-ALIVE'' then returned (parse_kalive now client tid ls s)
      else if request = ''SYNC'' then returned (parse_sync bx now client tid ls s)
      else if request = ''CONTROL'' then parse_control bx now inp client tid ls s
      else returned (parse_other client tid s))"

definition parseMessage ::
  "boost \<Rightarrow> u64 \<Rightarrow> string list \<Rightarrow> ptr \<Rightarrow> string \<Rightarrow> stack \<Rightarrow> stack outcome cpp" where
  "parseMessage bx now inp client message s =
     (if client = NULL then Val (Done s)
      else (case bx_tokens bx crlf message of
              [] \<Rightarrow> Undef
            | line # ls \<Rightarrow>
                (case parse_header bx line of
                   None \<Rightarrow> Val (Done s)
                 | Some Forever \<Rightarrow> Val Forever
                 | Some (Done (request, tid)) \<Rightarrow>
                     (case st_clientHeap s client of None \<Rightarrow> Undef
                      | Some c \<Rightarrow> parse_request bx now inp client c request tid ls s))))"

subsection \<open>The invariant is kept\<close>

lemma stack_ok_answer: "stack_ok s \<Longrightarrow> answer t code header s = Val s' \<Longrightarrow> stack_ok s'"
  unfolding answer_def by (erule stack_ok_onTx, assumption, simp)

lemma stack_ok_refuse: "stack_ok s \<Longrightarrow> refuse client t code header s = Val s' \<Longrightarrow> stack_ok s'"
  by (auto simp: refuse_def cpp_bind_Val intro: stack_ok_endDialog stack_ok_answer)

lemma stack_ok_answer_new:
  assumes ok: "stack_ok s" and r: "answer_new client tid code s = Val s'"
  shows "stack_ok s'"
proof -
  obtain t s1 where n: "newTx client tid s = (t, s1)" by fastforce
  have "stack_ok (putTx tid t s1)"
    using stack_ok_newTx [OF ok n] by (auto intro: stack_ok_putTx)
  moreover have "onTx t (\<lambda>tx. fst (errorCode code '''' '''' tx)) (putTx tid t s1) = Val s'"
    using r n by (simp add: answer_new_def)
  ultimately show ?thesis by (rule stack_ok_onTx) simp
qed

lemma stack_ok_newTx_put:
  "stack_ok s \<Longrightarrow> newTx client tid s = (t, s1) \<Longrightarrow> stack_ok (putTx tid t s1)"
  using stack_ok_newTx by (blast intro: stack_ok_putTx newTransaction_tid)

lemma stack_ok_onClient:
  "stack_ok s \<Longrightarrow> onClient p f s = Val s' \<Longrightarrow> (\<And>c. cl_dialogId (f c) = cl_dialogId c) \<Longrightarrow> stack_ok s'"
  by (auto simp: onClient_def split: option.splits intro: stack_ok_client_upd)

lemma ackReceived_tid: "ackReceived seqno tx = Val tx' \<Longrightarrow> tx_tid tx' = tx_tid tx"
  by (auto simp: ackReceived_def cpp_bind_Val split: if_splits option.splits)

lemma stack_ok_onTx_ack:
  assumes ok: "stack_ok s" and r: "onTx_ack t seqno s = Val s'"
  shows "stack_ok s'"
proof -
  obtain tx tx' where tx: "st_txHeap s t = Some tx" "ackReceived seqno tx = Val tx'"
      "s' = s\<lparr>st_txHeap := (st_txHeap s)(t \<mapsto> tx')\<rparr>"
    using r by (auto simp: onTx_ack_def cpp_bind_Val split: option.splits)
  have "stack_ok (s\<lparr>st_txHeap := (st_txHeap s)(t \<mapsto> tx')\<rparr>)"
    by (rule stack_ok_txHeap [OF ok, where f = "\<lambda>u x. if u = t then tx'\<lparr>tx_tid := tx_tid x\<rparr> else x"])
       (use tx ackReceived_tid [OF tx(2)] in \<open>auto simp: option.map_ident\<close>)
  with tx(3) show ?thesis by simp
qed

lemma stack_ok_parse_200: assumes ok: "stack_ok s" and r: "parse_200 bx client tid ls s = Val s'" shows "stack_ok s'"
proof -
  obtain t s1 where g: "getTransaction tid s = (t, s1)" by fastforce
  have ok1: "stack_ok s1" using stack_ok_getTransaction [OF ok g] by blast
  show ?thesis using r g ok1
    by (auto simp: parse_200_def split: if_splits option.splits
        intro: stack_ok_answer_new stack_ok_answer stack_ok_onTx_ack)
qed

lemma stack_ok_parse_kalive:
  assumes ok: "stack_ok s" and r: "parse_kalive now client tid ls s = Val s'" shows "stack_ok s'"
proof -
  obtain t s1 where n: "newTx client tid s = (t, s1)" by fastforce
  note ok1 = stack_ok_newTx [OF ok n]
  show ?thesis
  proof (cases "ls \<noteq> [] \<and> hd ls \<noteq> ''''")
    case True
    then obtain s2 where s2: "answer t 400 '''' s1 = Val s2" "s' = putTx tid t s2"
      using r n by (auto simp: parse_kalive_def cpp_bind_Val)
    have "st_txHeap s2 t = Some (fst (errorCode 400 '''' '''' (newTransaction client tid)))"
      using s2(1) ok1 by (auto simp: answer_def onTx_def)
    then show ?thesis using s2 stack_ok_answer [OF conjunct1 [OF ok1] s2(1)] by (auto intro: stack_ok_putTx)
  next
    case False
    then obtain s2 where s2: "onClient client (\<lambda>c. setKeepAlive (getKeepAlive c) now c) s1 = Val s2"
        "answer t 200 '''' (putTx tid t s2) = Val s'"
      using r n by (auto simp: parse_kalive_def cpp_bind_Val split: if_splits)
    have "stack_ok s2" using s2(1) ok1 by (auto intro: stack_ok_onClient)
    moreover have "st_txHeap s2 t = Some (newTransaction client tid)"
      using s2(1) ok1 by (auto simp: onClient_def split: option.splits)
    ultimately have "stack_ok (putTx tid t s2)" by (auto intro: stack_ok_putTx)
    then show ?thesis using s2(2) by (rule stack_ok_answer)
  qed
qed

lemma setAuthenticated_dialog [simp]: "cl_dialogId (setAuthenticated c) = cl_dialogId c"
  by (simp add: setAuthenticated_def)

lemma stack_ok_sync_checks:
  assumes ok: "stack_ok s" and r: "sync_checks bx now client t r s = Val s'" shows "stack_ok s'"
proof -
  have a: "stack_ok s1" if "onClient client setAuthenticated s = Val s1" for s1
    using stack_ok_onClient [OF ok that] by simp
  have b: "stack_ok s2" if "onClient client setAuthenticated s = Val s1" "onClient client (setKeepAlive k now) s1 = Val s2" for s1 s2 k
    using stack_ok_onClient [OF a [OF that(1)] that(2)] by simp
  show ?thesis using r ok a b
    by (auto simp: sync_checks_def cpp_bind_Val Let_def case_prod_beta split: option.splits if_splits
        intro: stack_ok_refuse stack_ok_answer)
qed

lemma stack_ok_parse_sync:
  assumes ok: "stack_ok s" and r: "parse_sync bx now client tid ls s = Val s'" shows "stack_ok s'"
proof -
  obtain t s1 where g: "getTransaction tid s = (t, s1)" by fastforce
  have ok1: "stack_ok s1" using stack_ok_getTransaction [OF ok g] by blast
  obtain t' s2 where n: "newTx client tid s1 = (t', s2)" by fastforce
  note ok3 = stack_ok_newTx_put [OF ok1 n]
  show ?thesis using r g n ok1 ok3
    by (auto simp: parse_sync_def Let_def split: if_splits option.splits
        intro: stack_ok_answer stack_ok_refuse stack_ok_sync_checks)
qed

lemma stack_ok_control_checks:
  assumes ok: "stack_ok s" and r: "control_checks now inp client tid t r s = Val (Done s')" shows "stack_ok s'"
proof -
  have st: "stack_ok s1" if "onTx t (startTimer now) s = Val s1" for s1
    by (rule stack_ok_onTx [OF ok that]) simp
  show ?thesis using r ok st
    by (auto simp: control_checks_def cpp_bind_Val split: option.splits if_splits outcome.splits
        intro: stack_ok_answer)
qed

lemma stack_ok_parse_control:
  assumes ok: "stack_ok s" and r: "parse_control bx now inp client tid ls s = Val (Done s')" shows "stack_ok s'"
proof -
  obtain t s1 where g: "getTransaction tid s = (t, s1)" by fastforce
  have ok1: "stack_ok s1" using stack_ok_getTransaction [OF ok g] by blast
  obtain t' s2 where n: "newTx client tid s1 = (t', s2)" by fastforce
  note ok3 = stack_ok_newTx_put [OF ok1 n]
  show ?thesis using r g n ok1 ok3
    by (auto simp: parse_control_def Let_def cpp_bind_Val split: if_splits option.splits
        intro: stack_ok_answer stack_ok_refuse stack_ok_control_checks)
qed

lemma stack_ok_parse_other:
  assumes ok: "stack_ok s" and r: "parse_other client tid s = Val s'" shows "stack_ok s'"
proof -
  obtain t s1 where g: "getTransaction tid s = (t, s1)" by fastforce
  have ok1: "stack_ok s1" using stack_ok_getTransaction [OF ok g] by blast
  show ?thesis using r g ok1
    by (auto simp: parse_other_def split: if_splits intro: stack_ok_answer_new stack_ok_answer)
qed

lemmas stack_ok_parse = stack_ok_answer_new stack_ok_parse_200 stack_ok_parse_kalive stack_ok_parse_sync
  stack_ok_parse_other stack_ok_parse_control

lemma stack_ok_parse_request:
  "stack_ok s \<Longrightarrow> parse_request bx now inp client c request tid ls s = Val (Done s') \<Longrightarrow> stack_ok s'"
  by (auto simp: parse_request_def returned_def cpp_bind_Val split: if_splits intro: stack_ok_parse)

lemma stack_ok_parseMessage:
  "stack_ok s \<Longrightarrow> parseMessage bx now inp client message s = Val (Done s') \<Longrightarrow> stack_ok s'"
  by (auto simp: parseMessage_def split: if_splits list.splits option.splits outcome.splits
      intro: stack_ok_parse_request)

subsection \<open>The stack as a system\<close>

text \<open>
  Everything that happens to the stack: the SIP side adds and removes clients, connections are
  accepted in the rounds of its thread and get lost, messages arrive, packages report and notify,
  and every transaction's own thread takes its steps.
\<close>

inductive stack_step :: "stack \<Rightarrow> stack \<Rightarrow> bool" where
  add: "addClient callId cfwId ip port tls fp s = Val (s', code) \<Longrightarrow> stack_step s s'"
| remove: "removeClient cfwId s = Val (s', res) \<Longrightarrow> stack_step s s'"
| round: "stack_round resolve ssl elapsed conns s = Val (s', closed) \<Longrightarrow> stack_step s s'"
| lost: "connectionLost fd s = Val s' \<Longrightarrow> stack_step s s'"
| message: "parseMessage bx now inp client msg s = Val (Done s') \<Longrightarrow> stack_step s s'"
| report: "stack_report cp requester tid status timeout blob s = Val s' \<Longrightarrow> stack_step s s'"
| notify: "stack_control cp requester blob tids s = Val (Some s') \<Longrightarrow> stack_step s s'"
| thread: "st_txHeap s t = Some tx \<Longrightarrow> tx_step tx tx' \<Longrightarrow> stack_step s (s\<lparr>st_txHeap := (st_txHeap s)(t \<mapsto> tx')\<rparr>)"
| ended: "stack_step s (transactionEnded tid s)"

inductive stack_reach :: "stack \<Rightarrow> bool" where
  init: "stack_reach (setCfwManager ps (newStack address port hard))"
| step: "stack_reach s \<Longrightarrow> stack_step s s' \<Longrightarrow> stack_reach s'"

lemma purge_tid: "purge old t = Val t' \<Longrightarrow> tx_tid t' = tx_tid t"
  using purge_Val [of old t t'] by simp

lemma send_queue_tid: "send_queue online ps t = Val t' \<Longrightarrow> tx_tid t' = tx_tid t"
proof (induction ps arbitrary: t)
  case (Cons p ps)
  then show ?case by (auto simp: Let_def split: if_splits option.splits)
qed simp

lemma drop_queue_tid: "drop_queue ps t = Val t' \<Longrightarrow> tx_tid t' = tx_tid t"
  by (induction ps t rule: drop_queue.induct) (auto split: if_splits)

lemma tx_step_tid: "tx_step t t' \<Longrightarrow> tx_tid t' = tx_tid t"
proof (induction rule: tx_step.induct)
  case (locked t online t')
  then show ?case
    by (auto simp: run_locked_def cpp_bind_Val split: if_splits dest!: purge_tid send_queue_tid)
next
  case (leave t t')
  then show ?case by (auto simp: run_leave_def cpp_bind_Val dest!: drop_queue_tid)
next
  case (ack seq t t')
  then show ?case by (rule ackReceived_tid)
qed (simp_all add: run_top_def refresh_def stopTransaction_def Let_def)

lemma stack_ok_step: "stack_step s s' \<Longrightarrow> stack_ok s \<Longrightarrow> stack_ok s'"
proof (induction rule: stack_step.induct)
  case (thread s t tx tx')
  have "stack_ok (s\<lparr>st_txHeap := (st_txHeap s)(t \<mapsto> tx')\<rparr>)"
    by (rule stack_ok_txHeap [OF thread.prems, where f = "\<lambda>u x. if u = t then tx'\<lparr>tx_tid := tx_tid x\<rparr> else x"])
       (use thread tx_step_tid [OF thread.hyps(2)] in \<open>auto simp: option.map_ident\<close>)
  then show ?case .
qed (auto simp: transactionEnded_def intro: stack_ok_addClient stack_ok_removeClient stack_ok_round stack_ok_connectionLost
      stack_ok_parseMessage stack_ok_report stack_ok_control)

lemma stack_ok_reach: "stack_reach s \<Longrightarrow> stack_ok s"
proof (induction rule: stack_reach.induct)
  case (init ps address port hard)
  show ?case using stack_ok_new [of address port hard]
    by (simp add: setCfwManager_def stack_ok_def clients_ok_def txs_ok_def)
qed (rule stack_ok_step)

text \<open>
  C7. The framework's bookkeeping never breaks: in every state reached by any mixture of SIP
  signalling, connections, messages, reports, notifications and steps of the transactions'
  threads, the listed clients are live and have different dialog identifiers, and every
  transaction the stack knows is a live object filed under its own identifier.
\<close>

theorem stack_bookkeeping:
  assumes "stack_reach s"
  shows "(\<forall>p \<in> set (st_clients s). \<exists>c. st_clientHeap s p = Some c) \<and> distinct (st_clients s) \<and>
     (\<forall>p \<in> set (st_clients s). \<forall>q \<in> set (st_clients s). \<forall>c d. st_clientHeap s p = Some c \<longrightarrow>
        st_clientHeap s q = Some d \<longrightarrow> cl_dialogId c = cl_dialogId d \<longrightarrow> p = q) \<and>
     (\<forall>tid t. smap_get (st_transactions s) tid = Some t \<longrightarrow> t \<noteq> NULL \<longrightarrow>
        (\<exists>tx. st_txHeap s t = Some tx \<and> tx_tid tx = tid))"
proof -
  have ok: "stack_ok s" using assms by (rule stack_ok_reach)
  then have cl: "clients_ok s" by (simp add: stack_ok_def)
  then have "\<forall>p \<in> set (st_clients s). \<forall>q \<in> set (st_clients s). \<forall>c d. st_clientHeap s p = Some c \<longrightarrow>
        st_clientHeap s q = Some d \<longrightarrow> cl_dialogId c = cl_dialogId d \<longrightarrow> p = q"
    unfolding clients_ok_def inj_on_def by force
  moreover from cl have "(\<forall>p \<in> set (st_clients s). \<exists>c. st_clientHeap s p = Some c) \<and> distinct (st_clients s)"
    unfolding clients_ok_def by auto
  ultimately show ?thesis using stack_ok_tx(2) [OF ok] by blast
qed

theorem stack_bookkeeping_witness:
  "\<exists>s. stack_reach s \<and> st_clients s = [1] \<and> (\<exists>c. st_clientHeap s 1 = Some c)"
proof -
  obtain s where s: "addClient ''c'' ''d'' ''1.2.3.4'' 8 False '''' (setCfwManager [] (newStack ''h'' 5 True)) = Val (s, 200)"
      "st_clients s = [1]"
    by (simp add: addClient_def newStack_def setCfwManager_def Let_def)
  have r: "stack_reach s" using stack_reach.step [OF stack_reach.init stack_step.add [OF s(1)]] .
  from stack_bookkeeping [OF r] s(2) r show ?thesis by auto
qed

subsection \<open>Authentication\<close>

lemma answer_new_Val:
  "answer_new client tid code s = Val (s\<lparr>st_next := st_next s + 1,
      st_txHeap := (st_txHeap s)(st_next s \<mapsto> fst (errorCode code '''' '''' (newTransaction client tid))),
      st_transactions := smap_put tid (st_next s) (st_transactions s)\<rparr>)"
  by (simp add: answer_new_def newTx_def putTx_def onTx_def)



text \<open>What the replies leave alone: the clients and the calls to packages.\<close>

definition outside :: "stack \<Rightarrow> (ptr \<rightharpoonup> client) \<times> stack_call list \<times> package list" where
  "outside s = (st_clientHeap s, st_calls s, st_packages s)"

lemma outside_onTx: "onTx t f s = Val s' \<Longrightarrow> outside s' = outside s"
  by (auto simp: onTx_def outside_def split: option.splits)

lemma outside_onTx_ack: "onTx_ack t q s = Val s' \<Longrightarrow> outside s' = outside s"
  by (auto simp: onTx_ack_def outside_def cpp_bind_Val split: option.splits)

lemma outside_endDialog: "endDialog client s = Val s' \<Longrightarrow> outside s' = outside s"
  by (auto simp: endDialog_def outside_def cpp_bind_Val Let_def split: if_splits option.splits)

lemma outside_answer: "answer t code header s = Val s' \<Longrightarrow> outside s' = outside s"
  unfolding answer_def by (rule outside_onTx)

lemma outside_answer_new: "answer_new client tid code s = Val s' \<Longrightarrow> outside s' = outside s"
  by (auto simp: answer_new_Val outside_def)

lemma outside_refuse: "refuse client t code header s = Val s' \<Longrightarrow> outside s' = outside s"
  by (auto simp: refuse_def cpp_bind_Val dest!: outside_answer outside_endDialog)

lemma outside_newTx: "newTx client tid s = (t, s') \<Longrightarrow> outside (putTx tid' t' s') = outside s \<and> outside s' = outside s"
  by (auto simp: newTx_def putTx_def outside_def)

lemma outside_putTx: "outside (putTx tid t s) = outside s"
  by (simp add: putTx_def outside_def)

lemma outside_getTransaction: "getTransaction tid s = (t, s') \<Longrightarrow> outside s' = outside s"
  by (auto simp: outside_def dest: getTransaction_frame)

lemmas outside_simps = outside_answer outside_answer_new outside_refuse outside_onTx_ack

lemma outside_parse_200: "parse_200 bx client tid ls s = Val s' \<Longrightarrow> outside s' = outside s"
proof -
  assume r: "parse_200 bx client tid ls s = Val s'"
  obtain t s1 where g: "getTransaction tid s = (t, s1)" by fastforce
  have "outside s' = outside s1" using r g
    by (auto simp: parse_200_def split: if_splits option.splits dest: outside_simps)
  with outside_getTransaction [OF g] show ?thesis by simp
qed

lemma outside_parse_other: "parse_other client tid s = Val s' \<Longrightarrow> outside s' = outside s"
proof -
  assume r: "parse_other client tid s = Val s'"
  obtain t s1 where g: "getTransaction tid s = (t, s1)" by fastforce
  have "outside s' = outside s1" using r g
    by (auto simp: parse_other_def split: if_splits dest: outside_simps)
  with outside_getTransaction [OF g] show ?thesis by simp
qed

definition authentic :: "stack \<Rightarrow> ptr \<Rightarrow> bool option" where
  "authentic s p = map_option cl_authenticated (st_clientHeap s p)"

lemma authentic_outside: "outside s' = outside s \<Longrightarrow> authentic s' = authentic s \<and> st_calls s' = st_calls s"
  by (auto simp: outside_def authentic_def fun_eq_iff)

lemma onClient_state: "onClient p f s = Val s' \<Longrightarrow> st_calls s' = st_calls s \<and> st_packages s' = st_packages s \<and>
    (\<exists>c. st_clientHeap s p = Some c \<and> st_clientHeap s' = (st_clientHeap s)(p \<mapsto> f c))"
  by (auto simp: onClient_def split: option.splits)

lemma setKeepAlive_auth [simp]: "cl_authenticated (setKeepAlive k e c) = cl_authenticated c"
  by (simp add: setKeepAlive_def resetCounter_def)

lemma authentic_kalive: "parse_kalive now client tid ls s = Val s' \<Longrightarrow> authentic s' = authentic s \<and> st_calls s' = st_calls s"
proof -
  assume r: "parse_kalive now client tid ls s = Val s'"
  obtain t s1 where n: "newTx client tid s = (t, s1)" by fastforce
  have o1: "outside s1 = outside s" using outside_newTx [OF n] by blast
  show ?thesis
  proof (cases "ls \<noteq> [] \<and> hd ls \<noteq> ''''")
    case True
    then obtain s2 where "answer t 400 '''' s1 = Val s2" "s' = putTx tid t s2"
      using r n by (auto simp: parse_kalive_def cpp_bind_Val)
    then have "outside s' = outside s" using o1 outside_answer by (simp add: outside_putTx)
    then show ?thesis by (rule authentic_outside)
  next
    case False
    then obtain s2 where s2: "onClient client (\<lambda>c. setKeepAlive (getKeepAlive c) now c) s1 = Val s2"
        "answer t 200 '''' (putTx tid t s2) = Val s'"
      using r n by (auto simp: parse_kalive_def cpp_bind_Val split: if_splits)
    have "authentic s2 = authentic s1 \<and> st_calls s2 = st_calls s1"
      using onClient_state [OF s2(1)] by (auto simp: authentic_def fun_eq_iff)
    moreover have "outside s' = outside s2" using outside_answer [OF s2(2)] by (simp add: outside_putTx)
    ultimately show ?thesis using authentic_outside [OF o1] authentic_outside [of s' s2] by simp
  qed
qed

lemma sync_checks_effect:
  assumes "sync_checks bx now client t r s = Val s'"
  shows "st_calls s' = st_calls s \<and> (authentic s' = authentic s \<or>
     (\<exists>c. st_clientHeap s client = Some c \<and> sy_dialogid r = cl_dialogId c \<and> sy_dialogid r \<noteq> '''' \<and>
        authentic s' = (authentic s)(client \<mapsto> True)))"
proof -
  obtain c where c: "st_clientHeap s client = Some c"
    using assms by (cases "st_clientHeap s client") (auto simp: sync_checks_def)
  show ?thesis
  proof (cases "sy_dialogid r = '''' \<or> cl_dialogId c \<noteq> sy_dialogid r")
    case True
    then have "outside s' = outside s" using assms c
      by (auto simp: sync_checks_def split: if_splits dest: outside_refuse)
    then show ?thesis using authentic_outside by blast
  next
    case False
    then obtain s1 where s1: "onClient client setAuthenticated s = Val s1"
      using c by (simp add: onClient_def)
    have a1: "authentic s1 = (authentic s)(client \<mapsto> True)" "st_calls s1 = st_calls s"
      using onClient_state [OF s1] by (auto simp: authentic_def fun_eq_iff setAuthenticated_def)
    have a2: "authentic s2 = authentic s1 \<and> st_calls s2 = st_calls s1" if "onClient client (setKeepAlive k now) s1 = Val s2" for s2 k
      using onClient_state [OF that] by (auto simp: authentic_def fun_eq_iff)
    have "authentic s' = authentic s1 \<and> st_calls s' = st_calls s1"
      using assms c False s1 a2
      by (auto simp: sync_checks_def cpp_bind_Val Let_def case_prod_beta split: if_splits
          dest!: outside_refuse outside_answer authentic_outside)
    with a1 c False show ?thesis by auto
  qed
qed

definition no_sync :: sync_req where
  "no_sync = \<lparr>sy_dialogid = '''', sy_kalive = '''', sy_packages = ''''\<rparr>"

definition no_control :: control_req where
  "no_control = \<lparr>cr_cp = '''', cr_content = '''', cr_mimeType = ''''\<rparr>"

lemma parse_sync_effect:
  assumes "parse_sync bx now client tid ls s = Val s'"
  shows "st_calls s' = st_calls s \<and> (authentic s' = authentic s \<or>
     (\<exists>c r. st_clientHeap s client = Some c \<and> sync_lines bx ls no_sync = Some r \<and>
        sy_dialogid r = cl_dialogId c \<and> sy_dialogid r \<noteq> '''' \<and>
        authentic s' = (authentic s)(client \<mapsto> True)))"
proof -
  obtain t s1 where g: "getTransaction tid s = (t, s1)" by fastforce
  obtain t' s2 where n: "newTx client tid s1 = (t', s2)" by fastforce
  have o3: "outside (putTx tid t' s2) = outside s" using outside_newTx [OF n] outside_getTransaction [OF g] by simp
  note a3 = authentic_outside [OF o3]
  have h3: "st_clientHeap (putTx tid t' s2) = st_clientHeap s" using o3 by (simp add: outside_def)
  show ?thesis
  proof (cases "t = NULL")
    case False
    then have "outside s' = outside s" using assms g outside_getTransaction [OF g]
      by (auto simp: parse_sync_def dest: outside_answer)
    then show ?thesis using authentic_outside by blast
  next
    case True
    show ?thesis
    proof (cases "sync_lines bx ls no_sync")
      case None
      then have "refuse client t' 400 '''' (putTx tid t' s2) = Val s'"
        using assms g n True by (simp add: parse_sync_def no_sync_def)
      then have "outside s' = outside s" using o3 by (auto dest: outside_refuse)
      then show ?thesis using authentic_outside by blast
    next
      case (Some r)
      then have "sync_checks bx now client t' r (putTx tid t' s2) = Val s'"
        using assms g n True by (simp add: parse_sync_def no_sync_def)
      from sync_checks_effect [OF this] Some a3 h3 show ?thesis by auto
    qed
  qed
qed

lemma parse_control_effect:
  assumes r: "parse_control bx now inp client tid ls s = Val (Done s')"
  shows "authentic s' = authentic s \<and> (st_calls s' = st_calls s \<or>
     (\<exists>c q pkg blob. st_clientHeap s client = Some c \<and> fst (getTransaction tid s) = NULL \<and>
        control_lines bx ls no_control = Some q \<and> getPackage (cr_cp q) s = Some pkg \<and>
        pk_mimeType pkg = cr_mimeType q \<and> control_body inp q c = Done blob \<and>
        st_calls s' = st_calls s @ [PackageControl (pk_name pkg) client tid blob]))"
proof -
  obtain t s1 where g: "getTransaction tid s = (t, s1)" by fastforce
  obtain t' s2 where n: "newTx client tid s1 = (t', s2)" by fastforce
  define s3 where "s3 = putTx tid t' s2"
  have o3: "outside s3 = outside s" using outside_newTx [OF n] outside_getTransaction [OF g] by (simp add: s3_def)
  have e3: "st_clientHeap s3 = st_clientHeap s" "st_calls s3 = st_calls s" "\<And>x. getPackage x s3 = getPackage x s"
    using o3 by (auto simp: outside_def getPackage_def)
  have keep: "authentic s' = authentic s \<and> st_calls s' = st_calls s" if "outside s' = outside s"
    using authentic_outside [OF that] .
  show ?thesis
  proof (cases "t = NULL")
    case False
    then have "outside s' = outside s1" using r g
      by (auto simp: parse_control_def cpp_bind_Val dest: outside_answer)
    then show ?thesis using keep outside_getTransaction [OF g] by simp
  next
    case True
    show ?thesis
    proof (cases "control_lines bx ls no_control")
      case None
      then have "outside s' = outside s3" using r g n True
        by (auto simp: parse_control_def cpp_bind_Val no_control_def s3_def [symmetric] dest: outside_refuse)
      then show ?thesis using keep o3 by simp
    next
      case (Some q)
      then have q: "control_checks now inp client tid t' q s3 = Val (Done s')"
        using r g n True by (simp add: parse_control_def no_control_def s3_def)
      then obtain c where c: "st_clientHeap s client = Some c"
        using e3 by (cases "st_clientHeap s client") (auto simp: control_checks_def)
      consider (same) "outside s' = outside s3"
        | (call) blob pkg s4 where "control_body inp q c = Done blob" "getPackage (cr_cp q) s3 = Some pkg"
            "pk_mimeType pkg = cr_mimeType q" "onTx t' (startTimer now) s3 = Val s4"
            "s' = s4\<lparr>st_calls := st_calls s4 @ [PackageControl (pk_name pkg) client tid blob]\<rparr>"
        using q c e3(1)
        by (auto simp: control_checks_def cpp_bind_Val split: if_splits option.splits outcome.splits
            dest: outside_answer)
      then show ?thesis
      proof cases
        case same
        then show ?thesis using keep o3 by simp
      next
        case call
        note o4 = outside_onTx [OF call(4)]
        have "authentic s' = authentic s" "st_calls s4 = st_calls s"
          using call(5) authentic_outside [OF o4] authentic_outside [OF o3] by (auto simp: authentic_def fun_eq_iff)
        with call c Some g True e3(3) show ?thesis by simp
      qed
    qed
  qed
qed

lemma parseMessage_request:
  assumes "parseMessage bx now inp client message s = Val (Done s')"
  obtains "s' = s" | line ls request tid c where "bx_tokens bx crlf message = line # ls"
    "parse_header bx line = Some (Done (request, tid))" "st_clientHeap s client = Some c"
    "parse_request bx now inp client c request tid ls s = Val (Done s')"
  using assms by (auto simp: parseMessage_def split: if_splits list.splits option.splits outcome.splits prod.splits)

text \<open>
  C2. A connection becomes authenticated in one way only: it sends a SYNC whose Dialog-ID header is
  the identifier that was negotiated for it over SIP. No message authenticates anybody else.
\<close>

theorem authentication_needs_dialog_id:
  assumes "parseMessage bx now inp client message s = Val (Done s')"
    and "st_clientHeap s p = Some c" and "\<not> cl_authenticated c"
    and "st_clientHeap s' p = Some d" and "cl_authenticated d"
  shows "p = client \<and> (\<exists>line ls tid r. bx_tokens bx crlf message = line # ls \<and>
     parse_header bx line = Some (Done (''SYNC'', tid)) \<and> sync_lines bx ls no_sync = Some r \<and>
     sy_dialogid r = cl_dialogId c \<and> sy_dialogid r \<noteq> '''')"
proof -
  have ch: "authentic s' p \<noteq> authentic s p" using assms(2-5) by (simp add: authentic_def)
  from assms(1) show ?thesis
  proof (cases rule: parseMessage_request)
    case 1
    with ch show ?thesis by simp
  next
    case (2 line ls request tid c')
    have "request = ''SYNC''"
    proof (rule ccontr)
      assume n: "request \<noteq> ''SYNC''"
      have "authentic s' = authentic s"
        using 2(4) n
        by (auto simp: parse_request_def returned_def cpp_bind_Val split: if_splits
            dest!: outside_answer_new outside_parse_200 outside_parse_other authentic_outside
              authentic_kalive parse_control_effect)
      with ch show False by simp
    qed
    moreover from this have "parse_sync bx now client tid ls s = Val s'"
      using 2(4) by (auto simp: parse_request_def returned_def cpp_bind_Val split: if_splits)
    ultimately show ?thesis using parse_sync_effect [of bx now client tid ls s s'] ch 2 assms(2)
      by (auto split: if_splits)
  qed
qed

text \<open>
  C1. A package is asked to do something only by a proper CONTROL request: from an authenticated
  connection, for a transaction identifier that is not in use, naming a loaded package and that
  package's content type; it is then called exactly once, with the body that was announced.
\<close>

theorem control_dispatch:
  assumes "parseMessage bx now inp client message s = Val (Done s')" and "st_calls s' \<noteq> st_calls s"
  shows "\<exists>line ls tid c q pkg blob. bx_tokens bx crlf message = line # ls \<and>
     parse_header bx line = Some (Done (''CONTROL'', tid)) \<and>
     st_clientHeap s client = Some c \<and> cl_authenticated c \<and> fst (getTransaction tid s) = NULL \<and>
     control_lines bx ls no_control = Some q \<and> getPackage (cr_cp q) s = Some pkg \<and>
     pk_mimeType pkg = cr_mimeType q \<and> control_body inp q c = Done blob \<and>
     st_calls s' = st_calls s @ [PackageControl (pk_name pkg) client tid blob]"
  using assms(1)
proof (cases rule: parseMessage_request)
  case 1
  with assms(2) show ?thesis by simp
next
  case (2 line ls request tid c)
  have r: "request = ''CONTROL'' \<and> cl_authenticated c"
  proof (rule ccontr)
    assume n: "\<not> (request = ''CONTROL'' \<and> cl_authenticated c)"
    have "st_calls s' = st_calls s"
      using 2(4) n
      by (auto simp: parse_request_def returned_def cpp_bind_Val split: if_splits
          dest!: outside_answer_new outside_parse_200 outside_parse_other authentic_outside
            authentic_kalive parse_sync_effect)
    with assms(2) show False by simp
  qed
  then have "parse_control bx now inp client tid ls s = Val (Done s')"
    using 2(4) by (auto simp: parse_request_def split: if_splits)
  from parse_control_effect [OF this] assms(2) 2(3) obtain q pkg blob where
    "fst (getTransaction tid s) = NULL" "control_lines bx ls no_control = Some q" "getPackage (cr_cp q) s = Some pkg"
    "pk_mimeType pkg = cr_mimeType q" "control_body inp q c = Done blob"
    "st_calls s' = st_calls s @ [PackageControl (pk_name pkg) client tid blob]" by auto
  with 2(1-3) r show ?thesis by blast
qed

text \<open>A stack with one package and one client, and a matcher for two fixed messages.\<close>

lemma rx_distinct:
  "rx_dialog \<noteq> rx_header" "rx_keepalive \<noteq> rx_header" "rx_packages \<noteq> rx_header" "rx_length \<noteq> rx_header"
  "rx_type \<noteq> rx_header" "rx_cp \<noteq> rx_header"
  by (simp_all add: rx_dialog_def rx_keepalive_def rx_packages_def rx_length_def rx_type_def rx_cp_def rx_header_def)

definition demo_sync :: boost where
  "demo_sync = \<lparr>
     bx_match = (\<lambda>p x. if p = rx_header then Some [x, x, ''a'', ''SYNC''] else Some [x, ''d'']),
     bx_tokens = (\<lambda>p x. [''CFW a SYNC'', ''Dialog-ID: d'', ''''])\<rparr>"

definition demo_control :: boost where
  "demo_control = \<lparr>
     bx_match = (\<lambda>p x.
       if p = rx_header then Some [x, x, ''b'', ''CONTROL'']
       else if x = ''C'' then (if p = rx_cp then Some [x, ''ivr'', ''ivr''] else None)
       else if x = ''T'' then (if p = rx_type then Some [x, ''xml''] else None)
       else if x = ''L'' \<and> p = rx_length then Some [x, ''3'']
       else None),
     bx_tokens = (\<lambda>p x. [''X'', ''C'', ''T'', ''L'', ''''])\<rparr>"

definition demo_client :: client where
  "demo_client = setFd 7 False 0 (setDialog ''call'' ''d'' (newClient False ''''))"

definition demo_stack :: "client \<Rightarrow> stack" where
  "demo_stack c = (newStack ''h'' 5 True)\<lparr>
     st_packages := [\<lparr>pk_name = ''ivr'', pk_version = ''1.0'', pk_desc = '''', pk_mimeType = ''xml'', pk_info = ''''\<rparr>],
     st_clients := [1], st_clientHeap := [1 \<mapsto> c], st_next := 2\<rparr>"

lemma upper_demo: "map to_upper ''SYNC'' = ''SYNC''" "map to_upper ''CONTROL'' = ''CONTROL''"
  by code_simp+

lemma demo_client_dialog: "cl_dialogId demo_client = ''d''" "\<not> cl_authenticated demo_client" "cl_fd demo_client = 7"
  by (simp_all add: demo_client_def setFd_def startCounter_def resetCounter_def setDialog_def newClient_def)

lemma demo_sync_result:
  "\<exists>s'. parseMessage demo_sync 0 [] 1 '''' (demo_stack demo_client) = Val (Done s') \<and> authentic s' 1 = Some True"
proof -
  have h: "parse_header demo_sync ''CFW a SYNC'' = Some (Done (''SYNC'', ''a''))"
    using upper_demo by (simp add: parse_header_def demo_sync_def sub_def)
  have l: "sync_lines demo_sync [''Dialog-ID: d'', ''''] no_sync = Some (no_sync\<lparr>sy_dialogid := ''d''\<rparr>)"
    by (simp add: demo_sync_def sub_def rx_distinct)
  have b: "bx_tokens demo_sync crlf '''' = [''CFW a SYNC'', ''Dialog-ID: d'', '''']"
    by (simp add: demo_sync_def)
  show ?thesis
    unfolding parseMessage_def b
    using demo_client_dialog l
    by (simp add: h parse_request_def returned_def parse_sync_def getTransaction_def smap_index_def
        newTx_def putTx_def onClient_def refuse_def answer_def onTx_def endDialog_def sync_checks_def
        no_sync_def [symmetric] authentic_def setAuthenticated_def demo_stack_def newStack_def Let_def
        del: sync_lines.simps) (simp add: no_sync_def)
qed

theorem authentication_needs_dialog_id_witness:
  "\<exists>s' ls tid r. parseMessage demo_sync 0 [] 1 '''' (demo_stack demo_client) = Val (Done s') \<and>
     authentic s' 1 = Some True \<and> parse_header demo_sync ''CFW a SYNC'' = Some (Done (''SYNC'', tid)) \<and>
     sync_lines demo_sync ls no_sync = Some r \<and> sy_dialogid r = ''d''"
proof -
  obtain s' where s': "parseMessage demo_sync 0 [] 1 '''' (demo_stack demo_client) = Val (Done s')" "authentic s' 1 = Some True"
    using demo_sync_result by blast
  obtain d where d: "st_clientHeap s' 1 = Some d" "cl_authenticated d" using s'(2) by (auto simp: authentic_def)
  have c: "st_clientHeap (demo_stack demo_client) 1 = Some demo_client" by (simp add: demo_stack_def)
  obtain line ls tid r where r: "bx_tokens demo_sync crlf '''' = line # ls" "parse_header demo_sync line = Some (Done (''SYNC'', tid))"
      "sync_lines demo_sync ls no_sync = Some r" "sy_dialogid r = ''d''"
    using authentication_needs_dialog_id [OF s'(1) c demo_client_dialog(2) d] demo_client_dialog(1) by auto
  have "line = ''CFW a SYNC''" using r(1) by (simp add: demo_sync_def)
  with r s' show ?thesis by blast
qed

lemma demo_control_result:
  "\<exists>s'. parseMessage demo_control 0 [''ab'', ''cd''] 1 '''' (demo_stack (setAuthenticated demo_client)) = Val (Done s') \<and>
     length (st_calls s') = 1"
proof -
  have h: "parse_header demo_control ''X'' = Some (Done (''CONTROL'', ''b''))"
    using upper_demo by (simp add: parse_header_def demo_control_def sub_def)
  have neq: "rx_length \<noteq> rx_cp" "rx_type \<noteq> rx_cp" "rx_length \<noteq> rx_type" "rx_cp \<noteq> rx_length" "rx_cp \<noteq> rx_type" "rx_type \<noteq> rx_length"
    by (simp_all add: rx_length_def rx_cp_def rx_type_def)
  have l: "control_lines demo_control [''C'', ''T'', ''L'', ''''] no_control =
      Some \<lparr>cr_cp = ''ivr'', cr_content = ''3'', cr_mimeType = ''xml''\<rparr>"
    using neq by (simp add: demo_control_def sub_def rx_distinct no_control_def)
  have a: "atoi ''3'' = 3" by code_simp
  have g: "getContent True 3 [''ab'', ''cd''] (setAuthenticated demo_client) = Some (''abc'', [''d''])"
    using demo_client_dialog(3) by (simp add: getContent_def setAuthenticated_def c_string_def)
  have b: "bx_tokens demo_control crlf '''' = [''X'', ''C'', ''T'', ''L'', '''']"
    by (simp add: demo_control_def)
  have au: "cl_authenticated (setAuthenticated demo_client)" by (simp add: setAuthenticated_def)
  show ?thesis
    unfolding parseMessage_def b
    using l a g au
    by (simp add: h parse_request_def returned_def parse_control_def getTransaction_def smap_index_def
        newTx_def putTx_def onTx_def control_checks_def control_body_def getPackage_def
        no_control_def [symmetric] demo_stack_def newStack_def Let_def
        del: control_lines.simps recv_content.simps)
qed

theorem control_dispatch_witness:
  "\<exists>s' tid name blob. parseMessage demo_control 0 [''ab'', ''cd''] 1 '''' (demo_stack (setAuthenticated demo_client)) = Val (Done s') \<and>
     st_calls s' = [PackageControl name 1 tid blob]"
proof -
  obtain s' where s': "parseMessage demo_control 0 [''ab'', ''cd''] 1 '''' (demo_stack (setAuthenticated demo_client)) = Val (Done s')"
      "length (st_calls s') = 1"
    using demo_control_result by blast
  have "st_calls (demo_stack (setAuthenticated demo_client)) = []" by (simp add: demo_stack_def newStack_def)
  moreover from this s'(2) have "st_calls s' \<noteq> st_calls (demo_stack (setAuthenticated demo_client))" by auto
  ultimately show ?thesis using control_dispatch [OF s'(1)] s'(1) by auto
qed

end
