(* ===== verification/RtpChannel.thy ===== *)
theory RtpChannel
  imports UlawCodec AlawCodec "HOL-Library.Signed_Division"
begin

text \<open>
  \<open>src/MediaCtrlRtp.cxx\<close>: class \<open>MediaCtrlRtpChannel\<close>, one media channel of a call. The oRTP
  session is not part of the repository: what it hands to the channel (received packets, the
  payload type it reports, the port it bound) is an argument, what the channel hands to it is
  returned as a list of \<open>rtp_out\<close>. The calls to the manager (the SIP transaction) are returned
  as a list of \<open>rtp_note\<close>, in order. A codec instance is the record of what the channel calls:
  its id, whether it has started, what \<open>start()\<close> answers, and its two frame routines; memory
  is taken to be available.
\<close>

subsection \<open>State\<close>

record chan_codec =
  cc_id :: int
  cc_started :: bool
  cc_start :: bool
  cc_settings :: "(string \<times> string) list"
  cc_encode :: "frame option \<Rightarrow> int \<Rightarrow> frame option cpp"
  cc_decode :: "frame option \<Rightarrow> int \<Rightarrow> frame option cpp"

abbreviation (input) MEDIACTRL_SENDRECV :: int where "MEDIACTRL_SENDRECV \<equiv> 0"
abbreviation (input) MEDIACTRL_INACTIVE :: int where "MEDIACTRL_INACTIVE \<equiv> 3"

record rtp =
  rtp_media :: int
  rtp_pt :: int
  rtp_clockrate :: int
  rtp_timing :: u32
  rtp_flags :: u32
  rtp_srcPort :: u16
  rtp_dstIp :: string
  rtp_dstPort :: u16
  rtp_direction :: int
  rtp_label :: string
  rtp_codec :: "chan_codec option"
  rtp_manager :: ptr
  rtp_lastIncomingTs :: u32
  rtp_num :: u32
  rtp_tones :: "int list"
  rtp_locked :: bool
  rtp_lockOwner :: ptr
  rtp_packets :: "u8 list list"
  rtp_packetLens :: "int list"
  rtp_alive :: bool
  rtp_active :: bool

text \<open>Calls to the manager, and packets handed to oRTP: with a timestamp only, or with a marker bit too.\<close>

datatype rtp_note =
    PayloadTypeChanged int
  | IncomingFrame frame
  | IncomingDtmf int
  | ChannelLocked
  | ChannelUnlocked
  | ChannelClosed string

datatype rtp_out =
    SendWithTs "u8 list" int u32
  | SendMarked bool "u8 list" int u32

type_synonym rtp_result = "(rtp \<times> rtp_note list \<times> rtp_out list) cpp"

text \<open>
  The constructor, with the port oRTP bound and the random label. \<open>clockrate\<close>, \<open>timing\<close> and
  \<open>flags\<close> are only set for audio, and \<open>rtpManager\<close> is not set at all before \<open>setManager\<close>; such
  fields start at 0 here.
\<close>

definition newRtp :: "int \<Rightarrow> u16 \<Rightarrow> string \<Rightarrow> rtp" where
  "newRtp media port label =
     \<lparr>rtp_media = media, rtp_pt = 0,
      rtp_clockrate = (if media = MEDIACTRL_MEDIA_AUDIO then 160 else 0),
      rtp_timing = (if media = MEDIACTRL_MEDIA_AUDIO then 20000 else 0),
      rtp_flags = 0, rtp_srcPort = port, rtp_dstIp = '''', rtp_dstPort = 0,
      rtp_direction = MEDIACTRL_SENDRECV, rtp_label = label, rtp_codec = None,
      rtp_manager = NULL, rtp_lastIncomingTs = 0, rtp_num = 0, rtp_tones = [],
      rtp_locked = False, rtp_lockOwner = NULL, rtp_packets = [], rtp_packetLens = [],
      rtp_alive = False, rtp_active = False\<rparr>"

definition rtp_notify :: "rtp \<Rightarrow> rtp_note \<Rightarrow> rtp_note list" where
  "rtp_notify c n = (if rtp_manager c \<noteq> NULL then [n] else [])"

text \<open>The destructor tells the manager which label is gone.\<close>

definition rtp_destroy :: "rtp \<Rightarrow> rtp_note list" where
  "rtp_destroy c = rtp_notify c (ChannelClosed (rtp_label c))"

subsection \<open>Setting the channel up\<close>

text \<open>
  \<open>setPeer\<close>; the thread starts when the first peer is set, which is the second component.
\<close>

definition setPeer :: "string \<Rightarrow> u16 \<Rightarrow> rtp \<Rightarrow> rtp \<times> bool" where
  "setPeer ip port c =
     (if ip = rtp_dstIp c \<and> port = rtp_dstPort c then (c, False)
      else (c\<lparr>rtp_dstIp := ip, rtp_dstPort := port\<rparr>, rtp_dstPort c = 0))"

text \<open>What the thread does when it starts: the channel is alive and asleep, awake or not before.\<close>

definition rtp_start :: "rtp \<Rightarrow> rtp" where
  "rtp_start c = c\<lparr>rtp_alive := True, rtp_active := False\<rparr>"

text \<open>
  \<open>setPayloadType\<close>. \<open>mk\<close> is \<open>rtpManager->createCodec\<close>. An existing codec is kept whatever the
  new payload type is. A codec that does not start is deleted.
\<close>

definition start_codec :: "chan_codec \<Rightarrow> rtp \<Rightarrow> rtp" where
  "start_codec cd c =
     (if cc_started cd then c\<lparr>rtp_codec := Some cd\<rparr>
      else if \<not> cc_start cd then c\<lparr>rtp_codec := None\<rparr>
      else if cc_id cd = MEDIACTRL_CODEC_H264 then
        c\<lparr>rtp_codec := Some (cd\<lparr>cc_started := True,
            cc_settings := cc_settings cd @ [(''frametype'', ''CIF'')]\<rparr>),
          rtp_flags := MEDIACTRL_FLAG_CIF\<rparr>
      else c\<lparr>rtp_codec := Some (cd\<lparr>cc_started := True\<rparr>)\<rparr>)"

definition codec_or_new :: "(int \<Rightarrow> chan_codec option cpp) \<Rightarrow> int \<Rightarrow> rtp \<Rightarrow> chan_codec option cpp" where
  "codec_or_new mk pt c = (case rtp_codec c of None \<Rightarrow> mk pt | Some cd \<Rightarrow> Val (Some cd))"

definition setPayloadType ::
    "(int \<Rightarrow> chan_codec option cpp) \<Rightarrow> int \<Rightarrow> rtp \<Rightarrow> (rtp \<times> rtp_note list) cpp" where
  "setPayloadType mk pt c =
     (let c1 = c\<lparr>rtp_pt := pt\<rparr> in
      if rtp_manager c \<noteq> NULL \<and> rtp_media c = MEDIACTRL_MEDIA_AUDIO then
        cpp_bind (codec_or_new mk pt c)
          (\<lambda>r. case r of
             None \<Rightarrow> Val (c1, [])
           | Some cd \<Rightarrow> Val (start_codec cd c1, [PayloadTypeChanged pt]))
      else Val (c1, rtp_notify c1 (PayloadTypeChanged pt)))"

text \<open>The oRTP callback: \<open>recv_pt\<close> is what \<open>rtp_session_get_recv_payload_type\<close> returns.\<close>

definition rtp_pt_changed ::
    "(int \<Rightarrow> chan_codec option cpp) \<Rightarrow> int \<Rightarrow> int \<Rightarrow> rtp \<Rightarrow> (rtp \<times> rtp_note list) cpp" where
  "rtp_pt_changed mk pt recv_pt c =
     (if pt = 101 then Val (c, []) else if 127 < pt then Val (c, []) else setPayloadType mk recv_pt c)"

definition setDirection :: "int \<Rightarrow> rtp \<Rightarrow> rtp \<times> bool" where
  "setDirection d c =
     (if d < MEDIACTRL_SENDRECV \<or> d > MEDIACTRL_INACTIVE then (c, False)
      else (c\<lparr>rtp_direction := d\<rparr>, True))"

text \<open>
  \<open>addSetting\<close>: the tokens up to the first empty one, each matched against the attribute
  expression; the first \<open>QCIF\<close> or \<open>CIF\<close> decides the flags and the answer.
\<close>

definition rx_setting :: string where
  "rx_setting = ''('' @ bsl @ ''w+)|('' @ bsl @ ''w+)'' @ bsl @ ''=(('' @ bsl @ ''w|'' @ bsl @ '',)+)''"

definition setting_name :: "boost \<Rightarrow> string \<Rightarrow> string option" where
  "setting_name bx fmt = (case bx_match bx rx_setting fmt of
     None \<Rightarrow> None
   | Some ms \<Rightarrow> Some (if sub ms 1 \<noteq> '''' then sub ms 1 else sub ms 2))"

fun settings_loop :: "boost \<Rightarrow> string list \<Rightarrow> bool \<Rightarrow> u32 \<Rightarrow> string \<Rightarrow> u32 \<times> string" where
  "settings_loop bx [] changed fl res = (fl, res)"
| "settings_loop bx (fmt # toks) changed fl res =
     (if fmt = '''' then (fl, res)
      else case setting_name bx fmt of
        None \<Rightarrow> settings_loop bx toks changed fl res
      | Some v1 \<Rightarrow>
          if v1 = ''QCIF'' \<and> \<not> changed
          then settings_loop bx toks True MEDIACTRL_FLAG_QCIF (res @ ''QCIF=2'')
          else if v1 = ''CIF'' \<and> \<not> changed
          then settings_loop bx toks True MEDIACTRL_FLAG_CIF (res @ ''CIF=2'')
          else settings_loop bx toks changed fl res)"

definition addSetting :: "boost \<Rightarrow> string \<Rightarrow> rtp \<Rightarrow> rtp \<times> string" where
  "addSetting bx v c =
     (let sep = (if str_find v '' '' 0 \<noteq> None then '' '' else '';'');
          (fl, res) = settings_loop bx (bx_tokens bx sep v) False (rtp_flags c) ''''
      in (c\<lparr>rtp_flags := fl\<rparr>, res))"

subsection \<open>The clock\<close>

text \<open>C's division of two \<open>int\<close>s, undefined for a zero divisor.\<close>

definition c_div :: "int \<Rightarrow> int \<Rightarrow> int cpp" where
  "c_div a b = (if b = 0 then Undef else Val (a sdiv b))"

text \<open>\<open>(1000/(base/clockrate))*1000\<close>, in microseconds.\<close>

definition frame_timing :: "int \<Rightarrow> int \<Rightarrow> u32 cpp" where
  "frame_timing base clockrate =
     cpp_bind (c_div base clockrate)
       (\<lambda>q. cpp_bind (c_div 1000 q) (\<lambda>t. Val (word_of_int (t * 1000))))"

definition add_codec_setting :: "string \<Rightarrow> string \<Rightarrow> chan_codec \<Rightarrow> chan_codec" where
  "add_codec_setting k v cd = cd\<lparr>cc_settings := cc_settings cd @ [(k, v)]\<rparr>"

definition video_settings :: "u32 \<Rightarrow> string \<Rightarrow> chan_codec \<Rightarrow> u32 \<times> chan_codec" where
  "video_settings fl fps cd =
     (let cd1 = add_codec_setting ''fps'' fps cd;
          fl1 = (if cc_id cd1 = MEDIACTRL_CODEC_H264 then MEDIACTRL_FLAG_CIF else fl);
          cd2 = (if fl1 AND MEDIACTRL_FLAG_QCIF \<noteq> 0 then add_codec_setting ''frametype'' ''QCIF'' cd1
                 else if fl1 AND MEDIACTRL_FLAG_CIF \<noteq> 0
                 then add_codec_setting ''frametype'' ''CIF'' cd1 else cd1)
      in (fl1, cd2))"

definition setClockRate ::
    "(int \<Rightarrow> chan_codec option cpp) \<Rightarrow> int \<Rightarrow> rtp \<Rightarrow> rtp cpp" where
  "setClockRate mk clockrate c =
     (let c1 = c\<lparr>rtp_clockrate := clockrate\<rparr> in
      if rtp_media c = MEDIACTRL_MEDIA_AUDIO then
        cpp_bind (frame_timing 8000 clockrate) (\<lambda>t. Val (c1\<lparr>rtp_timing := t\<rparr>))
      else if rtp_manager c \<noteq> NULL then
        cpp_bind (codec_or_new mk (rtp_pt c) c) (\<lambda>r. case r of
          None \<Rightarrow> Val c1
        | Some cd \<Rightarrow>
            cpp_bind (c_div 90000 clockrate) (\<lambda>q.
              let fps = dec_int q in
              cpp_bind (c_div 90000 (atoi fps)) (\<lambda>rate.
                cpp_bind (frame_timing 90000 rate) (\<lambda>t.
                  let (fl, cd2) = video_settings (rtp_flags c) fps cd;
                      c2 = c1\<lparr>rtp_timing := t, rtp_flags := fl\<rparr>
                  in Val (c2\<lparr>rtp_codec :=
                       (if cc_started cd2 then Some cd2
                        else if cc_start cd2 then Some (cd2\<lparr>cc_started := True\<rparr>)
                        else None)\<rparr>)))))
      else Val c1)"

subsection \<open>Locking\<close>

definition rtp_lock :: "ptr \<Rightarrow> rtp \<Rightarrow> rtp \<times> rtp_note list" where
  "rtp_lock owner c =
     (if rtp_locked c then (c, [])
      else if owner = NULL then (c, [])
      else (c\<lparr>rtp_locked := True, rtp_lockOwner := owner\<rparr>, rtp_notify c ChannelLocked))"

definition rtp_unlock :: "ptr \<Rightarrow> rtp \<Rightarrow> rtp \<times> rtp_note list" where
  "rtp_unlock owner c =
     (if \<not> rtp_locked c then (c, [])
      else if owner \<noteq> rtp_lockOwner c then (c, [])
      else (c\<lparr>rtp_locked := False, rtp_lockOwner := NULL\<rparr>, rtp_notify c ChannelUnlocked))"

subsection \<open>DTMF tones\<close>

definition rtp_clearDtmfBuffer :: "rtp \<Rightarrow> rtp" where
  "rtp_clearDtmfBuffer c = c\<lparr>rtp_tones := []\<rparr>"

definition rtp_getNextDtmfBuffer :: "rtp \<Rightarrow> rtp \<times> int" where
  "rtp_getNextDtmfBuffer c =
     (case rtp_tones c of [] \<Rightarrow> (c, -1) | t # ts \<Rightarrow> (c\<lparr>rtp_tones := ts\<rparr>, t))"

definition rtp_incomingDtmf :: "int \<Rightarrow> rtp \<Rightarrow> rtp \<times> rtp_note list" where
  "rtp_incomingDtmf t c = (c\<lparr>rtp_tones := rtp_tones c @ [t]\<rparr>, rtp_notify c (IncomingDtmf t))"

definition rtp_wakeUp :: "bool \<Rightarrow> rtp \<Rightarrow> rtp" where
  "rtp_wakeUp doIt c = (if doIt then c\<lparr>rtp_active := True\<rparr> else c\<lparr>rtp_active := False\<rparr>)"

subsection \<open>Incoming media\<close>

text \<open>
  \<open>incomingFrame\<close>; \<open>p\<close> is the address of the frame, which the decoded frame refers to, and
  \<open>tod\<close> the time of day.
\<close>

definition rtp_incomingFrame :: "ptr \<Rightarrow> frame \<Rightarrow> int \<Rightarrow> rtp \<Rightarrow> rtp_note list cpp" where
  "rtp_incomingFrame p f tod c =
     (case rtp_codec c of
        None \<Rightarrow> Val (rtp_notify c (IncomingFrame f))
      | Some cd \<Rightarrow> cpp_bind (cc_decode cd (Some f) tod) (\<lambda>d. case d of
            None \<Rightarrow> Val []
          | Some g \<Rightarrow> Val (rtp_notify c (IncomingFrame (g\<lparr>fr_original := p\<rparr>)))))"

text \<open>
  \<open>incomingData\<close>. \<open>new\<close> gives the addresses of the frames it allocates, which it returns. The
  loop over the queued packets makes the first one the main frame and appends the others.
\<close>

definition rtp_frame :: "rtp \<Rightarrow> u8 list \<Rightarrow> int \<Rightarrow> int \<Rightarrow> frame cpp" where
  "rtp_frame c buf len tod =
     cpp_bind (newFrameBuf (rtp_media c) buf len (rtp_pt c) tod)
       (\<lambda>f. Val (f\<lparr>fr_who := ALLOC_RTP\<rparr>))"

fun append_packets ::
    "rtp \<Rightarrow> int \<Rightarrow> ptr list \<Rightarrow> u8 list list \<Rightarrow> int list \<Rightarrow> frame \<Rightarrow> (frame \<times> (ptr \<times> frame) list) cpp" where
  "append_packets c tod (p # new) (b # bs) (l # ls) main =
     cpp_bind (rtp_frame c b l tod)
       (\<lambda>f. cpp_bind (append_packets c tod new bs ls (appendFrame main p))
          (\<lambda>(m, os). Val (m, (p, f) # os)))"
| "append_packets c tod new [] ls main = Val (main, [])"
| "append_packets c tod new bs ls main = Undef"

definition build_frame ::
    "rtp \<Rightarrow> int \<Rightarrow> ptr list \<Rightarrow> u8 list list \<Rightarrow> int list \<Rightarrow> (frame \<times> (ptr \<times> frame) list) cpp" where
  "build_frame c tod new bs ls =
     (case (bs, ls) of
        (b # bs', l # ls') \<Rightarrow> cpp_bind (rtp_frame c b l tod) (append_packets c tod new bs' ls')
      | _ \<Rightarrow> Undef)"

definition incomingData ::
    "u8 list \<Rightarrow> bool \<Rightarrow> ptr \<Rightarrow> ptr list \<Rightarrow> int \<Rightarrow> rtp \<Rightarrow> (rtp \<times> rtp_note list \<times> (ptr \<times> frame) list) cpp" where
  "incomingData buf marker p new tod c =
     (let len = int (length buf) in
      if buf = [] then Val (c, [], [])
      else if marker then
        (if rtp_packets c = [] then
           cpp_bind (rtp_frame c buf len tod) (\<lambda>f.
             cpp_bind (rtp_incomingFrame p f tod c) (\<lambda>ns. Val (c, ns, [(p, f)])))
         else
           cpp_bind (build_frame c tod new (rtp_packets c @ [buf]) (rtp_packetLens c @ [len]))
             (\<lambda>(f, os).
               let c1 = c\<lparr>rtp_packets := [], rtp_packetLens := []\<rparr> in
               cpp_bind (rtp_incomingFrame p f tod c1) (\<lambda>ns. Val (c1, ns, (p, f) # os))))
      else Val (c\<lparr>rtp_packets := rtp_packets c @ [buf],
                  rtp_packetLens := rtp_packetLens c @ [len]\<rparr>, [], []))"

text \<open>
  One round of the thread, awake: \<open>rs\<close> is what successive calls of
  \<open>rtp_session_recv_with_ts\<close> give, the bytes received and \<open>have_more\<close>; both buffers hold 5000
  bytes. A call that receives nothing ends the inner loop.
\<close>

fun recv_all :: "(u8 list \<times> bool) list \<Rightarrow> u8 list \<Rightarrow> u8 list cpp" where
  "recv_all [] acc = Val acc"
| "recv_all ((b, hm) # rs) acc =
     (if b = [] then Val acc
      else if 5000 < length b \<or> 5000 < length acc + length b then Undef
      else if hm then recv_all rs (acc @ b) else Val (acc @ b))"

definition rtp_round ::
    "(u8 list \<times> bool) list \<Rightarrow> ptr \<Rightarrow> int \<Rightarrow> rtp \<Rightarrow> (rtp \<times> rtp_note list \<times> (ptr \<times> frame) list) cpp" where
  "rtp_round rs p tod c =
     (if \<not> rtp_active c \<or> \<not> rtp_alive c then Val (c, [], [])
      else if rtp_media c = MEDIACTRL_MEDIA_AUDIO then
        cpp_bind (recv_all rs []) (\<lambda>buf. incomingData buf True p [] tod c)
      else Val (c, [], []))"

subsection \<open>Outgoing media\<close>

text \<open>
  The timestamp part of \<open>sendFrame\<close> at \<open>now\<close> milliseconds, all in 32 bits: the channel with
  \<open>num\<close> and \<open>lastIncomingTs\<close> brought forward, and \<open>t\<close>.
\<close>

definition rtp_timestamp :: "u32 \<Rightarrow> rtp \<Rightarrow> (rtp \<times> u32) cpp" where
  "rtp_timestamp now c =
     (let c1 = (if rtp_lastIncomingTs c = 0 then c\<lparr>rtp_lastIncomingTs := now - 1\<rparr> else c);
          step = rtp_timing c1 div 1000
      in if rtp_lastIncomingTs c1 < now then
           (if step = 0 then Undef
            else let t = (now - rtp_lastIncomingTs c1) div step in
              if t < 5 then
                Val (c1\<lparr>rtp_num := rtp_num c1 + word_of_int (rtp_clockrate c1),
                       rtp_lastIncomingTs := rtp_lastIncomingTs c1 + step\<rparr>, 1)
              else
                Val (c1\<lparr>rtp_num := rtp_num c1 + t * word_of_int (rtp_clockrate c1),
                       rtp_lastIncomingTs := now\<rparr>, t))
         else Val (c1, 0))"

text \<open>
  Which packets leave: one for audio, otherwise the frame and then its appended frames, the last
  one marked. \<open>fs\<close> gives the frame at an address; a NULL buffer there is an empty payload.
\<close>

definition frame_bytes :: "frame \<Rightarrow> u8 list" where
  "frame_bytes f = (case fr_buffer f of None \<Rightarrow> [] | Some b \<Rightarrow> b)"

fun send_appended :: "(ptr \<Rightarrow> frame) \<Rightarrow> u32 \<Rightarrow> ptr list \<Rightarrow> rtp_out list" where
  "send_appended fs ts [] = []"
| "send_appended fs ts (p # ps) =
     SendMarked (ps = []) (frame_bytes (fs p)) (fr_len (fs p)) ts # send_appended fs ts ps"

definition rtp_emit :: "(ptr \<Rightarrow> frame) \<Rightarrow> u32 \<Rightarrow> frame \<Rightarrow> rtp \<Rightarrow> rtp_out list" where
  "rtp_emit fs t f c =
     (if rtp_media c = MEDIACTRL_MEDIA_AUDIO then
        (if t = 1 then [SendWithTs (frame_bytes f) (fr_len f) (rtp_num c)]
         else [SendMarked True (frame_bytes f) (fr_len f) (rtp_num c)])
      else (case fr_frames f of
          None \<Rightarrow> [SendMarked True (frame_bytes f) (fr_len f) (rtp_num c)]
        | Some ps \<Rightarrow> SendMarked False (frame_bytes f) (fr_len f) (rtp_num c) #
                       send_appended fs (rtp_num c) ps))"

text \<open>
  What is sent: the frame itself when its format is the channel's payload type, a raw frame
  encoded when a started codec is there, otherwise nothing. A frame without a buffer is dropped.
\<close>

definition frame_to_send :: "frame \<Rightarrow> int \<Rightarrow> rtp \<Rightarrow> frame option cpp" where
  "frame_to_send f tod c =
     (if fr_format f = rtp_pt c then Val (Some f)
      else if fr_format f \<noteq> MEDIACTRL_RAW then Val None
      else case rtp_codec c of
          None \<Rightarrow> Val None
        | Some cd \<Rightarrow> if cc_started cd then cc_encode cd (Some f) tod else Val None)"

definition rtp_sendFrame :: "(ptr \<Rightarrow> frame) \<Rightarrow> frame option \<Rightarrow> u32 \<Rightarrow> int \<Rightarrow> rtp \<Rightarrow> rtp_result" where
  "rtp_sendFrame fs fo now tod c = (case fo of
     None \<Rightarrow> Val (c, [], [])
   | Some f \<Rightarrow>
       if rtp_dstPort c = 0 then Val (c, [], [])
       else if rtp_locked c \<and> fr_owner f \<noteq> rtp_lockOwner c then Val (c, [], [])
       else if fr_media f \<noteq> rtp_media c then Val (c, [], [])
       else
         let (c1, ns) = (if fr_type f = LOCKING_FRAME then rtp_lock (fr_owner f) c
                         else if fr_type f = UNLOCKING_FRAME then rtp_unlock (fr_owner f) c
                         else (c, []))
         in cpp_bind (frame_to_send f tod c1) (\<lambda>g. case g of
              None \<Rightarrow> Val (c1, ns, [])
            | Some g \<Rightarrow>
                if fr_buffer g = None then Val (c1, ns, [])
                else cpp_bind (rtp_timestamp now c1)
                       (\<lambda>(c2, t). Val (c2, ns, rtp_emit fs t g c2))))"

subsection \<open>Operations as steps\<close>

text \<open>Everything that reaches a live channel from the outside, one operation at a time.\<close>

datatype rtp_op =
    OpSend "frame option" u32 int
  | OpLock ptr
  | OpUnlock ptr
  | OpPeer string u16
  | OpPt int
  | OpDirection int
  | OpClockRate int
  | OpDtmf int
  | OpNextDtmf
  | OpClearDtmf
  | OpWakeUp bool

fun rtp_exec :: "(int \<Rightarrow> chan_codec option cpp) \<Rightarrow> (ptr \<Rightarrow> frame) \<Rightarrow> rtp_op \<Rightarrow> rtp \<Rightarrow> rtp_result" where
  "rtp_exec mk fs (OpSend f now tod) c = rtp_sendFrame fs f now tod c"
| "rtp_exec mk fs (OpLock o') c = (let (c1, ns) = rtp_lock o' c in Val (c1, ns, []))"
| "rtp_exec mk fs (OpUnlock o') c = (let (c1, ns) = rtp_unlock o' c in Val (c1, ns, []))"
| "rtp_exec mk fs (OpPeer ip port) c = Val (fst (setPeer ip port c), [], [])"
| "rtp_exec mk fs (OpPt pt) c = cpp_bind (setPayloadType mk pt c) (\<lambda>(c1, ns). Val (c1, ns, []))"
| "rtp_exec mk fs (OpDirection d) c = Val (fst (setDirection d c), [], [])"
| "rtp_exec mk fs (OpClockRate r) c = cpp_bind (setClockRate mk r c) (\<lambda>c1. Val (c1, [], []))"
| "rtp_exec mk fs (OpDtmf t) c = (let (c1, ns) = rtp_incomingDtmf t c in Val (c1, ns, []))"
| "rtp_exec mk fs OpNextDtmf c = Val (fst (rtp_getNextDtmfBuffer c), [], [])"
| "rtp_exec mk fs OpClearDtmf c = Val (rtp_clearDtmfBuffer c, [], [])"
| "rtp_exec mk fs (OpWakeUp b) c = Val (rtp_wakeUp b c, [], [])"

fun rtp_run :: "(int \<Rightarrow> chan_codec option cpp) \<Rightarrow> (ptr \<Rightarrow> frame) \<Rightarrow> rtp_op list \<Rightarrow> rtp \<Rightarrow> rtp_result" where
  "rtp_run mk fs [] c = Val (c, [], [])"
| "rtp_run mk fs (op # ops) c =
     cpp_bind (rtp_exec mk fs op c) (\<lambda>(c1, ns, os).
       cpp_bind (rtp_run mk fs ops c1) (\<lambda>(c2, ns', os'). Val (c2, ns @ ns', os @ os')))"

text \<open>Who an operation acts for, where that is checked against the lock.\<close>

fun acts_for :: "ptr \<Rightarrow> rtp_op \<Rightarrow> bool" where
  "acts_for o' (OpSend (Some f) now tod) \<longleftrightarrow> fr_owner f = o'"
| "acts_for o' (OpUnlock p) \<longleftrightarrow> p = o'"
| "acts_for o' op \<longleftrightarrow> False"

text \<open>The arguments for which an operation has a defined result on a channel held by another.\<close>

fun op_defined :: "(int \<Rightarrow> chan_codec option cpp) \<Rightarrow> rtp_op \<Rightarrow> bool" where
  "op_defined mk (OpPt pt) \<longleftrightarrow> mk pt \<noteq> Undef"
| "op_defined mk (OpClockRate r) \<longleftrightarrow> 1 \<le> r \<and> r \<le> 8000"
| "op_defined mk op \<longleftrightarrow> True"

subsection \<open>Who may use a locked channel\<close>

lemma frame_timing_defined: "1 \<le> r \<Longrightarrow> r \<le> 8000 \<Longrightarrow> \<exists>t. frame_timing 8000 r = Val t"
proof -
  assume r: "1 \<le> r" "r \<le> 8000"
  then have "1 \<le> 8000 div r"
    by (simp add: pos_imp_zdiv_pos_iff int_one_le_iff_zero_less)
  then show ?thesis
    using r by (simp add: frame_timing_def c_div_def signed_divide_int_def)
qed

lemma start_codec_keeps [simp]:
  "rtp_locked (start_codec cd c) = rtp_locked c"
  "rtp_lockOwner (start_codec cd c) = rtp_lockOwner c"
  "rtp_media (start_codec cd c) = rtp_media c"
  "rtp_pt (start_codec cd c) = rtp_pt c"
  "rtp_manager (start_codec cd c) = rtp_manager c"
  by (simp_all add: start_codec_def)

definition held_by :: "ptr \<Rightarrow> rtp \<Rightarrow> bool" where
  "held_by o' c \<longleftrightarrow> rtp_locked c \<and> rtp_lockOwner c = o' \<and> rtp_media c = MEDIACTRL_MEDIA_AUDIO"

lemma setPayloadType_held:
  assumes "mk pt \<noteq> Undef" and "held_by o' c"
  shows "\<exists>c' ns. setPayloadType mk pt c = Val (c', ns) \<and> held_by o' c'"
proof -
  have "\<exists>r. codec_or_new mk pt c = Val r"
    using assms(1) by (cases "mk pt") (auto simp: codec_or_new_def split: option.split)
  then obtain r where "codec_or_new mk pt c = Val r" ..
  with assms(2) show ?thesis
    by (auto simp: setPayloadType_def Let_def held_by_def split: option.splits)
qed

lemma rtp_exec_held:
  assumes "held_by o' c" and "\<not> acts_for o' op" and "op_defined mk op"
  shows "\<exists>c' ns. rtp_exec mk fs op c = Val (c', ns, []) \<and> held_by o' c'"
proof (cases op)
  case (OpSend f now tod)
  with assms(1,2) show ?thesis
    by (cases f) (auto simp: rtp_sendFrame_def held_by_def)
next
  case (OpPt pt)
  with assms(3) have "mk pt \<noteq> Undef" by simp
  with setPayloadType_held [where mk = mk and pt = pt and c = c and o' = o'] assms(1) OpPt
  show ?thesis by auto
next
  case (OpClockRate r)
  with assms(3) obtain t where "frame_timing 8000 r = Val t" using frame_timing_defined by force
  with assms(1) OpClockRate show ?thesis by (simp add: setClockRate_def held_by_def)
qed (use assms in \<open>auto simp: held_by_def rtp_lock_def rtp_unlock_def setPeer_def setDirection_def
      rtp_incomingDtmf_def rtp_getNextDtmfBuffer_def rtp_clearDtmfBuffer_def rtp_wakeUp_def
      split: list.splits\<close>)

text \<open>
  A locked audio channel belongs to whoever locked it: whatever operations others carry out
  on it, in any number and order (frames to send, attempts to lock or unlock, payload type,
  peer and clock changes), they all have a defined result, no packet of theirs leaves and the
  channel is still locked by the same owner.
\<close>

theorem lock_is_exclusive:
  assumes "rtp_locked c" and "rtp_media c = MEDIACTRL_MEDIA_AUDIO"
    and "\<forall>op\<in>set ops. \<not> acts_for (rtp_lockOwner c) op \<and> op_defined mk op"
  shows "\<exists>c' ns. rtp_run mk fs ops c = Val (c', ns, []) \<and> rtp_locked c' \<and>
     rtp_lockOwner c' = rtp_lockOwner c"
proof -
  have "\<exists>c' ns. rtp_run mk fs ops c = Val (c', ns, []) \<and> held_by o' c'"
    if "held_by o' c" and "\<forall>op\<in>set ops. \<not> acts_for o' op \<and> op_defined mk op" for o'
    using that
  proof (induction ops arbitrary: c)
    case (Cons op ops)
    from Cons.prems(2) have "\<not> acts_for o' op" and "op_defined mk op" by simp_all
    from rtp_exec_held [OF Cons.prems(1) this]
    obtain c1 ns where 1: "rtp_exec mk fs op c = Val (c1, ns, [])" and "held_by o' c1" by blast
    then have "held_by o' c1" by simp
    from Cons.IH [OF this] Cons.prems(2) 1 show ?case by auto
  qed simp
  from this [of "rtp_lockOwner c"] assms show ?thesis by (auto simp: held_by_def)
qed

theorem lock_is_exclusive_witness:
  "\<exists>c' ns. rtp_run (\<lambda>_. Val None) (\<lambda>_. newFrame 0 0)
     [OpSend (Some (newFrame 0 0)) 1000 0, OpUnlock 8, OpLock 8, OpPt 8, OpClockRate 160]
     (fst (rtp_lock 7 ((newRtp 0 4000 ''a'')\<lparr>rtp_dstPort := 5000\<rparr>))) = Val (c', ns, []) \<and>
   rtp_locked c' \<and> rtp_lockOwner c' = 7"
proof -
  let ?c = "fst (rtp_lock 7 ((newRtp 0 4000 ''a'')\<lparr>rtp_dstPort := 5000\<rparr>))"
  let ?ops = "[OpSend (Some (newFrame 0 0)) 1000 0, OpUnlock 8, OpLock 8, OpPt 8, OpClockRate 160]"
  have l: "rtp_locked ?c" "rtp_media ?c = MEDIACTRL_MEDIA_AUDIO" "rtp_lockOwner ?c = 7"
    by (simp_all add: rtp_lock_def newRtp_def)
  have "\<forall>op\<in>set ?ops. \<not> acts_for (rtp_lockOwner ?c) op \<and> op_defined (\<lambda>_. Val None) op"
    unfolding l(3) by (simp add: newFrame_def)
  from lock_is_exclusive [OF l(1,2) this] show ?thesis unfolding l(3) by blast
qed

subsection \<open>Timestamps of outgoing audio\<close>

definition ready :: "rtp \<Rightarrow> bool" where
  "ready c \<longleftrightarrow> rtp_media c = MEDIACTRL_MEDIA_AUDIO \<and> rtp_dstPort c \<noteq> 0 \<and> \<not> rtp_locked c \<and>
     rtp_timing c = 20000 \<and> rtp_clockrate c = 160"

definition passes :: "rtp \<Rightarrow> frame \<Rightarrow> bool" where
  "passes c f \<longleftrightarrow> fr_format f = rtp_pt c \<and> fr_media f = MEDIACTRL_MEDIA_AUDIO \<and>
     fr_type f = NORMAL_FRAME \<and> fr_buffer f \<noteq> None"

lemma sendFrame_passes:
  assumes "ready c" and "passes c f"
  shows "rtp_sendFrame fs (Some f) now tod c =
    cpp_bind (rtp_timestamp now c) (\<lambda>(c2, t). Val (c2, [], rtp_emit fs t f c2))"
  using assms by (auto simp: rtp_sendFrame_def ready_def passes_def frame_to_send_def)

lemma word_pred_less: "(w :: u32) \<noteq> 0 \<Longrightarrow> w - 1 < w"
  by (simp add: word_less_nat_alt measure_unat)

lemma u32_consts:
  "(20000 :: u32) div 1000 = 20" "(1 :: u32) div 20 = 0" "(20 :: u32) \<noteq> 0" "(0 :: u32) < 5"
  by simp_all

lemma timestamp_advances:
  assumes r: "ready c" and l: "rtp_lastIncomingTs c = now - 1" "rtp_lastIncomingTs c \<noteq> 0"
    and n: "now \<noteq> 0"
  shows "rtp_timestamp now c =
    Val (c\<lparr>rtp_num := rtp_num c + 160, rtp_lastIncomingTs := now - 1 + 20\<rparr>, 1)"
proof -
  have t: "rtp_timing c = 20000" "rtp_clockrate c = 160" using r by (simp_all add: ready_def)
  have less: "rtp_lastIncomingTs c < now" using word_pred_less [OF n] l(1) by simp
  have one: "now - rtp_lastIncomingTs c = 1" using l(1) by simp
  have c: "word_of_int 160 = (160 :: u32)" by simp
  show ?thesis
    unfolding rtp_timestamp_def Let_def if_not_P [OF l(2)] t u32_consts(1) if_P [OF less]
      if_not_P [OF u32_consts(3)] one u32_consts(2) if_P [OF u32_consts(4)] c
    unfolding l(1) ..
qed

lemma timestamp_first:
  "rtp_lastIncomingTs c = 0 \<Longrightarrow>
     rtp_timestamp now c = rtp_timestamp now (c\<lparr>rtp_lastIncomingTs := now - 1\<rparr>)"
  by (simp add: rtp_timestamp_def Let_def)

lemma timestamp_early:
  assumes "rtp_lastIncomingTs c \<noteq> 0" and "now \<le> rtp_lastIncomingTs c"
  shows "rtp_timestamp now c = Val (c, 0)"
proof -
  have "\<not> rtp_lastIncomingTs c < now" using assms(2) by simp
  with assms(1) show ?thesis by (simp add: rtp_timestamp_def Let_def)
qed

lemma timestamp_on_time:
  assumes r: "ready c" and l: "rtp_lastIncomingTs c = 0 \<or> rtp_lastIncomingTs c = now - 1"
    and n: "now \<noteq> 0" "now \<noteq> 1"
  shows "rtp_timestamp now c =
    Val (c\<lparr>rtp_num := rtp_num c + 160, rtp_lastIncomingTs := now - 1 + 20\<rparr>, 1)"
proof -
  have n1: "now - 1 \<noteq> 0" using n(2) by simp
  have "rtp_timestamp now (c\<lparr>rtp_lastIncomingTs := now - 1\<rparr>) =
      Val (c\<lparr>rtp_num := rtp_num c + 160, rtp_lastIncomingTs := now - 1 + 20\<rparr>, 1)"
    using timestamp_advances [of "c\<lparr>rtp_lastIncomingTs := now - 1\<rparr>" now] r n(1) n1
    by (simp add: ready_def)
  moreover have "rtp_timestamp now c = rtp_timestamp now (c\<lparr>rtp_lastIncomingTs := now - 1\<rparr>)"
    using l
  proof
    assume "rtp_lastIncomingTs c = now - 1"
    then have "c\<lparr>rtp_lastIncomingTs := now - 1\<rparr> = c" by (metis rtp.surjective rtp.update_convs(13))
    then show ?thesis by simp
  qed (rule timestamp_first)
  ultimately show ?thesis by simp
qed

lemma send_on_time:
  assumes "ready c" and "passes c f"
    and "rtp_lastIncomingTs c = 0 \<or> rtp_lastIncomingTs c = now - 1" and "now \<noteq> 0" "now \<noteq> 1"
  shows "rtp_sendFrame fs (Some f) now tod c =
    Val (c\<lparr>rtp_num := rtp_num c + 160, rtp_lastIncomingTs := now - 1 + 20\<rparr>, [],
      [SendWithTs (frame_bytes f) (fr_len f) (rtp_num c + 160)])"
  using assms(1)
  by (simp add: sendFrame_passes [OF assms(1,2)] timestamp_on_time [OF assms(1,3-5)]
      rtp_emit_def ready_def)

text \<open>The operations that send the frames \<open>fl\<close>, 20 ms apart from \<open>base\<close> on.\<close>

fun paced :: "u32 \<Rightarrow> int \<Rightarrow> frame list \<Rightarrow> rtp_op list" where
  "paced base tod [] = []"
| "paced base tod (f # fl) = OpSend (Some f) base tod # paced (base + 20) tod fl"

fun paced_out :: "u32 \<Rightarrow> frame list \<Rightarrow> rtp_out list" where
  "paced_out ts [] = []"
| "paced_out ts (f # fl) = SendWithTs (frame_bytes f) (fr_len f) (ts + 160) # paced_out (ts + 160) fl"

fun times_ok :: "u32 \<Rightarrow> frame list \<Rightarrow> bool" where
  "times_ok base [] \<longleftrightarrow> True"
| "times_ok base (f # fl) \<longleftrightarrow> base \<noteq> 0 \<and> base \<noteq> 1 \<and> times_ok (base + 20) fl"

text \<open>
  A stream that is paced every 20 ms: each frame in the channel's own format leaves as one
  unmarked packet with the frame's bytes, in order, and its timestamp is 160 above the one
  before, whatever the start time is, across the wrap-around of the 32-bit clock and timestamp.
\<close>

theorem paced_stream:
  assumes "ready c" and "\<forall>f\<in>set fl. passes c f"
    and "rtp_lastIncomingTs c = 0 \<or> rtp_lastIncomingTs c = base - 1" and "times_ok base fl"
  shows "\<exists>c'. rtp_run mk fs (paced base tod fl) c = Val (c', [], paced_out (rtp_num c) fl) \<and>
     rtp_num c' = rtp_num c + of_nat (length fl) * 160"
  using assms
proof (induction fl arbitrary: base c)
  case (Cons f fl)
  let ?c = "c\<lparr>rtp_num := rtp_num c + 160, rtp_lastIncomingTs := base - 1 + 20\<rparr>"
  have f: "passes c f" and b: "base \<noteq> 0" "base \<noteq> 1" "times_ok (base + 20) fl"
    using Cons.prems by simp_all
  have 1: "rtp_sendFrame fs (Some f) base tod c =
      Val (?c, [], [SendWithTs (frame_bytes f) (fr_len f) (rtp_num c + 160)])"
    by (rule send_on_time [OF Cons.prems(1) f Cons.prems(3) b(1,2)])
  have "\<exists>c'. rtp_run mk fs (paced (base + 20) tod fl) ?c = Val (c', [], paced_out (rtp_num ?c) fl) \<and>
      rtp_num c' = rtp_num ?c + of_nat (length fl) * 160"
    by (rule Cons.IH) (use Cons.prems b in \<open>simp_all add: ready_def passes_def\<close>)
  then show ?case using 1 by (auto simp: algebra_simps)
qed simp

theorem paced_stream_witness:
  "\<exists>c'. rtp_run (\<lambda>_. Val None) (\<lambda>_. newFrame 0 0)
     (paced 4294967290 0
       [(newFrame 0 0)\<lparr>fr_format := 0, fr_buffer := Some [1], fr_len := 1\<rparr>,
        (newFrame 0 0)\<lparr>fr_format := 0, fr_buffer := Some [2], fr_len := 1\<rparr>])
     ((newRtp 0 4000 ''a'')\<lparr>rtp_dstPort := 5000\<rparr>) =
   Val (c', [], [SendWithTs [1] 1 160, SendWithTs [2] 1 320]) \<and> rtp_num c' = 320"
proof -
  let ?c = "(newRtp 0 4000 ''a'')\<lparr>rtp_dstPort := 5000\<rparr>"
  let ?fl = "[(newFrame 0 0)\<lparr>fr_format := 0, fr_buffer := Some [1], fr_len := 1\<rparr>,
        (newFrame 0 0)\<lparr>fr_format := 0, fr_buffer := Some [2], fr_len := 1\<rparr>]"
  have "ready ?c" and "\<forall>f\<in>set ?fl. passes ?c f" and "rtp_lastIncomingTs ?c = 0" and "times_ok 4294967290 ?fl"
    by (simp_all add: ready_def passes_def newRtp_def newFrame_def)
  from paced_stream [OF this(1,2) disjI1 [OF this(3)] this(4)]
  have "\<exists>c'. rtp_run (\<lambda>_. Val None) (\<lambda>_. newFrame 0 0) (paced 4294967290 0 ?fl) ?c =
      Val (c', [], paced_out (rtp_num ?c) ?fl) \<and> rtp_num c' = rtp_num ?c + of_nat (length ?fl) * 160" .
  moreover have "paced_out (rtp_num ?c) ?fl = [SendWithTs [1] 1 160, SendWithTs [2] 1 320]"
    by (simp add: newRtp_def newFrame_def frame_bytes_def)
  moreover have "rtp_num ?c + of_nat (length ?fl) * 160 = 320"
    by (simp add: newRtp_def)
  ultimately show ?thesis by (simp only:)
qed

text \<open>
  A frame that comes before its slot is not held back: a second frame up to 19 ms after the
  first leaves with the first frame's timestamp and with the marker bit set, which is meant for
  the start of a burst after silence.
\<close>

theorem early_frame_repeats_timestamp:
  assumes "ready c" and "passes c f" and "passes c g" and "rtp_lastIncomingTs c = 0"
    and "1 < now" and "now' \<le> now + 19" and "now + 19 \<noteq> 0"
  shows "\<exists>c'. rtp_run mk fs [OpSend (Some f) now tod, OpSend (Some g) now' tod'] c =
    Val (c', [], [SendWithTs (frame_bytes f) (fr_len f) (rtp_num c + 160),
                  SendMarked True (frame_bytes g) (fr_len g) (rtp_num c + 160)])"
proof -
  let ?c = "c\<lparr>rtp_num := rtp_num c + 160, rtp_lastIncomingTs := now - 1 + 20\<rparr>"
  have n: "now \<noteq> 0" "now \<noteq> 1" using assms(5) by auto
  have 19: "now - 1 + 20 = now + 19" by simp
  have c: "ready ?c" "passes ?c g" using assms(1,3) by (simp_all add: ready_def passes_def)
  have "rtp_timestamp now' ?c = Val (?c, 0)"
    by (rule timestamp_early) (use assms(6,7) 19 in \<open>simp_all add: add.commute\<close>)
  then have "rtp_sendFrame fs (Some g) now' tod' ?c =
      Val (?c, [], [SendMarked True (frame_bytes g) (fr_len g) (rtp_num c + 160)])"
    using sendFrame_passes [OF c] c(1) by (simp add: rtp_emit_def ready_def)
  then show ?thesis
    using send_on_time [OF assms(1,2) disjI1 [OF assms(4)] n] by simp
qed

theorem early_frame_repeats_timestamp_witness:
  "\<exists>c'. rtp_run (\<lambda>_. Val None) (\<lambda>_. newFrame 0 0)
     [OpSend (Some ((newFrame 0 0)\<lparr>fr_format := 0, fr_buffer := Some [1], fr_len := 1\<rparr>)) 1000 0,
      OpSend (Some ((newFrame 0 0)\<lparr>fr_format := 0, fr_buffer := Some [2], fr_len := 1\<rparr>)) 1019 0]
     ((newRtp 0 4000 ''a'')\<lparr>rtp_dstPort := 5000\<rparr>) =
   Val (c', [], [SendWithTs [1] 1 160, SendMarked True [2] 1 160])"
proof -
  let ?c = "(newRtp 0 4000 ''a'')\<lparr>rtp_dstPort := 5000\<rparr>"
  let ?f = "(newFrame 0 0)\<lparr>fr_format := 0, fr_buffer := Some [1], fr_len := 1\<rparr>"
  let ?g = "(newFrame 0 0)\<lparr>fr_format := 0, fr_buffer := Some [2], fr_len := 1\<rparr>"
  have "ready ?c" "passes ?c ?f" "passes ?c ?g" "rtp_lastIncomingTs ?c = 0"
    "(1 :: u32) < 1000" "(1019 :: u32) \<le> 1000 + 19" "(1000 :: u32) + 19 \<noteq> 0"
    by (simp_all add: ready_def passes_def newRtp_def newFrame_def)
  from early_frame_repeats_timestamp [OF this] have
    "\<exists>c'. rtp_run (\<lambda>_. Val None) (\<lambda>_. newFrame 0 0) [OpSend (Some ?f) 1000 0, OpSend (Some ?g) 1019 0] ?c =
      Val (c', [], [SendWithTs (frame_bytes ?f) (fr_len ?f) (rtp_num ?c + 160),
                    SendMarked True (frame_bytes ?g) (fr_len ?g) (rtp_num ?c + 160)])" .
  then show ?thesis by (simp add: newRtp_def newFrame_def frame_bytes_def)
qed

subsection \<open>Channels over the codec interface\<close>

text \<open>The codecs' \<open>create()\<close>, as a channel sees them.\<close>

definition ulaw_create :: chan_codec where
  "ulaw_create = \<lparr>cc_id = co_format newUlawCodec, cc_started = co_started newUlawCodec,
     cc_start = snd (ulaw_start newUlawCodec), cc_settings = [],
     cc_encode = ulaw_encode, cc_decode = ulaw_decode\<rparr>"

definition alaw_create :: chan_codec where
  "alaw_create = \<lparr>cc_id = co_format newAlawCodec, cc_started = co_started newAlawCodec,
     cc_start = snd (alaw_start newAlawCodec), cc_settings = [],
     cc_encode = alaw_encode, cc_decode = alaw_decode\<rparr>"

lemma timestamp_defined: "ready c \<Longrightarrow> \<exists>c2 t. rtp_timestamp now c = Val (c2, t) \<and> ready c2 \<and> rtp_media c2 = rtp_media c"
  by (auto simp: rtp_timestamp_def ready_def Let_def u32_consts)

lemma emit_audio:
  "rtp_media c = MEDIACTRL_MEDIA_AUDIO \<Longrightarrow>
     rtp_emit fs t f c = [SendWithTs (frame_bytes f) (fr_len f) (rtp_num c)] \<or>
     rtp_emit fs t f c = [SendMarked True (frame_bytes f) (fr_len f) (rtp_num c)]"
  by (simp add: rtp_emit_def)

fun out_bytes :: "rtp_out \<Rightarrow> u8 list" where
  "out_bytes (SendWithTs b l ts) = b"
| "out_bytes (SendMarked m b l ts) = b"

text \<open>A channel for a codec, and one that receives for it.\<close>

definition speaks :: "chan_codec \<Rightarrow> int \<Rightarrow> rtp \<Rightarrow> bool" where
  "speaks cd fmt c \<longleftrightarrow> rtp_pt c = fmt \<and> rtp_codec c = Some cd \<and> cc_started cd \<and>
     rtp_manager c \<noteq> NULL \<and> rtp_packets c = []"

context audio_codec
begin

lemma channel_sends:
  assumes "ready c" and "speaks cd fmt c" and "cc_encode cd = enc" and "fmt \<noteq> MEDIACTRL_RAW"
    and "raw_frame f" and "fr_type f = NORMAL_FRAME"
  shows "\<exists>c' out. rtp_sendFrame fs (Some f) now tod c = Val (c', [], [out]) \<and>
    int (length (out_bytes out)) = blockLen"
proof -
  obtain g where g: "enc (Some f) tod = Val (Some g)" "coded_frame fmt blockLen g"
    using enc_raw [OF assms(5)] by blast
  then obtain b where b: "fr_buffer g = Some b" "int (length b) = blockLen"
    by (auto simp: coded_frame_def)
  obtain c2 t where t: "rtp_timestamp now c = Val (c2, t)" "rtp_media c2 = MEDIACTRL_MEDIA_AUDIO"
    using timestamp_defined [OF assms(1), of now] assms(1) unfolding ready_def by blast
  have "frame_to_send f tod c = Val (Some g)"
    using assms g by (auto simp: frame_to_send_def speaks_def raw_frame_def)
  then have "rtp_sendFrame fs (Some f) now tod c = Val (c2, [], rtp_emit fs t g c2)"
    using assms(1,5,6) b t by (simp add: rtp_sendFrame_def ready_def raw_frame_def)
  moreover have "frame_bytes g = b" using b by (simp add: frame_bytes_def)
  ultimately show ?thesis using emit_audio [OF t(2), of fs t g] b(2) by auto
qed

lemma channel_receives:
  assumes "speaks cd fmt c" and "rtp_media c = MEDIACTRL_MEDIA_AUDIO" and "cc_decode cd = dec"
    and "int (length buf) = blockLen" and "buf \<noteq> []"
  shows "\<exists>h os. incomingData buf True p new tod c = Val (c, [IncomingFrame h], os) \<and>
    raw_frame h \<and> fr_original h = p"
proof -
  obtain g where g: "rtp_frame c buf (int (length buf)) tod = Val g" "coded_frame fmt blockLen g"
    using assms newFrameBuf_audio [of "int (length buf)" buf "rtp_pt c" tod]
    by (auto simp: rtp_frame_def coded_frame_def speaks_def)
  obtain h where h: "dec (Some g) tod = Val (Some h)" "raw_frame h"
    using dec_coded [OF g(2)] by blast
  have "raw_frame (h\<lparr>fr_original := p\<rparr>)" using h(2) by (simp add: raw_frame_def)
  then show ?thesis
    using assms g h by (simp add: incomingData_def rtp_incomingFrame_def speaks_def rtp_notify_def)
qed

lemma voice_path:
  assumes "ready a" and "speaks cd fmt a" and "cc_encode cd = enc" and "fmt \<noteq> MEDIACTRL_RAW"
    and "raw_frame f" and "fr_type f = NORMAL_FRAME"
    and "speaks cd' fmt b" and "rtp_media b = MEDIACTRL_MEDIA_AUDIO" and "cc_decode cd' = dec"
    and "blockLen \<noteq> 0"
  shows "\<exists>a' out h os. rtp_sendFrame fs (Some f) now tod a = Val (a', [], [out]) \<and>
     incomingData (out_bytes out) True p new tod' b = Val (b, [IncomingFrame h], os) \<and>
     raw_frame h \<and> fr_original h = p"
proof -
  obtain a' out where out: "rtp_sendFrame fs (Some f) now tod a = Val (a', [], [out])"
      "int (length (out_bytes out)) = blockLen"
    using channel_sends [OF assms(1-6)] by blast
  then have "out_bytes out \<noteq> []" using assms(10) by auto
  from channel_receives [OF assms(7-9) out(2) this] out(1) show ?thesis by blast
qed

end

lemma speaks_ulaw: "speaks (ulaw_create\<lparr>cc_started := True\<rparr>) MEDIACTRL_CODEC_ULAW c \<longleftrightarrow>
    rtp_pt c = MEDIACTRL_CODEC_ULAW \<and> rtp_codec c = Some (ulaw_create\<lparr>cc_started := True\<rparr>) \<and>
    rtp_manager c \<noteq> NULL \<and> rtp_packets c = []"
  by (auto simp: speaks_def)

text \<open>
  C38. The path of voice through two mu-law channels: a raw frame of 160 samples given to one
  leaves as exactly one packet of 160 bytes, without undefined behaviour, and the other channel,
  when it receives those bytes, hands exactly one raw frame of 160 samples to its manager,
  together with the address of the frame as received, and keeps no state of it.
\<close>

theorem ulaw_voice_path:
  assumes "ready a" and "speaks (ulaw_create\<lparr>cc_started := True\<rparr>) MEDIACTRL_CODEC_ULAW a"
    and "raw_frame f" and "fr_type f = NORMAL_FRAME"
    and "speaks (ulaw_create\<lparr>cc_started := True\<rparr>) MEDIACTRL_CODEC_ULAW b"
    and "rtp_media b = MEDIACTRL_MEDIA_AUDIO"
  shows "\<exists>a' out h os. rtp_sendFrame fs (Some f) now tod a = Val (a', [], [out]) \<and>
     incomingData (out_bytes out) True p [] tod' b = Val (b, [IncomingFrame h], os) \<and>
     raw_frame h \<and> fr_original h = p"
  by (rule ulaw.voice_path [OF assms(1,2) _ _ assms(3,4,5,6)]) (simp_all add: ulaw_create_def)

theorem ulaw_voice_path_witness:
  "\<exists>a' out h os. rtp_sendFrame (\<lambda>_. newFrame 0 0)
       (Some ((newFrame 0 0)\<lparr>fr_len := 320, fr_buffer := Some (replicate 320 5)\<rparr>)) 1000 0
       ((newRtp 0 4000 ''a'')\<lparr>rtp_dstPort := 5000, rtp_manager := 1,
          rtp_codec := Some (ulaw_create\<lparr>cc_started := True\<rparr>)\<rparr>) = Val (a', [], [out]) \<and>
     incomingData (out_bytes out) True 9 [] 0 ((newRtp 0 4002 ''b'')\<lparr>rtp_manager := 1,
          rtp_codec := Some (ulaw_create\<lparr>cc_started := True\<rparr>)\<rparr>) =
       Val ((newRtp 0 4002 ''b'')\<lparr>rtp_manager := 1,
          rtp_codec := Some (ulaw_create\<lparr>cc_started := True\<rparr>)\<rparr>, [IncomingFrame h], os) \<and>
     raw_frame h \<and> fr_original h = 9"
  by (rule ulaw_voice_path)
    (simp_all add: ready_def speaks_ulaw raw_frame_def newRtp_def newFrame_def)

text \<open>
  A channel keeps the codec it has: when the payload type changes while a started codec is
  there, the codec is neither replaced nor stopped, so that a raw frame sent afterwards is
  encoded by the old codec.
\<close>

theorem payload_change_keeps_codec:
  assumes "rtp_codec c = Some cd" and "cc_started cd"
  shows "\<exists>c' ns. setPayloadType mk pt c = Val (c', ns) \<and> rtp_codec c' = Some cd \<and> rtp_pt c' = pt \<and>
     (pt \<noteq> MEDIACTRL_RAW \<and> fr_format f = MEDIACTRL_RAW \<longrightarrow> frame_to_send f tod c' = cc_encode cd (Some f) tod)"
  using assms
  by (auto simp: setPayloadType_def codec_or_new_def start_codec_def Let_def frame_to_send_def)

theorem payload_change_keeps_codec_witness:
  "\<exists>c' ns. setPayloadType (\<lambda>_. Val (Some alaw_create)) MEDIACTRL_CODEC_ALAW
      ((newRtp 0 4000 ''a'')\<lparr>rtp_manager := 1, rtp_codec := Some (ulaw_create\<lparr>cc_started := True\<rparr>)\<rparr>) =
      Val (c', ns) \<and> rtp_codec c' = Some (ulaw_create\<lparr>cc_started := True\<rparr>) \<and>
     rtp_pt c' = MEDIACTRL_CODEC_ALAW \<and>
     frame_to_send (newFrame 0 0) 0 c' = ulaw_encode (Some (newFrame 0 0)) 0"
  using payload_change_keeps_codec
    [of "(newRtp 0 4000 ''a'')\<lparr>rtp_manager := 1, rtp_codec := Some (ulaw_create\<lparr>cc_started := True\<rparr>)\<rparr>"
        "ulaw_create\<lparr>cc_started := True\<rparr>" "\<lambda>_. Val (Some alaw_create)" MEDIACTRL_CODEC_ALAW "newFrame 0 0" 0]
  by (auto simp: newFrame_def ulaw_create_def)

end
