(* ===== verification/ControlConn.thy ===== *)
theory ControlConn
  imports StdMap MediaFrame
begin

text \<open>
  \<open>src/ControlPackage.cxx\<close>: class \<open>ControlPackageConnection\<close>, the face of a connection or a
  conference towards the control packages. It keeps the list of packages that listen to it and
  passes every event on to each of them. The packages are plugins behind an abstract class: a
  virtual call on one is recorded as the pair of its address and the call, in order.
\<close>

subsection \<open>State\<close>

abbreviation (input) CPC_CONNECTION :: int where "CPC_CONNECTION \<equiv> 0"
abbreviation (input) CPC_CONFERENCE :: int where "CPC_CONFERENCE \<equiv> 1"

record cpc =
  cpc_type :: int
  cpc_mediaType :: int
  cpc_endpoint :: ptr
  cpc_connectionId :: string
  cpc_Id :: string
  cpc_label :: string
  cpc_pt :: int
  cpc_packages :: "ptr list"

text \<open>The virtual functions of class \<open>ControlPackage\<close> that a connection calls.\<close>

datatype pkg_call =
    CallSendFrame ptr frame
  | CallIncomingFrame ptr ptr frame
  | CallFrameSent ptr ptr frame
  | CallIncomingDtmf ptr ptr int
  | CallConnectionLocked ptr ptr
  | CallConnectionUnlocked ptr ptr
  | CallConnectionClosing ptr ptr

type_synonym pkg_calls = "(ptr \<times> pkg_call) list"

definition newCpc :: "string \<Rightarrow> string \<Rightarrow> cpc" where
  "newCpc cid label =
     \<lparr>cpc_type = CPC_CONNECTION, cpc_mediaType = MEDIACTRL_MEDIA_AUDIO, cpc_endpoint = NULL,
      cpc_connectionId = cid, cpc_Id = cid, cpc_label = label, cpc_pt = -1, cpc_packages = []\<rparr>"

subsection \<open>Operations\<close>

definition addPackage :: "ptr \<Rightarrow> cpc \<Rightarrow> cpc" where
  "addPackage cp c = c\<lparr>cpc_packages := sort_unique (cpc_packages c @ [cp])\<rparr>"

definition removePackage :: "ptr \<Rightarrow> cpc \<Rightarrow> cpc" where
  "removePackage cp c = c\<lparr>cpc_packages := removeAll cp (cpc_packages c)\<rparr>"

text \<open>The loop over the packages.\<close>

fun fan_out :: "pkg_call \<Rightarrow> ptr list \<Rightarrow> pkg_calls" where
  "fan_out ev [] = []"
| "fan_out ev (pkg # pkgs) = (if pkg \<noteq> NULL then [(pkg, ev)] else []) @ fan_out ev pkgs"

definition cpc_sendFrame :: "ptr \<Rightarrow> frame option \<Rightarrow> cpc \<Rightarrow> pkg_calls" where
  "cpc_sendFrame this f c = (case f of
     None \<Rightarrow> []
   | Some fr \<Rightarrow> if cpc_packages c = [] then [] else fan_out (CallSendFrame this fr) (cpc_packages c))"

definition cpc_incomingFrame :: "ptr \<Rightarrow> ptr \<Rightarrow> frame option \<Rightarrow> cpc \<Rightarrow> pkg_calls" where
  "cpc_incomingFrame conn subc f c = (case f of
     None \<Rightarrow> []
   | Some fr \<Rightarrow> if cpc_packages c = [] then []
               else fan_out (CallIncomingFrame conn subc fr) (cpc_packages c))"

definition cpc_frameSent :: "ptr \<Rightarrow> ptr \<Rightarrow> frame option \<Rightarrow> cpc \<Rightarrow> pkg_calls" where
  "cpc_frameSent conn subc f c = (case f of
     None \<Rightarrow> []
   | Some fr \<Rightarrow> if cpc_packages c = [] then []
               else fan_out (CallFrameSent conn subc fr) (cpc_packages c))"

definition cpc_incomingDtmf :: "ptr \<Rightarrow> ptr \<Rightarrow> int \<Rightarrow> cpc \<Rightarrow> pkg_calls" where
  "cpc_incomingDtmf conn subc t c =
     (if cpc_packages c = [] then [] else fan_out (CallIncomingDtmf conn subc t) (cpc_packages c))"

definition cpc_connectionLocked :: "ptr \<Rightarrow> ptr \<Rightarrow> cpc \<Rightarrow> pkg_calls" where
  "cpc_connectionLocked conn subc c =
     (if cpc_packages c = [] then [] else fan_out (CallConnectionLocked conn subc) (cpc_packages c))"

definition cpc_connectionUnlocked :: "ptr \<Rightarrow> ptr \<Rightarrow> cpc \<Rightarrow> pkg_calls" where
  "cpc_connectionUnlocked conn subc c =
     (if cpc_packages c = [] then [] else fan_out (CallConnectionUnlocked conn subc) (cpc_packages c))"

text \<open>\<open>connectionClosing\<close> empties the list first and then tells those that were on it.\<close>

definition cpc_connectionClosing :: "ptr \<Rightarrow> ptr \<Rightarrow> cpc \<Rightarrow> cpc \<times> pkg_calls" where
  "cpc_connectionClosing conn subc c =
     (if cpc_packages c = [] then (c, [])
      else (c\<lparr>cpc_packages := []\<rparr>, fan_out (CallConnectionClosing conn subc) (cpc_packages c)))"

text \<open>The destructor.\<close>

definition cpc_destroy :: "ptr \<Rightarrow> cpc \<Rightarrow> pkg_calls" where
  "cpc_destroy this c = snd (cpc_connectionClosing this this c)"

lemma fan_out_filter: "fan_out ev ps = map (\<lambda>p. (p, ev)) (filter (\<lambda>p. p \<noteq> NULL) ps)"
  by (induction ps) auto

lemma fan_out_Nil [simp]: "(if ps = [] then [] else fan_out ev ps) = fan_out ev ps"
  by simp

subsection \<open>A history of one connection\<close>

datatype cpc_op =
    OpAddPackage ptr
  | OpRemovePackage ptr
  | OpSendFrame "frame option"
  | OpIncomingFrame ptr ptr "frame option"
  | OpFrameSent ptr ptr "frame option"
  | OpIncomingDtmf ptr ptr int
  | OpLocked ptr ptr
  | OpUnlocked ptr ptr
  | OpClosing ptr ptr

fun cpc_step :: "ptr \<Rightarrow> cpc_op \<Rightarrow> cpc \<Rightarrow> cpc \<times> pkg_calls" where
  "cpc_step this (OpAddPackage p) c = (addPackage p c, [])"
| "cpc_step this (OpRemovePackage p) c = (removePackage p c, [])"
| "cpc_step this (OpSendFrame f) c = (c, cpc_sendFrame this f c)"
| "cpc_step this (OpIncomingFrame a b f) c = (c, cpc_incomingFrame a b f c)"
| "cpc_step this (OpFrameSent a b f) c = (c, cpc_frameSent a b f c)"
| "cpc_step this (OpIncomingDtmf a b t) c = (c, cpc_incomingDtmf a b t c)"
| "cpc_step this (OpLocked a b) c = (c, cpc_connectionLocked a b c)"
| "cpc_step this (OpUnlocked a b) c = (c, cpc_connectionUnlocked a b c)"
| "cpc_step this (OpClosing a b) c = cpc_connectionClosing a b c"

fun cpc_run :: "ptr \<Rightarrow> cpc_op list \<Rightarrow> cpc \<Rightarrow> cpc \<times> pkg_calls" where
  "cpc_run this [] c = (c, [])"
| "cpc_run this (op # ops) c =
     (let (c1, cs) = cpc_step this op c; (c2, cs') = cpc_run this ops c1 in (c2, cs @ cs'))"

subsection \<open>The contract: a set of listeners\<close>

text \<open>
  What a package may rely on. A connection is a finite set of listeners: registering adds to it,
  unregistering removes from it, closing empties it; every other operation tells each listener
  once, in the order of their addresses.
\<close>

fun spec_listeners :: "cpc_op \<Rightarrow> ptr set \<Rightarrow> ptr set" where
  "spec_listeners (OpAddPackage p) L = insert p L"
| "spec_listeners (OpRemovePackage p) L = L - {p}"
| "spec_listeners (OpClosing a b) L = {}"
| "spec_listeners op L = L"

fun spec_event :: "ptr \<Rightarrow> cpc_op \<Rightarrow> pkg_call option" where
  "spec_event this (OpAddPackage p) = None"
| "spec_event this (OpRemovePackage p) = None"
| "spec_event this (OpSendFrame f) = map_option (CallSendFrame this) f"
| "spec_event this (OpIncomingFrame a b f) = map_option (CallIncomingFrame a b) f"
| "spec_event this (OpFrameSent a b f) = map_option (CallFrameSent a b) f"
| "spec_event this (OpIncomingDtmf a b t) = Some (CallIncomingDtmf a b t)"
| "spec_event this (OpLocked a b) = Some (CallConnectionLocked a b)"
| "spec_event this (OpUnlocked a b) = Some (CallConnectionUnlocked a b)"
| "spec_event this (OpClosing a b) = Some (CallConnectionClosing a b)"

definition spec_calls :: "ptr \<Rightarrow> cpc_op \<Rightarrow> ptr set \<Rightarrow> pkg_calls" where
  "spec_calls this op L = (case spec_event this op of
     None \<Rightarrow> []
   | Some ev \<Rightarrow> map (\<lambda>p. (p, ev)) (sorted_list_of_set (L - {NULL})))"

fun spec_run :: "ptr \<Rightarrow> cpc_op list \<Rightarrow> ptr set \<Rightarrow> ptr set \<times> pkg_calls" where
  "spec_run this [] L = (L, [])"
| "spec_run this (op # ops) L =
     (let (L', cs) = spec_run this ops (spec_listeners op L) in (L', spec_calls this op L @ cs))"

definition cpc_abs :: "cpc \<Rightarrow> ptr set" where
  "cpc_abs c = set (cpc_packages c)"

definition cpc_ok :: "cpc \<Rightarrow> bool" where
  "cpc_ok c \<longleftrightarrow> sorted_wrt (<) (cpc_packages c)"

lemma strict_sorted_set_eq: "sorted_wrt (<) xs \<Longrightarrow> sorted_list_of_set (set xs) = (xs :: nat list)"
  by (simp add: sorted_list_of_set.idem_if_sorted_distinct strict_sorted_iff)

lemma fan_out_abs:
  assumes "cpc_ok c"
  shows "fan_out ev (cpc_packages c) = map (\<lambda>p. (p, ev)) (sorted_list_of_set (cpc_abs c - {NULL}))"
proof -
  let ?xs = "filter (\<lambda>p. p \<noteq> NULL) (cpc_packages c)"
  have "sorted_wrt (<) ?xs"
    using assms by (simp add: cpc_ok_def sorted_wrt_filter)
  moreover have "set ?xs = cpc_abs c - {NULL}"
    by (auto simp: cpc_abs_def)
  ultimately have "sorted_list_of_set (cpc_abs c - {NULL}) = ?xs"
    using strict_sorted_set_eq by metis
  then show ?thesis by (simp add: fan_out_filter)
qed

lemma cpc_step_ok [inv_intros]: "cpc_ok c \<Longrightarrow> cpc_ok (fst (cpc_step this op c))"
  by (cases op) (auto simp: cpc_ok_def addPackage_def removePackage_def strict_sorted_removeAll
      cpc_connectionClosing_def)

text \<open>One step of the connection is one step of the contract.\<close>

lemma cpc_step_abs: "cpc_abs (fst (cpc_step this op c)) = spec_listeners op (cpc_abs c)"
  by (cases op) (auto simp: cpc_abs_def addPackage_def removePackage_def cpc_connectionClosing_def)

lemma cpc_step_calls: "cpc_ok c \<Longrightarrow> snd (cpc_step this op c) = spec_calls this op (cpc_abs c)"
  by (cases op) (auto simp: spec_calls_def cpc_sendFrame_def cpc_incomingFrame_def cpc_frameSent_def
      cpc_incomingDtmf_def cpc_connectionLocked_def cpc_connectionUnlocked_def
      cpc_connectionClosing_def fan_out_abs [symmetric] split: option.split)

text \<open>
  C35. A connection implements the contract of a set of listeners: after any history of
  registrations, events and closings, starting from a fresh connection, the packages it lists
  are the listeners of the contract, each once, and the calls it made on packages are exactly
  the contract's, in order.
\<close>

theorem connection_is_listener_set:
  "cpc_packages (fst (cpc_run this ops (newCpc cid label))) =
     sorted_list_of_set (fst (spec_run this ops {})) \<and>
   snd (cpc_run this ops (newCpc cid label)) = snd (spec_run this ops {})"
proof -
  have "cpc_ok (fst (cpc_run this ops c)) \<and>
      cpc_abs (fst (cpc_run this ops c)) = fst (spec_run this ops (cpc_abs c)) \<and>
      snd (cpc_run this ops c) = snd (spec_run this ops (cpc_abs c))" if "cpc_ok c" for c
    using that
  proof (induction ops arbitrary: c)
    case (Cons op ops)
    obtain c1 cs where s: "cpc_step this op c = (c1, cs)" by fastforce
    with Cons.prems have "cpc_ok c1" and "cs = spec_calls this op (cpc_abs c)"
      and "cpc_abs c1 = spec_listeners op (cpc_abs c)"
      using cpc_step_ok cpc_step_calls cpc_step_abs by (metis fst_conv snd_conv)+
    with Cons.IH [of c1] s show ?case by (auto split: prod.splits)
  qed simp
  from this [of "newCpc cid label"] show ?thesis
    by (auto simp: cpc_ok_def cpc_abs_def newCpc_def dest: strict_sorted_set_eq)
qed

end
