(* ===== verification/MediaStore.thy ===== *)
theory MediaStore
  imports ControlConn RtpChannel
begin

text \<open>
  The objects of the media side and how they refer to each other: endpoints
  (\<open>src/MediaCtrlEndpoint.h\<close>), SIP transactions (\<open>src/MediaCtrlSip.h\<close>), RTP channels and
  package connections live in one store, by address; an address with no object is a deleted one,
  and its use is undefined behaviour. Calls on packages and packets handed to oRTP are logged. \<open>md_core\<close> is
  the address of the core, whose own event functions do nothing.
\<close>

subsection \<open>Objects\<close>

text \<open>\<open>MediaCtrlConnection\<close>: a wrapper has an empty label and owns channels, a channel has a label and an owner.\<close>

record mconn =
  mc_media :: int
  mc_Id :: string
  mc_label :: string
  mc_cp :: ptr
  mc_sip :: ptr
  mc_rtp :: ptr
  mc_channels :: "ptr list"
  mc_owner :: ptr
  mc_counter :: u16

text \<open>\<open>MediaCtrlConference\<close>.\<close>

record mconf =
  cf_Id :: string
  cf_cp :: ptr

record siptx =
  sp_callId :: string
  sp_active :: bool
  sp_as :: bool
  sp_negotiated :: bool
  sp_cfwId :: string
  sp_fromTag :: string
  sp_toTag :: string
  sp_connectionId :: string
  sp_rtpPorts :: "u16 list"
  sp_rtpLabels :: "string list"
  sp_byPort :: "(u16, ptr) smap"
  sp_byLabel :: "(string, ptr) smap"
  sp_managers :: "(string, ptr list) smap"
  sp_byes :: nat

record media =
  md_conns :: "ptr \<rightharpoonup> mconn"
  md_confs :: "ptr \<rightharpoonup> mconf"
  md_cps :: "ptr \<rightharpoonup> cpc"
  md_rtps :: "ptr \<rightharpoonup> rtp"
  md_sips :: "ptr \<rightharpoonup> siptx"
  md_calls :: pkg_calls
  md_outs :: "(ptr \<times> rtp_out) list"
  md_core :: ptr

definition noMedia :: media where
  "noMedia = \<lparr>md_conns = Map.empty, md_confs = Map.empty, md_cps = Map.empty, md_rtps = Map.empty,
     md_sips = Map.empty, md_calls = [], md_outs = [], md_core = 1\<rparr>"

subsection \<open>Access\<close>

definition deref :: "(ptr \<rightharpoonup> 'a) \<Rightarrow> ptr \<Rightarrow> 'a cpp" where
  "deref h p = (if p = NULL then Undef else case h p of None \<Rightarrow> Undef | Some x \<Rightarrow> Val x)"

lemma deref_Val [simp]: "deref h p = Val x \<longleftrightarrow> p \<noteq> NULL \<and> h p = Some x"
  by (simp add: deref_def split: option.split)

lemma deref_Some [simp]: "p \<noteq> NULL \<Longrightarrow> h p = Some x \<Longrightarrow> deref h p = Val x"
  by simp

definition putConn :: "ptr \<Rightarrow> mconn \<Rightarrow> media \<Rightarrow> media" where
  "putConn p c md = md\<lparr>md_conns := (md_conns md)(p \<mapsto> c)\<rparr>"

definition putCp :: "ptr \<Rightarrow> cpc \<Rightarrow> media \<Rightarrow> media" where
  "putCp p c md = md\<lparr>md_cps := (md_cps md)(p \<mapsto> c)\<rparr>"

definition putRtp :: "ptr \<Rightarrow> rtp \<Rightarrow> media \<Rightarrow> media" where
  "putRtp p r md = md\<lparr>md_rtps := (md_rtps md)(p \<mapsto> r)\<rparr>"

definition putSip :: "ptr \<Rightarrow> siptx \<Rightarrow> media \<Rightarrow> media" where
  "putSip p t md = md\<lparr>md_sips := (md_sips md)(p \<mapsto> t)\<rparr>"

definition logCalls :: "pkg_calls \<Rightarrow> media \<Rightarrow> media" where
  "logCalls cs md = md\<lparr>md_calls := md_calls md @ cs\<rparr>"

named_theorems store_simps \<open>reading the store after an update\<close>

lemma put_simps [store_simps, simp]:
  "md_conns (putConn p c md) = (md_conns md)(p \<mapsto> c)" "md_cps (putConn p c md) = md_cps md"
  "md_rtps (putConn p c md) = md_rtps md" "md_sips (putConn p c md) = md_sips md"
  "md_calls (putConn p c md) = md_calls md" "md_outs (putConn p c md) = md_outs md"
  "md_confs (putConn p c md) = md_confs md" "md_core (putConn p c md) = md_core md"
  "md_conns (putCp p d md) = md_conns md" "md_cps (putCp p d md) = (md_cps md)(p \<mapsto> d)"
  "md_rtps (putCp p d md) = md_rtps md" "md_sips (putCp p d md) = md_sips md"
  "md_calls (putCp p d md) = md_calls md" "md_outs (putCp p d md) = md_outs md"
  "md_confs (putCp p d md) = md_confs md" "md_core (putCp p d md) = md_core md"
  "md_conns (putRtp p r md) = md_conns md" "md_cps (putRtp p r md) = md_cps md"
  "md_rtps (putRtp p r md) = (md_rtps md)(p \<mapsto> r)" "md_sips (putRtp p r md) = md_sips md"
  "md_calls (putRtp p r md) = md_calls md" "md_outs (putRtp p r md) = md_outs md"
  "md_confs (putRtp p r md) = md_confs md" "md_core (putRtp p r md) = md_core md"
  "md_conns (putSip p t md) = md_conns md" "md_cps (putSip p t md) = md_cps md"
  "md_rtps (putSip p t md) = md_rtps md" "md_sips (putSip p t md) = (md_sips md)(p \<mapsto> t)"
  "md_calls (putSip p t md) = md_calls md" "md_outs (putSip p t md) = md_outs md"
  "md_confs (putSip p t md) = md_confs md" "md_core (putSip p t md) = md_core md"
  "md_conns (logCalls cs md) = md_conns md" "md_cps (logCalls cs md) = md_cps md"
  "md_rtps (logCalls cs md) = md_rtps md" "md_sips (logCalls cs md) = md_sips md"
  "md_calls (logCalls cs md) = md_calls md @ cs" "md_outs (logCalls cs md) = md_outs md"
  "md_confs (logCalls cs md) = md_confs md" "md_core (logCalls cs md) = md_core md"
  by (simp_all add: putConn_def putCp_def putRtp_def putSip_def logCalls_def)

text \<open>A loop over a list of objects, each round of which may change the store.\<close>

fun for_each :: "(ptr \<Rightarrow> 's \<Rightarrow> 's cpp) \<Rightarrow> ptr list \<Rightarrow> 's \<Rightarrow> 's cpp" where
  "for_each f [] s = Val s"
| "for_each f (p # ps) s = cpp_bind (f p s) (for_each f ps)"

lemma for_each_invariant:
  assumes "\<And>p s s'. p \<in> set ps \<Longrightarrow> I s \<Longrightarrow> f p s = Val s' \<Longrightarrow> I s'"
    and "I s" and "for_each f ps s = Val s'"
  shows "I s'"
  using assms
proof (induction ps arbitrary: s)
  case (Cons p ps)
  then obtain s1 where "f p s = Val s1" and "for_each f ps s1 = Val s'"
    by (auto simp: cpp_bind_Val)
  with Cons show ?case by (metis list.set_intros(1) list.set_intros(2))
qed simp

lemma for_each_total:
  assumes "\<And>p s. p \<in> set ps \<Longrightarrow> I s \<Longrightarrow> \<exists>s'. f p s = Val s' \<and> I s'" and "I s"
  shows "\<exists>s'. for_each f ps s = Val s' \<and> I s'"
  using assms
proof (induction ps arbitrary: s)
  case (Cons p ps)
  then obtain s1 where "f p s = Val s1" and "I s1" by (meson list.set_intros(1))
  with Cons show ?case by (metis cpp_bind.simps(2) for_each.simps(2) list.set_intros(2))
qed simp

end
