(* ===== verification/Endpoint.thy ===== *)
theory Endpoint
  imports MediaStore
begin

text \<open>
  \<open>src/MediaCtrlEndpoint.cxx\<close>: classes \<open>MediaCtrlConnection\<close> and \<open>MediaCtrlConference\<close>. A
  connection is either a wrapper for a whole call, with an empty label, or one of the channels
  it owns. Events of a channel are passed to the packages that listen to it and then to those
  that listen to its wrapper. The recursive operations take a depth bound first: running out of
  it stands for a recursion that does not end.
\<close>

subsection \<open>Creation\<close>

definition newConnection :: "ptr \<Rightarrow> ptr \<Rightarrow> string \<Rightarrow> string \<Rightarrow> media \<Rightarrow> media" where
  "newConnection p cp connectionId label md =
     putConn p \<lparr>mc_media = MEDIACTRL_MEDIA_UNKNOWN, mc_Id = connectionId, mc_label = label,
                mc_cp = cp, mc_sip = NULL, mc_rtp = NULL, mc_channels = [], mc_owner = NULL,
                mc_counter = 0\<rparr>
       (putCp cp ((newCpc connectionId label)\<lparr>cpc_type := CPC_CONNECTION,
                    cpc_mediaType := MEDIACTRL_MEDIA_UNKNOWN, cpc_endpoint := p\<rparr>) md)"

definition newConference :: "ptr \<Rightarrow> ptr \<Rightarrow> string \<Rightarrow> media \<Rightarrow> media" where
  "newConference p cp confId md =
     (putCp cp ((newCpc confId '''')\<lparr>cpc_type := CPC_CONFERENCE,
                  cpc_mediaType := MEDIACTRL_MEDIA_UNKNOWN, cpc_endpoint := p\<rparr>) md)
       \<lparr>md_confs := (md_confs md)(p \<mapsto> \<lparr>cf_Id = confId, cf_cp = cp\<rparr>)\<rparr>"

definition setLocal :: "ptr \<Rightarrow> ptr \<Rightarrow> ptr \<Rightarrow> media \<Rightarrow> media cpp" where
  "setLocal p sip rtpc md =
     cpp_bind (deref (md_conns md) p) (\<lambda>c.
     cpp_bind (deref (md_rtps md) rtpc) (\<lambda>r.
     cpp_bind (deref (md_cps md) (mc_cp c)) (\<lambda>d.
       Val (putConn p (c\<lparr>mc_sip := sip, mc_rtp := rtpc, mc_media := rtp_media r\<rparr>)
             (putCp (mc_cp c) (d\<lparr>cpc_pt := rtp_pt r, cpc_mediaType := rtp_media r\<rparr>) md)))))"

subsection \<open>Owners and channels\<close>

definition addOwned :: "ptr \<Rightarrow> ptr \<Rightarrow> media \<Rightarrow> (media \<times> int) cpp" where
  "addOwned p q md =
     cpp_bind (deref (md_conns md) p) (\<lambda>c.
       if mc_label c \<noteq> '''' then Val (md, -1)
       else if q = NULL then Val (md, -1)
       else cpp_bind (deref (md_conns md) q) (\<lambda>d.
         if mc_label d = '''' then Val (md, -1)
         else Val (putConn p (c\<lparr>mc_channels := mc_channels c @ [q]\<rparr>) md, 0)))"

definition removeOwned :: "ptr \<Rightarrow> ptr \<Rightarrow> media \<Rightarrow> (media \<times> int) cpp" where
  "removeOwned p q md =
     cpp_bind (deref (md_conns md) p) (\<lambda>c.
       if mc_label c \<noteq> '''' then Val (md, -1)
       else if q = NULL then Val (md, -1)
       else cpp_bind (deref (md_conns md) q) (\<lambda>d.
         if mc_label d = '''' then Val (md, -1)
         else Val (putConn p (c\<lparr>mc_channels := removeAll q (mc_channels c)\<rparr>) md, 0)))"

text \<open>The search loop of both \<open>getOwned\<close>, for a test on the channel; \<open>NULL\<close> when none passes.\<close>

fun find_owned :: "(mconn \<Rightarrow> bool) \<Rightarrow> ptr list \<Rightarrow> media \<Rightarrow> ptr cpp" where
  "find_owned P [] md = Val NULL"
| "find_owned P (q # qs) md =
     cpp_bind (deref (md_conns md) q) (\<lambda>d. if P d then Val q else find_owned P qs md)"

definition getOwnedMedia :: "ptr \<Rightarrow> int \<Rightarrow> media \<Rightarrow> ptr cpp" where
  "getOwnedMedia p mediaType md =
     (if mediaType \<noteq> MEDIACTRL_MEDIA_AUDIO then Val NULL
      else cpp_bind (deref (md_conns md) p) (\<lambda>c.
        find_owned (\<lambda>d. mc_media d = mediaType) (mc_channels c) md))"

definition getOwnedLabel :: "ptr \<Rightarrow> string \<Rightarrow> media \<Rightarrow> ptr cpp" where
  "getOwnedLabel p ownedLabel md =
     cpp_bind (deref (md_conns md) p) (\<lambda>c.
       if mc_label c \<noteq> '''' then Val NULL
       else find_owned (\<lambda>d. mc_label d = ownedLabel) (mc_channels c) md)"

definition setOwner :: "ptr \<Rightarrow> ptr \<Rightarrow> media \<Rightarrow> (media \<times> int) cpp" where
  "setOwner p q md =
     cpp_bind (deref (md_conns md) p) (\<lambda>c.
       if mc_label c = '''' then Val (md, -1)
       else if q = NULL then Val (md, -1)
       else cpp_bind (deref (md_conns md) q) (\<lambda>d.
         if mc_label d \<noteq> '''' then Val (md, -1)
         else Val (putConn p (c\<lparr>mc_owner := q\<rparr>) md, 0)))"

definition getOwner :: "ptr \<Rightarrow> media \<Rightarrow> ptr cpp" where
  "getOwner p md =
     cpp_bind (deref (md_conns md) p) (\<lambda>c.
       if mc_label c = '''' then Val NULL else Val (mc_owner c))"

subsection \<open>Questions about the media\<close>

fun getFormat :: "nat \<Rightarrow> ptr \<Rightarrow> int \<Rightarrow> media \<Rightarrow> int cpp" where
  "getFormat 0 p mt md = Undef"
| "getFormat (Suc n) p mt md =
     cpp_bind (deref (md_conns md) p) (\<lambda>c.
       if mc_rtp c \<noteq> NULL then
         (if mt = MEDIACTRL_MEDIA_UNKNOWN \<or> mt = mc_media c then
            cpp_bind (deref (md_rtps md) (mc_rtp c)) (\<lambda>r. Val (rtp_pt r))
          else Val (-1))
       else if mc_channels c = [] then Val (-1)
       else if length (mc_channels c) = 1 then getFormat n (hd (mc_channels c)) mt md
       else cpp_bind (find_owned (\<lambda>d. mc_media d = mt) (mc_channels c) md) (\<lambda>q.
              if q = NULL then Val (-1) else getFormat n q mt md))"

text \<open>\<open>getFlags\<close>; a channel is asked with the default argument.\<close>

fun getFlags :: "nat \<Rightarrow> ptr \<Rightarrow> int \<Rightarrow> media \<Rightarrow> u32 cpp" where
  "getFlags 0 p mt md = Undef"
| "getFlags (Suc n) p mt md =
     cpp_bind (deref (md_conns md) p) (\<lambda>c.
       if mc_rtp c \<noteq> NULL then
         (if mt = MEDIACTRL_MEDIA_UNKNOWN \<or> mt = mc_media c then
            cpp_bind (deref (md_rtps md) (mc_rtp c)) (\<lambda>r. Val (rtp_flags r))
          else Val 0)
       else cpp_bind (find_owned (\<lambda>d. mc_media d = mt) (mc_channels c) md) (\<lambda>q.
              if q = NULL then Val 0 else getFlags n q MEDIACTRL_MEDIA_UNKNOWN md))"

fun clearDtmfBuffer :: "nat \<Rightarrow> ptr \<Rightarrow> media \<Rightarrow> media cpp" where
  "clearDtmfBuffer 0 p md = Undef"
| "clearDtmfBuffer (Suc n) p md =
     cpp_bind (deref (md_conns md) p) (\<lambda>c.
       if mc_rtp c \<noteq> NULL then
         cpp_bind (deref (md_rtps md) (mc_rtp c)) (\<lambda>r.
           Val (putRtp (mc_rtp c) (rtp_clearDtmfBuffer r) md))
       else for_each (clearDtmfBuffer n) (mc_channels c) md)"

fun getNextDtmfBuffer :: "nat \<Rightarrow> ptr \<Rightarrow> media \<Rightarrow> (media \<times> int) cpp" where
  "getNextDtmfBuffer 0 p md = Undef"
| "getNextDtmfBuffer (Suc n) p md =
     cpp_bind (deref (md_conns md) p) (\<lambda>c.
       if mc_rtp c \<noteq> NULL then
         cpp_bind (deref (md_rtps md) (mc_rtp c)) (\<lambda>r.
           let (r', tone) = rtp_getNextDtmfBuffer r in Val (putRtp (mc_rtp c) r' md, tone))
       else cpp_bind (find_owned (\<lambda>d. mc_media d = MEDIACTRL_MEDIA_AUDIO) (mc_channels c) md) (\<lambda>q.
              if q = NULL then Val (md, -1) else getNextDtmfBuffer n q md))"

subsection \<open>Use counters\<close>

definition wake_channel :: "ptr \<Rightarrow> bool \<Rightarrow> media \<Rightarrow> media cpp" where
  "wake_channel rtpc doIt md =
     cpp_bind (deref (md_rtps md) rtpc) (\<lambda>r. Val (putRtp rtpc (rtp_wakeUp doIt r) md))"

fun increaseCounter :: "nat \<Rightarrow> ptr \<Rightarrow> media \<Rightarrow> media cpp" where
  "increaseCounter 0 p md = Undef"
| "increaseCounter (Suc n) p md =
     cpp_bind (deref (md_conns md) p) (\<lambda>c.
       let md1 = putConn p (c\<lparr>mc_counter := mc_counter c + 1\<rparr>) md in
       if mc_owner c \<noteq> NULL \<and> mc_label c \<noteq> '''' then wake_channel (mc_rtp c) True md1
       else if mc_channels c \<noteq> [] \<and> mc_label c = '''' then
         for_each (increaseCounter n) (mc_channels c) md1
       else Val md1)"

definition counter_down :: "mconn \<Rightarrow> mconn" where
  "counter_down c = (if 0 < mc_counter c then c\<lparr>mc_counter := mc_counter c - 1\<rparr> else c)"

fun decreaseCounter :: "nat \<Rightarrow> ptr \<Rightarrow> media \<Rightarrow> media cpp" where
  "decreaseCounter 0 p md = Undef"
| "decreaseCounter (Suc n) p md =
     cpp_bind (deref (md_conns md) p) (\<lambda>c0.
       let c = counter_down c0; md1 = putConn p c md in
       if mc_owner c \<noteq> NULL \<and> mc_label c \<noteq> '''' \<and> mc_counter c = 0 then
         wake_channel (mc_rtp c) False md1
       else if mc_channels c \<noteq> [] \<and> mc_label c = '''' then
         for_each (decreaseCounter n) (mc_channels c) md1
       else Val md1)"

subsection \<open>Events\<close>

text \<open>
  The pattern of \<open>incomingFrame\<close>, \<open>incomingDtmf\<close>, \<open>frameSent\<close>, \<open>channelLocked\<close> and
  \<open>channelUnlocked\<close>: the channel's package connection is told first, with the wrapper's package
  connection as the connection and itself as the sub-connection, then the wrapper's. \<open>ev\<close> is the
  operation of the package connection.
\<close>

definition cp_tell :: "(cpc \<Rightarrow> pkg_calls) \<Rightarrow> ptr \<Rightarrow> media \<Rightarrow> media cpp" where
  "cp_tell ev cp md = cpp_bind (deref (md_cps md) cp) (\<lambda>d. Val (logCalls (ev d) md))"

definition relay_up :: "(ptr \<Rightarrow> ptr \<Rightarrow> cpc \<Rightarrow> pkg_calls) \<Rightarrow> ptr \<Rightarrow> ptr \<Rightarrow> media \<Rightarrow> media cpp" where
  "relay_up ev p subcp md =
     cpp_bind (deref (md_conns md) p) (\<lambda>w.
       if mc_cp w \<noteq> NULL then cp_tell (ev (mc_cp w) subcp) (mc_cp w) md else Val md)"

definition relay :: "(ptr \<Rightarrow> ptr \<Rightarrow> cpc \<Rightarrow> pkg_calls) \<Rightarrow> ptr \<Rightarrow> ptr \<Rightarrow> media \<Rightarrow> media cpp" where
  "relay ev p rtpc md =
     cpp_bind (deref (md_conns md) p) (\<lambda>c.
       if mc_cp c \<noteq> NULL \<and> mc_owner c \<noteq> NULL \<and> rtpc \<noteq> NULL then
         cpp_bind (deref (md_conns md) (mc_owner c)) (\<lambda>w.
         cpp_bind (cp_tell (ev (mc_cp w) (mc_cp c)) (mc_cp c) md)
           (relay_up ev (mc_owner c) (mc_cp c)))
       else Val md)"

definition conn_incomingFrame :: "ptr \<Rightarrow> ptr \<Rightarrow> frame option \<Rightarrow> media \<Rightarrow> media cpp" where
  "conn_incomingFrame p rtpc f md = relay (\<lambda>a b. cpc_incomingFrame a b f) p rtpc md"

definition conn_incomingDtmf :: "ptr \<Rightarrow> ptr \<Rightarrow> int \<Rightarrow> media \<Rightarrow> media cpp" where
  "conn_incomingDtmf p rtpc t md = relay (\<lambda>a b. cpc_incomingDtmf a b t) p rtpc md"

definition conn_frameSent :: "ptr \<Rightarrow> ptr \<Rightarrow> frame option \<Rightarrow> media \<Rightarrow> media cpp" where
  "conn_frameSent p rtpc f md = relay (\<lambda>a b. cpc_frameSent a b f) p rtpc md"

definition conn_channelLocked :: "ptr \<Rightarrow> ptr \<Rightarrow> media \<Rightarrow> media cpp" where
  "conn_channelLocked p rtpc md = relay cpc_connectionLocked p rtpc md"

definition conn_channelUnlocked :: "ptr \<Rightarrow> ptr \<Rightarrow> media \<Rightarrow> media cpp" where
  "conn_channelUnlocked p rtpc md = relay cpc_connectionUnlocked p rtpc md"

definition conn_payloadTypeChanged :: "ptr \<Rightarrow> int \<Rightarrow> media \<Rightarrow> media cpp" where
  "conn_payloadTypeChanged p pt md =
     cpp_bind (deref (md_conns md) p) (\<lambda>c.
       if mc_cp c \<noteq> NULL then
         cpp_bind (deref (md_cps md) (mc_cp c)) (\<lambda>d. Val (putCp (mc_cp c) (d\<lparr>cpc_pt := pt\<rparr>) md))
       else Val md)"

text \<open>\<open>channelClosed\<close>: here \<open>rtpChannel\<close> is the field, and the listeners are dropped.\<close>

definition cp_close :: "ptr \<Rightarrow> ptr \<Rightarrow> ptr \<Rightarrow> media \<Rightarrow> media cpp" where
  "cp_close conn subc cp md =
     cpp_bind (deref (md_cps md) cp) (\<lambda>d.
       let (d', cs) = cpc_connectionClosing conn subc d in Val (logCalls cs (putCp cp d' md)))"

definition conn_channelClosed :: "ptr \<Rightarrow> media \<Rightarrow> media cpp" where
  "conn_channelClosed p md =
     cpp_bind (deref (md_conns md) p) (\<lambda>c.
       if mc_cp c \<noteq> NULL \<and> mc_owner c \<noteq> NULL \<and> mc_rtp c \<noteq> NULL then
         cpp_bind (deref (md_conns md) (mc_owner c)) (\<lambda>w.
         cpp_bind (cp_close (mc_cp w) (mc_cp c) (mc_cp c) md) (\<lambda>md1.
           if mc_cp w \<noteq> NULL then cp_close (mc_cp w) (mc_cp c) (mc_cp w) md1 else Val md1))
       else Val md)"

subsection \<open>Destruction\<close>

text \<open>The package connection says good-bye as both connections, then the channels go, then the object.\<close>

definition deleteCp :: "ptr \<Rightarrow> media \<Rightarrow> media cpp" where
  "deleteCp cp md = cpp_bind (deref (md_cps md) cp) (\<lambda>d.
     Val ((logCalls (cpc_destroy cp d) md)\<lparr>md_cps := (md_cps md)(cp := None)\<rparr>))"

fun deleteConnection :: "nat \<Rightarrow> ptr \<Rightarrow> media \<Rightarrow> media cpp" where
  "deleteConnection 0 p md = Undef"
| "deleteConnection (Suc n) p md =
     cpp_bind (deref (md_conns md) p) (\<lambda>c.
     cpp_bind (if mc_cp c = NULL then Val md
               else cpp_bind (deleteCp (mc_cp c) md)
                      (for_each (\<lambda>q s. if q \<noteq> NULL then deleteConnection n q s else Val s) (mc_channels c)))
       (\<lambda>md1. Val (md1\<lparr>md_conns := (md_conns md1)(p := None)\<rparr>)))"

subsection \<open>Conferences\<close>

definition conf_sendFrame :: "ptr \<Rightarrow> frame option \<Rightarrow> media \<Rightarrow> media cpp" where
  "conf_sendFrame p f md =
     cpp_bind (deref (md_confs md) p) (\<lambda>c.
       if cf_cp c = NULL then Val md else cp_tell (cpc_sendFrame (cf_cp c) f) (cf_cp c) md)"

definition conf_incomingFrame :: "ptr \<Rightarrow> frame option \<Rightarrow> media \<Rightarrow> media cpp" where
  "conf_incomingFrame p f md =
     cpp_bind (deref (md_confs md) p) (\<lambda>c.
       if cf_cp c = NULL then Val md
       else cp_tell (cpc_incomingFrame (cf_cp c) (cf_cp c) f) (cf_cp c) md)"

definition deleteConference :: "ptr \<Rightarrow> media \<Rightarrow> media cpp" where
  "deleteConference p md =
     cpp_bind (deref (md_confs md) p) (\<lambda>c.
     cpp_bind (if cf_cp c = NULL then Val md else deleteCp (cf_cp c) md)
       (\<lambda>md1. Val (md1\<lparr>md_confs := (md_confs md1)(p := None)\<rparr>)))"

subsection \<open>Well-formed endpoints\<close>

text \<open>
  Pointers refer to live objects; only a wrapper has channels and a channel is labelled. Then no
  recursion goes deeper than from a wrapper to its channels.
\<close>

definition conn_ok :: "media \<Rightarrow> mconn \<Rightarrow> bool" where
  "conn_ok md c \<longleftrightarrow>
     (mc_label c \<noteq> '''' \<longrightarrow> mc_channels c = []) \<and>
     (\<forall>q\<in>set (mc_channels c). q \<noteq> NULL \<and> (\<exists>d. md_conns md q = Some d \<and> mc_label d \<noteq> '''')) \<and>
     (mc_owner c \<noteq> NULL \<longrightarrow> (\<exists>w. md_conns md (mc_owner c) = Some w \<and> mc_label w = '''')) \<and>
     (mc_rtp c \<noteq> NULL \<longrightarrow> md_rtps md (mc_rtp c) \<noteq> None) \<and>
     (mc_cp c \<noteq> NULL \<and> md_cps md (mc_cp c) \<noteq> None)"

definition ep_ok :: "media \<Rightarrow> bool" where
  "ep_ok md \<longleftrightarrow> (\<forall>p c. md_conns md p = Some c \<longrightarrow> p \<noteq> NULL \<and> conn_ok md c)"

lemma ep_okD: "ep_ok md \<Longrightarrow> md_conns md p = Some c \<Longrightarrow> p \<noteq> NULL \<and> conn_ok md c"
  by (simp add: ep_ok_def)

text \<open>A store with the same objects, each with the same links, is as well-formed.\<close>

definition same_links :: "mconn \<Rightarrow> mconn \<Rightarrow> bool" where
  "same_links c c' \<longleftrightarrow> mc_label c' = mc_label c \<and> mc_channels c' = mc_channels c \<and>
     mc_owner c' = mc_owner c \<and> mc_rtp c' = mc_rtp c \<and> mc_cp c' = mc_cp c"

definition same_shape :: "media \<Rightarrow> media \<Rightarrow> bool" where
  "same_shape md md' \<longleftrightarrow>
     (\<forall>p. rel_option same_links (md_conns md p) (md_conns md' p)) \<and>
     dom (md_rtps md') = dom (md_rtps md) \<and> dom (md_cps md') = dom (md_cps md)"

lemma same_links_refl [simp]: "same_links c c"
  by (simp add: same_links_def)

lemma same_shape_refl [simp]: "same_shape md md"
  by (simp add: same_shape_def option.rel_refl)

lemma same_links_trans: "same_links a b \<Longrightarrow> same_links b c \<Longrightarrow> same_links a c"
  by (simp add: same_links_def)

lemma same_links_option_trans:
  "rel_option same_links x y \<Longrightarrow> rel_option same_links y z \<Longrightarrow> rel_option same_links x z"
  by (cases x; cases y; cases z) (auto intro: same_links_trans)

lemma same_shape_trans: "same_shape a b \<Longrightarrow> same_shape b c \<Longrightarrow> same_shape a c"
  unfolding same_shape_def using same_links_option_trans by metis

lemma same_shape_conn:
  "same_shape md md' \<Longrightarrow> md_conns md p = Some c \<Longrightarrow> \<exists>c'. md_conns md' p = Some c' \<and> same_links c c'"
  unfolding same_shape_def by (metis option_rel_Some1)

lemma same_shape_conn':
  "same_shape md md' \<Longrightarrow> md_conns md' p = Some c' \<Longrightarrow> \<exists>c. md_conns md p = Some c \<and> same_links c c'"
  unfolding same_shape_def by (metis option_rel_Some2)

lemma same_shape_conn_ok:
  assumes s: "same_shape md md'" and l: "same_links c c'" and ok: "conn_ok md c"
  shows "conn_ok md' c'"
proof -
  have d: "dom (md_rtps md') = dom (md_rtps md)" "dom (md_cps md') = dom (md_cps md)"
    using s by (auto simp: same_shape_def)
  have "\<exists>d. md_conns md' q = Some d \<and> mc_label d \<noteq> ''''"
    if "\<exists>d. md_conns md q = Some d \<and> mc_label d \<noteq> ''''" for q
    using that same_shape_conn [OF s] by (metis same_links_def)
  moreover have "\<exists>d. md_conns md' q = Some d \<and> mc_label d = ''''"
    if "\<exists>d. md_conns md q = Some d \<and> mc_label d = ''''" for q
    using that same_shape_conn [OF s] by (metis same_links_def)
  moreover have "md_rtps md' q \<noteq> None \<longleftrightarrow> md_rtps md q \<noteq> None" "md_cps md' q \<noteq> None \<longleftrightarrow> md_cps md q \<noteq> None" for q
    using d by blast+
  ultimately show ?thesis
    using l ok unfolding conn_ok_def same_links_def by simp
qed

lemma same_shape_ok: "same_shape md md' \<Longrightarrow> ep_ok md \<Longrightarrow> ep_ok md'"
  unfolding ep_ok_def by (metis same_shape_conn' same_shape_conn_ok)

lemma shape_putConn [intro]:
  "md_conns md p = Some c \<Longrightarrow> same_links c c' \<Longrightarrow> same_shape md (putConn p c' md)"
  by (auto simp: same_shape_def option.rel_refl)

lemma shape_putCp [intro]: "md_cps md p \<noteq> None \<Longrightarrow> same_shape md (putCp p d md)"
  by (auto simp: same_shape_def option.rel_refl)

lemma shape_putRtp [intro]: "md_rtps md p \<noteq> None \<Longrightarrow> same_shape md (putRtp p r md)"
  by (auto simp: same_shape_def option.rel_refl)

lemma shape_logCalls [intro, simp]: "same_shape md (logCalls cs md)"
  by (simp add: same_shape_def option.rel_refl)

subsection \<open>What keeps the shape\<close>

lemma for_each_shape:
  assumes "\<And>p s s'. f p s = Val s' \<Longrightarrow> same_shape s s'" and "for_each f ps s = Val s'"
  shows "same_shape s s'"
  by (rule for_each_invariant [where I = "same_shape s", OF _ same_shape_refl assms(2)])
    (use assms(1) same_shape_trans in blast)

lemma counter_down_links [simp]: "same_links c (counter_down c)"
  by (simp add: counter_down_def same_links_def)

lemma counter_down_simps [simp]:
  "mc_owner (counter_down c) = mc_owner c" "mc_label (counter_down c) = mc_label c"
  "mc_channels (counter_down c) = mc_channels c" "mc_rtp (counter_down c) = mc_rtp c"
  by (simp_all add: counter_down_def)

lemma shape_wake_channel: "wake_channel r b md = Val md' \<Longrightarrow> same_shape md md'"
  by (auto simp: wake_channel_def cpp_bind_Val)

lemma shape_increaseCounter: "increaseCounter n p md = Val md' \<Longrightarrow> same_shape md md'"
proof (induction n arbitrary: p md md')
  case (Suc n)
  from Suc.prems obtain c where c: "md_conns md p = Some c" by (auto simp: cpp_bind_Val)
  let ?md = "putConn p (c\<lparr>mc_counter := mc_counter c + 1\<rparr>) md"
  have s: "same_shape md ?md" using c by (auto simp: same_links_def)
  have "same_shape ?md md'"
    using Suc.prems c for_each_shape [OF Suc.IH]
    by (auto simp: cpp_bind_Val Let_def dest: shape_wake_channel split: if_splits)
  with s show ?case by (rule same_shape_trans)
qed simp

lemma shape_decreaseCounter: "decreaseCounter n p md = Val md' \<Longrightarrow> same_shape md md'"
proof (induction n arbitrary: p md md')
  case (Suc n)
  from Suc.prems obtain c where c: "md_conns md p = Some c" by (auto simp: cpp_bind_Val)
  let ?md = "putConn p (counter_down c) md"
  have s: "same_shape md ?md" using c by auto
  have "same_shape ?md md'"
    using Suc.prems c for_each_shape [OF Suc.IH]
    by (auto simp: cpp_bind_Val Let_def dest: shape_wake_channel split: if_splits)
  with s show ?case by (rule same_shape_trans)
qed simp

lemma shape_clearDtmfBuffer: "clearDtmfBuffer n p md = Val md' \<Longrightarrow> same_shape md md'"
proof (induction n arbitrary: p md md')
  case (Suc n)
  then show ?case using for_each_shape [OF Suc.IH]
    by (auto simp: cpp_bind_Val split: if_splits)
qed simp

lemma shape_getNextDtmfBuffer: "getNextDtmfBuffer n p md = Val (md', t) \<Longrightarrow> same_shape md md'"
proof (induction n arbitrary: p md md')
  case (Suc n)
  then show ?case by (auto simp: cpp_bind_Val split_beta split: if_splits)
qed simp

lemma shape_cp_tell: "cp_tell ev cp md = Val md' \<Longrightarrow> same_shape md md'"
  by (auto simp: cp_tell_def cpp_bind_Val)

lemma shape_relay: "relay ev p rtpc md = Val md' \<Longrightarrow> same_shape md md'"
  by (auto simp: relay_def relay_up_def cpp_bind_Val split: if_splits
      dest!: shape_cp_tell intro: same_shape_trans)

lemma shape_payloadTypeChanged: "conn_payloadTypeChanged p pt md = Val md' \<Longrightarrow> same_shape md md'"
  by (auto simp: conn_payloadTypeChanged_def cpp_bind_Val split: if_splits)

lemma shape_cp_close: "cp_close a b cp md = Val md' \<Longrightarrow> same_shape md md'"
proof -
  assume "cp_close a b cp md = Val md'"
  then obtain d where "md_cps md cp = Some d"
    and m: "md' = logCalls (snd (cpc_connectionClosing a b d)) (putCp cp (fst (cpc_connectionClosing a b d)) md)"
    by (auto simp: cp_close_def cpp_bind_Val split_beta)
  then have "same_shape md (putCp cp (fst (cpc_connectionClosing a b d)) md)" by auto
  then show ?thesis unfolding m by (rule same_shape_trans) simp
qed

lemma shape_channelClosed: "conn_channelClosed p md = Val md' \<Longrightarrow> same_shape md md'"
  by (auto simp: conn_channelClosed_def cpp_bind_Val split: if_splits
      dest!: shape_cp_close intro: same_shape_trans)

subsection \<open>Reachable stores\<close>

text \<open>
  Every operation on the endpoints while none is deleted, and any activity of a live RTP channel;
  new objects come at fresh addresses.
\<close>

inductive ep_step :: "media \<Rightarrow> media \<Rightarrow> bool" where
  New: "p \<noteq> NULL \<Longrightarrow> md_conns md p = None \<Longrightarrow> cp \<noteq> NULL \<Longrightarrow> md_cps md cp = None \<Longrightarrow>
    ep_step md (newConnection p cp connectionId label md)"
| NewRtp: "r \<noteq> NULL \<Longrightarrow> md_rtps md r = None \<Longrightarrow> ep_step md (putRtp r ch md)"
| Rtp: "md_rtps md r \<noteq> None \<Longrightarrow> ep_step md (putRtp r ch md)"
| Local: "setLocal p sip rtpc md = Val md' \<Longrightarrow> ep_step md md'"
| Own: "addOwned p q md = Val (md', n) \<Longrightarrow> ep_step md md'"
| Disown: "removeOwned p q md = Val (md', n) \<Longrightarrow> ep_step md md'"
| Owner: "setOwner p q md = Val (md', n) \<Longrightarrow> ep_step md md'"
| Clear: "clearDtmfBuffer n p md = Val md' \<Longrightarrow> ep_step md md'"
| Tone: "getNextDtmfBuffer n p md = Val (md', t) \<Longrightarrow> ep_step md md'"
| Up: "increaseCounter n p md = Val md' \<Longrightarrow> ep_step md md'"
| Down: "decreaseCounter n p md = Val md' \<Longrightarrow> ep_step md md'"
| Frame: "conn_incomingFrame p r f md = Val md' \<Longrightarrow> ep_step md md'"
| Dtmf: "conn_incomingDtmf p r t md = Val md' \<Longrightarrow> ep_step md md'"
| Sent: "conn_frameSent p r f md = Val md' \<Longrightarrow> ep_step md md'"
| Locked: "conn_channelLocked p r md = Val md' \<Longrightarrow> ep_step md md'"
| Unlocked: "conn_channelUnlocked p r md = Val md' \<Longrightarrow> ep_step md md'"
| Pt: "conn_payloadTypeChanged p pt md = Val md' \<Longrightarrow> ep_step md md'"
| Closed: "conn_channelClosed p md = Val md' \<Longrightarrow> ep_step md md'"

inductive ep_reach :: "media \<Rightarrow> bool" where
  Start: "ep_reach noMedia"
| Step: "ep_reach md \<Longrightarrow> ep_step md md' \<Longrightarrow> ep_reach md'"

definition grows :: "media \<Rightarrow> media \<Rightarrow> bool" where
  "grows md md' \<longleftrightarrow>
     (\<forall>q d. md_conns md q = Some d \<longrightarrow> (\<exists>d'. md_conns md' q = Some d' \<and> mc_label d' = mc_label d)) \<and>
     dom (md_rtps md) \<subseteq> dom (md_rtps md') \<and> dom (md_cps md) \<subseteq> dom (md_cps md')"

lemma conn_ok_grows:
  assumes ok: "conn_ok md c" and g: "grows md md'"
  shows "conn_ok md' c"
proof -
  have l: "\<exists>d. md_conns md' q = Some d \<and> P (mc_label d)"
    if "\<exists>d. md_conns md q = Some d \<and> P (mc_label d)" for q P
    using that g unfolding grows_def by fastforce
  have "\<forall>q\<in>set (mc_channels c). q \<noteq> NULL \<and> (\<exists>d. md_conns md' q = Some d \<and> mc_label d \<noteq> '''')"
    using ok l [of _ "\<lambda>x. x \<noteq> ''''"] by (simp add: conn_ok_def)
  moreover have "mc_owner c \<noteq> NULL \<longrightarrow> (\<exists>w. md_conns md' (mc_owner c) = Some w \<and> mc_label w = '''')"
    using ok l [of _ "\<lambda>x. x = ''''"] by (simp add: conn_ok_def)
  moreover have "mc_rtp c \<noteq> NULL \<longrightarrow> md_rtps md' (mc_rtp c) \<noteq> None"
    using ok g unfolding conn_ok_def grows_def by blast
  moreover have "mc_cp c \<noteq> NULL \<and> md_cps md' (mc_cp c) \<noteq> None"
    using ok g unfolding conn_ok_def grows_def by blast
  ultimately show ?thesis using ok by (simp add: conn_ok_def)
qed

lemma ok_grows:
  assumes "ep_ok md" and g: "grows md md'"
    and new: "\<And>q c. md_conns md' q = Some c \<Longrightarrow> md_conns md q = Some c \<or> q \<noteq> NULL \<and> conn_ok md' c"
  shows "ep_ok md'"
  unfolding ep_ok_def using assms(1) new conn_ok_grows [OF _ g] ep_okD by metis

lemma ok_putConn:
  assumes "ep_ok md" and "md_conns md p = Some c" and "mc_label c' = mc_label c" and "conn_ok md c'"
  shows "ep_ok (putConn p c' md)"
proof (rule ok_grows [OF assms(1)])
  show g: "grows md (putConn p c' md)" using assms(2,3) by (simp add: grows_def)
  show "md_conns md q = Some d \<or> q \<noteq> NULL \<and> conn_ok (putConn p c' md) d"
    if "md_conns (putConn p c' md) q = Some d" for q d
    using that conn_ok_grows [OF assms(4) g] ep_okD [OF assms(1,2)] by (auto split: if_splits)
qed

lemma ok_newConnection [inv_intros]:
  assumes "ep_ok md" and "p \<noteq> NULL" "md_conns md p = None" "cp \<noteq> NULL" "md_cps md cp = None"
  shows "ep_ok (newConnection p cp connectionId label md)"
proof (rule ok_grows [OF assms(1)])
  show "grows md (newConnection p cp connectionId label md)"
    using assms(3) by (auto simp: grows_def newConnection_def)
qed (use assms in \<open>auto simp: newConnection_def conn_ok_def split: if_splits\<close>)

lemma ok_newRtp [inv_intros]: "ep_ok md \<Longrightarrow> ep_ok (putRtp r ch md)"
  by (rule ok_grows) (auto simp: grows_def)

lemma ok_setLocal [inv_intros]:
  assumes "ep_ok md" and "setLocal p sip rtpc md = Val md'"
  shows "ep_ok md'"
proof -
  from assms(2) obtain c r d where o: "md_conns md p = Some c" "rtpc \<noteq> NULL" "md_rtps md rtpc = Some r"
      "md_cps md (mc_cp c) = Some d"
    and md': "md' = putConn p (c\<lparr>mc_sip := sip, mc_rtp := rtpc, mc_media := rtp_media r\<rparr>)
                 (putCp (mc_cp c) (d\<lparr>cpc_pt := rtp_pt r, cpc_mediaType := rtp_media r\<rparr>) md)"
    by (auto simp: setLocal_def cpp_bind_Val)
  let ?md = "putCp (mc_cp c) (d\<lparr>cpc_pt := rtp_pt r, cpc_mediaType := rtp_media r\<rparr>) md"
  have "ep_ok ?md" using shape_putCp o(4) assms(1) same_shape_ok by blast
  moreover have "conn_ok ?md c" using ep_okD [OF \<open>ep_ok ?md\<close>] o(1) by simp
  ultimately show ?thesis
    unfolding md' using o by (intro ok_putConn [where c = c]) (auto simp: conn_ok_def)
qed

lemma ok_addOwned [inv_intros]:
  assumes "ep_ok md" and "addOwned p q md = Val (md', n)"
  shows "ep_ok md'"
  using assms ep_okD [OF assms(1)] 
  by (auto simp: addOwned_def cpp_bind_Val split: if_splits intro!: ok_putConn simp: conn_ok_def)

lemma ok_removeOwned [inv_intros]:
  assumes "ep_ok md" and "removeOwned p q md = Val (md', n)"
  shows "ep_ok md'"
  using assms ep_okD [OF assms(1)]
  by (auto simp: removeOwned_def cpp_bind_Val split: if_splits intro!: ok_putConn simp: conn_ok_def)

lemma ok_setOwner [inv_intros]:
  assumes "ep_ok md" and "setOwner p q md = Val (md', n)"
  shows "ep_ok md'"
  using assms ep_okD [OF assms(1)]
  by (auto simp: setOwner_def cpp_bind_Val split: if_splits intro!: ok_putConn simp: conn_ok_def)

lemma ep_step_ok: "ep_step md md' \<Longrightarrow> ep_ok md \<Longrightarrow> ep_ok md'"
  by (induction rule: ep_step.induct)
    (auto intro: inv_intros same_shape_ok shape_clearDtmfBuffer shape_getNextDtmfBuffer
      shape_increaseCounter shape_decreaseCounter shape_relay shape_payloadTypeChanged
      shape_channelClosed simp: conn_incomingFrame_def conn_incomingDtmf_def conn_frameSent_def
      conn_channelLocked_def conn_channelUnlocked_def)

lemma ep_reach_ok: "ep_reach md \<Longrightarrow> ep_ok md"
  by (induction rule: ep_reach.induct) (auto simp: ep_ok_def noMedia_def dest: ep_step_ok)

subsection \<open>The recursions end\<close>

lemma find_owned_live:
  assumes "\<forall>q\<in>set qs. q \<noteq> NULL \<and> md_conns md q \<noteq> None"
  shows "\<exists>q. find_owned P qs md = Val q \<and> (q = NULL \<or> q \<in> set qs)"
  using assms
proof (induction qs)
  case (Cons q qs)
  then obtain d where "md_conns md q = Some d" by auto
  with Cons show ?case by (auto simp: deref_def)
qed simp

lemma channels_live:
  assumes "ep_ok md" and "md_conns md p = Some c" and "q \<in> set (mc_channels c)"
  shows "q \<noteq> NULL \<and> (\<exists>d. md_conns md q = Some d \<and> mc_label d \<noteq> '''' \<and> mc_channels d = [])"
  using ep_okD [OF assms(1,2)] assms(3) ep_okD [OF assms(1)] unfolding conn_ok_def by metis

lemma rtp_live:
  assumes "ep_ok md" and "md_conns md p = Some c" and "mc_rtp c \<noteq> NULL"
  obtains r where "md_rtps md (mc_rtp c) = Some r"
  using ep_okD [OF assms(1,2)] assms(3) unfolding conn_ok_def by auto

lemma conn_live: "ep_ok md \<Longrightarrow> md_conns md p = Some c \<Longrightarrow> p \<noteq> NULL"
  using ep_okD [of md p c] by simp

lemma search_channels:
  assumes "ep_ok md" and "md_conns md p = Some c"
  obtains "find_owned P (mc_channels c) md = Val NULL"
  | q d where "find_owned P (mc_channels c) md = Val q" and "q \<noteq> NULL" and "md_conns md q = Some d"
      and "mc_channels d = []"
proof -
  have "\<forall>q\<in>set (mc_channels c). q \<noteq> NULL \<and> md_conns md q \<noteq> None"
    using channels_live [OF assms] by blast
  from find_owned_live [OF this, of P] that show ?thesis
    using channels_live [OF assms] by blast
qed

text \<open>
  A query that reads the RTP channel where there is one, and otherwise searches the channels and
  asks the one it finds, is settled at depth two.
\<close>

lemma query_settles:
  assumes ok: "ep_ok md" and c: "md_conns md p = Some c"
    and with_rtp: "\<And>n r. p \<noteq> NULL \<Longrightarrow> mc_rtp c \<noteq> NULL \<Longrightarrow> md_rtps md (mc_rtp c) = Some r \<Longrightarrow>
        f (Suc n) = Val (ans r)"
    and found: "\<And>n q. p \<noteq> NULL \<Longrightarrow> mc_rtp c = NULL \<Longrightarrow>
        find_owned P (mc_channels c) md = Val q \<Longrightarrow> f (Suc n) = (if q = NULL then Val z else g n q)"
    and leaf: "\<And>q d. md_conns md q = Some d \<Longrightarrow> mc_channels d = [] \<Longrightarrow> \<exists>v. \<forall>n. g (Suc n) q = Val v"
  shows "\<exists>v. \<forall>n. f (Suc (Suc n)) = Val v"
proof (cases "mc_rtp c = NULL")
  case False
  then obtain r where "md_rtps md (mc_rtp c) = Some r" by (rule rtp_live [OF ok c])
  with with_rtp [OF conn_live [OF ok c] False] show ?thesis by blast
next
  case True
  show ?thesis
  proof (rule search_channels [OF ok c, of P])
    assume "find_owned P (mc_channels c) md = Val NULL"
    with found [OF conn_live [OF ok c] True] show ?thesis by simp
  next
    fix q d assume f: "find_owned P (mc_channels c) md = Val q"
      and q: "q \<noteq> NULL" "md_conns md q = Some d" "mc_channels d = []"
    from leaf [OF q(2,3)] found [OF conn_live [OF ok c] True f] q(1) show ?thesis by simp
  qed
qed

lemma flags_leaf:
  assumes "ep_ok md" and "md_conns md p = Some c" and "mc_channels c = []"
  shows "\<exists>v. \<forall>n. getFlags (Suc n) p mt md = Val v"
proof (cases "mc_rtp c = NULL")
  case False
  then obtain r where "md_rtps md (mc_rtp c) = Some r" by (rule rtp_live [OF assms(1,2)])
  with False conn_live [OF assms(1,2)] assms(2) show ?thesis by simp
qed (use conn_live [OF assms(1,2)] assms in simp)

lemma flags_settles:
  assumes "ep_ok md" and "md_conns md p = Some c"
  shows "\<exists>v. \<forall>n. getFlags (Suc (Suc n)) p mt md = Val v"
  by (rule query_settles [where f = "\<lambda>n. getFlags n p mt md" and P = "\<lambda>d. mc_media d = mt" and z = 0
        and g = "\<lambda>n q. getFlags n q MEDIACTRL_MEDIA_UNKNOWN md"
        and ans = "\<lambda>r. if mt = MEDIACTRL_MEDIA_UNKNOWN \<or> mt = mc_media c then rtp_flags r else 0",
        OF assms _ _ flags_leaf [OF assms(1)]]) (use assms(2) in auto)

lemma tone_leaf:
  assumes "ep_ok md" and "md_conns md p = Some c" and "mc_channels c = []"
  shows "\<exists>v. \<forall>n. getNextDtmfBuffer (Suc n) p md = Val v"
proof (cases "mc_rtp c = NULL")
  case False
  then obtain r where "md_rtps md (mc_rtp c) = Some r" by (rule rtp_live [OF assms(1,2)])
  with False conn_live [OF assms(1,2)] assms(2) show ?thesis by (simp add: split_beta)
qed (use conn_live [OF assms(1,2)] assms in simp)

lemma tone_settles:
  assumes "ep_ok md" and "md_conns md p = Some c"
  shows "\<exists>v. \<forall>n. getNextDtmfBuffer (Suc (Suc n)) p md = Val v"
  by (rule query_settles [where f = "\<lambda>n. getNextDtmfBuffer n p md"
        and P = "\<lambda>d. mc_media d = MEDIACTRL_MEDIA_AUDIO" and z = "(md, -1)"
        and g = "\<lambda>n q. getNextDtmfBuffer n q md"
        and ans = "\<lambda>r. (putRtp (mc_rtp c) (fst (rtp_getNextDtmfBuffer r)) md, snd (rtp_getNextDtmfBuffer r))",
        OF assms _ _ tone_leaf [OF assms(1)]]) (use assms(2) in \<open>auto simp: split_beta\<close>)

lemma format_leaf:
  assumes "ep_ok md" and "md_conns md p = Some c" and "mc_channels c = []"
  shows "\<exists>v. \<forall>n. getFormat (Suc n) p mt md = Val v"
proof (cases "mc_rtp c = NULL")
  case False
  then obtain r where "md_rtps md (mc_rtp c) = Some r" by (rule rtp_live [OF assms(1,2)])
  with False conn_live [OF assms(1,2)] assms(2) show ?thesis by simp
qed (use conn_live [OF assms(1,2)] assms in simp)

lemma format_settles:
  assumes "ep_ok md" and "md_conns md p = Some c"
  shows "\<exists>v. \<forall>n. getFormat (Suc (Suc n)) p mt md = Val v"
proof (cases "mc_rtp c = NULL \<and> length (mc_channels c) = 1")
  case True
  then obtain q where q: "mc_channels c = [q]" by (auto simp: length_Suc_conv)
  then obtain d where d: "md_conns md q = Some d" "mc_channels d = []"
    using channels_live [OF assms, of q] by auto
  from format_leaf [OF assms(1) d] True q conn_live [OF assms] assms(2) show ?thesis by simp
next
  case False
  show ?thesis
    by (rule query_settles [where f = "\<lambda>n. getFormat n p mt md" and P = "\<lambda>d. mc_media d = mt" and z = "-1"
        and g = "\<lambda>n q. getFormat n q mt md"
        and ans = "\<lambda>r. if mt = MEDIACTRL_MEDIA_UNKNOWN \<or> mt = mc_media c then rtp_pt r else -1",
        OF assms _ _ format_leaf [OF assms(1)]]) (use assms(2) False in auto)
qed

text \<open>
  The recursions over wrappers and channels end: in every reachable store, asking any
  connection for its format, its flags or its next DTMF tone has a defined result at depth two,
  and a greater depth changes nothing.
\<close>

theorem endpoint_queries_return:
  assumes "ep_reach md" and "md_conns md p = Some c"
  shows "(\<exists>v. \<forall>n. getFormat (n + 2) p mt md = Val v) \<and> (\<exists>v. \<forall>n. getFlags (n + 2) p mt md = Val v) \<and>
     (\<exists>v. \<forall>n. getNextDtmfBuffer (n + 2) p md = Val v)"
  using format_settles flags_settles tone_settles ep_reach_ok [OF assms(1)] assms(2) by simp

theorem endpoint_queries_return_witness:
  "\<exists>v. \<forall>n. getFormat (n + 2) 5 0 (newConnection 5 6 ''a~b'' '''' noMedia) = Val v"
proof -
  have "ep_reach (newConnection 5 6 ''a~b'' '''' noMedia)"
    by (rule ep_reach.Step [OF ep_reach.Start ep_step.New]) (simp_all add: noMedia_def)
  moreover have "\<exists>c. md_conns (newConnection 5 6 ''a~b'' '''' noMedia) 5 = Some c"
    by (simp add: newConnection_def)
  ultimately show ?thesis using endpoint_queries_return by blast
qed

subsection \<open>Delivery\<close>

lemma cp_tell_calls:
  "cp \<noteq> NULL \<Longrightarrow> md_cps md cp = Some d \<Longrightarrow> cp_tell ev cp md = Val (logCalls (ev d) md)"
  by (simp add: cp_tell_def)

lemma logCalls_twice [simp]: "logCalls cs' (logCalls cs md) = logCalls (cs @ cs') md"
  by (simp add: logCalls_def)

lemma relay_calls:
  assumes "p \<noteq> NULL" "md_conns md p = Some c" "mc_cp c \<noteq> NULL" "md_cps md (mc_cp c) = Some d"
    and "mc_owner c \<noteq> NULL" "md_conns md (mc_owner c) = Some w" "mc_cp w \<noteq> NULL"
    "md_cps md (mc_cp w) = Some e" "rtpc \<noteq> NULL"
  shows "relay ev p rtpc md = Val (logCalls (ev (mc_cp w) (mc_cp c) d @ ev (mc_cp w) (mc_cp c) e) md)"
  using assms by (simp add: relay_def relay_up_def cp_tell_calls)

lemma relay_ok:
  assumes "ep_ok md" "md_conns md p = Some c" "mc_owner c \<noteq> NULL" "rtpc \<noteq> NULL"
  shows "\<exists>w d e. md_conns md (mc_owner c) = Some w \<and> md_cps md (mc_cp c) = Some d \<and>
     md_cps md (mc_cp w) = Some e \<and>
     (\<forall>ev. relay ev p rtpc md = Val (logCalls (ev (mc_cp w) (mc_cp c) d @ ev (mc_cp w) (mc_cp c) e) md))"
proof -
  have c: "p \<noteq> NULL" "conn_ok md c" using ep_okD [OF assms(1,2)] by auto
  then obtain w d where w: "md_conns md (mc_owner c) = Some w" and d: "md_cps md (mc_cp c) = Some d" "mc_cp c \<noteq> NULL"
    using assms(3) by (auto simp: conn_ok_def)
  then obtain e where e: "md_cps md (mc_cp w) = Some e" "mc_cp w \<noteq> NULL"
    using ep_okD [OF assms(1) w] by (auto simp: conn_ok_def)
  from relay_calls [OF c(1) assms(2) d(2,1) assms(3) w e(2,1) assms(4)] w d e show ?thesis by blast
qed

text \<open>
  A frame that arrives on a channel of a call is handed to every package that listens to the
  channel and then to every package that listens to the whole call, with the call's and the
  channel's package connections as arguments; nobody else is called and no object changes.
\<close>

theorem frame_reaches_listeners:
  assumes "ep_reach md" and "md_conns md p = Some c" and "mc_owner c \<noteq> NULL" and "rtpc \<noteq> NULL"
  shows "\<exists>w d e. md_conns md (mc_owner c) = Some w \<and> md_cps md (mc_cp c) = Some d \<and>
     md_cps md (mc_cp w) = Some e \<and>
     conn_incomingFrame p rtpc (Some f) md =
       Val (md\<lparr>md_calls := md_calls md @
         map (\<lambda>pkg. (pkg, CallIncomingFrame (mc_cp w) (mc_cp c) f))
           (filter (\<lambda>pkg. pkg \<noteq> NULL) (cpc_packages d) @ filter (\<lambda>pkg. pkg \<noteq> NULL) (cpc_packages e))\<rparr>)"
proof -
  obtain w d e where "md_conns md (mc_owner c) = Some w" "md_cps md (mc_cp c) = Some d"
      "md_cps md (mc_cp w) = Some e"
    and r: "\<And>ev. relay ev p rtpc md = Val (logCalls (ev (mc_cp w) (mc_cp c) d @ ev (mc_cp w) (mc_cp c) e) md)"
    using relay_ok [OF ep_reach_ok [OF assms(1)] assms(2-4)] by blast
  then show ?thesis
    by (simp add: conn_incomingFrame_def cpc_incomingFrame_def fan_out_filter logCalls_def)
qed

definition demo_call :: media where
  "demo_call =
     (let md1 = newConnection 5 6 ''a~b'' '''' noMedia;
          md2 = newConnection 7 8 ''a~b'' ''x'' md1
      in case setOwner 7 5 md2 of Val (md3, _) \<Rightarrow> md3 | Undef \<Rightarrow> md2)"

lemma demo_call_reach: "ep_reach demo_call"
proof -
  let ?md1 = "newConnection 5 6 ''a~b'' '''' noMedia" and ?md2 = "newConnection 7 8 ''a~b'' ''x'' (newConnection 5 6 ''a~b'' '''' noMedia)"
  have 1: "ep_reach ?md1"
    by (rule ep_reach.Step [OF ep_reach.Start ep_step.New]) (simp_all add: noMedia_def)
  have 2: "ep_reach ?md2"
    by (rule ep_reach.Step [OF 1 ep_step.New]) (simp_all add: noMedia_def newConnection_def)
  have "setOwner 7 5 ?md2 = Val (demo_call, 0)"
    by (simp add: demo_call_def setOwner_def newConnection_def)
  from ep_reach.Step [OF 2 ep_step.Owner [OF this]] show ?thesis .
qed

lemma demo_call_conn: "\<exists>c. md_conns demo_call 7 = Some c \<and> mc_owner c = 5 \<and> mc_cp c = 8"
  by (simp add: demo_call_def setOwner_def newConnection_def)

theorem frame_reaches_listeners_witness:
  "\<exists>d e. md_cps demo_call 8 = Some d \<and> md_cps demo_call 6 = Some e \<and> conn_incomingFrame 7 9 (Some (newFrame 0 0)) demo_call =
     Val (demo_call\<lparr>md_calls := md_calls demo_call @
       map (\<lambda>pkg. (pkg, CallIncomingFrame 6 8 (newFrame 0 0)))
         (filter (\<lambda>pkg. pkg \<noteq> NULL) (cpc_packages d) @ filter (\<lambda>pkg. pkg \<noteq> NULL) (cpc_packages e))\<rparr>)"
proof -
  obtain c where c: "md_conns demo_call 7 = Some c" "mc_owner c = 5" "mc_cp c = 8"
    using demo_call_conn by blast
  have o5: "mc_owner c \<noteq> NULL" using c(2) by simp
  have "(9 :: ptr) \<noteq> NULL" by simp
  from frame_reaches_listeners [OF demo_call_reach c(1) o5 this, of "newFrame 0 0"]
  obtain w d e where w: "md_conns demo_call 5 = Some w" and d: "md_cps demo_call 8 = Some d"
    and e: "md_cps demo_call (mc_cp w) = Some e" and r: "conn_incomingFrame 7 9 (Some (newFrame 0 0)) demo_call =
      Val (demo_call\<lparr>md_calls := md_calls demo_call @
         map (\<lambda>pkg. (pkg, CallIncomingFrame (mc_cp w) 8 (newFrame 0 0)))
           (filter (\<lambda>pkg. pkg \<noteq> NULL) (cpc_packages d) @ filter (\<lambda>pkg. pkg \<noteq> NULL) (cpc_packages e))\<rparr>)"
    unfolding c(2,3) by blast
  have "mc_cp w = 6" using w by (auto simp: demo_call_def setOwner_def newConnection_def)
  with d e r show ?thesis by auto
qed

subsection \<open>Use counters and the thread of a channel\<close>

text \<open>
  A call in use by \<open>k\<close> entities: the wrapper and its channels all count \<open>k\<close>, and the thread of
  every channel is awake exactly if there is a user.
\<close>

definition chan_at :: "media \<Rightarrow> nat \<Rightarrow> bool \<Rightarrow> ptr \<Rightarrow> bool" where
  "chan_at md k b q \<longleftrightarrow> q \<noteq> NULL \<and> (\<exists>d r. md_conns md q = Some d \<and> mc_label d \<noteq> '''' \<and>
     mc_owner d \<noteq> NULL \<and> unat (mc_counter d) = k \<and> mc_rtp d \<noteq> NULL \<and>
     md_rtps md (mc_rtp d) = Some r \<and> rtp_active r = b)"

definition in_use :: "media \<Rightarrow> ptr \<Rightarrow> nat \<Rightarrow> bool" where
  "in_use md p k \<longleftrightarrow> p \<noteq> NULL \<and> (\<exists>c. md_conns md p = Some c \<and> mc_label c = '''' \<and>
     mc_channels c \<noteq> [] \<and> distinct (mc_channels c) \<and> p \<notin> set (mc_channels c) \<and>
     unat (mc_counter c) = k \<and> (\<forall>q\<in>set (mc_channels c). chan_at md k (0 < k) q))"

text \<open>One channel counts; other connections stay, a thread that has the wanted state keeps it.\<close>

definition counts_one :: "media \<Rightarrow> media \<Rightarrow> ptr \<Rightarrow> bool \<Rightarrow> bool" where
  "counts_one md md' q b \<longleftrightarrow>
     (\<forall>x. x \<noteq> q \<longrightarrow> md_conns md' x = md_conns md x) \<and>
     (\<forall>x r. md_rtps md x = Some r \<longrightarrow>
        (\<exists>r'. md_rtps md' x = Some r' \<and> (rtp_active r' = rtp_active r \<or> rtp_active r' = b)))"

lemma unat_Suc_u16: "Suc (unat (w :: u16)) < 65536 \<Longrightarrow> unat (w + 1) = Suc (unat w)"
  by (simp add: unat_word_ariths)

lemma wakeUp_active [simp]: "rtp_active (rtp_wakeUp b r) = b"
  by (simp add: rtp_wakeUp_def)

text \<open>Both directions of counting, as one operation with its effect on the number of users.\<close>

definition count_op :: "bool \<Rightarrow> nat \<Rightarrow> ptr \<Rightarrow> media \<Rightarrow> media cpp" where
  "count_op up = (if up then increaseCounter else decreaseCounter)"

definition users_after :: "bool \<Rightarrow> nat \<Rightarrow> nat" where
  "users_after up k = (if up then Suc k else k - 1)"

lemma chan_atE:
  assumes "chan_at md k b q"
  obtains d r where "q \<noteq> NULL" "md_conns md q = Some d" "mc_label d \<noteq> ''''" "mc_owner d \<noteq> NULL"
    "unat (mc_counter d) = k" "mc_rtp d \<noteq> NULL" "md_rtps md (mc_rtp d) = Some r" "rtp_active r = b"
  using assms unfolding chan_at_def by blast

lemma counter_down_unat: "unat (mc_counter (counter_down c)) = unat (mc_counter c) - 1"
  by (auto simp: counter_down_def unat_minus_one word_gt_0)

lemma count_channel:
  assumes "chan_at md k b q" and "users_after up k < 65536"
    and "b = (0 < k) \<or> b = (0 < users_after up k)"
  shows "\<exists>md'. count_op up (Suc n) q md = Val md' \<and>
     chan_at md' (users_after up k) (0 < users_after up k) q \<and> counts_one md md' q (0 < users_after up k)"
proof -
  from assms(1) obtain d r where d: "q \<noteq> NULL" "md_conns md q = Some d" "mc_label d \<noteq> ''''"
      "mc_owner d \<noteq> NULL" "unat (mc_counter d) = k" "mc_rtp d \<noteq> NULL" "md_rtps md (mc_rtp d) = Some r"
      "rtp_active r = b"
    by (rule chan_atE)
  show ?thesis
  proof (cases up)
    case True
    let ?md = "putRtp (mc_rtp d) (rtp_wakeUp True r) (putConn q (d\<lparr>mc_counter := mc_counter d + 1\<rparr>) md)"
    have "count_op up (Suc n) q md = Val ?md" using d True by (simp add: count_op_def wake_channel_def)
    moreover have "unat (mc_counter d + 1) = Suc k"
      using unat_Suc_u16 [of "mc_counter d"] d(5) assms(2) True by (simp add: users_after_def)
    ultimately show ?thesis using d True by (auto simp: chan_at_def counts_one_def users_after_def)
  next
    case False
    have u: "unat (mc_counter (counter_down d)) = k - 1" using d(5) by (simp add: counter_down_unat)
    show ?thesis
    proof (cases "k - 1 = 0")
      case True
      let ?md = "putRtp (mc_rtp d) (rtp_wakeUp False r) (putConn q (counter_down d) md)"
      have "mc_counter (counter_down d) = 0" using u True by (simp add: unat_eq_0)
      then have "count_op up (Suc n) q md = Val ?md"
        using d False by (simp add: count_op_def wake_channel_def Let_def)
      with d u False True show ?thesis by (auto simp: chan_at_def counts_one_def users_after_def)
    next
      case pos: False
      let ?md = "putConn q (counter_down d) md"
      have "mc_counter (counter_down d) \<noteq> 0" using u pos by (metis unat_0)
      then have "count_op up (Suc n) q md = Val ?md"
        using d False by (simp add: count_op_def Let_def)
      moreover have "b" using assms(3) False pos by (auto simp: users_after_def)
      ultimately show ?thesis using d u False pos
        by (auto simp: chan_at_def counts_one_def users_after_def)
    qed
  qed
qed

lemma counts_one_keeps:
  assumes "counts_one md md' q b'" and "chan_at md k b x" and "x \<noteq> q"
  shows "chan_at md' k b x \<or> chan_at md' k b' x"
proof -
  from assms(2) obtain d r where d: "x \<noteq> NULL" "md_conns md x = Some d" "mc_label d \<noteq> ''''"
      "mc_owner d \<noteq> NULL" "unat (mc_counter d) = k" "mc_rtp d \<noteq> NULL" "md_rtps md (mc_rtp d) = Some r"
      "rtp_active r = b"
    by (rule chan_atE)
  moreover obtain r' where "md_rtps md' (mc_rtp d) = Some r'" "rtp_active r' = b \<or> rtp_active r' = b'"
    using assms(1) d(7,8) unfolding counts_one_def by blast
  moreover have "md_conns md' x = Some d" using assms(1,3) d(2) by (simp add: counts_one_def)
  ultimately show ?thesis unfolding chan_at_def by blast
qed

lemma count_channels:
  assumes "distinct qs" and "users_after up k < 65536" and "b' = (0 < users_after up k)"
    and "\<forall>q\<in>set qs. chan_at md k (0 < k) q \<or> chan_at md k b' q"
  shows "\<exists>md'. for_each (count_op up (Suc n)) qs md = Val md' \<and>
     (\<forall>q\<in>set qs. chan_at md' (users_after up k) b' q) \<and>
     (\<forall>x. x \<notin> set qs \<longrightarrow> md_conns md' x = md_conns md x) \<and>
     (\<forall>x j. x \<notin> set qs \<longrightarrow> chan_at md j b' x \<longrightarrow> chan_at md' j b' x)"
  using assms
proof (induction qs arbitrary: md)
  case (Cons q qs)
  obtain b where b: "chan_at md k b q" "b = (0 < k) \<or> b = (0 < users_after up k)"
    using Cons.prems(3,4) by auto
  from count_channel [OF b(1) Cons.prems(2) b(2)] obtain md1 where
    1: "count_op up (Suc n) q md = Val md1" "chan_at md1 (users_after up k) b' q" "counts_one md md1 q b'"
    unfolding Cons.prems(3) by blast
  have "chan_at md1 k (0 < k) x \<or> chan_at md1 k b' x" if "x \<in> set qs" for x
    using that Cons.prems(1,4) counts_one_keeps [OF 1(3), of k _ x] by (metis distinct.simps(2) list.set_intros(2))
  with Cons.IH [of md1] Cons.prems(1-3) obtain md' where
    2: "for_each (count_op up (Suc n)) qs md1 = Val md'" "\<forall>x\<in>set qs. chan_at md' (users_after up k) b' x"
      "\<forall>x. x \<notin> set qs \<longrightarrow> md_conns md' x = md_conns md1 x"
      "\<forall>x j. x \<notin> set qs \<longrightarrow> chan_at md1 j b' x \<longrightarrow> chan_at md' j b' x"
    by auto
  have "chan_at md' (users_after up k) b' q" using 1(2) 2(4) Cons.prems(1) by auto
  moreover have "md_conns md' x = md_conns md x" if "x \<notin> set (q # qs)" for x
    using that 1(3) 2(3) by (simp add: counts_one_def)
  moreover have "chan_at md' j b' x" if "x \<notin> set (q # qs)" "chan_at md j b' x" for x j
    using that 1(3) 2(4) counts_one_keeps by fastforce
  ultimately show ?case using 1(1) 2(1,2) by auto
qed simp

lemma in_use_wrapper:
  assumes c: "p \<noteq> NULL" "md_conns md p = Some c" "mc_label c = ''''" "mc_channels c \<noteq> []"
      "distinct (mc_channels c)" "p \<notin> set (mc_channels c)"
    and c': "mc_label c' = ''''" "mc_channels c' = mc_channels c" "unat (mc_counter c') = users_after up k"
    and use: "\<forall>q\<in>set (mc_channels c). chan_at md k (0 < k) q" and bound: "users_after up k < 65536"
    and run: "count_op up (Suc (Suc n)) p md = for_each (count_op up (Suc n)) (mc_channels c) (putConn p c' md)"
  shows "\<exists>md'. count_op up (Suc (Suc n)) p md = Val md' \<and> in_use md' p (users_after up k)"
proof -
  have "chan_at (putConn p c' md) k (0 < k) q" if "q \<in> set (mc_channels c)" for q
  proof -
    have "chan_at md k (0 < k) q" "q \<noteq> p" using use c(6) that by auto
    then show ?thesis unfolding chan_at_def by simp
  qed
  then obtain md' where "for_each (count_op up (Suc n)) (mc_channels c) (putConn p c' md) = Val md'"
      "\<forall>q\<in>set (mc_channels c). chan_at md' (users_after up k) (0 < users_after up k) q"
      "md_conns md' p = Some c'"
    using count_channels [OF c(5) bound refl, where md = "putConn p c' md" and n = n] c(6) by auto
  with run c c' show ?thesis by (auto simp: in_use_def)
qed

lemma count_call:
  assumes "in_use md p k" and "users_after up k < 65536"
  shows "\<exists>md'. count_op up (Suc (Suc n)) p md = Val md' \<and> in_use md' p (users_after up k)"
proof -
  from assms(1) obtain c where c: "p \<noteq> NULL" "md_conns md p = Some c" "mc_label c = ''''"
      "mc_channels c \<noteq> []" "distinct (mc_channels c)" "p \<notin> set (mc_channels c)"
      "unat (mc_counter c) = k" "\<forall>q\<in>set (mc_channels c). chan_at md k (0 < k) q"
    unfolding in_use_def by blast
  show ?thesis
  proof (cases up)
    case True
    have "unat (mc_counter c + 1) = users_after up k"
      using unat_Suc_u16 [of "mc_counter c"] c(7) assms(2) True by (simp add: users_after_def)
    then show ?thesis
      by (intro in_use_wrapper [OF c(1-6), where c' = "c\<lparr>mc_counter := mc_counter c + 1\<rparr>"])
        (use c(1-4,8) True assms(2) in \<open>simp_all add: count_op_def\<close>)
  next
    case False
    have "unat (mc_counter (counter_down c)) = users_after up k"
      using c(7) False by (simp add: counter_down_unat users_after_def)
    then show ?thesis
      by (intro in_use_wrapper [OF c(1-6), where c' = "counter_down c"])
        (use c(1-4,8) False assms(2) in \<open>simp_all add: count_op_def Let_def\<close>)
  qed
qed

fun count_history :: "bool list \<Rightarrow> ptr \<Rightarrow> media \<Rightarrow> media cpp" where
  "count_history [] p md = Val md"
| "count_history (up # ups) p md =
     cpp_bind (if up then increaseCounter 2 p md else decreaseCounter 2 p md) (count_history ups p)"

fun users :: "bool list \<Rightarrow> nat \<Rightarrow> nat" where
  "users [] k = k"
| "users (up # ups) k = users ups (users_after up k)"

fun users_fit :: "bool list \<Rightarrow> nat \<Rightarrow> bool" where
  "users_fit [] k \<longleftrightarrow> True"
| "users_fit (up # ups) k \<longleftrightarrow> users_after up k < 65536 \<and> users_fit ups (users_after up k)"

text \<open>
  The 16-bit counters of a call and its channels implement the number of its users: after any
  history of \<open>increaseCounter\<close> and \<open>decreaseCounter\<close> on the call in which that number stays below
  65536, the wrapper and every channel count exactly the users there are, and the thread of
  every channel is awake exactly if there is one.
\<close>

theorem counter_counts_users:
  assumes "in_use md p k" and "users_fit ups k"
  shows "\<exists>md'. count_history ups p md = Val md' \<and> in_use md' p (users ups k)"
  using assms
proof (induction ups arbitrary: md k)
  case (Cons up ups)
  from count_call [OF Cons.prems(1), of up 0] Cons.prems(2) obtain md1 where
    "count_op up 2 p md = Val md1" "in_use md1 p (users_after up k)" by (auto simp: numeral_2_eq_2)
  with Cons.IH [of md1] Cons.prems(2) show ?case by (auto simp: count_op_def split: if_splits)
qed simp

definition one_channel_call :: media where
  "one_channel_call = noMedia\<lparr>
     md_conns := [5 \<mapsto> \<lparr>mc_media = -1, mc_Id = ''a~b'', mc_label = '''', mc_cp = 6, mc_sip = 1,
        mc_rtp = NULL, mc_channels = [7], mc_owner = NULL, mc_counter = 0\<rparr>,
      7 \<mapsto> \<lparr>mc_media = 0, mc_Id = ''a~b'', mc_label = ''x'', mc_cp = 8, mc_sip = 1,
        mc_rtp = 9, mc_channels = [], mc_owner = 5, mc_counter = 0\<rparr>],
     md_rtps := [9 \<mapsto> newRtp 0 4000 ''x'']\<rparr>"

theorem counter_counts_users_witness:
  "\<exists>md'. count_history [True, True, False] 5 one_channel_call = Val md' \<and> in_use md' 5 1"
proof -
  have "in_use one_channel_call 5 0"
    by (simp add: in_use_def one_channel_call_def chan_at_def newRtp_def)
  moreover have "users_fit [True, True, False] 0" by (simp add: users_after_def)
  ultimately have "\<exists>md'. count_history [True, True, False] 5 one_channel_call = Val md' \<and>
      in_use md' 5 (users [True, True, False] 0)"
    by (rule counter_counts_users)
  then show ?thesis by (simp add: users_after_def)
qed

end
