(* ===== verification/SipTransaction.thy ===== *)
theory SipTransaction
  imports Endpoint
begin

text \<open>
  \<open>src/MediaCtrlSip.cxx\<close>: class \<open>MediaCtrlSipTransaction\<close>, a call. It owns the RTP channels, finds
  them by local port or by label and passes their events to the endpoint that was registered
  last for the label, unless that is the core, which ignores them. \<open>std::map\<close>'s \<open>operator[]\<close> enters NULL for an unknown key, here as in the
  source. The SIP dialog itself is reSIProcate's.
\<close>

subsection \<open>State\<close>

definition newSip :: "string \<Rightarrow> siptx" where
  "newSip callId =
     \<lparr>sp_callId = callId, sp_active = False, sp_as = False, sp_negotiated = False, sp_cfwId = '''',
      sp_fromTag = '''', sp_toTag = '''', sp_connectionId = '''', sp_rtpPorts = [], sp_rtpLabels = [],
      sp_byPort = [], sp_byLabel = [], sp_managers = [], sp_byes = 0\<rparr>"

definition setAS :: "string \<Rightarrow> siptx \<Rightarrow> siptx" where
  "setAS cfwId t = t\<lparr>sp_as := True, sp_cfwId := cfwId\<rparr>"

definition setNegotiated :: "siptx \<Rightarrow> siptx" where
  "setNegotiated t = t\<lparr>sp_negotiated := True\<rparr>"

definition setTags :: "string \<Rightarrow> string \<Rightarrow> siptx \<Rightarrow> siptx" where
  "setTags fromTag toTag t =
     t\<lparr>sp_fromTag := fromTag, sp_toTag := toTag, sp_connectionId := fromTag @ ''~'' @ toTag\<rparr>"

definition sendBye :: "siptx \<Rightarrow> siptx" where
  "sendBye t = t\<lparr>sp_byes := sp_byes t + 1\<rparr>"

subsection \<open>Finding a channel\<close>

definition chanByPort :: "u16 \<Rightarrow> siptx \<Rightarrow> ptr \<times> siptx" where
  "chanByPort port t = (let (r, m) = smap_index NULL port (sp_byPort t) in (r, t\<lparr>sp_byPort := m\<rparr>))"

definition chanByLabel :: "string \<Rightarrow> siptx \<Rightarrow> ptr \<times> siptx" where
  "chanByLabel label t = (let (r, m) = smap_index NULL label (sp_byLabel t) in (r, t\<lparr>sp_byLabel := m\<rparr>))"

fun rtpExists :: "(ptr \<rightharpoonup> rtp) \<Rightarrow> string \<Rightarrow> u16 \<Rightarrow> u16 list \<Rightarrow> siptx \<Rightarrow> (siptx \<times> bool) cpp" where
  "rtpExists h ip port [] t = Val (t, False)"
| "rtpExists h ip port (q # qs) t =
     (let (r, t1) = chanByPort q t in
      if r \<noteq> NULL then
        cpp_bind (deref h r) (\<lambda>ch.
          if ip = rtp_dstIp ch \<and> port = rtp_dstPort ch then Val (t1, True)
          else rtpExists h ip port qs t1)
      else rtpExists h ip port qs t1)"

definition getConnectionIdByPort :: "(ptr \<rightharpoonup> rtp) \<Rightarrow> u16 \<Rightarrow> siptx \<Rightarrow> (siptx \<times> string) cpp" where
  "getConnectionIdByPort h port t =
     (if port = 0 then Val (t, sp_connectionId t)
      else let (r, t1) = chanByPort port t in
        if r = NULL then Val (t1, '''')
        else cpp_bind (deref h r) (\<lambda>ch. Val (t1, sp_connectionId t1 @ ''/'' @ rtp_label ch)))"

definition getConnectionIdByLabel :: "(ptr \<rightharpoonup> rtp) \<Rightarrow> string \<Rightarrow> siptx \<Rightarrow> (siptx \<times> string) cpp" where
  "getConnectionIdByLabel h label t =
     (let (r, t1) = chanByLabel label t in
      if r = NULL then Val (t1, '''')
      else cpp_bind (deref h r) (\<lambda>ch. Val (t1, sp_connectionId t1 @ ''/'' @ rtp_label ch)))"

definition getMediaLabel :: "(ptr \<rightharpoonup> rtp) \<Rightarrow> u16 \<Rightarrow> siptx \<Rightarrow> (siptx \<times> string) cpp" where
  "getMediaLabel h port t =
     (let (r, t1) = chanByPort port t in
      if r = NULL then Val (t1, '''') else cpp_bind (deref h r) (\<lambda>ch. Val (t1, rtp_label ch)))"

definition getMediaPort :: "(ptr \<rightharpoonup> rtp) \<Rightarrow> string \<Rightarrow> siptx \<Rightarrow> (siptx \<times> u16) cpp" where
  "getMediaPort h label t =
     (let (r, t1) = chanByLabel label t in
      if r = NULL then Val (t1, 0) else cpp_bind (deref h r) (\<lambda>ch. Val (t1, rtp_srcPort ch)))"

definition getRtpChannel :: "string \<Rightarrow> siptx \<Rightarrow> (siptx \<times> ptr) cpp" where
  "getRtpChannel label t =
     (if label = '''' then (case sp_rtpLabels t of [] \<Rightarrow> Undef
        | l # _ \<Rightarrow> (let (r, t1) = chanByLabel l t in Val (t1, r)))
      else (let (r, t1) = chanByLabel label t in Val (t1, r)))"

subsection \<open>Who is told\<close>

fun push_manager :: "ptr \<Rightarrow> string list \<Rightarrow> (string, ptr list) smap \<Rightarrow> (string, ptr list) smap" where
  "push_manager mgr [] m = m"
| "push_manager mgr (l # ls) m =
     push_manager mgr ls (smap_put l (mgr # (case smap_get m l of None \<Rightarrow> [] | Some ms \<Rightarrow> ms)) m)"

definition setSipManager :: "ptr \<Rightarrow> string \<Rightarrow> siptx \<Rightarrow> siptx \<times> int" where
  "setSipManager mgr label t =
     (let t0 = t\<lparr>sp_active := True\<rparr> in
      if label \<noteq> '''' then
        (let (r, t1) = chanByLabel label t0 in
         if r = NULL then (t1, -1)
         else (t1\<lparr>sp_managers := push_manager mgr [label] (sp_managers t1)\<rparr>, 0))
      else (t0\<lparr>sp_managers := push_manager mgr (map fst (sp_byLabel t0)) (sp_managers t0)\<rparr>, 0))"

fun clear_managers :: "string list \<Rightarrow> (string, ptr list) smap \<Rightarrow> (string, ptr list) smap" where
  "clear_managers [] m = m"
| "clear_managers (l # ls) m = clear_managers ls (smap_put l [] m)"

text \<open>
  \<open>unsetSipManager\<close>; without a manager, all are dropped and every channel forgets the call, which
  is a NULL dereference when a lookup has left a NULL entry.
\<close>

definition forget_manager :: "ptr \<Rightarrow> (ptr \<rightharpoonup> rtp) \<Rightarrow> (ptr \<rightharpoonup> rtp) cpp" where
  "forget_manager r h = cpp_bind (deref h r) (\<lambda>ch. Val (h(r \<mapsto> ch\<lparr>rtp_manager := NULL\<rparr>)))"

definition unsetSipManager :: "ptr \<Rightarrow> string \<Rightarrow> siptx \<Rightarrow> (ptr \<rightharpoonup> rtp) \<Rightarrow> (siptx \<times> (ptr \<rightharpoonup> rtp) \<times> int) cpp" where
  "unsetSipManager mgr label t h =
     (if mgr = NULL then
        cpp_bind (for_each forget_manager (map snd (sp_byLabel t)) h)
          (\<lambda>h'. Val (t\<lparr>sp_managers := []\<rparr>, h', 0))
      else if label \<noteq> '''' then
        (let (r, t1) = chanByLabel label t in
         if r = NULL then Val (t1, h, -1)
         else Val (t1\<lparr>sp_managers := clear_managers [label] (sp_managers t1)\<rparr>, h, 0))
      else Val (t\<lparr>sp_managers := clear_managers (map fst (sp_byLabel t)) (sp_managers t)\<rparr>, h, 0))"

text \<open>
  The pattern of the event functions: an inactive call ignores the event, otherwise the first
  manager for the channel's label gets it.
\<close>

definition sip_route :: "(ptr \<Rightarrow> media \<Rightarrow> media cpp) \<Rightarrow> ptr \<Rightarrow> ptr \<Rightarrow> media \<Rightarrow> media cpp" where
  "sip_route f s r md =
     cpp_bind (deref (md_sips md) s) (\<lambda>t.
       if \<not> sp_active t then Val md
       else cpp_bind (deref (md_rtps md) r) (\<lambda>ch.
         let (ms, m) = smap_index [] (rtp_label ch) (sp_managers t);
             md1 = putSip s (t\<lparr>sp_managers := m\<rparr>) md
         in case ms of [] \<Rightarrow> Val md1
            | mgr # _ \<Rightarrow> if mgr = md_core md then Val md1 else f mgr md1))"

definition sip_drop_channel :: "ptr \<Rightarrow> string \<Rightarrow> siptx \<Rightarrow> media \<Rightarrow> media cpp" where
  "sip_drop_channel s label t md =
     (let r = fst (chanByLabel label t);
          t1 = t\<lparr>sp_byLabel := smap_erase label (sp_byLabel t),
                 sp_rtpLabels := removeAll label (sp_rtpLabels t)\<rparr>
      in if r = NULL then Val (putSip s t1 md)
         else cpp_bind (deref (md_rtps md) r) (\<lambda>ch.
           Val (putSip s (t1\<lparr>sp_byPort := smap_erase (rtp_srcPort ch) (sp_byPort t1),
                             sp_rtpPorts := removeAll (rtp_srcPort ch) (sp_rtpPorts t1)\<rparr>) md)))"

text \<open>
  \<open>channelClosed\<close>: the list of managers is emptied before its first element is called, so that a
  call with a manager reads the front of an empty list.
\<close>

definition sip_channelClosed :: "ptr \<Rightarrow> string \<Rightarrow> media \<Rightarrow> media cpp" where
  "sip_channelClosed s label md =
     cpp_bind (deref (md_sips md) s) (\<lambda>t0.
       let t1 = t0\<lparr>sp_active := False\<rparr>;
           (ms, m) = smap_index [] label (sp_managers t1)
       in case ms of
          closing # _ \<Rightarrow>
            if closing \<noteq> NULL then Undef
            else sip_drop_channel s label (t1\<lparr>sp_managers := smap_put label [] m\<rparr>) md
        | [] \<Rightarrow> sip_drop_channel s label (t1\<lparr>sp_managers := m\<rparr>) md)"

subsection \<open>The channels' calls to their manager\<close>

fun sip_note :: "ptr \<Rightarrow> ptr \<Rightarrow> rtp_note \<Rightarrow> media \<Rightarrow> media cpp" where
  "sip_note s r (PayloadTypeChanged pt) md = sip_route (\<lambda>m. conn_payloadTypeChanged m pt) s r md"
| "sip_note s r (IncomingFrame f) md = sip_route (\<lambda>m. conn_incomingFrame m r (Some f)) s r md"
| "sip_note s r (IncomingDtmf t) md = sip_route (\<lambda>m. conn_incomingDtmf m r t) s r md"
| "sip_note s r ChannelLocked md = sip_route (\<lambda>m. conn_channelLocked m r) s r md"
| "sip_note s r ChannelUnlocked md = sip_route (\<lambda>m. conn_channelUnlocked m r) s r md"
| "sip_note s r (ChannelClosed label) md = sip_channelClosed s label md"

fun sip_notes :: "ptr \<Rightarrow> ptr \<Rightarrow> rtp_note list \<Rightarrow> media \<Rightarrow> media cpp" where
  "sip_notes s r [] md = Val md"
| "sip_notes s r (n # ns) md = cpp_bind (sip_note s r n md) (sip_notes s r ns)"

text \<open>An operation of the channel at \<open>r\<close>, followed by its calls to its manager.\<close>

definition on_channel :: "ptr \<Rightarrow> (rtp \<Rightarrow> (rtp \<times> rtp_note list) cpp) \<Rightarrow> media \<Rightarrow> media cpp" where
  "on_channel r f md =
     cpp_bind (deref (md_rtps md) r) (\<lambda>ch. cpp_bind (f ch) (\<lambda>(ch', ns).
       sip_notes (rtp_manager ch') r ns (putRtp r ch' md)))"

text \<open>\<open>addRtp\<close>: \<open>r\<close> is the new channel's address, \<open>port\<close> and \<open>label\<close> what its constructor got.\<close>

definition addRtp ::
    "(int \<Rightarrow> chan_codec option cpp) \<Rightarrow> ptr \<Rightarrow> ptr \<Rightarrow> u16 \<Rightarrow> string \<Rightarrow> int \<Rightarrow> int \<Rightarrow> media \<Rightarrow> media cpp" where
  "addRtp mk s r port label pt mediaType md =
     cpp_bind (deref (md_sips md) s) (\<lambda>t.
       let ch = (newRtp mediaType port label)\<lparr>rtp_manager := s\<rparr>;
           t1 = t\<lparr>sp_rtpPorts := sp_rtpPorts t @ [port], sp_rtpLabels := sp_rtpLabels t @ [label],
                  sp_byPort := smap_put port r (sp_byPort t), sp_byLabel := smap_put label r (sp_byLabel t)\<rparr>
       in on_channel r (setPayloadType mk pt) (putRtp r ch (putSip s t1 md)))"

text \<open>The pattern of the setters: the answer \<open>no\<close> for a port without a channel.\<close>

definition with_port :: "ptr \<Rightarrow> u16 \<Rightarrow> 'a \<Rightarrow> (rtp \<Rightarrow> rtp \<times> 'a) \<Rightarrow> media \<Rightarrow> (media \<times> 'a) cpp" where
  "with_port s localPort no f md =
     cpp_bind (deref (md_sips md) s) (\<lambda>t.
       let (r, t1) = chanByPort localPort t; md1 = putSip s t1 md in
       if r = NULL then Val (md1, no)
       else cpp_bind (deref (md_rtps md1) r) (\<lambda>ch.
         Val (putRtp r (fst (f ch)) md1, snd (f ch))))"

definition setRtpPeer :: "ptr \<Rightarrow> u16 \<Rightarrow> string \<Rightarrow> u16 \<Rightarrow> media \<Rightarrow> (media \<times> bool) cpp" where
  "setRtpPeer s localPort ip dataPort md =
     with_port s localPort False
       (\<lambda>ch. let (ch', start) = setPeer ip dataPort ch
              in (if start then rtp_start ch' else ch', True)) md"

definition setRtpDirection :: "ptr \<Rightarrow> u16 \<Rightarrow> int \<Rightarrow> media \<Rightarrow> (media \<times> bool) cpp" where
  "setRtpDirection s localPort d md = with_port s localPort False (setDirection d) md"

definition addRtpSetting :: "boost \<Rightarrow> ptr \<Rightarrow> u16 \<Rightarrow> string \<Rightarrow> media \<Rightarrow> (media \<times> string) cpp" where
  "addRtpSetting bx s localPort v md = with_port s localPort '''' (addSetting bx v) md"

text \<open>
  Deleting a channel tells its manager first. The destructor of a call deletes the mutex that it
  goes on to use, unless it has no port.
\<close>

definition deleteRtp :: "ptr \<Rightarrow> media \<Rightarrow> media cpp" where
  "deleteRtp r md =
     cpp_bind (deref (md_rtps md) r) (\<lambda>ch.
     cpp_bind (sip_notes (rtp_manager ch) r (rtp_destroy ch) md) (\<lambda>md1.
       Val (md1\<lparr>md_rtps := (md_rtps md1)(r := None)\<rparr>)))"

definition deleteSip :: "ptr \<Rightarrow> media \<Rightarrow> media cpp" where
  "deleteSip s md =
     cpp_bind (deref (md_sips md) s) (\<lambda>t.
       if sp_rtpPorts t = [] then Val (md\<lparr>md_sips := (md_sips md)(s := None)\<rparr>) else Undef)"

subsection \<open>Media in and out\<close>

definition receive_round :: "ptr \<Rightarrow> (u8 list \<times> bool) list \<Rightarrow> ptr \<Rightarrow> int \<Rightarrow> media \<Rightarrow> media cpp" where
  "receive_round r rs p tod md =
     on_channel r (\<lambda>ch. cpp_bind (rtp_round rs p tod ch) (\<lambda>(ch', ns, os). Val (ch', ns))) md"

definition receive_dtmf :: "ptr \<Rightarrow> int \<Rightarrow> media \<Rightarrow> media cpp" where
  "receive_dtmf r t md = on_channel r (\<lambda>ch. Val (rtp_incomingDtmf t ch)) md"

text \<open>\<open>sendFrame\<close> of the channel, with the packets it hands to oRTP, and of the endpoint.\<close>

definition channel_send :: "(ptr \<Rightarrow> frame) \<Rightarrow> u32 \<Rightarrow> int \<Rightarrow> frame \<Rightarrow> ptr \<Rightarrow> media \<Rightarrow> media cpp" where
  "channel_send fs now tod f r md =
     cpp_bind (deref (md_rtps md) r) (\<lambda>ch.
     cpp_bind (rtp_sendFrame fs (Some f) now tod ch) (\<lambda>(ch', ns, os).
       sip_notes (rtp_manager ch') r ns
         ((putRtp r ch' md)\<lparr>md_outs := md_outs md @ map (Pair r) os\<rparr>)))"

fun conn_sendFrame :: "(ptr \<Rightarrow> frame) \<Rightarrow> u32 \<Rightarrow> int \<Rightarrow> frame \<Rightarrow> nat \<Rightarrow> ptr \<Rightarrow> media \<Rightarrow> media cpp" where
  "conn_sendFrame fs now tod f 0 p md = Undef"
| "conn_sendFrame fs now tod f (Suc n) p md =
     cpp_bind (deref (md_conns md) p) (\<lambda>c.
     cpp_bind (if mc_rtp c = NULL then Val False
               else cpp_bind (deref (md_rtps md) (mc_rtp c)) (\<lambda>ch. Val (rtp_media ch = fr_media f)))
       (\<lambda>own. if own then channel_send fs now tod f (mc_rtp c) md
              else for_each (\<lambda>q s. cpp_bind (deref (md_conns s) q) (\<lambda>d.
                     if mc_media d = fr_media f then conn_sendFrame fs now tod f n q s else Val s))
                   (mc_channels c) md))"

subsection \<open>The indices of a call agree\<close>

definition sip_ok :: "siptx \<Rightarrow> (ptr \<rightharpoonup> rtp) \<Rightarrow> bool" where
  "sip_ok t h \<longleftrightarrow>
     smap_ok (sp_byPort t) \<and> smap_ok (sp_byLabel t) \<and> smap_ok (sp_managers t) \<and>
     distinct (sp_rtpPorts t) \<and> distinct (sp_rtpLabels t) \<and>
     (\<forall>port\<in>set (sp_rtpPorts t). \<exists>r ch. r \<noteq> NULL \<and> smap_get (sp_byPort t) port = Some r \<and>
        h r = Some ch \<and> rtp_srcPort ch = port \<and> rtp_label ch \<in> set (sp_rtpLabels t) \<and>
        smap_get (sp_byLabel t) (rtp_label ch) = Some r) \<and>
     (\<forall>label\<in>set (sp_rtpLabels t). \<exists>r ch. r \<noteq> NULL \<and> smap_get (sp_byLabel t) label = Some r \<and>
        h r = Some ch \<and> rtp_label ch = label \<and> rtp_srcPort ch \<in> set (sp_rtpPorts t) \<and>
        smap_get (sp_byPort t) (rtp_srcPort ch) = Some r) \<and>
     (\<forall>label r. smap_get (sp_byLabel t) label = Some r \<longrightarrow> r \<noteq> NULL \<longrightarrow> label \<in> set (sp_rtpLabels t))"

text \<open>A store in which every channel is still there, with its port and label.\<close>

definition same_channels :: "(ptr \<rightharpoonup> rtp) \<Rightarrow> (ptr \<rightharpoonup> rtp) \<Rightarrow> bool" where
  "same_channels h h' \<longleftrightarrow> (\<forall>r ch. h r = Some ch \<longrightarrow>
     (\<exists>ch'. h' r = Some ch' \<and> rtp_label ch' = rtp_label ch \<and> rtp_srcPort ch' = rtp_srcPort ch))"

text \<open>A call with the same channels and the same answers for the keys it knows.\<close>

definition same_index :: "siptx \<Rightarrow> siptx \<Rightarrow> bool" where
  "same_index t t' \<longleftrightarrow> sp_rtpPorts t' = sp_rtpPorts t \<and> sp_rtpLabels t' = sp_rtpLabels t \<and>
     smap_ok (sp_byPort t') \<and> smap_ok (sp_byLabel t') \<and> smap_ok (sp_managers t') \<and>
     (\<forall>k r. r \<noteq> NULL \<longrightarrow> (smap_get (sp_byPort t') k = Some r \<longleftrightarrow> smap_get (sp_byPort t) k = Some r)) \<and>
     (\<forall>k r. r \<noteq> NULL \<longrightarrow> (smap_get (sp_byLabel t') k = Some r \<longleftrightarrow> smap_get (sp_byLabel t) k = Some r))"

lemma sip_ok_same:
  assumes "sip_ok t h" and t: "same_index t t'" and h: "same_channels h h'"
  shows "sip_ok t' h'"
proof -
  have c: "\<exists>ch'. h' r = Some ch' \<and> rtp_label ch' = rtp_label ch \<and> rtp_srcPort ch' = rtp_srcPort ch"
    if "h r = Some ch" for r ch
    using h that unfolding same_channels_def by blast
  have p: "\<exists>r ch. r \<noteq> NULL \<and> smap_get (sp_byPort t') port = Some r \<and>
        h' r = Some ch \<and> rtp_srcPort ch = port \<and> rtp_label ch \<in> set (sp_rtpLabels t') \<and>
        smap_get (sp_byLabel t') (rtp_label ch) = Some r" if "port \<in> set (sp_rtpPorts t')" for port
  proof -
    from that assms(1) t obtain r ch where "r \<noteq> NULL" "smap_get (sp_byPort t) port = Some r" "h r = Some ch"
        "rtp_srcPort ch = port" "rtp_label ch \<in> set (sp_rtpLabels t)"
        "smap_get (sp_byLabel t) (rtp_label ch) = Some r"
      unfolding sip_ok_def same_index_def by metis
    with c [of r ch] t show ?thesis unfolding same_index_def by metis
  qed
  have l: "\<exists>r ch. r \<noteq> NULL \<and> smap_get (sp_byLabel t') label = Some r \<and>
        h' r = Some ch \<and> rtp_label ch = label \<and> rtp_srcPort ch \<in> set (sp_rtpPorts t') \<and>
        smap_get (sp_byPort t') (rtp_srcPort ch) = Some r" if "label \<in> set (sp_rtpLabels t')" for label
  proof -
    from that assms(1) t obtain r ch where "r \<noteq> NULL" "smap_get (sp_byLabel t) label = Some r" "h r = Some ch"
        "rtp_label ch = label" "rtp_srcPort ch \<in> set (sp_rtpPorts t)"
        "smap_get (sp_byPort t) (rtp_srcPort ch) = Some r"
      unfolding sip_ok_def same_index_def by metis
    with c [of r ch] t show ?thesis unfolding same_index_def by metis
  qed
  have n: "label \<in> set (sp_rtpLabels t')" if "smap_get (sp_byLabel t') label = Some r" "r \<noteq> NULL" for label r
    using that assms(1) t unfolding sip_ok_def same_index_def by metis
  have "smap_ok (sp_byPort t')" "smap_ok (sp_byLabel t')" "smap_ok (sp_managers t')"
    using t by (simp_all add: same_index_def)
  moreover have "distinct (sp_rtpPorts t')" "distinct (sp_rtpLabels t')"
    using assms(1) t by (simp_all add: same_index_def sip_ok_def)
  ultimately show ?thesis using p l n unfolding sip_ok_def by blast
qed

lemma same_channels_refl [simp]: "same_channels h h"
  by (simp add: same_channels_def)

lemma same_channels_trans: "same_channels a b \<Longrightarrow> same_channels b c \<Longrightarrow> same_channels a c"
  unfolding same_channels_def by metis

lemma same_channels_upd:
  "h r = Some ch \<Longrightarrow> rtp_label ch' = rtp_label ch \<Longrightarrow> rtp_srcPort ch' = rtp_srcPort ch \<Longrightarrow>
     same_channels h (h(r \<mapsto> ch'))"
  by (simp add: same_channels_def)

lemma smap_index_NULL:
  "smap_ok m \<Longrightarrow> r \<noteq> NULL \<Longrightarrow> smap_get (snd (smap_index NULL k m)) k' = Some r \<longleftrightarrow> smap_get m k' = Some r"
  by auto

lemma chanByPort_index:
  "sip_ok t h \<Longrightarrow> same_index t (snd (chanByPort port t))"
  by (auto simp: chanByPort_def same_index_def sip_ok_def split_beta simp del: smap_get_index
      intro: smap_index_NULL [THEN iffD1] smap_index_NULL [THEN iffD2])

lemma chanByLabel_index:
  "sip_ok t h \<Longrightarrow> same_index t (snd (chanByLabel label t))"
  by (auto simp: chanByLabel_def same_index_def sip_ok_def split_beta simp del: smap_get_index
      intro: smap_index_NULL [THEN iffD1] smap_index_NULL [THEN iffD2])

lemma same_index_refl: "sip_ok t h \<Longrightarrow> same_index t t"
  by (simp add: same_index_def sip_ok_def)

lemma same_index_trans: "same_index a b \<Longrightarrow> same_index b c \<Longrightarrow> same_index a c"
  by (simp add: same_index_def)

definition calls_ok :: "media \<Rightarrow> bool" where
  "calls_ok md \<longleftrightarrow> (\<forall>s t. md_sips md s = Some t \<longrightarrow> sip_ok t (md_rtps md))"

text \<open>A change of the store that leaves the indices of every sound call what they were.\<close>

definition quiet :: "media \<Rightarrow> media \<Rightarrow> bool" where
  "quiet md md' \<longleftrightarrow> same_channels (md_rtps md) (md_rtps md') \<and> dom (md_sips md') = dom (md_sips md) \<and>
     (\<forall>s t. md_sips md s = Some t \<longrightarrow> sip_ok t (md_rtps md) \<longrightarrow>
        (\<exists>t'. md_sips md' s = Some t' \<and> same_index t t'))"

lemma quiet_ok: "quiet md md' \<Longrightarrow> calls_ok md \<Longrightarrow> calls_ok md'"
  unfolding calls_ok_def
proof (intro allI impI)
  fix s t' assume q: "quiet md md'" and ok: "\<forall>s t. md_sips md s = Some t \<longrightarrow> sip_ok t (md_rtps md)"
    and t': "md_sips md' s = Some t'"
  then obtain t where t: "md_sips md s = Some t" unfolding quiet_def by blast
  with q ok t' have "same_index t t'" "same_channels (md_rtps md) (md_rtps md')"
    unfolding quiet_def by fastforce+
  with ok t show "sip_ok t' (md_rtps md')" using sip_ok_same by blast
qed

lemma quiet_trans:
  assumes ab: "quiet a b" and bc: "quiet b c"
  shows "quiet a c"
  unfolding quiet_def
proof (intro conjI allI impI)
  show "same_channels (md_rtps a) (md_rtps c)"
    using ab bc unfolding quiet_def by (blast intro: same_channels_trans)
  show "dom (md_sips c) = dom (md_sips a)" using ab bc unfolding quiet_def by simp
  fix s t assume t: "md_sips a s = Some t" "sip_ok t (md_rtps a)"
  with ab obtain t' where t': "md_sips b s = Some t'" "same_index t t'" unfolding quiet_def by blast
  with ab t have "sip_ok t' (md_rtps b)" unfolding quiet_def using sip_ok_same by blast
  with bc t'(1) obtain t'' where "md_sips c s = Some t''" "same_index t' t''" unfolding quiet_def by blast
  with t'(2) show "\<exists>t''. md_sips c s = Some t'' \<and> same_index t t''" using same_index_trans by blast
qed

lemma quiet_refl [simp]: "quiet md md"
  unfolding quiet_def using same_index_refl by auto

lemma quiet_stores:
  "md_rtps md' = md_rtps md \<Longrightarrow> md_sips md' = md_sips md \<Longrightarrow> quiet md md'"
  unfolding quiet_def using same_index_refl by auto

lemma quiet_putRtp:
  "md_rtps md r = Some ch \<Longrightarrow> rtp_label ch' = rtp_label ch \<Longrightarrow> rtp_srcPort ch' = rtp_srcPort ch \<Longrightarrow>
     quiet md (putRtp r ch' md)"
  unfolding quiet_def using same_index_refl by (auto intro: same_channels_upd)

lemma quiet_putSip:
  "md_sips md s = Some t \<Longrightarrow> (sip_ok t (md_rtps md) \<Longrightarrow> same_index t t') \<Longrightarrow> quiet md (putSip s t' md)"
  unfolding quiet_def using same_index_refl by auto

subsection \<open>Events are quiet\<close>

lemma cp_tell_stores: "cp_tell ev cp md = Val md' \<Longrightarrow> md_rtps md' = md_rtps md \<and> md_sips md' = md_sips md"
  by (auto simp: cp_tell_def cpp_bind_Val)

lemma relay_quiet: "relay ev p r md = Val md' \<Longrightarrow> quiet md md'"
  by (rule quiet_stores) (auto simp: relay_def relay_up_def cpp_bind_Val split: if_splits dest!: cp_tell_stores)

lemma payloadTypeChanged_quiet: "conn_payloadTypeChanged p pt md = Val md' \<Longrightarrow> quiet md md'"
  by (rule quiet_stores) (auto simp: conn_payloadTypeChanged_def cpp_bind_Val split: if_splits)

lemma managers_index: "sip_ok t h \<Longrightarrow> smap_ok m \<Longrightarrow> same_index t (t\<lparr>sp_managers := m\<rparr>)"
  by (simp add: same_index_def sip_ok_def)

lemma active_index: "sip_ok t h \<Longrightarrow> same_index t (t\<lparr>sp_active := b\<rparr>)"
  by (simp add: same_index_def sip_ok_def)

lemma sip_route_quiet:
  assumes f: "\<And>m md md'. f m md = Val md' \<Longrightarrow> quiet md md'" and "sip_route f s r md = Val md'"
  shows "quiet md md'"
proof -
  from assms(2) obtain t where t: "md_sips md s = Some t" by (auto simp: sip_route_def cpp_bind_Val)
  show ?thesis
  proof (cases "sp_active t")
    case False
    with assms(2) t show ?thesis by (simp add: sip_route_def cpp_bind_Val)
  next
    case True
    with assms(2) t obtain ch :: rtp where ch: "(case smap_index [] (rtp_label ch) (sp_managers t) of (ms, m) \<Rightarrow>
         case ms of [] \<Rightarrow> Val (putSip s (t\<lparr>sp_managers := m\<rparr>) md)
               | mgr # _ \<Rightarrow> if mgr = md_core md then Val (putSip s (t\<lparr>sp_managers := m\<rparr>) md)
                     else f mgr (putSip s (t\<lparr>sp_managers := m\<rparr>) md)) = Val md'"
      unfolding sip_route_def by (auto simp: cpp_bind_Val Let_def simp del: smap_index_value)
    obtain ms m where sm: "smap_index [] (rtp_label ch) (sp_managers t) = (ms, m)" by fastforce
    with ch have r: "(case ms of [] \<Rightarrow> Val (putSip s (t\<lparr>sp_managers := m\<rparr>) md)
               | mgr # _ \<Rightarrow> if mgr = md_core md then Val (putSip s (t\<lparr>sp_managers := m\<rparr>) md)
                     else f mgr (putSip s (t\<lparr>sp_managers := m\<rparr>) md)) = Val md'" by simp
    have "quiet md (putSip s (t\<lparr>sp_managers := m\<rparr>) md)"
    proof (rule quiet_putSip [OF t])
      assume ok: "sip_ok t (md_rtps md)"
      then have "smap_ok m" using sm smap_index_ok by (metis sip_ok_def snd_conv)
      with ok show "same_index t (t\<lparr>sp_managers := m\<rparr>)" by (rule managers_index)
    qed
    then show ?thesis using r f quiet_trans by (auto split: list.splits if_splits)
  qed
qed

fun tame_note :: "rtp_note \<Rightarrow> bool" where
  "tame_note (ChannelClosed l) = False"
| "tame_note n = True"

lemma sip_note_quiet: "sip_note s r n md = Val md' \<Longrightarrow> tame_note n \<Longrightarrow> quiet md md'"
  by (cases n) (auto elim!: sip_route_quiet [rotated] dest: relay_quiet payloadTypeChanged_quiet
      simp: conn_incomingFrame_def conn_incomingDtmf_def conn_channelLocked_def conn_channelUnlocked_def)

lemma sip_notes_quiet: "sip_notes s r ns md = Val md' \<Longrightarrow> list_all tame_note ns \<Longrightarrow> quiet md md'"
proof (induction ns arbitrary: md)
  case (Cons n ns)
  then show ?case by (auto simp: cpp_bind_Val dest!: sip_note_quiet intro: quiet_trans)
qed simp

definition tame :: "(rtp \<Rightarrow> (rtp \<times> rtp_note list) cpp) \<Rightarrow> bool" where
  "tame f \<longleftrightarrow> (\<forall>ch ch' ns. f ch = Val (ch', ns) \<longrightarrow>
     rtp_label ch' = rtp_label ch \<and> rtp_srcPort ch' = rtp_srcPort ch \<and> list_all tame_note ns)"

lemma on_channel_quiet:
  assumes "tame f" and "on_channel r f md = Val md'"
  shows "quiet md md'"
proof -
  from assms(2) obtain ch ch' ns where ch: "md_rtps md r = Some ch" "f ch = Val (ch', ns)"
    and n: "sip_notes (rtp_manager ch') r ns (putRtp r ch' md) = Val md'"
    by (auto simp: on_channel_def cpp_bind_Val)
  from assms(1) ch(2) have k: "rtp_label ch' = rtp_label ch" "rtp_srcPort ch' = rtp_srcPort ch"
      "list_all tame_note ns"
    unfolding tame_def by blast+
  from quiet_trans [OF quiet_putRtp [OF ch(1) k(1,2)] sip_notes_quiet [OF n k(3)]] show ?thesis .
qed

lemma notify_tame [simp]: "list_all tame_note (rtp_notify c n) \<longleftrightarrow> rtp_manager c = NULL \<or> tame_note n"
  by (simp add: rtp_notify_def)

lemma start_codec_index [simp]:
  "rtp_label (start_codec cd c) = rtp_label c" "rtp_srcPort (start_codec cd c) = rtp_srcPort c"
  by (simp_all add: start_codec_def)

lemma setPayloadType_tame: "tame (setPayloadType mk pt)"
  by (auto simp: tame_def setPayloadType_def Let_def cpp_bind_Val split: if_splits option.splits)

lemma incomingDtmf_tame: "tame (\<lambda>ch. Val (rtp_incomingDtmf t ch))"
  by (auto simp: tame_def rtp_incomingDtmf_def)

lemma incomingFrame_tame: "rtp_incomingFrame p f tod c = Val ns \<Longrightarrow> list_all tame_note ns"
  by (auto simp: rtp_incomingFrame_def cpp_bind_Val split: option.splits)

lemma incomingData_tame:
  "incomingData buf mk p new tod c = Val (c', ns, os) \<Longrightarrow>
     rtp_label c' = rtp_label c \<and> rtp_srcPort c' = rtp_srcPort c \<and> list_all tame_note ns"
  by (auto simp: incomingData_def Let_def cpp_bind_Val dest: incomingFrame_tame split: if_splits)

lemma receive_tame: "tame (\<lambda>ch. cpp_bind (rtp_round rs p tod ch) (\<lambda>(ch', ns, os). Val (ch', ns)))"
  by (auto simp: tame_def rtp_round_def cpp_bind_Val dest: incomingData_tame split: if_splits)

lemma timestamp_index:
  "rtp_timestamp now c = Val (c', t) \<Longrightarrow> rtp_label c' = rtp_label c \<and> rtp_srcPort c' = rtp_srcPort c"
  by (auto simp: rtp_timestamp_def Let_def split: if_splits)

lemma lock_tame:
  "rtp_lock w c = (c', ns) \<Longrightarrow>
     rtp_label c' = rtp_label c \<and> rtp_srcPort c' = rtp_srcPort c \<and> list_all tame_note ns"
  "rtp_unlock w c = (c', ns) \<Longrightarrow>
     rtp_label c' = rtp_label c \<and> rtp_srcPort c' = rtp_srcPort c \<and> list_all tame_note ns"
  by (auto simp: rtp_lock_def rtp_unlock_def split: if_splits)

lemma emit_tame:
  assumes "cpp_bind (frame_to_send f tod c) (\<lambda>g. case g of None \<Rightarrow> Val (c, ns, [])
      | Some g \<Rightarrow> if fr_buffer g = None then Val (c, ns, [])
          else cpp_bind (rtp_timestamp now c) (\<lambda>(c2, t). Val (c2, ns, rtp_emit fs t g c2))) =
      Val (c', ns', os)"
  shows "rtp_label c' = rtp_label c \<and> rtp_srcPort c' = rtp_srcPort c \<and> ns' = ns"
  using assms by (auto simp: cpp_bind_Val dest: timestamp_index split: option.splits if_splits)

lemma sendFrame_tame:
  assumes "rtp_sendFrame fs (Some f) now tod c = Val (c', ns, os)"
  shows "rtp_label c' = rtp_label c \<and> rtp_srcPort c' = rtp_srcPort c \<and> list_all tame_note ns"
proof (cases "rtp_dstPort c = 0 \<or> rtp_locked c \<and> fr_owner f \<noteq> rtp_lockOwner c \<or> fr_media f \<noteq> rtp_media c")
  case True
  with assms show ?thesis by (auto simp: rtp_sendFrame_def split: if_splits)
next
  case False
  obtain c1 ns1 where l: "(if fr_type f = LOCKING_FRAME then rtp_lock (fr_owner f) c
      else if fr_type f = UNLOCKING_FRAME then rtp_unlock (fr_owner f) c else (c, [])) = (c1, ns1)"
    by fastforce
  then have 1: "rtp_label c1 = rtp_label c \<and> rtp_srcPort c1 = rtp_srcPort c \<and> list_all tame_note ns1"
    using lock_tame by (auto split: if_splits)
  from False have n: "rtp_dstPort c \<noteq> 0" "\<not> (rtp_locked c \<and> fr_owner f \<noteq> rtp_lockOwner c)"
      "\<not> fr_media f \<noteq> rtp_media c" by auto
  have "cpp_bind (frame_to_send f tod c1) (\<lambda>g. case g of None \<Rightarrow> Val (c1, ns1, [])
      | Some g \<Rightarrow> if fr_buffer g = None then Val (c1, ns1, [])
          else cpp_bind (rtp_timestamp now c1) (\<lambda>(c2, t). Val (c2, ns1, rtp_emit fs t g c2))) =
      Val (c', ns, os)"
    using assms
    unfolding rtp_sendFrame_def option.case l Let_def prod.case if_not_P [OF n(1)] if_not_P [OF n(2)]
      if_not_P [OF n(3)] by (simp only:)
  from emit_tame [OF this] 1 show ?thesis by auto
qed

subsection \<open>Reachable calls\<close>

lemma channel_send_quiet: "channel_send fs now tod f r md = Val md' \<Longrightarrow> quiet md md'"
proof -
  assume "channel_send fs now tod f r md = Val md'"
  then obtain ch ch' ns os where ch: "md_rtps md r = Some ch" "rtp_sendFrame fs (Some f) now tod ch = Val (ch', ns, os)"
    and n: "sip_notes (rtp_manager ch') r ns ((putRtp r ch' md)\<lparr>md_outs := md_outs md @ map (Pair r) os\<rparr>) = Val md'"
    by (auto simp: channel_send_def cpp_bind_Val)
  have k: "rtp_label ch' = rtp_label ch" "rtp_srcPort ch' = rtp_srcPort ch" "list_all tame_note ns"
    using sendFrame_tame [OF ch(2)] by auto
  have "quiet md ((putRtp r ch' md)\<lparr>md_outs := md_outs md @ map (Pair r) os\<rparr>)"
    by (rule quiet_trans [OF quiet_putRtp [OF ch(1) k(1,2)] quiet_stores]) simp_all
  then show ?thesis using sip_notes_quiet [OF n k(3)] by (rule quiet_trans)
qed

inductive sip_step :: "media \<Rightarrow> media \<Rightarrow> bool" where
  New: "s \<noteq> NULL \<Longrightarrow> md_sips md s = None \<Longrightarrow> sip_step md (putSip s (newSip callId) md)"
| Add: "r \<noteq> NULL \<Longrightarrow> md_rtps md r = None \<Longrightarrow> md_sips md s = Some t \<Longrightarrow>
    port \<notin> set (sp_rtpPorts t) \<Longrightarrow> label \<notin> set (sp_rtpLabels t) \<Longrightarrow>
    addRtp mk s r port label pt mt md = Val md' \<Longrightarrow> sip_step md md'"
| Tags: "md_sips md s = Some t \<Longrightarrow> sip_step md (putSip s (setTags fromTag toTag t) md)"
| ByPort: "md_sips md s = Some t \<Longrightarrow> sip_step md (putSip s (snd (chanByPort port t)) md)"
| ByLabel: "md_sips md s = Some t \<Longrightarrow> sip_step md (putSip s (snd (chanByLabel label t)) md)"
| Peer: "setRtpPeer s port ip dport md = Val (md', b) \<Longrightarrow> sip_step md md'"
| Direction: "setRtpDirection s port d md = Val (md', b) \<Longrightarrow> sip_step md md'"
| Setting: "addRtpSetting bx s port v md = Val (md', res) \<Longrightarrow> sip_step md md'"
| Manager: "md_sips md s = Some t \<Longrightarrow> sip_step md (putSip s (fst (setSipManager mgr label t)) md)"
| Unmanage: "md_sips md s = Some t \<Longrightarrow> mgr \<noteq> NULL \<Longrightarrow>
    unsetSipManager mgr label t (md_rtps md) = Val (t', h, n) \<Longrightarrow> sip_step md (putSip s t' md)"
| Receive: "receive_round r rs p tod md = Val md' \<Longrightarrow> sip_step md md'"
| Dtmf: "receive_dtmf r tone md = Val md' \<Longrightarrow> sip_step md md'"
| Send: "channel_send fs now tod f r md = Val md' \<Longrightarrow> sip_step md md'"
| Close: "sip_channelClosed s label md = Val md' \<Longrightarrow> sip_step md md'"

inductive sip_reach :: "media \<Rightarrow> bool" where
  Start: "sip_reach noMedia"
| Step: "sip_reach md \<Longrightarrow> sip_step md md' \<Longrightarrow> sip_reach md'"

lemma sip_ok_new: "sip_ok (newSip callId) h"
  by (simp add: sip_ok_def newSip_def)

lemma calls_ok_putSip:
  "calls_ok md \<Longrightarrow> sip_ok t (md_rtps md) \<Longrightarrow> calls_ok (putSip s t md)"
  by (simp add: calls_ok_def)

lemma push_manager_ok: "smap_ok m \<Longrightarrow> smap_ok (push_manager mgr ls m)"
  by (induction mgr ls m rule: push_manager.induct) auto

lemma clear_managers_ok: "smap_ok m \<Longrightarrow> smap_ok (clear_managers ls m)"
  by (induction ls m rule: clear_managers.induct) auto

lemma managers_ok:
  "sip_ok t h \<Longrightarrow> smap_ok m \<Longrightarrow> sip_ok (t\<lparr>sp_managers := m\<rparr>) h"
  by (simp add: sip_ok_def)

lemma sip_ok_managers: "sip_ok t h \<Longrightarrow> smap_ok (sp_managers t)"
  by (simp add: sip_ok_def)

lemma sip_ok_active: "sip_ok (t\<lparr>sp_active := b\<rparr>) h \<longleftrightarrow> sip_ok t h"
  by (simp add: sip_ok_def)

lemma chanByLabel_ok: "sip_ok t h \<Longrightarrow> sip_ok (snd (chanByLabel label t)) h"
  using sip_ok_same chanByLabel_index same_channels_refl by blast

lemma chanByPort_ok: "sip_ok t h \<Longrightarrow> sip_ok (snd (chanByPort port t)) h"
  using sip_ok_same chanByPort_index same_channels_refl by blast

lemma setSipManager_ok: "sip_ok t h \<Longrightarrow> sip_ok (fst (setSipManager mgr label t)) h"
  using chanByLabel_ok [of "t\<lparr>sp_active := True\<rparr>" h label]
  by (auto simp: setSipManager_def Let_def split_beta sip_ok_active intro!: managers_ok push_manager_ok
      dest: sip_ok_managers simp del: push_manager.simps)

lemma unsetSipManager_ok:
  "sip_ok t h \<Longrightarrow> mgr \<noteq> NULL \<Longrightarrow> unsetSipManager mgr label t h = Val (t', h', n) \<Longrightarrow> sip_ok t' h"
  using chanByLabel_ok [of t h label]
  by (auto simp: unsetSipManager_def Let_def split_beta intro!: managers_ok clear_managers_ok
      dest: sip_ok_managers split: if_splits simp del: clear_managers.simps)

lemma same_channels_new: "h r = None \<Longrightarrow> same_channels h (h(r \<mapsto> ch))"
  by (auto simp: same_channels_def)

lemma sip_ok_fresh: "sip_ok t h \<Longrightarrow> h r = None \<Longrightarrow> sip_ok t (h(r \<mapsto> ch))"
  using sip_ok_same [OF _ same_index_refl same_channels_new] by blast

lemma sip_ok_portE:
  assumes "sip_ok t h" and "port \<in> set (sp_rtpPorts t)"
  obtains r ch where "r \<noteq> NULL" "smap_get (sp_byPort t) port = Some r" "h r = Some ch"
    "rtp_srcPort ch = port" "rtp_label ch \<in> set (sp_rtpLabels t)"
    "smap_get (sp_byLabel t) (rtp_label ch) = Some r"
  using assms unfolding sip_ok_def by blast

lemma sip_ok_labelE:
  assumes "sip_ok t h" and "label \<in> set (sp_rtpLabels t)"
  obtains r ch where "r \<noteq> NULL" "smap_get (sp_byLabel t) label = Some r" "h r = Some ch"
    "rtp_label ch = label" "rtp_srcPort ch \<in> set (sp_rtpPorts t)"
    "smap_get (sp_byPort t) (rtp_srcPort ch) = Some r"
  using assms unfolding sip_ok_def by blast

lemma sip_ok_maps: "sip_ok t h \<Longrightarrow> smap_ok (sp_byPort t)" "sip_ok t h \<Longrightarrow> smap_ok (sp_byLabel t)"
  by (simp_all add: sip_ok_def)

lemma add_ok:
  assumes ok: "sip_ok t h" and r: "r \<noteq> NULL" "h r = None"
    and p: "port \<notin> set (sp_rtpPorts t)" and l: "label \<notin> set (sp_rtpLabels t)"
    and ch: "rtp_srcPort ch = port" "rtp_label ch = label"
  shows "sip_ok (t\<lparr>sp_rtpPorts := sp_rtpPorts t @ [port], sp_rtpLabels := sp_rtpLabels t @ [label],
     sp_byPort := smap_put port r (sp_byPort t), sp_byLabel := smap_put label r (sp_byLabel t)\<rparr>) (h(r \<mapsto> ch))"
proof -
  note m = sip_ok_maps [OF ok]
  let ?P = "\<lambda>port' r' ch'. r' \<noteq> NULL \<and> smap_get (smap_put port r (sp_byPort t)) port' = Some r' \<and>
        (h(r \<mapsto> ch)) r' = Some ch' \<and> rtp_srcPort ch' = port' \<and>
        rtp_label ch' \<in> set (sp_rtpLabels t @ [label]) \<and>
        smap_get (smap_put label r (sp_byLabel t)) (rtp_label ch') = Some r'"
  let ?L = "\<lambda>label' r' ch'. r' \<noteq> NULL \<and> smap_get (smap_put label r (sp_byLabel t)) label' = Some r' \<and>
        (h(r \<mapsto> ch)) r' = Some ch' \<and> rtp_label ch' = label' \<and>
        rtp_srcPort ch' \<in> set (sp_rtpPorts t @ [port]) \<and>
        smap_get (smap_put port r (sp_byPort t)) (rtp_srcPort ch') = Some r'"
  have "\<exists>r' ch'. ?P port' r' ch'" if "port' \<in> set (sp_rtpPorts t @ [port])" for port'
  proof (cases "port' = port")
    case True
    with r ch m show ?thesis by (intro exI [of _ r] exI [of _ ch]) simp
  next
    case False
    with that have "port' \<in> set (sp_rtpPorts t)" by simp
    from sip_ok_portE [OF ok this] obtain r' ch' where *: "r' \<noteq> NULL" "smap_get (sp_byPort t) port' = Some r'"
        "h r' = Some ch'" "rtp_srcPort ch' = port'" "rtp_label ch' \<in> set (sp_rtpLabels t)"
        "smap_get (sp_byLabel t) (rtp_label ch') = Some r'" by blast
    have "r' \<noteq> r" "rtp_label ch' \<noteq> label" using * r l by auto
    with * False m show ?thesis by (intro exI [of _ r'] exI [of _ ch']) simp
  qed
  moreover have "\<exists>r' ch'. ?L label' r' ch'" if "label' \<in> set (sp_rtpLabels t @ [label])" for label'
  proof (cases "label' = label")
    case True
    with r ch m show ?thesis by (intro exI [of _ r] exI [of _ ch]) simp
  next
    case False
    with that have "label' \<in> set (sp_rtpLabels t)" by simp
    from sip_ok_labelE [OF ok this] obtain r' ch' where *: "r' \<noteq> NULL" "smap_get (sp_byLabel t) label' = Some r'"
        "h r' = Some ch'" "rtp_label ch' = label'" "rtp_srcPort ch' \<in> set (sp_rtpPorts t)"
        "smap_get (sp_byPort t) (rtp_srcPort ch') = Some r'" by blast
    have "r' \<noteq> r" "rtp_srcPort ch' \<noteq> port" using * r p by auto
    with * False m show ?thesis by (intro exI [of _ r'] exI [of _ ch']) simp
  qed
  ultimately show ?thesis
    using ok p l m unfolding sip_ok_def by simp
qed

lemma drop_ok:
  assumes ok: "sip_ok t (md_rtps md)" and d: "sip_drop_channel s label t md = Val md'"
  shows "\<exists>t'. md' = putSip s t' md \<and> sip_ok t' (md_rtps md) \<and> label \<notin> set (sp_rtpLabels t')"
proof (cases "label \<in> set (sp_rtpLabels t)")
  case True
  from sip_ok_labelE [OF ok True] obtain r ch where r: "r \<noteq> NULL" "smap_get (sp_byLabel t) label = Some r"
      "md_rtps md r = Some ch" "rtp_label ch = label" "rtp_srcPort ch \<in> set (sp_rtpPorts t)"
      "smap_get (sp_byPort t) (rtp_srcPort ch) = Some r" by blast
  let ?t = "t\<lparr>sp_byLabel := smap_erase label (sp_byLabel t),
      sp_rtpLabels := removeAll label (sp_rtpLabels t),
      sp_byPort := smap_erase (rtp_srcPort ch) (sp_byPort t),
      sp_rtpPorts := removeAll (rtp_srcPort ch) (sp_rtpPorts t)\<rparr>"
  have "md' = putSip s ?t md"
    using d r by (simp add: sip_drop_channel_def chanByLabel_def split_beta Let_def)
  moreover have "sip_ok ?t (md_rtps md)"
  proof -
    have p: "\<exists>r' ch'. r' \<noteq> NULL \<and> smap_get (sp_byPort ?t) port = Some r' \<and> md_rtps md r' = Some ch' \<and>
        rtp_srcPort ch' = port \<and> rtp_label ch' \<in> set (sp_rtpLabels ?t) \<and>
        smap_get (sp_byLabel ?t) (rtp_label ch') = Some r'" if "port \<in> set (sp_rtpPorts ?t)" for port
    proof -
      have pt: "port \<in> set (sp_rtpPorts t)" "port \<noteq> rtp_srcPort ch" using that by auto
      from sip_ok_portE [OF ok pt(1)] obtain r' ch' where *: "r' \<noteq> NULL" "smap_get (sp_byPort t) port = Some r'"
          "md_rtps md r' = Some ch'" "rtp_srcPort ch' = port" "rtp_label ch' \<in> set (sp_rtpLabels t)"
          "smap_get (sp_byLabel t) (rtp_label ch') = Some r'" by blast
      have "rtp_label ch' \<noteq> label" using * r pt(2) by auto
      with * pt show ?thesis by (intro exI [of _ r'] exI [of _ ch']) simp
    qed
    have l: "\<exists>r' ch'. r' \<noteq> NULL \<and> smap_get (sp_byLabel ?t) l = Some r' \<and> md_rtps md r' = Some ch' \<and>
        rtp_label ch' = l \<and> rtp_srcPort ch' \<in> set (sp_rtpPorts ?t) \<and>
        smap_get (sp_byPort ?t) (rtp_srcPort ch') = Some r'" if "l \<in> set (sp_rtpLabels ?t)" for l
    proof -
      have lt: "l \<in> set (sp_rtpLabels t)" "l \<noteq> label" using that by auto
      from sip_ok_labelE [OF ok lt(1)] obtain r' ch' where *: "r' \<noteq> NULL" "smap_get (sp_byLabel t) l = Some r'"
          "md_rtps md r' = Some ch'" "rtp_label ch' = l" "rtp_srcPort ch' \<in> set (sp_rtpPorts t)"
          "smap_get (sp_byPort t) (rtp_srcPort ch') = Some r'" by blast
      have "rtp_srcPort ch' \<noteq> rtp_srcPort ch" using * r lt(2) by auto
      with * lt show ?thesis by (intro exI [of _ r'] exI [of _ ch']) simp
    qed
    from p l ok show ?thesis unfolding sip_ok_def by (simp add: distinct_removeAll)
  qed
  ultimately show ?thesis by auto
next
  case False
  then have n: "fst (chanByLabel label t) = NULL"
    using ok by (auto simp: chanByLabel_def split_beta sip_ok_def split: option.split)
  let ?t = "t\<lparr>sp_byLabel := smap_erase label (sp_byLabel t),
      sp_rtpLabels := removeAll label (sp_rtpLabels t)\<rparr>"
  have "md' = putSip s ?t md" using d n by (simp add: sip_drop_channel_def)
  moreover have "removeAll label (sp_rtpLabels t) = sp_rtpLabels t" using False by (simp add: removeAll_id)
  moreover have "same_index t ?t"
  proof -
    have "smap_get (sp_byLabel t) label \<noteq> Some r" if "r \<noteq> NULL" for r
      using False ok that unfolding sip_ok_def by blast
    then show ?thesis using ok False unfolding same_index_def by (auto simp: sip_ok_def)
  qed
  ultimately show ?thesis using sip_ok_same [OF ok _ same_channels_refl] False by fastforce
qed

lemma channelClosed_drops:
  assumes "sip_channelClosed s label md = Val md'"
  obtains t m where "s \<noteq> NULL" "md_sips md s = Some t" "smap_ok (sp_managers t) \<Longrightarrow> smap_ok m"
    "sip_drop_channel s label (t\<lparr>sp_active := False, sp_managers := m\<rparr>) md = Val md'"
proof -
  from assms obtain t where t: "s \<noteq> NULL" "md_sips md s = Some t"
    by (auto simp: sip_channelClosed_def cpp_bind_Val)
  obtain ms m where sm: "smap_index [] label (sp_managers t) = (ms, m)" by fastforce
  have m: "smap_ok (sp_managers t) \<Longrightarrow> smap_ok m" using sm smap_index_ok by (metis snd_conv)
  show ?thesis
  proof (cases ms)
    case Nil
    with assms t sm have "sip_drop_channel s label (t\<lparr>sp_active := False, sp_managers := m\<rparr>) md = Val md'"
      by (simp add: sip_channelClosed_def)
    with t m that show ?thesis by blast
  next
    case (Cons closing ms')
    with assms t sm have "sip_drop_channel s label (t\<lparr>sp_active := False, sp_managers := smap_put label [] m\<rparr>) md = Val md'"
      by (auto simp: sip_channelClosed_def split: if_splits)
    moreover have "smap_ok (sp_managers t) \<Longrightarrow> smap_ok (smap_put label [] m)" using m by blast
    ultimately show ?thesis using t that by blast
  qed
qed

lemma close_ok:
  assumes "calls_ok md" and "sip_channelClosed s label md = Val md'"
  shows "calls_ok md'"
proof -
  obtain t m where t: "s \<noteq> NULL" "md_sips md s = Some t" and m: "smap_ok (sp_managers t) \<Longrightarrow> smap_ok m"
    and d: "sip_drop_channel s label (t\<lparr>sp_active := False, sp_managers := m\<rparr>) md = Val md'"
    using channelClosed_drops [OF assms(2)] by blast
  have ok: "sip_ok t (md_rtps md)" using assms(1) t(2) by (simp add: calls_ok_def)
  then have "smap_ok m" using m sip_ok_managers by blast
  with ok have "sip_ok (t\<lparr>sp_active := False, sp_managers := m\<rparr>) (md_rtps md)" by (simp add: sip_ok_def)
  from drop_ok [OF this d] show ?thesis using assms(1) calls_ok_putSip by blast
qed

lemma add_calls_ok:
  assumes "calls_ok md" "r \<noteq> NULL" "md_rtps md r = None" "md_sips md s = Some t"
    "port \<notin> set (sp_rtpPorts t)" "label \<notin> set (sp_rtpLabels t)"
    and a: "addRtp mk s r port label pt mt md = Val md'"
  shows "calls_ok md'"
proof -
  let ?ch = "(newRtp mt port label)\<lparr>rtp_manager := s\<rparr>"
  let ?t = "t\<lparr>sp_rtpPorts := sp_rtpPorts t @ [port], sp_rtpLabels := sp_rtpLabels t @ [label],
     sp_byPort := smap_put port r (sp_byPort t), sp_byLabel := smap_put label r (sp_byLabel t)\<rparr>"
  let ?md = "putRtp r ?ch (putSip s ?t md)"
  have ok: "sip_ok u (md_rtps md)" if "md_sips md x = Some u" for x u
    using assms(1) that by (simp add: calls_ok_def)
  have "sip_ok ?t (md_rtps ?md)"
    using add_ok [OF ok [OF assms(4)] assms(2,3,5,6), of ?ch] by (simp add: newRtp_def)
  moreover have "sip_ok u (md_rtps ?md)" if "md_sips md x = Some u" for x u
    using sip_ok_fresh [of u "md_rtps md" r ?ch] ok [OF that] assms(3) by simp
  ultimately have "calls_ok ?md" by (simp add: calls_ok_def)
  moreover have "on_channel r (setPayloadType mk pt) ?md = Val md'"
    using a assms(4) by (auto simp: addRtp_def cpp_bind_Val)
  ultimately show ?thesis using on_channel_quiet [OF setPayloadType_tame] quiet_ok by blast
qed

lemma setter_ok:
  assumes "calls_ok md" "md_sips md s = Some t" "md_rtps md r = Some ch"
    "rtp_label ch' = rtp_label ch" "rtp_srcPort ch' = rtp_srcPort ch"
  shows "calls_ok (putRtp r ch' (putSip s (snd (chanByPort port t)) md))"
proof -
  have "quiet md (putSip s (snd (chanByPort port t)) md)"
    by (rule quiet_putSip [OF assms(2)]) (rule chanByPort_index)
  moreover have "quiet (putSip s (snd (chanByPort port t)) md) (putRtp r ch' (putSip s (snd (chanByPort port t)) md))"
    by (rule quiet_putRtp) (use assms in simp_all)
  ultimately show ?thesis using quiet_trans quiet_ok [OF _ assms(1)] by blast
qed

lemma lookup_ok:
  "calls_ok md \<Longrightarrow> md_sips md s = Some t \<Longrightarrow> calls_ok (putSip s (snd (chanByPort port t)) md)"
  by (rule calls_ok_putSip) (auto simp: calls_ok_def intro: chanByPort_ok)

lemma setPeer_index:
  "rtp_label (fst (setPeer ip p c)) = rtp_label c" "rtp_srcPort (fst (setPeer ip p c)) = rtp_srcPort c"
  by (simp_all add: setPeer_def)

lemma setDirection_index:
  "rtp_label (fst (setDirection d c)) = rtp_label c" "rtp_srcPort (fst (setDirection d c)) = rtp_srcPort c"
  by (simp_all add: setDirection_def)

lemma addSetting_index:
  "rtp_label (fst (addSetting bx v c)) = rtp_label c" "rtp_srcPort (fst (addSetting bx v c)) = rtp_srcPort c"
  by (simp_all add: addSetting_def Let_def split_beta)

lemma rtp_start_index [simp]:
  "rtp_label (rtp_start c) = rtp_label c" "rtp_srcPort (rtp_start c) = rtp_srcPort c"
  by (simp_all add: rtp_start_def)

lemma with_port_ok:
  assumes ok: "calls_ok md" and w: "with_port s port no f md = Val (md', b)"
    and f: "\<And>ch. rtp_label (fst (f ch)) = rtp_label ch \<and> rtp_srcPort (fst (f ch)) = rtp_srcPort ch"
  shows "calls_ok md'"
proof -
  from w obtain t where t: "md_sips md s = Some t" by (auto simp: with_port_def cpp_bind_Val)
  show ?thesis
  proof (cases "fst (chanByPort port t) = NULL")
    case True
    with w t lookup_ok [OF ok t] show ?thesis
      by (auto simp: with_port_def cpp_bind_Val split_beta Let_def)
  next
    case False
    with w t obtain ch where ch: "md_rtps md (fst (chanByPort port t)) = Some ch"
      and md': "md' = putRtp (fst (chanByPort port t)) (fst (f ch)) (putSip s (snd (chanByPort port t)) md)"
      by (auto simp: with_port_def cpp_bind_Val split_beta Let_def)
    show ?thesis unfolding md' by (rule setter_ok [OF ok t ch]) (simp_all add: f)
  qed
qed

lemma setRtpPeer_ok: "calls_ok md \<Longrightarrow> setRtpPeer s port ip dport md = Val (md', b) \<Longrightarrow> calls_ok md'"
  unfolding setRtpPeer_def by (erule with_port_ok) (auto simp: setPeer_index split_beta)

lemma setRtpDirection_ok: "calls_ok md \<Longrightarrow> setRtpDirection s port d md = Val (md', b) \<Longrightarrow> calls_ok md'"
  unfolding setRtpDirection_def by (erule with_port_ok) (auto simp: setDirection_index)

lemma addRtpSetting_ok: "calls_ok md \<Longrightarrow> addRtpSetting bx s port v md = Val (md', res) \<Longrightarrow> calls_ok md'"
  unfolding addRtpSetting_def by (erule with_port_ok) (auto simp: addSetting_index)

lemma calls_okD: "calls_ok md \<Longrightarrow> md_sips md s = Some t \<Longrightarrow> sip_ok t (md_rtps md)"
  by (simp add: calls_ok_def)

lemma sip_step_ok: "sip_step md md' \<Longrightarrow> calls_ok md \<Longrightarrow> calls_ok md'"
proof (induction rule: sip_step.induct)
  case (New s md callId)
  then show ?case by (intro calls_ok_putSip sip_ok_new)
next
  case (Add r md s t port label mk pt mt md')
  show ?case by (rule add_calls_ok [OF Add.prems Add.hyps])
next
  case (Tags md s t fromTag toTag)
  then show ?case by (intro calls_ok_putSip) (auto dest: calls_okD simp: setTags_def sip_ok_def)
next
  case (ByPort md s t port)
  then show ?case by (intro lookup_ok)
next
  case (ByLabel md s t label)
  then show ?case by (intro calls_ok_putSip chanByLabel_ok calls_okD)
next
  case (Peer s port ip dport md md' b)
  show ?case by (rule setRtpPeer_ok [OF Peer.prems Peer.hyps])
next
  case (Direction s port d md md' b)
  show ?case by (rule setRtpDirection_ok [OF Direction.prems Direction.hyps])
next
  case (Setting bx s port v md md' res)
  show ?case by (rule addRtpSetting_ok [OF Setting.prems Setting.hyps])
next
  case (Manager md s t mgr label)
  then show ?case by (intro calls_ok_putSip setSipManager_ok calls_okD)
next
  case (Unmanage md s t mgr label t' h n)
  then show ?case using unsetSipManager_ok calls_okD calls_ok_putSip by blast
next
  case (Receive r rs p tod md md')
  then show ?case unfolding receive_round_def using on_channel_quiet [OF receive_tame] quiet_ok by blast
next
  case (Dtmf r tone md md')
  then show ?case unfolding receive_dtmf_def using on_channel_quiet [OF incomingDtmf_tame] quiet_ok by blast
next
  case (Send fs now tod f r md md')
  then show ?case using channel_send_quiet quiet_ok by blast
next
  case (Close s label md md')
  show ?case by (rule close_ok [OF Close.prems Close.hyps])
qed

lemma sip_reach_ok: "sip_reach md \<Longrightarrow> calls_ok md"
  by (induction rule: sip_reach.induct) (auto simp: calls_ok_def noMedia_def dest: sip_step_ok)

lemma smap_index_known: "smap_get m k = Some v \<Longrightarrow> smap_index d k m = (v, m)"
  by (simp add: smap_index_def)

lemma chan_known:
  "smap_get (sp_byPort t) port = Some r \<Longrightarrow> chanByPort port t = (r, t)"
  "smap_get (sp_byLabel t) label = Some r \<Longrightarrow> chanByLabel label t = (r, t)"
  by (simp_all add: chanByPort_def chanByLabel_def smap_index_known)

text \<open>
  Ports and labels of a call name the same channels: in every reachable state, the label of a
  listed port leads back to that port, both lookups leave the call as it is, and the connection
  identifier is the same by port and by label.
\<close>

theorem port_label_roundtrip:
  assumes "sip_reach md" and "md_sips md s = Some t" and "port \<in> set (sp_rtpPorts t)" and "port \<noteq> 0"
  shows "\<exists>l. l \<in> set (sp_rtpLabels t) \<and> getMediaLabel (md_rtps md) port t = Val (t, l) \<and>
     getMediaPort (md_rtps md) l t = Val (t, port) \<and>
     getConnectionIdByPort (md_rtps md) port t = Val (t, sp_connectionId t @ ''/'' @ l) \<and>
     getConnectionIdByLabel (md_rtps md) l t = Val (t, sp_connectionId t @ ''/'' @ l)"
proof -
  have "sip_ok t (md_rtps md)" using calls_okD [OF sip_reach_ok [OF assms(1)] assms(2)] .
  from sip_ok_portE [OF this assms(3)] obtain r ch where r: "r \<noteq> NULL"
      "smap_get (sp_byPort t) port = Some r" "md_rtps md r = Some ch" "rtp_srcPort ch = port"
      "rtp_label ch \<in> set (sp_rtpLabels t)" "smap_get (sp_byLabel t) (rtp_label ch) = Some r"
    by blast
  then show ?thesis
    by (intro exI [of _ "rtp_label ch"])
      (simp add: assms(4) getMediaLabel_def getMediaPort_def getConnectionIdByPort_def
        getConnectionIdByLabel_def chan_known)
qed

definition demo_sip :: media where
  "demo_sip = (case addRtp (\<lambda>_. Val None) 3 9 4000 ''ab'' 0 0 (putSip 3 (newSip ''call'') noMedia) of
     Val md \<Rightarrow> md | Undef \<Rightarrow> noMedia)"

lemma demo_sip_add:
  "addRtp (\<lambda>_. Val None) 3 9 4000 ''ab'' 0 0 (putSip 3 (newSip ''call'') noMedia) = Val demo_sip"
  by (simp add: Let_def demo_sip_def addRtp_def on_channel_def setPayloadType_def codec_or_new_def newRtp_def
      newSip_def noMedia_def)

lemma demo_sip_reach: "sip_reach demo_sip"
proof -
  have 1: "sip_reach (putSip 3 (newSip ''call'') noMedia)"
    by (rule sip_reach.Step [OF sip_reach.Start sip_step.New]) (simp_all add: noMedia_def)
  have "sip_step (putSip 3 (newSip ''call'') noMedia) demo_sip"
    by (rule sip_step.Add [OF _ _ _ _ _ demo_sip_add, where t = "newSip ''call''"])
      (simp_all add: newSip_def noMedia_def)
  with 1 show ?thesis by (rule sip_reach.Step)
qed

theorem port_label_roundtrip_witness:
  "\<exists>t l. md_sips demo_sip 3 = Some t \<and> getMediaLabel (md_rtps demo_sip) 4000 t = Val (t, l) \<and>
     getMediaPort (md_rtps demo_sip) l t = Val (t, 4000)"
proof -
  have "\<exists>t. md_sips demo_sip 3 = Some t \<and> (4000 :: u16) \<in> set (sp_rtpPorts t)"
    by (simp add: Let_def demo_sip_def addRtp_def on_channel_def setPayloadType_def codec_or_new_def newRtp_def
      newSip_def noMedia_def)
  then obtain t where "md_sips demo_sip 3 = Some t" "(4000 :: u16) \<in> set (sp_rtpPorts t)" by blast
  from port_label_roundtrip [OF demo_sip_reach this] this(1) show ?thesis by auto
qed

text \<open>
  Deleting a channel that somebody listens to is undefined behaviour: the call empties the
  list of managers of the channel's label and then calls the front of that empty list.
\<close>

theorem closing_with_listener_undefined:
  assumes "md_rtps md r = Some ch" and "r \<noteq> NULL" and "rtp_manager ch = s" and "s \<noteq> NULL"
    and "md_sips md s = Some t" and "smap_get (sp_managers t) (rtp_label ch) = Some (mgr # ms)"
    and "mgr \<noteq> NULL"
  shows "deleteRtp r md = Undef"
  using assms by (simp add: deleteRtp_def rtp_destroy_def rtp_notify_def sip_channelClosed_def smap_index_known)

theorem closing_with_listener_undefined_witness:
  "deleteRtp 9 (noMedia\<lparr>md_rtps := [9 \<mapsto> (newRtp 0 4000 ''ab'')\<lparr>rtp_manager := 3\<rparr>],
     md_sips := [3 \<mapsto> (newSip ''call'')\<lparr>sp_managers := [(''ab'', [5])]\<rparr>]\<rparr>) = Undef"
  by (rule closing_with_listener_undefined [where s = 3 and mgr = 5 and ms = "[]"
        and ch = "(newRtp 0 4000 ''ab'')\<lparr>rtp_manager := 3\<rparr>"
        and t = "(newSip ''call'')\<lparr>sp_managers := [(''ab'', [5])]\<rparr>"])
    (simp_all add: newRtp_def smap_get_def)

subsection \<open>From the network to the packages\<close>

lemma sip_route_known:
  assumes "s \<noteq> NULL" "md_sips md s = Some t" "sp_active t" "r \<noteq> NULL" "md_rtps md r = Some ch"
    "smap_get (sp_managers t) (rtp_label ch) = Some (mgr # ms)"
    and "mgr \<noteq> md_core md"
  shows "sip_route f s r md = f mgr (putSip s t md)"
  using assms by (simp add: sip_route_def smap_index_known)

lemma ok_putSip: "ep_ok md \<Longrightarrow> ep_ok (putSip s t md)"
  by (rule same_shape_ok) (simp_all add: same_shape_def option.rel_refl)

text \<open>
  C37. Voice from the network reaches the packages: when the thread of a mu-law channel reads 160
  bytes, the packages that listen to the channel and then those that listen to the call are
  handed one and the same raw frame of 160 samples, which points to the frame as received;
  nothing else is called.
\<close>

theorem voice_reaches_packages:
  assumes ok: "ep_ok md" and ch: "r \<noteq> NULL" "md_rtps md r = Some ch" "rtp_alive ch" "rtp_active ch"
      "rtp_media ch = MEDIACTRL_MEDIA_AUDIO"
      "speaks (ulaw_create\<lparr>cc_started := True\<rparr>) MEDIACTRL_CODEC_ULAW ch"
    and call: "md_sips md (rtp_manager ch) = Some t" "sp_active t"
      "smap_get (sp_managers t) (rtp_label ch) = Some (p # ms)" "p \<noteq> md_core md"
    and conn: "md_conns md p = Some c" "mc_owner c \<noteq> NULL"
    and recv: "recv_all rs [] = Val buf" "length buf = 160"
  shows "\<exists>md' h w d e. receive_round r rs q tod md = Val md' \<and> raw_frame h \<and> fr_original h = q \<and>
     md_conns md (mc_owner c) = Some w \<and> md_cps md (mc_cp c) = Some d \<and> md_cps md (mc_cp w) = Some e \<and>
     md_calls md' = md_calls md @ map (\<lambda>pkg. (pkg, CallIncomingFrame (mc_cp w) (mc_cp c) h))
       (filter (\<lambda>pkg. pkg \<noteq> NULL) (cpc_packages d) @ filter (\<lambda>pkg. pkg \<noteq> NULL) (cpc_packages e))"
proof -
  have dec: "cc_decode (ulaw_create\<lparr>cc_started := True\<rparr>) = ulaw_decode" by (simp add: ulaw_create_def)
  have buf: "int (length buf) = 160" "buf \<noteq> []" using recv(2) by auto
  obtain h os where h: "incomingData buf True q [] tod ch = Val (ch, [IncomingFrame h], os)"
      "raw_frame h" "fr_original h = q"
    using ulaw.channel_receives [OF ch(6,5) dec buf] by blast
  let ?md = "putSip (rtp_manager ch) t (putRtp r ch md)"
  have s: "rtp_manager ch \<noteq> NULL" using ch(6) by (simp add: speaks_def)
  have ok': "ep_ok ?md" using ok by (intro ok_putSip ok_newRtp)
  have "md_conns ?md p = Some c" using conn(1) by simp
  from relay_ok [OF ok' this conn(2) ch(1)] obtain w d e where
    w: "md_conns md (mc_owner c) = Some w" "md_cps md (mc_cp c) = Some d" "md_cps md (mc_cp w) = Some e"
    and rel: "\<And>ev. relay ev p r ?md = Val (logCalls (ev (mc_cp w) (mc_cp c) d @ ev (mc_cp w) (mc_cp c) e) ?md)"
    by auto
  have rnd: "rtp_round rs q tod ch = Val (ch, [IncomingFrame h], os)"
    using ch recv h(1) by (simp add: rtp_round_def)
  have "sip_notes (rtp_manager ch) r [IncomingFrame h] (putRtp r ch md) = conn_incomingFrame p r (Some h) ?md"
    using sip_route_known [of "rtp_manager ch" "putRtp r ch md" t r ch p ms] s call ch(1)
    by (cases "conn_incomingFrame p r (Some h) ?md") simp_all
  then have "receive_round r rs q tod md = conn_incomingFrame p r (Some h) ?md"
    using ch(1,2) rnd by (simp add: receive_round_def on_channel_def)
  then have "receive_round r rs q tod md = Val (logCalls (cpc_incomingFrame (mc_cp w) (mc_cp c) (Some h) d @
      cpc_incomingFrame (mc_cp w) (mc_cp c) (Some h) e) ?md)"
    by (simp add: conn_incomingFrame_def rel)
  with h w show ?thesis
    by (intro exI [of _ "logCalls (cpc_incomingFrame (mc_cp w) (mc_cp c) (Some h) d @
        cpc_incomingFrame (mc_cp w) (mc_cp c) (Some h) e) ?md"] exI [of _ h] exI [of _ w] exI [of _ d] exI [of _ e])
      (simp add: cpc_incomingFrame_def fan_out_filter)
qed

definition demo_voice :: media where
  "demo_voice = noMedia\<lparr>
     md_conns := [5 \<mapsto> \<lparr>mc_media = -1, mc_Id = ''a~b'', mc_label = '''', mc_cp = 6, mc_sip = 3,
        mc_rtp = NULL, mc_channels = [7], mc_owner = NULL, mc_counter = 1\<rparr>,
      7 \<mapsto> \<lparr>mc_media = 0, mc_Id = ''a~b'', mc_label = ''x'', mc_cp = 8, mc_sip = 3,
        mc_rtp = 9, mc_channels = [], mc_owner = 5, mc_counter = 1\<rparr>],
     md_cps := [6 \<mapsto> (newCpc ''a~b'' '''')\<lparr>cpc_packages := [11]\<rparr>, 8 \<mapsto> newCpc ''a~b'' ''x''],
     md_rtps := [9 \<mapsto> (newRtp 0 4000 ''x'')\<lparr>rtp_manager := 3, rtp_alive := True, rtp_active := True,
        rtp_codec := Some (ulaw_create\<lparr>cc_started := True\<rparr>)\<rparr>],
     md_sips := [3 \<mapsto> (newSip ''call'')\<lparr>sp_active := True, sp_managers := [(''x'', [7])]\<rparr>]\<rparr>"

theorem voice_reaches_packages_witness:
  "\<exists>md' h. receive_round 9 [(replicate 160 255, False)] 20 0 demo_voice = Val md' \<and> raw_frame h \<and>
     fr_original h = 20 \<and> md_calls md' = [(11, CallIncomingFrame 6 8 h)]"
proof -
  let ?ch = "(newRtp 0 4000 ''x'')\<lparr>rtp_manager := 3, rtp_alive := True, rtp_active := True,
        rtp_codec := Some (ulaw_create\<lparr>cc_started := True\<rparr>)\<rparr>"
  let ?t = "(newSip ''call'')\<lparr>sp_active := True, sp_managers := [(''x'', [7])]\<rparr>"
  have ok: "ep_ok demo_voice"
    by (simp add: ep_ok_def conn_ok_def demo_voice_def)
  have ch: "(9 :: ptr) \<noteq> NULL" "md_rtps demo_voice 9 = Some ?ch" "rtp_alive ?ch" "rtp_active ?ch"
      "rtp_media ?ch = MEDIACTRL_MEDIA_AUDIO"
      "speaks (ulaw_create\<lparr>cc_started := True\<rparr>) MEDIACTRL_CODEC_ULAW ?ch"
    by (simp_all add: demo_voice_def newRtp_def speaks_ulaw)
  have t: "md_sips demo_voice (rtp_manager ?ch) = Some ?t" "sp_active ?t"
      "smap_get (sp_managers ?t) (rtp_label ?ch) = Some (7 # [])" "7 \<noteq> md_core demo_voice"
    by (simp_all add: demo_voice_def newRtp_def smap_get_def noMedia_def)
  have "\<exists>c. md_conns demo_voice 7 = Some c \<and> mc_owner c = 5 \<and> mc_cp c = 8"
    by (simp add: demo_voice_def)
  then obtain c :: mconn where c: "md_conns demo_voice 7 = Some c" "mc_owner c = 5" "mc_cp c = 8" by blast
  then have o: "mc_owner c \<noteq> NULL" by simp
  have r: "recv_all [(replicate 160 255, False)] [] = Val (replicate 160 255)" "length (replicate 160 (255 :: u8)) = 160"
    by simp_all
  from voice_reaches_packages [OF ok ch t c(1) o r, of 20 0]
  obtain md' h and w :: mconn and d e :: cpc where
    "receive_round 9 [(replicate 160 255, False)] 20 0 demo_voice = Val md'" "raw_frame h" "fr_original h = 20"
    and w: "md_conns demo_voice 5 = Some w" "md_cps demo_voice 8 = Some d" "md_cps demo_voice (mc_cp w) = Some e"
    and calls: "md_calls md' = md_calls demo_voice @ map (\<lambda>pkg. (pkg, CallIncomingFrame (mc_cp w) 8 h))
       (filter (\<lambda>pkg. pkg \<noteq> NULL) (cpc_packages d) @ filter (\<lambda>pkg. pkg \<noteq> NULL) (cpc_packages e))"
    unfolding c(2,3) by blast
  moreover have "mc_cp w = 6" using w(1) by (auto simp: demo_voice_def)
  moreover from this w have "cpc_packages d = []" "cpc_packages e = [11]"
    by (auto simp: demo_voice_def newCpc_def)
  ultimately show ?thesis by (auto simp: demo_voice_def noMedia_def)
qed

end
