(* ===== verification/PackageApi.thy ===== *)
theory PackageApi
  imports SipTransaction
begin

text \<open>
  \<open>src/CfwStack.cxx\<close>: what the stack does for a control package with a connection the package
  holds. Each of these functions goes from the package connection to the endpoint behind it and
  makes a virtual call there: an endpoint is a \<open>MediaCtrlConnection\<close> or a
  \<open>MediaCtrlConference\<close>, and most functions of a conference do nothing (\<open>src/MediaCtrlEndpoint.h\<close>).
  The recursive functions run at depth two, which is enough.
\<close>

subsection \<open>From the package connection to the endpoint\<close>

definition getEndpointOf :: "ptr \<Rightarrow> media \<Rightarrow> ptr cpp" where
  "getEndpointOf cp md =
     (if cp = NULL then Val NULL
      else cpp_bind (deref (md_cps md) cp) (\<lambda>d. Val (cpc_endpoint d)))"

text \<open>The virtual call: \<open>f\<close> for a connection, \<open>g\<close> for a conference.\<close>

definition virtual_call :: "(ptr \<Rightarrow> media \<Rightarrow> 'a cpp) \<Rightarrow> (ptr \<Rightarrow> media \<Rightarrow> 'a cpp) \<Rightarrow> ptr \<Rightarrow> media \<Rightarrow> 'a cpp" where
  "virtual_call f g e md =
     (if md_conns md e \<noteq> None then f e md
      else if md_confs md e \<noteq> None then g e md
      else Undef)"

text \<open>The pattern of these functions: without a connection or an endpoint the answer is \<open>no\<close>.\<close>

definition on_endpoint ::
    "'a \<Rightarrow> (ptr \<Rightarrow> media \<Rightarrow> 'a cpp) \<Rightarrow> (ptr \<Rightarrow> media \<Rightarrow> 'a cpp) \<Rightarrow> ptr \<Rightarrow> media \<Rightarrow> 'a cpp" where
  "on_endpoint no f g cp md =
     cpp_bind (getEndpointOf cp md) (\<lambda>e. if e = NULL then Val no else virtual_call f g e md)"

subsection \<open>The functions\<close>

definition ep_getCpConnection :: "ptr \<Rightarrow> media \<Rightarrow> ptr cpp" where
  "ep_getCpConnection e md =
     virtual_call (\<lambda>p s. cpp_bind (deref (md_conns s) p) (\<lambda>c. Val (mc_cp c)))
       (\<lambda>p s. cpp_bind (deref (md_confs s) p) (\<lambda>c. Val (cf_cp c))) e md"

definition cfw_dropConnection :: "ptr \<Rightarrow> media \<Rightarrow> media cpp" where
  "cfw_dropConnection cp md = on_endpoint md (decreaseCounter 2) (\<lambda>p s. Val s) cp md"

definition cfw_sendFrame :: "(ptr \<Rightarrow> frame) \<Rightarrow> u32 \<Rightarrow> int \<Rightarrow> frame \<Rightarrow> ptr \<Rightarrow> media \<Rightarrow> media cpp" where
  "cfw_sendFrame fs now tod f cp md =
     on_endpoint md (conn_sendFrame fs now tod f 2) (\<lambda>p. conf_sendFrame p (Some f)) cp md"

definition cfw_incomingFrame :: "frame option \<Rightarrow> ptr \<Rightarrow> media \<Rightarrow> media cpp" where
  "cfw_incomingFrame f cp md =
     on_endpoint md (\<lambda>p s. Val s) (\<lambda>p. conf_incomingFrame p f) cp md"

definition cfw_clearDtmfBuffer :: "ptr \<Rightarrow> media \<Rightarrow> media cpp" where
  "cfw_clearDtmfBuffer cp md = on_endpoint md (clearDtmfBuffer 2) (\<lambda>p s. Val s) cp md"

definition cfw_getNextDtmfBuffer :: "ptr \<Rightarrow> media \<Rightarrow> (media \<times> int) cpp" where
  "cfw_getNextDtmfBuffer cp md =
     on_endpoint (md, -1) (getNextDtmfBuffer 2) (\<lambda>p s. Val (s, -1)) cp md"

definition cfw_getFlags :: "ptr \<Rightarrow> int \<Rightarrow> media \<Rightarrow> u32 cpp" where
  "cfw_getFlags cp mediaType md =
     on_endpoint 0 (\<lambda>p. getFlags 2 p mediaType) (\<lambda>p s. Val 0) cp md"

text \<open>Both \<open>getSubConnection\<close>: the package connection of the channel that \<open>search\<close> finds.\<close>

definition sub_connection :: "(ptr \<Rightarrow> media \<Rightarrow> ptr cpp) \<Rightarrow> ptr \<Rightarrow> media \<Rightarrow> ptr cpp" where
  "sub_connection search cp md =
     on_endpoint NULL
       (\<lambda>p s. cpp_bind (search p s) (\<lambda>q. if q = NULL then Val NULL else ep_getCpConnection q s))
       (\<lambda>p s. Val NULL) cp md"

definition getSubConnectionMedia :: "ptr \<Rightarrow> int \<Rightarrow> media \<Rightarrow> ptr cpp" where
  "getSubConnectionMedia cp mediaType md =
     (if cp = NULL \<or> mediaType \<noteq> MEDIACTRL_MEDIA_AUDIO then Val NULL
      else sub_connection (\<lambda>p. getOwnedMedia p mediaType) cp md)"

definition getSubConnectionLabel :: "ptr \<Rightarrow> string \<Rightarrow> media \<Rightarrow> ptr cpp" where
  "getSubConnectionLabel cp label md =
     (if cp = NULL \<or> label = '''' then Val NULL
      else sub_connection (\<lambda>p. getOwnedLabel p label) cp md)"

subsection \<open>On a live connection\<close>

lemma on_endpoint_conn:
  assumes "cp \<noteq> NULL" and "md_cps md cp = Some d" and "cpc_endpoint d = p" and "p \<noteq> NULL"
    and "md_conns md p = Some c"
  shows "on_endpoint no f g cp md = f p md"
  using assms by (simp add: on_endpoint_def getEndpointOf_def virtual_call_def)

lemma on_endpoint_none: "on_endpoint no f g NULL md = Val no"
  by (simp add: on_endpoint_def getEndpointOf_def)

end
