(* ===== verification/Core.thy ===== *)
theory Core
  imports PackageApi CfwStack
begin

text \<open>
  \<open>src/MediaCtrl.cxx\<close>: the state of class \<open>MediaCtrl\<close> and its part towards the control packages
  and the codecs: the factories, the endpoints it makes for a call or a conference on request of
  a package, transcoding, and the end of calls. Calls and endpoints live in the store of
  \<open>MediaStore\<close>; the core's maps hold their addresses, and \<open>operator[]\<close> enters NULL for an unknown
  key, here as in the source. What the core asks of reSIProcate is recorded on \<open>core_sip\<close>.
\<close>

subsection \<open>State\<close>

text \<open>A \<open>CodecFactory\<close>: its strings, and what the plugin's \<open>create()\<close> returns.\<close>

record factory =
  fa_name :: string
  fa_mask :: string
  fa_blockLen :: int
  fa_create :: "chan_codec option"

type_synonym factories = "(int, factory option) smap"

text \<open>A medium of an SDP answer, with the calls that add to it, and what a session is told.\<close>

record reply_medium =
  an_name :: string
  an_port :: u16
  an_protocol :: string
  an_formats :: "string list"
  an_codecs :: "(string \<times> int \<times> int) list"
  an_attributes :: "(string \<times> string) list"

datatype sip_call =
    SipReject int
  | SipProvisional int
  | SipAnswer "reply_medium list"
  | SipAccept

record core =
  core_md :: media
  core_sipTransactions :: "(string, ptr) smap"
  core_sipConnections :: "(string, ptr) smap"
  core_endpointConnections :: "(string, ptr) smap"
  core_endpointConferences :: "(string, ptr) smap"
  core_codecs :: factories
  core_plugins :: "(int, chan_codec option) smap"
  core_cfw :: stack
  core_acceptCalls :: bool
  core_sipName :: string
  core_restrict :: "u16 \<times> u16 \<times> u16 \<times> u16"
  core_next :: ptr
  core_sip :: "(ptr \<times> sip_call) list"

subsection \<open>Codecs\<close>

definition codecExists :: "int \<Rightarrow> factories \<Rightarrow> bool \<times> factories" where
  "codecExists codec m = (let (f, m1) = smap_index None codec m in (f \<noteq> None, m1))"

text \<open>\<open>createCodec\<close>: the alias of 122, the stand-in 200 for a missing factory, and its \<open>create()\<close>.\<close>

definition createCodec :: "int \<Rightarrow> factories \<Rightarrow> (chan_codec option \<times> factories) cpp" where
  "createCodec codec0 m =
     (let codec1 = (if codec0 = 122 then 99 else codec0);
          (f, m1) = smap_index None codec1 m;
          codec2 = (if f = None then 200 else codec1);
          (g, m2) = smap_index None codec2 m1
      in case g of None \<Rightarrow> Undef | Some fa \<Rightarrow> Val (fa_create fa, m2))"

definition getBlockLen :: "int \<Rightarrow> factories \<Rightarrow> int \<times> factories" where
  "getBlockLen codec m =
     (let (f, m1) = smap_index None codec m in
      case f of None \<Rightarrow> (-1, m1) | Some fa \<Rightarrow> (fa_blockLen fa, m1))"

text \<open>\<open>decode\<close> and \<open>encode\<close> use one shared instance per codec; \<open>tod\<close> is the time of day.\<close>

definition core_decode :: "frame option \<Rightarrow> int \<Rightarrow> core \<Rightarrow> (frame option \<times> core) cpp" where
  "core_decode f tod k = (case f of
     None \<Rightarrow> Val (None, k)
   | Some fr \<Rightarrow>
       if fr_format fr = MEDIACTRL_RAW then Val (Some fr, k)
       else let (d, m) = smap_index None (fr_format fr) (core_plugins k); k1 = k\<lparr>core_plugins := m\<rparr> in
         case d of None \<Rightarrow> Val (None, k1)
         | Some cd \<Rightarrow> cpp_bind (cc_decode cd (Some fr) tod) (\<lambda>r. Val (r, k1)))"

definition core_encode :: "frame option \<Rightarrow> int \<Rightarrow> int \<Rightarrow> core \<Rightarrow> (frame option \<times> core) cpp" where
  "core_encode f dstFormat tod k = (case f of
     None \<Rightarrow> Val (None, k)
   | Some fr \<Rightarrow>
       if fr_format fr = dstFormat then Val (Some fr, k)
       else cpp_bind (if fr_format fr \<noteq> MEDIACTRL_RAW then core_decode (Some fr) tod k else Val (Some fr, k))
         (\<lambda>(r, k1). case r of None \<Rightarrow> Val (None, k1)
          | Some raw \<Rightarrow>
              let (e, m) = smap_index None dstFormat (core_plugins k1); k2 = k1\<lparr>core_plugins := m\<rparr> in
              case e of None \<Rightarrow> Val (None, k2)
              | Some cd \<Rightarrow> cpp_bind (cc_encode cd (Some raw) tod) (\<lambda>r. Val (r, k2))))"

subsection \<open>Endpoints for the packages\<close>

definition rx_endpoint :: string where
  "rx_endpoint = ''(('' @ bsl @ ''w|'' @ bsl @ ''-)+)|((('' @ bsl @ ''w|'' @ bsl @ ''-)+)~(('' @ bsl @
     ''w|'' @ bsl @ ''-)+))''"

text \<open>
  The loop over the labels of the call at \<open>s\<close>: a channel for each, owned by the wrapper \<open>w\<close>, bound
  to the call's RTP channel and registered with the call. \<open>n\<close> is the next free address.
\<close>

fun wrap_labels :: "string \<Rightarrow> ptr \<Rightarrow> ptr \<Rightarrow> string list \<Rightarrow> media \<Rightarrow> ptr \<Rightarrow> (media \<times> ptr) cpp" where
  "wrap_labels connId s w [] md n = Val (md, n)"
| "wrap_labels connId s w (l # ls) md n =
     cpp_bind (setOwner n w (newConnection n (n + 1) connId l md)) (\<lambda>(md1, _).
     cpp_bind (addOwned w n md1) (\<lambda>(md2, _).
     cpp_bind (deref (md_sips md2) s) (\<lambda>t.
     cpp_bind (getRtpChannel l t) (\<lambda>(t1, r).
     cpp_bind (setLocal n s r (putSip s t1 md2)) (\<lambda>md3.
       wrap_labels connId s w ls (putSip s (fst (setSipManager n l t1)) md3) (n + 2))))))"

definition newEndpoint :: "string \<Rightarrow> ptr \<Rightarrow> core \<Rightarrow> (ptr \<times> core) cpp" where
  "newEndpoint connId s k =
     (let w = core_next k; md1 = newConnection w (w + 1) connId '''' (core_md k) in
      cpp_bind (deref (md_sips md1) s) (\<lambda>t.
      cpp_bind (wrap_labels connId s w (sp_rtpLabels t) md1 (w + 2)) (\<lambda>(md2, n).
        Val (w, k\<lparr>core_md := md2, core_next := n,
                  core_endpointConnections := smap_put connId w (core_endpointConnections k)\<rparr>))))"

text \<open>What \<open>getEndpoint\<close> does with an identifier that denotes a call.\<close>

definition getConnectionEndpoint :: "string \<Rightarrow> core \<Rightarrow> (ptr \<times> core) cpp" where
  "getConnectionEndpoint connId k =
     (let (s, m) = smap_index NULL connId (core_sipConnections k); k1 = k\<lparr>core_sipConnections := m\<rparr> in
      if s = NULL then Val (NULL, k1)
      else let (e, m2) = smap_index NULL connId (core_endpointConnections k1);
               k2 = k1\<lparr>core_endpointConnections := m2\<rparr> in
        cpp_bind (if e = NULL then newEndpoint connId s k2 else Val (e, k2)) (\<lambda>(p, k3).
        cpp_bind (increaseCounter 2 p (core_md k3)) (\<lambda>md. Val (p, k3\<lparr>core_md := md\<rparr>))))"

definition getConferenceEndpoint :: "string \<Rightarrow> core \<Rightarrow> ptr \<times> core" where
  "getConferenceEndpoint connId k =
     (let (e, m) = smap_index NULL connId (core_endpointConferences k)
      in (e, k\<lparr>core_endpointConferences := m\<rparr>))"

definition getEndpoint :: "boost \<Rightarrow> string \<Rightarrow> core \<Rightarrow> (ptr \<times> core) cpp" where
  "getEndpoint bx conId k = (case bx_match bx rx_endpoint conId of
     None \<Rightarrow> Val (NULL, k)
   | Some ms \<Rightarrow>
       if sub ms 1 \<noteq> '''' then Val (getConferenceEndpoint (sub ms 1) k)
       else getConnectionEndpoint (sub ms 3) k)"

definition core_createConference :: "string \<Rightarrow> core \<Rightarrow> ptr \<times> core" where
  "core_createConference confId k =
     (if confId = '''' then (NULL, k)
      else let (s, m) = smap_index NULL confId (core_sipConnections k); k1 = k\<lparr>core_sipConnections := m\<rparr> in
        if s \<noteq> NULL then (NULL, k1)
        else let (e, k2) = getConferenceEndpoint confId k1 in
          if e \<noteq> NULL then (NULL, k2)
          else let p = core_next k2 in
            (p, k2\<lparr>core_md := newConference p (p + 1) confId (core_md k2), core_next := p + 2,
                   core_endpointConferences := smap_put confId p (core_endpointConferences k2)\<rparr>))"

text \<open>The stack's \<open>getConnection\<close> and \<open>createConference\<close>, which answer with the package connection.\<close>

definition cfw_getConnection :: "boost \<Rightarrow> string \<Rightarrow> core \<Rightarrow> (ptr \<times> core) cpp" where
  "cfw_getConnection bx conId k =
     (if conId = '''' then Val (NULL, k)
      else cpp_bind (getEndpoint bx conId k) (\<lambda>(e, k1).
        if e = NULL then Val (NULL, k1)
        else cpp_bind (ep_getCpConnection e (core_md k1)) (\<lambda>cp. Val (cp, k1))))"

definition cfw_createConference :: "string \<Rightarrow> core \<Rightarrow> (ptr \<times> core) cpp" where
  "cfw_createConference confId k =
     (let (e, k1) = core_createConference confId k in
      if e = NULL then Val (NULL, k1)
      else cpp_bind (ep_getCpConnection e (core_md k1)) (\<lambda>cp. Val (cp, k1)))"

subsection \<open>The end of calls\<close>

definition leave_cfw :: "siptx \<Rightarrow> core \<Rightarrow> core cpp" where
  "leave_cfw t k =
     (if sp_as t then cpp_bind (removeClient (sp_cfwId t) (core_cfw k)) (\<lambda>(st, _). Val (k\<lparr>core_cfw := st\<rparr>))
      else Val k)"

definition forget_call :: "siptx \<Rightarrow> core \<Rightarrow> core" where
  "forget_call t k =
     k\<lparr>core_sipTransactions := smap_erase (sp_callId t) (core_sipTransactions k),
       core_sipConnections := smap_erase (sp_connectionId t) (core_sipConnections k)\<rparr>"

definition lookup_call :: "string \<Rightarrow> core \<Rightarrow> ptr \<times> core" where
  "lookup_call callId k =
     (let (s, m) = smap_index NULL callId (core_sipTransactions k) in (s, k\<lparr>core_sipTransactions := m\<rparr>))"

definition core_endDialog :: "string \<Rightarrow> core \<Rightarrow> core cpp" where
  "core_endDialog callId k =
     (let (s, k1) = lookup_call callId k in
      if s = NULL then Val k1
      else cpp_bind (deref (md_sips (core_md k1)) s) (\<lambda>t.
        cpp_bind (leave_cfw t k1) (\<lambda>k2.
          Val ((forget_call t k2)\<lparr>core_md := putSip s (sendBye t) (core_md k2)\<rparr>))))"

definition core_delete_sip :: "ptr \<Rightarrow> core \<Rightarrow> core cpp" where
  "core_delete_sip s k = cpp_bind (deleteSip s (core_md k)) (\<lambda>md. Val (k\<lparr>core_md := md\<rparr>))"

text \<open>\<open>onTerminated\<close>; \<open>None\<close> when there is no message.\<close>

definition onTerminated :: "string option \<Rightarrow> core \<Rightarrow> core cpp" where
  "onTerminated msg k0 = (case msg of None \<Rightarrow> Val k0 | Some callId \<Rightarrow>
     let (s, k1) = lookup_call callId k0 in
     if s = NULL then Val k1
     else cpp_bind (deref (md_sips (core_md k1)) s) (\<lambda>t.
       cpp_bind (leave_cfw t k1) (\<lambda>k2.
       let k3 = forget_call t k2;
           (p, m) = smap_index NULL (sp_connectionId t) (core_endpointConnections k3);
           k4 = k3\<lparr>core_endpointConnections := m\<rparr> in
       cpp_bind (unsetSipManager NULL '''' t (md_rtps (core_md k4))) (\<lambda>(t', h, _).
       let md = putSip s t' ((core_md k4)\<lparr>md_rtps := h\<rparr>) in
       cpp_bind (if p \<noteq> NULL then
           cpp_bind (deleteConnection 2 p md) (\<lambda>md1.
             Val (k4\<lparr>core_md := md1,
                     core_endpointConnections := smap_erase (sp_connectionId t) (core_endpointConnections k4)\<rparr>))
         else Val (k4\<lparr>core_md := md\<rparr>))
         (core_delete_sip s)))))"

text \<open>
  The destructor: all calls go, with a BYE each, then the endpoints. Its first loop takes a bound
  on the number of rounds, and running out stands for a loop that does not end.
\<close>

fun hangup_all :: "nat \<Rightarrow> core \<Rightarrow> core cpp" where
  "hangup_all n k = (case core_sipTransactions k of
     [] \<Rightarrow> Val k
   | (key, s) # rest \<Rightarrow>
       (case n of 0 \<Rightarrow> Undef | Suc n' \<Rightarrow>
          if s = NULL then hangup_all n' (k\<lparr>core_sipTransactions := rest\<rparr>)
          else cpp_bind (deref (md_sips (core_md k)) s) (\<lambda>t.
            cpp_bind (leave_cfw t k) (\<lambda>k1.
            cpp_bind (core_delete_sip s
                ((forget_call t k1)\<lparr>core_md := putSip s (sendBye t) (core_md k1)\<rparr>))
              (hangup_all n')))))"

declare hangup_all.simps [simp del]

definition delete_endpoints :: "core \<Rightarrow> core cpp" where
  "delete_endpoints k =
     cpp_bind (for_each (\<lambda>p md. if p = NULL then Val md else deleteConnection 2 p md)
        (map snd (core_endpointConnections k)) (core_md k)) (\<lambda>md1.
     cpp_bind (for_each (\<lambda>p md. if p = NULL then Val md else deleteConference p md)
        (map snd (core_endpointConferences k)) md1) (\<lambda>md2.
     Val (k\<lparr>core_md := md2, core_endpointConnections := [], core_endpointConferences := []\<rparr>)))"

definition core_destroy :: "core \<Rightarrow> core cpp" where
  "core_destroy k =
     cpp_bind (hangup_all (length (core_sipTransactions k)) (k\<lparr>core_acceptCalls := False\<rparr>)) delete_endpoints"

subsection \<open>The endpoint of a call\<close>

text \<open>
  The channel \<open>q\<close> stands for the medium \<open>l\<close> of the call \<open>t\<close>: it is owned by the wrapper \<open>w\<close>,
  holds the call's RTP channel for that label, is not counted yet, and is the first that the call
  tells about the medium.
\<close>

definition serves :: "media \<Rightarrow> siptx \<Rightarrow> ptr \<Rightarrow> ptr \<Rightarrow> string \<Rightarrow> bool" where
  "serves md t w q l \<longleftrightarrow> q \<noteq> NULL \<and> (\<exists>d. md_conns md q = Some d \<and> mc_label d = l \<and> mc_owner d = w \<and>
     mc_counter d = 0 \<and> mc_channels d = [] \<and> smap_get (sp_byLabel t) l = Some (mc_rtp d)) \<and>
     (\<exists>ms. smap_get (sp_managers t) l = Some (q # ms))"

definition asleep :: "media \<Rightarrow> siptx \<Rightarrow> string \<Rightarrow> bool" where
  "asleep md t l \<longleftrightarrow> l \<noteq> '''' \<and> (\<exists>r ch. smap_get (sp_byLabel t) l = Some r \<and> r \<noteq> NULL \<and>
     md_rtps md r = Some ch \<and> \<not> rtp_active ch)"

definition unused_from :: "ptr \<Rightarrow> media \<Rightarrow> bool" where
  "unused_from n md \<longleftrightarrow> (\<forall>p\<ge>n. md_conns md p = None)"

lemma getRtpChannel_known:
  "l \<noteq> '''' \<Longrightarrow> smap_get (sp_byLabel t) l = Some r \<Longrightarrow> getRtpChannel l t = Val (t, r)"
  by (simp add: getRtpChannel_def chanByLabel_def smap_index_def)

lemma setSipManager_known:
  assumes "l \<noteq> ''''" and "smap_get (sp_byLabel t) l = Some r" and "r \<noteq> NULL"
  shows "fst (setSipManager q l t) =
     t\<lparr>sp_active := True, sp_managers := push_manager q [l] (sp_managers t)\<rparr>"
  using assms by (simp add: setSipManager_def chanByLabel_def smap_index_def)

lemma wrap_one:
  assumes s: "s \<noteq> NULL" "md_sips md s = Some t" "smap_ok (sp_managers t)"
    and w: "w \<noteq> NULL" "w < n" "md_conns md w = Some c" "mc_label c = ''''"
    and l: "asleep md t l" and n: "unused_from n md"
  obtains md1 t1 where "wrap_labels connId s w (l # ls) md n = wrap_labels connId s w ls md1 (n + 2)"
    "md_sips md1 s = Some t1" "sp_byLabel t1 = sp_byLabel t" "smap_ok (sp_managers t1)"
    "\<forall>x. x \<noteq> l \<longrightarrow> smap_get (sp_managers t1) x = smap_get (sp_managers t) x" "sp_active t1"
    "sp_rtpLabels t1 = sp_rtpLabels t"
    "md_conns md1 w = Some (c\<lparr>mc_channels := mc_channels c @ [n]\<rparr>)" "serves md1 t1 w n l"
    "\<forall>x<n. x \<noteq> w \<longrightarrow> md_conns md1 x = md_conns md x" "unused_from (n + 2) md1"
    "md_rtps md1 = md_rtps md" "\<forall>x<n. md_cps md1 x = md_cps md x"
proof -
  from l obtain r ch where r: "l \<noteq> ''''" "smap_get (sp_byLabel t) l = Some r" "r \<noteq> NULL"
      "md_rtps md r = Some ch"
    by (auto simp: asleep_def)
  let ?t = "t\<lparr>sp_active := True, sp_managers := push_manager n [l] (sp_managers t)\<rparr>"
  let ?md0 = "newConnection n (n + 1) connId l md"
  obtain c0 where c0: "md_conns ?md0 n = Some c0" "mc_label c0 = l" "mc_cp c0 = n + 1" "mc_counter c0 = 0"
      "mc_channels c0 = []"
    by (simp add: newConnection_def)
  have w0: "md_conns ?md0 w = Some c" using w by (simp add: newConnection_def)
  let ?c1 = "c0\<lparr>mc_owner := w\<rparr>"
  let ?md1 = "putConn n ?c1 ?md0"
  have 1: "setOwner n w ?md0 = Val (?md1, 0)"
    using w r c0 w0 by (simp add: setOwner_def)
  let ?md2 = "putConn w (c\<lparr>mc_channels := mc_channels c @ [n]\<rparr>) ?md1"
  have 2: "addOwned w n ?md1 = Val (?md2, 0)"
    using w r c0 w0 by (simp add: addOwned_def)
  have 3: "deref (md_sips ?md2) s = Val t" using s by (simp add: newConnection_def)
  obtain d where d: "md_cps ?md2 (n + 1) = Some d" by (simp add: newConnection_def)
  let ?c3 = "?c1\<lparr>mc_sip := s, mc_rtp := r, mc_media := rtp_media ch\<rparr>"
  let ?md3 = "putConn n ?c3 (putCp (n + 1) (d\<lparr>cpc_pt := rtp_pt ch, cpc_mediaType := rtp_media ch\<rparr>)
      (putSip s t ?md2))"
  have 4: "setLocal n s r (putSip s t ?md2) = Val ?md3"
    using w c0 d r by (simp add: setLocal_def newConnection_def)
  let ?md4 = "putSip s ?t ?md3"
  show thesis
  proof (rule that [of ?md4 ?t])
    show "wrap_labels connId s w (l # ls) md n = wrap_labels connId s w ls ?md4 (n + 2)"
      unfolding wrap_labels.simps 1 cpp_bind.simps prod.case 2 3
        getRtpChannel_known [OF r(1,2)] 4 setSipManager_known [OF r(1-3)] ..
    show "serves ?md4 ?t w n l" using w r s c0 by (simp add: serves_def)
    show "unused_from (n + 2) ?md4" using n w by (simp add: unused_from_def newConnection_def)
    show "\<forall>x<n. x \<noteq> w \<longrightarrow> md_conns ?md4 x = md_conns md x" by (simp add: newConnection_def)
    show "\<forall>x. x \<noteq> l \<longrightarrow> smap_get (sp_managers ?t) x = smap_get (sp_managers t) x" using s by simp
    show "md_conns ?md4 w = Some (c\<lparr>mc_channels := mc_channels c @ [n]\<rparr>)" using w by simp
    show "md_rtps ?md4 = md_rtps md" by (simp add: newConnection_def)
    show "\<forall>x<n. md_cps ?md4 x = md_cps md x" by (simp add: newConnection_def)
  qed (use s in simp_all)
qed

lemma serves_later:
  assumes "serves md t w q l" and "md_conns md' q = md_conns md q" and "sp_byLabel t' = sp_byLabel t"
    and "smap_get (sp_managers t') l = smap_get (sp_managers t) l"
  shows "serves md' t' w q l"
  using assms by (simp add: serves_def)

lemma wrap_all:
  assumes "s \<noteq> NULL" "md_sips md s = Some t" "smap_ok (sp_managers t)"
    and "w \<noteq> NULL" "w < n" "md_conns md w = Some c" "mc_label c = ''''"
    and "\<forall>l\<in>set ls. asleep md t l" and "distinct ls" and "unused_from n md"
  shows "\<exists>md' t' qs. wrap_labels connId s w ls md n = Val (md', n + 2 * length ls) \<and>
     md_sips md' s = Some t' \<and> sp_byLabel t' = sp_byLabel t \<and> sp_rtpLabels t' = sp_rtpLabels t \<and>
     (\<forall>x. x \<notin> set ls \<longrightarrow> smap_get (sp_managers t') x = smap_get (sp_managers t) x) \<and>
     (ls \<noteq> [] \<longrightarrow> sp_active t') \<and>
     md_conns md' w = Some (c\<lparr>mc_channels := mc_channels c @ qs\<rparr>) \<and> list_all2 (serves md' t' w) qs ls \<and>
     distinct qs \<and> (\<forall>q\<in>set qs. n \<le> q) \<and> (\<forall>x<n. x \<noteq> w \<longrightarrow> md_conns md' x = md_conns md x) \<and>
     unused_from (n + 2 * length ls) md' \<and> md_rtps md' = md_rtps md \<and> (\<forall>x<n. md_cps md' x = md_cps md x)"
  using assms
proof (induction ls arbitrary: md t n c)
  case (Cons l ls)
  from Cons.prems have "asleep md t l" by simp
  from wrap_one [OF Cons.prems(1-7) this Cons.prems(10), where connId = connId and ls = ls]
  obtain md1 t1 where m: "wrap_labels connId s w (l # ls) md n = wrap_labels connId s w ls md1 (n + 2)"
    "md_sips md1 s = Some t1" "sp_byLabel t1 = sp_byLabel t" "smap_ok (sp_managers t1)"
    "\<forall>x. x \<noteq> l \<longrightarrow> smap_get (sp_managers t1) x = smap_get (sp_managers t) x" "sp_active t1"
    "sp_rtpLabels t1 = sp_rtpLabels t"
    "md_conns md1 w = Some (c\<lparr>mc_channels := mc_channels c @ [n]\<rparr>)" "serves md1 t1 w n l"
    "\<forall>x<n. x \<noteq> w \<longrightarrow> md_conns md1 x = md_conns md x" "unused_from (n + 2) md1" "md_rtps md1 = md_rtps md"
    "\<forall>x<n. md_cps md1 x = md_cps md x"
    by blast
  have a: "\<forall>x\<in>set ls. asleep md1 t1 x" using Cons.prems(8) m(3,12) by (simp add: asleep_def)
  have "w < n + 2" "mc_label (c\<lparr>mc_channels := mc_channels c @ [n]\<rparr>) = ''''" "distinct ls"
    using Cons.prems by auto
  from Cons.IH [OF Cons.prems(1) m(2,4) Cons.prems(4) this(1) m(8) this(2) a this(3) m(11)]
  obtain md' t' qs where i: "wrap_labels connId s w ls md1 (n + 2) = Val (md', n + 2 + 2 * length ls)"
     "md_sips md' s = Some t'" "sp_byLabel t' = sp_byLabel t1" "sp_rtpLabels t' = sp_rtpLabels t1"
     "\<forall>x. x \<notin> set ls \<longrightarrow> smap_get (sp_managers t') x = smap_get (sp_managers t1) x"
     "ls \<noteq> [] \<longrightarrow> sp_active t'"
     "md_conns md' w = Some (c\<lparr>mc_channels := (mc_channels c @ [n]) @ qs\<rparr>)"
     "list_all2 (serves md' t' w) qs ls" "distinct qs" "\<forall>q\<in>set qs. n + 2 \<le> q"
     "\<forall>x<n + 2. x \<noteq> w \<longrightarrow> md_conns md' x = md_conns md1 x"
     "unused_from (n + 2 + 2 * length ls) md'" "md_rtps md' = md_rtps md1"
     "\<forall>x<n + 2. md_cps md' x = md_cps md1 x"
    by (auto simp: list_all2_Nil2)
  have "serves md' t' w n l"
    by (rule serves_later [OF m(9)]) (use i(3,5,11) Cons.prems(5,9) in auto)
  moreover have "sp_active t'" using m(2,6) i(1,2,6) by (cases ls) auto
  moreover have "n \<notin> set qs" using i(10) by auto
  ultimately show ?case
    using m i Cons.prems(5) by (intro exI [of _ md'] exI [of _ t'] exI [of _ "n # qs"]) auto
qed (auto intro!: exI [of _ "[]"])

text \<open>Counting touches neither the calls nor the package connections.\<close>

definition same_sides :: "media \<Rightarrow> media \<Rightarrow> bool" where
  "same_sides md md' \<longleftrightarrow> md_sips md' = md_sips md \<and> md_cps md' = md_cps md"

lemma sides_wake: "wake_channel r b md = Val md' \<Longrightarrow> same_sides md md'"
  by (auto simp: wake_channel_def cpp_bind_Val same_sides_def)

lemma sides_for_each:
  assumes "\<And>p s s'. f p s = Val s' \<Longrightarrow> same_sides s s'" and "for_each f ps s = Val s'"
  shows "same_sides s s'"
  by (rule for_each_invariant [where I = "same_sides s", OF _ _ assms(2)])
    (use assms(1) in \<open>auto simp: same_sides_def\<close>)

lemma sides_count: "count_op up n p md = Val md' \<Longrightarrow> same_sides md md'"
proof (induction n arbitrary: p md md')
  case (Suc n)
  have f: "for_each (count_op up n) ps s = Val s' \<Longrightarrow> same_sides s s'" for ps s s'
    using Suc.IH by (rule sides_for_each)
  show ?case
  proof (cases up)
    case True
    then have c: "count_op up = increaseCounter" by (simp add: count_op_def)
    show ?thesis using Suc.prems f unfolding c
      by (auto simp: cpp_bind_Val Let_def same_sides_def dest!: sides_wake split: if_splits)
  next
    case False
    then have c: "count_op up = decreaseCounter" by (simp add: count_op_def)
    show ?thesis using Suc.prems f unfolding c
      by (auto simp: cpp_bind_Val Let_def same_sides_def dest!: sides_wake split: if_splits)
  qed
qed (cases up, simp_all add: count_op_def)

lemma shape_count: "count_op up n p md = Val md' \<Longrightarrow> same_shape md md'"
  by (auto simp: count_op_def intro: shape_increaseCounter shape_decreaseCounter split: if_splits)

text \<open>A call with its endpoint: who the wrapper is, what the packages hold of it, how many hold it.\<close>

definition call_face :: "media \<Rightarrow> ptr \<Rightarrow> ptr \<Rightarrow> nat \<Rightarrow> bool" where
  "call_face md p cp u \<longleftrightarrow> in_use md p u \<and> cp \<noteq> NULL \<and>
     (\<exists>c d. md_conns md p = Some c \<and> mc_cp c = cp \<and> md_cps md cp = Some d \<and> cpc_endpoint d = p)"

lemma call_face_count:
  assumes "call_face md p cp u" and "users_after up u < 65536"
  shows "\<exists>md'. count_op up 2 p md = Val md' \<and> call_face md' p cp (users_after up u)"
proof -
  from assms(1) obtain c d where c: "in_use md p u" "cp \<noteq> NULL" "md_conns md p = Some c" "mc_cp c = cp"
      "md_cps md cp = Some d" "cpc_endpoint d = p"
    unfolding call_face_def by blast
  obtain md' where m: "count_op up 2 p md = Val md'" "in_use md' p (users_after up u)"
    using count_call [OF c(1) assms(2), of 0] by (auto simp: numeral_2_eq_2)
  obtain c' where "md_conns md' p = Some c'" "same_links c c'"
    using same_shape_conn [OF shape_count [OF m(1)] c(3)] by blast
  with m c sides_count [OF m(1)] show ?thesis
    by (auto simp: call_face_def same_sides_def same_links_def)
qed

lemma serves_unused:
  assumes "list_all2 (serves md t w) qs ls" and "\<forall>l\<in>set ls. asleep md t l" and "w \<noteq> NULL"
  shows "\<forall>q\<in>set qs. chan_at md 0 False q"
proof
  fix q assume "q \<in> set qs"
  then obtain i where i: "i < length qs" "q = qs ! i" by (metis in_set_conv_nth)
  then have "serves md t w q (ls ! i)" "asleep md t (ls ! i)"
    using assms(1,2) by (auto simp: list_all2_conv_all_nth)
  with assms(3) show "chan_at md 0 False q" by (auto simp: serves_def asleep_def chan_at_def)
qed

text \<open>The channels of the endpoint \<open>w\<close> stand for the media of the call at \<open>s\<close>, one for each, in order.\<close>

definition stands_for :: "media \<Rightarrow> ptr \<Rightarrow> siptx \<Rightarrow> ptr \<Rightarrow> string \<Rightarrow> bool" where
  "stands_for md w t q l \<longleftrightarrow> (\<exists>d. md_conns md q = Some d \<and> mc_label d = l \<and> mc_owner d = w \<and>
     smap_get (sp_byLabel t) l = Some (mc_rtp d)) \<and>
     (\<exists>ms. smap_get (sp_managers t) l = Some (q # ms))"

definition endpoint_for :: "media \<Rightarrow> ptr \<Rightarrow> ptr \<Rightarrow> string list \<Rightarrow> bool" where
  "endpoint_for md w s ls \<longleftrightarrow> (\<exists>c t. md_conns md w = Some c \<and> md_sips md s = Some t \<and>
     list_all2 (stands_for md w t) (mc_channels c) ls)"

lemma endpoint_for_count:
  assumes "endpoint_for md w s ls" and "count_op up n w md = Val md'"
  shows "endpoint_for md' w s ls"
proof -
  from assms(1) obtain c t where c: "md_conns md w = Some c" "md_sips md s = Some t"
      "list_all2 (stands_for md w t) (mc_channels c) ls"
    unfolding endpoint_for_def by blast
  note sh = shape_count [OF assms(2)]
  obtain c' where c': "md_conns md' w = Some c'" "mc_channels c' = mc_channels c"
    using same_shape_conn [OF sh c(1)] by (auto simp: same_links_def)
  have "stands_for md' w t q l" if "stands_for md w t q l" for q l
    using that same_shape_conn [OF sh, of q] unfolding stands_for_def same_links_def by metis
  then have "list_all2 (stands_for md' w t) (mc_channels c') ls"
    using c(3) c'(2) by (simp add: list_all2_mono)
  moreover have "md_sips md' s = Some t" using sides_count [OF assms(2)] c(2) by (simp add: same_sides_def)
  ultimately show ?thesis using c'(1) unfolding endpoint_for_def by blast
qed

text \<open>A call that is ready for its first user: its media are labelled, known and asleep.\<close>

definition call_ready :: "core \<Rightarrow> ptr \<Rightarrow> siptx \<Rightarrow> bool" where
  "call_ready k s t \<longleftrightarrow> s \<noteq> NULL \<and> md_sips (core_md k) s = Some t \<and> smap_ok (sp_managers t) \<and>
     sp_rtpLabels t \<noteq> [] \<and> distinct (sp_rtpLabels t) \<and>
     (\<forall>l\<in>set (sp_rtpLabels t). asleep (core_md k) t l) \<and>
     unused_from (core_next k) (core_md k) \<and> core_next k \<noteq> NULL"

lemma newEndpoint_made:
  assumes "call_ready k s t"
  shows "\<exists>k'. newEndpoint connId s k = Val (core_next k, k') \<and>
     call_face (core_md k') (core_next k) (core_next k + 1) 0 \<and>
     endpoint_for (core_md k') (core_next k) s (sp_rtpLabels t) \<and>
     core_endpointConnections k' = smap_put connId (core_next k) (core_endpointConnections k) \<and>
     core_sipConnections k' = core_sipConnections k"
proof -
  let ?w = "core_next k" and ?ls = "sp_rtpLabels t"
  let ?md1 = "newConnection ?w (?w + 1) connId '''' (core_md k)"
  note r = assms [unfolded call_ready_def]
  obtain c where c: "md_conns ?md1 ?w = Some c" "mc_label c = ''''" "mc_cp c = ?w + 1" "mc_channels c = []"
      "mc_counter c = 0"
    by (simp add: newConnection_def)
  have t: "md_sips ?md1 s = Some t" using r by (simp add: newConnection_def)
  have a: "\<forall>l\<in>set ?ls. asleep ?md1 t l" using r by (simp add: asleep_def newConnection_def)
  have u: "unused_from (?w + 2) ?md1" using r by (simp add: unused_from_def newConnection_def)
  have w: "?w < ?w + 2" by simp
  obtain md' t' qs where i: "wrap_labels connId s ?w ?ls ?md1 (?w + 2) = Val (md', ?w + 2 + 2 * length ?ls)"
     "md_sips md' s = Some t'" "sp_byLabel t' = sp_byLabel t"
     "md_conns md' ?w = Some (c\<lparr>mc_channels := mc_channels c @ qs\<rparr>)"
     "list_all2 (serves md' t' ?w) qs ?ls" "distinct qs" "\<forall>q\<in>set qs. ?w + 2 \<le> q"
     "md_rtps md' = md_rtps ?md1" "\<forall>x<?w + 2. md_cps md' x = md_cps ?md1 x"
    using wrap_all [OF _ t _ _ w c(1,2) a _ u, of connId] r by auto
  have a': "\<forall>l\<in>set ?ls. asleep md' t' l" using a i(3,8) by (simp add: asleep_def)
  have "qs \<noteq> []" using i(5) r by auto
  moreover have "?w \<notin> set qs" using i(7) by auto
  ultimately have "in_use md' ?w 0"
    using i c r serves_unused [OF i(5) a'] by (simp add: in_use_def)
  moreover have "\<exists>d. md_cps md' (?w + 1) = Some d \<and> cpc_endpoint d = ?w"
    using i(9) by (simp add: newConnection_def)
  ultimately have "call_face md' ?w (?w + 1) 0" using i(4) c(3) by (simp add: call_face_def)
  moreover have "endpoint_for md' ?w s ?ls"
  proof -
    have "stands_for md' ?w t' q l" if "serves md' t' ?w q l" for q l
      using that by (auto simp: serves_def stands_for_def)
    then have "list_all2 (stands_for md' ?w t') qs ?ls" using i(5) by (simp add: list_all2_mono)
    then show ?thesis using i(2,4) c(4) by (simp add: endpoint_for_def)
  qed
  ultimately show ?thesis using i(1) r t by (simp add: newEndpoint_def Let_def)
qed

subsection \<open>Packages share the endpoint\<close>

definition denotes_call :: "boost \<Rightarrow> string \<Rightarrow> string \<Rightarrow> bool" where
  "denotes_call bx conId connId \<longleftrightarrow> conId \<noteq> '''' \<and>
     (\<exists>ms. bx_match bx rx_endpoint conId = Some ms \<and> sub ms 1 = '''' \<and> sub ms 3 = connId)"

text \<open>The call is known under \<open>connId\<close> at \<open>s\<close>, its endpoint is \<open>w\<close>, and \<open>u\<close> packages hold it.\<close>

definition call_held :: "core \<Rightarrow> string \<Rightarrow> ptr \<Rightarrow> string list \<Rightarrow> ptr \<Rightarrow> ptr \<Rightarrow> nat \<Rightarrow> bool" where
  "call_held k connId s ls w cp u \<longleftrightarrow> s \<noteq> NULL \<and> smap_get (core_sipConnections k) connId = Some s \<and>
     smap_get (core_endpointConnections k) connId = Some w \<and> call_face (core_md k) w cp u \<and>
     endpoint_for (core_md k) w s ls"

lemma call_face_wrapper: "call_face md p cp u \<Longrightarrow> p \<noteq> NULL"
  by (auto simp: call_face_def in_use_def)

lemma face_cp: "call_face md p cp u \<Longrightarrow> ep_getCpConnection p md = Val cp"
  by (auto simp: call_face_def in_use_def ep_getCpConnection_def virtual_call_def)

lemma getConnection_held:
  assumes "call_held k connId s ls w cp u" and "denotes_call bx conId connId" and "Suc u < 65536"
  shows "\<exists>k'. cfw_getConnection bx conId k = Val (cp, k') \<and> call_held k' connId s ls w cp (Suc u)"
proof -
  note h = assms(1) [unfolded call_held_def]
  from h have f: "call_face (core_md k) w cp u" by simp
  from assms(3) have b: "users_after True u < 65536" by (simp add: users_after_def)
  obtain md' where m: "increaseCounter 2 w (core_md k) = Val md'" "call_face md' w cp (Suc u)"
    using call_face_count [OF f b] by (auto simp: count_op_def users_after_def)
  have e: "endpoint_for md' w s ls"
    using endpoint_for_count [of "core_md k" w s ls True 2] h m(1) by (simp add: count_op_def)
  let ?k = "k\<lparr>core_md := md'\<rparr>"
  have "getConnectionEndpoint connId k = Val (w, ?k)"
    using h m(1) call_face_wrapper [OF f] by (simp add: getConnectionEndpoint_def smap_index_def)
  then have "getEndpoint bx conId k = Val (w, ?k)"
    using assms(2) by (auto simp: getEndpoint_def denotes_call_def)
  then have "cfw_getConnection bx conId k = Val (cp, ?k)"
    using assms(2) call_face_wrapper [OF f] face_cp [OF m(2)] by (simp add: cfw_getConnection_def denotes_call_def)
  with h m(2) e show ?thesis by (auto simp: call_held_def)
qed

lemma dropConnection_held:
  assumes "call_held k connId s ls w cp u" and "u < 65536"
  shows "\<exists>md'. cfw_dropConnection cp (core_md k) = Val md' \<and>
     call_held (k\<lparr>core_md := md'\<rparr>) connId s ls w cp (u - 1)"
proof -
  note h = assms(1) [unfolded call_held_def]
  from h have f: "call_face (core_md k) w cp u" by simp
  from assms(2) have b: "users_after False u < 65536" by (simp add: users_after_def)
  obtain md' where m: "decreaseCounter 2 w (core_md k) = Val md'" "call_face md' w cp (u - 1)"
    using call_face_count [OF f b] by (auto simp: count_op_def users_after_def)
  have e: "endpoint_for md' w s ls"
    using endpoint_for_count [of "core_md k" w s ls False 2] h m(1) by (simp add: count_op_def)
  from f obtain c d where "md_conns (core_md k) w = Some c" "cp \<noteq> NULL" "md_cps (core_md k) cp = Some d"
      "cpc_endpoint d = w"
    unfolding call_face_def by blast
  then have "cfw_dropConnection cp (core_md k) = Val md'"
    using m(1) call_face_wrapper [OF f] by (simp add: cfw_dropConnection_def on_endpoint_conn)
  with h m(2) e show ?thesis by (auto simp: call_held_def)
qed

lemma getConnection_first:
  assumes r: "call_ready k s t" and s: "smap_get (core_sipConnections k) connId = Some s"
    and n: "smap_get (core_endpointConnections k) connId \<in> {None, Some NULL}"
    and ok: "smap_ok (core_endpointConnections k)" and b: "denotes_call bx conId connId"
  shows "\<exists>k'. cfw_getConnection bx conId k = Val (core_next k + 1, k') \<and>
     call_held k' connId s (sp_rtpLabels t) (core_next k) (core_next k + 1) 1"
proof -
  let ?w = "core_next k"
  obtain m where m: "smap_index NULL connId (core_endpointConnections k) = (NULL, m)" "smap_ok m"
    using n ok by (auto simp: smap_index_def)
  let ?k = "k\<lparr>core_endpointConnections := m\<rparr>"
  have "call_ready ?k s t" using r by (simp add: call_ready_def)
  from newEndpoint_made [OF this, of connId] obtain k1 where k1: "newEndpoint connId s ?k = Val (?w, k1)"
      "call_face (core_md k1) ?w (?w + 1) 0" "endpoint_for (core_md k1) ?w s (sp_rtpLabels t)"
      "core_endpointConnections k1 = smap_put connId ?w m" "core_sipConnections k1 = core_sipConnections k"
    by auto
  have "users_after True 0 < 65536" by (simp add: users_after_def)
  from call_face_count [OF k1(2) this] obtain md' where md': "increaseCounter 2 ?w (core_md k1) = Val md'"
      "call_face md' ?w (?w + 1) 1" by (auto simp: count_op_def users_after_def)
  have e: "endpoint_for md' ?w s (sp_rtpLabels t)"
    using endpoint_for_count [OF k1(3), of True 2] md'(1) by (simp add: count_op_def)
  let ?k' = "k1\<lparr>core_md := md'\<rparr>"
  have "s \<noteq> NULL" "?w \<noteq> NULL" using r by (simp_all add: call_ready_def)
  then have "getConnectionEndpoint connId k = Val (?w, ?k')"
    using s m k1(1) md'(1) by (simp add: getConnectionEndpoint_def smap_index_def [of _ _ "core_sipConnections k"])
  then have "getEndpoint bx conId k = Val (?w, ?k')"
    using b by (auto simp: getEndpoint_def denotes_call_def)
  then have "cfw_getConnection bx conId k = Val (?w + 1, ?k')"
    using b \<open>?w \<noteq> NULL\<close> face_cp [OF md'(2)] by (simp add: cfw_getConnection_def denotes_call_def)
  then show ?thesis using s k1 m md'(2) e \<open>s \<noteq> NULL\<close> by (simp add: call_held_def)
qed

text \<open>Requests of packages for one identifier: \<open>True\<close> asks for it, \<open>False\<close> drops \<open>cp\<close>.\<close>

fun requests :: "boost \<Rightarrow> string \<Rightarrow> ptr \<Rightarrow> bool list \<Rightarrow> core \<Rightarrow> (ptr list \<times> core) cpp" where
  "requests bx conId cp [] k = Val ([], k)"
| "requests bx conId cp (get # rs) k =
     (if get then cpp_bind (cfw_getConnection bx conId k) (\<lambda>(a, k1).
        cpp_bind (requests bx conId cp rs k1) (\<lambda>(as, k2). Val (a # as, k2)))
      else cpp_bind (cfw_dropConnection cp (core_md k)) (\<lambda>md. requests bx conId cp rs (k\<lparr>core_md := md\<rparr>)))"

lemma requests_held:
  assumes "call_held k connId s ls w cp u" and "denotes_call bx conId connId" and "users_fit rs u" and "u < 65536"
  shows "\<exists>as k'. requests bx conId cp rs k = Val (as, k') \<and> set as \<subseteq> {cp} \<and>
     call_held k' connId s ls w cp (users rs u)"
  using assms
proof (induction rs arbitrary: k u)
  case (Cons get rs)
  show ?case
  proof (cases get)
    case True
    with Cons.prems(3) have "Suc u < 65536" "users_fit rs (Suc u)" by (simp_all add: users_after_def)
    moreover from getConnection_held [OF Cons.prems(1,2) this(1)] obtain k1 where
      "cfw_getConnection bx conId k = Val (cp, k1)" "call_held k1 connId s ls w cp (Suc u)" by blast
    moreover from Cons.IH [OF this(2) Cons.prems(2)] calculation obtain as k' where
      "requests bx conId cp rs k1 = Val (as, k')" "set as \<subseteq> {cp}"
      "call_held k' connId s ls w cp (users rs (Suc u))" by blast
    ultimately show ?thesis using True by (simp add: users_after_def)
  next
    case False
    with Cons.prems(3) have f: "users_fit rs (u - 1)" by (simp add: users_after_def)
    from dropConnection_held [OF Cons.prems(1,4)] obtain md where
      m: "cfw_dropConnection cp (core_md k) = Val md" "call_held (k\<lparr>core_md := md\<rparr>) connId s ls w cp (u - 1)"
      by blast
    have "u - 1 < 65536" using Cons.prems(4) by simp
    from Cons.IH [OF m(2) Cons.prems(2) f this] m(1) False show ?thesis by (simp add: users_after_def)
  qed
qed simp

text \<open>
  Packages share one endpoint for a call. The first request for a call that is ready makes its
  endpoint: a wrapper with one channel for each medium of the call, in order, which holds the
  medium's RTP channel and is the first to be told of its events. Whatever the packages then ask
  for and drop, every request is answered with the same package connection, the wrapper and its
  channels count exactly the packages that hold it, and the channels' threads are awake exactly
  if there is one.
\<close>

theorem packages_share_endpoint:
  assumes "call_ready k s t" and "smap_get (core_sipConnections k) connId = Some s"
    and "smap_get (core_endpointConnections k) connId \<in> {None, Some NULL}"
    and "smap_ok (core_endpointConnections k)" and "denotes_call bx conId connId"
    and "users_fit rs 1"
  shows "\<exists>as k'. requests bx conId (core_next k + 1) (True # rs) k = Val (as, k') \<and>
     set as = {core_next k + 1} \<and>
     in_use (core_md k') (core_next k) (users rs 1) \<and>
     endpoint_for (core_md k') (core_next k) s (sp_rtpLabels t)"
proof -
  obtain k1 where k1: "cfw_getConnection bx conId k = Val (core_next k + 1, k1)"
      "call_held k1 connId s (sp_rtpLabels t) (core_next k) (core_next k + 1) 1"
    using getConnection_first [OF assms(1-5)] by blast
  obtain as k' where "requests bx conId (core_next k + 1) rs k1 = Val (as, k')" "set as \<subseteq> {core_next k + 1}"
      "call_held k' connId s (sp_rtpLabels t) (core_next k) (core_next k + 1) (users rs 1)"
    using requests_held [OF k1(2) assms(5,6)] by auto
  with k1(1) show ?thesis by (auto simp: call_held_def call_face_def)
qed

definition demo_core :: core where
  "demo_core =
     \<lparr>core_md = noMedia\<lparr>
        md_sips := [3 \<mapsto> (newSip ''call'')\<lparr>sp_rtpLabels := [''x''], sp_byLabel := [(''x'', 9)]\<rparr>],
        md_rtps := [9 \<mapsto> newRtp 0 4000 ''x'']\<rparr>,
      core_sipTransactions = [(''call'', 3)], core_sipConnections = [(''a~b'', 3)],
      core_endpointConnections = [], core_endpointConferences = [], core_codecs = [], core_plugins = [],
      core_cfw = newStack ''h'' 5 True, core_acceptCalls = True, core_sipName = ''ms'',
      core_restrict = (0, 0, 0, 0), core_next = 20, core_sip = []\<rparr>"

definition demo_bx :: boost where
  "demo_bx = \<lparr>bx_match = (\<lambda>re s. Some [s, '''', '''', s]), bx_tokens = (\<lambda>re s. [s])\<rparr>"

theorem packages_share_endpoint_witness:
  "\<exists>as k'. requests demo_bx ''a~b'' 21 [True, True, False] demo_core = Val (as, k') \<and> set as = {21} \<and>
     in_use (core_md k') 20 1 \<and> endpoint_for (core_md k') 20 3 [''x'']"
proof -
  let ?t = "(newSip ''call'')\<lparr>sp_rtpLabels := [''x''], sp_byLabel := [(''x'', 9)]\<rparr>"
  have "call_ready demo_core 3 ?t"
    by (simp add: call_ready_def demo_core_def newSip_def asleep_def unused_from_def noMedia_def
        smap_get_def newRtp_def)
  moreover have "smap_get (core_sipConnections demo_core) ''a~b'' = Some 3" by (simp add: demo_core_def smap_get_def)
  moreover have "smap_get (core_endpointConnections demo_core) ''a~b'' \<in> {None, Some NULL}"
    by (simp add: demo_core_def smap_get_def)
  moreover have "smap_ok (core_endpointConnections demo_core)" by (simp add: demo_core_def)
  moreover have "denotes_call demo_bx ''a~b'' ''a~b''" by (simp add: denotes_call_def demo_bx_def sub_def)
  moreover have "users_fit [True, False] 1" by (simp add: users_after_def)
  ultimately have "\<exists>as k'. requests demo_bx ''a~b'' (core_next demo_core + 1) (True # [True, False]) demo_core = Val (as, k') \<and>
     set as = {core_next demo_core + 1} \<and> in_use (core_md k') (core_next demo_core) (users [True, False] 1) \<and>
     endpoint_for (core_md k') (core_next demo_core) 3 (sp_rtpLabels ?t)"
    by (rule packages_share_endpoint)
  then show ?thesis by (simp add: demo_core_def users_after_def)
qed

subsection \<open>Transcoding\<close>

text \<open>A frame of one codec becomes a frame of another through the raw frame in between.\<close>

locale transcoder = src: audio_codec enc1 dec1 fmt1 len1 + dst: audio_codec enc2 dec2 fmt2 len2
  for enc1 dec1 fmt1 len1 enc2 dec2 fmt2 len2 +
  assumes fmt_differs: "fmt1 \<noteq> fmt2" and fmt_raw: "fmt1 \<noteq> MEDIACTRL_RAW" "fmt2 \<noteq> MEDIACTRL_RAW"
begin

lemma encode_coded:
  assumes "coded_frame fmt1 len1 f"
    and "smap_get (core_plugins k) fmt1 = Some (Some cd1)" and "cc_decode cd1 = dec1"
    and "smap_get (core_plugins k) fmt2 = Some (Some cd2)" and "cc_encode cd2 = enc2"
  shows "\<exists>g. core_encode (Some f) fmt2 tod k = Val (Some g, k) \<and> coded_frame fmt2 len2 g"
proof -
  obtain r where r: "dec1 (Some f) tod = Val (Some r)" "raw_frame r"
    using src.dec_coded [OF assms(1)] by blast
  obtain g where g: "enc2 (Some r) tod = Val (Some g)" "coded_frame fmt2 len2 g"
    using dst.enc_raw [OF r(2)] by blast
  have "fr_format f = fmt1" using assms(1) by (simp add: coded_frame_def)
  then have "core_decode (Some f) tod k = Val (Some r, k)"
    using fmt_raw assms(2,3) r(1) by (simp add: core_decode_def smap_index_def)
  with \<open>fr_format f = fmt1\<close> have "core_encode (Some f) fmt2 tod k = Val (Some g, k)"
    using fmt_differs fmt_raw assms(4,5) g(1) by (simp add: core_encode_def smap_index_def)
  with g(2) show ?thesis by blast
qed

end

interpretation ulaw_alaw: transcoder ulaw_encode ulaw_decode MEDIACTRL_CODEC_ULAW 160
    alaw_encode alaw_decode MEDIACTRL_CODEC_ALAW 160
  by unfold_locales simp_all

interpretation alaw_ulaw: transcoder alaw_encode alaw_decode MEDIACTRL_CODEC_ALAW 160
    ulaw_encode ulaw_decode MEDIACTRL_CODEC_ULAW 160
  by unfold_locales simp_all

text \<open>
  Transcoding between the two G.711 laws. When both codecs are loaded, a frame of one law is
  encoded into a frame of the other, of the same 160 bytes, and nothing else of the core changes.
\<close>

theorem g711_transcoding:
  assumes "smap_get (core_plugins k) MEDIACTRL_CODEC_ULAW = Some (Some ulaw_create)"
    and "smap_get (core_plugins k) MEDIACTRL_CODEC_ALAW = Some (Some alaw_create)"
  shows "(coded_frame MEDIACTRL_CODEC_ULAW 160 f \<longrightarrow>
       (\<exists>g. core_encode (Some f) MEDIACTRL_CODEC_ALAW tod k = Val (Some g, k) \<and>
            coded_frame MEDIACTRL_CODEC_ALAW 160 g)) \<and>
     (coded_frame MEDIACTRL_CODEC_ALAW 160 f \<longrightarrow>
       (\<exists>g. core_encode (Some f) MEDIACTRL_CODEC_ULAW tod k = Val (Some g, k) \<and>
            coded_frame MEDIACTRL_CODEC_ULAW 160 g))"
  using ulaw_alaw.encode_coded [OF _ assms(1) _ assms(2)] alaw_ulaw.encode_coded [OF _ assms(2) _ assms(1)]
  by (simp add: ulaw_create_def alaw_create_def)

definition demo_coded :: frame where
  "demo_coded = (newFrame MEDIACTRL_MEDIA_AUDIO 0)\<lparr>fr_format := MEDIACTRL_CODEC_ULAW, fr_len := 160,
     fr_buffer := Some (replicate 160 0xFF)\<rparr>"

theorem g711_transcoding_witness:
  "\<exists>g k. core_encode (Some demo_coded) MEDIACTRL_CODEC_ALAW 0 k = Val (Some g, k) \<and>
     coded_frame MEDIACTRL_CODEC_ALAW 160 g"
proof -
  let ?k = "demo_core\<lparr>core_plugins := [(0, Some ulaw_create), (8, Some alaw_create)]\<rparr>"
  have "coded_frame MEDIACTRL_CODEC_ULAW 160 demo_coded"
    by (simp add: coded_frame_def demo_coded_def newFrame_def)
  moreover have "smap_get (core_plugins ?k) MEDIACTRL_CODEC_ULAW = Some (Some ulaw_create)"
    "smap_get (core_plugins ?k) MEDIACTRL_CODEC_ALAW = Some (Some alaw_create)"
    by (simp_all add: smap_get_def)
  ultimately show ?thesis using g711_transcoding [of ?k demo_coded 0] by blast
qed

subsection \<open>Factories\<close>

definition factory_for :: "int \<Rightarrow> factories \<Rightarrow> factory option" where
  "factory_for codec m =
     (case smap_get m (if codec = 122 then 99 else codec) of
        Some (Some fa) \<Rightarrow> Some fa
      | _ \<Rightarrow> (case smap_get m 200 of Some (Some fa) \<Rightarrow> Some fa | _ \<Rightarrow> None))"

text \<open>
  A codec is made for every payload type, by the factory of that type (of 99 for 122) or else by
  the one registered as 200; only when neither exists, the call goes through a NULL factory. The
  factories stay as they are, apart from the NULL entries of failed lookups.
\<close>

theorem createCodec_uses_factory:
  assumes "smap_ok m"
  shows "(createCodec codec m = Undef \<longleftrightarrow> factory_for codec m = None) \<and>
     (\<forall>r m'. createCodec codec m = Val (r, m') \<longrightarrow>
        (\<exists>fa. factory_for codec m = Some fa \<and> r = fa_create fa) \<and>
        smap_ok m' \<and> (\<forall>x fa. smap_get m' x = Some (Some fa) \<longleftrightarrow> smap_get m x = Some (Some fa)))"
  using assms
  by (auto simp: createCodec_def factory_for_def smap_index_def Let_def split: option.splits if_splits)

theorem createCodec_uses_factory_witness:
  "createCodec 122 [] = Undef \<and> factory_for 122 [] = None"
  using createCodec_uses_factory [of "[]" 122] by (simp add: factory_for_def)

subsection \<open>A dialog that the stack ends\<close>

text \<open>
  \<open>endDialog\<close> takes the call out of both maps before it says BYE, so that \<open>onTerminated\<close>, which
  cleans up when the dialog is over, does not find it: the transaction object and the call's
  endpoint stay for good.
\<close>

theorem ended_dialog_leaks:
  assumes "smap_ok (core_sipTransactions k)" and "smap_get (core_sipTransactions k) callId = Some s"
    and "s \<noteq> NULL" and "md_sips (core_md k) s = Some t" and "sp_callId t = callId"
    and "core_endDialog callId k = Val k1" and "onTerminated (Some callId) k1 = Val k2"
  shows "md_sips (core_md k2) s = Some (sendBye t) \<and> md_conns (core_md k2) = md_conns (core_md k) \<and>
     core_endpointConnections k2 = core_endpointConnections k"
proof -
  from assms(2-6) obtain ka where ka: "leave_cfw t k = Val ka"
    and k1: "k1 = (forget_call t ka)\<lparr>core_md := putSip s (sendBye t) (core_md ka)\<rparr>"
    by (auto simp: core_endDialog_def lookup_call_def smap_index_def cpp_bind_Val)
  have a: "core_sipTransactions ka = core_sipTransactions k" "core_md ka = core_md k"
      "core_endpointConnections ka = core_endpointConnections k"
    using ka by (auto simp: leave_cfw_def cpp_bind_Val split: if_splits)
  have "smap_get (core_sipTransactions k1) callId = None"
    using k1 assms(5) by (simp add: forget_call_def)
  then have "k2 = k1\<lparr>core_sipTransactions := smap_put callId NULL (core_sipTransactions k1)\<rparr>"
    using assms(7) by (simp add: onTerminated_def lookup_call_def smap_index_def)
  then show ?thesis using k1 a by (simp add: forget_call_def)
qed

theorem ended_dialog_leaks_witness:
  "\<exists>k1 k2. core_endDialog ''call'' demo_core = Val k1 \<and> onTerminated (Some ''call'') k1 = Val k2 \<and>
     md_sips (core_md k2) 3 \<noteq> None"
proof -
  obtain k1 where k1: "core_endDialog ''call'' demo_core = Val k1"
    "smap_get (core_sipTransactions k1) ''call'' = None"
    by (simp add: core_endDialog_def lookup_call_def smap_index_def demo_core_def leave_cfw_def newSip_def
        smap_get_def forget_call_def smap_erase_def)
  then obtain k2 where k2: "onTerminated (Some ''call'') k1 = Val k2"
    by (simp add: onTerminated_def lookup_call_def smap_index_def)
  have s: "smap_ok (core_sipTransactions demo_core)"
      "smap_get (core_sipTransactions demo_core) ''call'' = Some 3" "(3::ptr) \<noteq> NULL"
      "md_sips (core_md demo_core) 3 = Some ((newSip ''call'')\<lparr>sp_rtpLabels := [''x''], sp_byLabel := [(''x'', 9)]\<rparr>)"
      "sp_callId ((newSip ''call'')\<lparr>sp_rtpLabels := [''x''], sp_byLabel := [(''x'', 9)]\<rparr>) = ''call''"
    by (simp_all add: demo_core_def smap_get_def newSip_def smap_ok_def)
  from ended_dialog_leaks [OF s k1(1) k2] k1(1) k2 show ?thesis by auto
qed

end
