(* ===== verification/SdpOffer.thy ===== *)
theory SdpOffer
  imports Core
begin

text \<open>
  \<open>src/MediaCtrl.cxx\<close>: a call comes in (\<open>onNewSession\<close>) and its session description is answered
  (\<open>onOffer\<close>). The description is reSIProcate's parse of it: a list of media, each with its name,
  protocol, port, addresses, formats and attribute values. The calls on the session are recorded on
  \<open>core_sip\<close>. What the environment decides is the record \<open>sip_env\<close>: regular expressions, name
  resolution, the port and label that a new RTP channel gets, tags and the TLS fingerprint.
\<close>

subsection \<open>What comes in\<close>

record medium =
  sm_name :: string
  sm_protocol :: string
  sm_port :: u16
  sm_addresses :: "string list"
  sm_formats :: "string list"
  sm_values :: "string \<Rightarrow> string list"
  sm_telephone :: int

record invite =
  iv_callId :: string
  iv_user :: string
  iv_contact :: string
  iv_fromTag :: string
  iv_media :: "medium list"

record sip_env =
  env_bx :: boost
  env_numeric :: "string \<Rightarrow> bool"
  env_resolve :: "string \<Rightarrow> string option"
  env_pick :: "ptr \<Rightarrow> u16 \<times> string"
  env_localTag :: string
  env_fingerprint :: string

definition tell_sip :: "ptr \<Rightarrow> sip_call \<Rightarrow> core \<Rightarrow> core" where
  "tell_sip s e k = k\<lparr>core_sip := core_sip k @ [(s, e)]\<rparr>"

definition putCall :: "ptr \<Rightarrow> siptx \<Rightarrow> core \<Rightarrow> core" where
  "putCall s t k = k\<lparr>core_md := putSip s t (core_md k)\<rparr>"

definition onNewSession :: "invite \<Rightarrow> core \<Rightarrow> core" where
  "onNewSession iv k =
     (let s = core_next k in
      if \<not> core_acceptCalls k then tell_sip s (SipReject 404) k
      else if iv_user iv \<noteq> core_sipName k then tell_sip s (SipReject 404) k
      else (putCall s (newSip (iv_callId iv)) k)
             \<lparr>core_sipTransactions := smap_put (iv_callId iv) s (core_sipTransactions k),
              core_next := s + 1\<rparr>)"

subsection \<open>The restriction on hosts\<close>

definition rx_ip :: string where
  "rx_ip = ''('' @ bsl @ ''d+)'' @ bsl @ ''.('' @ bsl @ ''d+)'' @ bsl @ ''.('' @ bsl @ ''d+)'' @ bsl @
     ''.('' @ bsl @ ''d+)''"

definition atoi16 :: "string \<Rightarrow> u16" where
  "atoi16 s = word_of_int (atoi s)"

text \<open>The constructor's reading of the setting \<open>restrict\<close>.\<close>

definition read_restriction :: "boost \<Rightarrow> string \<Rightarrow> u16 \<times> u16 \<times> u16 \<times> u16" where
  "read_restriction bx v =
     (if v = '''' then (0, 0, 0, 0)
      else case bx_match bx rx_ip v of None \<Rightarrow> (0, 0, 0, 0)
      | Some ms \<Rightarrow>
          let a = atoi16 (sub ms 1); b = atoi16 (sub ms 2); c = atoi16 (sub ms 3); d = atoi16 (sub ms 4)
          in if 255 < a \<or> 255 < b \<or> 255 < c \<or> 255 < d then (0, 0, 0, 0) else (a, b, c, d))"

fun host_allowed :: "sip_env \<Rightarrow> u16 \<times> u16 \<times> u16 \<times> u16 \<Rightarrow> string \<Rightarrow> bool" where
  "host_allowed env (a, b, c, d) ip \<longleftrightarrow>
     \<not> (0 < a \<or> 0 < b \<or> 0 < c \<or> 0 < d) \<or>
     (case (if env_numeric env ip then Some ip else env_resolve env ip) of None \<Rightarrow> False
      | Some ip' \<Rightarrow> (case bx_match (env_bx env) rx_ip ip' of None \<Rightarrow> False
         | Some ms \<Rightarrow> (a = 0 \<or> atoi16 (sub ms 1) = a) \<and> (b = 0 \<or> atoi16 (sub ms 2) = b) \<and>
                      (c = 0 \<or> atoi16 (sub ms 3) = c) \<and> (d = 0 \<or> atoi16 (sub ms 4) = d)))"

definition reject_call :: "int \<Rightarrow> ptr \<Rightarrow> core \<Rightarrow> core cpp" where
  "reject_call err s k =
     cpp_bind (deref (md_sips (core_md k)) s) (\<lambda>t.
       core_delete_sip s (forget_call t (tell_sip s (SipReject err) k)))"

subsection \<open>The state of the loop over the media\<close>

record offer =
  of_ip :: string
  of_cfwId :: string
  of_err :: int
  of_media :: "reply_medium list"
  of_core :: core

definition new_answer :: "string \<Rightarrow> u16 \<Rightarrow> string \<Rightarrow> reply_medium" where
  "new_answer name port protocol =
     \<lparr>an_name = name, an_port = port, an_protocol = protocol, an_formats = [], an_codecs = [], an_attributes = []\<rparr>"

definition addAttribute :: "string \<Rightarrow> string \<Rightarrow> reply_medium \<Rightarrow> reply_medium" where
  "addAttribute key v a = a\<lparr>an_attributes := an_attributes a @ [(key, v)]\<rparr>"

definition refuse_medium :: "medium \<Rightarrow> offer \<Rightarrow> offer" where
  "refuse_medium m off = off\<lparr>of_media := of_media off @ [new_answer (sm_name m) 0 (sm_protocol m)]\<rparr>"

text \<open>\<open>l.front()\<close> of a \<open>std::list\<close>.\<close>

fun front :: "'a list \<Rightarrow> 'a cpp" where
  "front [] = Undef"
| "front (x # xs) = Val x"

subsection \<open>A control channel\<close>

definition rx_fingerprint :: string where
  "rx_fingerprint = ''('' @ bsl @ ''S+) ('' @ bsl @ ''S+)''"

text \<open>The fingerprint of a TLS offer, \<open>None\<close> when the call is to be rejected.\<close>

definition offered_fingerprint :: "boost \<Rightarrow> medium \<Rightarrow> string option cpp" where
  "offered_fingerprint bx m =
     cpp_bind (front (sm_values m ''fingerprint'')) (\<lambda>v.
       if v = '''' then Val None
       else case bx_match bx rx_fingerprint v of None \<Rightarrow> Val None
       | Some ms \<Rightarrow> if sub ms 1 \<noteq> ''SHA-1'' then Val None else Val (Some (sub ms 2)))"

definition cfw_answer :: "sip_env \<Rightarrow> medium \<Rightarrow> string \<Rightarrow> core \<Rightarrow> reply_medium \<times> core" where
  "cfw_answer env m cfwId k =
     (let a = new_answer ''application'' (of_int (st_port (core_cfw k))) (sm_protocol m);
          a1 = addAttribute ''setup'' ''passive'' (addAttribute ''connection'' ''new''
                 (a\<lparr>an_formats := [''*'']\<rparr>));
          a2 = (if sm_protocol m = ''TCP/TLS/CFW''
                then addAttribute ''fingerprint'' (''SHA-1 '' @ env_fingerprint env) a1 else a1);
          a3 = addAttribute ''cfw-id'' cfwId a2;
          (pkgs, st) = getPackages (core_cfw k)
      in (fold (addAttribute ''ctrl-package'') pkgs a3, k\<lparr>core_cfw := st\<rparr>))"

text \<open>The dialog identifier; without exactly one \<open>cfw-id\<close> it stays what it was.\<close>

definition offered_dialog :: "medium \<Rightarrow> string \<Rightarrow> string" where
  "offered_dialog m old = (case sm_values m ''cfw-id'' of [c] \<Rightarrow> c | _ \<Rightarrow> old)"

text \<open>After the fingerprint: note the dialog, add the client, answer.\<close>

definition accept_cfw :: "sip_env \<Rightarrow> string \<Rightarrow> ptr \<Rightarrow> medium \<Rightarrow> string \<Rightarrow> offer \<Rightarrow> offer cpp" where
  "accept_cfw env callId s m fp off =
     (let k = of_core off;
          cfwId = offered_dialog m (of_cfwId off) in
      cpp_bind (deref (md_sips (core_md k)) s) (\<lambda>t.
      cpp_bind (addClient callId cfwId (of_ip off) (sm_port m) (sm_protocol m = ''TCP/TLS/CFW'') fp (core_cfw k))
        (\<lambda>(st, err).
          let k1 = (putCall s (setAS cfwId t) k)\<lparr>core_cfw := st\<rparr>;
              off1 = off\<lparr>of_cfwId := cfwId, of_err := err, of_core := k1\<rparr> in
          if err = 200 then
            (let (a, k2) = cfw_answer env m cfwId k1
             in Val (off1\<lparr>of_media := of_media off @ [a], of_core := k2\<rparr>))
          else Val off1)))"

definition offer_application :: "sip_env \<Rightarrow> string \<Rightarrow> ptr \<Rightarrow> medium \<Rightarrow> offer \<Rightarrow> offer cpp" where
  "offer_application env callId s m off =
     (if sm_protocol m = ''TCP/CFW'' \<or> sm_protocol m = ''TCP/TLS/CFW'' then
        cpp_bind (front (sm_addresses m)) (\<lambda>ip.
        cpp_bind (front (sm_values m ''setup'')) (\<lambda>_.
        cpp_bind (front (sm_values m ''connection'')) (\<lambda>_.
          let off1 = off\<lparr>of_ip := ip\<rparr> in
          if sm_protocol m = ''TCP/TLS/CFW'' then
            cpp_bind (offered_fingerprint (env_bx env) m) (\<lambda>r. case r of
               None \<Rightarrow> Val (off1\<lparr>of_err := 403\<rparr>)
             | Some fp \<Rightarrow> accept_cfw env callId s m fp off1)
          else accept_cfw env callId s m '''' off1)))
      else Val (refuse_medium m off))"

subsection \<open>An audio medium\<close>

definition rx_rtpmap :: string where
  "rx_rtpmap = ''('' @ bsl @ ''d+) (('' @ bsl @ ''w|'' @ bsl @ ''-)+)/('' @ bsl @ ''d+)''"

definition rx_fmtp :: string where
  "rx_fmtp = ''('' @ bsl @ ''d+) (('' @ bsl @ ''S| )+)''"

text \<open>
  The search for the \<open>rtpmap\<close> of payload type \<open>jj\<close>; the sub-matches of the last line that was
  tried are kept, found or not (none when it did not match).
\<close>

fun find_rtpmap :: "boost \<Rightarrow> int \<Rightarrow> string list \<Rightarrow> string list \<Rightarrow> string list \<times> bool" where
  "find_rtpmap bx jj [] ms = (ms, False)"
| "find_rtpmap bx jj (v # vs) ms = (case bx_match bx rx_rtpmap v of
       None \<Rightarrow> find_rtpmap bx jj vs []
     | Some ms' \<Rightarrow> if atoi (sub ms' 1) = jj then (ms', True) else find_rtpmap bx jj vs ms')"

definition checkName :: "boost \<Rightarrow> string \<Rightarrow> factory \<Rightarrow> bool" where
  "checkName bx name fa \<longleftrightarrow> bx_match bx (fa_mask fa) name \<noteq> None"

fun found_by_name :: "boost \<Rightarrow> string \<Rightarrow> factories \<Rightarrow> bool" where
  "found_by_name bx name [] \<longleftrightarrow> False"
| "found_by_name bx name ((pt, f) # m) \<longleftrightarrow> (case f of
       None \<Rightarrow> found_by_name bx name m
     | Some fa \<Rightarrow> if checkName bx name fa then True else found_by_name bx name m)"

text \<open>\<open>addRtp\<close> with the core as the codec manager; the channel gets the next address.\<close>

definition core_addRtp :: "sip_env \<Rightarrow> ptr \<Rightarrow> int \<Rightarrow> core \<Rightarrow> (u16 \<times> core) cpp" where
  "core_addRtp env s pt k =
     (let r = core_next k; (port, label) = env_pick env r in
      cpp_bind (createCodec pt (core_codecs k)) (\<lambda>(cd, m).
      cpp_bind (addRtp (\<lambda>_. Val cd) s r port label pt MEDIACTRL_MEDIA_AUDIO (core_md k)) (\<lambda>md.
        Val (port, k\<lparr>core_md := md, core_codecs := m, core_next := r + 1\<rparr>))))"

fun add_settings :: "boost \<Rightarrow> ptr \<Rightarrow> u16 \<Rightarrow> int \<Rightarrow> string list \<Rightarrow> media \<Rightarrow> (media \<times> string list) cpp" where
  "add_settings bx s rtpPort jj [] md = Val (md, [])"
| "add_settings bx s rtpPort jj (v # vs) md = (case bx_match bx rx_fmtp v of
       None \<Rightarrow> add_settings bx s rtpPort jj vs md
     | Some ms \<Rightarrow>
         if atoi (sub ms 1) = jj then
           cpp_bind (addRtpSetting bx s rtpPort (sub ms 2) md) (\<lambda>(md1, ans).
           cpp_bind (add_settings bx s rtpPort jj vs md1) (\<lambda>(md2, attrs).
             Val (md2, (if ans \<noteq> '''' then [dec_int jj @ '' '' @ ans] else []) @ attrs)))
         else add_settings bx s rtpPort jj vs md)"

text \<open>
  The first accepted format makes the channel: its settings, and its peer. \<open>setRtpPeer\<close> only
  reports on a failure.
\<close>

definition open_channel ::
    "sip_env \<Rightarrow> ptr \<Rightarrow> medium \<Rightarrow> string \<Rightarrow> int \<Rightarrow> reply_medium \<Rightarrow> core \<Rightarrow> (u16 \<times> reply_medium \<times> string list \<times> core) cpp" where
  "open_channel env s m ip jj a k =
     cpp_bind (core_addRtp env s jj k) (\<lambda>(port, k1).
     cpp_bind (add_settings (env_bx env) s port jj (sm_values m ''fmtp'') (core_md k1)) (\<lambda>(md, attrs).
     cpp_bind (setRtpPeer s port ip (sm_port m) md) (\<lambda>(md1, _).
       Val (port, a\<lparr>an_port := port\<rparr>, attrs, k1\<lparr>core_md := md1\<rparr>))))"

text \<open>The line for the format; \<open>sprintf\<close> writes the number into three bytes.\<close>

definition add_format :: "int \<Rightarrow> string list \<Rightarrow> bool \<Rightarrow> reply_medium \<Rightarrow> reply_medium cpp" where
  "add_format jj ms rtpmapFound a =
     (if \<not> rtpmapFound then
        (if 2 < length (dec_int jj) then Undef
         else Val (a\<lparr>an_formats := an_formats a @ [dec_int jj]\<rparr>))
      else Val (a\<lparr>an_codecs := an_codecs a @ [(sub ms 2, atoi (sub ms 1), atoi (sub ms 4))]\<rparr>))"

definition accept_format ::
    "sip_env \<Rightarrow> ptr \<Rightarrow> medium \<Rightarrow> string \<Rightarrow> int \<Rightarrow> string list \<Rightarrow> bool \<Rightarrow> u16 \<Rightarrow> reply_medium \<Rightarrow> core \<Rightarrow>
       (u16 \<times> reply_medium \<times> core) cpp" where
  "accept_format env s m ip jj ms rtpmapFound rtpPort a k =
     cpp_bind (if rtpPort = 0 then open_channel env s m ip jj a k else Val (rtpPort, a, [], k))
       (\<lambda>(port, a1, attrs, k1).
     cpp_bind (add_format jj ms rtpmapFound a1) (\<lambda>a2.
       Val (port, fold (addAttribute ''fmtp'') attrs a2, k1)))"

text \<open>One format of the offer, known by its number or by the name of its \<open>rtpmap\<close>.\<close>

definition offer_format ::
    "sip_env \<Rightarrow> ptr \<Rightarrow> medium \<Rightarrow> string \<Rightarrow> string \<Rightarrow> u16 \<Rightarrow> reply_medium \<Rightarrow> core \<Rightarrow> (u16 \<times> reply_medium \<times> core) cpp" where
  "offer_format env s m ip j rtpPort a k =
     (let jj = atoi j in
      if jj = 101 then Val (rtpPort, a, k)
      else let (ms, rtpmapFound) = find_rtpmap (env_bx env) jj (sm_values m ''rtpmap'') [];
               (static, fs) = codecExists jj (core_codecs k);
               k1 = k\<lparr>core_codecs := fs\<rparr>
        in if static \<or> found_by_name (env_bx env) (sub ms 2) fs
           then accept_format env s m ip jj ms rtpmapFound rtpPort a k1
           else Val (rtpPort, a, k1))"

fun offer_formats ::
    "sip_env \<Rightarrow> ptr \<Rightarrow> medium \<Rightarrow> string \<Rightarrow> string list \<Rightarrow> u16 \<Rightarrow> reply_medium \<Rightarrow> core \<Rightarrow> (u16 \<times> reply_medium \<times> core) cpp" where
  "offer_formats env s m ip [] rtpPort a k = Val (rtpPort, a, k)"
| "offer_formats env s m ip (j # js) rtpPort a k =
     cpp_bind (offer_format env s m ip j rtpPort a k) (\<lambda>(port, a1, k1). offer_formats env s m ip js port a1 k1)"

text \<open>What an accepted audio medium gets in the end.\<close>

definition finish_audio :: "ptr \<Rightarrow> medium \<Rightarrow> u16 \<Rightarrow> reply_medium \<Rightarrow> core \<Rightarrow> (reply_medium \<times> core) cpp" where
  "finish_audio s m rtpPort a k =
     (if rtpPort = 0 then Val (a, k)
      else let a1 = addAttribute ''ptime'' ''20'' a;
               a2 = (if 0 < sm_telephone m then
                       addAttribute ''fmtp'' ''101 0-15''
                         (a1\<lparr>an_codecs := an_codecs a1 @ [(''telephone-event'', 101, 8000)]\<rparr>)
                     else a1) in
        cpp_bind (deref (md_sips (core_md k)) s) (\<lambda>t.
        cpp_bind (getMediaLabel (md_rtps (core_md k)) rtpPort t) (\<lambda>(t1, label).
        cpp_bind (getConnectionIdByLabel (md_rtps (core_md k)) label t1) (\<lambda>(t2, _).
          Val (addAttribute ''label'' label a2, putCall s t2 k)))))"

definition offer_audio :: "sip_env \<Rightarrow> ptr \<Rightarrow> medium \<Rightarrow> offer \<Rightarrow> offer cpp" where
  "offer_audio env s m off =
     (let k = of_core off in
      cpp_bind (deref (md_sips (core_md k)) s) (\<lambda>t.
      cpp_bind (rtpExists (md_rtps (core_md k)) (of_ip off) (sm_port m) (sp_rtpPorts t) t) (\<lambda>(t1, known).
        let k1 = putCall s t1 k in
        if known then Val (off\<lparr>of_core := k1\<rparr>)
        else cpp_bind (front (sm_addresses m)) (\<lambda>ip.
          cpp_bind (offer_formats env s m ip (sm_formats m) 0 (new_answer (sm_name m) 0 (sm_protocol m)) k1)
            (\<lambda>(port, a, k2).
          cpp_bind (finish_audio s m port a k2) (\<lambda>(a1, k3).
            Val (off\<lparr>of_ip := ip, of_media := of_media off @ [a1], of_core := k3\<rparr>)))))))"

subsection \<open>The offer\<close>

fun offer_media :: "sip_env \<Rightarrow> string \<Rightarrow> ptr \<Rightarrow> medium list \<Rightarrow> offer \<Rightarrow> offer cpp" where
  "offer_media env callId s [] off = Val off"
| "offer_media env callId s (m # ms) off =
     (if of_err off \<noteq> 200 then Val off
      else cpp_bind (if sm_name m = ''application'' then offer_application env callId s m off
             else if sm_name m = ''video'' then Val (refuse_medium m off)
             else if sm_name m = ''audio'' then offer_audio env s m off
             else Val (refuse_medium m off))
        (offer_media env callId s ms))"

definition answer_call :: "ptr \<Rightarrow> offer \<Rightarrow> core cpp" where
  "answer_call s off =
     (let k = of_core off in
      cpp_bind (deref (md_sips (core_md k)) s) (\<lambda>t.
        Val (tell_sip s SipAccept (tell_sip s (SipAnswer (of_media off))
          (putCall s (fst (setSipManager (md_core (core_md k)) '''' t)) k)))))"

definition negotiate :: "sip_env \<Rightarrow> invite \<Rightarrow> ptr \<Rightarrow> siptx \<Rightarrow> core \<Rightarrow> core cpp" where
  "negotiate env iv s t k =
     (let t1 = setTags (iv_fromTag iv) (env_localTag env) t;
          k1 = (putCall s t1 (tell_sip s (SipProvisional 100) k))
                 \<lparr>core_sipConnections := smap_put (sp_connectionId t1) s (core_sipConnections k)\<rparr> in
      cpp_bind (offer_media env (iv_callId iv) s (iv_media iv)
          \<lparr>of_ip = '''', of_cfwId = '''', of_err = 200, of_media = [], of_core = k1\<rparr>) (\<lambda>off.
        if of_err off \<noteq> 200 then reject_call (of_err off) s (of_core off) else answer_call s off))"

definition onOffer :: "sip_env \<Rightarrow> invite \<Rightarrow> core \<Rightarrow> core cpp" where
  "onOffer env iv k0 =
     (let (s, k) = lookup_call (iv_callId iv) k0 in
      if s = NULL then Val k
      else cpp_bind (deref (md_sips (core_md k)) s) (\<lambda>t.
        if sp_negotiated t then Val k
        else let t1 = setNegotiated t; k1 = putCall s t1 k in
          if \<not> host_allowed env (core_restrict k) (iv_contact iv) then reject_call 403 s k1
          else negotiate env iv s t1 k1))"

subsection \<open>Who may call\<close>

lemma lookup_known: "smap_get (core_sipTransactions k) callId = Some s \<Longrightarrow> lookup_call callId k = (s, k)"
  by (simp add: lookup_call_def smap_index_def)

text \<open>
  C5. A restricted server refuses hosts outside its range. The first offer of a call whose host does
  not fit is rejected with 403 and nothing else: the call is deleted and gone from both maps; no
  client, channel or endpoint appears and nothing is answered.
\<close>

theorem restricted_host_refused:
  assumes "smap_get (core_sipTransactions k) (iv_callId iv) = Some s" and "s \<noteq> NULL"
    and "md_sips (core_md k) s = Some t" and "\<not> sp_negotiated t" and "sp_rtpPorts t = []"
    and "\<not> host_allowed env (core_restrict k) (iv_contact iv)"
  shows "onOffer env iv k = Val (k\<lparr>
     core_md := (core_md k)\<lparr>md_sips := (md_sips (core_md k))(s := None)\<rparr>,
     core_sipTransactions := smap_erase (sp_callId t) (core_sipTransactions k),
     core_sipConnections := smap_erase (sp_connectionId t) (core_sipConnections k),
     core_sip := core_sip k @ [(s, SipReject 403)]\<rparr>)"
proof -
  have "putSip s t' md\<lparr>md_sips := (md_sips (putSip s t' md))(s := None)\<rparr> = md\<lparr>md_sips := (md_sips md)(s := None)\<rparr>"
    for t' md by (simp add: putSip_def)
  then show ?thesis
    using assms by (simp add: onOffer_def lookup_known reject_call_def putCall_def setNegotiated_def
        tell_sip_def forget_call_def core_delete_sip_def deleteSip_def)
qed

definition demo_env :: sip_env where
  "demo_env = \<lparr>env_bx = \<lparr>bx_match = (\<lambda>re s. Some [s, ''1'', ''2'', ''3'', ''4'']), bx_tokens = (\<lambda>re s. [s])\<rparr>,
     env_numeric = (\<lambda>s. True), env_resolve = (\<lambda>s. None), env_pick = (\<lambda>r. (4000, ''x'')), env_localTag = ''b'',
     env_fingerprint = ''''\<rparr>"

definition demo_invite :: "medium list \<Rightarrow> invite" where
  "demo_invite ms = \<lparr>iv_callId = ''call'', iv_user = ''ms'', iv_contact = ''1.2.3.4'', iv_fromTag = ''a'', iv_media = ms\<rparr>"

definition fresh_core :: core where
  "fresh_core = demo_core\<lparr>core_md := noMedia\<lparr>md_sips := [3 \<mapsto> newSip ''call'']\<rparr>, core_sipConnections := []\<rparr>"

lemma fresh_core_simps [simp]:
  "core_sipTransactions fresh_core = [(''call'', 3)]" "md_sips (core_md fresh_core) = [3 \<mapsto> newSip ''call'']"
  "core_sip fresh_core = []" "core_restrict fresh_core = (0, 0, 0, 0)" "core_sipConnections fresh_core = []"
  by (simp_all add: fresh_core_def demo_core_def)

theorem restricted_host_refused_witness:
  "\<exists>k'. onOffer demo_env (demo_invite []) (fresh_core\<lparr>core_restrict := (10, 0, 0, 0)\<rparr>) = Val k' \<and>
     core_sip k' = [(3, SipReject 403)]"
proof -
  let ?k = "fresh_core\<lparr>core_restrict := (10, 0, 0, 0)\<rparr>"
  have "smap_get (core_sipTransactions ?k) (iv_callId (demo_invite [])) = Some 3" "(3 :: ptr) \<noteq> NULL"
    "md_sips (core_md ?k) 3 = Some (newSip ''call'')" "\<not> sp_negotiated (newSip ''call'')"
    "sp_rtpPorts (newSip ''call'') = []"
    by (simp_all add: smap_get_def newSip_def demo_invite_def)
  moreover have "atoi ''1'' = 1" by code_simp
  then have "atoi16 ''1'' \<noteq> 10" by (simp add: atoi16_def)
  then have "\<not> host_allowed demo_env (core_restrict ?k) (iv_contact (demo_invite []))"
    by (simp add: sub_def demo_env_def)
  ultimately have "onOffer demo_env (demo_invite []) ?k = Val (?k\<lparr>
     core_md := (core_md ?k)\<lparr>md_sips := (md_sips (core_md ?k))(3 := None)\<rparr>,
     core_sipTransactions := smap_erase (sp_callId (newSip ''call'')) (core_sipTransactions ?k),
     core_sipConnections := smap_erase (sp_connectionId (newSip ''call'')) (core_sipConnections ?k),
     core_sip := core_sip ?k @ [(3, SipReject 403)]\<rparr>)"
    by (rule restricted_host_refused)
  then show ?thesis by simp
qed

subsection \<open>What the media operations leave of a call\<close>

lemma sip_note_inactive:
  assumes "s \<noteq> NULL" and "md_sips md s = Some t" and "\<not> sp_active t" and "tame_note n"
  shows "sip_note s r n md = Val md"
  using assms by (cases n) (simp_all add: sip_route_def)

lemma sip_notes_inactive:
  assumes "s \<noteq> NULL" and "md_sips md s = Some t" and "\<not> sp_active t" and "list_all tame_note ns"
  shows "sip_notes s r ns md = Val md"
  using assms by (induction ns) (simp_all add: sip_note_inactive)

lemma start_codec_peer [simp]:
  "rtp_manager (start_codec cd c) = rtp_manager c" "rtp_dstIp (start_codec cd c) = rtp_dstIp c"
  "rtp_dstPort (start_codec cd c) = rtp_dstPort c" "rtp_active (start_codec cd c) = rtp_active c"
  by (simp_all add: start_codec_def)

lemma setPayloadType_keeps:
  assumes "setPayloadType mk pt c = Val (c', ns)"
  shows "rtp_srcPort c' = rtp_srcPort c \<and> rtp_label c' = rtp_label c \<and> rtp_manager c' = rtp_manager c \<and>
     rtp_dstIp c' = rtp_dstIp c \<and> rtp_dstPort c' = rtp_dstPort c \<and> rtp_active c' = rtp_active c \<and> list_all tame_note ns"
  using assms
  by (auto simp: setPayloadType_def Let_def cpp_bind_Val split: if_splits option.splits)

text \<open>A new channel of an inactive call.\<close>

lemma addRtp_made:
  assumes s: "s \<noteq> NULL" "md_sips md s = Some t" "\<not> sp_active t" and r: "r \<noteq> NULL"
    and a: "addRtp mk s r port label pt mt md = Val md'"
  obtains ch t' where "md_sips md' = (md_sips md)(s \<mapsto> t')"
    "t' = t\<lparr>sp_rtpPorts := sp_rtpPorts t @ [port], sp_rtpLabels := sp_rtpLabels t @ [label],
            sp_byPort := smap_put port r (sp_byPort t), sp_byLabel := smap_put label r (sp_byLabel t)\<rparr>"
    "md_rtps md' = (md_rtps md)(r \<mapsto> ch)" "rtp_srcPort ch = port" "rtp_label ch = label"
    "rtp_manager ch = s" "\<not> rtp_active ch" "md_conns md' = md_conns md" "md_cps md' = md_cps md"
    "md_confs md' = md_confs md" "md_core md' = md_core md"
proof -
  let ?t = "t\<lparr>sp_rtpPorts := sp_rtpPorts t @ [port], sp_rtpLabels := sp_rtpLabels t @ [label],
      sp_byPort := smap_put port r (sp_byPort t), sp_byLabel := smap_put label r (sp_byLabel t)\<rparr>"
  let ?ch = "(newRtp mt port label)\<lparr>rtp_manager := s\<rparr>"
  let ?md = "putRtp r ?ch (putSip s ?t md)"
  have "on_channel r (setPayloadType mk pt) ?md = Val md'"
    using a s by (simp add: addRtp_def Let_def)
  then obtain ch ns where ch: "setPayloadType mk pt ?ch = Val (ch, ns)"
    and n: "sip_notes (rtp_manager ch) r ns (putRtp r ch ?md) = Val md'"
    using r by (auto simp: on_channel_def cpp_bind_Val)
  from setPayloadType_keeps [OF ch] have k: "rtp_srcPort ch = port" "rtp_label ch = label"
      "rtp_manager ch = s" "\<not> rtp_active ch" "list_all tame_note ns" by (simp_all add: newRtp_def)
  have "md' = putRtp r ch ?md"
    using n sip_notes_inactive [OF s(1) _ _ k(5), of "putRtp r ch ?md" ?t r] s(3) k(3) by simp
  with k that show thesis by simp
qed

lemma core_addRtp_made:
  assumes "s \<noteq> NULL" "md_sips (core_md k) s = Some t" "\<not> sp_active t" and "core_next k \<noteq> NULL"
    and "core_addRtp env s pt k = Val (port, k')"
  obtains ch label where "env_pick env (core_next k) = (port, label)"
    "md_sips (core_md k') = (md_sips (core_md k))(s \<mapsto>
       t\<lparr>sp_rtpPorts := sp_rtpPorts t @ [port], sp_rtpLabels := sp_rtpLabels t @ [label],
            sp_byPort := smap_put port (core_next k) (sp_byPort t),
            sp_byLabel := smap_put label (core_next k) (sp_byLabel t)\<rparr>)"
    "md_rtps (core_md k') = (md_rtps (core_md k))(core_next k \<mapsto> ch)" "rtp_srcPort ch = port"
    "rtp_label ch = label" "rtp_manager ch = s" "\<not> rtp_active ch"
    "core_md k' = (core_md k')\<lparr>md_conns := md_conns (core_md k), md_cps := md_cps (core_md k)\<rparr>"
    "core_next k' = core_next k + 1"
proof -
  obtain p l where p: "env_pick env (core_next k) = (p, l)" by fastforce
  with assms(5) obtain cd m md where c: "createCodec pt (core_codecs k) = Val (cd, m)"
    and a: "addRtp (\<lambda>_. Val cd) s (core_next k) p l pt MEDIACTRL_MEDIA_AUDIO (core_md k) = Val md"
    and k': "port = p" "k' = k\<lparr>core_md := md, core_codecs := m, core_next := core_next k + 1\<rparr>"
    by (auto simp: core_addRtp_def cpp_bind_Val Let_def)
  show thesis
    by (rule addRtp_made [OF assms(1-4) a]) (rule that [of l], use p k' in simp_all)
qed

text \<open>
  Operations of one call: its identity stays, other calls, endpoints and the core's maps too. A
  call that nobody listens to yet stays that way.
\<close>

definition quiet_call :: "siptx \<Rightarrow> bool" where
  "quiet_call t \<longleftrightarrow> \<not> sp_active t \<and> smap_ok (sp_byPort t) \<and> smap_ok (sp_byLabel t)"

definition same_call :: "siptx \<Rightarrow> siptx \<Rightarrow> bool" where
  "same_call t t' \<longleftrightarrow> sp_callId t' = sp_callId t \<and> sp_connectionId t' = sp_connectionId t \<and>
     sp_negotiated t' = sp_negotiated t \<and> (quiet_call t \<longrightarrow> quiet_call t')"

definition md_local :: "ptr \<Rightarrow> media \<Rightarrow> media \<Rightarrow> bool" where
  "md_local s md md' \<longleftrightarrow> (\<forall>x. x \<noteq> s \<longrightarrow> md_sips md' x = md_sips md x) \<and>
     (\<forall>t. md_sips md s = Some t \<longrightarrow> (\<exists>t'. md_sips md' s = Some t' \<and> same_call t t')) \<and>
     md_conns md' = md_conns md \<and> md_cps md' = md_cps md \<and> md_confs md' = md_confs md \<and>
     md_core md' = md_core md"

definition call_local :: "ptr \<Rightarrow> core \<Rightarrow> core \<Rightarrow> bool" where
  "call_local s k k' \<longleftrightarrow> md_local s (core_md k) (core_md k') \<and>
     core_sipTransactions k' = core_sipTransactions k \<and> core_sipConnections k' = core_sipConnections k \<and>
     core_endpointConnections k' = core_endpointConnections k \<and>
     core_endpointConferences k' = core_endpointConferences k \<and> core_sip k' = core_sip k \<and>
     core_next k \<le> core_next k'"

lemma same_call_refl [simp]: "same_call t t"
  by (simp add: same_call_def)

lemma same_call_trans: "same_call a b \<Longrightarrow> same_call b c \<Longrightarrow> same_call a c"
  by (simp add: same_call_def)

lemma md_local_refl [simp]: "md_local s md md"
  by (simp add: md_local_def)

lemma md_local_trans:
  assumes "md_local s a b" and "md_local s b c"
  shows "md_local s a c"
proof -
  have "\<exists>t'. md_sips c s = Some t' \<and> same_call t t'" if "md_sips a s = Some t" for t
    using that assms same_call_trans unfolding md_local_def by metis
  then show ?thesis using assms by (simp add: md_local_def)
qed

lemma call_local_refl [simp]: "call_local s k k"
  by (simp add: call_local_def)

lemma call_local_trans: "call_local s a b \<Longrightarrow> call_local s b c \<Longrightarrow> call_local s a c"
  by (auto simp: call_local_def intro: md_local_trans)

lemma call_local_call:
  "call_local s k k' \<Longrightarrow> md_sips (core_md k) s = Some t \<Longrightarrow>
     \<exists>t'. md_sips (core_md k') s = Some t' \<and> same_call t t'"
  by (simp add: call_local_def md_local_def)

lemma local_putSip: "md_sips md s = Some t \<Longrightarrow> same_call t t' \<Longrightarrow> md_local s md (putSip s t' md)"
  by (simp add: md_local_def)

lemma local_putRtp: "md_local s md (putRtp r ch md)"
  by (simp add: md_local_def)

lemma chanByPort_same: "same_call t (snd (chanByPort p t))"
  by (simp add: chanByPort_def same_call_def quiet_call_def split_beta)

lemma chanByLabel_same: "same_call t (snd (chanByLabel l t))"
  by (simp add: chanByLabel_def same_call_def quiet_call_def split_beta)

lemma with_port_local: "with_port s p no f md = Val (md', x) \<Longrightarrow> md_local s md md'"
proof -
  assume a: "with_port s p no f md = Val (md', x)"
  then obtain t where t: "md_sips md s = Some t" by (auto simp: with_port_def cpp_bind_Val)
  obtain r t1 where c: "chanByPort p t = (r, t1)" by fastforce
  have "same_call t t1" using chanByPort_same [of t p] c by simp
  from local_putSip [OF t this] local_putRtp md_local_trans a t c show ?thesis
    by (auto simp: with_port_def cpp_bind_Val Let_def split: if_splits)
qed

lemma addRtpSetting_local: "addRtpSetting bx s p v md = Val (md', x) \<Longrightarrow> md_local s md md'"
  unfolding addRtpSetting_def by (rule with_port_local)

lemma setRtpPeer_local: "setRtpPeer s p ip dp md = Val (md', x) \<Longrightarrow> md_local s md md'"
  unfolding setRtpPeer_def by (rule with_port_local)

lemma add_settings_local: "add_settings bx s p jj vs md = Val (md', attrs) \<Longrightarrow> md_local s md md'"
proof (induction vs arbitrary: md attrs)
  case (Cons v vs)
  then show ?case
    by (auto simp: cpp_bind_Val dest!: addRtpSetting_local intro: md_local_trans split: option.splits if_splits)
qed simp

lemma local_md: "md_local s (core_md k) md \<Longrightarrow> call_local s k (k\<lparr>core_md := md\<rparr>)"
  by (simp add: call_local_def)

lemma core_addRtp_local:
  assumes "s \<noteq> NULL" "md_sips (core_md k) s = Some t" "quiet_call t" and "core_next k \<noteq> NULL"
    and a: "core_addRtp env s pt k = Val (port, k')"
  shows "call_local s k k'"
proof -
  obtain p l where p: "env_pick env (core_next k) = (p, l)" by fastforce
  with a obtain cd m md where c: "addRtp (\<lambda>_. Val cd) s (core_next k) p l pt MEDIACTRL_MEDIA_AUDIO (core_md k) = Val md"
    and k': "k' = k\<lparr>core_md := md, core_codecs := m, core_next := core_next k + 1\<rparr>"
    by (auto simp: core_addRtp_def cpp_bind_Val Let_def)
  have "\<not> sp_active t" using assms(3) by (simp add: quiet_call_def)
  from addRtp_made [OF assms(1,2) this assms(4) c] obtain t' where
    "md_sips md = (md_sips (core_md k))(s \<mapsto> t')"
    "t' = t\<lparr>sp_rtpPorts := sp_rtpPorts t @ [p], sp_rtpLabels := sp_rtpLabels t @ [l],
            sp_byPort := smap_put p (core_next k) (sp_byPort t), sp_byLabel := smap_put l (core_next k) (sp_byLabel t)\<rparr>"
    "md_conns md = md_conns (core_md k)" "md_cps md = md_cps (core_md k)"
    "md_confs md = md_confs (core_md k)" "md_core md = md_core (core_md k)" by blast
  with assms(2,3) k' show ?thesis
    by (simp add: call_local_def md_local_def same_call_def quiet_call_def)
qed

lemma open_channel_local:
  assumes "s \<noteq> NULL" "md_sips (core_md k) s = Some t" "quiet_call t" and "core_next k \<noteq> NULL"
    and a: "open_channel env s m ip jj a k = Val (port, a', attrs, k')"
  shows "call_local s k k'"
proof -
  from a obtain k1 md md1 b where 1: "core_addRtp env s jj k = Val (port, k1)"
    and 2: "add_settings (env_bx env) s port jj (sm_values m ''fmtp'') (core_md k1) = Val (md, attrs)"
    and 3: "setRtpPeer s port ip (sm_port m) md = Val (md1, b)" and k': "k' = k1\<lparr>core_md := md1\<rparr>"
    by (auto simp: open_channel_def cpp_bind_Val)
  have "md_local s (core_md k1) md1"
    using add_settings_local [OF 2] setRtpPeer_local [OF 3] by (rule md_local_trans)
  from call_local_trans [OF core_addRtp_local [OF assms(1-4) 1] local_md [OF this]] k' show ?thesis by simp
qed

lemma offer_format_local:
  assumes "s \<noteq> NULL" "md_sips (core_md k) s = Some t" "quiet_call t" and "core_next k \<noteq> NULL"
    and a: "offer_format env s m ip j p a k = Val (p', a', k')"
  shows "call_local s k k'"
proof -
  obtain st fs where f: "codecExists (atoi j) (core_codecs k) = (st, fs)" by fastforce
  let ?k = "k\<lparr>core_codecs := fs\<rparr>"
  have l: "call_local s k ?k" by (simp add: call_local_def)
  have "call_local s ?k k'" if "accept_format env s m ip jj ms b p a ?k = Val (p', a', k')" for jj ms b
    using that open_channel_local [of s ?k t] assms(1-4)
    by (auto simp: accept_format_def cpp_bind_Val split: if_splits)
  with a f call_local_trans [OF l] l show ?thesis
    by (auto simp: offer_format_def Let_def split: if_splits prod.splits)
qed

lemma offer_formats_local:
  assumes "s \<noteq> NULL" "md_sips (core_md k) s = Some t" "quiet_call t" and "core_next k \<noteq> NULL"
    and a: "offer_formats env s m ip js p a k = Val (p', a', k')"
  shows "call_local s k k'"
  using assms(2-5)
proof (induction js arbitrary: k p a t)
  case (Cons j js)
  then obtain p1 a1 k1 where 1: "offer_format env s m ip j p a k = Val (p1, a1, k1)"
    and 2: "offer_formats env s m ip js p1 a1 k1 = Val (p', a', k')" by (auto simp: cpp_bind_Val)
  from offer_format_local [OF assms(1) Cons.prems(1-3) 1] have l: "call_local s k k1" .
  then obtain t1 where "md_sips (core_md k1) s = Some t1" "quiet_call t1" "core_next k1 \<noteq> NULL"
    using call_local_call [OF l Cons.prems(1)] Cons.prems(2,3) by (auto simp: same_call_def call_local_def)
  from call_local_trans [OF l Cons.IH [OF this 2]] show ?case .
qed simp

lemma getMediaLabel_same: "getMediaLabel h p t = Val (t', l) \<Longrightarrow> same_call t t'"
  using chanByPort_same [of t p] by (auto simp: getMediaLabel_def split_beta cpp_bind_Val split: if_splits)

lemma getConnectionIdByLabel_same: "getConnectionIdByLabel h l t = Val (t', c) \<Longrightarrow> same_call t t'"
  using chanByLabel_same [of t l] by (auto simp: getConnectionIdByLabel_def split_beta cpp_bind_Val split: if_splits)

lemma rtpExists_same: "rtpExists h ip p qs t = Val (t', b) \<Longrightarrow> same_call t t'"
proof (induction qs arbitrary: t)
  case (Cons q qs)
  obtain r t1 where c: "chanByPort q t = (r, t1)" by fastforce
  have "same_call t t1" using chanByPort_same [of t q] c by simp
  with Cons c show ?case by (auto simp: cpp_bind_Val split: if_splits intro: same_call_trans)
qed simp

lemma finish_audio_local:
  assumes "finish_audio s m p a k = Val (a', k')"
  shows "call_local s k k'"
proof (cases "p = 0")
  case False
  from assms False obtain t t1 l t2 c where t: "md_sips (core_md k) s = Some t"
    and 1: "getMediaLabel (md_rtps (core_md k)) p t = Val (t1, l)"
    and 2: "getConnectionIdByLabel (md_rtps (core_md k)) l t1 = Val (t2, c)" and k': "k' = putCall s t2 k"
    by (auto simp: finish_audio_def Let_def cpp_bind_Val split: if_splits)
  have "same_call t t2" using getMediaLabel_same [OF 1] getConnectionIdByLabel_same [OF 2] by (rule same_call_trans)
  from local_md [OF local_putSip [OF t this]] k' show ?thesis by (simp add: putCall_def)
qed (use assms in \<open>simp add: finish_audio_def\<close>)

lemma offer_audio_local:
  assumes "s \<noteq> NULL" "md_sips (core_md (of_core off)) s = Some t" "quiet_call t" "core_next (of_core off) \<noteq> NULL"
    and a: "offer_audio env s m off = Val off'"
  shows "call_local s (of_core off) (of_core off')"
proof -
  let ?k = "of_core off"
  from a assms(2) obtain t1 known where 1: "rtpExists (md_rtps (core_md ?k)) (of_ip off) (sm_port m) (sp_rtpPorts t) t = Val (t1, known)"
    by (auto simp: offer_audio_def Let_def cpp_bind_Val)
  have t1: "same_call t t1" by (rule rtpExists_same [OF 1])
  have l1: "call_local s ?k (putCall s t1 ?k)"
    using local_md [OF local_putSip [OF assms(2) t1]] by (simp add: putCall_def)
  show ?thesis
  proof (cases known)
    case True
    with a 1 assms(1,2) l1 show ?thesis by (auto simp: offer_audio_def Let_def)
  next
    case False
    with a 1 assms(1,2) obtain ip p b k2 b1 where
      2: "offer_formats env s m ip (sm_formats m) 0 (new_answer (sm_name m) 0 (sm_protocol m)) (putCall s t1 ?k) = Val (p, b, k2)"
      and 3: "finish_audio s m p b k2 = Val (b1, of_core off')"
      by (auto simp: offer_audio_def Let_def cpp_bind_Val)
    have "md_sips (core_md (putCall s t1 ?k)) s = Some t1" "quiet_call t1" "core_next (putCall s t1 ?k) \<noteq> NULL"
      using t1 assms(3,4) by (simp_all add: putCall_def same_call_def)
    from call_local_trans [OF call_local_trans [OF l1 offer_formats_local [OF assms(1) this 2]] finish_audio_local [OF 3]]
    show ?thesis .
  qed
qed

lemma setAS_same: "same_call t (setAS c t)"
  by (simp add: same_call_def setAS_def quiet_call_def)

text \<open>Both outcomes of \<open>accept_cfw\<close> in one equation.\<close>

lemma accept_cfw_result:
  assumes "accept_cfw env callId s m fp off = Val off'"
  obtains t st err c k1 where "md_sips (core_md (of_core off)) s = Some t" "s \<noteq> NULL"
    "c = offered_dialog m (of_cfwId off)" "k1 = (putCall s (setAS c t) (of_core off))\<lparr>core_cfw := st\<rparr>"
    "off' = off\<lparr>of_cfwId := c, of_err := err,
       of_media := of_media off @ (if err = 200 then [fst (cfw_answer env m c k1)] else []),
       of_core := (if err = 200 then snd (cfw_answer env m c k1) else k1)\<rparr>"
proof -
  let ?c = "offered_dialog m (of_cfwId off)"
  from assms obtain t st err where t: "md_sips (core_md (of_core off)) s = Some t" "s \<noteq> NULL"
    and r: "(let k1 = (putCall s (setAS ?c t) (of_core off))\<lparr>core_cfw := st\<rparr>;
              off1 = off\<lparr>of_cfwId := ?c, of_err := err, of_core := k1\<rparr> in
          if err = 200 then
            (let (a, k2) = cfw_answer env m ?c k1
             in Val (off1\<lparr>of_media := of_media off @ [a], of_core := k2\<rparr>))
          else Val off1) = Val off'"
    by (auto simp: accept_cfw_def Let_def [of "of_core off"] Let_def [of "offered_dialog _ _"] cpp_bind_Val)
  show thesis
    by (rule that [OF t refl refl, of err st]) (use r in \<open>auto simp: Let_def split_beta split: if_splits\<close>)
qed

lemma accept_cfw_local:
  assumes "accept_cfw env callId s m fp off = Val off'"
  shows "call_local s (of_core off) (of_core off')"
proof -
  let ?k = "of_core off"
  obtain t st err c k1 where t: "md_sips (core_md ?k) s = Some t"
    and k1: "k1 = (putCall s (setAS c t) ?k)\<lparr>core_cfw := st\<rparr>"
    and o: "off' = off\<lparr>of_cfwId := c, of_err := err,
       of_media := of_media off @ (if err = 200 then [fst (cfw_answer env m c k1)] else []),
       of_core := (if err = 200 then snd (cfw_answer env m c k1) else k1)\<rparr>"
    by (rule accept_cfw_result [OF assms])
  have "call_local s ?k (putCall s (setAS c t) ?k)"
    using local_md [OF local_putSip [OF t setAS_same]] by (simp add: putCall_def)
  then have "call_local s ?k k1" unfolding k1 by (simp add: call_local_def)
  with o show ?thesis by (simp add: cfw_answer_def Let_def split_beta call_local_def)
qed

lemma offer_application_local:
  "offer_application env callId s m off = Val off' \<Longrightarrow> call_local s (of_core off) (of_core off')"
  by (auto simp: offer_application_def Let_def cpp_bind_Val refuse_medium_def
      dest!: accept_cfw_local split: if_splits option.splits)

lemma offer_media_local:
  assumes "s \<noteq> NULL" "md_sips (core_md (of_core off)) s = Some t" "quiet_call t" "core_next (of_core off) \<noteq> NULL"
    and "offer_media env callId s ms off = Val off'"
  shows "call_local s (of_core off) (of_core off')"
  using assms(2-5)
proof (induction ms arbitrary: off t)
  case (Cons m ms)
  show ?case
  proof (cases "of_err off = 200")
    case True
    with Cons.prems(4) obtain off1 where
      1: "off1 = refuse_medium m off \<or> offer_application env callId s m off = Val off1 \<or> offer_audio env s m off = Val off1"
      and 2: "offer_media env callId s ms off1 = Val off'"
      by (auto simp: cpp_bind_Val split: if_splits)
    have l: "call_local s (of_core off) (of_core off1)"
      using 1 offer_application_local offer_audio_local [OF assms(1) Cons.prems(1-3)]
      by (auto simp: refuse_medium_def)
    then obtain t1 where "md_sips (core_md (of_core off1)) s = Some t1" "quiet_call t1" "core_next (of_core off1) \<noteq> NULL"
      using call_local_call [OF l Cons.prems(1)] Cons.prems(2,3) by (auto simp: same_call_def call_local_def)
    from call_local_trans [OF l Cons.IH [OF this 2]] show ?thesis .
  next
    case False
    with Cons.prems(4) show ?thesis by simp
  qed
qed simp

subsection \<open>The answer mirrors the offer\<close>

definition mirrors :: "medium \<Rightarrow> reply_medium \<Rightarrow> bool" where
  "mirrors m a \<longleftrightarrow> an_name a = sm_name m \<and> an_protocol a = sm_protocol m \<and>
     (an_port a \<noteq> 0 \<longrightarrow> sm_name m = ''audio'' \<or>
        sm_name m = ''application'' \<and> (sm_protocol m = ''TCP/CFW'' \<or> sm_protocol m = ''TCP/TLS/CFW''))"

lemma fold_attribute_simps [simp]:
  "an_name (fold (addAttribute key) vs a) = an_name a" "an_port (fold (addAttribute key) vs a) = an_port a"
  "an_protocol (fold (addAttribute key) vs a) = an_protocol a"
  by (induction vs arbitrary: a) (simp_all add: addAttribute_def)

lemma addAttribute_simps [simp]:
  "an_name (addAttribute key v a) = an_name a" "an_port (addAttribute key v a) = an_port a"
  "an_protocol (addAttribute key v a) = an_protocol a"
  by (simp_all add: addAttribute_def)

definition same_medium :: "reply_medium \<Rightarrow> reply_medium \<Rightarrow> bool" where
  "same_medium a b \<longleftrightarrow> an_name b = an_name a \<and> an_protocol b = an_protocol a"

lemma accept_format_medium: "accept_format env s m ip jj ms b p a k = Val (p', a', k') \<Longrightarrow> same_medium a a'"
  by (auto simp: accept_format_def add_format_def open_channel_def cpp_bind_Val same_medium_def split: if_splits)

lemma offer_format_medium: "offer_format env s m ip j p a k = Val (p', a', k') \<Longrightarrow> same_medium a a'"
  by (auto simp: offer_format_def Let_def same_medium_def dest: accept_format_medium [unfolded same_medium_def]
      split: if_splits prod.splits)

lemma offer_formats_medium: "offer_formats env s m ip js p a k = Val (p', a', k') \<Longrightarrow> same_medium a a'"
proof (induction js arbitrary: p a k)
  case (Cons j js)
  then show ?case using offer_format_medium by (fastforce simp: cpp_bind_Val same_medium_def)
qed (simp add: same_medium_def)

lemma finish_audio_medium: "finish_audio s m p a k = Val (a', k') \<Longrightarrow> same_medium a a'"
  by (auto simp: finish_audio_def Let_def cpp_bind_Val same_medium_def split: if_splits)

lemma offer_audio_answer:
  assumes "sm_name m = ''audio''" "md_sips (core_md (of_core off)) s = Some t" "sp_rtpPorts t = []"
    and "offer_audio env s m off = Val off'"
  shows "\<exists>a. of_media off' = of_media off @ [a] \<and> mirrors m a \<and> of_err off' = of_err off"
proof -
  from assms obtain ip p a k2 a1 k3 where
    "offer_formats env s m ip (sm_formats m) 0 (new_answer (sm_name m) 0 (sm_protocol m))
       (putCall s t (of_core off)) = Val (p, a, k2)"
    and "finish_audio s m p a k2 = Val (a1, k3)" and "off' = off\<lparr>of_ip := ip, of_media := of_media off @ [a1], of_core := k3\<rparr>"
    by (auto simp: offer_audio_def Let_def cpp_bind_Val)
  then show ?thesis
    using assms(1) offer_formats_medium finish_audio_medium
    by (fastforce simp: same_medium_def mirrors_def new_answer_def)
qed

lemma cfw_answer_medium:
  "cfw_answer env m c k = (a, k') \<Longrightarrow> an_name a = ''application'' \<and> an_protocol a = sm_protocol m"
  by (auto simp: cfw_answer_def Let_def split_beta new_answer_def)

lemma offer_application_answer:
  assumes "sm_name m = ''application''" and "offer_application env callId s m off = Val off'" and "of_err off' = 200"
  shows "\<exists>a. of_media off' = of_media off @ [a] \<and> mirrors m a"
proof (cases "sm_protocol m = ''TCP/CFW'' \<or> sm_protocol m = ''TCP/TLS/CFW''")
  case True
  with assms(2,3) obtain fp off1 where o: "accept_cfw env callId s m fp off1 = Val off'" "of_media off1 = of_media off"
    by (auto simp: offer_application_def Let_def cpp_bind_Val split: if_splits option.splits)
  obtain c k where "of_media off' = of_media off1 @ [fst (cfw_answer env m c k)]"
    using assms(3) by (rule_tac accept_cfw_result [OF o(1)]) (auto split: if_splits)
  moreover obtain a k' where "cfw_answer env m c k = (a, k')" by fastforce
  ultimately have "cfw_answer env m c k = (a, k')" "of_media off' = of_media off1 @ [a]" by simp_all
  with o(2) True assms(1) show ?thesis by (auto simp: mirrors_def dest: cfw_answer_medium)
next
  case False
  with assms(1,2) show ?thesis
    by (auto simp: offer_application_def refuse_medium_def mirrors_def new_answer_def)
qed

lemma accept_cfw_ports:
  assumes "accept_cfw env callId s m fp off = Val off'" and "md_sips (core_md (of_core off)) s = Some t"
  shows "\<exists>t'. md_sips (core_md (of_core off')) s = Some t' \<and> sp_rtpPorts t' = sp_rtpPorts t"
  using assms(2)
  by (rule_tac accept_cfw_result [OF assms(1)])
    (auto simp: cfw_answer_def Let_def split_beta putCall_def setAS_def)

lemma offer_application_ports:
  assumes "offer_application env callId s m off = Val off'" and "md_sips (core_md (of_core off)) s = Some t"
  shows "\<exists>t'. md_sips (core_md (of_core off')) s = Some t' \<and> sp_rtpPorts t' = sp_rtpPorts t"
  using assms accept_cfw_ports [of env callId s m _ "off\<lparr>of_ip := _\<rparr>" off' t]
  by (auto simp: offer_application_def Let_def cpp_bind_Val refuse_medium_def split: if_splits option.splits)

definition audios :: "medium list \<Rightarrow> nat" where
  "audios ms = length (filter (\<lambda>m. sm_name m = ''audio'') ms)"

lemma offer_media_mirrors:
  assumes "offer_media env callId s ms off = Val off'" and "of_err off' = 200"
    and "audios ms = 0 \<or> audios ms = 1 \<and> (\<exists>t. md_sips (core_md (of_core off)) s = Some t \<and> sp_rtpPorts t = [])"
  shows "\<exists>as. of_media off' = of_media off @ as \<and> list_all2 mirrors ms as"
  using assms
proof (induction ms arbitrary: off)
  case (Cons m ms)
  show ?case
  proof (cases "of_err off = 200")
    case False
    with Cons.prems(1,2) show ?thesis by simp
  next
    case True
    have step: ?thesis
      if 1: "offer_media env callId s ms off1 = Val off'" "of_media off1 = of_media off @ [a]" "mirrors m a"
        and t1: "audios ms = 0 \<or>
          audios ms = 1 \<and> (\<exists>t. md_sips (core_md (of_core off1)) s = Some t \<and> sp_rtpPorts t = [])" for off1 a
      using Cons.IH [OF 1(1) Cons.prems(2) t1] 1(2,3) by auto
    consider "sm_name m = ''audio''" | "sm_name m = ''application''"
      | "sm_name m \<noteq> ''audio''" "sm_name m \<noteq> ''application''" by blast
    then show ?thesis
    proof cases
      case 1
      then obtain t where t: "md_sips (core_md (of_core off)) s = Some t" "sp_rtpPorts t = []"
        and z: "audios ms = 0" using Cons.prems(3) by (auto simp: audios_def)
      from 1 Cons.prems(1) True obtain off1 where o: "offer_audio env s m off = Val off1"
          "offer_media env callId s ms off1 = Val off'" by (auto simp: cpp_bind_Val)
      with step [OF o(2)] offer_audio_answer [OF 1 t o(1)] z show ?thesis by blast
    next
      case 2
      from 2 Cons.prems(1) True obtain off1 where o: "offer_application env callId s m off = Val off1"
          "offer_media env callId s ms off1 = Val off'" by (auto simp: cpp_bind_Val)
      have "of_err off1 = 200" using o(2) Cons.prems(2) by (cases ms) (auto split: if_splits)
      from offer_application_answer [OF 2 o(1) this] obtain a where
        a: "of_media off1 = of_media off @ [a]" "mirrors m a" by blast
      have "audios ms = audios (m # ms)" using 2 by (simp add: audios_def)
      with Cons.prems(3) offer_application_ports [OF o(1)] show ?thesis
        by (intro step [OF o(2) a]) metis
    next
      case 3
      then have o: "offer_media env callId s ms (refuse_medium m off) = Val off'"
        using Cons.prems(1) True by (auto split: if_splits)
      have "audios ms = audios (m # ms)" using 3 by (simp add: audios_def)
      then show ?thesis using step [OF o] Cons.prems(3)
        by (simp add: refuse_medium_def mirrors_def new_answer_def)
    qed
  qed
qed (auto intro: exI [of _ "[]"])

definition fresh_call :: "siptx \<Rightarrow> bool" where
  "fresh_call t \<longleftrightarrow> \<not> sp_negotiated t \<and> sp_rtpPorts t = [] \<and> quiet_call t"

lemma reject_call_sip:
  assumes "reject_call err s k = Val k'"
  shows "core_sip k' = core_sip k @ [(s, SipReject err)] \<and> md_sips (core_md k') s = None"
proof -
  from assms obtain t md where "md_sips (core_md k) s = Some t" "deleteSip s (core_md k) = Val md"
      "k' = (forget_call t (tell_sip s (SipReject err) k))\<lparr>core_md := md\<rparr>"
    by (auto simp: reject_call_def core_delete_sip_def cpp_bind_Val forget_call_def tell_sip_def)
  then show ?thesis
    by (auto simp: forget_call_def tell_sip_def deleteSip_def cpp_bind_Val split: if_splits)
qed

lemma negotiate_outcome:
  assumes s: "s \<noteq> NULL" "quiet_call t" "sp_rtpPorts t = []" "core_next k \<noteq> NULL" and one: "audios (iv_media iv) \<le> 1"
    and n: "negotiate env iv s t k = Val k'"
  shows "(\<exists>err. err \<noteq> 200 \<and> core_sip k' = core_sip k @ [(s, SipProvisional 100), (s, SipReject err)] \<and>
       md_sips (core_md k') s = None) \<or>
    (\<exists>as. core_sip k' = core_sip k @ [(s, SipProvisional 100), (s, SipAnswer as), (s, SipAccept)] \<and>
       list_all2 mirrors (iv_media iv) as \<and> md_sips (core_md k') s \<noteq> None)"
proof -
  let ?t = "setTags (iv_fromTag iv) (env_localTag env) t"
  let ?k = "(putCall s ?t (tell_sip s (SipProvisional 100) k))
      \<lparr>core_sipConnections := smap_put (sp_connectionId ?t) s (core_sipConnections k)\<rparr>"
  let ?off = "\<lparr>of_ip = '''', of_cfwId = '''', of_err = 200, of_media = [], of_core = ?k\<rparr>"
  from n obtain off where o: "offer_media env (iv_callId iv) s (iv_media iv) ?off = Val off"
    and e: "(if of_err off \<noteq> 200 then reject_call (of_err off) s (of_core off) else answer_call s off) = Val k'"
    by (auto simp: negotiate_def Let_def cpp_bind_Val)
  have t: "md_sips (core_md (of_core ?off)) s = Some ?t" "quiet_call ?t" "sp_rtpPorts ?t = []"
    "core_next (of_core ?off) \<noteq> NULL"
    using s by (simp_all add: putCall_def setTags_def quiet_call_def tell_sip_def)
  have l: "call_local s ?k (of_core off)" using offer_media_local [OF s(1) t(1,2,4) o] by simp
  then have c: "core_sip (of_core off) = core_sip k @ [(s, SipProvisional 100)]"
    by (simp add: call_local_def putCall_def tell_sip_def)
  show ?thesis
  proof (cases "of_err off = 200")
    case True
    have "audios (iv_media iv) = 0 \<or> audios (iv_media iv) = 1" using one by linarith
    with offer_media_mirrors [OF o True, unfolded offer.simps] t(1,3)
    have "list_all2 mirrors (iv_media iv) (of_media off)" by fastforce
    moreover from e True have "k' \<in> {k'. \<exists>t. k' = tell_sip s SipAccept (tell_sip s (SipAnswer (of_media off))
          (putCall s t (of_core off)))}"
      by (auto simp: answer_call_def Let_def cpp_bind_Val)
    ultimately show ?thesis using c by (auto simp: tell_sip_def putCall_def)
  next
    case False
    with e reject_call_sip c show ?thesis by fastforce
  qed
qed


definition video_medium :: medium where
  "video_medium = \<lparr>sm_name = ''video'', sm_protocol = ''RTP/AVP'', sm_port = 5000, sm_addresses = [''1.2.3.4''],
     sm_formats = [''34''], sm_values = (\<lambda>_. []), sm_telephone = -1\<rparr>"

lemma fresh_core_offer: "\<exists>k'. onOffer demo_env (demo_invite [video_medium]) fresh_core = Val k'"
  by (simp add: onOffer_def lookup_known smap_get_def demo_invite_def Let_def newSip_def putCall_def
      setNegotiated_def negotiate_def tell_sip_def video_medium_def refuse_medium_def answer_call_def)


subsection \<open>An accepted medium has its channel\<close>

text \<open>The call at \<open>s\<close> has an RTP channel on \<open>port\<close>, known under its label, towards that peer.\<close>

definition channel_towards :: "ptr \<Rightarrow> u16 \<Rightarrow> string \<Rightarrow> u16 \<Rightarrow> media \<Rightarrow> rtp \<Rightarrow> bool" where
  "channel_towards s port ip dport md ch \<longleftrightarrow> (\<exists>t r. md_sips md s = Some t \<and> r \<noteq> NULL \<and>
     smap_get (sp_byPort t) port = Some r \<and> smap_get (sp_byLabel t) (rtp_label ch) = Some r \<and>
     md_rtps md r = Some ch \<and> rtp_srcPort ch = port \<and> rtp_dstIp ch = ip \<and> rtp_dstPort ch = dport)"

lemma putSip_same: "md_sips md s = Some t \<Longrightarrow> putSip s t md = md"
  by (simp add: putSip_def fun_upd_idem)

lemma with_port_known:
  assumes "s \<noteq> NULL" "md_sips md s = Some t" "smap_get (sp_byPort t) port = Some r" "r \<noteq> NULL"
    and "md_rtps md r = Some ch"
  shows "with_port s port no f md = Val (putRtp r (fst (f ch)) md, snd (f ch))"
  using assms by (simp add: with_port_def chanByPort_def smap_index_def putSip_same)

lemma addSetting_keeps:
  "addSetting bx v ch = (ch', ans) \<Longrightarrow> rtp_srcPort ch' = rtp_srcPort ch \<and> rtp_label ch' = rtp_label ch"
  by (auto simp: addSetting_def Let_def split: prod.splits)

lemma add_settings_channel:
  assumes "s \<noteq> NULL" "md_sips md s = Some t" "smap_get (sp_byPort t) port = Some r" "r \<noteq> NULL"
    and "md_rtps md r = Some ch" and "add_settings bx s port jj vs md = Val (md', attrs)"
  shows "\<exists>ch'. md_rtps md' r = Some ch' \<and> md_sips md' = md_sips md \<and> rtp_srcPort ch' = rtp_srcPort ch \<and>
     rtp_label ch' = rtp_label ch"
  using assms(2,3,5,6)
proof (induction vs arbitrary: md ch attrs)
  case (Cons v vs)
  note k = with_port_known [OF assms(1) Cons.prems(1,2) assms(4) Cons.prems(3)]
  show ?case
  proof (cases "add_settings bx s port jj vs md = Val (md', attrs)")
    case True
    from Cons.IH [OF Cons.prems(1-3) True] show ?thesis .
  next
    case False
    with Cons.prems(4) obtain ms attrs' where
      "add_settings bx s port jj vs (putRtp r (fst (addSetting bx (sub ms 2) ch)) md) = Val (md', attrs')"
      by (auto simp: addRtpSetting_def k cpp_bind_Val split: option.splits if_splits)
    moreover obtain ch1 ans where c: "addSetting bx (sub ms 2) ch = (ch1, ans)" by fastforce
    ultimately have 1: "add_settings bx s port jj vs (putRtp r ch1 md) = Val (md', attrs')" by simp
    from Cons.IH [OF _ _ _ 1, of ch1] Cons.prems(1,2) addSetting_keeps [OF c] show ?thesis by auto
  qed
qed auto

lemma open_channel_towards:
  assumes s: "s \<noteq> NULL" "md_sips (core_md k) s = Some t" "quiet_call t" and n: "core_next k \<noteq> NULL"
    and o: "open_channel env s m ip jj a k = Val (port, a', attrs, k')"
  shows "(\<exists>ch. channel_towards s port ip (sm_port m) (core_md k') ch) \<and> an_port a' = port \<and>
     port = fst (env_pick env (core_next k))"
proof -
  from o obtain k1 md md1 b where 1: "core_addRtp env s jj k = Val (port, k1)"
    and 2: "add_settings (env_bx env) s port jj (sm_values m ''fmtp'') (core_md k1) = Val (md, attrs)"
    and 3: "setRtpPeer s port ip (sm_port m) md = Val (md1, b)" and k': "k' = k1\<lparr>core_md := md1\<rparr>"
    and a': "a' = a\<lparr>an_port := port\<rparr>"
    by (auto simp: open_channel_def cpp_bind_Val)
  have q: "\<not> sp_active t" "smap_ok (sp_byPort t)" "smap_ok (sp_byLabel t)"
    using s(3) by (simp_all add: quiet_call_def)
  from core_addRtp_made [OF s(1,2) q(1) n 1] obtain ch label where
    p: "env_pick env (core_next k) = (port, label)" and
    t: "md_sips (core_md k1) = (md_sips (core_md k))(s \<mapsto>
       t\<lparr>sp_rtpPorts := sp_rtpPorts t @ [port], sp_rtpLabels := sp_rtpLabels t @ [label],
            sp_byPort := smap_put port (core_next k) (sp_byPort t),
            sp_byLabel := smap_put label (core_next k) (sp_byLabel t)\<rparr>)"
    and ch: "md_rtps (core_md k1) = (md_rtps (core_md k))(core_next k \<mapsto> ch)" "rtp_srcPort ch = port"
      "rtp_label ch = label" by metis
  let ?t = "t\<lparr>sp_rtpPorts := sp_rtpPorts t @ [port], sp_rtpLabels := sp_rtpLabels t @ [label],
            sp_byPort := smap_put port (core_next k) (sp_byPort t),
            sp_byLabel := smap_put label (core_next k) (sp_byLabel t)\<rparr>"
  have t1: "md_sips (core_md k1) s = Some ?t" and c1: "md_rtps (core_md k1) (core_next k) = Some ch"
    and i1: "smap_get (sp_byPort ?t) port = Some (core_next k)"
      "smap_get (sp_byLabel ?t) label = Some (core_next k)"
    using t ch q by simp_all
  obtain ch2 where ch2: "md_rtps md (core_next k) = Some ch2" "md_sips md = md_sips (core_md k1)"
      "rtp_srcPort ch2 = port" "rtp_label ch2 = label"
    using add_settings_channel [OF s(1) t1 i1(1) n c1 2] ch by auto
  have t2: "md_sips md s = Some ?t" using ch2(2) t1 by simp
  let ?f = "\<lambda>ch. let (ch', start) = setPeer ip (sm_port m) ch in (if start then rtp_start ch' else ch', True)"
  have "md1 = putRtp (core_next k) (fst (?f ch2)) md"
    using 3 with_port_known [OF s(1) t2 i1(1) n ch2(1), of False ?f] by (simp add: setRtpPeer_def)
  moreover have "rtp_srcPort (fst (?f ch2)) = port" "rtp_label (fst (?f ch2)) = label"
      "rtp_dstIp (fst (?f ch2)) = ip" "rtp_dstPort (fst (?f ch2)) = sm_port m"
    using ch2(3,4) by (auto simp: setPeer_def rtp_start_def)
  ultimately have "channel_towards s port ip (sm_port m) md1 (fst (?f ch2))"
    unfolding channel_towards_def using t2 i1 n by (intro exI [of _ ?t] exI [of _ "core_next k"]) simp
  with k' a' p show ?thesis by auto
qed

lemma add_format_port: "add_format jj ms b a = Val a' \<Longrightarrow> an_port a' = an_port a"
  by (auto simp: add_format_def split: if_splits)

definition offered_so_far :: "ptr \<Rightarrow> string \<Rightarrow> medium \<Rightarrow> u16 \<Rightarrow> reply_medium \<Rightarrow> core \<Rightarrow> bool" where
  "offered_so_far s ip m p a k \<longleftrightarrow> an_port a = p \<and>
     (if p = 0 then \<exists>t. md_sips (core_md k) s = Some t \<and> quiet_call t
      else \<exists>ch. channel_towards s p ip (sm_port m) (core_md k) ch)"

lemma offer_format_so_far:
  assumes "s \<noteq> NULL" and "core_next k \<noteq> NULL" and "\<forall>r. fst (env_pick env r) \<noteq> 0"
    and i: "offered_so_far s ip m p a k" and o: "offer_format env s m ip j p a k = Val (p', a', k')"
  shows "offered_so_far s ip m p' a' k' \<and> core_next k' \<noteq> NULL"
proof -
  obtain st fs where f: "codecExists (atoi j) (core_codecs k) = (st, fs)" by fastforce
  let ?k = "k\<lparr>core_codecs := fs\<rparr>"
  have ik: "offered_so_far s ip m p a ?k" using i by (simp add: offered_so_far_def)
  have acc: "offered_so_far s ip m p' a' k' \<and> core_next k' \<noteq> NULL"
    if "accept_format env s m ip jj ms b p a ?k = Val (p', a', k')" for jj ms b
  proof (cases "p = 0")
    case False
    with that ik assms(2) show ?thesis
      by (auto simp: accept_format_def cpp_bind_Val offered_so_far_def dest: add_format_port)
  next
    case True
    with that obtain a1 a2 attrs where o: "open_channel env s m ip jj a ?k = Val (p', a1, attrs, k')"
      "add_format jj ms b a1 = Val a2" "a' = fold (addAttribute ''fmtp'') attrs a2"
      by (auto simp: accept_format_def cpp_bind_Val)
    from ik True obtain t where t: "md_sips (core_md ?k) s = Some t" "quiet_call t"
      by (auto simp: offered_so_far_def)
    have n: "core_next ?k \<noteq> NULL" using assms(2) by simp
    from open_channel_towards [OF assms(1) t n o(1)] open_channel_local [OF assms(1) t n o(1)] assms(2,3) o(2,3)
    show ?thesis by (auto simp: offered_so_far_def call_local_def dest: add_format_port)
  qed
  show ?thesis
  proof (cases "atoi j = 101")
    case True
    with o i assms(2) show ?thesis by (simp add: offer_format_def)
  next
    case False
    with o f have "(\<exists>ms b. accept_format env s m ip (atoi j) ms b p a ?k = Val (p', a', k')) \<or>
        (p', a', k') = (p, a, ?k)"
      by (auto simp: offer_format_def Let_def split: if_splits prod.splits)
    with acc ik assms(2) show ?thesis by auto
  qed
qed

lemma offer_formats_so_far:
  assumes "s \<noteq> NULL" and "core_next k \<noteq> NULL" and "\<forall>r. fst (env_pick env r) \<noteq> 0"
    and "offered_so_far s ip m p a k" and "offer_formats env s m ip js p a k = Val (p', a', k')"
  shows "offered_so_far s ip m p' a' k'"
  using assms(2,4,5)
proof (induction js arbitrary: k p a)
  case (Cons j js)
  then obtain p1 a1 k1 where 1: "offer_format env s m ip j p a k = Val (p1, a1, k1)"
    and 2: "offer_formats env s m ip js p1 a1 k1 = Val (p', a', k')" by (auto simp: cpp_bind_Val)
  from offer_format_so_far [OF assms(1) Cons.prems(1) assms(3) Cons.prems(2) 1] Cons.IH [OF _ _ 2]
  show ?case by blast
qed simp

text \<open>
  C6. An accepted audio medium is connected. When the answer to an audio medium has a port, the call
  has an RTP channel on that port whose peer is the offered address and port, and the answer
  carries the channel's label; the label leads the packages to the channel.
\<close>

theorem accepted_audio_is_connected:
  assumes "s \<noteq> NULL" and "md_sips (core_md (of_core off)) s = Some t" and "quiet_call t"
    and "sp_rtpPorts t = []" and "core_next (of_core off) \<noteq> NULL" and "\<forall>r. fst (env_pick env r) \<noteq> 0"
    and "offer_audio env s m off = Val off'"
  shows "\<exists>a. of_media off' = of_media off @ [a] \<and>
     (an_port a \<noteq> 0 \<longrightarrow> (\<exists>ch. channel_towards s (an_port a) (hd (sm_addresses m)) (sm_port m) (core_md (of_core off')) ch \<and>
        (''label'', rtp_label ch) \<in> set (an_attributes a)))"
proof -
  let ?k = "putCall s t (of_core off)"
  from assms(1,2,4,7) obtain ip p a k2 a1 k3 where ip: "ip = hd (sm_addresses m)"
    and f: "offer_formats env s m ip (sm_formats m) 0 (new_answer (sm_name m) 0 (sm_protocol m)) ?k = Val (p, a, k2)"
    and e: "finish_audio s m p a k2 = Val (a1, k3)"
    and off': "off' = off\<lparr>of_ip := ip, of_media := of_media off @ [a1], of_core := k3\<rparr>"
    by (cases "sm_addresses m") (auto simp: offer_audio_def Let_def cpp_bind_Val)
  have "offered_so_far s ip m 0 (new_answer (sm_name m) 0 (sm_protocol m)) ?k" "core_next ?k \<noteq> NULL"
    using assms(2,3,5) by (simp_all add: offered_so_far_def putCall_def new_answer_def)
  from offer_formats_so_far [OF assms(1) this(2) assms(6) this(1) f]
  have i: "offered_so_far s ip m p a k2" .
  have "an_port a1 \<noteq> 0 \<longrightarrow> (\<exists>ch. channel_towards s (an_port a1) ip (sm_port m) (core_md k3) ch \<and>
        (''label'', rtp_label ch) \<in> set (an_attributes a1))"
  proof (cases "p = 0")
    case True
    with e i show ?thesis by (simp add: finish_audio_def offered_so_far_def)
  next
    case False
    with i obtain ch where "channel_towards s p ip (sm_port m) (core_md k2) ch" and pa: "an_port a = p"
      by (auto simp: offered_so_far_def)
    then obtain t2 r where c: "md_sips (core_md k2) s = Some t2" "r \<noteq> NULL" "smap_get (sp_byPort t2) p = Some r"
        "smap_get (sp_byLabel t2) (rtp_label ch) = Some r" "md_rtps (core_md k2) r = Some ch"
        "rtp_srcPort ch = p" "rtp_dstIp ch = ip" "rtp_dstPort ch = sm_port m"
      unfolding channel_towards_def by blast
    have "getMediaLabel (md_rtps (core_md k2)) p t2 = Val (t2, rtp_label ch)"
      using c by (simp add: getMediaLabel_def chanByPort_def smap_index_def)
    moreover have "\<exists>x. getConnectionIdByLabel (md_rtps (core_md k2)) (rtp_label ch) t2 = Val (t2, x)"
      using c by (simp add: getConnectionIdByLabel_def chanByLabel_def smap_index_def)
    ultimately have "k3 = putCall s t2 k2" "(''label'', rtp_label ch) \<in> set (an_attributes a1)" "an_port a1 = p"
      using e False assms(1) c(1) pa by (auto simp: finish_audio_def Let_def addAttribute_def split: if_splits)
    then show ?thesis using c by (auto simp: channel_towards_def putCall_def)
  qed
  with off' ip show ?thesis by simp
qed

text \<open>An offer of mu-law audio, to a server with that codec; no attribute line matches.\<close>

definition plain_env :: sip_env where
  "plain_env = demo_env\<lparr>env_bx := \<lparr>bx_match = (\<lambda>re s. None), bx_tokens = (\<lambda>re s. [s])\<rparr>\<rparr>"

definition audio_medium :: medium where
  "audio_medium = \<lparr>sm_name = ''audio'', sm_protocol = ''RTP/AVP'', sm_port = 5000, sm_addresses = [''1.2.3.4''],
     sm_formats = [''0''], sm_values = (\<lambda>_. []), sm_telephone = -1\<rparr>"

definition audio_offer :: offer where
  "audio_offer = \<lparr>of_ip = '''', of_cfwId = '''', of_err = 200, of_media = [],
     of_core = fresh_core\<lparr>core_codecs := [(0, Some \<lparr>fa_name = ''PCMU'', fa_mask = ''PCMU'', fa_blockLen = 160,
       fa_create = Some ulaw_create\<rparr>)]\<rparr>\<rparr>"

lemma core_next_fresh [simp]: "core_next fresh_core = 20"
  by (simp add: fresh_core_def demo_core_def)

lemma audio_offer_accepted:
  "\<exists>off' a. offer_audio plain_env 3 audio_medium audio_offer = Val off' \<and> of_media off' = [a] \<and> an_port a = 4000"
proof -
  have n: "atoi ''0'' = 0" "dec_int 0 = ''0''" by code_simp+
  show ?thesis
    by (simp add: offer_audio_def audio_offer_def audio_medium_def newSip_def putCall_def plain_env_def demo_env_def
        offer_format_def n codecExists_def smap_index_def smap_get_def accept_format_def open_channel_def core_addRtp_def
        createCodec_def addRtp_def on_channel_def setPayloadType_def newRtp_def codec_or_new_def ulaw_create_def
        start_codec_def newUlawCodec_def sip_route_def setRtpPeer_def with_port_def chanByPort_def setPeer_def rtp_start_def
        add_format_def finish_audio_def getMediaLabel_def getConnectionIdByLabel_def chanByLabel_def
        addAttribute_def new_answer_def Let_def ulaw_start_def)
qed

theorem accepted_audio_is_connected_witness:
  "\<exists>off' a ch. offer_audio plain_env 3 audio_medium audio_offer = Val off' \<and> of_media off' = [a] \<and>
     channel_towards 3 4000 ''1.2.3.4'' 5000 (core_md (of_core off')) ch \<and>
     (''label'', rtp_label ch) \<in> set (an_attributes a)"
proof -
  obtain off' a where o: "offer_audio plain_env 3 audio_medium audio_offer = Val off'" "of_media off' = [a]" "an_port a = 4000"
    using audio_offer_accepted by blast
  have s: "md_sips (core_md (of_core audio_offer)) 3 = Some (newSip ''call'')" "quiet_call (newSip ''call'')"
    "sp_rtpPorts (newSip ''call'') = []" "core_next (of_core audio_offer) \<noteq> NULL"
    "\<forall>r. fst (env_pick plain_env r) \<noteq> 0"
    by (simp_all add: audio_offer_def newSip_def quiet_call_def plain_env_def demo_env_def)
  have "(3 :: ptr) \<noteq> NULL" by simp
  from accepted_audio_is_connected [OF this s o(1)] o(2,3) have
    "\<exists>ch. channel_towards 3 4000 ''1.2.3.4'' 5000 (core_md (of_core off')) ch \<and>
       (''label'', rtp_label ch) \<in> set (an_attributes a)"
    by (auto simp: audio_offer_def audio_medium_def)
  with o(1,2) show ?thesis by blast
qed

subsection \<open>Offers that go wrong\<close>

text \<open>
  The lines \<open>setup\<close> and \<open>connection\<close> of a control channel are read from the front of a list that
  is empty when the line is missing, and so is the \<open>fingerprint\<close> of a TLS channel: the test for an
  empty one comes after the read, so that a missing fingerprint is undefined and not rejected.
\<close>

theorem control_offer_needs_lines:
  assumes "sm_protocol m = ''TCP/CFW'' \<or> sm_protocol m = ''TCP/TLS/CFW''"
    and "sm_values m ''setup'' = [] \<or> sm_values m ''connection'' = [] \<or>
         sm_protocol m = ''TCP/TLS/CFW'' \<and> sm_values m ''fingerprint'' = []"
  shows "offer_application env callId s m off = Undef"
proof -
  have f: "cpp_bind (front xs) (\<lambda>_. Undef) = Undef" for xs :: "string list" by (cases xs) auto
  show ?thesis
    using assms by (cases "sm_addresses m"; cases "sm_values m ''setup''"; cases "sm_values m ''connection''")
      (auto simp: offer_application_def offered_fingerprint_def)
qed

theorem control_offer_needs_lines_witness:
  "offer_application demo_env ''call'' 3 (video_medium\<lparr>sm_name := ''application'', sm_protocol := ''TCP/CFW''\<rparr>) audio_offer = Undef"
  by (rule control_offer_needs_lines) (simp_all add: video_medium_def)

text \<open>
  A payload type without its own \<open>rtpmap\<close> line is judged by the name in the line that was tried
  last, which belongs to another one: if that names a codec the type is accepted, and answered by
  its number, which for more than two digits is written past its buffer.
\<close>

theorem unmapped_format_takes_last_name:
  assumes "sm_values m ''rtpmap'' = [v]" and "bx_match (env_bx env) rx_rtpmap v = Some ms"
    and "atoi (sub ms 1) \<noteq> atoi j" and "atoi j \<noteq> 101" and "smap_get (core_codecs k) (atoi j) = Some None"
    and "found_by_name (env_bx env) (sub ms 2) (core_codecs k)" and "p \<noteq> 0"
  shows "offer_format env s m ip j p a k =
     (if 2 < length (dec_int (atoi j)) then Undef
      else Val (p, a\<lparr>an_formats := an_formats a @ [dec_int (atoi j)]\<rparr>, k))"
  using assms
  by (simp add: offer_format_def codecExists_def smap_index_def accept_format_def add_format_def)

theorem unmapped_format_takes_last_name_witness:
  "\<exists>m k. offer_format demo_env 3 m ''1.2.3.4'' ''97'' 4000 (new_answer ''audio'' 4000 ''RTP/AVP'') k =
     Val (4000, (new_answer ''audio'' 4000 ''RTP/AVP'')\<lparr>an_formats := [''97'']\<rparr>, k)"
proof -
  let ?m = "audio_medium\<lparr>sm_values := (\<lambda>_. [''1 PCMU/8000''])\<rparr>"
  let ?k = "fresh_core\<lparr>core_codecs := [(0, Some \<lparr>fa_name = ''PCMU'', fa_mask = ''PCMU'', fa_blockLen = 160,
     fa_create = Some ulaw_create\<rparr>), (97, None)]\<rparr>"
  have n: "atoi ''97'' = 97" "atoi ''1'' = 1" "dec_int 97 = ''97''" by code_simp+
  have "sm_values ?m ''rtpmap'' = [''1 PCMU/8000'']"
    "bx_match (env_bx demo_env) rx_rtpmap ''1 PCMU/8000'' = Some [''1 PCMU/8000'', ''1'', ''2'', ''3'', ''4'']"
    "atoi (sub [''1 PCMU/8000'', ''1'', ''2'', ''3'', ''4''] 1) \<noteq> atoi ''97''" "atoi ''97'' \<noteq> 101"
    "smap_get (core_codecs ?k) (atoi ''97'') = Some None"
    "found_by_name (env_bx demo_env) (sub [''1 PCMU/8000'', ''1'', ''2'', ''3'', ''4''] 2) (core_codecs ?k)"
    "(4000 :: u16) \<noteq> 0"
    by (simp_all add: n demo_env_def sub_def smap_get_def checkName_def)
  from unmapped_format_takes_last_name [OF this, of 3 "''1.2.3.4''" "new_answer ''audio'' 4000 ''RTP/AVP''"]
  show ?thesis by (auto simp: n new_answer_def)
qed

end
