(* ===== verification/CoreCalls.thy ===== *)
theory CoreCalls
  imports SdpOffer
begin

text \<open>
  The core's book-keeping of calls over all its operations (\<open>src/MediaCtrl.cxx\<close>): callbacks of the
  SIP stack, requests of the packages and the activity of the media. The maps of calls only refer
  to live calls, each filed under its own identifiers.
\<close>

subsection \<open>The invariant\<close>

definition core_ok :: "core \<Rightarrow> bool" where
  "core_ok k \<longleftrightarrow> smap_ok (core_sipTransactions k) \<and> smap_ok (core_sipConnections k) \<and>
     (\<forall>key s. smap_get (core_sipTransactions k) key = Some s \<longrightarrow> s \<noteq> NULL \<longrightarrow>
        (\<exists>t. md_sips (core_md k) s = Some t \<and> sp_callId t = key)) \<and>
     (\<forall>key s. smap_get (core_sipConnections k) key = Some s \<longrightarrow> s \<noteq> NULL \<longrightarrow>
        (\<exists>t. md_sips (core_md k) s = Some t \<and> sp_connectionId t = key \<and> sp_negotiated t)) \<and>
     (\<forall>s t. md_sips (core_md k) s = Some t \<longrightarrow> s < core_next k \<and> (\<not> sp_negotiated t \<longrightarrow> fresh_call t)) \<and>
     core_next k \<noteq> NULL"

lemma core_ok_transaction:
  "core_ok k \<Longrightarrow> smap_get (core_sipTransactions k) key = Some s \<Longrightarrow> s \<noteq> NULL \<Longrightarrow>
     \<exists>t. md_sips (core_md k) s = Some t \<and> sp_callId t = key"
  unfolding core_ok_def by blast

lemma core_ok_connection:
  "core_ok k \<Longrightarrow> smap_get (core_sipConnections k) key = Some s \<Longrightarrow> s \<noteq> NULL \<Longrightarrow>
     \<exists>t. md_sips (core_md k) s = Some t \<and> sp_connectionId t = key \<and> sp_negotiated t"
  unfolding core_ok_def by blast

lemma core_ok_call:
  "core_ok k \<Longrightarrow> md_sips (core_md k) s = Some t \<Longrightarrow> s < core_next k \<and> (\<not> sp_negotiated t \<longrightarrow> fresh_call t)"
  unfolding core_ok_def by blast

subsection \<open>Changes that keep every call what it is\<close>

definition same_id :: "siptx \<Rightarrow> siptx \<Rightarrow> bool" where
  "same_id t t' \<longleftrightarrow> sp_callId t' = sp_callId t \<and> sp_connectionId t' = sp_connectionId t \<and>
     sp_negotiated t' = sp_negotiated t \<and> (fresh_call t \<longrightarrow> fresh_call t')"

definition md_ids :: "media \<Rightarrow> media \<Rightarrow> bool" where
  "md_ids md md' \<longleftrightarrow> (\<forall>x. rel_option same_id (md_sips md x) (md_sips md' x))"

lemma same_id_refl [simp]: "same_id t t"
  by (simp add: same_id_def)

lemma same_id_trans: "same_id a b \<Longrightarrow> same_id b c \<Longrightarrow> same_id a c"
  by (simp add: same_id_def)

lemma md_ids_same: "md_sips md' = md_sips md \<Longrightarrow> md_ids md md'"
  by (simp add: md_ids_def option.rel_refl)

lemma md_ids_refl [simp]: "md_ids md md"
  by (simp add: md_ids_same)

lemma same_id_option_trans:
  "rel_option same_id x y \<Longrightarrow> rel_option same_id y z \<Longrightarrow> rel_option same_id x z"
  by (cases x; cases y; cases z) (auto intro: same_id_trans)

lemma md_ids_trans: "md_ids a b \<Longrightarrow> md_ids b c \<Longrightarrow> md_ids a c"
  unfolding md_ids_def using same_id_option_trans by metis

lemma md_ids_Some: "md_ids md md' \<Longrightarrow> md_sips md s = Some t \<Longrightarrow> \<exists>t'. md_sips md' s = Some t' \<and> same_id t t'"
  unfolding md_ids_def by (metis option_rel_Some1)

lemma md_ids_Some': "md_ids md md' \<Longrightarrow> md_sips md' s = Some t' \<Longrightarrow> \<exists>t. md_sips md s = Some t \<and> same_id t t'"
  unfolding md_ids_def by (metis option_rel_Some2)

lemma ids_putSip: "md_sips md s = Some t \<Longrightarrow> same_id t t' \<Longrightarrow> md_ids md (putSip s t' md)"
  by (simp add: md_ids_def option.rel_refl)

text \<open>A map in which only NULL entries may have appeared.\<close>

definition same_entries :: "('k::linorder, ptr) smap \<Rightarrow> ('k, ptr) smap \<Rightarrow> bool" where
  "same_entries m m' \<longleftrightarrow> (smap_ok m \<longrightarrow> smap_ok m' \<and>
     (\<forall>key s. s \<noteq> NULL \<longrightarrow> (smap_get m' key = Some s \<longleftrightarrow> smap_get m key = Some s)))"

lemma same_entries_refl [simp]: "same_entries m m"
  by (simp add: same_entries_def)

lemma same_entries_trans: "same_entries a b \<Longrightarrow> same_entries b c \<Longrightarrow> same_entries a c"
  by (auto simp: same_entries_def)

lemma same_entries_index: "same_entries m (snd (smap_index NULL key m))"
  by (auto simp: same_entries_def)

definition core_ids :: "core \<Rightarrow> core \<Rightarrow> bool" where
  "core_ids k k' \<longleftrightarrow> md_ids (core_md k) (core_md k') \<and>
     same_entries (core_sipTransactions k) (core_sipTransactions k') \<and>
     same_entries (core_sipConnections k) (core_sipConnections k') \<and> core_next k \<le> core_next k'"

lemma core_ids_refl [simp]: "core_ids k k"
  by (simp add: core_ids_def)

lemma core_ids_trans: "core_ids a b \<Longrightarrow> core_ids b c \<Longrightarrow> core_ids a c"
  by (auto simp: core_ids_def intro: md_ids_trans same_entries_trans)

lemma core_ok_ids:
  assumes ok: "core_ok k" and i: "core_ids k k'"
  shows "core_ok k'"
proof -
  have m: "smap_ok (core_sipTransactions k)" "smap_ok (core_sipConnections k)" using ok by (simp_all add: core_ok_def)
  have md: "md_ids (core_md k) (core_md k')" and n: "core_next k \<le> core_next k'" using i by (simp_all add: core_ids_def)
  have e: "smap_ok (core_sipTransactions k')" "smap_ok (core_sipConnections k')"
      "\<And>key s. s \<noteq> NULL \<Longrightarrow> smap_get (core_sipTransactions k') key = Some s \<longleftrightarrow> smap_get (core_sipTransactions k) key = Some s"
      "\<And>key s. s \<noteq> NULL \<Longrightarrow> smap_get (core_sipConnections k') key = Some s \<longleftrightarrow> smap_get (core_sipConnections k) key = Some s"
    using i m unfolding core_ids_def same_entries_def by blast+
  have 1: "\<exists>t. md_sips (core_md k') s = Some t \<and> sp_callId t = key"
    if "smap_get (core_sipTransactions k') key = Some s" "s \<noteq> NULL" for key s
    using core_ok_transaction [OF ok] e(3) that md_ids_Some [OF md] unfolding same_id_def by metis
  have 2: "\<exists>t. md_sips (core_md k') s = Some t \<and> sp_connectionId t = key \<and> sp_negotiated t"
    if "smap_get (core_sipConnections k') key = Some s" "s \<noteq> NULL" for key s
    using core_ok_connection [OF ok] e(4) that md_ids_Some [OF md] unfolding same_id_def by metis
  have 3: "s < core_next k' \<and> (\<not> sp_negotiated t \<longrightarrow> fresh_call t)" if "md_sips (core_md k') s = Some t" for s t
    using md_ids_Some' [OF md that] core_ok_call [OF ok] n unfolding same_id_def by fastforce
  have "core_next k' \<noteq> NULL" using n ok by (simp add: core_ok_def)
  with e(1,2) 1 2 3 show ?thesis unfolding core_ok_def by blast
qed

subsection \<open>The end of a call\<close>

lemma core_ok_forget:
  assumes ok: "core_ok k" and t: "md_sips (core_md k) s = Some t"
    and k': "core_sipTransactions k' = smap_erase (sp_callId t) (core_sipTransactions k)"
      "core_sipConnections k' = smap_erase (sp_connectionId t) (core_sipConnections k)"
      "core_next k' = core_next k" "md_sips (core_md k') = (md_sips (core_md k))(s := None)"
  shows "core_ok k'"
proof -
  have m: "smap_ok (core_sipTransactions k)" "smap_ok (core_sipConnections k)" using ok by (simp_all add: core_ok_def)
  have 1: "\<exists>t. md_sips (core_md k') x = Some t \<and> sp_callId t = key"
    if "smap_get (core_sipTransactions k') key = Some x" "x \<noteq> NULL" for key x
  proof -
    have "key \<noteq> sp_callId t" "smap_get (core_sipTransactions k) key = Some x"
      using that k'(1) by (auto split: if_splits)
    with core_ok_transaction [OF ok this(2) that(2)] t k'(4) show ?thesis by auto
  qed
  have 2: "\<exists>t. md_sips (core_md k') x = Some t \<and> sp_connectionId t = key \<and> sp_negotiated t"
    if "smap_get (core_sipConnections k') key = Some x" "x \<noteq> NULL" for key x
  proof -
    have "key \<noteq> sp_connectionId t" "smap_get (core_sipConnections k) key = Some x"
      using that k'(2) by (auto split: if_splits)
    with core_ok_connection [OF ok this(2) that(2)] t k'(4) show ?thesis by auto
  qed
  have 3: "x < core_next k' \<and> (\<not> sp_negotiated u \<longrightarrow> fresh_call u)" if "md_sips (core_md k') x = Some u" for x u
    using that k'(3,4) core_ok_call [OF ok, of x u] by (auto split: if_splits)
  show ?thesis
    using m k' 1 2 3 ok unfolding core_ok_def by auto
qed

lemma core_ok_reject:
  assumes ok: "core_ok k" and r: "reject_call err s k = Val k'"
  shows "core_ok k'"
proof -
  from r obtain t where t: "md_sips (core_md k) s = Some t"
    and k': "k' = (forget_call t (tell_sip s (SipReject err) k))\<lparr>core_md := (core_md k)\<lparr>md_sips := (md_sips (core_md k))(s := None)\<rparr>\<rparr>"
    by (auto simp: reject_call_def core_delete_sip_def cpp_bind_Val forget_call_def tell_sip_def deleteSip_def split: if_splits)
  show ?thesis by (rule core_ok_forget [OF ok t]) (simp_all add: k' forget_call_def tell_sip_def)
qed

lemma leave_cfw_same:
  "leave_cfw t k = Val k' \<Longrightarrow> \<exists>st. k' = k\<lparr>core_cfw := st\<rparr>"
  by (auto simp: leave_cfw_def cpp_bind_Val split: if_splits intro: exI [of _ "core_cfw k"])

lemma lookup_ids: "lookup_call callId k = (s, k') \<Longrightarrow> core_ids k k'"
  using same_entries_index [of "core_sipTransactions k" callId]
  by (auto simp: lookup_call_def core_ids_def split_beta)

lemma lookup_live:
  assumes "core_ok k" and "lookup_call callId k = (s, k')" and "s \<noteq> NULL"
  shows "k' = k \<and> smap_get (core_sipTransactions k) callId = Some s \<and>
     (\<exists>t. md_sips (core_md k) s = Some t \<and> sp_callId t = callId)"
  using assms core_ok_transaction [OF assms(1), of callId s]
  by (auto simp: lookup_call_def smap_index_def split: option.splits)

lemma core_ok_endDialog:
  assumes ok: "core_ok k" and e: "core_endDialog callId k = Val k'"
  shows "core_ok k'"
proof -
  obtain s k1 where l: "lookup_call callId k = (s, k1)" by fastforce
  have ok1: "core_ok k1" by (rule core_ok_ids [OF ok lookup_ids [OF l]])
  show ?thesis
  proof (cases "s = NULL")
    case True
    with e l ok1 show ?thesis by (simp add: core_endDialog_def)
  next
    case False
    with e l obtain t k2 where t: "md_sips (core_md k1) s = Some t" and c: "leave_cfw t k1 = Val k2"
      and k': "k' = (forget_call t k2)\<lparr>core_md := putSip s (sendBye t) (core_md k2)\<rparr>"
      by (auto simp: core_endDialog_def cpp_bind_Val)
    obtain st where k2: "k2 = k1\<lparr>core_cfw := st\<rparr>" using leave_cfw_same [OF c] by blast
    have m: "smap_ok (core_sipTransactions k1)" "smap_ok (core_sipConnections k1)" using ok1 by (simp_all add: core_ok_def)
    let ?k = "k1\<lparr>core_cfw := st, core_md := putSip s (sendBye t) (core_md k1)\<rparr>"
    have "core_ids k1 ?k"
      using ids_putSip [OF t, of "sendBye t"] by (simp add: core_ids_def same_id_def sendBye_def fresh_call_def quiet_call_def)
    then have "core_ok ?k" by (rule core_ok_ids [OF ok1])
    then show ?thesis using m by (auto simp: core_ok_def k' k2 forget_call_def split: if_splits)
  qed
qed

lemma deleteCp_sips: "deleteCp cp md = Val md' \<Longrightarrow> md_sips md' = md_sips md"
  by (auto simp: deleteCp_def cpp_bind_Val)

lemma for_each_sips:
  assumes "\<And>p s s'. f p s = Val s' \<Longrightarrow> md_sips s' = md_sips s" and "for_each f ps md = Val md'"
  shows "md_sips md' = md_sips md"
  by (rule for_each_invariant [where I = "\<lambda>x. md_sips x = md_sips md", OF _ _ assms(2)])
    (use assms(1) in auto)

lemma deleteConnection_sips: "deleteConnection n p md = Val md' \<Longrightarrow> md_sips md' = md_sips md"
proof (induction n arbitrary: p md md')
  case (Suc n)
  have f: "for_each (\<lambda>q s. if 0 < q then deleteConnection n q s else Val s) qs s = Val s' \<Longrightarrow>
      md_sips s' = md_sips s" for qs s s'
    by (rule for_each_sips [of "\<lambda>q s. if 0 < q then deleteConnection n q s else Val s"])
      (use Suc.IH in \<open>auto split: if_splits\<close>)
  from Suc.prems show ?case
    by (auto simp: cpp_bind_Val dest!: deleteCp_sips f split: if_splits)
qed simp

lemma core_ok_terminated:
  assumes ok: "core_ok k" and e: "onTerminated msg k = Val k'"
  shows "core_ok k'"
proof (cases msg)
  case (Some callId)
  obtain s k1 where l: "lookup_call callId k = (s, k1)" by fastforce
  have ok1: "core_ok k1" by (rule core_ok_ids [OF ok lookup_ids [OF l]])
  show ?thesis
  proof (cases "s = NULL")
    case True
    with e l ok1 Some show ?thesis by (simp add: onTerminated_def)
  next
    case False
    with e l Some obtain t k2 where t: "md_sips (core_md k1) s = Some t" and c: "leave_cfw t k1 = Val k2"
      and r: "(let k3 = forget_call t k2;
           (p, m) = smap_index NULL (sp_connectionId t) (core_endpointConnections k3);
           k4 = k3\<lparr>core_endpointConnections := m\<rparr> in
       cpp_bind (unsetSipManager NULL '''' t (md_rtps (core_md k4))) (\<lambda>(t', h, _).
       let md = putSip s t' ((core_md k4)\<lparr>md_rtps := h\<rparr>) in
       cpp_bind (if p \<noteq> NULL then
           cpp_bind (deleteConnection 2 p md) (\<lambda>md1.
             Val (k4\<lparr>core_md := md1,
                     core_endpointConnections := smap_erase (sp_connectionId t) (core_endpointConnections k4)\<rparr>))
         else Val (k4\<lparr>core_md := md\<rparr>))
         (core_delete_sip s))) = Val k'"
      by (auto simp: onTerminated_def cpp_bind_Val)
    obtain st where k2: "k2 = k1\<lparr>core_cfw := st\<rparr>" using leave_cfw_same [OF c] by blast
    obtain p m where pm: "smap_index NULL (sp_connectionId t) (core_endpointConnections (forget_call t k2)) = (p, m)"
      by fastforce
    from r [unfolded Let_def pm prod.case] have "\<exists>k5. core_delete_sip s k5 = Val k' \<and>
        (\<exists>t'. md_sips (core_md k5) = (md_sips (core_md k1))(s \<mapsto> t')) \<and> core_next k5 = core_next k1 \<and>
        core_sipTransactions k5 = smap_erase (sp_callId t) (core_sipTransactions k1) \<and>
        core_sipConnections k5 = smap_erase (sp_connectionId t) (core_sipConnections k1)"
      by (auto simp: cpp_bind_Val forget_call_def k2 dest!: deleteConnection_sips split: if_splits)
        ((rule exI, rule conjI, assumption, simp, blast?)+)
    then obtain k5 t' where
      k5: "md_sips (core_md k5) = (md_sips (core_md k1))(s \<mapsto> t')" "core_next k5 = core_next k1"
        "core_sipTransactions k5 = smap_erase (sp_callId t) (core_sipTransactions k1)"
        "core_sipConnections k5 = smap_erase (sp_connectionId t) (core_sipConnections k1)"
      and d: "core_delete_sip s k5 = Val k'" by blast
    from d obtain md2 where "deleteSip s (core_md k5) = Val md2" and k': "k' = k5\<lparr>core_md := md2\<rparr>"
      by (auto simp: core_delete_sip_def cpp_bind_Val)
    then have "md_sips md2 = (md_sips (core_md k1))(s := None)"
      using k5(1) by (auto simp: deleteSip_def cpp_bind_Val split: if_splits)
    then show ?thesis
      by (intro core_ok_forget [OF ok1 t]) (simp_all add: k' k5)
  qed
qed (use assms in \<open>simp add: onTerminated_def\<close>)

subsection \<open>The beginning of a call\<close>

lemma core_ok_newSession:
  assumes ok: "core_ok k"
  shows "core_ok (onNewSession iv k)"
proof (cases "core_acceptCalls k \<and> iv_user iv = core_sipName k")
  case False
  then have "onNewSession iv k = tell_sip (core_next k) (SipReject 404) k" by (auto simp: onNewSession_def Let_def)
  then show ?thesis using ok by (simp add: core_ok_def tell_sip_def)
next
  case True
  let ?s = "core_next k" and ?k = "onNewSession iv k"
  have m: "smap_ok (core_sipTransactions k)" "smap_ok (core_sipConnections k)" using ok by (simp_all add: core_ok_def)
  have k: "core_sipTransactions ?k = smap_put (iv_callId iv) ?s (core_sipTransactions k)"
      "core_sipConnections ?k = core_sipConnections k" "core_next ?k = Suc ?s"
      "md_sips (core_md ?k) = (md_sips (core_md k))(?s \<mapsto> newSip (iv_callId iv))"
    using True by (simp_all add: onNewSession_def putCall_def Let_def)
  have n: "md_sips (core_md k) ?s = None" using core_ok_call [OF ok, of ?s] by fastforce
  have live: "x \<noteq> ?s" if "md_sips (core_md k) x = Some t" for x t using that n by auto
  have 1: "\<exists>t. md_sips (core_md ?k) x = Some t \<and> sp_callId t = key"
    if "smap_get (core_sipTransactions ?k) key = Some x" "x \<noteq> NULL" for key x
    using that m core_ok_transaction [OF ok, of key x] live unfolding k
    by (auto simp: newSip_def split: if_splits)
  have 2: "\<exists>t. md_sips (core_md ?k) x = Some t \<and> sp_connectionId t = key \<and> sp_negotiated t"
    if "smap_get (core_sipConnections ?k) key = Some x" "x \<noteq> NULL" for key x
    using core_ok_connection [OF ok that [unfolded k]] live unfolding k by auto
  have 3: "x < core_next ?k \<and> (\<not> sp_negotiated t \<longrightarrow> fresh_call t)" if "md_sips (core_md ?k) x = Some t" for x t
    using that core_ok_call [OF ok, of x t] unfolding k
    by (auto simp: newSip_def fresh_call_def quiet_call_def split: if_splits)
  from k m 1 2 3 show ?thesis unfolding core_ok_def by auto
qed

lemma call_local_ids:
  assumes l: "call_local s k k'" and t: "md_sips (core_md k) s = Some t" "sp_negotiated t"
  shows "core_ids k k'"
proof -
  from call_local_call [OF l t(1)] obtain t' where t': "md_sips (core_md k') s = Some t'" "same_call t t'" by blast
  have "rel_option same_id (md_sips (core_md k) x) (md_sips (core_md k') x)" for x
  proof (cases "x = s")
    case True
    have "same_id t t'" using t'(2) t(2) by (simp add: same_id_def same_call_def fresh_call_def)
    with True t t' show ?thesis by simp
  next
    case False
    with l show ?thesis by (simp add: call_local_def md_local_def option.rel_refl)
  qed
  with l show ?thesis by (simp add: core_ids_def md_ids_def call_local_def)
qed

lemma setTags_ok:
  assumes ok: "core_ok k" and t: "md_sips (core_md k) s = Some t" "\<not> sp_negotiated t" and s: "s \<noteq> NULL"
    and t': "sp_callId t' = sp_callId t" "sp_negotiated t'"
    and k': "md_sips (core_md k') = (md_sips (core_md k))(s \<mapsto> t')" "core_next k' = core_next k"
      "core_sipTransactions k' = core_sipTransactions k"
      "core_sipConnections k' = smap_put (sp_connectionId t') s (core_sipConnections k)"
  shows "core_ok k'"
proof -
  have m: "smap_ok (core_sipTransactions k)" "smap_ok (core_sipConnections k)" using ok by (simp_all add: core_ok_def)
  have 1: "\<exists>u. md_sips (core_md k') x = Some u \<and> sp_callId u = key"
    if "smap_get (core_sipTransactions k') key = Some x" "x \<noteq> NULL" for key x
    using core_ok_transaction [OF ok that [unfolded k']] t t'(1) by (auto simp: k')
  have 2: "\<exists>u. md_sips (core_md k') x = Some u \<and> sp_connectionId u = key \<and> sp_negotiated u"
    if "smap_get (core_sipConnections k') key = Some x" "x \<noteq> NULL" for key x
  proof (cases "key = sp_connectionId t'")
    case True
    with that m t'(2) show ?thesis by (simp add: k')
  next
    case False
    with that m have "smap_get (core_sipConnections k) key = Some x" by (simp add: k')
    with core_ok_connection [OF ok this that(2)] t show ?thesis by (auto simp: k')
  qed
  have 3: "x < core_next k' \<and> (\<not> sp_negotiated u \<longrightarrow> fresh_call u)" if "md_sips (core_md k') x = Some u" for x u
    using that core_ok_call [OF ok] t t'(2) by (auto simp: k' split: if_splits)
  from k' m 1 2 3 ok show ?thesis unfolding core_ok_def by auto
qed

lemma core_ok_negotiate:
  assumes ok: "core_ok k" and t: "md_sips (core_md k) s = Some t" "\<not> sp_negotiated t" and s: "s \<noteq> NULL"
    and n: "negotiate env iv s (setNegotiated t) (putCall s (setNegotiated t) k) = Val k'"
  shows "core_ok k'"
proof -
  let ?t = "setTags (iv_fromTag iv) (env_localTag env) (setNegotiated t)"
  let ?k = "(putCall s ?t (tell_sip s (SipProvisional 100) (putCall s (setNegotiated t) k)))
      \<lparr>core_sipConnections := smap_put (sp_connectionId ?t) s (core_sipConnections k)\<rparr>"
  let ?off = "\<lparr>of_ip = '''', of_cfwId = '''', of_err = 200, of_media = [], of_core = ?k\<rparr>"
  from n obtain off where o: "offer_media env (iv_callId iv) s (iv_media iv) ?off = Val off"
    and e: "(if of_err off \<noteq> 200 then reject_call (of_err off) s (of_core off) else answer_call s off) = Val k'"
    by (auto simp: negotiate_def Let_def cpp_bind_Val putCall_def tell_sip_def)
  have f: "fresh_call t" using core_ok_call [OF ok t(1)] t(2) by blast
  have ts: "md_sips (core_md ?k) s = Some ?t" "quiet_call ?t" "core_next ?k \<noteq> NULL" "sp_negotiated ?t"
    using f ok by (simp_all add: putCall_def setTags_def setNegotiated_def fresh_call_def quiet_call_def tell_sip_def core_ok_def)
  have "core_ok ?k"
    by (rule setTags_ok [OF ok t s, of ?t]) (simp_all add: setTags_def setNegotiated_def putCall_def tell_sip_def)
  moreover have l: "call_local s ?k (of_core off)" using offer_media_local [OF s _ _ _ o] ts by simp
  ultimately have ok1: "core_ok (of_core off)" using call_local_ids ts core_ok_ids by blast
  show ?thesis
  proof (cases "of_err off = 200")
    case False
    with e core_ok_reject [OF ok1] show ?thesis by simp
  next
    case True
    obtain t1 where t1: "md_sips (core_md (of_core off)) s = Some t1" "sp_negotiated t1"
      using call_local_call [OF l ts(1)] ts(4) by (auto simp: same_call_def)
    let ?t' = "fst (setSipManager (md_core (core_md (of_core off))) '''' t1)"
    have "same_id t1 ?t'" using t1(2) by (simp add: same_id_def setSipManager_def Let_def fresh_call_def)
    from ids_putSip [OF t1(1) this] have "core_ids (of_core off) k'"
      using e True t1(1) s by (auto simp: answer_call_def Let_def tell_sip_def putCall_def core_ids_def)
    then show ?thesis by (rule core_ok_ids [OF ok1])
  qed
qed

lemma core_ok_offer:
  assumes ok: "core_ok k" and o: "onOffer env iv k = Val k'"
  shows "core_ok k'"
proof -
  obtain s k1 where l: "lookup_call (iv_callId iv) k = (s, k1)" by fastforce
  have ok1: "core_ok k1" by (rule core_ok_ids [OF ok lookup_ids [OF l]])
  show ?thesis
  proof (cases "s = NULL")
    case True
    with o l ok1 show ?thesis by (simp add: onOffer_def)
  next
    case False
    with o l obtain t where t: "md_sips (core_md k1) s = Some t"
      and r: "(if sp_negotiated t then Val k1
        else let t1 = setNegotiated t; k2 = putCall s t1 k1 in
          if \<not> host_allowed env (core_restrict k1) (iv_contact iv) then reject_call 403 s k2
          else negotiate env iv s t1 k2) = Val k'"
      by (auto simp: onOffer_def cpp_bind_Val)
    let ?k = "putCall s (setNegotiated t) k1"
    show ?thesis
    proof (cases "sp_negotiated t")
      case True
      with r ok1 show ?thesis by simp
    next
      case new: False
      show ?thesis
      proof (cases "host_allowed env (core_restrict k1) (iv_contact iv)")
        case True
        with r new have "negotiate env iv s (setNegotiated t) ?k = Val k'" by (simp add: Let_def)
        from core_ok_negotiate [OF ok1 t new False this] show ?thesis .
      next
        case no: False
        with r new have rj: "reject_call 403 s ?k = Val k'" by (simp add: Let_def)
        have "k' = (forget_call t (tell_sip s (SipReject 403) k1))\<lparr>core_md := (core_md k1)\<lparr>md_sips := (md_sips (core_md k1))(s := None)\<rparr>\<rparr>"
          using rj False t by (auto simp: reject_call_def core_delete_sip_def cpp_bind_Val forget_call_def
              tell_sip_def deleteSip_def putCall_def setNegotiated_def putSip_def split: if_splits)
        then show ?thesis by (intro core_ok_forget [OF ok1 t]) (simp_all add: forget_call_def tell_sip_def)
      qed
    qed
  qed
qed

subsection \<open>Requests of the packages\<close>

lemma ids_negotiated:
  "md_sips md s = Some t \<Longrightarrow> sp_negotiated t \<Longrightarrow> sp_callId t' = sp_callId t \<Longrightarrow>
     sp_connectionId t' = sp_connectionId t \<Longrightarrow> sp_negotiated t' \<Longrightarrow> md_ids md (putSip s t' md)"
  by (rule ids_putSip) (auto simp: same_id_def fresh_call_def)

lemma getRtpChannel_ids:
  "getRtpChannel l t = Val (t', r) \<Longrightarrow> sp_callId t' = sp_callId t \<and> sp_connectionId t' = sp_connectionId t \<and>
     sp_negotiated t' = sp_negotiated t"
  using chanByLabel_same [of t] by (auto simp: getRtpChannel_def same_call_def split_beta split: if_splits list.splits)

lemma setSipManager_ids:
  "sp_callId (fst (setSipManager q l t)) = sp_callId t \<and>
   sp_connectionId (fst (setSipManager q l t)) = sp_connectionId t \<and>
   sp_negotiated (fst (setSipManager q l t)) = sp_negotiated t"
  using chanByLabel_same [of "t\<lparr>sp_active := True\<rparr>" l]
  by (auto simp: setSipManager_def Let_def split_beta same_call_def)

lemma setOwner_sips: "setOwner p q md = Val (md', n) \<Longrightarrow> md_sips md' = md_sips md"
  by (auto simp: setOwner_def cpp_bind_Val split: if_splits)

lemma addOwned_sips: "addOwned p q md = Val (md', n) \<Longrightarrow> md_sips md' = md_sips md"
  by (auto simp: addOwned_def cpp_bind_Val split: if_splits)

lemma removeOwned_sips: "removeOwned p q md = Val (md', n) \<Longrightarrow> md_sips md' = md_sips md"
  by (auto simp: removeOwned_def cpp_bind_Val split: if_splits)

lemma setLocal_sips: "setLocal p sip r md = Val md' \<Longrightarrow> md_sips md' = md_sips md"
  by (auto simp: setLocal_def cpp_bind_Val)

lemma newConnection_sips [simp]: "md_sips (newConnection p cp i l md) = md_sips md"
  by (simp add: newConnection_def)

lemma wrap_labels_ids:
  assumes "md_sips md s = Some t" and "sp_negotiated t" and "wrap_labels connId s w ls md n = Val (md', n')"
  shows "md_ids md md' \<and> n \<le> n'"
  using assms
proof (induction ls arbitrary: md t n)
  case (Cons l ls)
  from Cons.prems(3) obtain md1 i1 md2 i2 t0 t1 r md3 where
    1: "setOwner n w (newConnection n (n + 1) connId l md) = Val (md1, i1)" "addOwned w n md1 = Val (md2, i2)"
    and t0: "md_sips md2 s = Some t0" "getRtpChannel l t0 = Val (t1, r)"
    and 2: "setLocal n s r (putSip s t1 md2) = Val md3"
    and 3: "wrap_labels connId s w ls (putSip s (fst (setSipManager n l t1)) md3) (n + 2) = Val (md', n')"
    by (auto simp: cpp_bind_Val)
  let ?t = "fst (setSipManager n l t1)" and ?md = "putSip s (fst (setSipManager n l t1)) md3"
  have s2: "md_sips md2 = md_sips md" using setOwner_sips [OF 1(1)] addOwned_sips [OF 1(2)] by simp
  have s3: "md_sips md3 = (md_sips md)(s \<mapsto> t1)" using setLocal_sips [OF 2] s2 by simp
  have "t0 = t" using t0(1) s2 Cons.prems(1) by simp
  then have t: "sp_callId ?t = sp_callId t" "sp_connectionId ?t = sp_connectionId t" "sp_negotiated ?t"
    using getRtpChannel_ids [OF t0(2)] setSipManager_ids [of n l t1] Cons.prems(2) by simp_all
  have "md_sips ?md = md_sips (putSip s ?t md)" using s3 by simp
  then have "md_ids md ?md" using ids_negotiated [OF Cons.prems(1,2) t] by (simp add: md_ids_def)
  moreover have "md_ids ?md md' \<and> n + 2 \<le> n'" by (rule Cons.IH [OF _ t(3) 3]) simp
  ultimately show ?case using md_ids_trans by auto
qed simp

lemma increaseCounter_sips: "increaseCounter n p md = Val md' \<Longrightarrow> md_sips md' = md_sips md"
  using sides_count [of True n p md md'] by (simp add: count_op_def same_sides_def)

lemma decreaseCounter_sips: "decreaseCounter n p md = Val md' \<Longrightarrow> md_sips md' = md_sips md"
  using sides_count [of False n p md md'] by (simp add: count_op_def same_sides_def)

lemma newEndpoint_ids:
  assumes "md_sips (core_md k) s = Some t" and "sp_negotiated t" and "newEndpoint connId s k = Val (p, k')"
  shows "core_ids k k'"
proof -
  from assms(1,3) obtain md n where
    w: "wrap_labels connId s (core_next k) (sp_rtpLabels t) (newConnection (core_next k) (core_next k + 1) connId '''' (core_md k))
       (core_next k + 2) = Val (md, n)"
    and k': "k' = k\<lparr>core_md := md, core_next := n,
       core_endpointConnections := smap_put connId (core_next k) (core_endpointConnections k)\<rparr>"
    by (auto simp: newEndpoint_def Let_def cpp_bind_Val)
  have "md_sips (newConnection (core_next k) (core_next k + 1) connId '''' (core_md k)) s = Some t" using assms(1) by simp
  from wrap_labels_ids [OF this assms(2) w] show ?thesis
    by (simp add: core_ids_def k' md_ids_def)
qed

lemma getConnectionEndpoint_ids:
  assumes ok: "core_ok k" and g: "getConnectionEndpoint connId k = Val (p, k')"
  shows "core_ids k k'"
proof -
  obtain s m where sm: "smap_index NULL connId (core_sipConnections k) = (s, m)" by fastforce
  let ?k1 = "k\<lparr>core_sipConnections := m\<rparr>"
  have i1: "core_ids k ?k1"
    using same_entries_index [of "core_sipConnections k" connId] sm by (simp add: core_ids_def)
  show ?thesis
  proof (cases "s = NULL")
    case True
    with g sm i1 show ?thesis by (simp add: getConnectionEndpoint_def)
  next
    case False
    then have "smap_get (core_sipConnections k) connId = Some s"
      using sm by (auto simp: smap_index_def split: option.splits)
    from core_ok_connection [OF ok this False] obtain t where t: "md_sips (core_md k) s = Some t" "sp_negotiated t" by blast
    obtain e m2 where em: "smap_index NULL connId (core_endpointConnections k) = (e, m2)" by fastforce
    let ?k2 = "?k1\<lparr>core_endpointConnections := m2\<rparr>"
    have i2: "core_ids k ?k2" using i1 by (simp add: core_ids_def)
    from g sm em False obtain k3 md where
      3: "(if e = NULL then newEndpoint connId s ?k2 else Val (e, ?k2)) = Val (p, k3)"
      and 4: "increaseCounter 2 p (core_md k3) = Val md" "k' = k3\<lparr>core_md := md\<rparr>"
      by (auto simp: getConnectionEndpoint_def Let_def cpp_bind_Val)
    have "core_ids ?k2 k3" using 3 newEndpoint_ids [of ?k2 s t] t by (auto split: if_splits)
    moreover have "core_ids k3 k'" using increaseCounter_sips [OF 4(1)] 4(2) by (simp add: core_ids_def md_ids_same)
    ultimately show ?thesis using i2 core_ids_trans by blast
  qed
qed

lemma getConference_ids: "core_ids k (snd (getConferenceEndpoint connId k))"
  by (simp add: getConferenceEndpoint_def split_beta core_ids_def)

lemma getConnection_ids:
  assumes ok: "core_ok k" and g: "cfw_getConnection bx conId k = Val (cp, k')"
  shows "core_ids k k'"
proof -
  have e: "core_ids k k1" if "getEndpoint bx conId k = Val (p, k1)" for p k1
  proof (cases "bx_match bx rx_endpoint conId")
    case None
    with that show ?thesis by (simp add: getEndpoint_def)
  next
    case (Some ms)
    show ?thesis
    proof (cases "sub ms 1 = ''''")
      case True
      with that Some show ?thesis using getConnectionEndpoint_ids [OF ok] by (simp add: getEndpoint_def)
    next
      case False
      with that Some getConference_ids [of k "sub ms 1"] show ?thesis
        by (simp add: getEndpoint_def)
    qed
  qed
  show ?thesis using g e by (auto simp: cfw_getConnection_def cpp_bind_Val split: if_splits)
qed

lemma createConference_ids: "cfw_createConference confId k = Val (cp, k') \<Longrightarrow> core_ids k k'"
proof -
  assume a: "cfw_createConference confId k = Val (cp, k')"
  have "core_ids k (snd (core_createConference confId k))"
    using same_entries_index [of "core_sipConnections k" confId]
    by (auto simp: core_createConference_def getConferenceEndpoint_def Let_def split_beta core_ids_def
        newConference_def md_ids_same)
  with a show ?thesis by (auto simp: cfw_createConference_def Let_def split_beta cpp_bind_Val split: if_splits)
qed

lemma dropConnection_sips: "cfw_dropConnection cp md = Val md' \<Longrightarrow> md_sips md' = md_sips md"
  by (auto simp: cfw_dropConnection_def on_endpoint_def getEndpointOf_def virtual_call_def cpp_bind_Val
      dest: decreaseCounter_sips split: if_splits)

subsection \<open>Activity of the media\<close>

lemma clearDtmf_sips: "clearDtmfBuffer n p md = Val md' \<Longrightarrow> md_sips md' = md_sips md"
proof (induction n arbitrary: p md md')
  case (Suc n)
  have f: "for_each (clearDtmfBuffer n) ps s = Val s' \<Longrightarrow> md_sips s' = md_sips s" for ps s s'
    by (rule for_each_sips) (rule Suc.IH)
  from Suc.prems show ?case by (auto simp: cpp_bind_Val dest: f split: if_splits)
qed simp

lemma nextDtmf_sips: "getNextDtmfBuffer n p md = Val (md', t) \<Longrightarrow> md_sips md' = md_sips md"
proof (induction n arbitrary: p md md')
  case (Suc n)
  then show ?case by (auto simp: cpp_bind_Val split_beta split: if_splits)
qed simp

lemma relay_sips: "relay ev p r md = Val md' \<Longrightarrow> md_sips md' = md_sips md"
  by (auto simp: relay_def relay_up_def cpp_bind_Val split: if_splits dest!: cp_tell_stores)

lemma cp_close_sips: "cp_close a b cp md = Val md' \<Longrightarrow> md_sips md' = md_sips md"
  by (auto simp: cp_close_def cpp_bind_Val split_beta)

lemma payloadTypeChanged_sips: "conn_payloadTypeChanged p pt md = Val md' \<Longrightarrow> md_sips md' = md_sips md"
  by (auto simp: conn_payloadTypeChanged_def cpp_bind_Val split: if_splits)

lemma channelClosed_sips: "conn_channelClosed p md = Val md' \<Longrightarrow> md_sips md' = md_sips md"
  by (auto simp: conn_channelClosed_def cpp_bind_Val split: if_splits dest!: cp_close_sips)

lemma ep_step_sips: "ep_step md md' \<Longrightarrow> md_sips md' = md_sips md"
  by (induction rule: ep_step.induct)
    (auto dest: setLocal_sips addOwned_sips removeOwned_sips setOwner_sips clearDtmf_sips nextDtmf_sips
      increaseCounter_sips decreaseCounter_sips relay_sips payloadTypeChanged_sips channelClosed_sips
      simp: conn_incomingFrame_def conn_incomingDtmf_def conn_frameSent_def conn_channelLocked_def
        conn_channelUnlocked_def)

lemma sip_route_ids:
  assumes f: "\<And>m s s'. f m s = Val s' \<Longrightarrow> md_sips s' = md_sips s" and r: "sip_route f s r md = Val md'"
  shows "md_ids md md'"
proof -
  from r obtain t where t: "md_sips md s = Some t" by (auto simp: sip_route_def cpp_bind_Val)
  show ?thesis
  proof (cases "sp_active t")
    case False
    with r t show ?thesis by (simp add: sip_route_def cpp_bind_Val)
  next
    case True
    then have a: "same_id t (t\<lparr>sp_managers := m\<rparr>)" for m
      by (simp add: same_id_def fresh_call_def quiet_call_def)
    from r t True obtain ch :: rtp where ch: "(case smap_index [] (rtp_label ch) (sp_managers t) of (ms, m) \<Rightarrow>
         case ms of [] \<Rightarrow> Val (putSip s (t\<lparr>sp_managers := m\<rparr>) md)
               | mgr # _ \<Rightarrow> if mgr = md_core md then Val (putSip s (t\<lparr>sp_managers := m\<rparr>) md)
                     else f mgr (putSip s (t\<lparr>sp_managers := m\<rparr>) md)) = Val md'"
      unfolding sip_route_def by (auto simp: cpp_bind_Val Let_def simp del: smap_index_value)
    obtain ms m where "smap_index [] (rtp_label ch) (sp_managers t) = (ms, m)" by fastforce
    with ch f have "md_sips md' = md_sips (putSip s (t\<lparr>sp_managers := m\<rparr>) md)"
      by (auto simp del: put_simps split: list.splits if_splits)
    with ids_putSip [OF t a] show ?thesis by (simp add: md_ids_def)
  qed
qed

lemma sip_drop_ids:
  assumes "md_sips md s = Some t0" and "same_id t0 t" and "sip_drop_channel s label t md = Val md'"
  shows "md_ids md md'"
proof -
  from assms(3) obtain t' where "md_sips md' = md_sips (putSip s t' md)" and s: "sp_callId t' = sp_callId t"
      "sp_connectionId t' = sp_connectionId t" "sp_negotiated t' = sp_negotiated t" "fresh_call t \<longrightarrow> fresh_call t'"
    by (auto simp: sip_drop_channel_def Let_def cpp_bind_Val fresh_call_def quiet_call_def split: if_splits)
  moreover have "same_id t t'" using s by (simp add: same_id_def)
  ultimately show ?thesis
    using ids_putSip [OF assms(1) same_id_trans [OF assms(2)]] by (simp add: md_ids_def)
qed

lemma channelClosed_ids:
  assumes "sip_channelClosed s label md = Val md'"
  shows "md_ids md md'"
proof -
  from assms obtain t where t: "md_sips md s = Some t" by (auto simp: sip_channelClosed_def cpp_bind_Val)
  have i: "same_id t (t\<lparr>sp_active := False, sp_managers := m\<rparr>)" for m
    by (simp add: same_id_def fresh_call_def quiet_call_def)
  from assms t obtain m where "sip_drop_channel s label (t\<lparr>sp_active := False, sp_managers := m\<rparr>) md = Val md'"
    by (auto simp: sip_channelClosed_def cpp_bind_Val Let_def split: prod.splits list.splits if_splits)
  from sip_drop_ids [OF t i this] show ?thesis .
qed

lemma sip_note_ids: "sip_note s r n md = Val md' \<Longrightarrow> md_ids md md'"
  by (cases n) (auto elim!: sip_route_ids [rotated] channelClosed_ids dest: relay_sips payloadTypeChanged_sips
      simp: conn_incomingFrame_def conn_incomingDtmf_def conn_channelLocked_def conn_channelUnlocked_def)

lemma sip_notes_ids: "sip_notes s r ns md = Val md' \<Longrightarrow> md_ids md md'"
proof (induction ns arbitrary: md)
  case (Cons n ns)
  then show ?case by (auto simp: cpp_bind_Val dest!: sip_note_ids intro: md_ids_trans)
qed simp

lemma on_channel_ids: "on_channel r f md = Val md' \<Longrightarrow> md_ids md md'"
  by (auto simp: on_channel_def cpp_bind_Val dest!: sip_notes_ids intro: md_ids_trans simp: md_ids_def)

lemma channel_send_ids: "channel_send fs now tod f r md = Val md' \<Longrightarrow> md_ids md md'"
  by (auto simp: channel_send_def cpp_bind_Val dest!: sip_notes_ids simp: md_ids_def)

subsection \<open>All histories of the core\<close>

inductive core_step :: "core \<Rightarrow> core \<Rightarrow> bool" where
  NewSession: "core_step k (onNewSession iv k)"
| Offer: "onOffer env iv k = Val k' \<Longrightarrow> core_step k k'"
| Terminated: "onTerminated msg k = Val k' \<Longrightarrow> core_step k k'"
| EndDialog: "core_endDialog callId k = Val k' \<Longrightarrow> core_step k k'"
| Get: "cfw_getConnection bx conId k = Val (cp, k') \<Longrightarrow> core_step k k'"
| Create: "cfw_createConference confId k = Val (cp, k') \<Longrightarrow> core_step k k'"
| Drop: "cfw_dropConnection cp (core_md k) = Val md \<Longrightarrow> core_step k (k\<lparr>core_md := md\<rparr>)"
| Encode: "core_encode f dst tod k = Val (g, k') \<Longrightarrow> core_step k k'"
| Decode: "core_decode f tod k = Val (g, k') \<Longrightarrow> core_step k k'"
| Endpoint: "ep_step (core_md k) md \<Longrightarrow> core_step k (k\<lparr>core_md := md\<rparr>)"
| Receive: "receive_round r rs p tod (core_md k) = Val md \<Longrightarrow> core_step k (k\<lparr>core_md := md\<rparr>)"
| Dtmf: "receive_dtmf r tone (core_md k) = Val md \<Longrightarrow> core_step k (k\<lparr>core_md := md\<rparr>)"
| Send: "channel_send fs now tod f r (core_md k) = Val md \<Longrightarrow> core_step k (k\<lparr>core_md := md\<rparr>)"
| Close: "sip_channelClosed s label (core_md k) = Val md \<Longrightarrow> core_step k (k\<lparr>core_md := md\<rparr>)"

text \<open>The core after its constructor: no call, no endpoint, whatever the configuration says.\<close>

definition core_start :: "core \<Rightarrow> bool" where
  "core_start k \<longleftrightarrow> core_md k = noMedia \<and> core_sipTransactions k = [] \<and> core_sipConnections k = [] \<and>
     core_endpointConnections k = [] \<and> core_endpointConferences k = [] \<and> core_next k \<noteq> NULL"

inductive core_reach :: "core \<Rightarrow> bool" where
  Start: "core_start k \<Longrightarrow> core_reach k"
| Step: "core_reach k \<Longrightarrow> core_step k k' \<Longrightarrow> core_reach k'"

text \<open>Transcoding only touches the map of shared codecs.\<close>

lemma decode_plugins: "core_decode f tod k = Val (g, k') \<Longrightarrow> \<exists>m. k' = k\<lparr>core_plugins := m\<rparr>"
  by (auto simp: core_decode_def Let_def split_beta cpp_bind_Val split: option.splits if_splits
      intro: exI [of _ "core_plugins k"])

lemma encode_plugins:
  assumes "core_encode f dst tod k = Val (g, k')"
  shows "\<exists>m. k' = k\<lparr>core_plugins := m\<rparr>"
proof (cases f)
  case None
  with assms show ?thesis by (auto simp: core_encode_def intro: exI [of _ "core_plugins k"])
next
  case (Some fr)
  show ?thesis
  proof (cases "fr_format fr = dst")
    case True
    with assms Some show ?thesis by (auto simp: core_encode_def intro: exI [of _ "core_plugins k"])
  next
    case False
    with assms Some obtain r k1 where
      1: "(if fr_format fr \<noteq> MEDIACTRL_RAW then core_decode (Some fr) tod k else Val (Some fr, k)) = Val (r, k1)"
      and 2: "(case r of None \<Rightarrow> Val (None, k1)
          | Some raw \<Rightarrow>
              let (e, m) = smap_index None dst (core_plugins k1); k2 = k1\<lparr>core_plugins := m\<rparr> in
              case e of None \<Rightarrow> Val (None, k2)
              | Some cd \<Rightarrow> cpp_bind (cc_encode cd (Some raw) tod) (\<lambda>r. Val (r, k2))) = Val (g, k')"
      by (auto simp: core_encode_def cpp_bind_Val)
    have "\<exists>m. k1 = k\<lparr>core_plugins := m\<rparr>"
      using 1 decode_plugins [of "Some fr" tod k r k1]
      by (auto split: if_splits intro: exI [of _ "core_plugins k"])
    moreover have "\<exists>m. k' = k1\<lparr>core_plugins := m\<rparr>"
      using 2 by (cases r) (auto simp: Let_def split_beta cpp_bind_Val split: option.splits
          intro: exI [of _ "core_plugins k1"])
    ultimately show ?thesis by auto
  qed
qed

lemma plugins_ids: "core_ids k (k\<lparr>core_plugins := m\<rparr>)"
  by (simp add: core_ids_def)

lemma decode_ids: "core_decode f tod k = Val (g, k') \<Longrightarrow> core_ids k k'"
  using decode_plugins plugins_ids by metis

lemma encode_ids: "core_encode f dst tod k = Val (g, k') \<Longrightarrow> core_ids k k'"
  using encode_plugins plugins_ids by metis

lemma core_ids_md: "md_ids (core_md k) md \<Longrightarrow> core_ids k (k\<lparr>core_md := md\<rparr>)"
  by (simp add: core_ids_def)

lemma core_step_ok: "core_step k k' \<Longrightarrow> core_ok k \<Longrightarrow> core_ok k'"
  by (induction rule: core_step.induct)
    (auto intro: core_ok_newSession core_ok_offer core_ok_terminated core_ok_endDialog
      core_ok_ids [OF _ getConnection_ids] core_ok_ids [OF _ createConference_ids] core_ok_ids [OF _ encode_ids]
      core_ok_ids [OF _ decode_ids] core_ok_ids [OF _ core_ids_md] md_ids_same dropConnection_sips ep_step_sips
      on_channel_ids channel_send_ids channelClosed_ids simp: receive_round_def receive_dtmf_def)

lemma core_reach_ok: "core_reach k \<Longrightarrow> core_ok k"
  by (induction rule: core_reach.induct)
    (auto simp: core_ok_def core_start_def noMedia_def dest: core_step_ok)

text \<open>
  C8. The core never holds on to a call that is gone. After any history of SIP callbacks, package
  requests, transcoding and media activity, both maps of calls refer only to live calls: one that
  is filed under a Call-ID has that Call-ID, one that is filed under a connection identifier has
  that identifier and has been negotiated.
\<close>

theorem known_calls_are_live:
  assumes "core_reach k"
  shows "(\<forall>callId s. smap_get (core_sipTransactions k) callId = Some s \<and> s \<noteq> NULL \<longrightarrow>
       (\<exists>t. md_sips (core_md k) s = Some t \<and> sp_callId t = callId)) \<and>
     (\<forall>connId s. smap_get (core_sipConnections k) connId = Some s \<and> s \<noteq> NULL \<longrightarrow>
       (\<exists>t. md_sips (core_md k) s = Some t \<and> sp_connectionId t = connId \<and> sp_negotiated t))"
  using core_ok_transaction [OF core_reach_ok [OF assms]] core_ok_connection [OF core_reach_ok [OF assms]] by blast

definition start_core :: core where
  "start_core = demo_core\<lparr>core_md := noMedia, core_sipTransactions := [], core_sipConnections := []\<rparr>"

theorem known_calls_are_live_witness:
  "\<exists>t. md_sips (core_md (onNewSession (demo_invite []) start_core)) 20 = Some t \<and> sp_callId t = ''call''"
proof -
  let ?k = "onNewSession (demo_invite []) start_core"
  have "core_reach ?k"
    by (rule core_reach.Step [OF core_reach.Start core_step.NewSession])
      (simp add: core_start_def start_core_def demo_core_def)
  moreover have "smap_get (core_sipTransactions ?k) ''call'' = Some 20"
    by (simp add: onNewSession_def start_core_def demo_core_def demo_invite_def Let_def putCall_def smap_get_def)
  ultimately show ?thesis using known_calls_are_live [of ?k] by simp
qed

end
