(* ===== verification/ConfParser.thy ===== *)
theory ConfParser
  imports Prelude
begin

text \<open>
  \<open>src/MediaCtrl.h\<close> and \<open>src/MediaCtrl.cxx\<close>: \<open>MediaCtrlConfValue\<close> and the handlers that eXpat
  calls while it reads the configuration file, once for every value that is asked for. eXpat
  itself is not modelled: a well-formed file is a tree, and the handlers get the tree's events in
  document order, each piece of text as one chunk.
\<close>

subsection \<open>Documents\<close>

datatype xml =
    Elem string "(string \<times> string) list" "xml list"
  | Chunk string

datatype xml_event =
    StartElement string "(string \<times> string) list"
  | CharacterData string
  | EndElement string

fun events :: "xml \<Rightarrow> xml_event list" and events_of :: "xml list \<Rightarrow> xml_event list" where
  "events (Elem name atts cs) = StartElement name atts # events_of cs @ [EndElement name]"
| "events (Chunk s) = [CharacterData s]"
| "events_of [] = []"
| "events_of (x # xs) = events x @ events_of xs"

subsection \<open>The handlers\<close>

record conf_value =
  cv_scanonly :: bool
  cv_stop :: bool
  cv_inPackage :: bool
  cv_level :: int
  cv_package :: string
  cv_element :: string
  cv_attribute :: string
  cv_result :: string
  cv_childs :: "string list"

definition newConfValue :: "string \<Rightarrow> string \<Rightarrow> conf_value" where
  "newConfValue element attribute =
     \<lparr>cv_scanonly = (element = ''''), cv_stop = False, cv_inPackage = False, cv_level = 0, cv_package = '''',
      cv_element = element, cv_attribute = attribute, cv_result = '''', cv_childs = []\<rparr>"

definition setPackage :: "string \<Rightarrow> conf_value \<Rightarrow> conf_value" where
  "setPackage package v = v\<lparr>cv_package := package\<rparr>"

text \<open>The loop over the attributes.\<close>

fun find_att :: "string \<Rightarrow> (string \<times> string) list \<Rightarrow> string \<Rightarrow> string" where
  "find_att name [] res = res"
| "find_att name ((a, v) # atts) res = (if a = name then v else find_att name atts res)"

definition startElement :: "string \<Rightarrow> (string \<times> string) list \<Rightarrow> conf_value \<Rightarrow> conf_value" where
  "startElement name atts v0 =
     (if cv_scanonly v0 then v0
      else if cv_stop v0 then v0
      else let v = v0\<lparr>cv_level := cv_level v0 + 1, cv_childs := cv_childs v0 @ [name]\<rparr> in
        if last (cv_childs v) = cv_package v then v\<lparr>cv_inPackage := True\<rparr>
        else if last (cv_childs v) = cv_element v then
          (if cv_attribute v = '''' then v
           else if cv_package v \<noteq> '''' \<and> \<not> cv_inPackage v then v
           else v\<lparr>cv_result := find_att (cv_attribute v) atts (cv_result v), cv_stop := True\<rparr>)
        else v)"

definition valueElement :: "string \<Rightarrow> conf_value \<Rightarrow> conf_value cpp" where
  "valueElement s v =
     (if cv_scanonly v then Val v
      else if cv_stop v then Val v
      else if cv_attribute v \<noteq> '''' then Val v
      else if cv_package v \<noteq> '''' \<and> \<not> cv_inPackage v then Val v
      else if cv_childs v = [] then Undef
      else if last (cv_childs v) = cv_element v then Val (v\<lparr>cv_result := c_string s, cv_stop := True\<rparr>)
      else Val v)"

definition endElement :: "string \<Rightarrow> conf_value \<Rightarrow> conf_value cpp" where
  "endElement name v =
     (if cv_scanonly v then Val v
      else if cv_stop v then Val v
      else if cv_childs v = [] then Undef
      else Val (v\<lparr>cv_level := cv_level v - 1, cv_childs := butlast (cv_childs v)\<rparr>))"

fun handle :: "xml_event \<Rightarrow> conf_value \<Rightarrow> conf_value cpp" where
  "handle (StartElement name atts) v = Val (startElement name atts v)"
| "handle (CharacterData s) v = valueElement s v"
| "handle (EndElement name) v = endElement name v"

fun parse :: "xml_event list \<Rightarrow> conf_value \<Rightarrow> conf_value cpp" where
  "parse [] v = Val v"
| "parse (e # es) v = cpp_bind (handle e v) (parse es)"

text \<open>\<open>None\<close> is a file that eXpat refuses.\<close>

definition getConfValue :: "xml option \<Rightarrow> string \<Rightarrow> string \<Rightarrow> string cpp" where
  "getConfValue doc element attribute =
     (if element = '''' then Val ''''
      else case doc of None \<Rightarrow> Val ''''
      | Some x \<Rightarrow> cpp_bind (parse (events x) (newConfValue element attribute)) (\<lambda>v. Val (cv_result v)))"

definition getPackageConfValue :: "xml option \<Rightarrow> string \<Rightarrow> string \<Rightarrow> string \<Rightarrow> string cpp" where
  "getPackageConfValue doc package element attribute =
     (if element = '''' then Val ''''
      else case doc of None \<Rightarrow> Val ''''
      | Some x \<Rightarrow> cpp_bind (parse (events x) (setPackage package (newConfValue element attribute)))
          (\<lambda>v. Val (cv_result v)))"

text \<open>What the constructor of the core makes of \<open>force-kalive\<close>.\<close>

definition force_kalive :: "boost \<Rightarrow> string \<Rightarrow> bool" where
  "force_kalive bx v =
     (if v = '''' then True
      else if bx_match bx ''true|yes|1'' v \<noteq> None then True
      else bx_match bx ''false|no|0'' v = None)"

subsection \<open>What is looked for\<close>

text \<open>The first element of that name in document order, as its attributes.\<close>

fun first_elem :: "string \<Rightarrow> xml \<Rightarrow> (string \<times> string) list option" and
    first_elems :: "string \<Rightarrow> xml list \<Rightarrow> (string \<times> string) list option" where
  "first_elem e (Elem name atts cs) = (if name = e then Some atts else first_elems e cs)"
| "first_elem e (Chunk s) = None"
| "first_elems e [] = None"
| "first_elems e (x # xs) = (case first_elem e x of Some atts \<Rightarrow> Some atts | None \<Rightarrow> first_elems e xs)"

text \<open>The first piece of text directly inside an element of that name.\<close>

fun first_text :: "string \<Rightarrow> xml \<Rightarrow> string option" and
    first_texts :: "string \<Rightarrow> string \<Rightarrow> xml list \<Rightarrow> string option" where
  "first_text e (Elem name atts cs) = first_texts e name cs"
| "first_text e (Chunk s) = None"
| "first_texts e n [] = None"
| "first_texts e n (Chunk s # xs) = (if n = e then Some s else first_texts e n xs)"
| "first_texts e n (Elem name atts cs # xs) =
     (case first_text e (Elem name atts cs) of Some s \<Rightarrow> Some s | None \<Rightarrow> first_texts e n xs)"

fun named :: "xml \<Rightarrow> bool" where
  "named (Elem name atts cs) \<longleftrightarrow> name \<noteq> '''' \<and> list_all named cs"
| "named (Chunk s) \<longleftrightarrow> True"

lemma parse_append: "parse (es @ fs) v = cpp_bind (parse es v) (parse fs)"
  by (induction es arbitrary: v) (auto, case_tac "handle a v", auto)

lemma parse_stopped: "cv_stop v \<Longrightarrow> parse es v = Val v"
proof (induction es)
  case (Cons e es)
  then show ?case by (cases e) (simp_all add: startElement_def valueElement_def endElement_def)
qed simp

subsection \<open>Attributes\<close>

definition looks_for_attribute :: "conf_value \<Rightarrow> bool" where
  "looks_for_attribute v \<longleftrightarrow> \<not> cv_scanonly v \<and> \<not> cv_stop v \<and> cv_attribute v \<noteq> '''' \<and> cv_package v = ''''"

definition attribute_found :: "conf_value \<Rightarrow> (string \<times> string) list option \<Rightarrow> conf_value cpp \<Rightarrow> bool" where
  "attribute_found v found r \<longleftrightarrow> (\<exists>v'. r = Val v' \<and> (case found of None \<Rightarrow> v' = v
     | Some atts \<Rightarrow> cv_stop v' \<and> cv_result v' = find_att (cv_attribute v) atts (cv_result v)))"

lemma walk_attribute:
  "named x \<Longrightarrow> looks_for_attribute v \<Longrightarrow> cv_element v = e \<Longrightarrow>
     attribute_found v (first_elem e x) (parse (events x) v)"
  "list_all named xs \<Longrightarrow> looks_for_attribute v \<Longrightarrow> cv_element v = e \<Longrightarrow>
     attribute_found v (first_elems e xs) (parse (events_of xs) v)"
proof (induction e x and e xs arbitrary: v and v rule: first_elem_first_elems.induct)
  case (1 e name atts cs)
  let ?v = "v\<lparr>cv_level := cv_level v + 1, cv_childs := cv_childs v @ [name]\<rparr>"
  show ?case
  proof (cases "name = e")
    case True
    with 1 show ?thesis
      by (simp add: attribute_found_def looks_for_attribute_def startElement_def Let_def parse_stopped)
  next
    case False
    have s: "startElement name atts v = ?v"
      using 1 False by (simp add: looks_for_attribute_def startElement_def Let_def)
    have i: "attribute_found ?v (first_elems e cs) (parse (events_of cs) ?v)"
      by (rule "1.IH" [OF False]) (use 1 in \<open>auto simp: looks_for_attribute_def\<close>)
    show ?thesis
    proof (cases "first_elems e cs")
      case None
      with i have "parse (events_of cs) ?v = Val ?v" by (simp add: attribute_found_def)
      with None False s 1 show ?thesis
        by (simp add: attribute_found_def parse_append endElement_def looks_for_attribute_def)
    next
      case (Some a)
      with i obtain v' where "parse (events_of cs) ?v = Val v'" "cv_stop v'"
          "cv_result v' = find_att (cv_attribute v) a (cv_result v)" by (auto simp: attribute_found_def)
      with Some False s show ?thesis
        by (auto simp: attribute_found_def parse_append endElement_def)
    qed
  qed
next
  case (2 e s)
  then show ?case by (simp add: attribute_found_def valueElement_def looks_for_attribute_def)
next
  case (3 e)
  then show ?case by (simp add: attribute_found_def)
next
  case (4 e x xs)
  then have i: "attribute_found v (first_elem e x) (parse (events x) v)" by simp
  show ?case
  proof (cases "first_elem e x")
    case None
    with i have "parse (events x) v = Val v" by (simp add: attribute_found_def)
    moreover have "attribute_found v (first_elems e xs) (parse (events_of xs) v)"
      by (rule "4.IH"(2) [OF None]) (use 4 in auto)
    ultimately show ?thesis using None by (simp add: parse_append)
  next
    case (Some a)
    with i show ?thesis by (auto simp: attribute_found_def parse_append parse_stopped)
  qed
qed

text \<open>
  Asking for an attribute is looking for the first element of that name in document order: the
  value is that element's attribute, empty if it has none, and empty if there is no such element
  or the file is not well-formed.
\<close>

theorem attribute_of_first_element:
  assumes "element \<noteq> ''''" and "attribute \<noteq> ''''" and "named x"
  shows "getConfValue (Some x) element attribute =
     Val (case first_elem element x of None \<Rightarrow> '''' | Some atts \<Rightarrow> find_att attribute atts '''')"
proof -
  have "looks_for_attribute (newConfValue element attribute)" "cv_element (newConfValue element attribute) = element"
    using assms by (simp_all add: looks_for_attribute_def newConfValue_def)
  from walk_attribute(1) [OF assms(3) this] show ?thesis
    using assms(1) by (auto simp: getConfValue_def attribute_found_def newConfValue_def split: option.splits)
qed

definition demo_conf :: xml where
  "demo_conf = Elem ''mediactrl'' [] [Elem ''cfw'' [(''port'', ''7575'')] [],
     Elem ''sip'' [(''port'', ''5060'')] [Elem ''name'' [] [Chunk ''ms'']], Elem ''cfw'' [(''port'', ''1'')] []]"

theorem attribute_of_first_element_witness: "getConfValue (Some demo_conf) ''cfw'' ''port'' = Val ''7575''"
  using attribute_of_first_element [of "''cfw''" "''port''" demo_conf] by (simp add: demo_conf_def)

subsection \<open>Values\<close>

definition looks_for_text :: "conf_value \<Rightarrow> bool" where
  "looks_for_text v \<longleftrightarrow> \<not> cv_scanonly v \<and> \<not> cv_stop v \<and> cv_attribute v = '''' \<and> cv_package v = ''''"

definition text_found :: "conf_value \<Rightarrow> string option \<Rightarrow> conf_value cpp \<Rightarrow> bool" where
  "text_found v found r \<longleftrightarrow> (\<exists>v'. r = Val v' \<and> (case found of None \<Rightarrow> v' = v
     | Some s \<Rightarrow> cv_stop v' \<and> cv_result v' = c_string s))"

lemma text_found_then:
  assumes "text_found v found (parse es v)" and "found = None \<Longrightarrow> text_found v found' (parse fs v)"
  shows "text_found v (case found of None \<Rightarrow> found' | Some s \<Rightarrow> Some s) (parse (es @ fs) v)"
  using assms by (cases found) (auto simp: text_found_def parse_append parse_stopped)

lemma walk_text:
  "(\<forall>s. x \<noteq> Chunk s) \<Longrightarrow> named x \<Longrightarrow> looks_for_text v \<Longrightarrow> cv_element v = e \<Longrightarrow>
     text_found v (first_text e x) (parse (events x) v)"
  "list_all named xs \<Longrightarrow> looks_for_text v \<Longrightarrow> cv_element v = e \<Longrightarrow> cv_childs v \<noteq> [] \<Longrightarrow> last (cv_childs v) = n \<Longrightarrow>
     text_found v (first_texts e n xs) (parse (events_of xs) v)"
proof (induction e x and e n xs arbitrary: v and v rule: first_text_first_texts.induct)
  case (1 e name atts cs)
  let ?v = "v\<lparr>cv_level := cv_level v + 1, cv_childs := cv_childs v @ [name]\<rparr>"
  have s: "startElement name atts v = ?v"
    using 1 by (auto simp: looks_for_text_def startElement_def Let_def)
  have i: "text_found ?v (first_texts e name cs) (parse (events_of cs) ?v)"
    by (rule "1.IH") (use 1 in \<open>auto simp: looks_for_text_def\<close>)
  show ?case
  proof (cases "first_texts e name cs")
    case None
    with i have "parse (events_of cs) ?v = Val ?v" by (simp add: text_found_def)
    with None s 1 show ?thesis by (simp add: text_found_def parse_append endElement_def looks_for_text_def)
  next
    case (Some a)
    with i s show ?thesis by (auto simp: text_found_def parse_append endElement_def)
  qed
next
  case (2 e s)
  then show ?case by simp
next
  case (3 e n)
  then show ?case by (simp add: text_found_def)
next
  case (4 e n s xs)
  show ?case
  proof (cases "n = e")
    case True
    with 4 show ?thesis by (simp add: text_found_def valueElement_def looks_for_text_def parse_stopped)
  next
    case False
    with 4 have "valueElement s v = Val v" by (simp add: valueElement_def looks_for_text_def)
    with "4.IH" [OF False, of v] 4 False show ?thesis by simp
  qed
next
  case (5 e n name atts cs xs)
  have "text_found v (first_text e (Elem name atts cs)) (parse (events (Elem name atts cs)) v)"
    by (rule "5.IH"(1)) (use 5 in auto)
  moreover have "text_found v (first_texts e n xs) (parse (events_of xs) v)" if "first_text e (Elem name atts cs) = None"
    by (rule "5.IH"(2) [OF that]) (use 5 in auto)
  ultimately show ?case using text_found_then by (metis events_of.simps(2) first_texts.simps(3))
qed

text \<open>
  Asking for the value of an element gives the first piece of text that stands directly inside an
  element of that name, in document order, even if that is only the blank before a child.
\<close>

theorem value_of_first_text:
  assumes "element \<noteq> ''''" and "named (Elem name atts cs)"
  shows "getConfValue (Some (Elem name atts cs)) element '''' =
     Val (case first_text element (Elem name atts cs) of None \<Rightarrow> '''' | Some s \<Rightarrow> c_string s)"
proof -
  let ?v = "newConfValue element ''''"
  have "looks_for_text ?v" "cv_element ?v = element"
    using assms by (simp_all add: looks_for_text_def newConfValue_def)
  from walk_text(1) [OF _ assms(2) this] have
    "text_found ?v (first_text element (Elem name atts cs)) (parse (events (Elem name atts cs)) ?v)" by blast
  then have "cpp_bind (parse (events (Elem name atts cs)) ?v) (\<lambda>v. Val (cv_result v)) =
     Val (case first_text element (Elem name atts cs) of None \<Rightarrow> '''' | Some s \<Rightarrow> c_string s)"
    by (auto simp: text_found_def newConfValue_def simp del: events.simps first_text.simps split: option.splits)
  with assms(1) show ?thesis by (simp add: getConfValue_def)
qed

theorem value_of_first_text_witness: "getConfValue (Some demo_conf) ''name'' '''' = Val ''ms''"
  using value_of_first_text [of "''name''" "''mediactrl''" "[]"] by (simp add: demo_conf_def c_string_def)

subsection \<open>Values for a package\<close>

text \<open>
  The mark that the parser is inside the package is never taken back: an element that follows the
  package's section, in another one, still answers the package's question.
\<close>

theorem package_scope_leaks:
  assumes "package \<noteq> ''''" and "element \<noteq> ''''" and "attribute \<noteq> ''''" and "element \<noteq> package"
    and "other \<noteq> package" and "other \<noteq> element" and "root \<noteq> package" and "root \<noteq> element"
  shows "getPackageConfValue (Some (Elem root [] [Elem package [] [],
     Elem other [] [Elem element atts []]])) package element attribute = Val (find_att attribute atts '''')"
  using assms
  by (simp add: getPackageConfValue_def setPackage_def newConfValue_def startElement_def endElement_def Let_def)

theorem package_scope_leaks_witness:
  "getPackageConfValue (Some (Elem ''packages'' [] [Elem ''mixer'' [] [],
     Elem ''ivr'' [] [Elem ''prompts'' [(''path'', ''/tmp'')] []]])) ''mixer'' ''prompts'' ''path'' = Val ''/tmp''"
  using package_scope_leaks [of "''mixer''" "''prompts''" "''path''" "''ivr''" "''packages''" "[(''path'', ''/tmp'')]"]
  by simp

end
