(* ===== verification/Monitor.thy ===== *)
theory Monitor
  imports CoreCalls
begin

text \<open>
  \<open>src/RemoteMonitor.cxx\<close> and \<open>remoteMonitorQuery\<close> of \<open>src/MediaCtrl.cxx\<close>: the status interface.
  A client sends a line and an empty line and gets a description of the server. The sockets are
  not modelled: what a client sends is a list of characters whose end is the loss of the
  connection. All clients share one buffer of 100 bytes, cleared before each poll.
\<close>

subsection \<open>The reader\<close>

fun mon_read :: "string \<Rightarrow> nat \<Rightarrow> nat \<Rightarrow> string \<Rightarrow> (string \<times> int \<times> string) cpp" where
  "mon_read buffer len trailer [] = Val (buffer, -1, [])"
| "mon_read buffer len trailer (c # inp) =
     (if length buffer \<le> len then Undef
      else let buffer' = buffer[len := c]; trailer' = next_trailer trailer c in
        if trailer' = 4 then Val (buffer', int (len + 1), inp)
        else mon_read buffer' (len + 1) trailer' inp)"

definition clear_buffer :: string where
  "clear_buffer = replicate 100 CHR 0x00"

text \<open>The request is the text up to the first NUL, which must be there, and up to the first CR LF.\<close>

definition request_text :: "string \<Rightarrow> string cpp" where
  "request_text buffer =
     (if CHR 0x00 \<notin> set buffer then Undef
      else let text = c_string buffer in
        Val (case str_find text crlf 0 of None \<Rightarrow> text | Some e \<Rightarrow> take e text))"

subsection \<open>The answers\<close>

fun mon_labels :: "ptr \<Rightarrow> string list \<Rightarrow> media \<Rightarrow> (media \<times> string) cpp" where
  "mon_labels s [] md = Val (md, '''')"
| "mon_labels s (l # ls) md =
     cpp_bind (deref (md_sips md) s) (\<lambda>t.
     cpp_bind (getConnectionIdByLabel (md_rtps md) l t) (\<lambda>(t1, cid).
     cpp_bind (getRtpChannel l t1) (\<lambda>(t2, r).
     cpp_bind (if r = NULL then Val ''''
               else cpp_bind (deref (md_rtps md) r) (\<lambda>ch.
                 Val (tab_line 4 (''Port: '' @ dec_int (uint (rtp_srcPort ch))) @
                      tab_line 4 (''Peer: '' @ rtp_dstIp ch @ '':'' @ dec_int (uint (rtp_dstPort ch)))))) (\<lambda>peer.
     cpp_bind (mon_labels s ls (putSip s t2 md)) (\<lambda>(md', rest).
       Val (md', tab_line 3 ''Medium: '' @ tab_line 4 (''Label: '' @ l) @
            tab_line 4 (''ConnectionId: '' @ cid) @ peer @ rest))))))"

fun mon_calls :: "ptr list \<Rightarrow> media \<Rightarrow> (media \<times> string) cpp" where
  "mon_calls [] md = Val (md, '''')"
| "mon_calls (s # ss) md =
     (if s = NULL then mon_calls ss md
      else cpp_bind (deref (md_sips md) s) (\<lambda>t.
        cpp_bind (mon_labels s (sp_rtpLabels t) md) (\<lambda>(md1, media).
        cpp_bind (mon_calls ss md1) (\<lambda>(md2, rest).
          Val (md2, tab_line 2 (''Transaction: '' @ sp_callId t) @
               tab_line 3 (''Application Server: '' @ (if sp_as t then ''1'' else ''0'')) @
               tab_line 3 (''ConnectionId: '' @ sp_connectionId t) @ media @ rest)))))"

text \<open>\<open>remoteMonitorQuery\<close>; \<open>None\<close> is the result -1. The address and port are the SIP server's.\<close>

definition remoteMonitorQuery ::
    "(string \<Rightarrow> string) \<Rightarrow> string \<Rightarrow> int \<Rightarrow> string \<Rightarrow> core \<Rightarrow> (core \<times> string option) cpp" where
  "remoteMonitorQuery resolve address port text k =
     (if text = ''hello'' then
        Val (k, Some (''hello, I'' @ [CHR 0x27] @ ''m '' @ core_sipName k @ crlf @ ''how are you?'' @ crlf))
      else if text = ''help'' then
        Val (k, Some (''Allowed requests:'' @ crlf @ tab_line 1 ''hello'' @ tab_line 1 ''help'' @ tab_line 1 ''sip'' @
          tab_line 1 ''cfw all|transactions|clients|<pkg name>''))
      else if text = ''sip'' then
        cpp_bind (mon_calls (map snd (core_sipTransactions k)) (core_md k)) (\<lambda>(md, calls).
          Val (k\<lparr>core_md := md\<rparr>, Some (''SIP:'' @ crlf @
            tab_line 1 (''sip:'' @ core_sipName k @ ''@'' @ address @ '':'' @ dec_int port) @ calls)))
      else if str_find text ''cfw '' 0 = Some 0 then
        cpp_bind (getInfo resolve (drop 4 text) (core_cfw k)) (\<lambda>info.
          Val (k, if info = '''' then None else Some (info @ crlf)))
      else Val (k, None))"

text \<open>One client that has data: the buffer, what it sends, and what it is sent.\<close>

definition mon_serve ::
    "(string \<Rightarrow> core \<Rightarrow> (core \<times> string option) cpp) \<Rightarrow> string \<Rightarrow> string \<Rightarrow> core \<Rightarrow>
       (core \<times> string \<times> string option \<times> string) cpp" where
  "mon_serve query buffer inp k =
     cpp_bind (mon_read buffer 0 0 inp) (\<lambda>(buffer', len, rest).
       if len < 1 then Val (k, buffer', None, rest)
       else cpp_bind (request_text buffer') (\<lambda>text.
         cpp_bind (query text k) (\<lambda>(k', res).
           Val (k', buffer', Some (case res of None \<Rightarrow> ''???'' @ crlf | Some x \<Rightarrow> x), rest))))"

subsection \<open>A request is served\<close>

definition plain_line :: "string \<Rightarrow> bool" where
  "plain_line s \<longleftrightarrow> CHR 0x0D \<notin> set s \<and> CHR 0x0A \<notin> set s \<and> CHR 0x00 \<notin> set s"

lemma mon_read_line:
  assumes "plain_line s" and "length s + 4 \<le> length buf"
  shows "mon_read (pre @ buf) (length pre) 0 (s @ crlf @ crlf @ rest) =
     Val (pre @ s @ crlf @ crlf @ drop (length s + 4) buf, int (length pre + length s + 4), rest)"
  using assms
proof (induction s arbitrary: pre buf)
  case Nil
  then obtain a b c d buf' where "buf = a # b # c # d # buf'"
    by (auto simp: Suc_le_length_iff numeral_eq_Suc)
  then show ?case
    by (simp add: crlf_def next_trailer_def Let_def list_update_append)
next
  case (Cons c s)
  have c: "next_trailer 0 c = 0" using Cons.prems(1) by (auto simp: next_trailer_def plain_line_def)
  from Cons.prems(2) obtain b buf' where b: "buf = b # buf'" by (cases buf) auto
  have "mon_read (pre @ buf) (length pre) 0 ((c # s) @ crlf @ crlf @ rest) =
      mon_read ((pre @ [c]) @ buf') (length (pre @ [c])) 0 (s @ crlf @ crlf @ rest)"
    using b c by (simp add: Let_def)
  moreover have "mon_read ((pre @ [c]) @ buf') (length (pre @ [c])) 0 (s @ crlf @ crlf @ rest) = Val ((pre @ [c]) @ s @ crlf @ crlf @ drop (length s + 4) buf',
        int (length (pre @ [c]) + length s + 4), rest)"
    by (rule Cons.IH) (use Cons.prems b in \<open>auto simp: plain_line_def\<close>)
  moreover have "drop (5 + length s) buf = drop (length s + 4) buf'"
    using b by (simp add: drop_Cons' add.commute)
  ultimately show ?case by (simp del: mon_read.simps)
qed

lemma find_crlf_plain:
  assumes "CHR 0x0D \<notin> set s"
  shows "find_at crlf (s @ crlf @ rest) i = Some (i + length s)"
  using assms
proof (induction s arbitrary: i)
  case Nil
  then show ?case by (simp add: crlf_def starts_with_def)
next
  case (Cons c s)
  then have "\<not> starts_with crlf (c # s @ crlf @ rest)" by (auto simp: crlf_def starts_with_def)
  with Cons show ?case by simp
qed

lemma c_string_plain: "CHR 0x00 \<notin> set s \<Longrightarrow> c_string (s @ CHR 0x00 # rest) = s"
  by (induction s) (auto simp: c_string_def)

lemma request_text_line:
  assumes "plain_line s" and "0 < n"
  shows "request_text (s @ crlf @ crlf @ replicate n CHR 0x00) = Val s"
proof -
  obtain m where n: "n = Suc m" using assms(2) by (cases n) auto
  let ?t = "s @ crlf @ crlf"
  have "CHR 0x00 \<notin> set ?t" using assms(1) by (simp add: plain_line_def crlf_def)
  then have c: "c_string (?t @ CHR 0x00 # replicate m CHR 0x00) = ?t" by (rule c_string_plain)
  have "str_find ?t crlf 0 = Some (length s)"
    using find_crlf_plain [of s crlf 0] assms(1) by (simp add: str_find_def plain_line_def)
  with c n show ?thesis by (simp add: request_text_def Let_def)
qed

text \<open>
  A request of one line is answered: a line of at most 95 characters, followed by an empty line, is
  given to the core as it is, the client is sent the core's answer or \<open>???\<close>, and what the client
  sent behind it is still there for the next round.
\<close>

theorem monitor_line_is_answered:
  assumes "plain_line s" and "length s \<le> 95" and "query s k = Val (k', res)"
  shows "\<exists>buffer. mon_serve query clear_buffer (s @ crlf @ crlf @ rest) k =
     Val (k', buffer, Some (case res of None \<Rightarrow> ''???'' @ crlf | Some x \<Rightarrow> x), rest)"
proof -
  have "mon_read clear_buffer 0 0 (s @ crlf @ crlf @ rest) =
      Val (s @ crlf @ crlf @ replicate (96 - length s) CHR 0x00, int (length s + 4), rest)"
    using mon_read_line [OF assms(1), of clear_buffer "[]" rest] assms(2) by (simp add: clear_buffer_def)
  moreover have "request_text (s @ crlf @ crlf @ replicate (96 - length s) CHR 0x00) = Val s"
    by (rule request_text_line [OF assms(1)]) (use assms(2) in simp)
  ultimately show ?thesis using assms(3) by (simp add: mon_serve_def)
qed

theorem monitor_line_is_answered_witness:
  "\<exists>buffer. mon_serve (remoteMonitorQuery (\<lambda>x. x) ''10.0.0.1'' 5060) clear_buffer (''hello'' @ crlf @ crlf) demo_core =
     Val (demo_core, buffer, Some (''hello, I'' @ [CHR 0x27] @ ''m ms'' @ crlf @ ''how are you?'' @ crlf), '''')"
proof -
  have p: "plain_line ''hello''" "length ''hello'' \<le> 95" by (simp_all add: plain_line_def)
  have "remoteMonitorQuery (\<lambda>x. x) ''10.0.0.1'' 5060 ''hello'' demo_core = Val (demo_core, Some (''hello, I'' @ [CHR 0x27] @
      ''m '' @ core_sipName demo_core @ crlf @ ''how are you?'' @ crlf))"
    by (simp add: remoteMonitorQuery_def)
  from monitor_line_is_answered [where rest = "''''" and query = "remoteMonitorQuery (\<lambda>x. x) ''10.0.0.1'' 5060", OF p this] show ?thesis by (simp add: demo_core_def)
qed

lemma mon_read_overflows:
  assumes "CHR 0x0A \<notin> set inp" and "length buffer - len < length inp" and "tr < 2"
  shows "mon_read buffer len tr inp = Undef"
  using assms
proof (induction inp arbitrary: buffer len tr)
  case (Cons c inp)
  show ?case
  proof (cases "length buffer \<le> len")
    case False
    have "next_trailer tr c < 2" using Cons.prems(1,3) by (auto simp: next_trailer_def)
    moreover have "length (buffer[len := c]) - Suc len < length inp" using Cons.prems(2) False by auto
    ultimately have "mon_read (buffer[len := c]) (Suc len) (next_trailer tr c) inp = Undef"
      using Cons.IH Cons.prems(1) by simp
    with False \<open>next_trailer tr c < 2\<close> show ?thesis by (simp add: Let_def)
  qed simp
qed simp

text \<open>
  Nothing bounds the request: a client that sends more than 100 characters without a line feed
  makes the server write behind its buffer.
\<close>

theorem monitor_buffer_overflows:
  assumes "CHR 0x0A \<notin> set inp" and "100 < length inp"
  shows "mon_serve query clear_buffer inp k = Undef"
  using mon_read_overflows [OF assms(1), of clear_buffer 0 0] assms(2) by (simp add: mon_serve_def clear_buffer_def)

theorem monitor_buffer_overflows_witness:
  "mon_serve (\<lambda>text k. Val (k, None)) clear_buffer (replicate 101 CHR ''x'') demo_core = Undef"
  by (rule monitor_buffer_overflows) simp_all

end
