(* ===== verification/MixerNode.thy ===== *)
theory MixerNode
  imports Core
begin

text \<open>
  \<open>src/packages/MixerPackage.cxx\<close>, the part below the protocol: the nodes that link connections and
  conferences (classes \<open>MixerNode\<close>, \<open>MixerConnection\<close> and \<open>MixerConference\<close>), their \<open>attach\<close>, \<open>modify\<close> and
  \<open>detach\<close>, the notifications of an ended join, and the end of nodes. A node's fields are those of
  both classes, \<open>nd_conf\<close> tells which one it is and a virtual call looks at it. What the package hands to
  its callback without waiting for an answer is recorded on \<open>mx_out\<close>.
\<close>

lemma cpp_bindE:
  assumes "cpp_bind r f = Val y"
  obtains x where "r = Val x" and "f x = Val y"
  using assms by (cases r) auto

lemma cpp_bind2E:
  assumes "cpp_bind r (\<lambda>(a, b). f a b) = Val y"
  obtains a b where "r = Val (a, b)" and "f a b = Val y"
  using assms by (cases r) auto

subsection \<open>Enumerations\<close>

abbreviation (input) SENDRECV :: int where "SENDRECV \<equiv> 0"
abbreviation (input) SENDONLY :: int where "SENDONLY \<equiv> 1"
abbreviation (input) RECVONLY :: int where "RECVONLY \<equiv> 2"
abbreviation (input) INACTIVE :: int where "INACTIVE \<equiv> 3"
abbreviation (input) VOLUME_NONE :: int where "VOLUME_NONE \<equiv> -4"
abbreviation (input) VOLUME_KEEP :: int where "VOLUME_KEEP \<equiv> -3"
abbreviation (input) VOLUME_MUTE :: int where "VOLUME_MUTE \<equiv> -2"
abbreviation (input) VOLUME_UNMUTE :: int where "VOLUME_UNMUTE \<equiv> -1"
abbreviation (input) MIXING_NONE :: int where "MIXING_NONE \<equiv> 0"
abbreviation (input) MIXING_NBEST :: int where "MIXING_NBEST \<equiv> 1"
abbreviation (input) MIXING_CONTROLLER :: int where "MIXING_CONTROLLER \<equiv> 2"
abbreviation (input) UNJOIN_REQUEST :: int where "UNJOIN_REQUEST \<equiv> 0"
abbreviation (input) UNJOIN_ERROR :: int where "UNJOIN_ERROR \<equiv> 1"
abbreviation (input) UNJOIN_CONTERMINATE :: int where "UNJOIN_CONTERMINATE \<equiv> 2"
abbreviation (input) CONFEXIT_REQUEST :: int where "CONFEXIT_REQUEST \<equiv> 0"

definition getReverseDirection :: "int \<Rightarrow> int" where
  "getReverseDirection d =
     (if d = SENDRECV \<or> d = INACTIVE then d
      else if d = SENDONLY then RECVONLY
      else if d = RECVONLY then SENDONLY
      else -1)"

text \<open>Whether the two ends of a link with direction \<open>d\<close> let sound out, or in.\<close>

definition sends :: "int \<Rightarrow> bool" where
  "sends d \<longleftrightarrow> d = SENDRECV \<or> d = SENDONLY"

definition receives :: "int \<Rightarrow> bool" where
  "receives d \<longleftrightarrow> d = SENDRECV \<or> d = RECVONLY"

subsection \<open>State\<close>

record mnode =
  nd_conf :: bool
  nd_requester :: ptr
  nd_connection :: ptr
  nd_Id :: string
  nd_label :: string
  nd_mediaType :: int
  nd_nodes :: "(ptr, int) smap"
  nd_volumes :: "(ptr, int) smap"
  nd_mutes :: "(ptr, int) smap"
  nd_receiving :: int
  nd_sending :: int
  nd_started :: bool
  nd_mixingtype :: int
  nd_mixn :: u16
  nd_talkers :: u16
  nd_listeners :: u16
  nd_notify :: bool
  nd_interval :: u32
  nd_timer :: bool
  nd_start :: u32
  nd_queued :: "(ptr, frame list) smap"
  nd_bots :: "(string, frame list) smap"
  nd_playing :: bool

text \<open>Calls of the package on its callback that return nothing.\<close>

datatype mixer_out =
    Report ptr string int int string
  | ControlEvent ptr string
  | SendFrame ptr frame

record mixer =
  mx_pkg :: ptr
  mx_core :: core
  mx_heap :: "ptr \<rightharpoonup> mnode"
  mx_next :: ptr
  mx_confs :: "(string, ptr) smap"
  mx_nodes :: "(ptr, ptr) smap"
  mx_joins :: "string list"
  mx_out :: "mixer_out list"

definition putNode :: "ptr \<Rightarrow> mnode \<Rightarrow> mixer \<Rightarrow> mixer" where
  "putNode p n m = m\<lparr>mx_heap := (mx_heap m)(p \<mapsto> n)\<rparr>"

definition emit :: "mixer_out \<Rightarrow> mixer \<Rightarrow> mixer" where
  "emit e m = m\<lparr>mx_out := mx_out m @ [e]\<rparr>"

text \<open>\<open>connection->addPackage(pkg)\<close> and \<open>connection->removePackage(pkg)\<close>.\<close>

definition on_package :: "(ptr \<Rightarrow> cpc \<Rightarrow> cpc) \<Rightarrow> ptr \<Rightarrow> mixer \<Rightarrow> mixer cpp" where
  "on_package f cp m =
     cpp_bind (deref (md_cps (core_md (mx_core m))) cp) (\<lambda>d.
       Val (m\<lparr>mx_core := (mx_core m)\<lparr>core_md := putCp cp (f (mx_pkg m) d) (core_md (mx_core m))\<rparr>\<rparr>))"

subsection \<open>Construction\<close>

definition newNode :: mnode where
  "newNode = \<lparr>nd_conf = False, nd_requester = NULL, nd_connection = NULL, nd_Id = '''', nd_label = '''',
     nd_mediaType = MEDIACTRL_MEDIA_UNKNOWN, nd_nodes = [], nd_volumes = [], nd_mutes = [],
     nd_receiving = 0, nd_sending = 0, nd_started = False, nd_mixingtype = MIXING_NONE, nd_mixn = 0,
     nd_talkers = 0, nd_listeners = 0, nd_notify = False, nd_interval = 0, nd_timer = False, nd_start = 0,
     nd_queued = [], nd_bots = [], nd_playing = False\<rparr>"

text \<open>\<open>new MixerConnection()\<close>, its \<open>setup\<close>, and its entry in the package's map of nodes.\<close>

definition con_setup :: "ptr \<Rightarrow> ptr \<Rightarrow> cpc \<Rightarrow> mnode \<Rightarrow> mnode" where
  "con_setup requester cp d n =
     n\<lparr>nd_requester := requester, nd_connection := cp, nd_Id := cpc_connectionId d,
       nd_label := cpc_label d, nd_mediaType := cpc_mediaType d\<rparr>"

definition newMixerConnection :: "ptr \<Rightarrow> ptr \<Rightarrow> mixer \<Rightarrow> (mixer \<times> ptr) cpp" where
  "newMixerConnection requester cp m =
     cpp_bind (deref (md_cps (core_md (mx_core m))) cp) (\<lambda>d.
       let p = mx_next m in
       Val ((putNode p (con_setup requester cp d newNode) m)
             \<lparr>mx_next := p + 1, mx_nodes := smap_put cp p (mx_nodes m)\<rparr>, p))"

text \<open>
  \<open>random_string(8)\<close> keeps the first seven of the digits of four random numbers. The constructor of a
  conference without an identifier tries such strings until one is new; \<open>rs\<close> is the list of
  random numbers to come, and running out of it stands for a loop that has not ended.
\<close>

fun hex_word :: "nat \<Rightarrow> nat \<Rightarrow> string" where
  "hex_word 0 v = ''''"
| "hex_word (Suc k) v = hex_word k (v div 16) @
     [char_of (if v mod 16 < 10 then 48 + v mod 16 else 87 + v mod 16)]"

definition random_string :: "nat \<Rightarrow> nat list \<Rightarrow> string" where
  "random_string len vals = take (len - 1) (concat (map (hex_word 8) vals))"

definition create_conf :: "string \<Rightarrow> mixer \<Rightarrow> (mixer \<times> ptr) cpp" where
  "create_conf confId m =
     cpp_bind (cfw_createConference confId (mx_core m)) (\<lambda>(cp, k).
       let m1 = m\<lparr>mx_core := k\<rparr> in
       if cp = NULL then Val (m1, NULL)
       else cpp_bind (on_package addPackage cp m1) (\<lambda>m2. Val (m2, cp)))"

fun random_conf :: "nat list list \<Rightarrow> mixer \<Rightarrow> (mixer \<times> string \<times> ptr) cpp" where
  "random_conf [] m = Undef"
| "random_conf (r # rs) m =
     (let confId = random_string 8 r in
      if smap_get (mx_confs m) confId \<noteq> None then random_conf rs m
      else cpp_bind (create_conf confId m) (\<lambda>(m1, cp).
        if cp \<noteq> NULL then Val (m1, confId, cp) else random_conf rs m1))"

definition newMixerConference :: "nat list list \<Rightarrow> ptr \<Rightarrow> string \<Rightarrow> mixer \<Rightarrow> (mixer \<times> ptr) cpp" where
  "newMixerConference rs requester confId m =
     cpp_bind (if confId = '''' then random_conf rs m
               else cpp_bind (create_conf confId m) (\<lambda>(m1, cp). Val (m1, confId, cp)))
       (\<lambda>(m1, cid, cp). let p = mx_next m1 in
         Val ((putNode p (newNode\<lparr>nd_conf := True, nd_requester := requester, nd_connection := cp,
                 nd_Id := cid\<rparr>) m1)
               \<lparr>mx_next := p + 1, mx_confs := smap_put cid p (mx_confs m1),
                mx_nodes := smap_put cp p (mx_nodes m1)\<rparr>, p))"

subsection \<open>Links of a connection\<close>

definition node_check :: "ptr \<Rightarrow> ptr \<Rightarrow> mixer \<Rightarrow> bool cpp" where
  "node_check p q m =
     (if q = NULL then Val False
      else cpp_bind (deref (mx_heap m) p) (\<lambda>n. Val (list_ex (\<lambda>(k, _). k = q) (nd_nodes n))))"

text \<open>What both \<open>attach\<close> note about the volume of the new link.\<close>

definition attach_volume :: "ptr \<Rightarrow> int \<Rightarrow> mnode \<Rightarrow> mnode" where
  "attach_volume q volume n =
     (if volume = VOLUME_MUTE \<or> volume = VOLUME_UNMUTE then
        n\<lparr>nd_volumes := smap_put q 100 (nd_volumes n), nd_mutes := smap_put q volume (nd_mutes n)\<rparr>
      else n\<lparr>nd_volumes := smap_put q (if 0 \<le> volume then volume else 100) (nd_volumes n),
             nd_mutes := smap_put q VOLUME_UNMUTE (nd_mutes n)\<rparr>)"

definition con_attach :: "ptr \<Rightarrow> ptr \<Rightarrow> int \<Rightarrow> int \<Rightarrow> mixer \<Rightarrow> (mixer \<times> int) cpp" where
  "con_attach p q direction volume m =
     (if q = NULL then Val (m, -1)
      else cpp_bind (deref (mx_heap m) q) (\<lambda>_. cpp_bind (deref (mx_heap m) p) (\<lambda>n.
        if list_ex (\<lambda>(k, _). k = q) (nd_nodes n) then Val (m, -2)
        else if 0 < nd_receiving n \<and> (direction = SENDRECV \<or> direction = RECVONLY) then Val (m, -3)
        else let n1 = attach_volume q volume (n\<lparr>nd_nodes := smap_put q direction (nd_nodes n)\<rparr>) in
          if direction = SENDRECV \<or> direction = SENDONLY then
            cpp_bind (on_package addPackage (nd_connection n)
                (putNode p (n1\<lparr>nd_sending := nd_sending n1 + 1\<rparr>) m)) (\<lambda>m1. Val (m1, 0))
          else Val (putNode p n1 m, 0))))"

definition modify_volume :: "ptr \<Rightarrow> int \<Rightarrow> mnode \<Rightarrow> mnode" where
  "modify_volume q volume n =
     (if volume = VOLUME_MUTE \<or> volume = VOLUME_UNMUTE then
        n\<lparr>nd_mutes := smap_put q volume (nd_mutes n)\<rparr>
      else let v = (if 0 \<le> volume then smap_put q volume (nd_volumes n) else nd_volumes n) in
        n\<lparr>nd_volumes := snd (smap_index 0 q v), nd_mutes := smap_put q VOLUME_UNMUTE (nd_mutes n)\<rparr>)"

definition con_modify :: "ptr \<Rightarrow> ptr \<Rightarrow> int \<Rightarrow> int \<Rightarrow> mixer \<Rightarrow> (mixer \<times> int) cpp" where
  "con_modify p q direction volume m =
     (if q = NULL then Val (m, -1)
      else cpp_bind (deref (mx_heap m) p) (\<lambda>n.
        if nd_nodes n = [] then Val (m, -2)
        else cpp_bind (deref (mx_heap m) q) (\<lambda>_. case smap_get (nd_nodes n) q of
          None \<Rightarrow> Val (m, -2)
        | Some old \<Rightarrow>
            if 0 < nd_receiving n \<and> (direction = SENDRECV \<or> direction = RECVONLY) \<and>
               (old = INACTIVE \<or> old = SENDONLY) then Val (m, -3)
            else let stops = 0 < nd_sending n \<and> (old = SENDRECV \<or> old = SENDONLY) \<and>
                       (direction = RECVONLY \<or> direction = INACTIVE);
                     n1 = (if stops then n\<lparr>nd_sending := nd_sending n - 1\<rparr> else n);
                     starts = (direction = SENDRECV \<or> direction = SENDONLY);
                     n2 = modify_volume q volume n1;
                     n3 = n2\<lparr>nd_sending := nd_sending n2 + (if starts then 1 else 0),
                             nd_nodes := smap_put q direction (nd_nodes n2)\<rparr> in
              cpp_bind (if stops \<and> nd_sending n1 = 0 then on_package removePackage (nd_connection n) m
                        else Val m) (\<lambda>m1.
              cpp_bind (if starts then on_package addPackage (nd_connection n) m1 else Val m1) (\<lambda>m2.
                Val (putNode p n3 m2, 0))))))"

definition con_detach :: "ptr \<Rightarrow> ptr \<Rightarrow> mixer \<Rightarrow> (mixer \<times> int) cpp" where
  "con_detach p q m =
     (if q = NULL then Val (m, -1)
      else cpp_bind (deref (mx_heap m) p) (\<lambda>n. case smap_get (nd_nodes n) q of
        None \<Rightarrow> Val (m, -2)
      | Some old \<Rightarrow> cpp_bind (deref (mx_heap m) q) (\<lambda>_.
          let n1 = (if 0 < nd_receiving n \<and> (old = SENDRECV \<or> old = RECVONLY)
                    then n\<lparr>nd_receiving := nd_receiving n - 1\<rparr> else n);
              stops = 0 < nd_sending n1 \<and> (old = SENDRECV \<or> old = SENDONLY);
              n2 = (if stops then n1\<lparr>nd_sending := nd_sending n1 - 1\<rparr> else n1) in
          cpp_bind (if stops \<and> nd_sending n2 = 0 then on_package removePackage (nd_connection n) m
                    else Val m) (\<lambda>m1.
            Val (putNode p (n2\<lparr>nd_nodes := smap_erase q (nd_nodes n2)\<rparr>) m1, 0)))))"

subsection \<open>Links of a conference\<close>

definition conf_attach :: "ptr \<Rightarrow> ptr \<Rightarrow> int \<Rightarrow> int \<Rightarrow> mixer \<Rightarrow> (mixer \<times> int) cpp" where
  "conf_attach p q direction volume m =
     (if q = NULL then Val (m, -1)
      else cpp_bind (deref (mx_heap m) q) (\<lambda>k.
        if nd_mediaType k = MEDIACTRL_MEDIA_AUDIO then
          cpp_bind (deref (mx_heap m) p) (\<lambda>n.
            if list_ex (\<lambda>(k, _). k = q) (nd_nodes n) then Val (m, -2)
            else Val (putNode p (attach_volume q volume
                        (n\<lparr>nd_nodes := smap_put q direction (nd_nodes n)\<rparr>)) m, 0))
        else Val (m, -1)))"

text \<open>The two loops of \<open>modify\<close> over the volumes and the mutes change an entry that is there.\<close>

definition smap_adjust :: "'k \<Rightarrow> 'v \<Rightarrow> ('k, 'v) smap \<Rightarrow> ('k, 'v) smap" where
  "smap_adjust k v m = map (\<lambda>(k', v'). if k' = k then (k', v) else (k', v')) m"

definition conf_volume :: "ptr \<Rightarrow> int \<Rightarrow> mnode \<Rightarrow> mnode" where
  "conf_volume q volume n =
     (let muting = (volume = VOLUME_MUTE \<or> volume = VOLUME_UNMUTE);
          n1 = n\<lparr>nd_volumes := (if 0 \<le> volume then smap_adjust q volume (nd_volumes n) else nd_volumes n),
                 nd_mutes := smap_adjust q (if muting then volume else VOLUME_UNMUTE) (nd_mutes n)\<rparr>
      in if muting then n1\<lparr>nd_volumes := smap_put q 100 (nd_volumes n1),
                            nd_mutes := smap_put q volume (nd_mutes n1)\<rparr>
         else let v = (if 0 \<le> volume then smap_put q volume (nd_volumes n1) else nd_volumes n1) in
           n1\<lparr>nd_volumes := snd (smap_index 0 q v), nd_mutes := smap_put q VOLUME_UNMUTE (nd_mutes n1)\<rparr>)"

definition conf_modify :: "ptr \<Rightarrow> ptr \<Rightarrow> int \<Rightarrow> int \<Rightarrow> mixer \<Rightarrow> (mixer \<times> int) cpp" where
  "conf_modify p q direction volume m =
     (if q = NULL then Val (m, -1)
      else cpp_bind (deref (mx_heap m) q) (\<lambda>k.
        if nd_mediaType k = MEDIACTRL_MEDIA_AUDIO then
          cpp_bind (deref (mx_heap m) p) (\<lambda>n. case smap_get (nd_nodes n) q of
            None \<Rightarrow> Val (m, -2)
          | Some _ \<Rightarrow> Val (putNode p (conf_volume q volume
                        (n\<lparr>nd_nodes := smap_adjust q direction (nd_nodes n)\<rparr>)) m, 0))
        else Val (m, 0)))"

text \<open>
  \<open>detach\<close> reads \<open>iter->first\<close> after it has erased the entry; the key is taken as still there, as
  it is in practice.
\<close>

definition conf_detach :: "ptr \<Rightarrow> ptr \<Rightarrow> mixer \<Rightarrow> (mixer \<times> int) cpp" where
  "conf_detach p q m =
     (if q = NULL then Val (m, -1)
      else cpp_bind (deref (mx_heap m) q) (\<lambda>k.
        if nd_mediaType k = MEDIACTRL_MEDIA_AUDIO then
          cpp_bind (deref (mx_heap m) p) (\<lambda>n. case smap_get (nd_nodes n) q of
            None \<Rightarrow> Val (m, -2)
          | Some _ \<Rightarrow> Val (putNode p (n\<lparr>nd_nodes := smap_erase q (nd_nodes n),
                                        nd_queued := smap_erase q (nd_queued n)\<rparr>) m, 0))
        else Val (m, 0)))"

subsection \<open>Virtual calls\<close>

definition node_attach :: "ptr \<Rightarrow> ptr \<Rightarrow> int \<Rightarrow> int \<Rightarrow> mixer \<Rightarrow> (mixer \<times> int) cpp" where
  "node_attach p q direction volume m =
     cpp_bind (deref (mx_heap m) p) (\<lambda>n.
       if nd_conf n then conf_attach p q direction volume m else con_attach p q direction volume m)"

definition node_modify :: "ptr \<Rightarrow> ptr \<Rightarrow> int \<Rightarrow> int \<Rightarrow> mixer \<Rightarrow> (mixer \<times> int) cpp" where
  "node_modify p q direction volume m =
     cpp_bind (deref (mx_heap m) p) (\<lambda>n.
       if nd_conf n then conf_modify p q direction volume m else con_modify p q direction volume m)"

definition node_detach :: "ptr \<Rightarrow> ptr \<Rightarrow> mixer \<Rightarrow> (mixer \<times> int) cpp" where
  "node_detach p q m =
     cpp_bind (deref (mx_heap m) p) (\<lambda>n. if nd_conf n then conf_detach p q m else con_detach p q m)"

subsection \<open>Notifications\<close>

definition quoted :: "string \<Rightarrow> string" where
  "quoted s = [CHR 0x22] @ s @ [CHR 0x22]"

definition mscmixer :: "string \<Rightarrow> string" where
  "mscmixer body = ''<mscmixer version='' @ quoted ''1.0'' @ '' xmlns='' @
     quoted ''urn:ietf:params:xml:ns:msc-mixer'' @ ''>'' @ body @ ''</mscmixer>''"

fun erase_first :: "('a \<Rightarrow> bool) \<Rightarrow> 'a list \<Rightarrow> 'a list" where
  "erase_first P [] = []"
| "erase_first P (x # xs) = (if P x then xs else x # erase_first P xs)"

definition notifyUnjoin :: "ptr \<Rightarrow> string \<Rightarrow> string \<Rightarrow> int \<Rightarrow> mixer \<Rightarrow> mixer" where
  "notifyUnjoin requester id1 id2 reason m =
     (let names = (\<lambda>j. j = id1 @ ''~'' @ id2 \<or> j = id2 @ ''~'' @ id1) in
      if \<not> list_ex names (mx_joins m) then m
      else emit (ControlEvent requester (mscmixer (''<event><unjoin-notify status='' @
               quoted (dec_int reason) @ '' id1='' @ quoted id1 @ '' id2='' @ quoted id2 @ ''/></event>'')))
             (m\<lparr>mx_joins := erase_first names (mx_joins m)\<rparr>))"

definition notifyConferenceExit :: "ptr \<Rightarrow> string \<Rightarrow> int \<Rightarrow> mixer \<Rightarrow> mixer" where
  "notifyConferenceExit requester confid reason m =
     emit (ControlEvent requester (mscmixer (''<event><conferenceexit status='' @ quoted (dec_int reason) @
       '' conferenceid='' @ quoted confid @ ''/></event>''))) m"

subsection \<open>The end of nodes\<close>

text \<open>Each peer other than the node itself lets go of it, and the requester hears of the end of the join.\<close>

definition part_from :: "ptr \<Rightarrow> mnode \<Rightarrow> ptr \<Rightarrow> mixer \<Rightarrow> mixer cpp" where
  "part_from p n q m =
     cpp_bind (node_detach q p m) (\<lambda>(m1, _).
     cpp_bind (deref (mx_heap m1) q) (\<lambda>k.
       Val (notifyUnjoin (nd_requester n) (nd_Id n) (nd_Id k) UNJOIN_CONTERMINATE m1)))"

definition free_node :: "ptr \<Rightarrow> mixer \<Rightarrow> mixer" where
  "free_node p m = m\<lparr>mx_heap := (mx_heap m)(p := None)\<rparr>"

definition con_destroy :: "ptr \<Rightarrow> mixer \<Rightarrow> mixer cpp" where
  "con_destroy p m =
     cpp_bind (deref (mx_heap m) p) (\<lambda>n.
     cpp_bind (for_each (\<lambda>q s. if q = NULL \<or> q = p then Val s else part_from p n q s) (map fst (nd_nodes n))
         (putNode p (n\<lparr>nd_connection := NULL\<rparr>) m))
       (\<lambda>m1. Val (free_node p m1)))"

definition endConference :: "string \<Rightarrow> mixer \<Rightarrow> mixer" where
  "endConference confId m = m\<lparr>mx_confs := smap_erase confId (mx_confs m)\<rparr>"

definition conf_destroy :: "ptr \<Rightarrow> mixer \<Rightarrow> mixer cpp" where
  "conf_destroy p m =
     cpp_bind (deref (mx_heap m) p) (\<lambda>n.
     cpp_bind (for_each (\<lambda>q s. if q = NULL then Val s else part_from p n q s) (map fst (nd_nodes n)) m)
       (\<lambda>m1. let m2 = (if nd_started n then notifyConferenceExit (nd_requester n) (nd_Id n) CONFEXIT_REQUEST m1
                       else m1);
                 m3 = endConference (nd_Id n) m2 in
          Val (free_node p (m3\<lparr>mx_nodes := smap_erase (nd_connection n) (mx_nodes m3)\<rparr>))))"

definition node_destroy :: "ptr \<Rightarrow> mixer \<Rightarrow> mixer cpp" where
  "node_destroy p m =
     cpp_bind (deref (mx_heap m) p) (\<lambda>n. if nd_conf n then conf_destroy p m else con_destroy p m)"

text \<open>\<open>MixerPackage::detach\<close>, and what the core tells the package when a connection ends.\<close>

definition mixer_detach :: "ptr \<Rightarrow> ptr \<Rightarrow> mixer \<Rightarrow> (mixer \<times> int) cpp" where
  "mixer_detach who peer m =
     (if who = NULL \<or> peer = NULL then Val (m, -1)
      else cpp_bind (node_detach who peer m) (\<lambda>(m1, _).
           cpp_bind (node_detach peer who m1) (\<lambda>(m2, _). Val (m2, 0))))"

definition connectionClosing :: "ptr \<Rightarrow> ptr \<Rightarrow> mixer \<Rightarrow> mixer cpp" where
  "connectionClosing connection subConnection m =
     (if connection = NULL \<or> subConnection = NULL \<or> mx_nodes m = [] then Val m
      else let node = fst (smap_index NULL subConnection (mx_nodes m));
               m1 = m\<lparr>mx_nodes := smap_erase subConnection (mx_nodes m)\<rparr> in
        cpp_bind (if node \<noteq> NULL then node_destroy node m1 else Val m1) (\<lambda>m2.
        cpp_bind (on_package removePackage connection m2) (\<lambda>m3.
          if connection \<noteq> subConnection then on_package removePackage subConnection m3 else Val m3)))"

end
