(* ===== verification/MixerAudio.thy ===== *)
theory MixerAudio
  imports MixerNode PcmSamples Complex_Main
begin

text \<open>
  \<open>src/packages/MixerPackage.cxx\<close>, the sound: how frames travel between nodes, the volume of a link,
  announcements, and one round of a conference's mixing thread. Frames are raw: 160 samples of 16
  bits in 320 bytes. A frame with fewer bytes is read past its end, which is undefined.
\<close>

subsection \<open>Samples\<close>

definition SHRT_MAX :: int where "SHRT_MAX = 32767"
definition SHRT_MIN :: int where "SHRT_MIN = -32768"

text \<open>C's division truncates towards zero.\<close>

definition cdiv :: "int \<Rightarrow> int \<Rightarrow> int" where
  "cdiv a b = (if (a < 0) = (b < 0) then \<bar>a\<bar> div \<bar>b\<bar> else - (\<bar>a\<bar> div \<bar>b\<bar>))"

definition is_int32 :: "int \<Rightarrow> bool" where
  "is_int32 x \<longleftrightarrow> -2147483648 \<le> x \<and> x \<le> 2147483647"

definition clip :: "int \<Rightarrow> int" where
  "clip x = (if SHRT_MAX < x then SHRT_MAX else if x < SHRT_MIN then SHRT_MIN else x)"

text \<open>The 160 samples behind \<open>getBuffer()\<close>; \<open>None\<close> for a NULL buffer.\<close>

definition samples160 :: "frame \<Rightarrow> int list option cpp" where
  "samples160 f = (case fr_buffer f of None \<Rightarrow> Val None
   | Some buf \<Rightarrow> if length buf < 320 then Undef else Val (Some (samples_of (take 320 buf))))"

text \<open>\<open>isSilence\<close>: the absolute value is stored in a \<open>short\<close> again.\<close>

fun all_quiet :: "int list \<Rightarrow> bool" where
  "all_quiet [] = True"
| "all_quiet (s # ss) = (if 3000 < to_short \<bar>s\<bar> then False else all_quiet ss)"

definition isSilence :: "frame option \<Rightarrow> bool cpp" where
  "isSilence fo = (case fo of None \<Rightarrow> Val False
   | Some f \<Rightarrow> case fr_buffer f of None \<Rightarrow> Val False
     | Some buf \<Rightarrow>
         if fr_media f \<noteq> MEDIACTRL_MEDIA_AUDIO \<or> fr_format f \<noteq> MEDIACTRL_RAW then Val False
         else let n = nat ((fr_len f + 1) div 2) in
           if all_quiet (samples_of (take (2 * n) buf)) \<and> length buf < 2 * n then Undef
           else Val (all_quiet (samples_of (take (2 * n) buf))))"

text \<open>\<open>getPercentVolume\<close> is \<open>(int)(100 * pow(10, dbGain / 10.0))\<close>: the tenth root of a power of
  ten, cut to an integer, which overflows from 74 dB on.\<close>

fun root10 :: "nat \<Rightarrow> int \<Rightarrow> int \<Rightarrow> int" where
  "root10 0 lo n = lo"
| "root10 (Suc k) lo n = (let mid = lo + 2 ^ k in if mid ^ 10 \<le> n then root10 k mid n else root10 k lo n)"

definition getPercentVolume :: "int \<Rightarrow> int cpp" where
  "getPercentVolume dbGain =
     (if dbGain < -20 then Val 0
      else if 73 < dbGain then Undef
      else Val (root10 32 0 (10 ^ nat (20 + dbGain))))"

subsection \<open>Frames for a connection or a conference\<close>

definition con_feedFrame :: "ptr \<Rightarrow> ptr \<Rightarrow> frame \<Rightarrow> mixer \<Rightarrow> mixer cpp" where
  "con_feedFrame p sender f m =
     cpp_bind (deref (mx_heap m) p) (\<lambda>n. case smap_get (nd_nodes n) sender of
       None \<Rightarrow> Val m
     | Some d \<Rightarrow> if d = SENDRECV \<or> d = RECVONLY then Val (emit (SendFrame (nd_connection n) f) m) else Val m)"

text \<open>\<open>m[k].push_back(x)\<close>.\<close>

definition enqueue :: "'k::linorder \<Rightarrow> 'v \<Rightarrow> ('k, 'v list) smap \<Rightarrow> ('k, 'v list) smap" where
  "enqueue k x m = (let (xs, m1) = smap_index [] k m in smap_put k (xs @ [x]) m1)"

definition raw_of :: "int \<Rightarrow> frame \<Rightarrow> mixer \<Rightarrow> (frame option \<times> mixer) cpp" where
  "raw_of tod f m =
     (if fr_format f \<noteq> MEDIACTRL_RAW then
        cpp_bind (core_decode (Some f) tod (mx_core m)) (\<lambda>(r, k). Val (r, m\<lparr>mx_core := k\<rparr>))
      else Val (Some f, m))"

definition conf_feedFrame :: "int \<Rightarrow> ptr \<Rightarrow> ptr \<Rightarrow> frame \<Rightarrow> mixer \<Rightarrow> mixer cpp" where
  "conf_feedFrame tod p sender f m =
     cpp_bind (raw_of tod f m) (\<lambda>(r, m1). case r of None \<Rightarrow> Val m1
     | Some raw \<Rightarrow> cpp_bind (deref (mx_heap m1) p) (\<lambda>n.
         Val (putNode p (n\<lparr>nd_queued := enqueue sender raw (nd_queued n)\<rparr>) m1)))"

definition node_feedFrame :: "int \<Rightarrow> ptr \<Rightarrow> ptr \<Rightarrow> frame \<Rightarrow> mixer \<Rightarrow> mixer cpp" where
  "node_feedFrame tod p sender f m =
     cpp_bind (deref (mx_heap m) p) (\<lambda>n.
       if nd_conf n then conf_feedFrame tod p sender f m else con_feedFrame p sender f m)"

text \<open>\<open>new MediaCtrlFrame()\<close> filled by \<open>setBuffer\<close>, as the volume of a link asks for.\<close>

definition mixer_frame :: "int \<Rightarrow> int list \<Rightarrow> frame cpp" where
  "mixer_frame tod ss =
     setBuffer ((newFrame MEDIACTRL_MEDIA_AUDIO tod)\<lparr>fr_who := ALLOC_MIXER\<rparr>) (bytes_of ss) 320"

definition scale :: "int \<Rightarrow> int list \<Rightarrow> int list cpp" where
  "scale volume ss =
     (if list_all (\<lambda>s. is_int32 (s * volume)) ss then Val (map (\<lambda>s. clip (cdiv (s * volume) 100)) ss)
      else Undef)"

text \<open>One round of the loop of \<open>MixerConnection::incomingFrame\<close>, for the peer \<open>q\<close> in direction \<open>d\<close>.\<close>

definition pass_on :: "int \<Rightarrow> ptr \<Rightarrow> frame \<Rightarrow> ptr \<times> int \<Rightarrow> mixer \<Rightarrow> mixer cpp" where
  "pass_on tod p f e m = (let (q, d) = e in
     if q = NULL \<or> \<not> (d = SENDRECV \<or> d = SENDONLY) \<or> fr_media f \<noteq> MEDIACTRL_MEDIA_AUDIO then Val m
     else cpp_bind (deref (mx_heap m) p) (\<lambda>n.
       let (mute, mutes) = smap_index 0 q (nd_mutes n) in
       if mute = VOLUME_MUTE then Val (putNode p (n\<lparr>nd_mutes := mutes\<rparr>) m)
       else let (volume, volumes) = smap_index 0 q (nd_volumes n);
                m1 = putNode p (n\<lparr>nd_mutes := mutes, nd_volumes := volumes\<rparr>) m in
         if volume = 100 then node_feedFrame tod q p f m1
         else cpp_bind (samples160 f) (\<lambda>so. case so of None \<Rightarrow> Val m1
           | Some ss \<Rightarrow> cpp_bind (scale volume ss) (\<lambda>ss'. cpp_bind (mixer_frame tod ss') (\<lambda>g.
               node_feedFrame tod q p g m1)))))"

fun pass_all :: "int \<Rightarrow> ptr \<Rightarrow> frame \<Rightarrow> (ptr \<times> int) list \<Rightarrow> mixer \<Rightarrow> mixer cpp" where
  "pass_all tod p f [] m = Val m"
| "pass_all tod p f (e # es) m = cpp_bind (pass_on tod p f e m) (pass_all tod p f es)"

definition con_incomingFrame :: "int \<Rightarrow> ptr \<Rightarrow> frame \<Rightarrow> mixer \<Rightarrow> mixer cpp" where
  "con_incomingFrame tod p f m =
     cpp_bind (deref (mx_heap m) p) (\<lambda>n.
       if nd_connection n = NULL then Val m else pass_all tod p f (nd_nodes n) m)"

subsection \<open>Announcements\<close>

text \<open>The decoder's NULL is used before it is checked.\<close>

definition conf_incomingFrame_mx :: "int \<Rightarrow> ptr \<Rightarrow> frame \<Rightarrow> mixer \<Rightarrow> mixer cpp" where
  "conf_incomingFrame_mx tod p f m =
     cpp_bind (raw_of tod f m) (\<lambda>(r, m1). case r of None \<Rightarrow> Undef
     | Some raw \<Rightarrow>
         let tid = fr_tid f; g = raw\<lparr>fr_tid := tid\<rparr> in
         if tid = '''' then Val m1
         else cpp_bind (deref (mx_heap m1) p) (\<lambda>n.
           Val (putNode p (if fr_type g = UNLOCKING_FRAME then n\<lparr>nd_bots := smap_erase tid (nd_bots n)\<rparr>
                           else n\<lparr>nd_bots := enqueue tid g (nd_bots n)\<rparr>) m1)))"

definition mixer_sendFrame :: "int \<Rightarrow> ptr \<Rightarrow> frame \<Rightarrow> mixer \<Rightarrow> mixer cpp" where
  "mixer_sendFrame tod connection f m =
     (if connection = NULL \<or> mx_nodes m = [] then Val m
      else let (node, ns) = smap_index NULL connection (mx_nodes m) in
        if node \<noteq> NULL then
          cpp_bind (deref (mx_heap m) node) (\<lambda>n.
            if nd_conf n then conf_incomingFrame_mx tod node f (m\<lparr>mx_nodes := ns\<rparr>)
            else Val (m\<lparr>mx_nodes := ns\<rparr>))
        else Val (m\<lparr>mx_nodes := smap_erase connection ns\<rparr>))"

definition mixer_incomingFrame :: "int \<Rightarrow> ptr \<Rightarrow> ptr \<Rightarrow> frame \<Rightarrow> mixer \<Rightarrow> mixer cpp" where
  "mixer_incomingFrame tod connection subConnection f m =
     (if connection = NULL \<or> subConnection = NULL \<or> mx_nodes m = [] then Val m
      else let (node, ns) = smap_index NULL subConnection (mx_nodes m); m1 = m\<lparr>mx_nodes := ns\<rparr> in
        if node \<noteq> NULL then
          cpp_bind (deref (md_cps (core_md (mx_core m1))) subConnection) (\<lambda>d.
            if cpc_type d \<noteq> CPC_CONFERENCE then
              cpp_bind (deref (mx_heap m1) node) (\<lambda>n.
                if nd_conf n then conf_incomingFrame_mx tod node f m1 else con_incomingFrame tod node f m1)
            else Val m1)
        else Val (m1\<lparr>mx_nodes := smap_erase connection ns\<rparr>))"

subsection \<open>The mixing thread\<close>

text \<open>Sum of the samples that announcements contribute; each queue with frames loses its first.\<close>

definition add_samples :: "int list \<Rightarrow> int list \<Rightarrow> int list" where
  "add_samples xs ys = map2 (+) xs ys"

fun mix_bots :: "(string \<times> frame list) list \<Rightarrow> int list \<Rightarrow> (int list \<times> (string \<times> frame list) list) cpp" where
  "mix_bots [] acc = Val (acc, [])"
| "mix_bots ((tid, []) # rest) acc =
     cpp_bind (mix_bots rest acc) (\<lambda>(b, r). Val (b, (tid, []) # r))"
| "mix_bots ((tid, f # fs) # rest) acc =
     cpp_bind (samples160 f) (\<lambda>so.
     cpp_bind (mix_bots rest (case so of None \<Rightarrow> acc | Some ss \<Rightarrow> add_samples acc ss)) (\<lambda>(b, r).
       Val (b, (tid, fs) # r)))"

text \<open>
  The first loop over the peers: who contributes is added to the sum, at a third of the level
  while an announcement plays, and named as a talker unless silent.
\<close>

definition third :: "bool \<Rightarrow> int list \<Rightarrow> int list" where
  "third playing ss = (if playing then map (\<lambda>s. cdiv s 3) ss else ss)"

fun mix_peers :: "(ptr \<rightharpoonup> mnode) \<Rightarrow> bool \<Rightarrow> (ptr \<times> int) list \<Rightarrow> int list \<times> string list \<times> (ptr, frame list) smap \<Rightarrow>
    (int list \<times> string list \<times> (ptr, frame list) smap) cpp" where
  "mix_peers h playing [] acc = Val acc"
| "mix_peers h playing ((q, d) # es) (buffer, talkers, queued) =
     (if q = NULL \<or> \<not> (d = SENDRECV \<or> d = RECVONLY) then mix_peers h playing es (buffer, talkers, queued)
      else let (frames, queued1) = smap_index [] q queued in
        case frames of [] \<Rightarrow> mix_peers h playing es (buffer, talkers, queued1)
        | f # fs \<Rightarrow>
            cpp_bind (isSilence (Some f)) (\<lambda>silent.
            cpp_bind (samples160 f) (\<lambda>so. case so of
              None \<Rightarrow> mix_peers h playing es (buffer, talkers, queued1)
            | Some ss \<Rightarrow>
                cpp_bind (if silent then Val talkers
                          else cpp_bind (deref h q) (\<lambda>k. Val (talkers @ [nd_Id k]))) (\<lambda>talkers1.
                  mix_peers h playing es (add_samples buffer (third playing ss), talkers1, queued1)))))"

text \<open>What one peer gets: the sum less its own part, at its volume, clipped. The sums are of type \<open>long\<close>, which
  has 32 bits where the \<open>memset\<close> of 640 bytes clears all 160 of them: the product with the volume may
  overflow. (The sums themselves stay in range for fewer than 65536 frames.)\<close>

definition without_own :: "bool \<Rightarrow> int list \<Rightarrow> int list option \<Rightarrow> int list" where
  "without_own playing buffer own = (case own of None \<Rightarrow> buffer | Some ss \<Rightarrow> map2 (-) buffer (third playing ss))"

definition mixed :: "bool \<Rightarrow> int \<Rightarrow> int list \<Rightarrow> int list option \<Rightarrow> int list" where
  "mixed playing volume buffer own =
     map (\<lambda>x. clip (if volume \<noteq> 100 then cdiv (x * volume) 100 else x)) (without_own playing buffer own)"

definition mix_out :: "bool \<Rightarrow> int \<Rightarrow> int list \<Rightarrow> int list option \<Rightarrow> int list cpp" where
  "mix_out playing volume buffer own =
     (if volume = 100 \<or> list_all (\<lambda>x. is_int32 (x * volume)) (without_own playing buffer own)
      then Val (mixed playing volume buffer own) else Undef)"

lemma mix_out_Val: "mix_out playing volume buffer own = Val ss \<Longrightarrow> ss = mixed playing volume buffer own"
  by (simp add: mix_out_def split: if_splits)

text \<open>The frame at the head of the queue of a peer that contributes.\<close>

definition own_part :: "int \<Rightarrow> frame list \<Rightarrow> int list option cpp" where
  "own_part d frames =
     (if d = SENDRECV \<or> d = RECVONLY then (case frames of [] \<Rightarrow> Val None | f # _ \<Rightarrow> samples160 f)
      else Val None)"

definition mix_one :: "int \<Rightarrow> ptr \<Rightarrow> bool \<Rightarrow> int list \<Rightarrow> ptr \<times> int \<Rightarrow> mixer \<Rightarrow> mixer cpp" where
  "mix_one tod p playing buffer e m = (let (q, d) = e in
     if q = NULL \<or> \<not> (d = SENDRECV \<or> d = SENDONLY) then Val m
     else cpp_bind (deref (mx_heap m) p) (\<lambda>n.
       let (mute, mutes) = smap_index 0 q (nd_mutes n) in
       if mute = VOLUME_MUTE then Val (putNode p (n\<lparr>nd_mutes := mutes\<rparr>) m)
       else let (volume, volumes) = smap_index 0 q (nd_volumes n);
                (frames, queued) = smap_index [] q (nd_queued n);
                m1 = putNode p (n\<lparr>nd_mutes := mutes, nd_volumes := volumes, nd_queued := queued\<rparr>) m in
         cpp_bind (own_part d frames) (\<lambda>own.
         cpp_bind (mix_out playing volume buffer own) (\<lambda>ss.
         cpp_bind (newFrameBuf MEDIACTRL_MEDIA_AUDIO (bytes_of ss) 320 MEDIACTRL_RAW tod) (\<lambda>g.
           node_feedFrame tod q p (g\<lparr>fr_who := ALLOC_MIXER\<rparr>) m1)))))"

fun mix_each :: "int \<Rightarrow> ptr \<Rightarrow> bool \<Rightarrow> int list \<Rightarrow> (ptr \<times> int) list \<Rightarrow> mixer \<Rightarrow> mixer cpp" where
  "mix_each tod p playing buffer [] m = Val m"
| "mix_each tod p playing buffer (e # es) m =
     cpp_bind (mix_one tod p playing buffer e m) (mix_each tod p playing buffer es)"

text \<open>Frames that were mixed, or could have been, are dropped.\<close>

fun drop_mixed :: "ptr list \<Rightarrow> (ptr, frame list) smap \<Rightarrow> (ptr, frame list) smap" where
  "drop_mixed [] queued = queued"
| "drop_mixed (q # qs) queued =
     (if q = NULL then drop_mixed qs queued
      else let (frames, queued1) = smap_index [] q queued in
        drop_mixed qs (if frames = [] then queued1 else smap_put q (tl frames) queued1))"

definition talkers_event :: "string \<Rightarrow> string list \<Rightarrow> string" where
  "talkers_event confId talkers =
     ''<active-talkers-notify conferenceid='' @ quoted confId @ ''>'' @
     concat (map (\<lambda>t. ''<active-talker connectionid='' @ quoted t @ ''/>'') talkers) @
     ''</active-talkers-notify>''"

definition notifyEvent :: "ptr \<Rightarrow> string \<Rightarrow> mixer \<Rightarrow> mixer cpp" where
  "notifyEvent p body m = cpp_bind (deref (mx_heap m) p) (\<lambda>n.
     Val (emit (ControlEvent (nd_requester n) (mscmixer (''<event>'' @ body @ ''</event>''))) m))"

text \<open>\<open>elapsed\<close> is what the timer shows.\<close>

definition notify_talkers :: "nat \<Rightarrow> ptr \<Rightarrow> string list \<Rightarrow> mixer \<Rightarrow> mixer cpp" where
  "notify_talkers elapsed p talkers m =
     cpp_bind (deref (mx_heap m) p) (\<lambda>n.
       if nd_notify n \<and> nd_timer n \<and> talkers \<noteq> [] \<and> unat (nd_interval n) < elapsed - unat (nd_start n) then
         cpp_bind (notifyEvent p (talkers_event (nd_Id n) talkers) m) (\<lambda>m1.
           Val (putNode p (n\<lparr>nd_start := word_of_nat elapsed\<rparr>) m1))
       else Val m)"

text \<open>One round of \<open>run()\<close>, after the wait for the next 20 ms.\<close>

definition conf_round :: "int \<Rightarrow> nat \<Rightarrow> ptr \<Rightarrow> mixer \<Rightarrow> mixer cpp" where
  "conf_round tod elapsed p m =
     cpp_bind (deref (mx_heap m) p) (\<lambda>n.
     cpp_bind (mix_bots (nd_bots n) (replicate 160 0)) (\<lambda>(buffer0, bots).
       let playing = (nd_bots n \<noteq> []); n1 = n\<lparr>nd_bots := bots, nd_playing := playing\<rparr> in
       if nd_nodes n = [] then Val (putNode p n1 m)
       else cpp_bind (mix_peers (mx_heap m) playing (nd_nodes n) (buffer0, [], nd_queued n))
         (\<lambda>(buffer, talkers, queued).
         cpp_bind (mix_each tod p playing buffer (nd_nodes n) (putNode p (n1\<lparr>nd_queued := queued\<rparr>) m)) (\<lambda>m1.
         cpp_bind (deref (mx_heap m1) p) (\<lambda>n2.
           notify_talkers elapsed p talkers
             (putNode p (n2\<lparr>nd_queued := drop_mixed (map fst (nd_nodes n2)) (nd_queued n2)\<rparr>) m1))))))"

text \<open>The start of the thread, and the subscription to the talkers' events.\<close>

definition conf_start :: "ptr \<Rightarrow> mixer \<Rightarrow> mixer cpp" where
  "conf_start p m = cpp_bind (deref (mx_heap m) p) (\<lambda>n. Val (putNode p (n\<lparr>nd_started := True\<rparr>) m))"

definition conf_subscribe :: "u32 \<Rightarrow> nat \<Rightarrow> ptr \<Rightarrow> mixer \<Rightarrow> mixer cpp" where
  "conf_subscribe interval elapsed p m =
     cpp_bind (deref (mx_heap m) p) (\<lambda>n.
       let n1 = n\<lparr>nd_interval := interval * 1000\<rparr> in
       Val (putNode p
         (if interval = 0 then n1\<lparr>nd_notify := False, nd_timer := False, nd_start := 0\<rparr>
          else if nd_timer n1 then n1\<lparr>nd_notify := True\<rparr>
          else n1\<lparr>nd_notify := True, nd_timer := True, nd_start := word_of_nat elapsed\<rparr>) m))"

subsection \<open>Percentages\<close>

lemma root10_bounds:
  "lo ^ 10 \<le> n \<Longrightarrow> n < (lo + 2 ^ k) ^ 10 \<Longrightarrow> lo \<le> root10 k lo n \<and> root10 k lo n ^ 10 \<le> n \<and> n < (root10 k lo n + 1) ^ 10"
proof (induction k arbitrary: lo)
  case (Suc k)
  have e: "lo + 2 ^ k + 2 ^ k = lo + 2 ^ Suc k" by simp
  show ?case
  proof (cases "(lo + 2 ^ k) ^ 10 \<le> n")
    case True
    have "lo + 2 ^ k \<le> root10 k (lo + 2 ^ k) n \<and> root10 k (lo + 2 ^ k) n ^ 10 \<le> n \<and>
        n < (root10 k (lo + 2 ^ k) n + 1) ^ 10"
      by (rule Suc.IH) (use True Suc.prems in \<open>simp_all only: e\<close>)
    moreover have "lo \<le> lo + 2 ^ k" by simp
    ultimately have "lo \<le> root10 k (lo + 2 ^ k) n" by (simp only: order_trans [of lo "lo + 2 ^ k"])
    with True \<open>_ \<and> _ \<and> _\<close> show ?thesis by (simp only: root10.simps Let_def if_True simp_thms)
  next
    case False
    then have "root10 (Suc k) lo n = root10 k lo n" by (simp only: root10.simps Let_def if_False)
    moreover have "lo \<le> root10 k lo n \<and> root10 k lo n ^ 10 \<le> n \<and> n < (root10 k lo n + 1) ^ 10"
      using False Suc by (simp only: not_le)
    ultimately show ?thesis by simp
  qed
qed simp

lemma powr_tenth_iff:
  fixes v db :: int
  assumes "-20 \<le> db" and "0 \<le> v"
  shows "real_of_int v \<le> 100 * 10 powr (real_of_int db / 10) \<longleftrightarrow> v ^ 10 \<le> 10 ^ nat (20 + db)"
proof -
  have e: "(100 * 10 powr (real_of_int db / 10)) ^ 10 = (10 :: real) ^ nat (20 + db)"
  proof -
    have "(100 * 10 powr (real_of_int db / 10) :: real) = 10 powr (2 + real_of_int db / 10)"
      by (simp add: powr_add)
    then have "(100 * 10 powr (real_of_int db / 10) :: real) ^ 10 = 10 powr (real 10 * (2 + real_of_int db / 10))"
      by (simp add: powr_power)
    also have "real 10 * (2 + real_of_int db / 10) = real (nat (20 + db))" using assms by simp
    finally show ?thesis by (simp only: powr_realpow zero_less_numeral)
  qed
  have "real_of_int v \<le> 100 * 10 powr (real_of_int db / 10) \<longleftrightarrow>
      real_of_int v ^ 10 \<le> (100 * 10 powr (real_of_int db / 10)) ^ 10"
    by (rule power_mono_iff [symmetric]) (use assms in simp_all)
  also have "\<dots> \<longleftrightarrow> real_of_int (v ^ 10) \<le> real_of_int (10 ^ nat (20 + db))" unfolding e by simp
  finally show ?thesis by (simp only: of_int_le_iff)
qed

text \<open>
  The volume of a gain in decibel is the percentage it stands for, cut to an integer, as long as
  that fits an \<open>int\<close>; from 74 dB on it does not.
\<close>

theorem percent_of_gain:
  "(db \<le> 73 \<longleftrightarrow> getPercentVolume db \<noteq> Undef) \<and>
   (\<forall>v. getPercentVolume db = Val v \<longrightarrow> v = \<lfloor>100 * 10 powr (real_of_int db / 10)\<rfloor>)"
proof (cases "db < -20")
  case True
  have "(10::real) powr (real_of_int db / 10) < 10 powr (-2)" using True by simp
  then have "100 * 10 powr (real_of_int db / 10) < 100 * (10::real) powr (-2)" by simp
  also have "\<dots> = 1" by (simp add: powr_minus)
  finally have "\<lfloor>100 * 10 powr (real_of_int db / 10)\<rfloor> = 0" by (simp add: floor_eq_iff)
  with True show ?thesis by (simp add: getPercentVolume_def)
next
  case False
  let ?n = "10 ^ nat (20 + db) :: int" and ?r = "root10 32 0 (10 ^ nat (20 + db))"
  show ?thesis
  proof (cases "db \<le> 73")
    case True
    have "?n \<le> 10 ^ 93" using True by (intro power_increasing) simp_all
    also have "\<dots> < (0 + 2 ^ 32) ^ 10" by simp
    finally have b: "0 \<le> ?r" "?r ^ 10 \<le> ?n" "?n < (?r + 1) ^ 10" using root10_bounds [of 0 ?n 32] by auto
    have "real_of_int ?r \<le> 100 * 10 powr (real_of_int db / 10)"
      using b(1,2) False by (simp only: powr_tenth_iff)
    moreover have "\<not> real_of_int (?r + 1) \<le> 100 * 10 powr (real_of_int db / 10)"
      using b(1,3) False by (subst powr_tenth_iff) linarith+
    ultimately have "\<lfloor>100 * 10 powr (real_of_int db / 10)\<rfloor> = ?r"
      by (simp only: floor_eq_iff of_int_add of_int_1 not_le simp_thms)
    with True False show ?thesis by (simp add: getPercentVolume_def)
  qed (use False in \<open>simp add: getPercentVolume_def\<close>)
qed

theorem percent_of_gain_witness:
  "getPercentVolume (-3) = Val 50 \<and> 50 = \<lfloor>100 * 10 powr (real_of_int (-3) / 10)\<rfloor>"
proof -
  have "getPercentVolume (-3) = Val 50" by code_simp
  with percent_of_gain [of "-3"] show ?thesis by blast
qed

subsection \<open>Sums of samples\<close>

lemma clip_short [simp]: "is_short (clip x)"
  by (simp add: clip_def is_short_def SHRT_MAX_def SHRT_MIN_def)

lemma clip_id: "is_short x \<Longrightarrow> clip x = x"
  by (simp add: clip_def is_short_def SHRT_MAX_def SHRT_MIN_def)

lemma samples160_length: "samples160 f = Val (Some ss) \<Longrightarrow> length ss = 160"
  by (auto simp: samples160_def split: option.splits if_splits)

lemma length_third [simp]: "length (third playing ss) = length ss"
  by (simp add: third_def)

definition frames_of :: "(ptr, frame list) smap \<Rightarrow> ptr \<Rightarrow> frame list" where
  "frames_of queued q = (case smap_get queued q of None \<Rightarrow> [] | Some fs \<Rightarrow> fs)"

lemma frames_index [simp]: "fst (smap_index [] q queued) = frames_of queued q"
  by (simp add: frames_of_def)

lemma frames_of_index [simp]: "smap_ok queued \<Longrightarrow> frames_of (snd (smap_index [] q queued)) = frames_of queued"
  by (rule ext) (simp add: frames_of_def)

text \<open>What a peer adds to the mix.\<close>

definition part :: "bool \<Rightarrow> (ptr, frame list) smap \<Rightarrow> ptr \<times> int \<Rightarrow> int list" where
  "part playing queued e =
     (if fst e = NULL then replicate 160 0
      else case own_part (snd e) (frames_of queued (fst e)) of
        Val (Some ss) \<Rightarrow> third playing ss | _ \<Rightarrow> replicate 160 0)"

lemma part_cong: "frames_of qs' = frames_of qs \<Longrightarrow> part playing qs' e = part playing qs e"
  by (simp add: part_def)

lemma own_part_length: "own_part d fs = Val (Some ss) \<Longrightarrow> length ss = 160"
  by (auto simp: own_part_def samples160_length split: if_splits list.splits)

lemma part_length [simp]: "length (part playing queued e) = 160"
  by (auto simp: part_def own_part_length split: cpp.split option.split)

lemma add_samples_nth: "length xs = 160 \<Longrightarrow> length ys = 160 \<Longrightarrow> i < 160 \<Longrightarrow> add_samples xs ys ! i = xs ! i + ys ! i"
  by (simp add: add_samples_def)

lemma length_add_samples [simp]: "length (add_samples xs ys) = min (length xs) (length ys)"
  by (simp add: add_samples_def)

lemma mix_peers_sum:
  "mix_peers h playing es (b, t, qs) = Val (b', t', qs') \<Longrightarrow> smap_ok qs \<Longrightarrow> length b = 160 \<Longrightarrow>
     smap_ok qs' \<and> length b' = 160 \<and> frames_of qs' = frames_of qs \<and>
     (\<forall>i<160. b' ! i = b ! i + (\<Sum>e\<leftarrow>es. part playing qs e ! i))"
proof (induction es arbitrary: b t qs)
  case (Cons e es)
  obtain q d where e: "e = (q, d)" by (cases e)
  obtain qs1 where qs1: "smap_index [] q qs = (frames_of qs q, qs1)" "smap_ok qs1" "frames_of qs1 = frames_of qs"
    using frames_index [of q qs] smap_index_ok [OF Cons.prems(2)] frames_of_index [OF Cons.prems(2)]
    by (metis prod.collapse)
  have pc: "part playing qs1 = part playing qs" using qs1(3) part_cong by blast
  show ?case
  proof (cases "q = NULL \<or> \<not> (d = SENDRECV \<or> d = RECVONLY)")
    case True
    then have "part playing qs e = replicate 160 0" by (auto simp: part_def own_part_def e)
    moreover have "mix_peers h playing es (b, t, qs) = Val (b', t', qs')"
      using Cons.prems(1) True by (simp add: e)
    ultimately show ?thesis using Cons.IH [OF _ Cons.prems(2,3)] by simp
  next
    case False
    show ?thesis
    proof (cases "frames_of qs q")
      case Nil
      then have "part playing qs e = replicate 160 0" by (auto simp: part_def own_part_def e)
      moreover have "mix_peers h playing es (b, t, qs1) = Val (b', t', qs')"
        using Cons.prems(1) False Nil qs1(1) by (auto simp: e split: if_splits)
      ultimately show ?thesis using Cons.IH [OF _ qs1(2) Cons.prems(3)] qs1(3) pc by simp
    next
      case (Cons f fs)
      have "mix_peers h playing (e # es) (b, t, qs) = cpp_bind (isSilence (Some f)) (\<lambda>silent.
            cpp_bind (samples160 f) (\<lambda>so. case so of
              None \<Rightarrow> mix_peers h playing es (b, t, qs1)
            | Some ss \<Rightarrow>
                cpp_bind (if silent then Val t
                          else cpp_bind (deref h q) (\<lambda>k. Val (t @ [nd_Id k]))) (\<lambda>talkers1.
                  mix_peers h playing es (add_samples b (third playing ss), talkers1, qs1))))"
        using False Cons qs1(1) by (auto simp: e)
      with Cons.prems(1) have "cpp_bind (isSilence (Some f)) (\<lambda>silent.
            cpp_bind (samples160 f) (\<lambda>so. case so of
              None \<Rightarrow> mix_peers h playing es (b, t, qs1)
            | Some ss \<Rightarrow>
                cpp_bind (if silent then Val t
                          else cpp_bind (deref h q) (\<lambda>k. Val (t @ [nd_Id k]))) (\<lambda>talkers1.
                  mix_peers h playing es (add_samples b (third playing ss), talkers1, qs1)))) = Val (b', t', qs')"
        by simp
      then obtain silent so where so: "samples160 f = Val so" and go: "(case so of
              None \<Rightarrow> mix_peers h playing es (b, t, qs1)
            | Some ss \<Rightarrow>
                cpp_bind (if silent then Val t
                          else cpp_bind (deref h q) (\<lambda>k. Val (t @ [nd_Id k]))) (\<lambda>talkers1.
                  mix_peers h playing es (add_samples b (third playing ss), talkers1, qs1))) = Val (b', t', qs')"
        by (elim cpp_bindE [where r = "isSilence (Some f)"] cpp_bindE [where r = "samples160 f"])
      show ?thesis
      proof (cases so)
        case None
        then have "part playing qs e = replicate 160 0" using Cons so False by (auto simp: part_def own_part_def e)
        moreover have "mix_peers h playing es (b, t, qs1) = Val (b', t', qs')" using go None by simp
        ultimately show ?thesis using Cons.IH [OF _ qs1(2) Cons.prems(3)] qs1(3) pc by simp
      next
        case (Some ss)
        then obtain t1 where r: "mix_peers h playing es (add_samples b (third playing ss), t1, qs1) = Val (b', t', qs')"
          using go by (auto simp: cpp_bind_Val)
        have l: "length ss = 160" using so Some samples160_length by blast
        then have "part playing qs e = third playing ss"
          using \<open>frames_of qs q = f # fs\<close> so Some False by (auto simp: part_def own_part_def e)
        then show ?thesis using Cons.IH [OF r qs1(2)] qs1(3) pc l Cons.prems(3)
          by (simp add: add_samples_nth)
      qed
    qed
  qed
qed simp

lemma mix_bots_length: "mix_bots bs acc = Val (b, r) \<Longrightarrow> length acc = 160 \<Longrightarrow> length b = 160"
proof (induction bs acc arbitrary: b r rule: mix_bots.induct)
  case (3 tid f fs rest acc)
  then obtain so r' where so: "samples160 f = Val so"
    and r: "mix_bots rest (case so of None \<Rightarrow> acc | Some ss \<Rightarrow> add_samples acc ss) = Val (b, r')"
    by (auto simp: cpp_bind_Val)
  show ?case by (rule "3.IH" [OF r]) (use so 3 in \<open>auto simp: samples160_length split: option.split\<close>)
qed (auto simp: cpp_bind_Val)

subsection \<open>What a round leaves alone\<close>

definition entry_of :: "(ptr, int) smap \<Rightarrow> ptr \<Rightarrow> int" where
  "entry_of vs q = (case smap_get vs q of None \<Rightarrow> 0 | Some v \<Rightarrow> v)"

lemma entry_index [simp]: "fst (smap_index 0 q vs) = entry_of vs q"
  by (simp add: entry_of_def)

lemma entry_of_index [simp]: "smap_ok vs \<Longrightarrow> entry_of (snd (smap_index 0 q vs)) = entry_of vs"
  by (rule ext) (simp add: entry_of_def)

definition sound_ok :: "mnode \<Rightarrow> bool" where
  "sound_ok n \<longleftrightarrow> smap_ok (nd_mutes n) \<and> smap_ok (nd_volumes n) \<and> smap_ok (nd_queued n)"

definition same_sound :: "mnode \<Rightarrow> mnode \<Rightarrow> bool" where
  "same_sound n n' \<longleftrightarrow> nd_nodes n' = nd_nodes n \<and> entry_of (nd_mutes n') = entry_of (nd_mutes n) \<and>
     entry_of (nd_volumes n') = entry_of (nd_volumes n) \<and> frames_of (nd_queued n') = frames_of (nd_queued n) \<and>
     sound_ok n'"

text \<open>Only the node \<open>p\<close> itself, conferences and the output change.\<close>

definition quiet_step :: "ptr \<Rightarrow> mixer \<Rightarrow> mixer \<Rightarrow> bool" where
  "quiet_step p m m' \<longleftrightarrow>
     (\<forall>x k. x \<noteq> p \<longrightarrow> mx_heap m x = Some k \<longrightarrow> \<not> nd_conf k \<longrightarrow> mx_heap m' x = Some k) \<and>
     (\<exists>outs. mx_out m' = mx_out m @ outs)"

lemma quiet_step_refl [simp]: "quiet_step p m m"
  by (simp add: quiet_step_def)

lemma quiet_step_trans: "quiet_step p a b \<Longrightarrow> quiet_step p b c \<Longrightarrow> quiet_step p a c"
  unfolding quiet_step_def by (metis append.assoc)

lemma raw_of_keeps: "raw_of tod f m = Val (r, m') \<Longrightarrow> mx_heap m' = mx_heap m \<and> mx_out m' = mx_out m"
  by (auto simp: raw_of_def cpp_bind_Val split: if_splits)

lemma putNode_simps [simp]:
  "mx_heap (putNode p n m) = (mx_heap m)(p \<mapsto> n)" "mx_out (putNode p n m) = mx_out m"
  "mx_nodes (putNode p n m) = mx_nodes m" "mx_confs (putNode p n m) = mx_confs m"
  "mx_core (putNode p n m) = mx_core m" "mx_joins (putNode p n m) = mx_joins m"
  "mx_next (putNode p n m) = mx_next m" "mx_pkg (putNode p n m) = mx_pkg m"
  by (simp_all add: putNode_def)

lemma emit_simps [simp]:
  "mx_heap (emit e m) = mx_heap m" "mx_out (emit e m) = mx_out m @ [e]"
  "mx_nodes (emit e m) = mx_nodes m" "mx_confs (emit e m) = mx_confs m"
  "mx_core (emit e m) = mx_core m" "mx_joins (emit e m) = mx_joins m"
  "mx_next (emit e m) = mx_next m" "mx_pkg (emit e m) = mx_pkg m"
  by (simp_all add: emit_def)

lemma feed_keeps:
  assumes "node_feedFrame tod q p f m = Val m'" and "q \<noteq> p"
  shows "mx_heap m' p = mx_heap m p \<and> quiet_step p m m'"
proof -
  from assms(1) obtain n where n: "q \<noteq> NULL" "mx_heap m q = Some n"
    and r: "(if nd_conf n then conf_feedFrame tod q p f m else con_feedFrame q p f m) = Val m'"
    by (auto simp: node_feedFrame_def cpp_bind_Val)
  show ?thesis
  proof (cases "nd_conf n")
    case True
    with r have "conf_feedFrame tod q p f m = Val m'" by simp
    then obtain ro m1 where m1: "raw_of tod f m = Val (ro, m1)"
      and c: "(case ro of None \<Rightarrow> Val m1 | Some raw \<Rightarrow> cpp_bind (deref (mx_heap m1) q) (\<lambda>n.
         Val (putNode q (n\<lparr>nd_queued := enqueue p raw (nd_queued n)\<rparr>) m1))) = Val m'"
      unfolding conf_feedFrame_def by (rule cpp_bind2E)
    from raw_of_keeps [OF m1] have k: "mx_heap m1 = mx_heap m" "mx_out m1 = mx_out m" by auto
    have "m' = m1 \<or> (\<exists>n'. m' = putNode q n' m1)"
      using c by (cases ro) (auto elim: cpp_bindE)
    then have "mx_out m' = mx_out m" "\<forall>x. x \<noteq> q \<longrightarrow> mx_heap m' x = mx_heap m x" using k by auto
    moreover have "x \<noteq> q" if "mx_heap m x = Some k" "\<not> nd_conf k" for x k using that n True by auto
    ultimately show ?thesis using assms(2) unfolding quiet_step_def by auto
  next
    case False
    with r n show ?thesis by (auto simp: con_feedFrame_def quiet_step_def split: option.splits if_splits)
  qed
qed

text \<open>\<open>operator[]\<close> on the three maps.\<close>

definition touch :: "ptr \<Rightarrow> mnode \<Rightarrow> mnode" where
  "touch q n = n\<lparr>nd_mutes := snd (smap_index 0 q (nd_mutes n)),
     nd_volumes := snd (smap_index 0 q (nd_volumes n)), nd_queued := snd (smap_index [] q (nd_queued n))\<rparr>"

lemma mix_one_eq:
  assumes "p \<noteq> NULL" and "mx_heap m p = Some n" and "q \<noteq> NULL" and "d = SENDRECV \<or> d = SENDONLY"
  shows "mix_one tod p playing buffer (q, d) m =
     (if entry_of (nd_mutes n) q = VOLUME_MUTE then
        Val (putNode p (n\<lparr>nd_mutes := snd (smap_index 0 q (nd_mutes n))\<rparr>) m)
      else cpp_bind (own_part d (frames_of (nd_queued n) q)) (\<lambda>own.
        cpp_bind (mix_out playing (entry_of (nd_volumes n) q) buffer own) (\<lambda>ss.
        cpp_bind (newFrameBuf MEDIACTRL_MEDIA_AUDIO (bytes_of ss) 320 MEDIACTRL_RAW tod) (\<lambda>g.
          node_feedFrame tod q p (g\<lparr>fr_who := ALLOC_MIXER\<rparr>) (putNode p (touch q n) m)))))"
  using assms by (auto simp: mix_one_def split_beta Let_def touch_def simp del: smap_index_value)

lemma same_sound_touch: "sound_ok n \<Longrightarrow> same_sound n (touch q n)"
  by (simp add: touch_def same_sound_def sound_ok_def)

lemma same_sound_mutes: "sound_ok n \<Longrightarrow> same_sound n (n\<lparr>nd_mutes := snd (smap_index 0 q (nd_mutes n))\<rparr>)"
  by (simp add: same_sound_def sound_ok_def)

lemma quiet_putNode: "quiet_step p m (putNode p n m)"
  by (simp add: quiet_step_def)

lemma mix_one_keeps:
  assumes "mix_one tod p playing buffer (q, d) m = Val m'" and "q \<noteq> p" and "mx_heap m p = Some n" and "sound_ok n"
  shows "\<exists>n'. mx_heap m' p = Some n' \<and> same_sound n n' \<and> quiet_step p m m'"
proof (cases "q = NULL \<or> \<not> (d = SENDRECV \<or> d = SENDONLY)")
  case True
  then have "m' = m" using assms(1) by (auto simp: mix_one_def)
  with assms show ?thesis by (simp add: same_sound_def)
next
  case False
  have p: "p \<noteq> NULL" using assms(1,3) False by (auto simp: mix_one_def cpp_bind_Val)
  from False have sq: "q \<noteq> NULL" "d = SENDRECV \<or> d = SENDONLY" by auto
  note eq = mix_one_eq [OF p assms(3) sq, of tod playing buffer]
  show ?thesis
  proof (cases "entry_of (nd_mutes n) q = VOLUME_MUTE")
    case True
    then have "m' = putNode p (n\<lparr>nd_mutes := snd (smap_index 0 q (nd_mutes n))\<rparr>) m"
      using assms(1) unfolding eq by simp
    then show ?thesis using same_sound_mutes [OF assms(4)] quiet_putNode by simp
  next
    case m: False
    obtain g where f: "node_feedFrame tod q p (g\<lparr>fr_who := ALLOC_MIXER\<rparr>) (putNode p (touch q n) m) = Val m'"
      using assms(1) m unfolding eq by (simp only: if_False) (elim cpp_bindE)
    from feed_keeps [OF f assms(2)] same_sound_touch [OF assms(4)]
      quiet_step_trans [OF quiet_putNode [of p m "touch q n"], of m'] show ?thesis by simp
  qed
qed

lemma same_sound_trans: "same_sound a b \<Longrightarrow> same_sound b c \<Longrightarrow> same_sound a c"
  by (simp add: same_sound_def)

lemma mix_each_keeps:
  assumes "mix_each tod p playing buffer es m = Val m'" and "p \<notin> fst ` set es"
    and "mx_heap m p = Some n" and "sound_ok n"
  shows "\<exists>n'. mx_heap m' p = Some n' \<and> same_sound n n' \<and> quiet_step p m m'"
  using assms
proof (induction es arbitrary: m n)
  case (Cons e es)
  obtain q d where e: "e = (q, d)" by (cases e)
  from Cons.prems(1) obtain m1 where m1: "mix_one tod p playing buffer (q, d) m = Val m1"
      "mix_each tod p playing buffer es m1 = Val m'" by (auto simp: e elim: cpp_bindE)
  from mix_one_keeps [OF m1(1) _ Cons.prems(3,4)] Cons.prems(2)
  obtain n1 where n1: "mx_heap m1 p = Some n1" "same_sound n n1" "quiet_step p m m1" by (auto simp: e)
  then have "sound_ok n1" by (simp add: same_sound_def)
  with Cons.IH [OF m1(2) _ n1(1)] Cons.prems(2) obtain n2 where "mx_heap m' p = Some n2" "same_sound n1 n2"
      "quiet_step p m1 m'" by auto
  with n1 show ?case using same_sound_trans quiet_step_trans by blast
qed (simp add: same_sound_def)

subsection \<open>What a participant hears\<close>

lemma mixed_short: "list_all is_short (mixed playing volume buffer own)"
  by (simp add: mixed_def list_all_iff)

lemma mixed_length:
  "length buffer = 160 \<Longrightarrow> (\<And>ss. own = Some ss \<Longrightarrow> length ss = 160) \<Longrightarrow>
     length (mixed playing volume buffer own) = 160"
  by (simp add: mixed_def without_own_def split: option.split)

lemma frame_of_samples:
  assumes "newFrameBuf MEDIACTRL_MEDIA_AUDIO (bytes_of ss) 320 MEDIACTRL_RAW tod = Val g"
    and "length ss = 160" and "list_all is_short ss"
  shows "samples160 (g\<lparr>fr_who := ALLOC_MIXER\<rparr>) = Val (Some ss)"
proof -
  have "fr_buffer g = Some (take (nat 320) (bytes_of ss))"
    using newFrameBuf_audio [of 320 "bytes_of ss" MEDIACTRL_RAW tod] assms(1,2) by auto
  then show ?thesis using assms(2,3) by (simp add: samples160_def samples_bytes)
qed

lemma mix_one_emits:
  assumes m: "mix_one tod p playing buffer (q, d) m = Val m'" and p: "mx_heap m p = Some n" "p \<noteq> q"
    and q: "q \<noteq> NULL" "d = SENDRECV \<or> d = SENDONLY" "entry_of (nd_mutes n) q \<noteq> VOLUME_MUTE"
    and k: "mx_heap m q = Some k" "\<not> nd_conf k" "smap_get (nd_nodes k) p = Some d'" "d' = SENDRECV \<or> d' = RECVONLY"
    and b: "length buffer = 160"
  shows "\<exists>f own. own_part d (frames_of (nd_queued n) q) = Val own \<and>
     mx_out m' = mx_out m @ [SendFrame (nd_connection k) f] \<and>
     samples160 f = Val (Some (mixed playing (entry_of (nd_volumes n) q) buffer own))"
proof -
  have "p \<noteq> NULL" using m p q by (auto simp: mix_one_def cpp_bind_Val)
  note eq = mix_one_eq [OF this p(1) q(1,2), of tod playing buffer]
  let ?out = "\<lambda>own. mixed playing (entry_of (nd_volumes n) q) buffer own"
  obtain own ss g where own: "own_part d (frames_of (nd_queued n) q) = Val own"
    and ss: "mix_out playing (entry_of (nd_volumes n) q) buffer own = Val ss"
    and g: "newFrameBuf MEDIACTRL_MEDIA_AUDIO (bytes_of ss) 320 MEDIACTRL_RAW tod = Val g"
    and f: "node_feedFrame tod q p (g\<lparr>fr_who := ALLOC_MIXER\<rparr>) (putNode p (touch q n) m) = Val m'"
    using m q(3) unfolding eq by (simp only: if_False) (elim cpp_bindE)
  have "length (?out own) = 160" by (rule mixed_length [OF b]) (use own own_part_length in simp)
  from frame_of_samples [OF g [unfolded mix_out_Val [OF ss]] this mixed_short]
  have s: "samples160 (g\<lparr>fr_who := ALLOC_MIXER\<rparr>) = Val (Some (?out own))" .
  have "m' = emit (SendFrame (nd_connection k) (g\<lparr>fr_who := ALLOC_MIXER\<rparr>)) (putNode p (touch q n) m)"
  proof -
    have h: "deref (mx_heap (putNode p (touch q n) m)) q = Val k" using p(2) q(1) k(1) by simp
    show ?thesis using f k(2-4)
      by (simp only: node_feedFrame_def con_feedFrame_def h cpp_bind.simps option.case if_False if_True cpp.inject)
  qed
  with own s show ?thesis by auto
qed

lemma mix_each_append:
  "mix_each tod p playing buffer (xs @ ys) m =
     cpp_bind (mix_each tod p playing buffer xs m) (mix_each tod p playing buffer ys)"
proof (induction xs arbitrary: m)
  case (Cons x xs)
  then show ?case by (cases "mix_one tod p playing buffer x m") simp_all
qed simp

text \<open>The sum of what the other peers contribute to sample \<open>i\<close>.\<close>

definition others :: "bool \<Rightarrow> mnode \<Rightarrow> ptr \<Rightarrow> nat \<Rightarrow> int" where
  "others playing n q i = (\<Sum>e\<leftarrow>filter (\<lambda>e. fst e \<noteq> q) (nd_nodes n). part playing (nd_queued n) e ! i)"

definition at_volume :: "int \<Rightarrow> int \<Rightarrow> int" where
  "at_volume volume x = (if volume \<noteq> 100 then cdiv (x * volume) 100 else x)"

lemma sum_without:
  assumes "distinct (map fst es)" and "(q, d) \<in> set es"
  shows "(\<Sum>e\<leftarrow>es. (g e :: int)) - g (q, d) = (\<Sum>e\<leftarrow>filter (\<lambda>e. fst e \<noteq> q) es. g e)"
  using assms
proof (induction es)
  case (Cons e es)
  show ?case
  proof (cases "fst e = q")
    case True
    have "q \<notin> fst ` set es" using True Cons.prems(1) by simp
    then have "\<forall>x\<in>set es. fst x \<noteq> q" by (metis imageI)
    then have "filter (\<lambda>x. fst x \<noteq> q) es = es" by (simp add: filter_id_conv)
    moreover have "e = (q, d)" using True Cons.prems by (cases e) force
    ultimately show ?thesis by simp
  next
    case False
    with Cons show ?thesis by auto
  qed
qed simp

lemma mixed_nth:
  assumes "own_part d (frames_of (nd_queued n) q) = Val own" and "q \<noteq> NULL"
    and "length buffer = 160" and "i < 160"
    and "buffer ! i = b + (\<Sum>e\<leftarrow>nd_nodes n. part playing (nd_queued n) e ! i)"
    and "distinct (map fst (nd_nodes n))" and "(q, d) \<in> set (nd_nodes n)"
  shows "mixed playing volume buffer own ! i = clip (at_volume volume (b + others playing n q i))"
proof -
  have "buffer ! i - part playing (nd_queued n) (q, d) ! i = b + others playing n q i"
    unfolding assms(5) others_def
    using sum_without [OF assms(6,7), of "\<lambda>e. part playing (nd_queued n) e ! i"] by simp
  moreover have "part playing (nd_queued n) (q, d) =
      (case own of None \<Rightarrow> replicate 160 0 | Some ss \<Rightarrow> third playing ss)"
    using assms(1,2) by (simp add: part_def split: option.split)
  moreover have "length ss = 160" if "own = Some ss" for ss using assms(1) that own_part_length by blast
  ultimately show ?thesis
    using assms(3,4) by (auto simp: mixed_def without_own_def at_volume_def split: option.split)
qed

lemma notify_talkers_out:
  "notify_talkers elapsed p talkers m = Val m' \<Longrightarrow> \<exists>outs. mx_out m' = mx_out m @ outs"
  by (auto simp: notify_talkers_def notifyEvent_def cpp_bind_Val split: if_splits)

lemma conf_round_parts:
  assumes "conf_round tod elapsed p m = Val m'" and "mx_heap m p = Some n" and "nd_nodes n \<noteq> []"
  obtains b0 bots buffer talkers queued m1 outs where
    "mix_bots (nd_bots n) (replicate 160 0) = Val (b0, bots)"
    "mix_peers (mx_heap m) (nd_bots n \<noteq> []) (nd_nodes n) (b0, [], nd_queued n) = Val (buffer, talkers, queued)"
    "mix_each tod p (nd_bots n \<noteq> []) buffer (nd_nodes n)
       (putNode p (n\<lparr>nd_bots := bots, nd_playing := (nd_bots n \<noteq> []), nd_queued := queued\<rparr>) m) = Val m1"
    "mx_out m' = mx_out m1 @ outs"
proof -
  have p: "deref (mx_heap m) p = Val n"
    using assms(1,2) by (auto simp: conf_round_def cpp_bind_Val)
  from assms(1) obtain b0 bots where b0: "mix_bots (nd_bots n) (replicate 160 0) = Val (b0, bots)"
    and r: "(let playing = (nd_bots n \<noteq> []); n1 = n\<lparr>nd_bots := bots, nd_playing := playing\<rparr> in
       if nd_nodes n = [] then Val (putNode p n1 m)
       else cpp_bind (mix_peers (mx_heap m) playing (nd_nodes n) (b0, [], nd_queued n))
         (\<lambda>(buffer, talkers, queued).
         cpp_bind (mix_each tod p playing buffer (nd_nodes n) (putNode p (n1\<lparr>nd_queued := queued\<rparr>) m)) (\<lambda>m1.
         cpp_bind (deref (mx_heap m1) p) (\<lambda>n2.
           notify_talkers elapsed p talkers
             (putNode p (n2\<lparr>nd_queued := drop_mixed (map fst (nd_nodes n2)) (nd_queued n2)\<rparr>) m1))))) = Val m'"
    unfolding conf_round_def p cpp_bind.simps by (rule cpp_bind2E)
  let ?n = "\<lambda>queued. n\<lparr>nd_bots := bots, nd_playing := (nd_bots n \<noteq> []), nd_queued := queued\<rparr>"
  from r obtain acc where acc: "mix_peers (mx_heap m) (nd_bots n \<noteq> []) (nd_nodes n) (b0, [], nd_queued n) = Val acc"
    and r1: "(case acc of (buffer, talkers, queued) \<Rightarrow>
         cpp_bind (mix_each tod p (nd_bots n \<noteq> []) buffer (nd_nodes n) (putNode p (?n queued) m)) (\<lambda>m1.
         cpp_bind (deref (mx_heap m1) p) (\<lambda>n2.
           notify_talkers elapsed p talkers
             (putNode p (n2\<lparr>nd_queued := drop_mixed (map fst (nd_nodes n2)) (nd_queued n2)\<rparr>) m1)))) = Val m'"
    unfolding Let_def if_not_P [OF assms(3)] by (rule cpp_bindE) simp
  obtain buffer talkers queued where a: "acc = (buffer, talkers, queued)" by (cases acc)
  from r1 obtain m1 n2 where m1: "mix_each tod p (nd_bots n \<noteq> []) buffer (nd_nodes n) (putNode p (?n queued) m) = Val m1"
    and t: "notify_talkers elapsed p talkers
       (putNode p (n2\<lparr>nd_queued := drop_mixed (map fst (nd_nodes n2)) (nd_queued n2)\<rparr>) m1) = Val m'"
    unfolding a prod.case by (elim cpp_bindE)
  from notify_talkers_out [OF t] obtain outs where "mx_out m' = mx_out m1 @ outs" by auto
  with that b0 acc m1 show thesis unfolding a by blast
qed

lemma round_serves:
  assumes "conf_round tod elapsed p m = Val m'" and "mx_heap m p = Some n"
    and "smap_ok (nd_nodes n)" and "sound_ok n" and "p \<notin> fst ` set (nd_nodes n)"
    and "(q, d) \<in> set (nd_nodes n)" and "q \<noteq> NULL" and "d = SENDRECV \<or> d = SENDONLY"
    and "entry_of (nd_mutes n) q \<noteq> VOLUME_MUTE"
    and "mx_heap m q = Some k" and "\<not> nd_conf k"
    and "smap_get (nd_nodes k) p = Some d'" and "d' = SENDRECV \<or> d' = RECVONLY"
  shows "\<exists>f ss b bots. mix_bots (nd_bots n) (replicate 160 0) = Val (b, bots) \<and>
     SendFrame (nd_connection k) f \<in> set (drop (length (mx_out m)) (mx_out m')) \<and>
     samples160 f = Val (Some ss) \<and> length ss = 160 \<and>
     (\<forall>i<160. ss ! i = clip (at_volume (entry_of (nd_volumes n) q)
        (b ! i + others (nd_bots n \<noteq> []) n q i)))"
proof -
  let ?pl = "nd_bots n \<noteq> []"
  have ne: "nd_nodes n \<noteq> []" using assms(6) by auto
  obtain b0 bots buffer talkers queued m1 outs where b0: "mix_bots (nd_bots n) (replicate 160 0) = Val (b0, bots)"
    and peers: "mix_peers (mx_heap m) ?pl (nd_nodes n) (b0, [], nd_queued n) = Val (buffer, talkers, queued)"
    and each: "mix_each tod p ?pl buffer (nd_nodes n)
       (putNode p (n\<lparr>nd_bots := bots, nd_playing := ?pl, nd_queued := queued\<rparr>) m) = Val m1"
    and outs: "mx_out m' = mx_out m1 @ outs"
    by (rule conf_round_parts [OF assms(1,2) ne])
  let ?n = "n\<lparr>nd_bots := bots, nd_playing := ?pl, nd_queued := queued\<rparr>"
  let ?m = "putNode p ?n m"
  have sum: "smap_ok queued" "length buffer = 160" "frames_of queued = frames_of (nd_queued n)"
      "\<forall>i<160. buffer ! i = b0 ! i + (\<Sum>e\<leftarrow>nd_nodes n. part ?pl (nd_queued n) e ! i)"
    using mix_peers_sum [OF peers] mix_bots_length [OF b0] assms(4) by (auto simp: sound_ok_def)
  obtain es1 es2 where es: "nd_nodes n = es1 @ (q, d) # es2" using assms(6) by (meson split_list)
  from each obtain ma mb where a: "mix_each tod p ?pl buffer es1 ?m = Val ma"
    and o: "mix_one tod p ?pl buffer (q, d) ma = Val mb" and z: "mix_each tod p ?pl buffer es2 mb = Val m1"
    unfolding es mix_each_append mix_each.simps by (elim cpp_bindE)
  have n0: "mx_heap ?m p = Some ?n" "sound_ok ?n" using sum(1) assms(4) by (auto simp: sound_ok_def)
  have pq: "p \<noteq> q" "p \<notin> fst ` set es1" "p \<notin> fst ` set es2" using assms(5) es by auto
  from mix_each_keeps [OF a pq(2) n0] obtain na where na: "mx_heap ma p = Some na" "same_sound ?n na"
      "quiet_step p ?m ma" by blast
  then have ka: "mx_heap ma q = Some k" using assms(10,11) pq(1) by (auto simp: quiet_step_def)
  have sa: "entry_of (nd_mutes na) = entry_of (nd_mutes n)" "entry_of (nd_volumes na) = entry_of (nd_volumes n)"
      "frames_of (nd_queued na) = frames_of (nd_queued n)" "sound_ok na"
    using na(2) sum(3) by (simp_all add: same_sound_def)
  from mix_one_emits [OF o na(1) pq(1) assms(7,8) _ ka assms(11-13) sum(2)] assms(9)
  obtain f own where f: "own_part d (frames_of (nd_queued n) q) = Val own"
      "mx_out mb = mx_out ma @ [SendFrame (nd_connection k) f]"
      "samples160 f = Val (Some (mixed ?pl (entry_of (nd_volumes n) q) buffer own))"
    unfolding sa by blast
  from mix_one_keeps [OF o _ na(1) sa(4)] pq(1) obtain nb where "mx_heap mb p = Some nb" "sound_ok nb"
    by (auto simp: same_sound_def)
  from mix_each_keeps [OF z pq(3) this] have "\<exists>os. mx_out m1 = mx_out mb @ os"
    by (auto simp: quiet_step_def)
  moreover have "\<exists>os. mx_out ma = mx_out m @ os" using na(3) by (auto simp: quiet_step_def)
  ultimately have "SendFrame (nd_connection k) f \<in> set (drop (length (mx_out m)) (mx_out m'))"
    using f(2) outs by auto
  moreover have "\<forall>i<160. mixed ?pl (entry_of (nd_volumes n) q) buffer own ! i =
      clip (at_volume (entry_of (nd_volumes n) q) (b0 ! i + others ?pl n q i))"
    using mixed_nth [OF f(1) assms(7) sum(2) _ _ smap_ok_distinct [OF assms(3)] assms(6)] sum(4) by blast
  ultimately show ?thesis using b0 f(3) samples160_length [OF f(3)] by blast
qed

text \<open>
  C14. In a round of a conference every participant that may listen is sent one more frame, and each of
  its 160 samples is the sum of the announcements and of what every other contributing peer has
  queued, without its own contribution, at the volume of the participant and clipped to 16 bits.
\<close>

theorem everyone_hears_the_others:
  assumes "conf_round tod elapsed p m = Val m'" and "mx_heap m p = Some n"
    and "smap_ok (nd_nodes n)" and "sound_ok n" and "p \<notin> fst ` set (nd_nodes n)"
    and "(q, d) \<in> set (nd_nodes n)" and "q \<noteq> NULL" and "d = SENDRECV \<or> d = SENDONLY"
    and "entry_of (nd_mutes n) q \<noteq> VOLUME_MUTE"
    and "mx_heap m q = Some k" and "\<not> nd_conf k"
    and "smap_get (nd_nodes k) p = Some d'" and "d' = SENDRECV \<or> d' = RECVONLY"
  shows "\<exists>f ss b bots. mix_bots (nd_bots n) (replicate 160 0) = Val (b, bots) \<and>
     SendFrame (nd_connection k) f \<in> set (drop (length (mx_out m)) (mx_out m')) \<and>
     samples160 f = Val (Some ss) \<and> length ss = 160 \<and>
     (\<forall>i<160. ss ! i = clip (at_volume (entry_of (nd_volumes n) q)
        (b ! i + others (nd_bots n \<noteq> []) n q i)))"
  by (rule round_serves [OF assms])

subsection \<open>An example\<close>

definition demo_frame :: "int \<Rightarrow> frame" where
  "demo_frame s = (newFrame MEDIACTRL_MEDIA_AUDIO 0)\<lparr>fr_buffer := Some (bytes_of (replicate 160 s)), fr_len := 320\<rparr>"

definition demo_mixer_conf :: mnode where
  "demo_mixer_conf = newNode\<lparr>nd_conf := True, nd_connection := 30, nd_Id := ''conf'',
     nd_nodes := [(6, RECVONLY), (7, SENDONLY)], nd_volumes := [(6, 100), (7, 50)],
     nd_mutes := [(6, VOLUME_UNMUTE), (7, VOLUME_UNMUTE)], nd_queued := [(6, [demo_frame 1000])]\<rparr>"

definition demo_round :: mixer where
  "demo_round = \<lparr>mx_pkg = 9, mx_core = demo_core,
     mx_heap = [5 \<mapsto> demo_mixer_conf,
                6 \<mapsto> newNode\<lparr>nd_connection := 31, nd_Id := ''a'', nd_nodes := [(5, SENDONLY)]\<rparr>,
                7 \<mapsto> newNode\<lparr>nd_connection := 32, nd_Id := ''b'', nd_nodes := [(5, RECVONLY)]\<rparr>],
     mx_next = 8, mx_confs = [(''conf'', 5)], mx_nodes = [(30, 5), (31, 6), (32, 7)], mx_joins = [], mx_out = []\<rparr>"

lemma demo_round_runs: "case conf_round 0 0 5 demo_round of Undef \<Rightarrow> False | Val m \<Rightarrow> True"
  by code_simp

lemma demo_part: "part False (nd_queued demo_mixer_conf) (6, RECVONLY) = replicate 160 1000"
  by code_simp

theorem everyone_hears_the_others_witness:
  "\<exists>m' f ss. conf_round 0 0 5 demo_round = Val m' \<and> SendFrame 32 f \<in> set (mx_out m') \<and>
     samples160 f = Val (Some ss) \<and> (\<forall>i<160. ss ! i = 500)"
proof -
  obtain m' where m': "conf_round 0 0 5 demo_round = Val m'"
    using demo_round_runs by (cases "conf_round 0 0 5 demo_round") auto
  let ?k = "newNode\<lparr>nd_connection := 32, nd_Id := ''b'', nd_nodes := [(5, RECVONLY)]\<rparr>"
  have h: "mx_heap demo_round 5 = Some demo_mixer_conf" "mx_heap demo_round 7 = Some ?k"
    by (simp_all add: demo_round_def)
  have n: "smap_ok (nd_nodes demo_mixer_conf)" "sound_ok demo_mixer_conf" "5 \<notin> fst ` set (nd_nodes demo_mixer_conf)"
      "(7, SENDONLY) \<in> set (nd_nodes demo_mixer_conf)" "entry_of (nd_mutes demo_mixer_conf) 7 \<noteq> VOLUME_MUTE"
      "entry_of (nd_volumes demo_mixer_conf) 7 = 50" "nd_bots demo_mixer_conf = []"
    by (simp_all add: demo_mixer_conf_def newNode_def smap_ok_def sound_ok_def entry_of_def smap_get_def)
  have k: "\<not> nd_conf ?k" "smap_get (nd_nodes ?k) 5 = Some RECVONLY" "nd_connection ?k = 32"
    by (simp_all add: newNode_def smap_get_def)
  have o: "others False demo_mixer_conf 7 i = 1000" if "i < 160" for i
  proof -
    have "filter (\<lambda>e. fst e \<noteq> 7) (nd_nodes demo_mixer_conf) = [(6, RECVONLY)]" by (simp add: demo_mixer_conf_def)
    then show ?thesis using that by (simp add: others_def demo_part)
  qed
  have "mx_out demo_round = []" by (simp add: demo_round_def)
  moreover have "clip (at_volume 50 1000) = 500" by code_simp
  ultimately show ?thesis
    using everyone_hears_the_others [OF m' h(1) n(1-4) _ _ n(5) h(2) k(1,2)] m' n(6,7) o k(3) by auto
qed

subsection \<open>Silence and loud volumes\<close>

lemma quiet_short: "is_short s \<Longrightarrow> 3000 < to_short \<bar>s\<bar> \<longleftrightarrow> 3000 < \<bar>s\<bar> \<and> s \<noteq> -32768"
  by (cases "s = -32768") (auto simp: is_short_def to_short_def)

lemma all_quiet_iff: "list_all is_short ss \<Longrightarrow> all_quiet ss \<longleftrightarrow> (\<forall>s\<in>set ss. \<bar>s\<bar> \<le> 3000 \<or> s = -32768)"
  by (induction ss) (auto simp: quiet_short)

text \<open>
  A raw audio frame counts as silent exactly when each of its samples is at most 3000 in absolute
  value, or is the least 16-bit value, whose absolute value does not fit a \<open>short\<close>.
\<close>

theorem silence_threshold:
  assumes "raw_frame f" and "fr_buffer f = Some buf"
  shows "isSilence (Some f) = Val (\<forall>s\<in>set (samples_of buf). \<bar>s\<bar> \<le> 3000 \<or> s = -32768)"
proof -
  have f: "fr_format f = MEDIACTRL_RAW" "fr_media f = MEDIACTRL_MEDIA_AUDIO" "fr_len f = 320" "length buf = 320"
    using assms by (auto simp: raw_frame_def)
  have "list_all is_short (samples_of buf)" by (simp add: list_all_iff samples_of_short)
  with f show ?thesis by (simp add: isSilence_def assms(2) all_quiet_iff)
qed

theorem silence_threshold_witness:
  "isSilence (Some (demo_frame (-32768))) = Val True"
proof -
  let ?ss = "replicate 160 (-32768) :: int list"
  have "list_all is_short ?ss" by (simp add: list_all_iff is_short_def)
  then have "samples_of (bytes_of ?ss) = ?ss" by (rule samples_bytes)
  moreover have "raw_frame (demo_frame (-32768))" "fr_buffer (demo_frame (-32768)) = Some (bytes_of ?ss)"
    by (simp_all add: demo_frame_def raw_frame_def newFrame_def)
  ultimately show ?thesis using silence_threshold [of "demo_frame (-32768)"] by simp
qed

lemma is_int32_product:
  assumes "is_short s" and "0 \<le> volume" and "volume \<le> 65535"
  shows "is_int32 (s * volume)"
proof -
  have "\<bar>s\<bar> \<le> 32768" using assms(1) by (auto simp: is_short_def)
  then have "\<bar>s * volume\<bar> \<le> 32768 * 65535"
    unfolding abs_mult using assms(2,3) by (intro mult_mono) auto
  then show ?thesis by (auto simp: is_int32_def)
qed

text \<open>
  A volume up to 65535 percent scales every frame, sample by sample and clipped; the volume of
  a gain of 30 dB overflows on a frame with a sample of full scale, which is undefined behaviour.
\<close>

theorem volume_range:
  "(\<forall>volume ss. 0 \<le> volume \<longrightarrow> volume \<le> 65535 \<longrightarrow> list_all is_short ss \<longrightarrow>
      scale volume ss = Val (map (\<lambda>s. clip (cdiv (s * volume) 100)) ss)) \<and>
   (\<forall>volume ss. getPercentVolume 30 = Val volume \<longrightarrow> -32768 \<in> set ss \<longrightarrow> scale volume ss = Undef)"
proof (intro conjI allI impI)
  show "scale volume ss = Val (map (\<lambda>s. clip (cdiv (s * volume) 100)) ss)"
    if "0 \<le> volume" "volume \<le> 65535" "list_all is_short ss" for volume ss
    using that is_int32_product by (auto simp: scale_def list_all_iff)
next
  have g: "getPercentVolume 30 = Val 100000" by code_simp
  show "scale volume ss = Undef" if "getPercentVolume 30 = Val volume" "-32768 \<in> set ss" for volume ss
  proof -
    have "\<not> is_int32 (-32768 * volume)" using that(1) g by (simp add: is_int32_def)
    with that(2) have "\<not> list_all (\<lambda>s. is_int32 (s * volume)) ss" unfolding list_all_iff by blast
    then show ?thesis unfolding scale_def by (rule if_not_P)
  qed
qed

theorem volume_range_witness:
  "scale 50 [1000, -32768] = Val [500, -16384] \<and> getPercentVolume 30 = Val 100000 \<and>
   scale 100000 [1000, -32768] = Undef"
proof -
  have a: "scale 50 [1000, -32768] = Val (map (\<lambda>s. clip (cdiv (s * 50) 100)) [1000, -32768])"
    using volume_range by (simp add: is_short_def)
  have g: "getPercentVolume 30 = Val 100000" by code_simp
  have "scale 100000 [1000, -32768] = Undef" using volume_range g by auto
  moreover have "map (\<lambda>s. clip (cdiv (s * 50) 100)) [1000, -32768] = [500, -16384]" by code_simp
  ultimately show ?thesis using a g by simp
qed

end
