(* ===== verification/MixerControl.thy ===== *)
theory MixerControl
  imports MixerAudio ConfParser
begin

text \<open>
  \<open>src/packages/MixerPackage.cxx\<close>, the protocol: a CONTROL request is an XML document of the
  \<open>msc-mixer\<close> language; the eXpat handlers check it and collect what it asks for in a \<open>MixerMessage\<close>, and
  the end of the root element carries it out and answers. eXpat hands over a well-formed document as
  its events in order (\<open>ConfParser\<close>) and never passes a NULL attribute list, so that the tests
  \<open>!atts\<close> never hold; an element without attributes has \<open>atts[0] == NULL\<close>.
\<close>

subsection \<open>Values of attributes\<close>

definition booleanValue :: "boost \<Rightarrow> string \<Rightarrow> bool option" where
  "booleanValue bx v =
     (if bx_match bx ''true|yes|1'' v \<noteq> None then Some True
      else if bx_match bx ''false|no|0'' v \<noteq> None then Some False else None)"

definition rx_positive :: string where
  "rx_positive = bsl @ ''+?('' @ bsl @ ''d+)''"

definition positiveInteger :: "boost \<Rightarrow> string \<Rightarrow> u16 option" where
  "positiveInteger bx v = (case bx_match bx rx_positive v of None \<Rightarrow> None
     | Some ms \<Rightarrow> Some (word_of_int (atoi (sub ms 1))))"

subsection \<open>Messages\<close>

record mstream =
  st_media :: string
  st_mediaType :: int
  st_label :: string
  st_direction :: int
  st_volume :: int
  st_clamp :: string

definition newStream :: mstream where
  "newStream = \<lparr>st_media = '''', st_mediaType = MEDIACTRL_MEDIA_UNKNOWN, st_label = '''',
     st_direction = SENDRECV, st_volume = VOLUME_KEEP, st_clamp = ''''\<rparr>"

record mmsg =
  mg_stop :: bool
  mg_tid :: string
  mg_requester :: ptr
  mg_request :: string
  mg_level :: int
  mg_childs :: "string list"
  mg_conf :: ptr
  mg_newconf :: bool
  mg_id1 :: string
  mg_id2 :: string
  mg_con1 :: ptr
  mg_con2 :: ptr
  mg_node1 :: ptr
  mg_node2 :: ptr
  mg_direction :: int
  mg_volume1 :: int
  mg_volume2 :: int
  mg_streams :: "mstream list"
  mg_auditCapabilities :: bool
  mg_auditMixers :: bool
  mg_auditConference :: string

definition newMixerMessage :: "ptr \<Rightarrow> string \<Rightarrow> mmsg" where
  "newMixerMessage requester tid = \<lparr>mg_stop = False, mg_tid = tid, mg_requester = requester, mg_request = '''',
     mg_level = 0, mg_childs = [], mg_conf = NULL, mg_newconf = True, mg_id1 = '''', mg_id2 = '''',
     mg_con1 = NULL, mg_con2 = NULL, mg_node1 = NULL, mg_node2 = NULL, mg_direction = SENDRECV,
     mg_volume1 = VOLUME_NONE, mg_volume2 = VOLUME_NONE, mg_streams = [], mg_auditCapabilities = True,
     mg_auditMixers = True, mg_auditConference = ''''\<rparr>"

text \<open>A handler works on the message and on the package.\<close>

type_synonym mstate = "mmsg \<times> mixer"

record mixer_env =
  me_bx :: boost
  me_random :: "nat list list"
  me_elapsed :: nat

subsection \<open>Answers\<close>

definition error_reason :: "int \<Rightarrow> string" where
  "error_reason code =
     (if code = 200 then ''OK''
      else if code = 400 then ''Syntax error''
      else if code = 405 then ''Conference already exists''
      else if code = 406 then ''Conference does not exist''
      else if code = 407 then ''Incompatible stream configuration''
      else if code = 408 then ''joining entities already joined''
      else if code = 409 then ''joining entities not joined''
      else if code = 410 then ''Unable to join - conference full''
      else if code = 411 then ''Unable to perform join mixer operation''
      else if code = 412 then ''Connection does not exist''
      else if code = 419 then ''Other execution error''
      else if code = 420 then ''Conference reservation failed''
      else if code = 421 then ''Unable to configure audio mix''
      else if code = 422 then ''Unsupported media stream configuration''
      else if code = 423 then ''Unable to configure video layouts''
      else if code = 424 then ''Unable to configure video switch''
      else if code = 425 then ''Unable to configure codecs''
      else if code = 426 then ''Unable to join - mixing connections not supported''
      else if code = 427 then ''Unable to join - mixing conferences not supported''
      else if code = 428 then ''Unsupported foreign namespace attribute or element''
      else if code = 435 then ''Other unsupported capability''
      else if code \<in> {401, 402, 403, 404, 413, 414, 415, 416, 417, 418, 429, 430, 431, 432, 433, 434}
      then '''' else ''You guess!'')"

definition error_body :: "int \<Rightarrow> string \<Rightarrow> string" where
  "error_body code body = ''<response status='' @ quoted (dec_int code) @ '' reason='' @
     quoted (error_reason code @ (if body \<noteq> '''' then '': '' @ body else '''')) @ ''/>''"

definition reply :: "int \<Rightarrow> int \<Rightarrow> string \<Rightarrow> mstate \<Rightarrow> mstate" where
  "reply status timeout body s =
     (fst s, emit (Report (mg_requester (fst s)) (mg_tid (fst s)) status timeout body) (snd s))"

definition halt :: "mstate \<Rightarrow> mstate" where
  "halt s = ((fst s)\<lparr>mg_stop := True\<rparr>, snd s)"

text \<open>\<open>MixerMessage::error\<close>, the refusal of another requester, and a success.\<close>

definition fail :: "int \<Rightarrow> string \<Rightarrow> mstate \<Rightarrow> mstate" where
  "fail code body s = reply 200 10 (error_body code body) (halt s)"

definition forbid :: "mstate \<Rightarrow> mstate" where
  "forbid s = halt (reply 403 0 '''' s)"

definition response :: "string \<Rightarrow> string option \<Rightarrow> string" where
  "response reason confId = mscmixer (''<response status='' @ quoted ''200'' @ '' reason='' @ quoted reason @
     (case confId of None \<Rightarrow> '''' | Some c \<Rightarrow> '' conferenceid='' @ quoted c) @ ''/>'')"

definition succeed :: "string \<Rightarrow> string option \<Rightarrow> mstate \<Rightarrow> mstate" where
  "succeed reason confId s = reply 200 10 (response reason confId) s"

subsection \<open>Access\<close>

definition mx_getConnection :: "boost \<Rightarrow> string \<Rightarrow> mixer \<Rightarrow> (mixer \<times> ptr) cpp" where
  "mx_getConnection bx conId m =
     cpp_bind (cfw_getConnection bx conId (mx_core m)) (\<lambda>(cp, k). Val (m\<lparr>mx_core := k\<rparr>, cp))"

definition mx_cp :: "ptr \<Rightarrow> mixer \<Rightarrow> cpc cpp" where
  "mx_cp cp m = deref (md_cps (core_md (mx_core m))) cp"

definition confs_index :: "string \<Rightarrow> mixer \<Rightarrow> ptr \<times> mixer" where
  "confs_index confId m = (let (p, cs) = smap_index NULL confId (mx_confs m) in (p, m\<lparr>mx_confs := cs\<rparr>))"

definition nodes_index :: "ptr \<Rightarrow> mixer \<Rightarrow> ptr \<times> mixer" where
  "nodes_index cp m = (let (p, ns) = smap_index NULL cp (mx_nodes m) in (p, m\<lparr>mx_nodes := ns\<rparr>))"

definition checkSender :: "ptr \<Rightarrow> ptr \<Rightarrow> mixer \<Rightarrow> bool cpp" where
  "checkSender p sender m = cpp_bind (deref (mx_heap m) p) (\<lambda>n. Val (nd_requester n = sender))"

subsection \<open>The root element and the requests\<close>

fun root_atts :: "(string \<times> string) list \<Rightarrow> string \<Rightarrow> string \<Rightarrow> string + string \<times> string" where
  "root_atts [] version ns = Inr (version, ns)"
| "root_atts ((a, v) # atts) version ns =
     (if a = ''version'' then root_atts atts v ns
      else if a = ''xmlns'' then root_atts atts version v
      else Inl a)"

definition start_root :: "string \<Rightarrow> (string \<times> string) list \<Rightarrow> mstate \<Rightarrow> mstate" where
  "start_root name atts s =
     (if name \<noteq> ''mscmixer'' then fail 400 ''mscmixer'' s
      else case root_atts atts '''' '''' of
        Inl a \<Rightarrow> fail 428 a s
      | Inr (version, ns) \<Rightarrow>
          if version = '''' then fail 400 ''version'' s
          else if version \<noteq> ''1.0'' then fail 400 ''version is not 1.0'' s
          else if ns \<noteq> ''urn:ietf:params:xml:ns:msc-mixer'' then fail 428 ''Invalid mscmixer namespace'' s
          else s)"

text \<open>The loop over the attributes of \<open>createconference\<close> stops at the first one that it knows.\<close>

fun create_atts :: "boost \<Rightarrow> (string \<times> string) list \<Rightarrow> string + string \<times> u16 \<times> u16" where
  "create_atts bx [] = Inr ('''', 0, 0)"
| "create_atts bx ((a, v) # atts) =
     (if a = ''conferenceid'' then Inr (v, 0, 0)
      else if a = ''reserved-talkers'' then
        (case positiveInteger bx v of None \<Rightarrow> Inl a | Some n \<Rightarrow> Inr ('''', n, 0))
      else if a = ''reserved-listeners'' then
        (case positiveInteger bx v of None \<Rightarrow> Inl a | Some n \<Rightarrow> Inr ('''', 0, n))
      else create_atts bx atts)"

definition start_create :: "mixer_env \<Rightarrow> (string \<times> string) list \<Rightarrow> mstate \<Rightarrow> mstate cpp" where
  "start_create env atts s0 = (let s = ((fst s0)\<lparr>mg_newconf := True\<rparr>, snd s0) in
     case create_atts (me_bx env) atts of
       Inl a \<Rightarrow> Val (fail 420 a s)
     | Inr (confId, talkers, listeners) \<Rightarrow>
         cpp_bind (mx_getConnection (me_bx env) confId (snd s)) (\<lambda>(m1, cp).
         if cp \<noteq> NULL then Val (fail 405 confId (fst s, m1))
         else let (p, m2) = confs_index confId m1 in
           if p \<noteq> NULL then Val (fail 405 confId (fst s, m2))
           else cpp_bind (newMixerConference (me_random env) (mg_requester (fst s)) confId m2) (\<lambda>(m3, p).
             cpp_bind (deref (mx_heap m3) p) (\<lambda>n.
               Val ((fst s)\<lparr>mg_conf := p\<rparr>,
                    putNode p (n\<lparr>nd_talkers := talkers, nd_listeners := listeners\<rparr>) m3)))))"

text \<open>
  The search for \<open>conferenceid\<close> in \<open>modifyconference\<close> and \<open>destroyconference\<close>. The comparison of
  the pointer with the literal holds when there is no such attribute, and only then.
\<close>

definition find_conference :: "(string \<times> string) list \<Rightarrow> mstate \<Rightarrow> mstate cpp" where
  "find_conference atts s0 = (let s = ((fst s0)\<lparr>mg_newconf := False\<rparr>, snd s0) in
     case map_of atts ''conferenceid'' of
       None \<Rightarrow> Val (fail 400 ''conferenceid'' s)
     | Some confId \<Rightarrow>
         let (p, m1) = confs_index confId (snd s) in
         if p = NULL then Val (fail 406 confId (fst s, m1))
         else cpp_bind (checkSender p (mg_requester (fst s)) m1) (\<lambda>mine.
           let s1 = ((fst s)\<lparr>mg_conf := p\<rparr>, m1) in Val (if mine then s1 else forbid s1)))"

text \<open>\<open>join\<close>, \<open>modifyjoin\<close> and \<open>unjoin\<close> start alike.\<close>

fun join_atts :: "(string \<times> string) list \<Rightarrow> mmsg \<Rightarrow> string option \<times> mmsg" where
  "join_atts [] g = (None, g)"
| "join_atts ((a, v) # atts) g =
     (if a = ''id1'' then join_atts atts (g\<lparr>mg_id1 := v\<rparr>)
      else if a = ''id2'' then join_atts atts (g\<lparr>mg_id2 := v\<rparr>)
      else (Some a, g))"

definition fail_missing :: "string \<Rightarrow> mstate \<Rightarrow> mstate" where
  "fail_missing conId s =
     fail (if str_find conId ''~'' 0 \<noteq> None then 412 else 406) (conId @ '' does not exist'') s"

definition start_join :: "boost \<Rightarrow> (string \<times> string) list \<Rightarrow> mstate \<Rightarrow> mstate cpp" where
  "start_join bx atts s = (case join_atts atts (fst s) of
     (Some a, g) \<Rightarrow> Val (fail 428 a (g, snd s))
   | (None, g) \<Rightarrow>
       cpp_bind (mx_getConnection bx (mg_id1 g) (snd s)) (\<lambda>(m1, c1).
       if c1 = NULL then Val (fail_missing (mg_id1 g) (g, m1))
       else cpp_bind (mx_getConnection bx (mg_id2 g) m1) (\<lambda>(m2, c2).
         if c2 = NULL then Val (fail_missing (mg_id2 g) (g, m2)) else Val (g, m2))))"

fun audit_atts :: "boost \<Rightarrow> (string \<times> string) list \<Rightarrow> string \<times> bool \<times> bool \<Rightarrow>
    (int \<times> string) + (string \<times> bool \<times> bool)" where
  "audit_atts bx [] r = Inr r"
| "audit_atts bx ((a, v) # atts) (confId, caps, mixers) =
     (if a = ''conferenceid'' then audit_atts bx atts (v, caps, mixers)
      else if a = ''capabilities'' then
        (case booleanValue bx v of None \<Rightarrow> Inl (400, a) | Some b \<Rightarrow> audit_atts bx atts (confId, b, mixers))
      else if a = ''mixers'' then
        (case booleanValue bx v of None \<Rightarrow> Inl (400, a) | Some b \<Rightarrow> audit_atts bx atts (confId, caps, b))
      else Inl (428, a))"

definition start_audit :: "boost \<Rightarrow> (string \<times> string) list \<Rightarrow> mstate \<Rightarrow> mstate" where
  "start_audit bx atts s = (case audit_atts bx atts ('''', True, True) of
     Inl (code, a) \<Rightarrow> fail code a s
   | Inr (confId, caps, mixers) \<Rightarrow>
       let (p, m1) = (if confId \<noteq> '''' then confs_index confId (snd s) else (NULL, snd s)) in
       if confId \<noteq> '''' \<and> p = NULL then fail 406 confId (fst s, m1)
       else ((fst s)\<lparr>mg_auditCapabilities := caps, mg_auditMixers := mixers, mg_auditConference := confId\<rparr>, m1))"

definition start_request :: "mixer_env \<Rightarrow> string \<Rightarrow> (string \<times> string) list \<Rightarrow> mstate \<Rightarrow> mstate cpp" where
  "start_request env name atts s0 = (let s = ((fst s0)\<lparr>mg_request := name\<rparr>, snd s0) in
     if name = ''createconference'' then start_create env atts s
     else if name = ''modifyconference'' \<or> name = ''destroyconference'' then find_conference atts s
     else if name = ''join'' \<or> name = ''modifyjoin'' \<or> name = ''unjoin'' then start_join (me_bx env) atts s
     else if name = ''audit'' then Val (start_audit (me_bx env) atts s)
     else Val (fail 428 name s))"

subsection \<open>Inside a request\<close>

text \<open>The loop of \<open>audio-mixing\<close>; a refusal is the code and what it is about.\<close>

fun mixing_atts :: "boost \<Rightarrow> (string \<times> string) list \<Rightarrow> int \<times> u16 \<Rightarrow> (int \<times> string) + (int \<times> u16)" where
  "mixing_atts bx [] r = Inr r"
| "mixing_atts bx ((a, v) # atts) (mixing, n) =
     (if a = ''type'' then
        (if mixing \<noteq> MIXING_NONE then Inl (400, ''audio-mixing type already set'')
         else if v = ''nbest'' then mixing_atts bx atts (MIXING_NBEST, n)
         else if v = ''controller'' then mixing_atts bx atts (MIXING_CONTROLLER, n)
         else Inl (421, v))
      else if a = ''n'' then
        (case positiveInteger bx v of None \<Rightarrow> Inl (400, ''n'') | Some k \<Rightarrow> mixing_atts bx atts (mixing, k))
      else mixing_atts bx atts (mixing, n))"

definition setAudioMixingType :: "int \<Rightarrow> u16 \<Rightarrow> mnode \<Rightarrow> mnode" where
  "setAudioMixingType mixing n d = d\<lparr>nd_mixingtype := mixing, nd_mixn := n\<rparr>"

definition start_mixing :: "boost \<Rightarrow> (string \<times> string) list \<Rightarrow> mstate \<Rightarrow> mstate cpp" where
  "start_mixing bx atts s = (case mixing_atts bx atts (MIXING_NONE, 0) of
     Inl (code, a) \<Rightarrow> Val (fail code a s)
   | Inr (mixing0, n) \<Rightarrow>
       let mixing = (if mixing0 = MIXING_NONE then MIXING_NBEST else mixing0); p = mg_conf (fst s) in
       if p = NULL then Val s
       else cpp_bind (deref (mx_heap (snd s)) p) (\<lambda>d.
         Val (fst s, putNode p (setAudioMixingType mixing n d) (snd s))))"

fun direction_of :: "string \<Rightarrow> int option" where
  "direction_of v =
     (if v = ''sendrecv'' then Some SENDRECV else if v = ''sendonly'' then Some SENDONLY
      else if v = ''recvonly'' then Some RECVONLY else if v = ''inactive'' then Some INACTIVE else None)"

fun stream_atts :: "(string \<times> string) list \<Rightarrow> bool \<times> mstream \<Rightarrow> (int \<times> string) + (bool \<times> mstream)" where
  "stream_atts [] r = Inr r"
| "stream_atts ((a, v) # atts) (found, st) =
     (if a = ''media'' then stream_atts atts (True, st\<lparr>st_media := v\<rparr>)
      else if a = ''label'' then stream_atts atts (found, st\<lparr>st_label := v\<rparr>)
      else if a = ''direction'' then
        (case direction_of v of
           None \<Rightarrow> Inl (407, ''Unsupported direction '' @ [CHR 0x27] @ v @ [CHR 0x27])
         | Some d \<Rightarrow> stream_atts atts (found, st\<lparr>st_direction := d\<rparr>))
      else Inl (428, a))"

definition start_stream :: "(string \<times> string) list \<Rightarrow> mstate \<Rightarrow> mstate" where
  "start_stream atts s = (case stream_atts atts (False, newStream) of
     Inl (code, a) \<Rightarrow> fail code a s
   | Inr (found, st) \<Rightarrow>
       if \<not> found then fail 400 ''media'' s
       else if st_media st = ''audio'' then
         ((fst s)\<lparr>mg_streams := mg_streams (fst s) @ [st\<lparr>st_mediaType := MEDIACTRL_MEDIA_AUDIO\<rparr>]\<rparr>, snd s)
       else fail 407 (''Invalid media '' @ [CHR 0x27] @ st_media st @ [CHR 0x27]) s)"

text \<open>\<open>childs\<close> has the new element at its end; the one before it is the father.\<close>

definition start_part :: "mixer_env \<Rightarrow> string \<Rightarrow> (string \<times> string) list \<Rightarrow> mstate \<Rightarrow> mstate cpp" where
  "start_part env name atts s = (let up = butlast (mg_childs (fst s)) in
     if up = [] then Undef
     else let father = last up;
              conference = (father = ''createconference'' \<or> father = ''modifyconference'') in
       if name = ''audio-mixing'' then (if conference then start_mixing (me_bx env) atts s else Val s)
       else if name = ''codecs'' then Val s
       else if name = ''video-layouts'' then Val (fail 423 name s)
       else if name = ''video-switch'' then Val (fail 424 name s)
       else if name = ''subscribe'' then Val s
       else if name = ''stream'' then
         (if father = ''join'' \<or> father = ''modifyjoin'' \<or> father = ''unjoin'' then Val (start_stream atts s)
          else Val s)
       else Val (fail 428 name s))"

subsection \<open>Details of streams and subscriptions\<close>

fun volume_atts :: "(string \<times> string) list \<Rightarrow> string \<times> string \<Rightarrow> string \<times> string" where
  "volume_atts [] r = r"
| "volume_atts ((a, v) # atts) (kind, value) =
     (if a = ''controltype'' then volume_atts atts (v, value)
      else if a = ''value'' then volume_atts atts (kind, v)
      else volume_atts atts (kind, value))"

definition set_last_stream :: "(mstream \<Rightarrow> mstream) \<Rightarrow> mstate \<Rightarrow> mstate" where
  "set_last_stream f s = ((fst s)\<lparr>mg_streams := butlast (mg_streams (fst s)) @ [f (last (mg_streams (fst s)))]\<rparr>, snd s)"

definition start_volume :: "(string \<times> string) list \<Rightarrow> mstate \<Rightarrow> mstate cpp" where
  "start_volume atts s = (let (kind, value) = volume_atts atts ('''', '''') in
     if kind = ''automatic'' then Val s
     else if kind = ''setgain'' then
       cpp_bind (getPercentVolume (atoi value)) (\<lambda>v. Val (set_last_stream (st_volume_update (\<lambda>_. v)) s))
     else if kind = ''setstate'' then
       (if value = ''mute'' then Val (set_last_stream (st_volume_update (\<lambda>_. VOLUME_MUTE)) s)
        else if value = ''unmute'' then Val (set_last_stream (st_volume_update (\<lambda>_. VOLUME_UNMUTE)) s)
        else Val (fail 400 ''value'' s))
     else Val (fail 400 ''controltype'' s))"

text \<open>\<open>strcmp(atts[0], ...)\<close> on an element without attributes reads through NULL.\<close>

definition start_clamp :: "(string \<times> string) list \<Rightarrow> mstate \<Rightarrow> mstate cpp" where
  "start_clamp atts s = (case atts of [] \<Rightarrow> Undef
     | (a, v) # _ \<Rightarrow> if a = ''tones'' then Val (set_last_stream (st_clamp_update (\<lambda>_. v)) s)
                    else Val (fail 428 a s))"

definition start_subscription :: "mixer_env \<Rightarrow> (string \<times> string) list \<Rightarrow> mstate \<Rightarrow> mstate cpp" where
  "start_subscription env atts s = (case atts of [] \<Rightarrow> Undef
     | (a, v) # _ \<Rightarrow>
         if a = ''interval'' then
           (case positiveInteger (me_bx env) v of
              None \<Rightarrow> Val (fail 400 ''active-talkers-sub'' s)
            | Some n \<Rightarrow> cpp_bind (conf_subscribe (ucast n) (me_elapsed env) (mg_conf (fst s)) (snd s))
                (\<lambda>m1. Val (fst s, m1)))
         else Val (fail 428 a s))"

definition set_childs :: "string list \<Rightarrow> mstate \<Rightarrow> mstate" where
  "set_childs cs s = ((fst s)\<lparr>mg_childs := cs\<rparr>, snd s)"

text \<open>
  The element at level four: it is taken off \<open>childs\<close> first, and put back only inside \<open>stream\<close>, and
  inside \<open>subscribe\<close> when there is a conference.
\<close>

definition start_detail :: "mixer_env \<Rightarrow> string \<Rightarrow> (string \<times> string) list \<Rightarrow> mstate \<Rightarrow> mstate cpp" where
  "start_detail env name atts s0 = (let up = butlast (mg_childs (fst s0)); s = set_childs up s0 in
     if up = [] then Undef
     else if last up = ''stream'' then
       (let s1 = set_childs (up @ [name]) s in
        if mg_streams (fst s1) = [] then Undef
        else if name = ''volume'' then start_volume atts s1
        else if name = ''clamp'' then start_clamp atts s1
        else if name = ''region'' \<or> name = ''priority'' then Val s1
        else Val (fail 428 name s1))
     else if last up = ''subscribe'' then
       (if mg_conf (fst s) = NULL then Val s
        else let s1 = set_childs (up @ [name]) s in
          if name = ''active-talkers-sub'' then start_subscription env atts s1
          else Val (fail 428 name s1))
     else if last up = ''video-layouts'' then Val (fail 423 name s)
     else Val (fail 428 name s))"

definition mx_startElement :: "mixer_env \<Rightarrow> string \<Rightarrow> (string \<times> string) list \<Rightarrow> mstate \<Rightarrow> mstate cpp" where
  "mx_startElement env name atts s0 =
     (if mg_stop (fst s0) then Val s0
      else let g = fst s0; level = mg_level g + 1;
               s = (g\<lparr>mg_level := level, mg_childs := mg_childs g @ [name]\<rparr>, snd s0) in
        if level = 1 then Val (start_root name atts s)
        else if level = 2 then start_request env name atts s
        else if level = 3 then start_part env name atts s
        else if level = 4 then start_detail env name atts s
        else Val (fail 428 name s))"

subsection \<open>The two ends of a join\<close>

text \<open>
  The check that a conference named in the request belongs to the requester. The parts of
  \<open>parseStreams\<close> also tell whether they have returned from it.
\<close>

definition own_conference :: "ptr \<Rightarrow> mstate \<Rightarrow> (mstate \<times> bool) cpp" where
  "own_conference con s =
     cpp_bind (mx_cp con (snd s)) (\<lambda>c.
       if cpc_type c \<noteq> CPC_CONFERENCE then Val (s, False)
       else let (p, m1) = nodes_index con (snd s) in
         if p = NULL then Val (forbid (fst s, m1\<lparr>mx_nodes := smap_erase con (mx_nodes m1)\<rparr>), True)
         else cpp_bind (checkSender p (mg_requester (fst s)) m1) (\<lambda>mine.
           Val (if mine then ((fst s, m1), False) else (forbid (fst s, m1), True))))"

definition mx_getSubMedia :: "ptr \<Rightarrow> int \<Rightarrow> mixer \<Rightarrow> ptr cpp" where
  "mx_getSubMedia cp mediaType m = getSubConnectionMedia cp mediaType (core_md (mx_core m))"

definition mx_getSubLabel :: "ptr \<Rightarrow> string \<Rightarrow> mixer \<Rightarrow> ptr cpp" where
  "mx_getSubLabel cp label m = getSubConnectionLabel cp label (core_md (mx_core m))"

text \<open>
  Without \<open>stream\<close> elements the two connections are taken as they are, or their audio. The test
  for \<open>id2\<close> with a label looks at the medium of the first connection (\<open>c1\<close>), and both refusals
  name \<open>id1\<close>.
\<close>

definition whole_node :: "ptr \<Rightarrow> cpc \<Rightarrow> cpc \<Rightarrow> mixer \<Rightarrow> ptr option cpp" where
  "whole_node con c tested m =
     (if cpc_label c = '''' then
        (if cpc_type c = CPC_CONNECTION then
           cpp_bind (mx_getSubMedia con MEDIACTRL_MEDIA_AUDIO m) (\<lambda>a. Val (if a = NULL then None else Some a))
         else if cpc_type c = CPC_CONFERENCE then Val (Some con) else Val (Some NULL))
      else Val (Some (if cpc_mediaType tested = MEDIACTRL_MEDIA_AUDIO then con else NULL)))"

definition parse_whole :: "mstate \<Rightarrow> mstate cpp" where
  "parse_whole s = (let con1 = mg_con1 (fst s); con2 = mg_con2 (fst s); m = snd s in
     cpp_bind (mx_cp con1 m) (\<lambda>c1.
     cpp_bind (whole_node con1 c1 c1 m) (\<lambda>n1. case n1 of
       None \<Rightarrow> Val (fail 426 ''id1 has no media connections'' s)
     | Some a1 \<Rightarrow>
         let s1 = ((fst s)\<lparr>mg_node1 := a1\<rparr>, m) in
         cpp_bind (mx_cp con2 m) (\<lambda>c2.
         cpp_bind (whole_node con2 c2 c1 m) (\<lambda>n2. case n2 of
           None \<Rightarrow> Val (fail 426 ''id1 has no media connections'' s1)
         | Some a2 \<Rightarrow> Val ((fst s1)\<lparr>mg_node2 := a2\<rparr>, m))))))"

text \<open>A label must be known to one of the two connections, with the medium of the stream.\<close>

definition invalid_label :: "mstream \<Rightarrow> string" where
  "invalid_label st = ''Invalid label '' @ st_label st"

definition label_medium :: "mstream \<Rightarrow> cpc \<Rightarrow> mstate \<Rightarrow> mstate \<times> bool" where
  "label_medium st c s =
     (if cpc_mediaType c \<noteq> st_mediaType st then (fail 407 (invalid_label st @ '' media type'') s, True)
      else (s, False))"

definition check_label :: "mstream \<Rightarrow> mstate \<Rightarrow> (mstate \<times> bool) cpp" where
  "check_label st s = (let con1 = mg_con1 (fst s); con2 = mg_con2 (fst s); m = snd s in
     if st_label st = '''' then Val (s, False)
     else cpp_bind (mx_cp con1 m) (\<lambda>c1. cpp_bind (mx_cp con2 m) (\<lambda>c2.
       if cpc_label c1 = st_label st then Val (label_medium st c1 s)
       else if cpc_label c2 = st_label st then Val (label_medium st c2 s)
       else if mg_stop (fst s) then Val (s, False)
       else cpp_bind (mx_getSubLabel con1 (st_label st) m) (\<lambda>t1.
         if cpc_type c1 = CPC_CONNECTION \<and> t1 \<noteq> NULL then
           cpp_bind (mx_cp t1 m) (\<lambda>d. Val (label_medium st d s))
         else cpp_bind (mx_getSubLabel con2 (st_label st) m) (\<lambda>t2.
           if cpc_type c2 = CPC_CONNECTION \<and> t2 \<noteq> NULL then
             cpp_bind (mx_cp t2 m) (\<lambda>d. Val (label_medium st d s))
           else Val (fail 407 (invalid_label st) s, True))))))"

text \<open>The connection that carries the stream's medium, NULL when there is none.\<close>

definition stream_node :: "ptr \<Rightarrow> mstream \<Rightarrow> mixer \<Rightarrow> ptr cpp" where
  "stream_node con st m =
     cpp_bind (mx_cp con m) (\<lambda>c.
       if cpc_mediaType c = MEDIACTRL_MEDIA_UNKNOWN \<and> cpc_type c = CPC_CONNECTION then
         mx_getSubMedia con (st_mediaType st) m
       else Val con)"

text \<open>The direction and the volumes collected over the streams; the text of a conflict otherwise.\<close>

definition take_direction :: "mstream \<Rightarrow> mmsg \<Rightarrow> string + mmsg" where
  "take_direction st g = (let d = st_direction st; v = st_volume st in
     if d = SENDRECV then
       (if mg_volume1 g \<noteq> VOLUME_NONE \<or> mg_volume2 g \<noteq> VOLUME_NONE then Inl ''audio volume conflict (SENDRECV)''
        else Inr (g\<lparr>mg_direction := SENDRECV, mg_volume1 := v, mg_volume2 := v\<rparr>))
     else if d = SENDONLY then
       (if mg_volume1 g \<noteq> VOLUME_NONE then Inl ''audio volume conflict (SENDONLY)''
        else Inr (g\<lparr>mg_volume1 := v,
                    mg_direction := (if mg_direction g = RECVONLY then SENDRECV
                                     else if mg_direction g = SENDRECV then SENDONLY else mg_direction g)\<rparr>))
     else if d = RECVONLY then
       (if mg_volume2 g \<noteq> VOLUME_NONE then Inl ''audio volume conflict (RECVONLY)''
        else Inr (g\<lparr>mg_volume2 := v,
                    mg_direction := (if mg_direction g = SENDONLY then SENDRECV
                                     else if mg_direction g = SENDRECV then RECVONLY else mg_direction g)\<rparr>))
     else if d = INACTIVE then
       (if mg_volume1 g \<noteq> VOLUME_NONE \<or> mg_volume2 g \<noteq> VOLUME_NONE then Inl ''audio volume conflict (INACTIVE)''
        else Inr (g\<lparr>mg_direction := INACTIVE, mg_volume1 := VOLUME_KEEP, mg_volume2 := VOLUME_KEEP\<rparr>))
     else Inr g)"

definition no_media :: "string \<Rightarrow> mstream \<Rightarrow> mstate \<Rightarrow> mstate" where
  "no_media conId st s = fail 407 (conId @ '' has no media '' @ st_media st) s"

definition parse_stream :: "mstream \<Rightarrow> mstate \<Rightarrow> (mstate \<times> bool) cpp" where
  "parse_stream st s =
     cpp_bind (check_label st s) (\<lambda>(s1, returned).
       if returned then Val (s1, True)
       else if mg_stop (fst s1) then Val (s1, False)
       else cpp_bind (stream_node (mg_con1 (fst s1)) st (snd s1)) (\<lambda>a1.
         if a1 = NULL then Val (no_media (mg_id1 (fst s1)) st s1, True)
         else case (if st_mediaType st = MEDIACTRL_MEDIA_AUDIO
                    then take_direction st ((fst s1)\<lparr>mg_node1 := a1\<rparr>) else Inr (fst s1)) of
           Inl conflict \<Rightarrow> Val (fail 422 conflict ((fst s1)\<lparr>mg_node1 := a1\<rparr>, snd s1), True)
         | Inr g \<Rightarrow>
             cpp_bind (stream_node (mg_con2 g) st (snd s1)) (\<lambda>a2.
               if a2 = NULL then Val (no_media (mg_id2 g) st (g, snd s1), True)
               else Val (if st_mediaType st = MEDIACTRL_MEDIA_AUDIO then (g\<lparr>mg_node2 := a2\<rparr>, snd s1)
                         else (g, snd s1), False))))"

fun parse_each :: "mstream list \<Rightarrow> mstate \<Rightarrow> mstate cpp" where
  "parse_each [] s = Val s"
| "parse_each (st # sts) s =
     cpp_bind (parse_stream st s) (\<lambda>(s1, returned). if returned then Val s1 else parse_each sts s1)"

definition parseStreams :: "boost \<Rightarrow> mstate \<Rightarrow> mstate cpp" where
  "parseStreams bx s0 =
     cpp_bind (mx_getConnection bx (mg_id1 (fst s0)) (snd s0)) (\<lambda>(m1, con1).
     cpp_bind (mx_getConnection bx (mg_id2 (fst s0)) m1) (\<lambda>(m2, con2).
       let s = ((fst s0)\<lparr>mg_con1 := con1, mg_con2 := con2, mg_direction := SENDRECV, mg_node1 := NULL,
                  mg_node2 := NULL, mg_volume1 := VOLUME_NONE, mg_volume2 := VOLUME_NONE\<rparr>, m2) in
       cpp_bind (own_conference con1 s) (\<lambda>(s1, returned1).
         if returned1 then Val s1
         else cpp_bind (own_conference con2 s1) (\<lambda>(s2, returned2).
           if returned2 then Val s2
           else if mg_streams (fst s2) = [] then parse_whole s2
           else parse_each (mg_streams (fst s2)) s2))))"

subsection \<open>Joining, modifying and unjoining\<close>

definition id1_error :: string where "id1_error = ''audio error (id1)''"
definition id2_error :: string where "id2_error = ''audio error (id2)''"

text \<open>The two halves of a link; the answer says whether sound was joined. Refusals stop the message.\<close>

definition link_back :: "ptr \<Rightarrow> ptr \<Rightarrow> mstate \<Rightarrow> (mstate \<times> bool) cpp" where
  "link_back p q s = (let g = fst s in
     cpp_bind (node_check q p (snd s)) (\<lambda>b.
       if b then Val (fail 408 id2_error s, False)
       else cpp_bind (node_attach q p (getReverseDirection (mg_direction g)) (mg_volume2 g) (snd s)) (\<lambda>(m1, err).
         if 0 \<le> err then Val ((g, m1), True)
         else if err = -2 then Val (fail 408 id2_error (g, m1), False)
         else cpp_bind (node_detach p q m1) (\<lambda>(m2, _).
           cpp_bind (deref (mx_heap m2) p) (\<lambda>n. cpp_bind (deref (mx_heap m2) q) (\<lambda>k.
             let s1 = fail 411 id2_error (g, m2) in
             Val ((fst s1, notifyUnjoin (mg_requester g) (nd_Id n) (nd_Id k) UNJOIN_ERROR (snd s1)), False)))))))"

definition link_nodes :: "ptr \<Rightarrow> ptr \<Rightarrow> mstate \<Rightarrow> (mstate \<times> bool) cpp" where
  "link_nodes p q s = (let g = fst s in
     cpp_bind (node_check p q (snd s)) (\<lambda>b.
       if b then Val (fail 408 id1_error s, False)
       else cpp_bind (node_attach p q (mg_direction g) (mg_volume1 g) (snd s)) (\<lambda>(m1, err).
         if err < 0 then Val (fail (if err = -2 then 408 else 411) id1_error (g, m1), False)
         else if p = q then Val ((g, m1), True)
         else link_back p q (g, m1))))"

text \<open>The node of a connection, made on the way if there is none.\<close>

definition node_for :: "ptr \<Rightarrow> ptr \<Rightarrow> mixer \<Rightarrow> (mixer \<times> ptr) cpp" where
  "node_for requester con m = (let (p, m1) = nodes_index con m in
     if p \<noteq> NULL then Val (m1, p) else newMixerConnection requester con m1)"

definition join_nodes :: "mstate \<Rightarrow> (mstate \<times> bool) cpp" where
  "join_nodes s = (let g = fst s; r = mg_requester g in
     cpp_bind (node_for r (mg_node1 g) (snd s)) (\<lambda>(m1, p).
     cpp_bind (checkSender p r m1) (\<lambda>mine1.
       if \<not> mine1 then Val (forbid (g, m1), False)
       else cpp_bind (node_for r (mg_node2 g) m1) (\<lambda>(m2, q).
         cpp_bind (checkSender q r m2) (\<lambda>mine2.
           if \<not> mine2 then Val (forbid (g, m2), False) else link_nodes p q (g, m2))))))"

text \<open>What follows in all three requests, for the text of a failure and of a success.\<close>

definition conclude :: "string \<Rightarrow> string \<Rightarrow> (mmsg \<Rightarrow> mixer \<Rightarrow> mixer) \<Rightarrow> mstate \<times> bool \<Rightarrow> mstate" where
  "conclude nothing reason after r = (let (s, success) = r in
     if mg_stop (fst s) then s
     else if \<not> success then fail 411 nothing s
     else succeed reason None (fst s, after (fst s) (snd s)))"

definition remember_join :: "mmsg \<Rightarrow> mixer \<Rightarrow> mixer" where
  "remember_join g m = m\<lparr>mx_joins := sort_unique (mx_joins m @ [mg_id1 g @ ''~'' @ mg_id2 g])\<rparr>"

definition on_nodes :: "(mstate \<Rightarrow> (mstate \<times> bool) cpp) \<Rightarrow> mstate \<Rightarrow> (mstate \<times> bool) cpp" where
  "on_nodes f s =
     (if mg_node1 (fst s) = NULL \<and> mg_node2 (fst s) = NULL then Val (s, True)
      else if mg_node1 (fst s) \<noteq> NULL \<and> mg_node2 (fst s) \<noteq> NULL then f s
      else Val (s, False))"

definition do_join :: "boost \<Rightarrow> mstate \<Rightarrow> mstate cpp" where
  "do_join bx s = cpp_bind (parseStreams bx s) (\<lambda>s1.
     if mg_stop (fst s1) then Val s1
     else cpp_bind (on_nodes join_nodes s1) (\<lambda>r.
       Val (conclude ''nothing to join'' ''Join successful'' remember_join r)))"

text \<open>The existing nodes of the two connections, for \<open>modifyjoin\<close> and \<open>unjoin\<close>.\<close>

definition with_nodes :: "(ptr \<Rightarrow> ptr \<Rightarrow> mstate \<Rightarrow> (mstate \<times> bool) cpp) \<Rightarrow> mstate \<Rightarrow> (mstate \<times> bool) cpp" where
  "with_nodes f s = (let g = fst s; r = mg_requester g; (p, m1) = nodes_index (mg_node1 g) (snd s) in
     if p = NULL then Val (fail 426 id1_error (g, m1), False)
     else cpp_bind (checkSender p r m1) (\<lambda>mine1.
       if \<not> mine1 then Val (forbid (g, m1), False)
       else let (q, m2) = nodes_index (mg_node2 g) m1 in
         if q = NULL then Val (fail 426 id2_error (g, m2), False)
         else cpp_bind (checkSender q r m2) (\<lambda>mine2.
           if \<not> mine2 then Val (forbid (g, m2), False) else f p q (g, m2))))"

text \<open>One half of a change, \<open>op\<close>, and its refusal.\<close>

definition change_half :: "string \<Rightarrow> ptr \<Rightarrow> ptr \<Rightarrow> (mixer \<Rightarrow> (mixer \<times> int) cpp) \<Rightarrow> mstate \<Rightarrow> (mstate \<times> bool) cpp" where
  "change_half what p q op s =
     cpp_bind (node_check p q (snd s)) (\<lambda>b.
       if \<not> b then Val (fail 409 what s, False)
       else cpp_bind (op (snd s)) (\<lambda>(m1, err).
         if err < 0 then Val (fail (if err = -2 then 409 else 411) what (fst s, m1), False)
         else Val ((fst s, m1), True)))"

definition modify_nodes :: "ptr \<Rightarrow> ptr \<Rightarrow> mstate \<Rightarrow> (mstate \<times> bool) cpp" where
  "modify_nodes p q s = (let g = fst s in
     cpp_bind (change_half id1_error p q (node_modify p q (mg_direction g) (mg_volume1 g)) s) (\<lambda>(s1, ok).
       if \<not> ok \<or> p = q then Val (s1, ok)
       else change_half id2_error q p
              (node_modify q p (getReverseDirection (mg_direction g)) (mg_volume2 g)) s1))"

definition do_modifyjoin :: "boost \<Rightarrow> mstate \<Rightarrow> mstate cpp" where
  "do_modifyjoin bx s = cpp_bind (parseStreams bx s) (\<lambda>s1.
     if mg_stop (fst s1) then Val s1
     else cpp_bind (on_nodes (with_nodes modify_nodes) s1) (\<lambda>r.
       Val (conclude ''nothing to modify'' ''Join modified'' (\<lambda>g m. m) r)))"

definition unjoin_nodes :: "ptr \<Rightarrow> ptr \<Rightarrow> mstate \<Rightarrow> (mstate \<times> bool) cpp" where
  "unjoin_nodes p q s =
     cpp_bind (change_half id1_error p q (node_detach p q) s) (\<lambda>(s1, ok1).
       if \<not> ok1 then Val (s1, False)
       else cpp_bind (if p = q then Val (s1, True) else change_half id2_error q p (node_detach q p) s1)
         (\<lambda>(s2, ok2).
         if \<not> ok2 then Val (s2, False)
         else cpp_bind (deref (mx_heap (snd s2)) p) (\<lambda>n. cpp_bind (deref (mx_heap (snd s2)) q) (\<lambda>k.
           Val ((fst s2, notifyUnjoin (mg_requester (fst s2)) (nd_Id n) (nd_Id k) UNJOIN_REQUEST (snd s2)), True)))))"

definition do_unjoin :: "boost \<Rightarrow> mstate \<Rightarrow> mstate cpp" where
  "do_unjoin bx s = cpp_bind (parseStreams bx s) (\<lambda>s1.
     if mg_stop (fst s1) then Val s1
     else cpp_bind (on_nodes (with_nodes unjoin_nodes) s1) (\<lambda>r.
       Val (conclude ''nothing to unjoin'' ''Join removed'' (\<lambda>g m. m) r)))"

subsection \<open>Audits\<close>

definition audit_codecs :: string where
  "audit_codecs = ''<capabilities><codecs>'' @
     concat (map (\<lambda>c. ''<codec><subtype>'' @ c @ ''</subtype></codec>'')
       [''telephony-event'', ''PCMA'', ''PCMU'', ''GSM'', ''H.261'', ''H.263'', ''H.263+'', ''H.264'']) @
     ''</codecs></capabilities>''"

fun audit_participants :: "ptr list \<Rightarrow> mixer \<Rightarrow> string cpp" where
  "audit_participants [] m = Val ''''"
| "audit_participants (q # qs) m =
     (if q = NULL then audit_participants qs m
      else cpp_bind (deref (mx_heap m) q) (\<lambda>k. cpp_bind (audit_participants qs m) (\<lambda>t.
        Val (''<participant id='' @ quoted (nd_Id k) @ ''/>'' @ t))))"

text \<open>The loop over the conferences; \<open>None\<close> when the conference asked for is another requester's.\<close>

fun audit_confs :: "ptr \<Rightarrow> string \<Rightarrow> (string \<times> ptr) list \<Rightarrow> mixer \<Rightarrow> string option cpp" where
  "audit_confs r wanted [] m = Val (Some '''')"
| "audit_confs r wanted ((confId, p) # cs) m =
     (if p = NULL \<or> wanted \<noteq> '''' \<and> wanted \<noteq> confId then audit_confs r wanted cs m
      else cpp_bind (deref (mx_heap m) p) (\<lambda>n.
        if nd_requester n \<noteq> r then (if wanted = '''' then audit_confs r wanted cs m else Val None)
        else cpp_bind (audit_participants (map fst (nd_nodes n)) m) (\<lambda>ps.
          cpp_bind (audit_confs r wanted cs m) (\<lambda>t.
          Val (map_option (\<lambda>rest. ''<conferenceaudit conferenceid='' @ quoted confId @ ''>'' @
            (if nd_nodes n = [] then ''<participants/>'' else ''<participants>'' @ ps @ ''</participants>'') @
            ''</conferenceaudit>'' @ rest) t)))))"

fun audit_links :: "string \<Rightarrow> string \<Rightarrow> ptr list \<Rightarrow> mixer \<Rightarrow> string cpp" where
  "audit_links wanted own [] m = Val ''''"
| "audit_links wanted own (q # qs) m =
     (if q = NULL then audit_links wanted own qs m
      else cpp_bind (deref (mx_heap m) q) (\<lambda>k. cpp_bind (audit_links wanted own qs m) (\<lambda>t.
        Val ((if wanted \<noteq> '''' \<and> wanted = own \<or> own \<le> nd_Id k
              then ''<joinaudit id1='' @ quoted own @ '' id2='' @ quoted (nd_Id k) @ ''/>'' else '''') @ t))))"

fun audit_nodes :: "ptr \<Rightarrow> string \<Rightarrow> ptr list \<Rightarrow> mixer \<Rightarrow> string cpp" where
  "audit_nodes r wanted [] m = Val ''''"
| "audit_nodes r wanted (p # ps) m =
     (if p = NULL then audit_nodes r wanted ps m
      else cpp_bind (deref (mx_heap m) p) (\<lambda>n.
        if wanted \<noteq> '''' \<and> wanted \<noteq> nd_Id n \<or> nd_connection n = NULL then audit_nodes r wanted ps m
        else cpp_bind (mx_cp (nd_connection n) m) (\<lambda>c.
          if cpc_type c = CPC_CONFERENCE \<and> nd_requester n \<noteq> r then audit_nodes r wanted ps m
          else cpp_bind (if nd_requester n = r then audit_links wanted (nd_Id n) (map fst (nd_nodes n)) m
                         else Val '''') (\<lambda>ls.
            cpp_bind (audit_nodes r wanted ps m) (\<lambda>t. Val (ls @ t))))))"

definition do_audit :: "mstate \<Rightarrow> mstate cpp" where
  "do_audit s = (let g = fst s; m = snd s; r = mg_requester g; wanted = mg_auditConference g in
     cpp_bind (if \<not> mg_auditMixers g then Val (Some '''')
               else if mx_confs m = [] then Val (Some ''<mixers/>'')
               else cpp_bind (audit_confs r wanted (mx_confs m) m) (\<lambda>co. case co of
                 None \<Rightarrow> Val None
               | Some cs \<Rightarrow> cpp_bind (audit_nodes r wanted (map snd (mx_nodes m)) m) (\<lambda>ns.
                   Val (Some (''<mixers>'' @ cs @ ns @ ''</mixers>'')))))
       (\<lambda>mixers. case mixers of
          None \<Rightarrow> Val (forbid s)
        | Some t \<Rightarrow> Val (reply 200 10 (mscmixer (''<auditresponse status='' @ quoted ''200'' @ ''>'' @
            (if mg_auditCapabilities g then audit_codecs else '''') @ t @ ''</auditresponse>'')) s)))"

subsection \<open>The end of a request\<close>

definition finish_create :: "mstate \<Rightarrow> mstate cpp" where
  "finish_create s =
     (if \<not> (mg_newconf (fst s) \<and> mg_conf (fst s) \<noteq> NULL) then Val s
      else cpp_bind (deref (mx_heap (snd s)) (mg_conf (fst s))) (\<lambda>n.
        if nd_mixingtype n = MIXING_NONE then
          let s1 = fail 421 ''audio-mixing'' s in
          cpp_bind (conf_destroy (mg_conf (fst s)) (snd s1)) (\<lambda>m1. Val (fst s1, m1))
        else cpp_bind (conf_start (mg_conf (fst s)) (snd s)) (\<lambda>m1.
          Val (succeed ''Conference created'' (Some (nd_Id n)) (fst s, m1)))))"

definition finish_request :: "boost \<Rightarrow> mstate \<Rightarrow> mstate cpp" where
  "finish_request bx s0 =
     (if mg_request (fst s0) = ''audit'' then do_audit s0
      else cpp_bind (finish_create s0) (\<lambda>s. let g = fst s in
        if mg_request g = ''modifyconference'' then
          cpp_bind (deref (mx_heap (snd s)) (mg_conf g)) (\<lambda>n.
            Val (succeed ''Conference modified'' (Some (nd_Id n)) s))
        else if mg_request g = ''destroyconference'' then
          cpp_bind (deref (mx_heap (snd s)) (mg_conf g)) (\<lambda>n.
          cpp_bind (conf_destroy (mg_conf g) (snd s)) (\<lambda>m1.
            Val (succeed ''Conference removed'' (Some (nd_Id n)) (g, m1))))
        else if mg_request g = ''join'' then do_join bx s
        else if mg_request g = ''modifyjoin'' then do_modifyjoin bx s
        else if mg_request g = ''unjoin'' then do_unjoin bx s
        else Val s))"

definition mx_endElement :: "mixer_env \<Rightarrow> mstate \<Rightarrow> mstate cpp" where
  "mx_endElement env s0 =
     (if mg_stop (fst s0) then Val s0
      else if mg_childs (fst s0) = [] then Undef
      else let g = fst s0;
               s = (g\<lparr>mg_level := mg_level g - 1, mg_childs := butlast (mg_childs g)\<rparr>, snd s0) in
        if mg_level (fst s) = 0 then finish_request (me_bx env) s else Val s)"

subsection \<open>A CONTROL message\<close>

fun mx_handle :: "mixer_env \<Rightarrow> xml_event \<Rightarrow> mstate \<Rightarrow> mstate cpp" where
  "mx_handle env (StartElement name atts) s = mx_startElement env name atts s"
| "mx_handle env (CharacterData t) s = Val s"
| "mx_handle env (EndElement name) s = mx_endElement env s"

fun mx_parse :: "mixer_env \<Rightarrow> xml_event list \<Rightarrow> mstate \<Rightarrow> mstate cpp" where
  "mx_parse env [] s = Val s"
| "mx_parse env (e # es) s = cpp_bind (mx_handle env e s) (mx_parse env es)"

text \<open>
  \<open>handleControl\<close>: an empty body, a body that eXpat refuses (\<open>doc\<close> is \<open>None\<close>), and one that it parses a
  second time with the handlers at work.
\<close>

definition mixer_control :: "mixer_env \<Rightarrow> ptr \<Rightarrow> string \<Rightarrow> string \<Rightarrow> xml option \<Rightarrow> mixer \<Rightarrow> mixer cpp" where
  "mixer_control env requester tid blob doc m =
     (let s = (newMixerMessage requester tid, m) in
      if blob = '''' then Val (snd (fail 400 ''No XML body'' s))
      else case doc of None \<Rightarrow> Val (snd (fail 400 ''Invalid XML body'' s))
      | Some x \<Rightarrow> cpp_bind (mx_parse env (events x) s) (\<lambda>s1. Val (snd s1)))"

end
