(* ===== verification/MixerLinks.thy ===== *)
theory MixerLinks
  imports MixerControl
begin

text \<open>
  The mixer as a graph. \<open>faces\<close> and \<open>link\<close> abstract the nodes of \<open>src/packages/MixerPackage.cxx\<close> to what
  identifies them and to the directions of their links; each operation is a change of that graph, and
  every link is two-sided, between nodes of one requester that are alive.
\<close>

subsection \<open>The abstraction\<close>

record face =
  fc_conf :: bool
  fc_req :: ptr
  fc_con :: ptr
  fc_id :: string
  fc_media :: int

definition face_of :: "mnode \<Rightarrow> face" where
  "face_of n = \<lparr>fc_conf = nd_conf n, fc_req = nd_requester n, fc_con = nd_connection n, fc_id = nd_Id n,
     fc_media = nd_mediaType n\<rparr>"

lemma face_simps [simp]:
  "fc_conf (face_of n) = nd_conf n" "fc_req (face_of n) = nd_requester n"
  "fc_con (face_of n) = nd_connection n" "fc_id (face_of n) = nd_Id n"
  "fc_media (face_of n) = nd_mediaType n"
  by (simp_all add: face_of_def)

definition faces :: "mixer \<Rightarrow> ptr \<rightharpoonup> face" where
  "faces m p = map_option face_of (mx_heap m p)"

definition link :: "mixer \<Rightarrow> ptr \<Rightarrow> ptr \<rightharpoonup> int" where
  "link m p = (case mx_heap m p of None \<Rightarrow> Map.empty | Some n \<Rightarrow> smap_get (nd_nodes n))"

definition edge_ok :: "(ptr \<rightharpoonup> face) \<Rightarrow> ptr \<Rightarrow> ptr \<Rightarrow> int \<Rightarrow> bool" where
  "edge_ok F p q d \<longleftrightarrow> 0 \<le> d \<and> d \<le> 3 \<and> q \<noteq> NULL \<and>
     (\<exists>a b. F p = Some a \<and> F q = Some b \<and> fc_req a = fc_req b \<and>
        (fc_conf a \<longrightarrow> p \<noteq> q \<and> fc_media b = MEDIACTRL_MEDIA_AUDIO))"

definition graph_ok :: "(ptr \<rightharpoonup> face) \<Rightarrow> (ptr \<Rightarrow> ptr \<rightharpoonup> int) \<Rightarrow> bool" where
  "graph_ok F L \<longleftrightarrow> (\<forall>p q d. L p q = Some d \<longrightarrow>
     edge_ok F p q d \<and> (p \<noteq> q \<longrightarrow> L q p = Some (getReverseDirection d)))"

definition nodes_wf :: "mixer \<Rightarrow> bool" where
  "nodes_wf m \<longleftrightarrow> mx_next m \<noteq> NULL \<and> (\<forall>p n. mx_heap m p = Some n \<longrightarrow> p \<noteq> NULL \<and> p < mx_next m \<and>
     smap_ok (nd_nodes n) \<and> sound_ok n \<and> nd_receiving n = 0 \<and>
     (nd_conf n \<longrightarrow> nd_mediaType n \<noteq> MEDIACTRL_MEDIA_AUDIO))"

definition registry_ok :: "(ptr \<rightharpoonup> face) \<Rightarrow> (ptr, ptr) smap \<Rightarrow> (string, ptr) smap \<Rightarrow> bool" where
  "registry_ok F ns cs \<longleftrightarrow> smap_ok ns \<and> smap_ok cs \<and>
     (\<forall>cp p. smap_get ns cp = Some p \<longrightarrow> p \<noteq> NULL \<longrightarrow> (\<exists>a. F p = Some a \<and> fc_con a = cp)) \<and>
     (\<forall>i p. smap_get cs i = Some p \<longrightarrow> p \<noteq> NULL \<longrightarrow> (\<exists>a. F p = Some a \<and> fc_conf a \<and> fc_id a = i))"

definition mixer_ok :: "mixer \<Rightarrow> bool" where
  "mixer_ok m \<longleftrightarrow> nodes_wf m \<and> graph_ok (faces m) (link m) \<and>
     registry_ok (faces m) (mx_nodes m) (mx_confs m)"

lemma node_wf:
  assumes "nodes_wf m" and "mx_heap m p = Some n"
  shows "p \<noteq> NULL" "p < mx_next m" "smap_ok (nd_nodes n)" "sound_ok n" "nd_receiving n = 0"
    "nd_conf n \<Longrightarrow> nd_mediaType n \<noteq> MEDIACTRL_MEDIA_AUDIO"
  using assms by (auto simp: nodes_wf_def)

lemma link_Some: "mx_heap m p = Some n \<Longrightarrow> link m p = smap_get (nd_nodes n)"
  by (simp add: link_def)

lemma faces_Some: "mx_heap m p = Some n \<Longrightarrow> faces m p = Some (face_of n)"
  by (simp add: faces_def)

subsection \<open>Changes of one node's links\<close>

text \<open>The links of \<open>p\<close> change by \<open>g\<close>; everything else that the abstraction sees stays.\<close>

definition same_frame :: "mixer \<Rightarrow> mixer \<Rightarrow> bool" where
  "same_frame m m' \<longleftrightarrow> mx_nodes m' = mx_nodes m \<and> mx_confs m' = mx_confs m \<and> mx_next m' = mx_next m \<and>
     mx_out m' = mx_out m \<and> mx_joins m' = mx_joins m"

definition relink :: "ptr \<Rightarrow> ((ptr \<rightharpoonup> int) \<Rightarrow> (ptr \<rightharpoonup> int)) \<Rightarrow> mixer \<Rightarrow> mixer \<Rightarrow> bool" where
  "relink p g m m' \<longleftrightarrow> faces m' = faces m \<and> link m' = (link m)(p := g (link m p)) \<and>
     nodes_wf m' \<and> same_frame m m' \<and> (\<forall>x. x \<noteq> p \<longrightarrow> mx_heap m' x = mx_heap m x)"

lemma on_package_keeps:
  "on_package f cp m = Val m' \<Longrightarrow> mx_heap m' = mx_heap m \<and> same_frame m m'"
  by (auto simp: on_package_def same_frame_def cpp_bind_Val)

lemma same_frame_simps [simp]:
  "same_frame m m" "same_frame m (putNode p n m)"
  by (simp_all add: same_frame_def)

lemma same_frame_trans: "same_frame a b \<Longrightarrow> same_frame b c \<Longrightarrow> same_frame a c"
  by (simp add: same_frame_def)

lemma relinkI:
  assumes "nodes_wf m" and "mx_heap m p = Some n"
    and "mx_heap m' = (mx_heap m)(p \<mapsto> n')" and "same_frame m m'"
    and "face_of n' = face_of n" and "smap_ok (nd_nodes n')" and "sound_ok n'" and "nd_receiving n' = 0"
    and "smap_get (nd_nodes n') = g (smap_get (nd_nodes n))"
  shows "relink p g m m'"
proof -
  have "nodes_wf m'"
    using assms(1-8) by (auto simp: nodes_wf_def same_frame_def face_of_def)
  moreover have "faces m' = faces m" using assms(2,3,5) by (auto simp: faces_def)
  moreover have "link m' = (link m)(p := g (link m p))"
    using assms(2,3,9) by (auto simp: link_def)
  ultimately show ?thesis using assms(3,4) by (simp add: relink_def)
qed

lemma linked_iff: "list_ex (\<lambda>(k, _). k = q) xs \<longleftrightarrow> smap_get xs q \<noteq> None"
  by (induction xs) (auto simp: smap_get_def)

lemma attach_volume_keeps [simp]:
  "face_of (attach_volume q v n) = face_of n" "nd_nodes (attach_volume q v n) = nd_nodes n"
  "nd_receiving (attach_volume q v n) = nd_receiving n" "nd_queued (attach_volume q v n) = nd_queued n"
  "nd_connection (attach_volume q v n) = nd_connection n" "nd_sending (attach_volume q v n) = nd_sending n"
  by (simp_all add: attach_volume_def face_of_def)

lemma attach_volume_sound: "sound_ok n \<Longrightarrow> sound_ok (attach_volume q v n)"
  by (simp add: attach_volume_def sound_ok_def)

lemma modify_volume_keeps [simp]:
  "face_of (modify_volume q v n) = face_of n" "nd_nodes (modify_volume q v n) = nd_nodes n"
  "nd_receiving (modify_volume q v n) = nd_receiving n" "nd_queued (modify_volume q v n) = nd_queued n"
  "nd_connection (modify_volume q v n) = nd_connection n" "nd_sending (modify_volume q v n) = nd_sending n"
  by (simp_all add: modify_volume_def face_of_def Let_def)

lemma modify_volume_sound: "sound_ok n \<Longrightarrow> sound_ok (modify_volume q v n)"
  by (simp add: modify_volume_def sound_ok_def Let_def)

lemma smap_adjust_keys: "map fst (smap_adjust k v m) = map fst m"
  by (induction m) (auto simp: smap_adjust_def)

lemma smap_adjust_ok [simp]: "smap_ok (smap_adjust k v m) = smap_ok m"
  by (simp add: smap_ok_def smap_adjust_keys del: map_map)

lemma smap_get_adjust: "smap_get (smap_adjust k v m) k' = (if k' = k \<and> smap_get m k \<noteq> None then Some v else smap_get m k')"
  by (induction m) (auto simp: smap_adjust_def smap_get_def)

lemma conf_volume_keeps [simp]:
  "face_of (conf_volume q v n) = face_of n" "nd_nodes (conf_volume q v n) = nd_nodes n"
  "nd_receiving (conf_volume q v n) = nd_receiving n"
  by (simp_all add: conf_volume_def face_of_def Let_def)

lemma conf_volume_sound: "sound_ok n \<Longrightarrow> sound_ok (conf_volume q v n)"
  by (simp add: conf_volume_def sound_ok_def Let_def)

lemma face_of_updates [simp]:
  "face_of (n\<lparr>nd_nodes := a\<rparr>) = face_of n" "face_of (n\<lparr>nd_sending := s\<rparr>) = face_of n"
  "face_of (n\<lparr>nd_queued := c\<rparr>) = face_of n" "face_of (n\<lparr>nd_volumes := a\<rparr>) = face_of n"
  "face_of (n\<lparr>nd_mutes := a\<rparr>) = face_of n" "face_of (n\<lparr>nd_bots := b\<rparr>) = face_of n"
  "face_of (n\<lparr>nd_playing := e\<rparr>) = face_of n" "face_of (n\<lparr>nd_start := f\<rparr>) = face_of n"
  by (simp_all add: face_of_def)

lemma sound_ok_updates [simp]:
  "sound_ok (n\<lparr>nd_nodes := a\<rparr>) = sound_ok n" "sound_ok (n\<lparr>nd_sending := s\<rparr>) = sound_ok n"
  "sound_ok (n\<lparr>nd_bots := b\<rparr>) = sound_ok n" "sound_ok (n\<lparr>nd_playing := e\<rparr>) = sound_ok n"
  "sound_ok (n\<lparr>nd_start := f\<rparr>) = sound_ok n"
  by (simp_all add: sound_ok_def)

lemma con_attach_effect:
  assumes "con_attach p q d v m = Val (m', err)" and "nodes_wf m"
  shows "(err < 0 \<and> m' = m \<and> (link m p q = None \<longrightarrow> q = NULL)) \<or>
     (err = 0 \<and> relink p (\<lambda>l. l(q \<mapsto> d)) m m')"
proof (cases "q = NULL")
  case False
  with assms(1) obtain n where n: "mx_heap m p = Some n"
    by (auto simp: con_attach_def cpp_bind_Val)
  note wf = node_wf [OF assms(2) n]
  let ?n = "attach_volume q v (n\<lparr>nd_nodes := smap_put q d (nd_nodes n)\<rparr>)"
  have r: "relink p (\<lambda>l. l(q \<mapsto> d)) m m2"
    if "mx_heap m2 = (mx_heap m)(p \<mapsto> ?n\<lparr>nd_sending := s\<rparr>)" "same_frame m m2" for m2 s
    by (rule relinkI [OF assms(2) n that]) (use wf in \<open>auto intro!: attach_volume_sound\<close>)
  have r0: "relink p (\<lambda>l. l(q \<mapsto> d)) m (putNode p ?n m)"
    by (rule relinkI [OF assms(2) n, of _ ?n]) (use wf in \<open>auto intro!: attach_volume_sound\<close>)
  show ?thesis
    using assms(1) n wf False r0
    by (auto simp: con_attach_def cpp_bind_Val Let_def linked_iff link_def
        dest!: on_package_keeps intro!: r split: if_splits
        elim!: same_frame_trans [rotated])
qed (use assms(1) in \<open>auto simp: con_attach_def\<close>)

lemma con_modify_effect:
  assumes "con_modify p q d v m = Val (m', err)" and "nodes_wf m"
  shows "(err < 0 \<and> m' = m \<and> (q = NULL \<or> link m p q = None)) \<or>
     (err = 0 \<and> relink p (\<lambda>l. l(q \<mapsto> d)) m m')"
proof (cases "q = NULL")
  case False
  with assms(1) obtain n where n: "mx_heap m p = Some n" "p \<noteq> NULL"
    by (auto simp: con_modify_def cpp_bind_Val)
  note wf = node_wf [OF assms(2) n(1)]
  show ?thesis
  proof (cases "smap_get (nd_nodes n) q")
    case None
    with assms(1) n show ?thesis by (auto simp: con_modify_def cpp_bind_Val link_def split: if_splits)
  next
    case (Some old)
    then have ne: "nd_nodes n \<noteq> []" by auto
    let ?stops = "0 < nd_sending n \<and> (old = SENDRECV \<or> old = SENDONLY) \<and> (d = RECVONLY \<or> d = INACTIVE)"
    let ?n1 = "if ?stops then n\<lparr>nd_sending := nd_sending n - 1\<rparr> else n"
    let ?n2 = "modify_volume q v ?n1"
    let ?n3 = "?n2\<lparr>nd_sending := nd_sending ?n2 + (if d = SENDRECV \<or> d = SENDONLY then 1 else 0),
        nd_nodes := smap_put q d (nd_nodes ?n2)\<rparr>"
    from assms(1) n False ne Some wf(5) obtain k m1 m2 where
        m1: "(if ?stops \<and> nd_sending ?n1 = 0 then on_package removePackage (nd_connection n) m else Val m) = Val m1"
      and m2: "(if d = SENDRECV \<or> d = SENDONLY then on_package addPackage (nd_connection n) m1 else Val m1) = Val m2"
      and m': "m' = putNode p ?n3 m2" "err = 0"
      unfolding con_modify_def Let_def by (auto elim!: cpp_bindE)
    have "mx_heap m1 = mx_heap m \<and> same_frame m m1" using m1 on_package_keeps by (auto split: if_splits)
    moreover have "mx_heap m2 = mx_heap m1 \<and> same_frame m1 m2" using m2 on_package_keeps by (auto split: if_splits)
    ultimately have h: "mx_heap m' = (mx_heap m)(p \<mapsto> ?n3)" "same_frame m m'"
      by (auto simp: m' same_frame_def)
    have "relink p (\<lambda>l. l(q \<mapsto> d)) m m'"
      by (rule relinkI [OF assms(2) n(1) h]) (use wf in \<open>auto intro!: modify_volume_sound\<close>)
    with m' show ?thesis by simp
  qed
qed (use assms(1) in \<open>auto simp: con_modify_def\<close>)

lemma con_detach_effect:
  assumes "con_detach p q m = Val (m', err)" and "nodes_wf m"
  shows "(err < 0 \<and> m' = m \<and> (q = NULL \<or> link m p q = None)) \<or>
     (err = 0 \<and> relink p (\<lambda>l. l(q := None)) m m')"
proof (cases "q = NULL")
  case False
  with assms(1) obtain n where n: "mx_heap m p = Some n" "p \<noteq> NULL"
    by (auto simp: con_detach_def cpp_bind_Val)
  note wf = node_wf [OF assms(2) n(1)]
  show ?thesis
  proof (cases "smap_get (nd_nodes n) q")
    case None
    with assms(1) n False show ?thesis by (auto simp: con_detach_def link_def)
  next
    case (Some old)
    let ?stops = "0 < nd_sending n \<and> (old = SENDRECV \<or> old = SENDONLY)"
    let ?n2 = "if ?stops then n\<lparr>nd_sending := nd_sending n - 1\<rparr> else n"
    let ?n3 = "?n2\<lparr>nd_nodes := smap_erase q (nd_nodes ?n2)\<rparr>"
    have z: "(0 < nd_receiving n \<and> X) = False" for X using wf(5) by simp
    from assms(1) n False Some obtain m1 where
        m1: "(if ?stops \<and> nd_sending ?n2 = 0 then on_package removePackage (nd_connection n) m else Val m) = Val m1"
      and m': "m' = putNode p ?n3 m1" "err = 0"
      unfolding con_detach_def Let_def by (auto simp only: z if_False deref_Some cpp_bind.simps option.case cpp.inject prod.inject elim!: cpp_bindE)
    have "mx_heap m1 = mx_heap m \<and> same_frame m m1" using m1 on_package_keeps by (auto split: if_splits)
    then have h: "mx_heap m' = (mx_heap m)(p \<mapsto> ?n3)" "same_frame m m'"
      by (auto simp: m' same_frame_def)
    have "relink p (\<lambda>l. l(q := None)) m m'"
      by (rule relinkI [OF assms(2) n(1) h]) (use wf in auto)
    with m' show ?thesis by simp
  qed
qed (use assms(1) in \<open>auto simp: con_detach_def\<close>)

subsection \<open>The same for conferences\<close>

lemma conf_attach_effect:
  assumes "conf_attach p q d v m = Val (m', err)" and "nodes_wf m"
  shows "(err < 0 \<and> m' = m \<and> (link m p q = None \<longrightarrow> q = NULL \<or> (\<exists>b. faces m q = Some b \<and> fc_media b \<noteq> MEDIACTRL_MEDIA_AUDIO))) \<or>
     (err = 0 \<and> relink p (\<lambda>l. l(q \<mapsto> d)) m m' \<and> (\<exists>b. faces m q = Some b \<and> fc_media b = MEDIACTRL_MEDIA_AUDIO))"
proof (cases "q = NULL")
  case False
  with assms(1) obtain k where k: "mx_heap m q = Some k" by (auto simp: conf_attach_def cpp_bind_Val)
  show ?thesis
  proof (cases "nd_mediaType k = MEDIACTRL_MEDIA_AUDIO")
    case True
    with assms(1) False k obtain n where n: "mx_heap m p = Some n" "p \<noteq> NULL"
      by (auto simp: conf_attach_def cpp_bind_Val)
    note wf = node_wf [OF assms(2) n(1)]
    let ?n = "attach_volume q v (n\<lparr>nd_nodes := smap_put q d (nd_nodes n)\<rparr>)"
    have "relink p (\<lambda>l. l(q \<mapsto> d)) m (putNode p ?n m)"
      by (rule relinkI [OF assms(2) n(1), of _ ?n]) (use wf in \<open>auto intro!: attach_volume_sound\<close>)
    with assms(1) n k False True show ?thesis
      by (auto simp: conf_attach_def linked_iff link_def faces_def split: if_splits)
  next
    case nm: False
    with assms(1) False k show ?thesis by (auto simp: conf_attach_def faces_def)
  qed
qed (use assms(1) in \<open>auto simp: conf_attach_def\<close>)

lemma conf_modify_effect:
  assumes "conf_modify p q d v m = Val (m', err)" and "nodes_wf m"
    and "faces m q = Some b" and "fc_media b = MEDIACTRL_MEDIA_AUDIO"
  shows "(err < 0 \<and> m' = m \<and> (q = NULL \<or> link m p q = None)) \<or>
     (err = 0 \<and> relink p (\<lambda>l. l(q \<mapsto> d)) m m')"
proof (cases "q = NULL")
  case False
  obtain k where k: "mx_heap m q = Some k" "nd_mediaType k = MEDIACTRL_MEDIA_AUDIO"
    using assms(3,4) by (auto simp: faces_def)
  with assms(1) False obtain n where n: "mx_heap m p = Some n" "p \<noteq> NULL"
    by (auto simp: conf_modify_def cpp_bind_Val)
  note wf = node_wf [OF assms(2) n(1)]
  let ?n = "conf_volume q v (n\<lparr>nd_nodes := smap_adjust q d (nd_nodes n)\<rparr>)"
  show ?thesis
  proof (cases "smap_get (nd_nodes n) q")
    case None
    with assms(1) n k False show ?thesis by (auto simp: conf_modify_def link_def)
  next
    case (Some old)
    have g: "smap_get (smap_adjust q d (nd_nodes n)) = (smap_get (nd_nodes n))(q \<mapsto> d)"
      using Some by (auto simp: smap_get_adjust)
    have "relink p (\<lambda>l. l(q \<mapsto> d)) m (putNode p ?n m)"
      by (rule relinkI [OF assms(2) n(1), of _ ?n]) (use wf g in \<open>auto intro!: conf_volume_sound\<close>)
    with assms(1) n k False Some show ?thesis by (auto simp: conf_modify_def)
  qed
qed (use assms(1) in \<open>auto simp: conf_modify_def\<close>)

lemma conf_detach_effect:
  assumes "conf_detach p q m = Val (m', err)" and "nodes_wf m"
    and "faces m q = Some b" and "fc_media b = MEDIACTRL_MEDIA_AUDIO"
  shows "(err < 0 \<and> m' = m \<and> (q = NULL \<or> link m p q = None)) \<or>
     (err = 0 \<and> relink p (\<lambda>l. l(q := None)) m m')"
proof (cases "q = NULL")
  case False
  obtain k where k: "mx_heap m q = Some k" "nd_mediaType k = MEDIACTRL_MEDIA_AUDIO"
    using assms(3,4) by (auto simp: faces_def)
  with assms(1) False obtain n where n: "mx_heap m p = Some n" "p \<noteq> NULL"
    by (auto simp: conf_detach_def cpp_bind_Val)
  note wf = node_wf [OF assms(2) n(1)]
  let ?n = "n\<lparr>nd_nodes := smap_erase q (nd_nodes n), nd_queued := smap_erase q (nd_queued n)\<rparr>"
  have "relink p (\<lambda>l. l(q := None)) m (putNode p ?n m)"
    by (rule relinkI [OF assms(2) n(1), of _ ?n]) (use wf in \<open>auto simp: sound_ok_def\<close>)
  with assms(1) n k False show ?thesis
    by (auto simp: conf_detach_def link_def split: option.splits)
qed (use assms(1) in \<open>auto simp: conf_detach_def\<close>)

subsection \<open>Virtual calls on a well-formed graph\<close>

lemma node_attach_effect:
  assumes "node_attach p q d v m = Val (m', err)" and "nodes_wf m" and "link m p q = None" and "q \<noteq> NULL"
  shows "(err < 0 \<and> err \<noteq> -2 \<and> m' = m) \<or>
     (err = 0 \<and> relink p (\<lambda>l. l(q \<mapsto> d)) m m' \<and>
        (\<exists>a b. faces m p = Some a \<and> faces m q = Some b \<and> (fc_conf a \<longrightarrow> fc_media b = MEDIACTRL_MEDIA_AUDIO)))"
proof -
  from assms(1) obtain n where n: "mx_heap m p = Some n" "p \<noteq> NULL"
    and r: "(if nd_conf n then conf_attach p q d v m else con_attach p q d v m) = Val (m', err)"
    by (auto simp: node_attach_def cpp_bind_Val)
  show ?thesis
  proof (cases "nd_conf n")
    case True
    with r have c: "conf_attach p q d v m = Val (m', err)" by simp
    have "err \<noteq> -2"
      using c n assms(3,4) by (auto simp: conf_attach_def cpp_bind_Val linked_iff link_def split: if_splits)
    with conf_attach_effect [OF c assms(2)] n True show ?thesis
      by (auto simp: faces_def)
  next
    case False
    with r have c: "con_attach p q d v m = Val (m', err)" by simp
    have "faces m q \<noteq> None" using c assms(4) by (auto simp: con_attach_def cpp_bind_Val faces_def)
    then obtain b where "faces m q = Some b" by auto
    with con_attach_effect [OF c assms(2)] n False assms(3,4) show ?thesis
      by (auto simp: faces_def)
  qed
qed

lemma linked_faces:
  assumes "graph_ok (faces m) (link m)" and "link m p q = Some d"
  obtains a b where "faces m p = Some a" "faces m q = Some b" "fc_req a = fc_req b" "q \<noteq> NULL"
    "fc_conf a \<longrightarrow> p \<noteq> q \<and> fc_media b = MEDIACTRL_MEDIA_AUDIO" "0 \<le> d" "d \<le> 3"
    "p \<noteq> q \<longrightarrow> link m q p = Some (getReverseDirection d)"
  using assms unfolding graph_ok_def edge_ok_def by blast

lemma node_modify_effect:
  assumes "node_modify p q d v m = Val (m', err)" and "nodes_wf m" and "link m p q = Some d0"
    and "q \<noteq> NULL" and "faces m p = Some a" and "faces m q = Some b"
    and "fc_conf a \<Longrightarrow> fc_media b = MEDIACTRL_MEDIA_AUDIO"
  shows "err = 0 \<and> relink p (\<lambda>l. l(q \<mapsto> d)) m m'"
proof -
  from assms(1) obtain n where n: "mx_heap m p = Some n" "p \<noteq> NULL"
    and r: "(if nd_conf n then conf_modify p q d v m else con_modify p q d v m) = Val (m', err)"
    by (auto simp: node_modify_def cpp_bind_Val)
  then have a: "fc_conf a = nd_conf n" using assms(5) by (auto simp: faces_def)
  show ?thesis
  proof (cases "nd_conf n")
    case True
    with conf_modify_effect [of p q d v m m' err, OF _ assms(2,6)] r a assms(3,4,7) show ?thesis by auto
  next
    case False
    with con_modify_effect [of p q d v m m' err, OF _ assms(2)] r assms(3,4) show ?thesis by auto
  qed
qed

lemma node_detach_effect:
  assumes "node_detach p q m = Val (m', err)" and "nodes_wf m" and "link m p q = Some d0"
    and "q \<noteq> NULL" and "faces m p = Some a" and "faces m q = Some b"
    and "fc_conf a \<Longrightarrow> fc_media b = MEDIACTRL_MEDIA_AUDIO"
  shows "err = 0 \<and> relink p (\<lambda>l. l(q := None)) m m'"
proof -
  from assms(1) obtain n where n: "mx_heap m p = Some n" "p \<noteq> NULL"
    and r: "(if nd_conf n then conf_detach p q m else con_detach p q m) = Val (m', err)"
    by (auto simp: node_detach_def cpp_bind_Val)
  then have a: "fc_conf a = nd_conf n" using assms(5) by (auto simp: faces_def)
  show ?thesis
  proof (cases "nd_conf n")
    case True
    with conf_detach_effect [of p q m m' err, OF _ assms(2,6)] r a assms(3,4,7) show ?thesis by auto
  next
    case False
    with con_detach_effect [of p q m m' err, OF _ assms(2)] r assms(3,4) show ?thesis by auto
  qed
qed

lemma node_check_value:
  "node_check p q m = Val b \<Longrightarrow> q \<noteq> NULL \<Longrightarrow> b \<longleftrightarrow> link m p q \<noteq> None"
  by (auto simp: node_check_def cpp_bind_Val link_def linked_iff)

subsection \<open>Two-sided changes of the graph\<close>

lemma reverse_reverse [simp]: "0 \<le> d \<Longrightarrow> d \<le> 3 \<Longrightarrow> getReverseDirection (getReverseDirection d) = d"
  by (auto simp: getReverseDirection_def)

lemma reverse_range: "0 \<le> d \<Longrightarrow> d \<le> 3 \<Longrightarrow> 0 \<le> getReverseDirection d \<and> getReverseDirection d \<le> 3"
  by (auto simp: getReverseDirection_def)

definition both :: "ptr \<Rightarrow> ptr \<Rightarrow> int option \<Rightarrow> (ptr \<Rightarrow> ptr \<rightharpoonup> int) \<Rightarrow> (ptr \<Rightarrow> ptr \<rightharpoonup> int)" where
  "both p q d L = (let L1 = L(p := (L p)(q := d)) in
     if p = q then L1 else L1(q := (L1 q)(p := map_option getReverseDirection d)))"

lemma graph_ok_set:
  assumes "graph_ok F L" and "edge_ok F p q d" and "p \<noteq> q \<Longrightarrow> edge_ok F q p (getReverseDirection d)"
  shows "graph_ok F (both p q (Some d) L)"
proof -
  have "0 \<le> d" "d \<le> 3" using assms(2) by (auto simp: edge_ok_def)
  then show ?thesis using assms unfolding graph_ok_def both_def Let_def by auto
qed

lemma graph_ok_unset:
  assumes "graph_ok F L"
  shows "graph_ok F (both p q None L)"
  using assms unfolding graph_ok_def both_def Let_def by auto

lemma edge_ok_set:
  assumes "F p = Some a" "F q = Some b" "fc_req a = fc_req b" "p \<noteq> NULL" "q \<noteq> NULL" "0 \<le> d" "d \<le> 3"
    and "fc_conf a \<Longrightarrow> fc_media b = MEDIACTRL_MEDIA_AUDIO" "fc_conf a \<Longrightarrow> fc_media a \<noteq> MEDIACTRL_MEDIA_AUDIO"
  shows "edge_ok F p q d"
  using assms by (auto simp: edge_ok_def)

lemma both_restore:
  assumes "L p q = None"
  shows "L(p := (L p)(q := None)) = L"
  using assms by (auto simp: fun_eq_iff)

text \<open>Nothing that the abstraction sees changes but the links of the nodes in \<open>P\<close>.\<close>

definition touches :: "ptr set \<Rightarrow> mixer \<Rightarrow> mixer \<Rightarrow> bool" where
  "touches P m m' \<longleftrightarrow> faces m' = faces m \<and> nodes_wf m' \<and> mx_nodes m' = mx_nodes m \<and>
     mx_confs m' = mx_confs m \<and> mx_next m' = mx_next m \<and> (\<forall>x. x \<notin> P \<longrightarrow> mx_heap m' x = mx_heap m x)"

lemma touches_refl: "nodes_wf m \<Longrightarrow> touches P m m"
  by (simp add: touches_def)

lemma touches_trans: "touches P a b \<Longrightarrow> touches P b c \<Longrightarrow> touches P a c"
  by (simp add: touches_def)

lemma touches_mono: "touches P m m' \<Longrightarrow> P \<subseteq> Q \<Longrightarrow> touches Q m m'"
  unfolding touches_def by blast

lemma relink_touches: "relink p g m m' \<Longrightarrow> p \<in> P \<Longrightarrow> touches P m m'"
  by (auto simp: relink_def touches_def same_frame_def)

lemma relink_link: "relink p g m m' \<Longrightarrow> link m' = (link m)(p := g (link m p))"
  by (simp add: relink_def)

lemma same_heap:
  assumes "mx_heap m' = mx_heap m"
  shows "link m' = link m" "faces m' = faces m"
  using assms by (auto simp: link_def faces_def fun_eq_iff)

lemma notifyUnjoin_keeps [simp]:
  "mx_heap (notifyUnjoin r a b c m) = mx_heap m" "mx_nodes (notifyUnjoin r a b c m) = mx_nodes m"
  "mx_confs (notifyUnjoin r a b c m) = mx_confs m" "mx_next (notifyUnjoin r a b c m) = mx_next m"
  "mx_core (notifyUnjoin r a b c m) = mx_core m"
  by (simp_all add: notifyUnjoin_def Let_def)

lemma snd_reply [simp]:
  "mx_heap (snd (reply st t b s)) = mx_heap (snd s)" "mx_nodes (snd (reply st t b s)) = mx_nodes (snd s)"
  "mx_confs (snd (reply st t b s)) = mx_confs (snd s)" "mx_next (snd (reply st t b s)) = mx_next (snd s)"
  "mx_joins (snd (reply st t b s)) = mx_joins (snd s)" "mx_core (snd (reply st t b s)) = mx_core (snd s)"
  "fst (reply st t b s) = fst s"
  by (simp_all add: reply_def)

lemma snd_fail [simp]:
  "mx_heap (snd (fail c b s)) = mx_heap (snd s)" "mx_nodes (snd (fail c b s)) = mx_nodes (snd s)"
  "mx_confs (snd (fail c b s)) = mx_confs (snd s)" "mx_next (snd (fail c b s)) = mx_next (snd s)"
  "mx_joins (snd (fail c b s)) = mx_joins (snd s)" "mx_core (snd (fail c b s)) = mx_core (snd s)"
  "fst (fail c b s) = (fst s)\<lparr>mg_stop := True\<rparr>"
  by (simp_all add: fail_def halt_def)

lemma snd_forbid [simp]:
  "mx_heap (snd (forbid s)) = mx_heap (snd s)" "mx_nodes (snd (forbid s)) = mx_nodes (snd s)"
  "mx_confs (snd (forbid s)) = mx_confs (snd s)" "mx_next (snd (forbid s)) = mx_next (snd s)"
  "mx_joins (snd (forbid s)) = mx_joins (snd s)" "mx_core (snd (forbid s)) = mx_core (snd s)"
  "fst (forbid s) = (fst s)\<lparr>mg_stop := True\<rparr>"
  by (simp_all add: forbid_def halt_def)

lemma quiet_touches:
  "nodes_wf m \<Longrightarrow> mx_heap m' = mx_heap m \<Longrightarrow> mx_nodes m' = mx_nodes m \<Longrightarrow> mx_confs m' = mx_confs m \<Longrightarrow>
     mx_next m' = mx_next m \<Longrightarrow> touches P m m'"
  unfolding touches_def nodes_wf_def using same_heap(2) [of m' m] by simp

text \<open>What the two directed halves of a request do: nothing, when it is refused.\<close>

definition sets_link :: "ptr \<Rightarrow> ptr \<Rightarrow> int option \<Rightarrow> mixer \<Rightarrow> mixer \<Rightarrow> bool \<Rightarrow> bool" where
  "sets_link p q d m m' success \<longleftrightarrow> touches {p, q} m m' \<and>
     link m' = (if success then both p q d (link m) else link m)"

lemma sets_link_refused:
  "nodes_wf m \<Longrightarrow> mx_heap m' = mx_heap m \<Longrightarrow> mx_nodes m' = mx_nodes m \<Longrightarrow> mx_confs m' = mx_confs m \<Longrightarrow>
     mx_next m' = mx_next m \<Longrightarrow> sets_link p q d m m' False"
  unfolding sets_link_def using quiet_touches [of m m'] same_heap(1) [of m' m] by simp

lemma link_back_sets:
  assumes bk: "link_back p q (g, m1) = Val (s', ok)" and half: "relink p (\<lambda>l. l(q \<mapsto> d)) m m1"
    and d: "d = mg_direction g" and pq: "p \<noteq> q" "p \<noteq> NULL" "q \<noteq> NULL"
    and none: "link m p q = None" "link m q p = None"
    and f: "faces m p = Some a" "faces m q = Some b" "fc_conf a \<Longrightarrow> fc_media b = MEDIACTRL_MEDIA_AUDIO"
  shows "sets_link p q (Some d) m (snd s') ok \<and> (ok \<longrightarrow> fc_conf b \<longrightarrow> fc_media a = MEDIACTRL_MEDIA_AUDIO)"
proof -
  have wf1: "nodes_wf m1" and t1: "touches {p, q} m m1" and l1: "link m1 = (link m)(p := (link m p)(q \<mapsto> d))"
    using half relink_touches [OF half] by (auto simp: relink_def)
  have f1: "faces m1 p = Some a" "faces m1 q = Some b" using half f by (auto simp: relink_def)
  have qp: "link m1 q p = None" using none(2) pq(1) l1 by simp
  from bk obtain bb where chk: "node_check q p m1 = Val bb"
    by (auto simp: link_back_def elim: cpp_bindE)
  then have nb: "\<not> bb" using node_check_value pq(2) qp by blast
  from bk obtain m2 err where att: "node_attach q p (getReverseDirection d) (mg_volume2 g) m1 = Val (m2, err)"
    and r: "(if 0 \<le> err then Val ((g, m2), True)
         else if err = -2 then Val (fail 408 id2_error (g, m2), False)
         else cpp_bind (node_detach p q m2) (\<lambda>(m3, _).
           cpp_bind (deref (mx_heap m3) p) (\<lambda>n. cpp_bind (deref (mx_heap m3) q) (\<lambda>k.
             let s1 = fail 411 id2_error (g, m3) in
             Val ((fst s1, notifyUnjoin (mg_requester g) (nd_Id n) (nd_Id k) UNJOIN_ERROR (snd s1)), False))))) = Val (s', ok)"
    unfolding link_back_def Let_def d fst_conv snd_conv chk cpp_bind.simps if_not_P [OF nb]
    by (rule cpp_bind2E)
  consider (no) "err < 0" "err \<noteq> -2" "m2 = m1" | (yes) "err = 0" "relink q (\<lambda>l. l(p \<mapsto> getReverseDirection d)) m1 m2"
      "fc_conf b \<longrightarrow> fc_media a = MEDIACTRL_MEDIA_AUDIO"
    using node_attach_effect [OF att wf1 qp pq(2)] f1 by auto
  then show ?thesis
  proof cases
    case yes
    then have "s' = (g, m2)" "ok" using r by auto
    moreover have "touches {p, q} m1 m2" using yes(2) by (rule relink_touches) simp
    moreover have "link m2 = both p q (Some d) (link m)"
      using relink_link [OF yes(2)] l1 pq(1) by (simp add: both_def Let_def)
    ultimately show ?thesis using t1 touches_trans yes(3) unfolding sets_link_def by auto
  next
    case no
    have lpq: "link m1 p q = Some d" using l1 by simp
    have "\<not> 0 \<le> err" using no(1) by simp
    from r [unfolded if_not_P [OF this] if_not_P [OF no(2)] no(3)]
    obtain m3 e where det: "node_detach p q m1 = Val (m3, e)" and
      r2: "cpp_bind (deref (mx_heap m3) p) (\<lambda>n. cpp_bind (deref (mx_heap m3) q) (\<lambda>k.
             let s1 = fail 411 id2_error (g, m3) in
             Val ((fst s1, notifyUnjoin (mg_requester g) (nd_Id n) (nd_Id k) UNJOIN_ERROR (snd s1)), False))) = Val (s', ok)"
      by (rule cpp_bind2E)
    from r2 obtain n k :: mnode where "Val ((fst (fail 411 id2_error (g, m3)),
          notifyUnjoin (mg_requester g) (nd_Id n) (nd_Id k) UNJOIN_ERROR (snd (fail 411 id2_error (g, m3)))), False) =
        Val (s', ok)"
      unfolding Let_def by (elim cpp_bindE)
    then have s': "s' = (fst (fail 411 id2_error (g, m3)),
          notifyUnjoin (mg_requester g) (nd_Id n) (nd_Id k) UNJOIN_ERROR (snd (fail 411 id2_error (g, m3))))" "\<not> ok"
      by (auto simp only: cpp.inject prod.inject)
    from node_detach_effect [OF det wf1 lpq pq(3) f1 f(3)]
    have det': "relink p (\<lambda>l. l(q := None)) m1 m3" by blast
    then have wf3: "nodes_wf m3" "touches {p, q} m1 m3" by (auto simp: relink_def intro: relink_touches)
    have "link m3 = link m"
      using relink_link [OF det'] l1 none(1) by (auto simp: fun_eq_iff)
    moreover have "touches {p, q} m3 (snd s')" unfolding s' using wf3(1) by (intro quiet_touches) simp_all
    moreover have "link (snd s') = link m3" unfolding s' by (rule same_heap) simp
    ultimately show ?thesis using s'(2) t1 wf3(2) touches_trans unfolding sets_link_def by (metis (no_types))
  qed
qed

lemma link_nodes_sets:
  assumes r: "link_nodes p q (g, m) = Val (s', ok)" and m: "nodes_wf m" "graph_ok (faces m) (link m)"
    and pq: "p \<noteq> NULL" "q \<noteq> NULL" and f: "faces m p = Some a" "faces m q = Some b"
  shows "sets_link p q (Some (mg_direction g)) m (snd s') ok \<and> (ok \<longrightarrow> link m p q = None \<and>
     (fc_conf a \<longrightarrow> fc_media b = MEDIACTRL_MEDIA_AUDIO) \<and>
     (p \<noteq> q \<longrightarrow> fc_conf b \<longrightarrow> fc_media a = MEDIACTRL_MEDIA_AUDIO))"
proof -
  from r obtain bb where chk: "node_check p q m = Val bb"
    by (auto simp: link_nodes_def elim: cpp_bindE)
  show ?thesis
  proof (cases bb)
    case True
    then have "s' = fail 408 id1_error (g, m)" "\<not> ok" using r chk by (auto simp: link_nodes_def Let_def)
    then show ?thesis using m(1) by (auto intro!: sets_link_refused)
  next
    case False
    then have none: "link m p q = None" using node_check_value [OF chk pq(2)] by auto
    from r obtain m1 err where att: "node_attach p q (mg_direction g) (mg_volume1 g) m = Val (m1, err)"
      and r1: "(if err < 0 then Val (fail (if err = -2 then 408 else 411) id1_error (g, m1), False)
         else if p = q then Val ((g, m1), True) else link_back p q (g, m1)) = Val (s', ok)"
      unfolding link_nodes_def Let_def fst_conv snd_conv chk cpp_bind.simps if_not_P [OF False]
      by (rule cpp_bind2E)
    consider (no) "err < 0" "m1 = m" | (yes) "err = 0" "relink p (\<lambda>l. l(q \<mapsto> mg_direction g)) m m1"
        "fc_conf a \<longrightarrow> fc_media b = MEDIACTRL_MEDIA_AUDIO"
      using node_attach_effect [OF att m(1) none pq(2)] f by auto
    then show ?thesis
    proof cases
      case no
      then have "s' = fail (if err = -2 then 408 else 411) id1_error (g, m)" "\<not> ok" using r1 by auto
      then show ?thesis using m(1) by (auto intro!: sets_link_refused)
    next
      case yes
      show ?thesis
      proof (cases "p = q")
        case True
        then have "s' = (g, m1)" "ok" using r1 yes(1) by auto
        moreover have "touches {p, q} m m1" using yes(2) by (rule relink_touches) simp
        ultimately show ?thesis using relink_link [OF yes(2)] True none yes(3)
          by (simp add: sets_link_def both_def)
      next
        case pq': False
        have "link m q p = None"
        proof (rule ccontr)
          assume "link m q p \<noteq> None"
          then obtain d where "link m q p = Some d" by auto
          with m(2) pq' have "link m p q = Some (getReverseDirection d)" unfolding graph_ok_def by metis
          with none show False by simp
        qed
        moreover have "link_back p q (g, m1) = Val (s', ok)" using r1 yes(1) pq' by simp
        ultimately show ?thesis
          using link_back_sets [OF _ yes(2) refl pq' pq none _ f] yes(3) none by auto
      qed
    qed
  qed
qed

text \<open>One half of a \<open>modifyjoin\<close> or an \<open>unjoin\<close> that is refused changes nothing.\<close>

lemma change_half_cases:
  assumes r: "change_half what p q f (g, m) = Val (s1, ok)" and q: "q \<noteq> NULL"
    and ops: "\<And>m1 err. link m p q \<noteq> None \<Longrightarrow> f m = Val (m1, err) \<Longrightarrow> err = 0 \<and> relink p h m m1"
  shows "(\<not> ok \<and> link m p q = None \<and> s1 = fail 409 what (g, m)) \<or>
     (ok \<and> link m p q \<noteq> None \<and> fst s1 = g \<and> relink p h m (snd s1))"
proof -
  from r obtain bb where chk: "node_check p q m = Val bb"
    by (auto simp: change_half_def elim: cpp_bindE)
  show ?thesis
  proof (cases bb)
    case False
    then show ?thesis using r chk node_check_value [OF chk q] by (auto simp: change_half_def)
  next
    case True
    then obtain d0 where d0: "link m p q = Some d0" using node_check_value [OF chk q] by auto
    from r chk True have "cpp_bind (f m) (\<lambda>(m1, err).
        if err < 0 then Val (fail (if err = -2 then 409 else 411) what (g, m1), False)
        else Val ((g, m1), True)) = Val (s1, ok)"
      unfolding change_half_def fst_conv snd_conv by simp
    then obtain m1 err where f: "f m = Val (m1, err)"
      and r1: "(if err < 0 then Val (fail (if err = -2 then 409 else 411) what (g, m1), False)
         else Val ((g, m1), True)) = Val (s1, ok)"
      by (rule cpp_bind2E)
    from ops [OF _ f] r1 d0 show ?thesis by auto
  qed
qed

lemma modify_nodes_sets:
  assumes r: "modify_nodes p q (g, m) = Val (s', ok)" and m: "nodes_wf m" "graph_ok (faces m) (link m)"
    and pq: "p \<noteq> NULL" "q \<noteq> NULL"
  shows "sets_link p q (Some (mg_direction g)) m (snd s') ok \<and> (ok \<longrightarrow> link m p q \<noteq> None)"
proof -
  let ?d = "mg_direction g"
  from r obtain s1 ok1 where h1: "change_half id1_error p q (node_modify p q ?d (mg_volume1 g)) (g, m) = Val (s1, ok1)"
    and r1: "(if \<not> ok1 \<or> p = q then Val (s1, ok1)
       else change_half id2_error q p (node_modify q p (getReverseDirection ?d) (mg_volume2 g)) s1) = Val (s', ok)"
    unfolding modify_nodes_def Let_def fst_conv by (rule cpp_bind2E)
  have o1: "err = 0 \<and> relink p (\<lambda>l. l(q \<mapsto> ?d)) m m1"
    if l0: "link m p q \<noteq> None" and f: "node_modify p q ?d (mg_volume1 g) m = Val (m1, err)" for m1 err
  proof -
    from l0 obtain d0 where l: "link m p q = Some d0" by auto
    obtain a b where "faces m p = Some a" "faces m q = Some b" "fc_conf a \<longrightarrow> p \<noteq> q \<and> fc_media b = MEDIACTRL_MEDIA_AUDIO"
      by (rule linked_faces [OF m(2) l])
    then show ?thesis using node_modify_effect [OF f m(1) l pq(2)] by blast
  qed
  from change_half_cases [OF h1 pq(2) o1]
  consider (no) "\<not> ok1" "s1 = fail 409 id1_error (g, m)"
    | (yes) "ok1" "link m p q \<noteq> None" "fst s1 = g" "relink p (\<lambda>l. l(q \<mapsto> ?d)) m (snd s1)" by blast
  then show ?thesis
  proof cases
    case no
    then show ?thesis using r1 m(1) by (auto intro!: sets_link_refused)
  next
    case yes
    have t1: "touches {p, q} m (snd s1)" using yes(4) by (rule relink_touches) simp
    have l1: "link (snd s1) = (link m)(p := (link m p)(q \<mapsto> ?d))" using relink_link [OF yes(4)] .
    show ?thesis
    proof (cases "p = q")
      case True
      then have "s' = s1" "ok" using r1 yes(1) by auto
      then show ?thesis using t1 l1 True yes(2) by (simp add: sets_link_def both_def)
    next
      case False
      obtain d0 where d0: "link m p q = Some d0" using yes(2) by auto
      then have lqp: "link (snd s1) q p = Some (getReverseDirection d0)" "link m q p = Some (getReverseDirection d0)"
        using m(2) False l1 unfolding graph_ok_def by auto
      obtain a b where ab: "faces m q = Some a" "faces m p = Some b" "fc_conf a \<longrightarrow> q \<noteq> p \<and> fc_media b = MEDIACTRL_MEDIA_AUDIO"
        by (rule linked_faces [OF m(2) lqp(2)])
      have f1: "faces (snd s1) = faces m" "nodes_wf (snd s1)" using yes(4) by (auto simp: relink_def)
      have h2: "change_half id2_error q p (node_modify q p (getReverseDirection ?d) (mg_volume2 g)) (g, snd s1) = Val (s', ok)"
        using r1 yes(1,3) False by (metis (full_types) prod.collapse)
      have o2: "err = 0 \<and> relink q (\<lambda>l. l(p \<mapsto> getReverseDirection ?d)) (snd s1) m1"
        if l0: "link (snd s1) q p \<noteq> None" and f: "node_modify q p (getReverseDirection ?d) (mg_volume2 g) (snd s1) = Val (m1, err)" for m1 err
        using node_modify_effect [OF f f1(2) lqp(1) pq(1)] ab f1(1) by auto
      have "\<not> ok \<and> link (snd s1) q p = None \<and> s' = fail 409 id2_error (g, snd s1) \<or>
          ok \<and> link (snd s1) q p \<noteq> None \<and> fst s' = g \<and>
          relink q (\<lambda>l. l(p \<mapsto> getReverseDirection ?d)) (snd s1) (snd s')"
        by (rule change_half_cases [OF h2 pq(1)]) (rule o2)
      with lqp(1) have y: "ok" "relink q (\<lambda>l. l(p \<mapsto> getReverseDirection ?d)) (snd s1) (snd s')" by simp_all
      have "touches {p, q} (snd s1) (snd s')" using y(2) by (rule relink_touches) simp
      moreover have "link (snd s') = both p q (Some ?d) (link m)"
        using relink_link [OF y(2)] l1 False by (simp add: both_def Let_def)
      ultimately show ?thesis using y(1) touches_trans [OF t1] yes(2) unfolding sets_link_def by simp
    qed
  qed
qed

lemma unjoin_nodes_sets:
  assumes r: "unjoin_nodes p q (g, m) = Val (s', ok)" and m: "nodes_wf m" "graph_ok (faces m) (link m)"
    and pq: "p \<noteq> NULL" "q \<noteq> NULL"
  shows "sets_link p q None m (snd s') ok \<and> (ok \<longrightarrow> link m p q \<noteq> None)"
proof -
  from r obtain s1 ok1 where h1: "change_half id1_error p q (node_detach p q) (g, m) = Val (s1, ok1)"
    and r1: "(if \<not> ok1 then Val (s1, False)
       else cpp_bind (if p = q then Val (s1, True) else change_half id2_error q p (node_detach q p) s1)
         (\<lambda>(s2, ok2).
         if \<not> ok2 then Val (s2, False)
         else cpp_bind (deref (mx_heap (snd s2)) p) (\<lambda>n. cpp_bind (deref (mx_heap (snd s2)) q) (\<lambda>k.
           Val ((fst s2, notifyUnjoin (mg_requester (fst s2)) (nd_Id n) (nd_Id k) UNJOIN_REQUEST (snd s2)), True))))) =
       Val (s', ok)"
    unfolding unjoin_nodes_def by (rule cpp_bind2E)
  have o1: "err = 0 \<and> relink p (\<lambda>l. l(q := None)) m m1"
    if l0: "link m p q \<noteq> None" and f: "node_detach p q m = Val (m1, err)" for m1 err
  proof -
    from l0 obtain d0 where l: "link m p q = Some d0" by auto
    obtain a b where "faces m p = Some a" "faces m q = Some b" "fc_conf a \<longrightarrow> p \<noteq> q \<and> fc_media b = MEDIACTRL_MEDIA_AUDIO"
      by (rule linked_faces [OF m(2) l])
    then show ?thesis using node_detach_effect [OF f m(1) l pq(2)] by blast
  qed
  from change_half_cases [OF h1 pq(2) o1]
  consider (no) "\<not> ok1" "s1 = fail 409 id1_error (g, m)"
    | (yes) "ok1" "link m p q \<noteq> None" "fst s1 = g" "relink p (\<lambda>l. l(q := None)) m (snd s1)" by blast
  then show ?thesis
  proof cases
    case no
    then show ?thesis using r1 m(1) by (auto intro!: sets_link_refused)
  next
    case yes
    have t1: "touches {p, q} m (snd s1)" using yes(4) by (rule relink_touches) simp
    have l1: "link (snd s1) = (link m)(p := (link m p)(q := None))" using relink_link [OF yes(4)] .
    from r1 yes(1) obtain s2 ok2 where
        s2: "(if p = q then Val (s1, True) else change_half id2_error q p (node_detach q p) s1) = Val (s2, ok2)"
      and r2: "(if \<not> ok2 then Val (s2, False)
         else cpp_bind (deref (mx_heap (snd s2)) p) (\<lambda>n. cpp_bind (deref (mx_heap (snd s2)) q) (\<lambda>k.
           Val ((fst s2, notifyUnjoin (mg_requester (fst s2)) (nd_Id n) (nd_Id k) UNJOIN_REQUEST (snd s2)), True)))) =
           Val (s', ok)"
      by (auto elim: cpp_bind2E)
    have fin: "ok \<and> touches {p, q} (snd s2) (snd s') \<and> link (snd s') = link (snd s2)"
      if "nodes_wf (snd s2)" "ok2"
    proof -
      from r2 that(2) have "\<exists>i j. ok \<and> s' = (fst s2, notifyUnjoin (mg_requester (fst s2)) i j UNJOIN_REQUEST (snd s2))"
        by (auto elim!: cpp_bindE)
      then obtain i j where s': "ok" "s' = (fst s2, notifyUnjoin (mg_requester (fst s2)) i j UNJOIN_REQUEST (snd s2))"
        by blast
      show ?thesis using that(1) s'(1) unfolding s'(2) by (intro conjI quiet_touches same_heap) simp_all
    qed
    show ?thesis
    proof (cases "p = q")
      case True
      then have e: "s2 = s1" "ok2" using s2 by auto
      have "nodes_wf (snd s1)" using yes(4) by (simp add: relink_def)
      with fin e have "ok" "touches {p, q} (snd s1) (snd s')" "link (snd s') = link (snd s1)" by auto
      then show ?thesis using touches_trans [OF t1] l1 True yes(2) by (simp add: sets_link_def both_def)
    next
      case False
      obtain d0 where d0: "link m p q = Some d0" using yes(2) by auto
      then have lqp: "link (snd s1) q p = Some (getReverseDirection d0)" "link m q p = Some (getReverseDirection d0)"
        using m(2) False l1 unfolding graph_ok_def by auto
      obtain a b where ab: "faces m q = Some a" "faces m p = Some b" "fc_conf a \<longrightarrow> q \<noteq> p \<and> fc_media b = MEDIACTRL_MEDIA_AUDIO"
        by (rule linked_faces [OF m(2) lqp(2)])
      have f1: "faces (snd s1) = faces m" "nodes_wf (snd s1)" using yes(4) by (auto simp: relink_def)
      have h2: "change_half id2_error q p (node_detach q p) (g, snd s1) = Val (s2, ok2)"
        using s2 False yes(3) by (metis (full_types) prod.collapse)
      have o2: "err = 0 \<and> relink q (\<lambda>l. l(p := None)) (snd s1) m1"
        if l0: "link (snd s1) q p \<noteq> None" and f: "node_detach q p (snd s1) = Val (m1, err)" for m1 err
        using node_detach_effect [OF f f1(2) lqp(1) pq(1)] ab f1(1) by auto
      have "\<not> ok2 \<and> link (snd s1) q p = None \<and> s2 = fail 409 id2_error (g, snd s1) \<or>
          ok2 \<and> link (snd s1) q p \<noteq> None \<and> fst s2 = g \<and> relink q (\<lambda>l. l(p := None)) (snd s1) (snd s2)"
        by (rule change_half_cases [OF h2 pq(1)]) (rule o2)
      with lqp(1) have y: "ok2" "relink q (\<lambda>l. l(p := None)) (snd s1) (snd s2)" by simp_all
      then have "nodes_wf (snd s2)" by (simp add: relink_def)
      with fin y(1) have z: "ok" "touches {p, q} (snd s2) (snd s')" "link (snd s') = link (snd s2)" by auto
      have "touches {p, q} (snd s1) (snd s2)" using y(2) by (rule relink_touches) simp
      from touches_trans [OF t1 touches_trans [OF this z(2)]]
      have "touches {p, q} m (snd s')" .
      moreover have "link (snd s2) = both p q None (link m)"
        using relink_link [OF y(2)] l1 False by (simp add: both_def Let_def)
      ultimately show ?thesis using z yes(2) unfolding sets_link_def by simp
    qed
  qed
qed

subsection \<open>The end of a node\<close>

lemma part_from_effect:
  assumes r: "part_from p n q m = Val m'" and wf: "nodes_wf m" and l: "link m q p = Some d" and p: "p \<noteq> NULL"
    and f: "faces m q = Some a" "faces m p = Some b" "fc_conf a \<longrightarrow> fc_media b = MEDIACTRL_MEDIA_AUDIO"
  shows "touches {q} m m' \<and> link m' = (link m)(q := (link m q)(p := None))"
proof -
  from r obtain m1 e where det: "node_detach q p m = Val (m1, e)"
    and r1: "cpp_bind (deref (mx_heap m1) q) (\<lambda>k.
       Val (notifyUnjoin (nd_requester n) (nd_Id n) (nd_Id k) UNJOIN_CONTERMINATE m1)) = Val m'"
    unfolding part_from_def by (rule cpp_bind2E)
  from node_detach_effect [OF det wf l p f(1,2)] f(3)
  have d: "relink q (\<lambda>l. l(p := None)) m m1" by blast
  then have wf1: "nodes_wf m1" "touches {q} m m1" by (auto simp: relink_def intro: relink_touches)
  from r1 obtain i where m': "m' = notifyUnjoin (nd_requester n) (nd_Id n) i UNJOIN_CONTERMINATE m1"
    by (auto elim!: cpp_bindE)
  have "touches {q} m1 m'" unfolding m' using wf1(1) by (intro quiet_touches) simp_all
  moreover have "link m' = link m1" unfolding m' by (rule same_heap) simp
  ultimately show ?thesis using touches_trans [OF wf1(2)] relink_link [OF d] by simp
qed

definition leave :: "ptr \<Rightarrow> (ptr \<Rightarrow> ptr \<rightharpoonup> int) \<Rightarrow> ptr set \<Rightarrow> (ptr \<Rightarrow> ptr \<rightharpoonup> int)" where
  "leave p L Q = (\<lambda>x. if x \<in> Q \<and> x \<noteq> p then (L x)(p := None) else L x)"

lemma part_all_effect:
  assumes "for_each (\<lambda>q s. if q = NULL \<or> q = p then Val s else part_from p n q s) qs m = Val m'"
    and "nodes_wf m" and "distinct qs" and "p \<noteq> NULL"
    and "\<forall>q\<in>set qs. q \<noteq> NULL \<and> (q \<noteq> p \<longrightarrow> (\<exists>d a b. link m q p = Some d \<and> faces m q = Some a \<and> faces m p = Some b \<and>
       (fc_conf a \<longrightarrow> fc_media b = MEDIACTRL_MEDIA_AUDIO)))"
  shows "touches (set qs - {p}) m m' \<and> link m' = leave p (link m) (set qs)"
  using assms
proof (induction qs arbitrary: m)
  case (Cons q qs)
  show ?case
  proof (cases "q = p")
    case True
    then have "for_each (\<lambda>q s. if q = NULL \<or> q = p then Val s else part_from p n q s) qs m = Val m'"
      using Cons.prems(1) by simp
    from Cons.IH [OF this Cons.prems(2)] Cons.prems(3-5) True show ?thesis
      by (auto simp: leave_def)
  next
    case False
    from Cons.prems(1,5) False obtain m1 where m1: "part_from p n q m = Val m1"
      and r: "for_each (\<lambda>q s. if q = NULL \<or> q = p then Val s else part_from p n q s) qs m1 = Val m'"
      by (auto elim!: cpp_bindE)
    from Cons.prems(5) False obtain d a b where dab: "link m q p = Some d" "faces m q = Some a" "faces m p = Some b"
        "fc_conf a \<longrightarrow> fc_media b = MEDIACTRL_MEDIA_AUDIO" by auto
    have e: "touches {q} m m1" "link m1 = (link m)(q := (link m q)(p := None))"
      using part_from_effect [OF m1 Cons.prems(2) dab(1) Cons.prems(4) dab(2-4)] by auto
    have "link m1 x = link m x" if "x \<in> set qs" for x using e(2) that Cons.prems(3) by auto
    moreover have "faces m1 = faces m" "nodes_wf m1" using e(1) by (auto simp: touches_def)
    ultimately have i: "touches (set qs - {p}) m1 m'" "link m' = leave p (link m1) (set qs)"
      using Cons.IH [OF r _ _ Cons.prems(4)] Cons.prems(3,5) by auto
    have "touches (set (q # qs) - {p}) m m'"
      by (rule touches_trans [of _ _ m1]) (use e(1) i(1) False in \<open>auto elim!: touches_mono\<close>)
    moreover have "link m' = leave p (link m) (set (q # qs))"
      unfolding i(2) e(2) leave_def using False Cons.prems(3) by (auto simp: fun_eq_iff)
    ultimately show ?thesis by blast
  qed
qed (auto simp: touches_refl leave_def)

lemma for_each_cong:
  assumes "\<And>p s. p \<in> set ps \<Longrightarrow> f p s = g p s"
  shows "for_each f ps s = for_each g ps s"
  using assms
proof (induction ps arbitrary: s)
  case (Cons p ps)
  then have "for_each f ps = for_each g ps" by auto
  with Cons.prems show ?case by simp
qed simp

lemma graph_ok_leave:
  assumes "graph_ok F L" and "dom (L p) \<subseteq> Q"
  shows "graph_ok (F(p := None)) ((leave p L Q)(p := Map.empty))"
proof -
  have n: "leave p L Q x p = None" if "x \<noteq> p" for x
  proof (cases "L x p")
    case (Some d)
    with assms(1) that have "x \<in> dom (L p)" unfolding graph_ok_def by blast
    with assms(2) that show ?thesis by (auto simp: leave_def)
  qed (simp add: leave_def)
  show ?thesis unfolding graph_ok_def
  proof (intro allI impI)
    fix x y d
    assume "((leave p L Q)(p := Map.empty)) x y = Some d"
    then have x: "x \<noteq> p" and l: "leave p L Q x y = Some d" by (auto split: if_splits)
    with n have y: "y \<noteq> p" by auto
    with l have "L x y = Some d" by (auto simp: leave_def split: if_splits)
    with assms(1) have "edge_ok F x y d" "x \<noteq> y \<longrightarrow> L y x = Some (getReverseDirection d)"
      unfolding graph_ok_def by auto
    then show "edge_ok (F(p := None)) x y d \<and>
        (x \<noteq> y \<longrightarrow> ((leave p L Q)(p := Map.empty)) y x = Some (getReverseDirection d))"
      using x y by (auto simp: edge_ok_def leave_def)
  qed
qed

lemma registry_drop:
  assumes "registry_ok F ns cs" and "\<And>cp. smap_get ns cp \<noteq> Some p" and "\<And>i. smap_get cs i \<noteq> Some p"
  shows "registry_ok (F(p := None)) ns cs"
  using assms unfolding registry_ok_def by auto

lemma registry_erase:
  assumes "registry_ok F ns cs"
  shows "registry_ok F (smap_erase cp ns) (smap_erase i cs)"
  using assms unfolding registry_ok_def by (auto split: if_splits)

text \<open>The peers of a node: alive, linked back, and of the same requester.\<close>

lemma peers_of:
  assumes "mixer_ok m" and "mx_heap m p = Some n" and "q \<in> set (map fst (nd_nodes n))"
  shows "q \<noteq> NULL \<and> (\<exists>d a. faces m q = Some a \<and> fc_req a = nd_requester n \<and>
     (nd_conf n \<longrightarrow> q \<noteq> p) \<and> (q \<noteq> p \<longrightarrow> link m q p = Some d \<and> (fc_conf a \<longrightarrow> nd_mediaType n = MEDIACTRL_MEDIA_AUDIO)))"
proof -
  have ok: "smap_ok (nd_nodes n)" "graph_ok (faces m) (link m)"
    using assms(1) node_wf(3) [OF _ assms(2)] by (auto simp: mixer_ok_def)
  from assms(3) obtain d where "(q, d) \<in> set (nd_nodes n)" by auto
  then have l: "link m p q = Some d" using smap_in_get [OF ok(1)] link_Some [of m, OF assms(2)] by simp
  then have e: "edge_ok (faces m) p q d" "p \<noteq> q \<longrightarrow> link m q p = Some (getReverseDirection d)"
    using ok(2) unfolding graph_ok_def by auto
  then have "p \<noteq> q \<longrightarrow> edge_ok (faces m) q p (getReverseDirection d)" using ok(2) unfolding graph_ok_def by blast
  with e faces_Some [of m, OF assms(2)] show ?thesis by (fastforce simp: edge_ok_def)
qed

text \<open>What a request of \<open>r\<close> may do to the nodes: nothing to those of other requesters.\<close>

definition evolves :: "ptr \<Rightarrow> mixer \<Rightarrow> mixer \<Rightarrow> bool" where
  "evolves r m m' \<longleftrightarrow> mx_next m \<le> mx_next m' \<and>
     (\<forall>p<mx_next m. faces m' p = faces m p \<or> faces m' p = None) \<and>
     (\<forall>p n. mx_heap m p = Some n \<longrightarrow> nd_requester n \<noteq> r \<longrightarrow> mx_heap m' p = Some n)"

lemma evolves_refl [simp]: "evolves r m m"
  by (simp add: evolves_def)

lemma evolves_trans: "evolves r a b \<Longrightarrow> evolves r b c \<Longrightarrow> evolves r a c"
  unfolding evolves_def by (metis order_trans less_le_trans)

lemma touches_evolves:
  assumes "touches P m m'" and "\<And>q a. q \<in> P \<Longrightarrow> faces m q = Some a \<Longrightarrow> fc_req a = r"
  shows "evolves r m m'"
proof -
  have "q \<notin> P" if "mx_heap m q = Some n" "nd_requester n \<noteq> r" for q n
    using that assms(2) [of q "face_of n"] by (auto simp: faces_def)
  with assms(1) show ?thesis by (auto simp: touches_def evolves_def)
qed

lemma nodes_wf_free: "nodes_wf m \<Longrightarrow> nodes_wf (free_node p m)"
  by (auto simp: nodes_wf_def free_node_def)

lemma nodes_wf_heap: "nodes_wf m \<Longrightarrow> mx_heap m' = mx_heap m \<Longrightarrow> mx_next m' = mx_next m \<Longrightarrow> nodes_wf m'"
  by (simp add: nodes_wf_def)

lemma link_free: "link (free_node p m) = (link m)(p := Map.empty)"
  by (auto simp: link_def free_node_def fun_eq_iff)

lemma faces_free: "faces (free_node p m) = (faces m)(p := None)"
  by (auto simp: faces_def free_node_def fun_eq_iff)

lemma dom_link: "mx_heap m p = Some n \<Longrightarrow> dom (link m p) \<subseteq> set (map fst (nd_nodes n))"
  by (auto simp: link_def dest!: smap_get_Some_in intro: rev_image_eqI)

lemma registered_face:
  assumes "registry_ok F ns cs" and "p \<noteq> NULL" and "F p = Some a"
  shows "smap_get ns cp = Some p \<Longrightarrow> fc_con a = cp" and "smap_get cs i = Some p \<Longrightarrow> fc_conf a \<and> fc_id a = i"
proof -
  show "smap_get ns cp = Some p \<Longrightarrow> fc_con a = cp"
    using assms unfolding registry_ok_def by (metis option.inject)
  show "smap_get cs i = Some p \<Longrightarrow> fc_conf a \<and> fc_id a = i"
    using assms unfolding registry_ok_def by (metis option.inject)
qed

lemma touches_registry:
  "touches P m m' \<Longrightarrow> registry_ok F (mx_nodes m) (mx_confs m) \<Longrightarrow> registry_ok F (mx_nodes m') (mx_confs m')"
  by (simp add: touches_def)

lemma con_destroy_ok:
  assumes r: "con_destroy p m = Val m'" and ok: "mixer_ok m" and n: "mx_heap m p = Some n" "\<not> nd_conf n"
    and u: "\<And>cp. smap_get (mx_nodes m) cp \<noteq> Some p"
  shows "mixer_ok m' \<and> evolves (nd_requester n) m m'"
proof -
  have wf: "nodes_wf m" "graph_ok (faces m) (link m)" "registry_ok (faces m) (mx_nodes m) (mx_confs m)"
    using ok by (auto simp: mixer_ok_def)
  note nwf = node_wf [OF wf(1) n(1)]
  let ?m0 = "putNode p (n\<lparr>nd_connection := NULL\<rparr>) m"
  from r nwf(1) n(1) obtain m1 where
      m1: "for_each (\<lambda>q s. if q = NULL \<or> q = p then Val s else part_from p n q s) (map fst (nd_nodes n)) ?m0 = Val m1"
    and m': "m' = free_node p m1"
    by (auto simp: con_destroy_def elim!: cpp_bindE)
  have wf0: "nodes_wf ?m0" using wf(1) n(1) by (auto simp: nodes_wf_def sound_ok_def)
  have l0: "link ?m0 = link m" using n(1) by (auto simp: link_def fun_eq_iff)
  have f0: "faces ?m0 p = Some ((face_of n)\<lparr>fc_con := NULL\<rparr>)" "\<And>q. q \<noteq> p \<Longrightarrow> faces ?m0 q = faces m q"
    by (auto simp: faces_def face_of_def)
  have keys: "\<forall>q\<in>set (map fst (nd_nodes n)). q \<noteq> NULL \<and> (q \<noteq> p \<longrightarrow> (\<exists>d a b. link ?m0 q p = Some d \<and>
      faces ?m0 q = Some a \<and> faces ?m0 p = Some b \<and> (fc_conf a \<longrightarrow> fc_media b = MEDIACTRL_MEDIA_AUDIO)))"
  proof
    fix q assume "q \<in> set (map fst (nd_nodes n))"
    from peers_of [OF ok n(1) this] show "q \<noteq> NULL \<and> (q \<noteq> p \<longrightarrow> (\<exists>d a b. link ?m0 q p = Some d \<and>
      faces ?m0 q = Some a \<and> faces ?m0 p = Some b \<and> (fc_conf a \<longrightarrow> fc_media b = MEDIACTRL_MEDIA_AUDIO)))"
      unfolding l0 f0(1) using f0(2) by auto
  qed
  have e: "touches (set (map fst (nd_nodes n)) - {p}) ?m0 m1" "link m1 = leave p (link m) (set (map fst (nd_nodes n)))"
    using part_all_effect [OF m1 wf0 smap_ok_distinct [OF nwf(3)] nwf(1) keys] l0 by auto
  have f': "faces m' = (faces m)(p := None)"
    unfolding m' faces_free using e(1) f0(2) by (auto simp: touches_def fun_eq_iff)
  have "graph_ok (faces m') (link m')"
    unfolding f' unfolding m' link_free e(2) by (rule graph_ok_leave [OF wf(2) dom_link [OF n(1)]])
  moreover have "nodes_wf m'" unfolding m' using e(1) by (auto simp: touches_def intro: nodes_wf_free)
  moreover have "registry_ok (faces m') (mx_nodes m') (mx_confs m')"
  proof -
    have "smap_get (mx_confs m) i \<noteq> Some p" for i
      using registered_face(2) [OF wf(3) nwf(1) faces_Some [of m, OF n(1)]] n(2) by auto
    then have "registry_ok ((faces m)(p := None)) (mx_nodes m) (mx_confs m)"
      by (rule registry_drop [OF wf(3) u])
    moreover have "mx_nodes m' = mx_nodes m" "mx_confs m' = mx_confs m"
      using e(1) by (simp_all add: m' touches_def free_node_def)
    ultimately show ?thesis unfolding f' by simp
  qed
  moreover have "evolves (nd_requester n) m m'"
  proof -
    have "mx_heap m' x = Some k" if x: "mx_heap m x = Some k" "nd_requester k \<noteq> nd_requester n" for x k
    proof -
      have xp: "x \<noteq> p" using x n(1) by auto
      have "x \<notin> set (map fst (nd_nodes n))"
        using peers_of [OF ok n(1), of x] x by (auto simp: faces_def)
      with e(1) x xp show ?thesis by (simp add: m' free_node_def touches_def)
    qed
    moreover have "mx_next m' = mx_next m" using e(1) by (simp add: m' free_node_def touches_def)
    ultimately show ?thesis by (simp add: evolves_def f')
  qed
  ultimately show ?thesis by (simp add: mixer_ok_def)
qed

lemma conf_destroy_ok:
  assumes r: "conf_destroy p m = Val m'" and ok: "mixer_ok m" and n: "mx_heap m p = Some n" "nd_conf n"
  shows "mixer_ok m' \<and> evolves (nd_requester n) m m' \<and> mx_heap m' p = None"
proof -
  have wf: "nodes_wf m" "graph_ok (faces m) (link m)" "registry_ok (faces m) (mx_nodes m) (mx_confs m)"
    using ok by (auto simp: mixer_ok_def)
  note nwf = node_wf [OF wf(1) n(1)]
  let ?f = "\<lambda>q s. if q = NULL \<or> q = p then Val s else part_from p n q s"
  let ?qs = "map fst (nd_nodes n)"
  have np: "p \<notin> set ?qs" using peers_of [OF ok n(1)] n(2) by blast
  have fe: "for_each (\<lambda>q s. if q = NULL then Val s else part_from p n q s) ?qs m = for_each ?f ?qs m"
    by (rule for_each_cong) (use np in auto)
  from r nwf(1) n(1) obtain m1 where m1: "for_each ?f ?qs m = Val m1"
    and m': "m' = (let m2 = (if nd_started n then notifyConferenceExit (nd_requester n) (nd_Id n) CONFEXIT_REQUEST m1 else m1);
                 m3 = endConference (nd_Id n) m2 in
          free_node p (m3\<lparr>mx_nodes := smap_erase (nd_connection n) (mx_nodes m3)\<rparr>))"
    by (auto simp: conf_destroy_def fe Let_def elim!: cpp_bindE)
  have keys: "\<forall>q\<in>set ?qs. q \<noteq> NULL \<and> (q \<noteq> p \<longrightarrow> (\<exists>d a b. link m q p = Some d \<and>
      faces m q = Some a \<and> faces m p = Some b \<and> (fc_conf a \<longrightarrow> fc_media b = MEDIACTRL_MEDIA_AUDIO)))"
    using peers_of [OF ok n(1)] faces_Some [of m, OF n(1)] by fastforce
  have e: "touches (set ?qs - {p}) m m1" "link m1 = leave p (link m) (set ?qs)"
    using part_all_effect [OF m1 wf(1) smap_ok_distinct [OF nwf(3)] nwf(1) keys] by auto
  have h: "mx_heap m' = (mx_heap m1)(p := None)" "mx_next m' = mx_next m1"
      "mx_nodes m' = smap_erase (nd_connection n) (mx_nodes m1)" "mx_confs m' = smap_erase (nd_Id n) (mx_confs m1)"
    unfolding m' by (auto simp: Let_def free_node_def endConference_def notifyConferenceExit_def)
  have hf: "mx_heap m' = mx_heap (free_node p m1)" by (simp add: h(1) free_node_def)
  have f': "faces m' = (faces m)(p := None)"
    using e(1) faces_free [of p m1] same_heap(2) [OF hf] by (simp add: touches_def)
  have l': "link m' = (leave p (link m) (set ?qs))(p := Map.empty)"
    using same_heap(1) [OF hf] link_free [of p m1] e(2) by simp
  have "graph_ok (faces m') (link m')"
    unfolding f' l' by (rule graph_ok_leave [OF wf(2) dom_link [OF n(1)]])
  moreover have "nodes_wf m'"
  proof (rule nodes_wf_heap)
    show "nodes_wf (free_node p m1)" using e(1) by (auto simp: touches_def intro: nodes_wf_free)
  qed (simp_all add: hf h(2) free_node_def)
  moreover have "registry_ok (faces m') (mx_nodes m') (mx_confs m')"
  proof -
    note reg = registered_face [OF wf(3) nwf(1) faces_Some [of m, OF n(1)]]
    have "registry_ok (faces m) (mx_nodes m') (mx_confs m')"
      using registry_erase [OF wf(3)] e(1) by (simp add: h touches_def)
    moreover have "smap_get (mx_nodes m') cp \<noteq> Some p" for cp
      using reg(1) [of cp] e(1) by (auto simp: h(3) touches_def)
    moreover have "smap_get (mx_confs m') i \<noteq> Some p" for i
      using reg(2) [of i] e(1) by (auto simp: h(4) touches_def)
    ultimately show ?thesis unfolding f' by (rule registry_drop)
  qed
  moreover have "evolves (nd_requester n) m m'"
  proof -
    have "mx_heap m' x = Some k" if x: "mx_heap m x = Some k" "nd_requester k \<noteq> nd_requester n" for x k
    proof -
      have xp: "x \<noteq> p" using x n(1) by auto
      have "x \<notin> set ?qs" using peers_of [OF ok n(1), of x] x by (auto simp: faces_def)
      with e(1) x xp show ?thesis by (simp add: h(1) touches_def)
    qed
    moreover have "mx_next m' = mx_next m" using e(1) by (simp add: h(2) touches_def)
    ultimately show ?thesis by (simp add: evolves_def f')
  qed
  ultimately show ?thesis by (simp add: mixer_ok_def h(1))
qed

end
