(* ===== verification/MixerRequests.thy ===== *)
theory MixerRequests
  imports MixerLinks
begin

text \<open>
  A whole CONTROL request to the mixer of \<open>src/packages/MixerPackage.cxx\<close>: every handler, on every branch,
  keeps the links two-sided and between nodes of one requester, touches only nodes of its own
  requester, and changes the graph by exactly the link that its answer reports. The handlers are
  composed with \<open>all_val\<close>, what holds of the result of a call if it has one.
\<close>

subsection \<open>What the steps of a request keep\<close>

definition keeps :: "ptr \<Rightarrow> mixer \<Rightarrow> mixer \<Rightarrow> bool" where
  "keeps r m m' \<longleftrightarrow> mixer_ok m' \<and> evolves r m m'"

definition msg_ok :: "ptr \<Rightarrow> mmsg \<Rightarrow> mixer \<Rightarrow> bool" where
  "msg_ok r g m \<longleftrightarrow> mg_requester g = r \<and> 0 \<le> mg_direction g \<and> mg_direction g \<le> 3 \<and>
     (\<not> mg_stop g \<longrightarrow> mg_conf g \<noteq> NULL \<longrightarrow> mg_conf g < mx_next m \<and>
        (\<forall>a. faces m (mg_conf g) = Some a \<longrightarrow> fc_conf a \<and> fc_req a = r))"

definition state_ok :: "ptr \<Rightarrow> mstate \<Rightarrow> bool" where
  "state_ok r s \<longleftrightarrow> mixer_ok (snd s) \<and> msg_ok r (fst s) (snd s)"

definition advance :: "ptr \<Rightarrow> mstate \<Rightarrow> mstate \<Rightarrow> bool" where
  "advance r s s' \<longleftrightarrow> state_ok r s' \<and> evolves r (snd s) (snd s')"

lemma keeps_refl: "mixer_ok m \<Longrightarrow> keeps r m m"
  by (simp add: keeps_def)

lemma keeps_trans: "keeps r a b \<Longrightarrow> keeps r b c \<Longrightarrow> keeps r a c"
  by (auto simp: keeps_def intro: evolves_trans)

lemma keeps_ok: "keeps r m m' \<Longrightarrow> mixer_ok m'"
  by (simp add: keeps_def)

lemma advance_refl: "state_ok r s \<Longrightarrow> advance r s s"
  by (simp add: advance_def)

lemma advance_trans: "advance r a b \<Longrightarrow> advance r b c \<Longrightarrow> advance r a c"
  by (auto simp: advance_def intro: evolves_trans)

lemma advance_ok: "advance r s s' \<Longrightarrow> state_ok r s'"
  by (simp add: advance_def)

lemma same_mixer:
  assumes "mx_heap m' = mx_heap m" "mx_nodes m' = mx_nodes m" "mx_confs m' = mx_confs m" "mx_next m' = mx_next m"
  shows "mixer_ok m' = mixer_ok m" "evolves r m0 m' = evolves r m0 m" "evolves r m' m1 = evolves r m m1"
    "msg_ok r g m' = msg_ok r g m"
  using assms same_heap [OF assms(1)] by (simp_all add: mixer_ok_def nodes_wf_def evolves_def msg_ok_def)

lemma msg_evolves: "msg_ok r g m \<Longrightarrow> evolves r m m' \<Longrightarrow> msg_ok r g m'"
  unfolding msg_ok_def evolves_def by (metis less_le_trans option.distinct(1))

lemma advanceI: "state_ok r (g, m) \<Longrightarrow> keeps r m m' \<Longrightarrow> advance r (g, m) (g, m')"
  by (auto simp: advance_def state_ok_def keeps_def intro: msg_evolves)

text \<open>Answers and changes of the message only.\<close>

definition same_msg :: "mmsg \<Rightarrow> mmsg \<Rightarrow> bool" where
  "same_msg g g' \<longleftrightarrow> mg_requester g' = mg_requester g \<and> (mg_stop g \<longrightarrow> mg_stop g') \<and> mg_conf g' = mg_conf g \<and>
     (0 \<le> mg_direction g \<and> mg_direction g \<le> 3 \<longrightarrow> 0 \<le> mg_direction g' \<and> mg_direction g' \<le> 3)"

lemma msg_same: "msg_ok r g m \<Longrightarrow> same_msg g g' \<Longrightarrow> msg_ok r g' m"
  by (auto simp: msg_ok_def same_msg_def)

lemma advance_msg: "state_ok r s \<Longrightarrow> same_msg (fst s) g \<Longrightarrow> advance r s (g, snd s)"
  by (auto simp: advance_def state_ok_def intro: msg_same)

lemma reply_ok: "state_ok r (reply st t b s) = state_ok r s"
  using same_mixer [of "snd (reply st t b s)" "snd s"] by (simp add: state_ok_def)

lemma advance_quiet:
  assumes "state_ok r s" and "same_msg (fst s) (fst s')"
    and "mx_heap (snd s') = mx_heap (snd s)" "mx_nodes (snd s') = mx_nodes (snd s)"
      "mx_confs (snd s') = mx_confs (snd s)" "mx_next (snd s') = mx_next (snd s)"
  shows "advance r s s'"
  using assms msg_same same_mixer [OF assms(3-6)] evolves_refl [of r "snd s"]
  by (auto simp: advance_def state_ok_def)

lemma fail_advance: "state_ok r s \<Longrightarrow> advance r s (fail c b s)"
  by (rule advance_quiet) (auto simp: same_msg_def)

lemma forbid_advance: "state_ok r s \<Longrightarrow> advance r s (forbid s)"
  by (rule advance_quiet) (auto simp: same_msg_def)

lemma succeed_advance: "state_ok r s \<Longrightarrow> advance r s (succeed a b s)"
  by (rule advance_quiet) (auto simp: same_msg_def succeed_def)

lemma reply_advance: "state_ok r s \<Longrightarrow> advance r s (reply st t b s)"
  by (rule advance_quiet) (auto simp: same_msg_def)

text \<open>A refusal keeps whatever the message named until then.\<close>

lemma stopped_ok:
  "mixer_ok m \<Longrightarrow> mg_requester g = r \<Longrightarrow> 0 \<le> mg_direction g \<Longrightarrow> mg_direction g \<le> 3 \<Longrightarrow> mg_stop g \<Longrightarrow> state_ok r (g, m)"
  by (simp add: state_ok_def msg_ok_def)

lemma mx_getConnection_same:
  "mx_getConnection bx i m = Val (m', c) \<Longrightarrow> mx_heap m' = mx_heap m \<and> mx_nodes m' = mx_nodes m \<and>
     mx_confs m' = mx_confs m \<and> mx_next m' = mx_next m \<and> mx_out m' = mx_out m \<and> mx_joins m' = mx_joins m"
  by (auto simp: mx_getConnection_def cpp_bind_Val)

lemma mx_getConnection_keeps: "mx_getConnection bx i m = Val (m', c) \<Longrightarrow> mixer_ok m \<Longrightarrow> keeps r m m'"
  using mx_getConnection_same [of bx i m m' c] same_mixer [of m' m] evolves_refl [of r m]
  by (auto simp: keeps_def)

text \<open>\<open>operator[]\<close> on the two maps enters NULL for a new key.\<close>

lemma registry_index:
  assumes "registry_ok F ns cs"
  shows "registry_ok F (snd (smap_index NULL cp ns)) cs" "registry_ok F ns (snd (smap_index NULL i cs))"
  using assms by (auto simp: registry_ok_def split: if_splits)

lemma nodes_index_ok:
  assumes "nodes_index cp m = (p, m')" and "mixer_ok m"
  shows "keeps r m m'" "mx_heap m' = mx_heap m" "faces m' = faces m" "link m' = link m" "mx_next m' = mx_next m"
    "p \<noteq> NULL \<Longrightarrow> smap_get (mx_nodes m) cp = Some p \<and> (\<exists>n. mx_heap m p = Some n \<and> nd_connection n = cp)"
proof -
  have e: "p = fst (smap_index NULL cp (mx_nodes m))" "m' = m\<lparr>mx_nodes := snd (smap_index NULL cp (mx_nodes m))\<rparr>"
    using assms(1) by (auto simp: nodes_index_def case_prod_beta simp del: smap_index_value)
  show h: "mx_heap m' = mx_heap m" and nx: "mx_next m' = mx_next m" by (simp_all add: e)
  show f: "faces m' = faces m" and l: "link m' = link m" using same_heap [OF h] by auto
  have "mixer_ok m'"
    using assms(2) registry_index(1) unfolding mixer_ok_def f l by (auto simp: e nodes_wf_def)
  then show "keeps r m m'" by (simp add: keeps_def evolves_def f h nx)
  assume "p \<noteq> NULL"
  then have g: "smap_get (mx_nodes m) cp = Some p" by (auto simp: e split: option.splits)
  then have "\<exists>a. faces m p = Some a \<and> fc_con a = cp"
    using assms(2) \<open>p \<noteq> NULL\<close> by (auto simp: mixer_ok_def registry_ok_def)
  with g show "smap_get (mx_nodes m) cp = Some p \<and> (\<exists>n. mx_heap m p = Some n \<and> nd_connection n = cp)"
    by (auto simp: faces_def)
qed

lemma confs_index_ok:
  assumes "confs_index i m = (p, m')" and "mixer_ok m"
  shows "keeps r m m'" "mx_heap m' = mx_heap m" "faces m' = faces m" "mx_next m' = mx_next m" "mx_nodes m' = mx_nodes m"
    "p \<noteq> NULL \<Longrightarrow> \<exists>n. mx_heap m p = Some n \<and> nd_conf n \<and> nd_Id n = i"
proof -
  have e: "p = fst (smap_index NULL i (mx_confs m))" "m' = m\<lparr>mx_confs := snd (smap_index NULL i (mx_confs m))\<rparr>"
    using assms(1) by (auto simp: confs_index_def case_prod_beta simp del: smap_index_value)
  show h: "mx_heap m' = mx_heap m" and nx: "mx_next m' = mx_next m" and "mx_nodes m' = mx_nodes m"
    by (simp_all add: e)
  show f: "faces m' = faces m" using same_heap [OF h] by auto
  have l: "link m' = link m" using same_heap [OF h] by auto
  have "mixer_ok m'"
    using assms(2) registry_index(2) unfolding mixer_ok_def f l by (auto simp: e nodes_wf_def)
  then show "keeps r m m'" by (simp add: keeps_def evolves_def f h nx)
  assume "p \<noteq> NULL"
  then have "smap_get (mx_confs m) i = Some p" by (auto simp: e split: option.splits)
  then have "\<exists>a. faces m p = Some a \<and> fc_conf a \<and> fc_id a = i"
    using assms(2) \<open>p \<noteq> NULL\<close> by (auto simp: mixer_ok_def registry_ok_def)
  then show "\<exists>n. mx_heap m p = Some n \<and> nd_conf n \<and> nd_Id n = i" by (auto simp: faces_def)
qed

lemma checkSender_Val: "checkSender p r m = Val b \<Longrightarrow> \<exists>n. mx_heap m p = Some n \<and> b = (nd_requester n = r)"
  by (auto simp: checkSender_def cpp_bind_Val)

subsection \<open>New nodes\<close>

lemma registry_fresh:
  assumes "registry_ok F ns cs" and "F p = None" and "p \<noteq> NULL"
  shows "smap_get ns cp \<noteq> Some p" "smap_get cs i \<noteq> Some p"
  using assms unfolding registry_ok_def by (metis option.distinct(1))+

lemma fresh_node: "nodes_wf m \<Longrightarrow> mx_heap m (mx_next m) = None"
  unfolding nodes_wf_def by (meson less_irrefl option.exhaust)

lemma new_node_ok:
  assumes ok: "mixer_ok m" and heap: "mx_heap m' = (mx_heap m)(mx_next m \<mapsto> n)" and nx: "mx_next m' = mx_next m + 1"
    and n: "nd_nodes n = []" "sound_ok n" "nd_receiving n = 0" "nd_conf n \<Longrightarrow> nd_mediaType n \<noteq> MEDIACTRL_MEDIA_AUDIO"
    and ns: "mx_nodes m' = smap_put (nd_connection n) (mx_next m) (mx_nodes m)"
    and cs: "mx_confs m' = (if nd_conf n then smap_put (nd_Id n) (mx_next m) (mx_confs m) else mx_confs m)"
  shows "keeps r m m' \<and> faces m' (mx_next m) = Some (face_of n)"
proof -
  have wf: "nodes_wf m" "graph_ok (faces m) (link m)" "registry_ok (faces m) (mx_nodes m) (mx_confs m)"
    using ok by (auto simp: mixer_ok_def)
  have old: "mx_heap m (mx_next m) = None" by (rule fresh_node [OF wf(1)])
  have f: "faces m' = (faces m)(mx_next m \<mapsto> face_of n)" using heap by (auto simp: faces_def)
  have l: "link m' = link m" using heap old n(1) by (auto simp: link_def fun_eq_iff)
  have fo: "faces m (mx_next m) = None" using old by (simp add: faces_def)
  have e: "edge_ok (faces m') p q d" if "edge_ok (faces m) p q d" for p q d
    using that fo unfolding edge_ok_def f by (metis fun_upd_apply option.distinct(1))
  have "graph_ok (faces m') (link m')"
    using wf(2) e unfolding graph_ok_def l by blast
  moreover have "nodes_wf m'"
    using wf(1) n by (auto simp: nodes_wf_def heap nx intro: less_trans)
  moreover have "registry_ok (faces m') (mx_nodes m') (mx_confs m')"
    using wf(3) registry_fresh [OF wf(3) fo] wf(1) unfolding registry_ok_def f ns cs by (auto simp: nodes_wf_def)
  moreover have "evolves r m m'"
    using old wf(1) by (auto simp: evolves_def f nx heap)
  ultimately show ?thesis by (simp add: keeps_def mixer_ok_def f)
qed

lemma newMixerConnection_ok:
  assumes "newMixerConnection r cp m = Val (m', p)" and "mixer_ok m"
  shows "keeps r m m' \<and> (\<exists>n. mx_heap m' p = Some n \<and> nd_requester n = r) \<and> p = mx_next m"
proof -
  from assms(1) obtain d where d: "m' = (putNode (mx_next m) (con_setup r cp d newNode) m)
      \<lparr>mx_next := mx_next m + 1, mx_nodes := smap_put cp (mx_next m) (mx_nodes m)\<rparr>" "p = mx_next m"
    by (auto simp: newMixerConnection_def cpp_bind_Val Let_def)
  have "keeps r m m' \<and> faces m' (mx_next m) = Some (face_of (con_setup r cp d newNode))"
    by (rule new_node_ok [OF assms(2)]) (simp_all add: d con_setup_def newNode_def sound_ok_def)
  then show ?thesis by (auto simp: d con_setup_def)
qed

lemma on_package_same:
  "on_package f cp m = Val m' \<Longrightarrow> mx_heap m' = mx_heap m \<and> mx_nodes m' = mx_nodes m \<and>
     mx_confs m' = mx_confs m \<and> mx_next m' = mx_next m"
  using on_package_keeps by (auto simp: same_frame_def)

lemma create_conf_same:
  assumes "create_conf i m = Val (m', cp)"
  shows "mx_heap m' = mx_heap m \<and> mx_nodes m' = mx_nodes m \<and> mx_confs m' = mx_confs m \<and> mx_next m' = mx_next m"
  using assms by (auto simp: create_conf_def cpp_bind_Val Let_def split: if_splits dest!: on_package_same)

lemma random_conf_same:
  "random_conf rs m = Val (m', i, cp) \<Longrightarrow>
     mx_heap m' = mx_heap m \<and> mx_nodes m' = mx_nodes m \<and> mx_confs m' = mx_confs m \<and> mx_next m' = mx_next m"
proof (induction rs m rule: random_conf.induct)
  case (2 r rs m)
  show ?case
  proof (cases "smap_get (mx_confs m) (random_string 8 r) \<noteq> None")
    case True
    with 2 show ?thesis by (simp add: Let_def)
  next
    case False
    with 2(3) obtain m1 c where c: "create_conf (random_string 8 r) m = Val (m1, c)"
      "(if c \<noteq> NULL then Val (m1, random_string 8 r, c) else random_conf rs m1) = Val (m', i, cp)"
      unfolding random_conf.simps Let_def if_not_P [OF False] by (blast elim: cpp_bind2E)
    show ?thesis
    proof (cases "c = NULL")
      case True
      then have "random_conf rs m1 = Val (m', i, cp)" using c(2) by simp
      from 2(2) [OF refl False _ this, of c] True create_conf_same [OF c(1)] show ?thesis by simp
    qed (use c create_conf_same [OF c(1)] in simp)
  qed
qed simp

lemma newMixerConference_ok:
  assumes "newMixerConference rs r i m = Val (m', p)" and "mixer_ok m"
  shows "keeps r m m' \<and> (\<exists>n. mx_heap m' p = Some n \<and> nd_requester n = r \<and> nd_conf n)"
proof -
  from assms(1) obtain m1 cid cp where
      c: "(if i = '''' then random_conf rs m else cpp_bind (create_conf i m) (\<lambda>(m1, cp). Val (m1, i, cp))) = Val (m1, cid, cp)"
    and d: "m' = (putNode (mx_next m1) (newNode\<lparr>nd_conf := True, nd_requester := r, nd_connection := cp, nd_Id := cid\<rparr>) m1)
      \<lparr>mx_next := mx_next m1 + 1, mx_confs := smap_put cid (mx_next m1) (mx_confs m1),
                mx_nodes := smap_put cp (mx_next m1) (mx_nodes m1)\<rparr>" "p = mx_next m1"
    by (auto simp: newMixerConference_def cpp_bind_Val Let_def)
  have s: "mx_heap m1 = mx_heap m \<and> mx_nodes m1 = mx_nodes m \<and> mx_confs m1 = mx_confs m \<and> mx_next m1 = mx_next m"
    using c random_conf_same [of rs m m1 cid cp] create_conf_same [of i m m1 cp]
    by (auto simp: cpp_bind_Val split: if_splits)
  have "keeps r m m' \<and> faces m' (mx_next m) =
      Some (face_of (newNode\<lparr>nd_conf := True, nd_requester := r, nd_connection := cp, nd_Id := cid\<rparr>))"
    by (rule new_node_ok [OF assms(2)])
      (simp_all add: d s newNode_def sound_ok_def)
  then show ?thesis by (auto simp: d)
qed

text \<open>Changes of one's own node that neither its face nor its links show.\<close>

lemma putNode_keeps:
  assumes "mixer_ok m" and "mx_heap m p = Some n" and "face_of n' = face_of n" and "nd_nodes n' = nd_nodes n"
    and "sound_ok n \<Longrightarrow> sound_ok n'" and "nd_receiving n' = nd_receiving n"
  shows "mixer_ok (putNode p n' m)" "faces (putNode p n' m) = faces m" "link (putNode p n' m) = link m"
proof -
  show f: "faces (putNode p n' m) = faces m" using assms(2,3) by (auto simp: faces_def)
  show l: "link (putNode p n' m) = link m" using assms(2,4) by (auto simp: link_def fun_eq_iff)
  have "nodes_wf (putNode p n' m)"
    using assms by (auto simp: mixer_ok_def nodes_wf_def face_of_def)
  then show "mixer_ok (putNode p n' m)" using assms(1) f l by (simp add: mixer_ok_def)
qed

lemma own_putNode_keeps:
  assumes "mixer_ok m" and "mx_heap m p = Some n" and "face_of n' = face_of n" and "nd_nodes n' = nd_nodes n"
    and "sound_ok n \<Longrightarrow> sound_ok n'" and "nd_receiving n' = nd_receiving n" and "nd_requester n = r"
  shows "keeps r m (putNode p n' m)"
  using putNode_keeps [OF assms(1-6)] assms(2,7) by (auto simp: keeps_def evolves_def)

subsection \<open>Composing the steps\<close>

text \<open>What holds of the result of a call, if it has one.\<close>

definition all_val :: "('a \<Rightarrow> bool) \<Rightarrow> 'a cpp \<Rightarrow> bool" where
  "all_val P r \<longleftrightarrow> (\<forall>x. r = Val x \<longrightarrow> P x)"

lemma all_val_simps [simp]: "all_val P (Val x) = P x" "all_val P Undef"
  by (simp_all add: all_val_def)

lemma all_valI: "(\<And>x. r = Val x \<Longrightarrow> P x) \<Longrightarrow> all_val P r"
  by (simp add: all_val_def)

lemma all_val_bind: "all_val P r \<Longrightarrow> (\<And>x. P x \<Longrightarrow> all_val Q (f x)) \<Longrightarrow> all_val Q (cpp_bind r f)"
  by (cases r) (auto simp: all_val_def)

lemma all_val_bind2:
  "all_val (\<lambda>(a, b). P a b) r \<Longrightarrow> (\<And>a b. P a b \<Longrightarrow> all_val Q (f a b)) \<Longrightarrow> all_val Q (cpp_bind r (\<lambda>(a, b). f a b))"
  by (cases r) (auto simp: all_val_def)

lemma all_val_if: "(b \<Longrightarrow> all_val Q x) \<Longrightarrow> (\<not> b \<Longrightarrow> all_val Q y) \<Longrightarrow> all_val Q (if b then x else y)"
  by simp

lemma all_val_prod: "(\<And>a b. x = (a, b) \<Longrightarrow> all_val Q (f a b)) \<Longrightarrow> all_val Q (case x of (a, b) \<Rightarrow> f a b)"
  by (cases x) simp

lemma all_val_mono: "all_val P r \<Longrightarrow> (\<And>x. P x \<Longrightarrow> Q x) \<Longrightarrow> all_val Q r"
  by (auto simp: all_val_def)

lemma all_val_get: "all_val P r \<Longrightarrow> r = Val x \<Longrightarrow> P x"
  by (simp add: all_val_def)

lemma all_val_any: "(\<And>x. all_val Q (f x)) \<Longrightarrow> all_val Q (cpp_bind r f)"
  by (cases r) simp_all

lemma all_val_any2: "(\<And>a b. all_val Q (f a b)) \<Longrightarrow> all_val Q (cpp_bind r (\<lambda>(a, b). f a b))"
  by (cases r) auto

lemma all_val_option:
  "(x = None \<Longrightarrow> all_val Q a) \<Longrightarrow> (\<And>y. x = Some y \<Longrightarrow> all_val Q (f y)) \<Longrightarrow>
     all_val Q (case x of None \<Rightarrow> a | Some y \<Rightarrow> f y)"
  by (cases x) simp_all

lemma all_val_deref: "(\<And>n. h p = Some n \<Longrightarrow> p \<noteq> NULL \<Longrightarrow> all_val Q (f n)) \<Longrightarrow> all_val Q (cpp_bind (deref h p) f)"
  by (cases "h p") (auto simp: deref_def)

lemma advance_msgs: "advance r s s1 \<Longrightarrow> same_msg (fst s1) g \<Longrightarrow> advance r s (g, snd s1)"
  using advance_trans advance_msg advance_ok by blast

lemma advance_keeps: "advance r s (g, m) \<Longrightarrow> keeps r m m' \<Longrightarrow> advance r s (g, m')"
  using advance_trans advanceI advance_ok by blast

lemma advance_fail: "advance r s s1 \<Longrightarrow> advance r s (fail c b s1)"
  using advance_trans fail_advance advance_ok by blast

lemma advance_forbid: "advance r s s1 \<Longrightarrow> advance r s (forbid s1)"
  using advance_trans forbid_advance advance_ok by blast

lemma advance_succeed: "advance r s s1 \<Longrightarrow> advance r s (succeed a b s1)"
  using advance_trans succeed_advance advance_ok by blast

lemma advance_mixer_ok: "advance r s s1 \<Longrightarrow> mixer_ok (snd s1)"
  by (simp add: advance_def state_ok_def)

lemma advance_msg_ok: "advance r s s1 \<Longrightarrow> msg_ok r (fst s1) (snd s1)"
  by (simp add: advance_def state_ok_def)

lemma advance_requester: "advance r s s1 \<Longrightarrow> mg_requester (fst s1) = r"
  by (simp add: advance_def state_ok_def msg_ok_def)

text \<open>The message turns to a conference of its requester.\<close>

lemma advance_conf:
  assumes "advance r s (g, m)" and "mx_heap m p = Some n" "nd_conf n" "nd_requester n = r"
    and "mg_requester g' = mg_requester g" "mg_direction g' = mg_direction g" "mg_conf g' = p"
  shows "advance r s (g', m)"
  using assms node_wf(2) [of m p n] by (auto simp: advance_def state_ok_def msg_ok_def mixer_ok_def faces_def)

lemma advance_stopped:
  assumes "advance r s (g, m)" and "mg_requester g' = mg_requester g" "mg_direction g' = mg_direction g" "mg_stop g'"
  shows "advance r s (g', m)"
  using assms by (auto simp: advance_def state_ok_def msg_ok_def)

text \<open>The conference that a message still at work has named is its requester's, or gone.\<close>

lemma named_conference:
  assumes "state_ok r (g, m)" and "\<not> mg_stop g" and "mx_heap m (mg_conf g) = Some n"
  shows "nd_conf n" "nd_requester n = r"
  using assms node_wf(1) [of m "mg_conf g" n] by (auto simp: state_ok_def msg_ok_def faces_def mixer_ok_def)

subsection \<open>The start of a request\<close>

lemma start_root_advance: "state_ok r s \<Longrightarrow> advance r s (start_root name atts s)"
  by (auto simp: start_root_def Let_def intro: fail_advance advance_refl split: sum.split)

lemma getConnection_all: "mixer_ok m \<Longrightarrow> all_val (\<lambda>(m', c). keeps r m m') (mx_getConnection bx i m)"
  using mx_getConnection_keeps by (fastforce simp: all_val_def)

lemma start_create_advance:
  assumes "state_ok r s"
  shows "all_val (advance r s) (start_create env atts s)"
proof -
  let ?g = "(fst s)\<lparr>mg_newconf := True\<rparr>"
  have a0: "advance r s (?g, snd s)" using assms by (rule advance_msg) (simp_all add: same_msg_def)
  show ?thesis
  proof (cases "create_atts (me_bx env) atts")
    case (Inl a)
    then show ?thesis using a0 by (simp add: start_create_def advance_fail)
  next
    case (Inr x)
    obtain i t l where x: "x = (i, t, l)" by (cases x)
    have g: "all_val (\<lambda>(m', c). keeps r (snd s) m') (mx_getConnection (me_bx env) i (snd s))"
      using advance_mixer_ok [OF a0] by (intro getConnection_all) simp
    show ?thesis
      unfolding start_create_def Let_def Inr x sum.case prod.case fst_conv snd_conv
    proof (rule all_val_bind2 [OF g], rule all_val_if)
      fix m1 :: mixer
      assume k: "keeps r (snd s) m1"
      show "all_val (advance r s) (Val (fail 405 i (?g, m1)))"
        using advance_fail [OF advance_keeps [OF a0 k]] by simp
    next
      fix m1 :: mixer
      assume k: "keeps r (snd s) m1"
      have a1: "advance r s (?g, m1)" by (rule advance_keeps [OF a0 k])
      show "all_val (advance r s) (case confs_index i m1 of (p, m2) \<Rightarrow>
          if p \<noteq> NULL then Val (fail 405 i (?g, m2))
          else cpp_bind (newMixerConference (me_random env) (mg_requester ?g) i m2) (\<lambda>(m3, p).
            cpp_bind (deref (mx_heap m3) p) (\<lambda>n. Val (?g\<lparr>mg_conf := p\<rparr>,
              putNode p (n\<lparr>nd_talkers := t, nd_listeners := l\<rparr>) m3))))"
      proof (rule all_val_prod, rule all_val_if)
        fix p m2
        assume ci: "confs_index i m1 = (p, m2)"
        have a2: "advance r s (?g, m2)"
          by (rule advance_keeps [OF a1 confs_index_ok(1) [OF ci]]) (use advance_mixer_ok [OF a1] in simp)
        show "all_val (advance r s) (Val (fail 405 i (?g, m2)))" using advance_fail [OF a2] by simp
        show "all_val (advance r s) (cpp_bind (newMixerConference (me_random env) (mg_requester ?g) i m2)
            (\<lambda>(m3, p). cpp_bind (deref (mx_heap m3) p) (\<lambda>n. Val (?g\<lparr>mg_conf := p\<rparr>,
              putNode p (n\<lparr>nd_talkers := t, nd_listeners := l\<rparr>) m3))))"
        proof (rule all_val_bind2 [where P = "\<lambda>m3 p. keeps r m2 m3 \<and> (\<exists>n. mx_heap m3 p = Some n \<and> nd_requester n = r \<and> nd_conf n)"])
          show "all_val (\<lambda>(m3, p). keeps r m2 m3 \<and> (\<exists>n. mx_heap m3 p = Some n \<and> nd_requester n = r \<and> nd_conf n))
             (newMixerConference (me_random env) (mg_requester ?g) i m2)"
            using newMixerConference_ok [of "me_random env" r i m2] advance_mixer_ok [OF a2] advance_requester [OF a2]
            by (auto intro!: all_valI)
        next
          fix m3 p
          assume "keeps r m2 m3 \<and> (\<exists>n. mx_heap m3 p = Some n \<and> nd_requester n = r \<and> nd_conf n)"
          then obtain n where k3: "keeps r m2 m3" and n: "mx_heap m3 p = Some n" "nd_requester n = r" "nd_conf n" by auto
          let ?m = "putNode p (n\<lparr>nd_talkers := t, nd_listeners := l\<rparr>) m3"
          have "keeps r m3 ?m"
            by (rule own_putNode_keeps [OF keeps_ok [OF k3] n(1)]) (simp_all add: face_of_def sound_ok_def n(2))
          then have "advance r s (?g, ?m)" using advance_keeps [OF a2] k3 keeps_trans by blast
          then have "advance r s (?g\<lparr>mg_conf := p\<rparr>, ?m)"
            by (rule advance_conf [where n = "n\<lparr>nd_talkers := t, nd_listeners := l\<rparr>"]) (simp_all add: n)
          then show "all_val (advance r s) (cpp_bind (deref (mx_heap m3) p) (\<lambda>n. Val (?g\<lparr>mg_conf := p\<rparr>,
              putNode p (n\<lparr>nd_talkers := t, nd_listeners := l\<rparr>) m3)))"
            using n(1) by (auto intro!: all_val_deref)
        qed
      qed
    qed
  qed
qed

lemma checkSender_all: "all_val (\<lambda>b. \<exists>n. mx_heap m p = Some n \<and> b = (nd_requester n = r)) (checkSender p r m)"
  by (rule all_valI) (rule checkSender_Val)

lemma find_conference_advance:
  assumes "state_ok r s"
  shows "all_val (advance r s) (find_conference atts s)"
proof -
  let ?g = "(fst s)\<lparr>mg_newconf := False\<rparr>"
  have a0: "advance r s (?g, snd s)" using assms by (rule advance_msg) (simp_all add: same_msg_def)
  show ?thesis
  proof (cases "map_of atts ''conferenceid''")
    case None
    then show ?thesis using a0 by (simp add: find_conference_def advance_fail)
  next
    case (Some i)
    show ?thesis
      unfolding find_conference_def Let_def Some option.case fst_conv snd_conv
    proof (rule all_val_prod, rule all_val_if)
      fix p m1
      assume ci: "confs_index i (snd s) = (p, m1)"
      note ok = advance_mixer_ok [OF a0, unfolded snd_conv]
      have a1: "advance r s (?g, m1)" by (rule advance_keeps [OF a0 confs_index_ok(1) [OF ci ok]])
      show "all_val (advance r s) (Val (fail 406 i (?g, m1)))" using advance_fail [OF a1] by simp
      assume "p \<noteq> NULL"
      from confs_index_ok(6) [OF ci ok this] obtain k where k: "mx_heap (snd s) p = Some k" "nd_conf k" by blast
      show "all_val (advance r s) (cpp_bind (checkSender p (mg_requester ?g) m1)
          (\<lambda>mine. Val (if mine then (?g\<lparr>mg_conf := p\<rparr>, m1) else forbid (?g\<lparr>mg_conf := p\<rparr>, m1))))"
      proof (rule all_val_bind [OF checkSender_all])
        fix mine
        assume "\<exists>n. mx_heap m1 p = Some n \<and> mine = (nd_requester n = mg_requester ?g)"
        then have mine: "mine = (nd_requester k = r)" and k1: "mx_heap m1 p = Some k"
          using k confs_index_ok(2) [OF ci ok] advance_requester [OF a0] by auto
        show "all_val (advance r s) (Val (if mine then (?g\<lparr>mg_conf := p\<rparr>, m1) else forbid (?g\<lparr>mg_conf := p\<rparr>, m1)))"
        proof (cases mine)
          case True
          then have "advance r s (?g\<lparr>mg_conf := p\<rparr>, m1)"
            using advance_conf [OF a1 k1 k(2)] mine by simp
          then show ?thesis using True by simp
        next
          case False
          have "advance r s (?g\<lparr>mg_stop := True, mg_conf := p\<rparr>, m1)"
            by (rule advance_stopped [OF a1]) simp_all
          from advance_forbid [OF this] have "advance r s (forbid (?g\<lparr>mg_conf := p\<rparr>, m1))"
            by (simp add: forbid_def halt_def reply_def)
          then show ?thesis using False by simp
        qed
      qed
    qed
  qed
qed

lemma join_atts_same: "same_msg g (snd (join_atts atts g))"
  by (induction atts g rule: join_atts.induct) (auto simp: same_msg_def)

lemma advance_missing: "advance r s s1 \<Longrightarrow> advance r s (fail_missing i s1)"
  unfolding fail_missing_def by (rule advance_fail)

lemma start_join_advance:
  assumes "state_ok r s"
  shows "all_val (advance r s) (start_join bx atts s)"
proof -
  obtain x g where j: "join_atts atts (fst s) = (x, g)" by (cases "join_atts atts (fst s)")
  have a0: "advance r s (g, snd s)"
    using assms by (rule advance_msg) (use join_atts_same [of "fst s" atts] in \<open>simp add: j\<close>)
  show ?thesis
  proof (cases x)
    case (Some a)
    then show ?thesis using a0 by (simp add: start_join_def j advance_fail)
  next
    case None
    show ?thesis
      unfolding start_join_def j None option.case prod.case
    proof (rule all_val_bind2 [OF getConnection_all], use a0 in \<open>simp add: advance_def state_ok_def\<close>, rule all_val_if)
      fix m1 :: mixer
      assume "keeps r (snd s) m1"
      then have a1: "advance r s (g, m1)" by (rule advance_keeps [OF a0])
      show "all_val (advance r s) (Val (fail_missing (mg_id1 g) (g, m1)))" using advance_missing [OF a1] by simp
      show "all_val (advance r s) (cpp_bind (mx_getConnection bx (mg_id2 g) m1) (\<lambda>(m2, c2).
         if c2 = NULL then Val (fail_missing (mg_id2 g) (g, m2)) else Val (g, m2)))"
      proof (rule all_val_bind2 [OF getConnection_all], use a1 in \<open>simp add: advance_def state_ok_def\<close>, rule all_val_if)
        fix m2 :: mixer
        assume "keeps r m1 m2"
        then have a2: "advance r s (g, m2)" by (rule advance_keeps [OF a1])
        then show "all_val (advance r s) (Val (g, m2))" by simp
        show "all_val (advance r s) (Val (fail_missing (mg_id2 g) (g, m2)))" using advance_missing [OF a2] by simp
      qed
    qed
  qed
qed

lemma start_audit_advance:
  assumes "state_ok r s"
  shows "advance r s (start_audit bx atts s)"
proof (cases "audit_atts bx atts ('''', True, True)")
  case (Inl x)
  then show ?thesis using fail_advance [OF assms] by (cases x) (simp add: start_audit_def)
next
  case (Inr x)
  obtain i a b where x: "x = (i, a, b)" by (cases x)
  obtain p m1 where pm: "(if i \<noteq> '''' then confs_index i (snd s) else (NULL, snd s)) = (p, m1)" by fastforce
  have ok: "mixer_ok (snd s)" using assms by (simp add: state_ok_def)
  have "keeps r (snd s) m1"
    using pm confs_index_ok(1) [OF _ ok] keeps_refl [OF ok] by (auto split: if_splits)
  then have a1: "advance r s (fst s, m1)" using advance_keeps [of r s "fst s" "snd s"] advance_refl [OF assms] by simp
  have "advance r s ((fst s)\<lparr>mg_auditCapabilities := a, mg_auditMixers := b, mg_auditConference := i\<rparr>, m1)"
    using advance_msgs [OF a1] by (simp add: same_msg_def)
  then show ?thesis using advance_fail [OF a1] by (simp add: start_audit_def Inr x pm)
qed

lemma start_request_advance:
  assumes "state_ok r s"
  shows "all_val (advance r s) (start_request env name atts s)"
proof -
  let ?s = "((fst s)\<lparr>mg_request := name\<rparr>, snd s)"
  have a0: "advance r s ?s" using assms by (rule advance_msg) (simp_all add: same_msg_def)
  note ok = advance_ok [OF a0]
  have "all_val (advance r ?s) (start_request env name atts s)"
    unfolding start_request_def Let_def
    by (intro all_val_if) (simp_all (no_asm) only: all_val_simps start_create_advance [OF ok] find_conference_advance [OF ok]
      start_join_advance [OF ok] start_audit_advance [OF ok] fail_advance [OF ok])
  then show ?thesis by (rule all_val_mono) (rule advance_trans [OF a0])
qed

subsection \<open>Inside a request\<close>

text \<open>A change of the message's conference that neither its face nor its links show.\<close>

lemma own_conf_change:
  assumes "state_ok r s" and "\<not> mg_stop (fst s)"
    and "\<And>n. face_of (f n) = face_of n" "\<And>n. nd_nodes (f n) = nd_nodes n" "\<And>n. sound_ok n \<Longrightarrow> sound_ok (f n)"
      "\<And>n. nd_receiving (f n) = nd_receiving n"
  shows "all_val (\<lambda>m'. advance r s (fst s, m'))
     (cpp_bind (deref (mx_heap (snd s)) (mg_conf (fst s))) (\<lambda>n. Val (putNode (mg_conf (fst s)) (f n) (snd s))))"
proof (rule all_val_deref)
  fix n
  assume n: "mx_heap (snd s) (mg_conf (fst s)) = Some n"
  have rn: "nd_requester n = r" using named_conference(2) [of r "fst s" "snd s" n] assms(1,2) n by simp
  have "mixer_ok (snd s)" using assms(1) by (simp add: state_ok_def)
  from own_putNode_keeps [OF this n assms(3-6) rn]
  have k: "keeps r (snd s) (putNode (mg_conf (fst s)) (f n) (snd s))" .
  have "advance r s (fst s, snd s)" using advance_refl [OF assms(1)] by simp
  from advance_keeps [OF this k]
  show "all_val (\<lambda>m'. advance r s (fst s, m')) (Val (putNode (mg_conf (fst s)) (f n) (snd s)))" by simp
qed

lemma start_mixing_advance:
  assumes "state_ok r s" and "\<not> mg_stop (fst s)"
  shows "all_val (advance r s) (start_mixing bx atts s)"
proof (cases "mixing_atts bx atts (MIXING_NONE, 0)")
  case (Inl x)
  then show ?thesis using fail_advance [OF assms(1)] by (cases x) (simp add: start_mixing_def)
next
  case (Inr x)
  obtain k n where x: "x = (k, n)" by (cases x)
  show ?thesis
  proof (cases "mg_conf (fst s) = NULL")
    case False
    let ?k = "if k = MIXING_NONE then MIXING_NBEST else k"
    have "all_val (\<lambda>m'. advance r s (fst s, m')) (cpp_bind (deref (mx_heap (snd s)) (mg_conf (fst s)))
        (\<lambda>d. Val (putNode (mg_conf (fst s)) (setAudioMixingType ?k n d) (snd s))))"
      by (rule own_conf_change [OF assms]) (simp_all add: setAudioMixingType_def face_of_def sound_ok_def)
    then show ?thesis using False
      by (cases "deref (mx_heap (snd s)) (mg_conf (fst s))") (simp_all add: start_mixing_def Inr x Let_def)
  qed (use advance_refl [OF assms(1)] in \<open>simp add: start_mixing_def Inr x\<close>)
qed

lemma start_stream_advance:
  assumes "state_ok r s"
  shows "advance r s (start_stream atts s)"
  using fail_advance [OF assms] advance_msg [OF assms]
  by (auto simp: start_stream_def Let_def same_msg_def split: sum.split)

lemma start_part_advance:
  assumes "state_ok r s" and "\<not> mg_stop (fst s)"
  shows "all_val (advance r s) (start_part env name atts s)"
  using start_mixing_advance [OF assms] start_stream_advance [OF assms(1)] fail_advance [OF assms(1)] advance_refl [OF assms(1)]
  by (simp add: start_part_def Let_def)

lemma set_last_stream_advance: "state_ok r s \<Longrightarrow> advance r s (set_last_stream f s)"
  unfolding set_last_stream_def by (rule advance_msg) (simp_all add: same_msg_def)

lemma start_volume_advance:
  assumes "state_ok r s"
  shows "all_val (advance r s) (start_volume atts s)"
proof -
  obtain k v where kv: "volume_atts atts ('''', '''') = (k, v)" by (cases "volume_atts atts ('''', '''')")
  show ?thesis
    using fail_advance [OF assms] set_last_stream_advance [OF assms] advance_refl [OF assms]
    by (cases "getPercentVolume (atoi v)") (simp_all add: start_volume_def kv)
qed

lemma start_clamp_advance: "state_ok r s \<Longrightarrow> all_val (advance r s) (start_clamp atts s)"
  using set_last_stream_advance fail_advance by (auto simp: start_clamp_def split: list.split)

lemma start_subscription_advance:
  assumes "state_ok r s" and "\<not> mg_stop (fst s)"
  shows "all_val (advance r s) (start_subscription env atts s)"
proof (cases atts)
  case (Cons x xs)
  obtain a v where x: "x = (a, v)" by (cases x)
  have "all_val (\<lambda>m'. advance r s (fst s, m')) (conf_subscribe n t (mg_conf (fst s)) (snd s))" for n t
    unfolding conf_subscribe_def Let_def
    by (rule own_conf_change [OF assms]) (simp_all add: face_of_def sound_ok_def)
  then have sub: "all_val (advance r s) (cpp_bind (conf_subscribe n t (mg_conf (fst s)) (snd s)) (\<lambda>m1. Val (fst s, m1)))" for n t
    by (rule all_val_bind) simp
  show ?thesis
    using fail_advance [OF assms(1)] sub by (auto simp: start_subscription_def Cons x split: option.split)
qed (simp add: start_subscription_def)

lemma set_childs_advance: "advance r s s1 \<Longrightarrow> advance r s (set_childs cs s1)"
  unfolding set_childs_def by (rule advance_msgs) (simp_all add: same_msg_def)

lemma set_childs_stop [simp]: "mg_stop (fst (set_childs cs s)) = mg_stop (fst s)"
  "mg_conf (fst (set_childs cs s)) = mg_conf (fst s)" "mg_streams (fst (set_childs cs s)) = mg_streams (fst s)"
  by (simp_all add: set_childs_def)

lemma start_detail_advance:
  assumes "state_ok r s" and "\<not> mg_stop (fst s)"
  shows "all_val (advance r s) (start_detail env name atts s)"
proof -
  let ?up = "butlast (mg_childs (fst s))"
  let ?s = "set_childs ?up s" and ?s1 = "set_childs (?up @ [name]) (set_childs ?up s)"
  have a: "advance r s ?s" "advance r s ?s1"
    using set_childs_advance advance_refl [OF assms(1)] by blast+
  note ok = advance_ok [OF a(2)]
  have st: "\<not> mg_stop (fst ?s1)" using assms(2) by simp
  have v: "all_val (advance r s) (start_volume atts ?s1)" "all_val (advance r s) (start_clamp atts ?s1)"
      "all_val (advance r s) (start_subscription env atts ?s1)"
    by (rule all_val_mono [OF _ advance_trans [OF a(2)]], simp_all only: start_volume_advance [OF ok]
        start_clamp_advance [OF ok] start_subscription_advance [OF ok st])+
  show ?thesis
    unfolding start_detail_def Let_def
    by (intro all_val_if) (simp_all (no_asm) only: all_val_simps v a advance_fail [OF a(1)] advance_fail [OF a(2)])
qed

lemma startElement_advance:
  assumes "state_ok r s"
  shows "all_val (advance r s) (mx_startElement env name atts s)"
proof (cases "mg_stop (fst s)")
  case False
  let ?s = "((fst s)\<lparr>mg_level := mg_level (fst s) + 1, mg_childs := mg_childs (fst s) @ [name]\<rparr>, snd s)"
  have a: "advance r s ?s" by (rule advance_msg [OF assms]) (simp add: same_msg_def)
  note ok = advance_ok [OF a]
  have st: "\<not> mg_stop (fst ?s)" using False by simp
  have "all_val (advance r ?s) (mx_startElement env name atts s)"
    unfolding mx_startElement_def Let_def if_not_P [OF False]
    by (intro all_val_if) (simp_all (no_asm) only: all_val_simps start_root_advance [OF ok] start_request_advance [OF ok]
      start_part_advance [OF ok st] start_detail_advance [OF ok st] fail_advance [OF ok])
  then show ?thesis by (rule all_val_mono) (rule advance_trans [OF a])
qed (use advance_refl [OF assms] in \<open>simp add: mx_startElement_def\<close>)

subsection \<open>The two ends of a join\<close>

abbreviation (input) advance1 :: "ptr \<Rightarrow> mstate \<Rightarrow> mstate \<times> bool \<Rightarrow> bool" where
  "advance1 r s x \<equiv> advance r s (fst x)"

lemma erase_node_keeps:
  assumes "mixer_ok m"
  shows "keeps r m (m\<lparr>mx_nodes := smap_erase con (mx_nodes m)\<rparr>)"
proof -
  let ?m = "m\<lparr>mx_nodes := smap_erase con (mx_nodes m)\<rparr>"
  have e: "link ?m = link m" "faces ?m = faces m" by (rule same_heap, simp)+
  have "registry_ok (faces m) (smap_erase con (mx_nodes m)) (mx_confs m)"
    using assms by (auto simp: mixer_ok_def registry_ok_def split: if_splits)
  with assms have "mixer_ok ?m" unfolding mixer_ok_def e by (simp add: nodes_wf_def)
  then show ?thesis by (simp add: keeps_def evolves_def e)
qed

lemma own_conference_advance:
  assumes "state_ok r s"
  shows "all_val (advance1 r s) (own_conference con s)"
  unfolding own_conference_def Let_def
proof (intro all_val_any all_val_if all_val_prod)
  show "all_val (advance1 r s) (Val (s, False))" using advance_refl [OF assms] by simp
  fix p m1
  assume i: "nodes_index con (snd s) = (p, m1)"
  have ok: "mixer_ok (snd s)" using assms by (simp add: state_ok_def)
  note k = nodes_index_ok(1) [OF i ok]
  have "advance r s (fst s, snd s)" using advance_refl [OF assms] by simp
  from advance_keeps [OF this k] have a1: "advance r s (fst s, m1)" .
  have "advance r s (fst s, m1\<lparr>mx_nodes := smap_erase con (mx_nodes m1)\<rparr>)"
    by (rule advance_keeps [OF a1 erase_node_keeps [OF keeps_ok [OF k]]])
  then show "all_val (advance1 r s) (Val (forbid (fst s, m1\<lparr>mx_nodes := smap_erase con (mx_nodes m1)\<rparr>), True))"
    using advance_forbid by simp
  fix mine
  show "all_val (advance1 r s) (Val (if mine then ((fst s, m1), False) else (forbid (fst s, m1), True)))"
    using a1 advance_forbid [OF a1] by simp
qed

lemma parse_whole_advance:
  assumes "state_ok r s"
  shows "all_val (advance r s) (parse_whole s)"
  unfolding parse_whole_def Let_def
proof (intro all_val_any all_val_option)
  show "all_val (advance r s) (Val (fail 426 ''id1 has no media connections'' s))" using fail_advance [OF assms] by simp
  fix a1
  have a: "advance r s ((fst s)\<lparr>mg_node1 := a1\<rparr>, snd s)" by (rule advance_msg [OF assms]) (simp add: same_msg_def)
  then show "all_val (advance r s) (Val (fail 426 ''id1 has no media connections'' ((fst s)\<lparr>mg_node1 := a1\<rparr>, snd s)))"
    using advance_fail by simp
  fix a2
  have "advance r s ((fst s)\<lparr>mg_node1 := a1, mg_node2 := a2\<rparr>, snd s)" by (rule advance_msg [OF assms]) (simp add: same_msg_def)
  then show "all_val (advance r s) (Val ((fst ((fst s)\<lparr>mg_node1 := a1\<rparr>, snd s))\<lparr>mg_node2 := a2\<rparr>, snd s))" by simp
qed

lemma same_medium_advance: "state_ok r s \<Longrightarrow> advance1 r s (label_medium st c s)"
  by (simp add: label_medium_def fail_advance advance_refl)

lemma check_label_advance:
  assumes "state_ok r s"
  shows "all_val (advance1 r s) (check_label st s)"
  unfolding check_label_def Let_def
  by (intro all_val_any all_val_if)
    (simp_all (no_asm) add: fail_advance [OF assms] advance_refl [OF assms] same_medium_advance [OF assms])

lemma take_direction_same: "take_direction st g = Inr g' \<Longrightarrow> same_msg g g'"
  by (auto simp: take_direction_def Let_def same_msg_def split: if_splits)

lemma parse_stream_advance:
  assumes "state_ok r s"
  shows "all_val (advance1 r s) (parse_stream st s)"
  unfolding parse_stream_def
proof (rule all_val_bind [OF check_label_advance [OF assms]], rule all_val_prod)
  fix x s1 returned
  assume "advance1 r s x" and "x = (s1, returned)"
  then have a1: "advance r s s1" by simp
  show "all_val (advance1 r s) (if returned then Val (s1, True)
       else if mg_stop (fst s1) then Val (s1, False)
       else cpp_bind (stream_node (mg_con1 (fst s1)) st (snd s1)) (\<lambda>a1.
         if a1 = NULL then Val (no_media (mg_id1 (fst s1)) st s1, True)
         else case (if st_mediaType st = MEDIACTRL_MEDIA_AUDIO
                    then take_direction st ((fst s1)\<lparr>mg_node1 := a1\<rparr>) else Inr (fst s1)) of
           Inl conflict \<Rightarrow> Val (fail 422 conflict ((fst s1)\<lparr>mg_node1 := a1\<rparr>, snd s1), True)
         | Inr g \<Rightarrow>
             cpp_bind (stream_node (mg_con2 g) st (snd s1)) (\<lambda>a2.
               if a2 = NULL then Val (no_media (mg_id2 g) st (g, snd s1), True)
               else Val (if st_mediaType st = MEDIACTRL_MEDIA_AUDIO then (g\<lparr>mg_node2 := a2\<rparr>, snd s1)
                         else (g, snd s1), False))))"
  proof (intro all_val_any all_val_if)
    show "all_val (advance1 r s) (Val (s1, True))" "all_val (advance1 r s) (Val (s1, False))" using a1 by simp_all
    fix a1
    show "all_val (advance1 r s) (Val (no_media (mg_id1 (fst s1)) st s1, True))"
      using advance_fail [OF a1] by (simp add: no_media_def)
    have a2: "advance r s ((fst s1)\<lparr>mg_node1 := a1\<rparr>, snd s1)" by (rule advance_msgs [OF \<open>advance r s s1\<close>]) (simp add: same_msg_def)
    show "all_val (advance1 r s) (case (if st_mediaType st = MEDIACTRL_MEDIA_AUDIO
                    then take_direction st ((fst s1)\<lparr>mg_node1 := a1\<rparr>) else Inr (fst s1)) of
           Inl conflict \<Rightarrow> Val (fail 422 conflict ((fst s1)\<lparr>mg_node1 := a1\<rparr>, snd s1), True)
         | Inr g \<Rightarrow>
             cpp_bind (stream_node (mg_con2 g) st (snd s1)) (\<lambda>a2.
               if a2 = NULL then Val (no_media (mg_id2 g) st (g, snd s1), True)
               else Val (if st_mediaType st = MEDIACTRL_MEDIA_AUDIO then (g\<lparr>mg_node2 := a2\<rparr>, snd s1)
                         else (g, snd s1), False)))"
    proof (cases "(if st_mediaType st = MEDIACTRL_MEDIA_AUDIO then take_direction st ((fst s1)\<lparr>mg_node1 := a1\<rparr>) else Inr (fst s1))")
      case (Inl conflict)
      show ?thesis unfolding Inl sum.case using advance_fail [OF a2] by simp
    next
      case (Inr g)
      have g: "advance r s (g, snd s1)"
        using Inr advance_msgs [OF a2, of g] take_direction_same [of st "(fst s1)\<lparr>mg_node1 := a1\<rparr>" g] a1
        by (auto split: if_splits)
      then have "advance r s (g\<lparr>mg_node2 := a2\<rparr>, snd s1)" for a2
        using advance_msgs [OF g] by (simp add: same_msg_def)
      then show ?thesis
        unfolding Inr sum.case using g advance_fail [OF g] by (auto intro!: all_val_any simp: no_media_def)
    qed
  qed
qed

lemma parse_each_advance: "state_ok r s \<Longrightarrow> all_val (advance r s) (parse_each sts s)"
proof (induction sts arbitrary: s)
  case (Cons st sts)
  show ?case
    unfolding parse_each.simps
  proof (rule all_val_bind [OF parse_stream_advance [OF Cons.prems]], rule all_val_prod, rule all_val_if)
    fix x s1 returned
    assume x: "advance1 r s x" "x = (s1, returned)"
    then show "all_val (advance r s) (Val s1)" by simp
    show "all_val (advance r s) (parse_each sts s1)"
      using Cons.IH [of s1] x advance_ok [of r s s1] advance_trans [of r s s1] by (auto elim!: all_val_mono)
  qed
qed (simp add: advance_refl)

lemma parseStreams_advance:
  assumes "state_ok r s"
  shows "all_val (advance r s) (parseStreams bx s)"
  unfolding parseStreams_def Let_def
proof (rule all_val_bind2 [OF getConnection_all], use assms in \<open>simp add: state_ok_def\<close>,
    rule all_val_bind2 [OF getConnection_all], erule keeps_ok)
  fix m1 con1 m2 con2
  assume k: "keeps r (snd s) m1" "keeps r m1 m2"
  let ?g = "(fst s)\<lparr>mg_con1 := con1, mg_con2 := con2, mg_direction := SENDRECV, mg_node1 := NULL,
                  mg_node2 := NULL, mg_volume1 := VOLUME_NONE, mg_volume2 := VOLUME_NONE\<rparr>"
  have "advance r s (?g, snd s)" by (rule advance_msg [OF assms]) (simp add: same_msg_def)
  then have a: "advance r s (?g, m2)" using advance_keeps k keeps_trans by blast
  show "all_val (advance r s) (cpp_bind (own_conference con1 (?g, m2)) (\<lambda>(s1, returned1).
         if returned1 then Val s1
         else cpp_bind (own_conference con2 s1) (\<lambda>(s2, returned2).
           if returned2 then Val s2
           else if mg_streams (fst s2) = [] then parse_whole s2
           else parse_each (mg_streams (fst s2)) s2)))"
  proof (rule all_val_bind [OF own_conference_advance [OF advance_ok [OF a]]], rule all_val_prod, rule all_val_if)
    fix x s1 returned1
    assume "advance1 r (?g, m2) x" and "x = (s1, returned1)"
    then have a1: "advance r s s1" using advance_trans [OF a] by simp
    then show "all_val (advance r s) (Val s1)" by simp
    show "all_val (advance r s) (cpp_bind (own_conference con2 s1) (\<lambda>(s2, returned2).
           if returned2 then Val s2
           else if mg_streams (fst s2) = [] then parse_whole s2
           else parse_each (mg_streams (fst s2)) s2))"
    proof (rule all_val_bind [OF own_conference_advance [OF advance_ok [OF a1]]], rule all_val_prod)
      fix x s2 returned2
      assume "advance1 r s1 x" and "x = (s2, returned2)"
      then have a2: "advance r s s2" using advance_trans [OF a1] by simp
      show "all_val (advance r s) (if returned2 then Val s2
           else if mg_streams (fst s2) = [] then parse_whole s2
           else parse_each (mg_streams (fst s2)) s2)"
        using all_val_mono [OF parse_whole_advance [OF advance_ok [OF a2]] advance_trans [OF a2]] a2
          all_val_mono [OF parse_each_advance [OF advance_ok [OF a2]] advance_trans [OF a2]]
        by simp
    qed
  qed
qed

subsection \<open>Joining, modifying and unjoining\<close>

lemma link_change_keeps:
  assumes "mixer_ok m" and "sets_link p q d m m' ok" and "faces m p = Some a" "faces m q = Some b"
    and "fc_req a = r" "fc_req b = r" and "ok \<Longrightarrow> graph_ok (faces m) (both p q d (link m))"
  shows "keeps r m m'"
proof -
  have t: "touches {p, q} m m'" and l: "link m' = (if ok then both p q d (link m) else link m)"
    using assms(2) by (auto simp: sets_link_def)
  have "graph_ok (faces m) (link m')" using assms(1,7) l by (auto simp: mixer_ok_def)
  then have "mixer_ok m'" using assms(1) t by (simp add: mixer_ok_def touches_def)
  moreover have "evolves r m m'" by (rule touches_evolves [OF t]) (use assms(3-6) in auto)
  ultimately show ?thesis by (simp add: keeps_def)
qed

lemma edges_both:
  assumes "nodes_wf m" and "faces m p = Some a" "faces m q = Some b" "fc_req a = fc_req b" and "p \<noteq> NULL" "q \<noteq> NULL"
    and "0 \<le> d" "d \<le> 3" and "fc_conf a \<longrightarrow> fc_media b = MEDIACTRL_MEDIA_AUDIO"
    and "p \<noteq> q \<longrightarrow> fc_conf b \<longrightarrow> fc_media a = MEDIACTRL_MEDIA_AUDIO" and "graph_ok (faces m) (link m)"
  shows "graph_ok (faces m) (both p q (Some d) (link m))"
proof (rule graph_ok_set [OF assms(11)])
  have w: "fc_conf c \<Longrightarrow> fc_media c \<noteq> MEDIACTRL_MEDIA_AUDIO" if "faces m x = Some c" for x c
    using that assms(1) by (auto simp: faces_def nodes_wf_def)
  show "edge_ok (faces m) p q d" by (rule edge_ok_set [of "faces m" p a q b]) (use assms w [OF assms(2)] in auto)
  assume "p \<noteq> q"
  then show "edge_ok (faces m) q p (getReverseDirection d)"
    using reverse_range [of d] assms w [OF assms(3)] by (intro edge_ok_set [of "faces m" q b p a]) auto
qed

lemma linked_both:
  assumes "mixer_ok m" and "link m p q = Some d0" and "0 \<le> d" "d \<le> 3"
  shows "graph_ok (faces m) (both p q (Some d) (link m))"
proof -
  have g: "graph_ok (faces m) (link m)" and w: "nodes_wf m" using assms(1) by (auto simp: mixer_ok_def)
  obtain a b where f: "faces m p = Some a" "faces m q = Some b" "fc_req a = fc_req b" "q \<noteq> NULL"
      "fc_conf a \<longrightarrow> p \<noteq> q \<and> fc_media b = MEDIACTRL_MEDIA_AUDIO" and bk: "p \<noteq> q \<longrightarrow> link m q p = Some (getReverseDirection d0)"
    using linked_faces [OF g assms(2)] by metis
  have "p \<noteq> NULL" using f(1) node_wf(1) [OF w] by (auto simp: faces_def)
  moreover have "p \<noteq> q \<longrightarrow> fc_conf b \<longrightarrow> fc_media a = MEDIACTRL_MEDIA_AUDIO"
    using linked_faces [OF g, of q p] bk f(1,2) by (metis option.inject)
  ultimately show ?thesis using f assms(3,4) by (intro edges_both [OF w f(1,2) _ _ _ _ _ _ _ g]) auto
qed

lemma link_nodes_keeps:
  assumes "link_nodes p q (g, m) = Val (s', ok)" and "mixer_ok m" and "p \<noteq> NULL" "q \<noteq> NULL"
    and "mx_heap m p = Some n" "mx_heap m q = Some k" "nd_requester n = r" "nd_requester k = r"
    and "0 \<le> mg_direction g" "mg_direction g \<le> 3"
  shows "keeps r m (snd s')"
proof -
  have w: "nodes_wf m" "graph_ok (faces m) (link m)" using assms(2) by (auto simp: mixer_ok_def)
  note f = faces_Some [of m, OF assms(5)] faces_Some [of m, OF assms(6)]
  note e = link_nodes_sets [OF assms(1) w assms(3,4) f]
  show ?thesis
  proof (rule link_change_keeps [OF assms(2) conjunct1 [OF e] f])
    assume ok
    then show "graph_ok (faces m) (both p q (Some (mg_direction g)) (link m))"
      using e assms(7-10) by (intro edges_both [OF w(1) f _ assms(3,4) _ _ _ _ w(2)]) auto
  qed (use assms(7,8) in auto)
qed

lemma change_keeps:
  assumes "sets_link p q d m m' ok" and "ok \<longrightarrow> link m p q \<noteq> None" and "mixer_ok m"
    and "mx_heap m p = Some n" "mx_heap m q = Some k" "nd_requester n = r" "nd_requester k = r"
    and "\<And>x. d = Some x \<Longrightarrow> 0 \<le> x \<and> x \<le> 3"
  shows "keeps r m m'"
proof (rule link_change_keeps [OF assms(3,1) faces_Some [of m, OF assms(4)] faces_Some [of m, OF assms(5)]])
  assume ok
  then obtain d0 where "link m p q = Some d0" using assms(2) by auto
  then show "graph_ok (faces m) (both p q d (link m))"
    using linked_both [OF assms(3)] graph_ok_unset [of "faces m" "link m" p q] assms(3,8)
    by (cases d) (auto simp: mixer_ok_def)
qed (use assms(6,7) in auto)

text \<open>A request that is carried out leaves the message as it is; one that is refused stops it.\<close>

definition told :: "mmsg \<Rightarrow> mstate \<times> bool \<Rightarrow> bool" where
  "told g x \<longleftrightarrow> fst (fst x) = (if snd x then g else g\<lparr>mg_stop := True\<rparr>)"

lemma told_same: "told g x \<Longrightarrow> same_msg g (fst (fst x))"
  by (auto simp: told_def same_msg_def)

lemma change_half_told: "all_val (told (fst s)) (change_half what p q f s)"
  unfolding change_half_def Let_def by (intro all_val_any all_val_any2 all_val_if) (simp_all add: told_def)

lemma link_nodes_told: "all_val (told (fst s)) (link_nodes p q s)"
  unfolding link_nodes_def link_back_def Let_def
  by (intro all_val_any all_val_any2 all_val_if) (simp_all add: told_def)

lemma told_trans:
  "all_val (told g) r \<Longrightarrow> (\<And>x. fst (fst x) = g \<Longrightarrow> snd x \<Longrightarrow> all_val (told g) (f x)) \<Longrightarrow>
     (\<And>x. fst (fst x) = g\<lparr>mg_stop := True\<rparr> \<Longrightarrow> \<not> snd x \<Longrightarrow> all_val (told g) (f x)) \<Longrightarrow>
     all_val (told g) (cpp_bind r f)"
  by (cases r) (auto simp: told_def split: if_splits)

lemma modify_nodes_told: "all_val (told (fst s)) (modify_nodes p q s)"
  unfolding modify_nodes_def Let_def
proof (rule told_trans [OF change_half_told])
  fix x :: "mstate \<times> bool"
  assume x: "fst (fst x) = fst s"
  then show "snd x \<Longrightarrow> all_val (told (fst s)) (case x of (s1, ok) \<Rightarrow> if \<not> ok \<or> p = q then Val (s1, ok)
      else change_half id2_error q p (node_modify q p (getReverseDirection (mg_direction (fst s))) (mg_volume2 (fst s))) s1)"
    using change_half_told [of "fst x"] by (cases x) (auto simp: told_def)
qed (auto simp: told_def)

lemma unjoin_nodes_told: "all_val (told (fst s)) (unjoin_nodes p q s)"
  unfolding unjoin_nodes_def
proof (rule told_trans [OF change_half_told])
  fix x :: "mstate \<times> bool"
  assume x: "fst (fst x) = fst s" "snd x"
  show "all_val (told (fst s)) (case x of (s1, ok1) \<Rightarrow> if \<not> ok1 then Val (s1, False)
       else cpp_bind (if p = q then Val (s1, True) else change_half id2_error q p (node_detach q p) s1)
         (\<lambda>(s2, ok2).
         if \<not> ok2 then Val (s2, False)
         else cpp_bind (deref (mx_heap (snd s2)) p) (\<lambda>n. cpp_bind (deref (mx_heap (snd s2)) q) (\<lambda>k.
           Val ((fst s2, notifyUnjoin (mg_requester (fst s2)) (nd_Id n) (nd_Id k) UNJOIN_REQUEST (snd s2)), True)))))"
  proof (cases x)
    case (Pair s1 ok1)
    have "all_val (told (fst s)) (if p = q then Val (s1, True) else change_half id2_error q p (node_detach q p) s1)"
      using x change_half_told [of s1] by (simp add: Pair told_def)
    then have t: "all_val (told (fst s)) (cpp_bind
        (if p = q then Val (s1, True) else change_half id2_error q p (node_detach q p) s1) (\<lambda>(s2, ok2).
         if \<not> ok2 then Val (s2, False)
         else cpp_bind (deref (mx_heap (snd s2)) p) (\<lambda>n. cpp_bind (deref (mx_heap (snd s2)) q) (\<lambda>k.
           Val ((fst s2, notifyUnjoin (mg_requester (fst s2)) (nd_Id n) (nd_Id k) UNJOIN_REQUEST (snd s2)), True)))))"
      by (rule told_trans) (auto intro!: all_val_any simp: told_def)
    have "\<not> \<not> ok1" using x(2) by (simp add: Pair)
    then show ?thesis unfolding Pair prod.case if_not_P [OF \<open>\<not> \<not> ok1\<close>] by (intro t)
  qed
qed (auto simp: told_def)

text \<open>
  What a request does to the graph: refused, nothing; carried out, it changes the link between the
  nodes of the two connections of the message, both ways. \<open>was\<close> tells whether they were linked.
\<close>

definition carried :: "bool \<Rightarrow> int option \<Rightarrow> mstate \<Rightarrow> mstate \<times> bool \<Rightarrow> bool" where
  "carried was d s x \<longleftrightarrow> (let m = snd s; m' = snd (fst x); g = fst s in
     if snd x then \<exists>p q. smap_get (mx_nodes m') (mg_node1 g) = Some p \<and> smap_get (mx_nodes m') (mg_node2 g) = Some q \<and>
       (link m p q \<noteq> None) = was \<and> link m' = both p q d (link m)
     else link m' = link m)"

definition settles :: "ptr \<Rightarrow> bool \<Rightarrow> int option \<Rightarrow> mstate \<Rightarrow> mstate \<times> bool \<Rightarrow> bool" where
  "settles r was d s x \<longleftrightarrow> keeps r (snd s) (snd (fst x)) \<and> told (fst s) x \<and> carried was d s x"

lemma settles_refused:
  assumes "keeps r m m'" and "link m' = link m" and "fst s1 = g\<lparr>mg_stop := True\<rparr>"
    and "mx_heap (snd s1) = mx_heap m'" "mx_nodes (snd s1) = mx_nodes m'" "mx_confs (snd s1) = mx_confs m'"
      "mx_next (snd s1) = mx_next m'"
  shows "settles r was d (g, m) (s1, False)"
  using assms same_mixer [OF assms(4-7)] same_heap(1) [OF assms(4)]
  by (simp add: settles_def told_def carried_def keeps_def)

lemma registered_alive:
  assumes "mixer_ok m" and "smap_get (mx_nodes m) cp = Some p" and "p \<noteq> NULL"
  obtains n where "mx_heap m p = Some n" and "nd_connection n = cp"
proof -
  have "\<exists>a. faces m p = Some a \<and> fc_con a = cp"
    using assms unfolding mixer_ok_def registry_ok_def by blast
  then show ?thesis using that by (auto simp: faces_def)
qed

lemma node_for_ok:
  assumes "node_for r con m = Val (m', p)" and "mixer_ok m"
  shows "keeps r m m'" "link m' = link m" "smap_get (mx_nodes m') con = Some p" "p \<noteq> NULL"
    "\<And>cp x. smap_get (mx_nodes m) cp = Some x \<Longrightarrow> x \<noteq> NULL \<Longrightarrow> smap_get (mx_nodes m') cp = Some x"
proof -
  obtain p1 m1 where i: "nodes_index con m = (p1, m1)" by (cases "nodes_index con m")
  note n = nodes_index_ok [OF i assms(2)]
  have i': "p1 = fst (smap_index NULL con (mx_nodes m))" "mx_nodes m1 = snd (smap_index NULL con (mx_nodes m))"
    using i by (auto simp: nodes_index_def case_prod_beta simp del: smap_index_value)
  have ok: "smap_ok (mx_nodes m)" "smap_ok (mx_nodes m1)"
    using assms(2) keeps_ok [OF n(1)] by (auto simp: mixer_ok_def registry_ok_def)
  have r: "(if p1 \<noteq> NULL then Val (m1, p1) else newMixerConnection r con m1) = Val (m', p)"
    using assms(1) by (simp add: node_for_def i)
  have "keeps r m m' \<and> link m' = link m \<and> smap_get (mx_nodes m') con = Some p \<and> p \<noteq> NULL \<and>
    (\<forall>cp x. smap_get (mx_nodes m) cp = Some x \<longrightarrow> x \<noteq> NULL \<longrightarrow> smap_get (mx_nodes m') cp = Some x)"
  proof (cases "p1 = NULL")
    case False
    then have "m' = m1" "p = p1" using r by auto
    then show ?thesis using n(1) [of r] n(4,6) ok(1) False by (auto simp: i'(2))
  next
    case True
    then have new: "newMixerConnection r con m1 = Val (m', p)" using r by simp
    from newMixerConnection_ok [OF new keeps_ok [OF n(1)]]
    have k: "keeps r m1 m'" and p: "p = mx_next m1" by auto
    have wf: "nodes_wf m1" using keeps_ok [OF n(1)] by (simp add: mixer_ok_def)
    then have fresh: "mx_heap m1 p = None" "p \<noteq> NULL" using fresh_node [OF wf] wf p by (auto simp: nodes_wf_def)
    obtain d where d: "m' = (putNode p (con_setup r con d newNode) m1)
        \<lparr>mx_next := p + 1, mx_nodes := smap_put con p (mx_nodes m1)\<rparr>"
      using new by (auto simp: newMixerConnection_def cpp_bind_Val Let_def)
    have "link m' = link m1" using fresh(1) by (auto simp: link_def fun_eq_iff d con_setup_def newNode_def)
    moreover have "smap_get (mx_nodes m) con = Some x \<Longrightarrow> x = NULL" for x using True i'(1) by simp
    ultimately show ?thesis using keeps_trans [OF n(1) k] fresh n(4) ok by (auto simp: d i'(2))
  qed
  then show "keeps r m m'" "link m' = link m" "smap_get (mx_nodes m') con = Some p" "p \<noteq> NULL"
    "\<And>cp x. smap_get (mx_nodes m) cp = Some x \<Longrightarrow> x \<noteq> NULL \<Longrightarrow> smap_get (mx_nodes m') cp = Some x" by blast+
qed

lemma join_nodes_settles:
  assumes "state_ok r (g, m)"
  shows "all_val (settles r False (Some (mg_direction g)) (g, m)) (join_nodes (g, m))"
  unfolding join_nodes_def Let_def fst_conv snd_conv
proof (rule all_val_bind [OF all_valI], assumption, rule all_val_prod, rule all_val_bind [OF checkSender_all], rule all_val_if)
  have rq: "mg_requester g = r" and ok: "mixer_ok m" using assms by (auto simp: state_ok_def msg_ok_def)
  fix x m1 p mine1
  assume "node_for (mg_requester g) (mg_node1 g) m = Val x" and "x = (m1, p)"
  then have nf: "node_for r (mg_node1 g) m = Val (m1, p)" by (simp add: rq)
  note n1 = node_for_ok [OF nf ok]
  show "all_val (settles r False (Some (mg_direction g)) (g, m)) (Val (forbid (g, m1), False))"
    using settles_refused [OF n1(1,2), of "forbid (g, m1)" g] by simp
  assume "\<exists>n. mx_heap m1 p = Some n \<and> mine1 = (nd_requester n = mg_requester g)" and "\<not> \<not> mine1"
  then obtain n where n: "mx_heap m1 p = Some n" "nd_requester n = r" by (auto simp: rq)
  show "all_val (settles r False (Some (mg_direction g)) (g, m)) (cpp_bind (node_for (mg_requester g) (mg_node2 g) m1) (\<lambda>(m2, q).
         cpp_bind (checkSender q (mg_requester g) m2) (\<lambda>mine2.
           if \<not> mine2 then Val (forbid (g, m2), False) else link_nodes p q (g, m2))))"
  proof (rule all_val_bind [OF all_valI], assumption, rule all_val_prod, rule all_val_bind [OF checkSender_all], rule all_val_if)
    fix y m2 q mine2
    assume "node_for (mg_requester g) (mg_node2 g) m1 = Val y" and "y = (m2, q)"
    then have nf2: "node_for r (mg_node2 g) m1 = Val (m2, q)" by (simp add: rq)
    note n2 = node_for_ok [OF nf2 keeps_ok [OF n1(1)]]
    have k: "keeps r m m2" and l: "link m2 = link m" using keeps_trans [OF n1(1) n2(1)] n1(2) n2(2) by auto
    show "all_val (settles r False (Some (mg_direction g)) (g, m)) (Val (forbid (g, m2), False))"
      using settles_refused [OF k l, of "forbid (g, m2)" g] by simp
    assume "\<exists>n. mx_heap m2 q = Some n \<and> mine2 = (nd_requester n = mg_requester g)" and "\<not> \<not> mine2"
    then obtain k2 where k2: "mx_heap m2 q = Some k2" "nd_requester k2 = r" by (auto simp: rq)
    have nd: "\<exists>n'. mx_heap m2 p = Some n' \<and> nd_requester n' = r"
    proof -
      have "p < mx_next m1" using n(1) keeps_ok [OF n1(1)] node_wf(2) [of m1 p n] by (simp add: mixer_ok_def)
      moreover have "faces m2 p \<noteq> None"
      proof -
        have "smap_get (mx_nodes m2) (mg_node1 g) = Some p" using n2(5) n1(3,4) by blast
        from registered_alive [OF keeps_ok [OF n2(1)] this n1(4)] show ?thesis by (auto simp: faces_def)
      qed
      ultimately have "faces m2 p = faces m1 p" using n2(1) by (auto simp: keeps_def evolves_def)
      then show ?thesis using n by (auto simp: faces_def face_of_def)
    qed
    then obtain n' where n': "mx_heap m2 p = Some n'" "nd_requester n' = r" by blast
    show "all_val (settles r False (Some (mg_direction g)) (g, m)) (link_nodes p q (g, m2))"
    proof (rule all_valI)
      fix z
      assume z: "link_nodes p q (g, m2) = Val z"
      have z': "link_nodes p q (g, m2) = Val (fst z, snd z)" using z by simp
      note ok2 = keeps_ok [OF n2(1)]
      have d: "0 \<le> mg_direction g" "mg_direction g \<le> 3" using assms by (auto simp: state_ok_def msg_ok_def)
      note kk = link_nodes_keeps [OF z' ok2 n1(4) n2(4) n'(1) k2(1) n'(2) k2(2) d]
      have w: "nodes_wf m2" "graph_ok (faces m2) (link m2)" using ok2 by (auto simp: mixer_ok_def)
      note e = link_nodes_sets [OF z' w n1(4) n2(4) faces_Some [of m2, OF n'(1)] faces_Some [of m2, OF k2(1)]]
      have t: "told g z" using link_nodes_told [of "(g, m2)" p q] z by (simp add: all_val_def)
      have "smap_get (mx_nodes m2) (mg_node1 g) = Some p" using n2(5) n1(3,4) by blast
      then have "carried False (Some (mg_direction g)) (g, m) z"
        using e l n2(3) by (auto simp: carried_def sets_link_def touches_def Let_def)
      then show "settles r False (Some (mg_direction g)) (g, m) z"
        using keeps_trans [OF k kk] t by (simp add: settles_def)
    qed
  qed
qed

lemma nodes_index_get:
  assumes "nodes_index con m = (p, m1)" and "mixer_ok m" and "smap_get (mx_nodes m) cp = Some x"
  shows "smap_get (mx_nodes m1) cp = Some x"
proof -
  have "mx_nodes m1 = snd (smap_index NULL con (mx_nodes m))"
    using assms(1) by (auto simp: nodes_index_def case_prod_beta simp del: smap_index_value)
  then show ?thesis using assms(2,3) by (auto simp: mixer_ok_def registry_ok_def)
qed

lemma with_nodes_settles:
  assumes "state_ok r (g, m)" and dir: "\<And>x. d = Some x \<Longrightarrow> 0 \<le> x \<and> x \<le> 3"
    and f: "\<And>p q m2. nodes_wf m2 \<Longrightarrow> graph_ok (faces m2) (link m2) \<Longrightarrow> p \<noteq> NULL \<Longrightarrow> q \<noteq> NULL \<Longrightarrow>
      all_val (\<lambda>x. told g x \<and> sets_link p q d m2 (snd (fst x)) (snd x) \<and> (snd x \<longrightarrow> link m2 p q \<noteq> None)) (f p q (g, m2))"
  shows "all_val (settles r True d (g, m)) (with_nodes f (g, m))"
  unfolding with_nodes_def Let_def fst_conv snd_conv
proof (rule all_val_prod, rule all_val_if)
  have rq: "mg_requester g = r" and ok: "mixer_ok m" using assms(1) by (auto simp: state_ok_def msg_ok_def)
  fix p m1
  assume i: "nodes_index (mg_node1 g) m = (p, m1)"
  note n1 = nodes_index_ok [OF i ok]
  show "all_val (settles r True d (g, m)) (Val (fail 426 id1_error (g, m1), False))"
    using settles_refused [OF n1(1,4), of "fail 426 id1_error (g, m1)" g] by simp
  assume p: "p \<noteq> NULL"
  from n1(6) [OF p] have gp: "smap_get (mx_nodes m1) (mg_node1 g) = Some p" using nodes_index_get [OF i ok] by blast
  show "all_val (settles r True d (g, m)) (cpp_bind (checkSender p (mg_requester g) m1) (\<lambda>mine1.
       if \<not> mine1 then Val (forbid (g, m1), False)
       else case nodes_index (mg_node2 g) m1 of (q, m2) \<Rightarrow>
         if q = NULL then Val (fail 426 id2_error (g, m2), False)
         else cpp_bind (checkSender q (mg_requester g) m2) (\<lambda>mine2.
           if \<not> mine2 then Val (forbid (g, m2), False) else f p q (g, m2))))"
  proof (rule all_val_bind [OF checkSender_all], rule all_val_if)
    fix mine1
    show "all_val (settles r True d (g, m)) (Val (forbid (g, m1), False))"
      using settles_refused [OF n1(1,4), of "forbid (g, m1)" g] by simp
    assume "\<exists>n. mx_heap m1 p = Some n \<and> mine1 = (nd_requester n = mg_requester g)" and "\<not> \<not> mine1"
    then obtain n where n: "mx_heap m1 p = Some n" "nd_requester n = r" by (auto simp: rq)
    show "all_val (settles r True d (g, m)) (case nodes_index (mg_node2 g) m1 of (q, m2) \<Rightarrow>
         if q = NULL then Val (fail 426 id2_error (g, m2), False)
         else cpp_bind (checkSender q (mg_requester g) m2) (\<lambda>mine2.
           if \<not> mine2 then Val (forbid (g, m2), False) else f p q (g, m2)))"
    proof (rule all_val_prod, rule all_val_if)
      fix q m2
      assume i2: "nodes_index (mg_node2 g) m1 = (q, m2)"
      note n2 = nodes_index_ok [OF i2 keeps_ok [OF n1(1)]]
      have k: "keeps r m m2" and l: "link m2 = link m" using keeps_trans [OF n1(1) n2(1)] n1(4) n2(4) by auto
      show "all_val (settles r True d (g, m)) (Val (fail 426 id2_error (g, m2), False))"
        using settles_refused [OF k l, of "fail 426 id2_error (g, m2)" g] by simp
      assume q: "q \<noteq> NULL"
      show "all_val (settles r True d (g, m)) (cpp_bind (checkSender q (mg_requester g) m2) (\<lambda>mine2.
           if \<not> mine2 then Val (forbid (g, m2), False) else f p q (g, m2)))"
      proof (rule all_val_bind [OF checkSender_all], rule all_val_if)
        fix mine2
        show "all_val (settles r True d (g, m)) (Val (forbid (g, m2), False))"
          using settles_refused [OF k l, of "forbid (g, m2)" g] by simp
        assume "\<exists>n. mx_heap m2 q = Some n \<and> mine2 = (nd_requester n = mg_requester g)" and "\<not> \<not> mine2"
        then obtain k2 where k2: "mx_heap m2 q = Some k2" "nd_requester k2 = r" by (auto simp: rq)
        have np: "mx_heap m2 p = Some n" using n n2(2) by simp
        have g: "smap_get (mx_nodes m2) (mg_node1 g) = Some p" "smap_get (mx_nodes m2) (mg_node2 g) = Some q"
          using nodes_index_get [OF i2 keeps_ok [OF n1(1)]] gp n2(6) [OF q] by blast+
        have w: "nodes_wf m2" "graph_ok (faces m2) (link m2)" using keeps_ok [OF k] by (auto simp: mixer_ok_def)
        show "all_val (settles r True d (g, m)) (f p q (g, m2))"
        proof (rule all_val_mono [OF f [OF w p q]])
          fix x
          assume x: "told g x \<and> sets_link p q d m2 (snd (fst x)) (snd x) \<and> (snd x \<longrightarrow> link m2 p q \<noteq> None)"
          have "keeps r m2 (snd (fst x))"
            by (rule change_keeps [OF _ _ keeps_ok [OF k] np k2(1) n(2) k2(2) dir]) (use x in auto)
          then show "settles r True d (g, m) x"
            using keeps_trans [OF k] x g l by (auto simp: settles_def carried_def sets_link_def touches_def Let_def)
        qed
      qed
    qed
  qed
qed

lemma modify_settles:
  assumes "state_ok r (g, m)"
  shows "all_val (settles r True (Some (mg_direction g)) (g, m)) (with_nodes modify_nodes (g, m))"
proof (rule with_nodes_settles [OF assms])
  fix p q m2
  assume w: "nodes_wf m2" "graph_ok (faces m2) (link m2)" "p \<noteq> NULL" "q \<noteq> NULL"
  show "all_val (\<lambda>x. told g x \<and> sets_link p q (Some (mg_direction g)) m2 (snd (fst x)) (snd x) \<and>
      (snd x \<longrightarrow> link m2 p q \<noteq> None)) (modify_nodes p q (g, m2))"
    using modify_nodes_told [of "(g, m2)" p q] modify_nodes_sets [OF _ w] by (auto simp: all_val_def)
qed (use assms in \<open>auto simp: state_ok_def msg_ok_def\<close>)

lemma unjoin_settles:
  assumes "state_ok r (g, m)"
  shows "all_val (settles r True None (g, m)) (with_nodes unjoin_nodes (g, m))"
proof (rule with_nodes_settles [OF assms])
  fix p q m2
  assume w: "nodes_wf m2" "graph_ok (faces m2) (link m2)" "p \<noteq> NULL" "q \<noteq> NULL"
  show "all_val (\<lambda>x. told g x \<and> sets_link p q None m2 (snd (fst x)) (snd x) \<and>
      (snd x \<longrightarrow> link m2 p q \<noteq> None)) (unjoin_nodes p q (g, m2))"
    using unjoin_nodes_told [of "(g, m2)" p q] unjoin_nodes_sets [OF _ w] by (auto simp: all_val_def)
qed simp

text \<open>The whole request: the outcome that the answer tells.\<close>

definition outcome :: "bool \<Rightarrow> int option \<Rightarrow> mstate \<Rightarrow> mstate \<Rightarrow> bool" where
  "outcome was d s s' \<longleftrightarrow> (let g = fst s'; m = snd s; m' = snd s' in
     (mg_stop g \<and> link m' = link m) \<or>
     (\<not> mg_stop g \<and> mg_node1 g = NULL \<and> mg_node2 g = NULL \<and> link m' = link m) \<or>
     (\<not> mg_stop g \<and> (\<exists>p q. smap_get (mx_nodes m') (mg_node1 g) = Some p \<and> smap_get (mx_nodes m') (mg_node2 g) = Some q \<and>
        (link m p q \<noteq> None) = was \<and> link m' = both p q d (link m))))"

lemma outcome_cong:
  "outcome was d s1 s' \<Longrightarrow> link (snd s1) = link (snd s) \<Longrightarrow> mg_stop (fst s') \<or> d' = d \<Longrightarrow> outcome was d' s s'"
  by (auto simp: outcome_def Let_def)

lemma link_same_heap: "mx_heap m' = mx_heap m \<Longrightarrow> link m' = link m"
  by (rule same_heap(1))

definition ended :: "ptr \<Rightarrow> bool \<Rightarrow> int option \<Rightarrow> mstate \<Rightarrow> mstate \<times> bool \<Rightarrow> bool" where
  "ended r was d s x \<longleftrightarrow> advance r s (fst x) \<and> (mg_stop (fst (fst x)) \<or> fst (fst x) = fst s) \<and>
     (if mg_stop (fst (fst x)) \<or> \<not> snd x then link (snd (fst x)) = link (snd s) else outcome was d s (fst x))"

lemma ended_settles:
  assumes "settles r was d s x" and "state_ok r s" and "\<not> mg_stop (fst s)"
  shows "ended r was d s x"
proof -
  have k: "keeps r (snd s) (snd (fst x))" and t: "told (fst s) x" and ca: "carried was d s x"
    using assms(1) by (auto simp: settles_def)
  have "advance r s (fst s, snd s)" using advance_refl [OF assms(2)] by simp
  from advance_keeps [OF this k] have "advance r s (fst s, snd (fst x))" .
  from advance_msgs [OF this, of "fst (fst x)"] have "advance r s (fst x)" using told_same [OF t] by simp
  then show ?thesis
    using t ca assms(3) by (auto simp: ended_def told_def carried_def outcome_def Let_def split: if_splits)
qed

lemma ended_on_nodes:
  assumes "all_val (settles r was d s) (f s)" and "state_ok r s" and "\<not> mg_stop (fst s)"
  shows "all_val (ended r was d s) (on_nodes f s)"
  unfolding on_nodes_def
proof (intro all_val_if)
  show "all_val (ended r was d s) (f s)"
    using assms(1) ended_settles [OF _ assms(2,3)] by (rule all_val_mono)
qed (use advance_refl [OF assms(2)] assms(3) in \<open>simp_all add: ended_def outcome_def Let_def\<close>)

lemma concluded:
  assumes x: "ended r was d s x"
    and after: "\<And>g m. mx_heap (after g m) = mx_heap m \<and> mx_nodes (after g m) = mx_nodes m \<and>
      mx_confs (after g m) = mx_confs m \<and> mx_next (after g m) = mx_next m"
  shows "advance r s (conclude a b after x) \<and> outcome was d s (conclude a b after x) \<and>
    (\<not> mg_stop (fst (conclude a b after x)) \<longrightarrow> fst (conclude a b after x) = fst s)"
proof -
  obtain g1 m1 ok1 where e: "x = ((g1, m1), ok1)" by (metis surj_pair)
  have ad: "advance r s (g1, m1)" using x by (simp add: ended_def e)
  consider (stop) "mg_stop g1" | (none) "\<not> mg_stop g1" "\<not> ok1" | (yes) "\<not> mg_stop g1" "ok1" by blast
  then show ?thesis
  proof cases
    case stop
    then show ?thesis using x by (simp add: e conclude_def ended_def outcome_def)
  next
    case none
    have "link (snd (fail 411 a (g1, m1))) = link m1" by (rule link_same_heap) simp
    then show ?thesis using none x advance_fail [OF ad] by (simp add: e conclude_def ended_def outcome_def)
  next
    case yes
    let ?s = "succeed b None (g1, after g1 m1)"
    have h: "mx_heap (snd ?s) = mx_heap m1" "mx_nodes (snd ?s) = mx_nodes m1" "mx_confs (snd ?s) = mx_confs m1"
        "mx_next (snd ?s) = mx_next m1" "fst ?s = g1"
      using after by (simp_all add: succeed_def)
    have "advance r (g1, m1) ?s"
      by (rule advance_quiet) (use ad h in \<open>auto simp: same_msg_def advance_def\<close>)
    then have "advance r s ?s" by (rule advance_trans [OF ad])
    moreover have "outcome was d s (g1, m1)" and "g1 = fst s" using x yes by (auto simp: e ended_def)
    then have "outcome was d s ?s" "fst ?s = fst s"
      using link_same_heap [OF h(1)] h by (simp_all add: outcome_def Let_def)
    ultimately show ?thesis using yes by (simp add: e conclude_def)
  qed
qed

text \<open>Reading the message leaves the nodes alone.\<close>

abbreviation (input) same_nodes :: "mstate \<Rightarrow> mstate \<Rightarrow> bool" where
  "same_nodes s s' \<equiv> mx_heap (snd s') = mx_heap (snd s)"

lemma own_conference_nodes: "all_val (\<lambda>x. same_nodes s (fst x)) (own_conference con s)"
  unfolding own_conference_def Let_def
  by (intro all_val_any all_val_if all_val_prod) (auto simp: nodes_index_def case_prod_beta)

lemma parse_whole_nodes: "all_val (same_nodes s) (parse_whole s)"
  unfolding parse_whole_def Let_def by (intro all_val_any all_val_option) simp_all

lemma check_label_nodes: "all_val (\<lambda>x. same_nodes s (fst x)) (check_label st s)"
  unfolding check_label_def Let_def by (intro all_val_any all_val_if) (simp_all add: label_medium_def)

lemma parse_stream_nodes: "all_val (\<lambda>x. same_nodes s (fst x)) (parse_stream st s)"
  unfolding parse_stream_def
proof (rule all_val_bind [OF check_label_nodes], rule all_val_prod, intro all_val_if all_val_any)
  fix x s1 returned a1
  assume "same_nodes s (fst x)" "x = (s1, returned)"
  then have e: "mx_heap (snd s1) = mx_heap (snd s)" by simp
  then show "all_val (\<lambda>x. same_nodes s (fst x)) (Val (s1, True))" "all_val (\<lambda>x. same_nodes s (fst x)) (Val (s1, False))"
    "all_val (\<lambda>x. same_nodes s (fst x)) (Val (no_media (mg_id1 (fst s1)) st s1, True))"
    by (simp_all add: no_media_def)
  show "all_val (\<lambda>x. same_nodes s (fst x)) (case (if st_mediaType st = MEDIACTRL_MEDIA_AUDIO
                    then take_direction st ((fst s1)\<lparr>mg_node1 := a1\<rparr>) else Inr (fst s1)) of
           Inl conflict \<Rightarrow> Val (fail 422 conflict ((fst s1)\<lparr>mg_node1 := a1\<rparr>, snd s1), True)
         | Inr g \<Rightarrow>
             cpp_bind (stream_node (mg_con2 g) st (snd s1)) (\<lambda>a2.
               if a2 = NULL then Val (no_media (mg_id2 g) st (g, snd s1), True)
               else Val (if st_mediaType st = MEDIACTRL_MEDIA_AUDIO then (g\<lparr>mg_node2 := a2\<rparr>, snd s1)
                         else (g, snd s1), False)))"
    using e by (auto intro!: all_val_any simp: no_media_def split: sum.split)
qed

lemma parse_each_nodes: "all_val (same_nodes s) (parse_each sts s)"
proof (induction sts arbitrary: s)
  case (Cons st sts)
  show ?case
    unfolding parse_each.simps
  proof (rule all_val_bind [OF parse_stream_nodes], rule all_val_prod, rule all_val_if)
    fix x s1 returned
    assume x: "same_nodes s (fst x)" "x = (s1, returned)"
    then show "all_val (same_nodes s) (Val s1)" by simp
    show "all_val (same_nodes s) (parse_each sts s1)" using Cons.IH [of s1] x by simp
  qed
qed simp

lemma parseStreams_nodes: "all_val (same_nodes s) (parseStreams bx s)"
  unfolding parseStreams_def Let_def
proof (rule all_val_bind2 [OF all_valI [where P = "\<lambda>(m', c). mx_heap m' = mx_heap (snd s)"]],
    use mx_getConnection_same in fastforce,
    rule all_val_bind2 [OF all_valI [where P = "\<lambda>(m', c). mx_heap m' = mx_heap (snd s)"]],
    use mx_getConnection_same in fastforce)
  fix m2 :: mixer and con1 con2
  assume e: "mx_heap m2 = mx_heap (snd s)"
  let ?s = "((fst s)\<lparr>mg_con1 := con1, mg_con2 := con2, mg_direction := SENDRECV, mg_node1 := NULL,
                  mg_node2 := NULL, mg_volume1 := VOLUME_NONE, mg_volume2 := VOLUME_NONE\<rparr>, m2)"
  show "all_val (same_nodes s) (cpp_bind (own_conference con1 ?s) (\<lambda>(s1, returned1).
         if returned1 then Val s1
         else cpp_bind (own_conference con2 s1) (\<lambda>(s2, returned2).
           if returned2 then Val s2
           else if mg_streams (fst s2) = [] then parse_whole s2
           else parse_each (mg_streams (fst s2)) s2)))"
  proof (rule all_val_bind [OF own_conference_nodes], rule all_val_prod, rule all_val_if)
    fix x :: "mstate \<times> bool" and s1 returned1
    assume "same_nodes ?s (fst x)" and "x = (s1, returned1)"
    then have e1: "mx_heap (snd s1) = mx_heap (snd s)" using e by simp
    then show "all_val (same_nodes s) (Val s1)" by simp
    show "all_val (same_nodes s) (cpp_bind (own_conference con2 s1) (\<lambda>(s2, returned2).
           if returned2 then Val s2
           else if mg_streams (fst s2) = [] then parse_whole s2
           else parse_each (mg_streams (fst s2)) s2))"
    proof (rule all_val_bind [OF own_conference_nodes], rule all_val_prod)
      fix x :: "mstate \<times> bool" and s2 returned2
      assume "same_nodes s1 (fst x)" and "x = (s2, returned2)"
      then have e2: "mx_heap (snd s2) = mx_heap (snd s)" using e1 by simp
      show "all_val (same_nodes s) (if returned2 then Val s2
           else if mg_streams (fst s2) = [] then parse_whole s2
           else parse_each (mg_streams (fst s2)) s2)"
        using e2 parse_whole_nodes [of s2] parse_each_nodes [of s2] by simp
    qed
  qed
qed

lemma do_request_outcome:
  assumes ok: "state_ok r s" and nodes: "\<And>g m. state_ok r (g, m) \<Longrightarrow> all_val (settles r was (d g) (g, m)) (f (g, m))"
    and after: "\<And>g m. mx_heap (after g m) = mx_heap m \<and> mx_nodes (after g m) = mx_nodes m \<and>
      mx_confs (after g m) = mx_confs m \<and> mx_next (after g m) = mx_next m"
  shows "all_val (\<lambda>s'. advance r s s' \<and> outcome was (d (fst s')) s s')
     (cpp_bind (parseStreams bx s) (\<lambda>s1. if mg_stop (fst s1) then Val s1
        else cpp_bind (on_nodes f s1) (\<lambda>x. Val (conclude a b after x))))"
proof (rule all_val_bind)
  show "all_val (\<lambda>s1. advance r s s1 \<and> same_nodes s s1) (parseStreams bx s)"
    using parseStreams_advance [OF ok, of bx] parseStreams_nodes [of s bx] by (simp add: all_val_def)
next
  fix s1
  assume s1: "advance r s s1 \<and> same_nodes s s1"
  then have l: "link (snd s1) = link (snd s)" using link_same_heap by blast
  show "all_val (\<lambda>s'. advance r s s' \<and> outcome was (d (fst s')) s s') (if mg_stop (fst s1) then Val s1
        else cpp_bind (on_nodes f s1) (\<lambda>x. Val (conclude a b after x)))"
  proof (rule all_val_if)
    assume "mg_stop (fst s1)"
    then show "all_val (\<lambda>s'. advance r s s' \<and> outcome was (d (fst s')) s s') (Val s1)"
      using s1 l by (simp add: outcome_def)
  next
    assume st: "\<not> mg_stop (fst s1)"
    have ok1: "state_ok r s1" using s1 advance_ok by blast
    then have f: "all_val (settles r was (d (fst s1)) s1) (f s1)" using nodes [of "fst s1" "snd s1"] by simp
    show "all_val (\<lambda>s'. advance r s s' \<and> outcome was (d (fst s')) s s')
       (cpp_bind (on_nodes f s1) (\<lambda>x. Val (conclude a b after x)))"
    proof (rule all_val_bind [OF ended_on_nodes [of r was _ s1 f, OF f ok1 st]])
      fix x
      assume "ended r was (d (fst s1)) s1 x"
      note c = concluded [where after = after and a = a and b = b, OF this after]
      have "advance r s (conclude a b after x)" by (rule advance_trans [OF conjunct1 [OF s1] conjunct1 [OF c]])
      moreover have "outcome was (d (fst (conclude a b after x))) s (conclude a b after x)"
      proof (rule outcome_cong [OF conjunct1 [OF conjunct2 [OF c]] l])
        show "mg_stop (fst (conclude a b after x)) \<or> d (fst (conclude a b after x)) = d (fst s1)" using conjunct2 [OF conjunct2 [OF c]] by auto
      qed
      ultimately show "all_val (\<lambda>s'. advance r s s' \<and> outcome was (d (fst s')) s s') (Val (conclude a b after x))"
        by simp
    qed
  qed
qed

lemma do_join_outcome:
  assumes "state_ok r s"
  shows "all_val (\<lambda>s'. advance r s s' \<and> outcome False (Some (mg_direction (fst s'))) s s') (do_join bx s)"
  unfolding do_join_def
  by (rule do_request_outcome [where d = "\<lambda>g. Some (mg_direction g)", OF assms join_nodes_settles])
    (simp_all add: remember_join_def)

lemma do_modifyjoin_outcome:
  assumes "state_ok r s"
  shows "all_val (\<lambda>s'. advance r s s' \<and> outcome True (Some (mg_direction (fst s'))) s s') (do_modifyjoin bx s)"
  unfolding do_modifyjoin_def
  by (rule do_request_outcome [where d = "\<lambda>g. Some (mg_direction g)", OF assms modify_settles]) simp_all

lemma do_unjoin_outcome:
  assumes "state_ok r s"
  shows "all_val (\<lambda>s'. advance r s s' \<and> outcome True None s s') (do_unjoin bx s)"
  unfolding do_unjoin_def
  by (rule do_request_outcome [where d = "\<lambda>g. None", OF assms unjoin_settles]) simp_all

subsection \<open>The end of a request\<close>

lemma do_audit_advance:
  assumes "state_ok r s"
  shows "all_val (advance r s) (do_audit s)"
  unfolding do_audit_def Let_def
proof (rule all_val_any)
  fix x :: "string option"
  show "all_val (advance r s) (case x of None \<Rightarrow> Val (forbid s)
        | Some t \<Rightarrow> Val (reply 200 10 (mscmixer (''<auditresponse status='' @ quoted ''200'' @ ''>'' @
            (if mg_auditCapabilities (fst s) then audit_codecs else '''') @ t @ ''</auditresponse>'')) s))"
    using forbid_advance [OF assms] reply_advance [OF assms] by (cases x) simp_all
qed

lemma conf_destroy_keeps:
  assumes "mixer_ok m" and "mx_heap m p = Some n" "nd_conf n" "nd_requester n = r"
  shows "all_val (\<lambda>m'. keeps r m m' \<and> mx_heap m' p = None) (conf_destroy p m)"
  using conf_destroy_ok [OF _ assms(1-3)] assms(4) by (auto simp: all_val_def keeps_def)

lemma finish_create_advance:
  assumes "state_ok r s" and "\<not> mg_stop (fst s)"
  shows "all_val (\<lambda>s'. advance r s s' \<and> (mg_stop (fst s') \<longrightarrow> mx_heap (snd s') (mg_conf (fst s')) = None)) (finish_create s)"
  unfolding finish_create_def Let_def
proof (rule all_val_if)
  show "all_val (\<lambda>s'. advance r s s' \<and> (mg_stop (fst s') \<longrightarrow> mx_heap (snd s') (mg_conf (fst s')) = None)) (Val s)"
    using advance_refl [OF assms(1)] assms(2) by simp
  show "all_val (\<lambda>s'. advance r s s' \<and> (mg_stop (fst s') \<longrightarrow> mx_heap (snd s') (mg_conf (fst s')) = None))
     (cpp_bind (deref (mx_heap (snd s)) (mg_conf (fst s))) (\<lambda>n.
        if nd_mixingtype n = MIXING_NONE then
          cpp_bind (conf_destroy (mg_conf (fst s)) (snd (fail 421 ''audio-mixing'' s))) (\<lambda>m1. Val (fst (fail 421 ''audio-mixing'' s), m1))
        else cpp_bind (conf_start (mg_conf (fst s)) (snd s)) (\<lambda>m1.
          Val (succeed ''Conference created'' (Some (nd_Id n)) (fst s, m1)))))"
  proof (rule all_val_deref, rule all_val_if)
    fix n
    assume n: "mx_heap (snd s) (mg_conf (fst s)) = Some n"
    then have nn: "nd_conf n" "nd_requester n = r" using named_conference [of r "fst s" "snd s" n] assms by simp_all
    let ?s = "fail 421 ''audio-mixing'' s"
    have a: "advance r s ?s" by (rule fail_advance [OF assms(1)])
    have h: "mx_heap (snd ?s) (mg_conf (fst s)) = Some n" using n by simp
    show "all_val (\<lambda>s'. advance r s s' \<and> (mg_stop (fst s') \<longrightarrow> mx_heap (snd s') (mg_conf (fst s')) = None))
      (cpp_bind (conf_destroy (mg_conf (fst s)) (snd ?s)) (\<lambda>m1. Val (fst ?s, m1)))"
    proof (rule all_val_bind [OF conf_destroy_keeps [OF advance_mixer_ok [OF a] h nn]])
      fix m1
      assume "keeps r (snd ?s) m1 \<and> mx_heap m1 (mg_conf (fst s)) = None"
      moreover have "advance r s (fst ?s, snd ?s)" unfolding prod.collapse by (rule a)
      ultimately have "advance r s (fst ?s, m1) \<and> mx_heap m1 (mg_conf (fst s)) = None" using advance_keeps by blast
      then show "all_val (\<lambda>s'. advance r s s' \<and> (mg_stop (fst s') \<longrightarrow> mx_heap (snd s') (mg_conf (fst s')) = None)) (Val (fst ?s, m1))"
        by simp
    qed
    have "all_val (\<lambda>m'. advance r s (fst s, m')) (conf_start (mg_conf (fst s)) (snd s))"
      unfolding conf_start_def by (rule own_conf_change [OF assms]) (simp_all add: face_of_def sound_ok_def)
    then show "all_val (\<lambda>s'. advance r s s' \<and> (mg_stop (fst s') \<longrightarrow> mx_heap (snd s') (mg_conf (fst s')) = None))
      (cpp_bind (conf_start (mg_conf (fst s)) (snd s)) (\<lambda>m1. Val (succeed ''Conference created'' (Some (nd_Id n)) (fst s, m1))))"
      by (rule all_val_bind) (use advance_succeed assms(2) in \<open>auto simp: succeed_def\<close>)
  qed
qed

lemma finish_request_advance:
  assumes "state_ok r s" and "\<not> mg_stop (fst s)"
  shows "all_val (advance r s) (finish_request bx s)"
  unfolding finish_request_def Let_def
proof (rule all_val_if [OF do_audit_advance [OF assms(1)]], rule all_val_bind [OF finish_create_advance [OF assms]])
  fix s1
  assume s1: "advance r s s1 \<and> (mg_stop (fst s1) \<longrightarrow> mx_heap (snd s1) (mg_conf (fst s1)) = None)"
  then have a: "advance r s s1" by blast
  note ok = advance_ok [OF a]
  have su: "advance r s (succeed t c s1)" for t c by (rule advance_succeed [OF a])
  have j: "all_val (advance r s) (do_join bx s1)" "all_val (advance r s) (do_modifyjoin bx s1)" "all_val (advance r s) (do_unjoin bx s1)"
    using do_join_outcome [OF ok] do_modifyjoin_outcome [OF ok] do_unjoin_outcome [OF ok] advance_trans [OF a]
    by (auto simp: all_val_def)
  have dst: "all_val (advance r s) (cpp_bind (deref (mx_heap (snd s1)) (mg_conf (fst s1))) (\<lambda>n.
          cpp_bind (conf_destroy (mg_conf (fst s1)) (snd s1)) (\<lambda>m1.
            Val (succeed ''Conference removed'' (Some (nd_Id n)) (fst s1, m1)))))"
  proof (rule all_val_deref)
    fix n
    assume n: "mx_heap (snd s1) (mg_conf (fst s1)) = Some n"
    then have "\<not> mg_stop (fst s1)" using s1 by auto
    then have nn: "nd_conf n" "nd_requester n = r" using named_conference [of r "fst s1" "snd s1" n] ok n by simp_all
    show "all_val (advance r s) (cpp_bind (conf_destroy (mg_conf (fst s1)) (snd s1)) (\<lambda>m1.
            Val (succeed ''Conference removed'' (Some (nd_Id n)) (fst s1, m1))))"
    proof (rule all_val_bind [OF conf_destroy_keeps [OF advance_mixer_ok [OF a] n nn]])
      fix m1
      assume "keeps r (snd s1) m1 \<and> mx_heap m1 (mg_conf (fst s1)) = None"
      moreover have "advance r s (fst s1, snd s1)" using a by simp
      ultimately have "advance r s (fst s1, m1)" using advance_keeps by blast
      then show "all_val (advance r s) (Val (succeed ''Conference removed'' (Some (nd_Id n)) (fst s1, m1)))"
        using advance_succeed by simp
    qed
  qed
  show "all_val (advance r s) (if mg_request (fst s1) = ''modifyconference'' then
          cpp_bind (deref (mx_heap (snd s1)) (mg_conf (fst s1))) (\<lambda>n.
            Val (succeed ''Conference modified'' (Some (nd_Id n)) s1))
        else if mg_request (fst s1) = ''destroyconference'' then
          cpp_bind (deref (mx_heap (snd s1)) (mg_conf (fst s1))) (\<lambda>n.
          cpp_bind (conf_destroy (mg_conf (fst s1)) (snd s1)) (\<lambda>m1.
            Val (succeed ''Conference removed'' (Some (nd_Id n)) (fst s1, m1))))
        else if mg_request (fst s1) = ''join'' then do_join bx s1
        else if mg_request (fst s1) = ''modifyjoin'' then do_modifyjoin bx s1
        else if mg_request (fst s1) = ''unjoin'' then do_unjoin bx s1
        else Val s1)"
    by (intro all_val_if dst j all_val_any) (simp_all (no_asm) only: all_val_simps su a)
qed

lemma endElement_advance:
  assumes "state_ok r s"
  shows "all_val (advance r s) (mx_endElement env s)"
proof (cases "mg_stop (fst s)")
  case False
  let ?s = "((fst s)\<lparr>mg_level := mg_level (fst s) - 1, mg_childs := butlast (mg_childs (fst s))\<rparr>, snd s)"
  have a: "advance r s ?s" by (rule advance_msg [OF assms]) (simp add: same_msg_def)
  have "all_val (advance r s) (finish_request (me_bx env) ?s)"
    by (rule all_val_mono [OF finish_request_advance [OF advance_ok [OF a]] advance_trans [OF a]]) (use False in simp)
  then show ?thesis
    unfolding mx_endElement_def Let_def if_not_P [OF False]
    by (intro all_val_if) (simp_all (no_asm_simp) only: all_val_simps a)
qed (use advance_refl [OF assms] in \<open>simp add: mx_endElement_def\<close>)

lemma handle_advance:
  assumes "state_ok r s"
  shows "all_val (advance r s) (mx_handle env e s)"
  using startElement_advance [OF assms] endElement_advance [OF assms] advance_refl [OF assms]
  by (cases e) simp_all

lemma parse_advance: "state_ok r s \<Longrightarrow> all_val (advance r s) (mx_parse env es s)"
proof (induction es arbitrary: s)
  case (Cons e es)
  show ?case
    unfolding mx_parse.simps
  proof (rule all_val_bind [OF handle_advance [OF Cons.prems]])
    fix s1
    assume a: "advance r s s1"
    show "all_val (advance r s) (mx_parse env es s1)"
      by (rule all_val_mono [OF Cons.IH [OF advance_ok [OF a]] advance_trans [OF a]])
  qed
qed (simp add: advance_refl)

lemma newMessage_ok: "mixer_ok m \<Longrightarrow> state_ok r (newMixerMessage r tid, m)"
  by (simp add: state_ok_def msg_ok_def newMixerMessage_def)

lemma control_keeps:
  assumes "mixer_ok m"
  shows "all_val (keeps r m) (mixer_control env r tid blob doc m)"
proof -
  note ok = newMessage_ok [OF assms, of r tid]
  have f: "keeps r m (snd (fail c b (newMixerMessage r tid, m)))" for c b
    using fail_advance [OF ok] by (simp add: advance_def state_ok_def keeps_def)
  have "all_val (keeps r m) (cpp_bind (mx_parse env (events x) (newMixerMessage r tid, m)) (\<lambda>s1. Val (snd s1)))" for x
    by (rule all_val_bind [OF parse_advance [OF ok]]) (simp add: advance_def state_ok_def keeps_def)
  then show ?thesis using f by (simp add: mixer_control_def Let_def split: option.split)
qed

end
