(* ===== verification/MixerHistory.thy ===== *)
theory MixerHistory
  imports MixerRequests
begin

text \<open>
  Histories of the mixer of \<open>src/packages/MixerPackage.cxx\<close>: frames, rounds of the conferences' threads and
  ends of connections keep what \<open>MixerRequests\<close> shows of requests, and so does any sequence of them.
\<close>

subsection \<open>Sound\<close>

text \<open>Frames change neither what identifies a node nor its links.\<close>

definition calm :: "mixer \<Rightarrow> mixer \<Rightarrow> bool" where
  "calm m m' \<longleftrightarrow> mixer_ok m' \<and> faces m' = faces m \<and> link m' = link m \<and> mx_next m' = mx_next m"

lemma calm_refl: "mixer_ok m \<Longrightarrow> calm m m"
  by (simp add: calm_def)

lemma calm_trans: "calm a b \<Longrightarrow> calm b c \<Longrightarrow> calm a c"
  by (simp add: calm_def)

lemma calm_ok: "calm m m' \<Longrightarrow> mixer_ok m'"
  by (simp add: calm_def)

lemma calm_same:
  "mixer_ok m \<Longrightarrow> mx_heap m' = mx_heap m \<Longrightarrow> mx_nodes m' = mx_nodes m \<Longrightarrow> mx_confs m' = mx_confs m \<Longrightarrow>
     mx_next m' = mx_next m \<Longrightarrow> calm m m'"
  using same_mixer(1) [of m' m] same_heap [of m' m] by (simp add: calm_def)

lemma calm_putNode:
  "mixer_ok m \<Longrightarrow> mx_heap m p = Some n \<Longrightarrow> face_of n' = face_of n \<Longrightarrow> nd_nodes n' = nd_nodes n \<Longrightarrow>
     (sound_ok n \<Longrightarrow> sound_ok n') \<Longrightarrow> nd_receiving n' = nd_receiving n \<Longrightarrow> calm m (putNode p n' m)"
  using putNode_keeps [of m p n n'] by (simp add: calm_def)

lemma enqueue_ok: "smap_ok m \<Longrightarrow> smap_ok (enqueue k x m)"
  by (auto simp: enqueue_def case_prod_beta simp del: smap_index_value)

lemma raw_of_calm: "mixer_ok m \<Longrightarrow> all_val (\<lambda>x. calm m (snd x)) (raw_of tod f m)"
  unfolding raw_of_def
  by (intro all_val_if all_val_any2) (simp_all add: calm_same)

lemma conf_feedFrame_calm:
  assumes "mixer_ok m"
  shows "all_val (calm m) (conf_feedFrame tod p sender f m)"
  unfolding conf_feedFrame_def
proof (rule all_val_bind [OF raw_of_calm [OF assms]], rule all_val_prod, rule all_val_option)
  fix x :: "frame option \<times> mixer" and a m1 raw
  assume "calm m (snd x)" and "x = (a, m1)"
  then have c: "calm m m1" by simp
  then show "all_val (calm m) (Val m1)" by simp
  show "all_val (calm m) (cpp_bind (deref (mx_heap m1) p) (\<lambda>n.
         Val (putNode p (n\<lparr>nd_queued := enqueue sender raw (nd_queued n)\<rparr>) m1)))"
  proof (rule all_val_deref)
    fix n
    assume "mx_heap m1 p = Some n"
    then have "calm m1 (putNode p (n\<lparr>nd_queued := enqueue sender raw (nd_queued n)\<rparr>) m1)"
      by (rule calm_putNode [OF calm_ok [OF c]]) (simp_all add: face_of_def sound_ok_def enqueue_ok)
    then show "all_val (calm m) (Val (putNode p (n\<lparr>nd_queued := enqueue sender raw (nd_queued n)\<rparr>) m1))"
      using calm_trans [OF c] by simp
  qed
qed

lemma con_feedFrame_calm: "mixer_ok m \<Longrightarrow> all_val (calm m) (con_feedFrame p sender f m)"
  unfolding con_feedFrame_def
  by (intro all_val_any all_val_option all_val_if) (simp_all add: calm_refl calm_same)

lemma node_feedFrame_calm: "mixer_ok m \<Longrightarrow> all_val (calm m) (node_feedFrame tod p sender f m)"
  unfolding node_feedFrame_def by (intro all_val_any all_val_if conf_feedFrame_calm con_feedFrame_calm)

lemma calm_step: "calm m m1 \<Longrightarrow> (mixer_ok m1 \<Longrightarrow> all_val (calm m1) r) \<Longrightarrow> all_val (calm m) r"
  using calm_ok calm_trans by (auto simp: all_val_def)

lemma pass_on_calm:
  assumes "mixer_ok m"
  shows "all_val (calm m) (pass_on tod p f e m)"
  unfolding pass_on_def Let_def
proof (rule all_val_prod, rule all_val_if)
  fix q d
  show "all_val (calm m) (Val m)" using calm_refl [OF assms] by simp
  show "all_val (calm m) (cpp_bind (deref (mx_heap m) p) (\<lambda>n. case smap_index 0 q (nd_mutes n) of (mute, mutes) \<Rightarrow>
       if mute = VOLUME_MUTE then Val (putNode p (n\<lparr>nd_mutes := mutes\<rparr>) m)
       else case smap_index 0 q (nd_volumes n) of (volume, volumes) \<Rightarrow>
         if volume = 100 then node_feedFrame tod q p f (putNode p (n\<lparr>nd_mutes := mutes, nd_volumes := volumes\<rparr>) m)
         else cpp_bind (samples160 f) (\<lambda>so. case so of
             None \<Rightarrow> Val (putNode p (n\<lparr>nd_mutes := mutes, nd_volumes := volumes\<rparr>) m)
           | Some ss \<Rightarrow> cpp_bind (scale volume ss) (\<lambda>ss'. cpp_bind (mixer_frame tod ss') (\<lambda>g.
               node_feedFrame tod q p g (putNode p (n\<lparr>nd_mutes := mutes, nd_volumes := volumes\<rparr>) m))))))"
  proof (rule all_val_deref, rule all_val_prod, rule all_val_if)
    fix n mute mutes
    assume n: "mx_heap m p = Some n" and mu: "smap_index 0 q (nd_mutes n) = (mute, mutes)"
    have ok1: "sound_ok n \<Longrightarrow> smap_ok mutes" using smap_index_ok [of "nd_mutes n" 0 q] mu by (simp add: sound_ok_def)
    have "calm m (putNode p (n\<lparr>nd_mutes := mutes\<rparr>) m)"
      by (rule calm_putNode [OF assms n]) (use ok1 in \<open>simp_all add: face_of_def sound_ok_def\<close>)
    then show "all_val (calm m) (Val (putNode p (n\<lparr>nd_mutes := mutes\<rparr>) m))" by simp
    show "all_val (calm m) (case smap_index 0 q (nd_volumes n) of (volume, volumes) \<Rightarrow>
         if volume = 100 then node_feedFrame tod q p f (putNode p (n\<lparr>nd_mutes := mutes, nd_volumes := volumes\<rparr>) m)
         else cpp_bind (samples160 f) (\<lambda>so. case so of
             None \<Rightarrow> Val (putNode p (n\<lparr>nd_mutes := mutes, nd_volumes := volumes\<rparr>) m)
           | Some ss \<Rightarrow> cpp_bind (scale volume ss) (\<lambda>ss'. cpp_bind (mixer_frame tod ss') (\<lambda>g.
               node_feedFrame tod q p g (putNode p (n\<lparr>nd_mutes := mutes, nd_volumes := volumes\<rparr>) m)))))"
    proof (rule all_val_prod)
      fix volume volumes
      assume vo: "smap_index 0 q (nd_volumes n) = (volume, volumes)"
      have ok2: "sound_ok n \<Longrightarrow> smap_ok volumes" using smap_index_ok [of "nd_volumes n" 0 q] vo by (simp add: sound_ok_def)
      let ?m = "putNode p (n\<lparr>nd_mutes := mutes, nd_volumes := volumes\<rparr>) m"
      have c: "calm m ?m"
        by (rule calm_putNode [OF assms n]) (use ok1 ok2 in \<open>simp_all add: face_of_def sound_ok_def\<close>)
      show "all_val (calm m) (if volume = 100 then node_feedFrame tod q p f ?m
         else cpp_bind (samples160 f) (\<lambda>so. case so of None \<Rightarrow> Val ?m
           | Some ss \<Rightarrow> cpp_bind (scale volume ss) (\<lambda>ss'. cpp_bind (mixer_frame tod ss') (\<lambda>g. node_feedFrame tod q p g ?m))))"
        by (intro all_val_if all_val_any all_val_option calm_step [OF c node_feedFrame_calm]) (use c in simp_all)
    qed
  qed
qed

lemma pass_all_calm: "mixer_ok m \<Longrightarrow> all_val (calm m) (pass_all tod p f es m)"
proof (induction es arbitrary: m)
  case (Cons e es)
  show ?case
    unfolding pass_all.simps
    by (rule all_val_bind [OF pass_on_calm [OF Cons.prems]]) (erule calm_step, rule Cons.IH)
qed (simp add: calm_refl)

lemma con_incomingFrame_calm: "mixer_ok m \<Longrightarrow> all_val (calm m) (con_incomingFrame tod p f m)"
  unfolding con_incomingFrame_def by (intro all_val_any all_val_if pass_all_calm) (simp_all add: calm_refl)

lemma conf_incomingFrame_calm:
  assumes "mixer_ok m"
  shows "all_val (calm m) (conf_incomingFrame_mx tod p f m)"
  unfolding conf_incomingFrame_mx_def Let_def
proof (rule all_val_bind [OF raw_of_calm [OF assms]], rule all_val_prod, rule all_val_option, simp, rule all_val_if)
  fix x :: "frame option \<times> mixer" and a m1 raw
  assume "calm m (snd x)" and "x = (a, m1)"
  then have c: "calm m m1" by simp
  then show "all_val (calm m) (Val m1)" by simp
  let ?f = "\<lambda>n. if fr_type (raw\<lparr>fr_tid := fr_tid f\<rparr>) = UNLOCKING_FRAME then n\<lparr>nd_bots := smap_erase (fr_tid f) (nd_bots n)\<rparr>
                           else n\<lparr>nd_bots := enqueue (fr_tid f) (raw\<lparr>fr_tid := fr_tid f\<rparr>) (nd_bots n)\<rparr>"
  have "all_val (calm m1) (cpp_bind (deref (mx_heap m1) p) (\<lambda>n. Val (putNode p (?f n) m1)))"
  proof (rule all_val_deref)
    fix n
    assume "mx_heap m1 p = Some n"
    from calm_putNode [OF calm_ok [OF c] this, of "?f n"]
    show "all_val (calm m1) (Val (putNode p (?f n) m1))" by (simp add: face_of_def sound_ok_def)
  qed
  then show "all_val (calm m) (cpp_bind (deref (mx_heap m1) p) (\<lambda>n. Val (putNode p (?f n) m1)))"
    by (rule calm_step [OF c])
qed

lemma mix_peers_queued:
  "smap_ok queued \<Longrightarrow> all_val (\<lambda>(b, t, q). smap_ok q) (mix_peers h playing es (buffer, talkers, queued))"
proof (induction es arbitrary: buffer talkers queued)
  case (Cons e es)
  obtain q d where e: "e = (q, d)" by (cases e)
  show ?case
  proof (cases "q = NULL \<or> \<not> (d = SENDRECV \<or> d = RECVONLY)")
    case True
    then show ?thesis using Cons.IH [OF Cons.prems] by (auto simp: e)
  next
    case False
    obtain frames q1 where i: "smap_index [] q queued = (frames, q1)" by fastforce
    have ok: "smap_ok q1" using smap_index_ok [OF Cons.prems, of "[]" q] i by simp
    note IH = Cons.IH [OF ok]
    show ?thesis
      unfolding e mix_peers.simps if_not_P [OF False] Let_def i prod.case
    proof (cases frames)
      case Nil
      show "all_val (\<lambda>(b, t, q). smap_ok q) (case frames of [] \<Rightarrow> mix_peers h playing es (buffer, talkers, q1)
        | f # fs \<Rightarrow> cpp_bind (isSilence (Some f)) (\<lambda>silent. cpp_bind (samples160 f) (\<lambda>so. case so of
              None \<Rightarrow> mix_peers h playing es (buffer, talkers, q1)
            | Some ss \<Rightarrow> cpp_bind (if silent then Val talkers
                          else cpp_bind (deref h q) (\<lambda>k. Val (talkers @ [nd_Id k]))) (\<lambda>talkers1.
                  mix_peers h playing es (add_samples buffer (third playing ss), talkers1, q1)))))"
        using IH by (simp add: Nil)
    next
      case (Cons f fs)
      show "all_val (\<lambda>(b, t, q). smap_ok q) (case frames of [] \<Rightarrow> mix_peers h playing es (buffer, talkers, q1)
        | f # fs \<Rightarrow> cpp_bind (isSilence (Some f)) (\<lambda>silent. cpp_bind (samples160 f) (\<lambda>so. case so of
              None \<Rightarrow> mix_peers h playing es (buffer, talkers, q1)
            | Some ss \<Rightarrow> cpp_bind (if silent then Val talkers
                          else cpp_bind (deref h q) (\<lambda>k. Val (talkers @ [nd_Id k]))) (\<lambda>talkers1.
                  mix_peers h playing es (add_samples buffer (third playing ss), talkers1, q1)))))"
        unfolding Cons list.case by (intro all_val_any all_val_option IH)
    qed
  qed
qed simp

lemma drop_mixed_ok: "smap_ok queued \<Longrightarrow> smap_ok (drop_mixed qs queued)"
proof (induction qs queued rule: drop_mixed.induct)
  case (2 q qs queued)
  have "smap_ok (snd (smap_index [] q queued))" using 2(3) by simp
  then show ?case using 2 by (cases "smap_index [] q queued") (auto simp: Let_def)
qed simp

lemma mix_one_calm:
  assumes "mixer_ok m"
  shows "all_val (calm m) (mix_one tod p playing buffer e m)"
  unfolding mix_one_def Let_def
proof (rule all_val_prod, rule all_val_if)
  fix q d
  show "all_val (calm m) (Val m)" using calm_refl [OF assms] by simp
  show "all_val (calm m) (cpp_bind (deref (mx_heap m) p) (\<lambda>n. case smap_index 0 q (nd_mutes n) of (mute, mutes) \<Rightarrow>
       if mute = VOLUME_MUTE then Val (putNode p (n\<lparr>nd_mutes := mutes\<rparr>) m)
       else case smap_index 0 q (nd_volumes n) of (volume, volumes) \<Rightarrow> case smap_index [] q (nd_queued n) of (frames, queued) \<Rightarrow>
         cpp_bind (own_part d frames) (\<lambda>own.
         cpp_bind (mix_out playing volume buffer own) (\<lambda>ss.
         cpp_bind (newFrameBuf MEDIACTRL_MEDIA_AUDIO (bytes_of ss) 320 MEDIACTRL_RAW tod) (\<lambda>g.
           node_feedFrame tod q p (g\<lparr>fr_who := ALLOC_MIXER\<rparr>)
             (putNode p (n\<lparr>nd_mutes := mutes, nd_volumes := volumes, nd_queued := queued\<rparr>) m))))))"
  proof (rule all_val_deref, rule all_val_prod, rule all_val_if)
    fix n mute mutes
    assume n: "mx_heap m p = Some n" and mu: "smap_index 0 q (nd_mutes n) = (mute, mutes)"
    have ok1: "sound_ok n \<Longrightarrow> smap_ok mutes" using smap_index_ok [of "nd_mutes n" 0 q] mu by (simp add: sound_ok_def)
    have "calm m (putNode p (n\<lparr>nd_mutes := mutes\<rparr>) m)"
      by (rule calm_putNode [OF assms n]) (use ok1 in \<open>simp_all add: face_of_def sound_ok_def\<close>)
    then show "all_val (calm m) (Val (putNode p (n\<lparr>nd_mutes := mutes\<rparr>) m))" by simp
    show "all_val (calm m) (case smap_index 0 q (nd_volumes n) of (volume, volumes) \<Rightarrow>
       case smap_index [] q (nd_queued n) of (frames, queued) \<Rightarrow>
         cpp_bind (own_part d frames) (\<lambda>own.
         cpp_bind (mix_out playing volume buffer own) (\<lambda>ss.
         cpp_bind (newFrameBuf MEDIACTRL_MEDIA_AUDIO (bytes_of ss) 320 MEDIACTRL_RAW tod) (\<lambda>g.
           node_feedFrame tod q p (g\<lparr>fr_who := ALLOC_MIXER\<rparr>)
             (putNode p (n\<lparr>nd_mutes := mutes, nd_volumes := volumes, nd_queued := queued\<rparr>) m)))))"
    proof (rule all_val_prod, rule all_val_prod, intro all_val_any)
      fix volume volumes frames queued own ss and g :: frame
      assume vo: "smap_index 0 q (nd_volumes n) = (volume, volumes)" "smap_index [] q (nd_queued n) = (frames, queued)"
      have ok2: "sound_ok n \<Longrightarrow> smap_ok volumes \<and> smap_ok queued"
        using smap_index_ok [of "nd_volumes n" 0 q] smap_index_ok [of "nd_queued n" "[]" q] vo by (simp add: sound_ok_def)
      have c: "calm m (putNode p (n\<lparr>nd_mutes := mutes, nd_volumes := volumes, nd_queued := queued\<rparr>) m)"
        by (rule calm_putNode [OF assms n]) (use ok1 ok2 in \<open>simp_all add: face_of_def sound_ok_def\<close>)
      show "all_val (calm m) (node_feedFrame tod q p (g\<lparr>fr_who := ALLOC_MIXER\<rparr>)
          (putNode p (n\<lparr>nd_mutes := mutes, nd_volumes := volumes, nd_queued := queued\<rparr>) m))"
        by (rule calm_step [OF c node_feedFrame_calm])
    qed
  qed
qed

lemma mix_each_calm: "mixer_ok m \<Longrightarrow> all_val (calm m) (mix_each tod p playing buffer es m)"
proof (induction es arbitrary: m)
  case (Cons e es)
  show ?case
    unfolding mix_each.simps
    by (rule all_val_bind [OF mix_one_calm [OF Cons.prems]]) (erule calm_step, rule Cons.IH)
qed (simp add: calm_refl)

lemma notify_talkers_calm:
  assumes "mixer_ok m"
  shows "all_val (calm m) (notify_talkers elapsed p talkers m)"
  unfolding notify_talkers_def notifyEvent_def
proof (rule all_val_deref, rule all_val_if)
  fix n
  assume n: "mx_heap m p = Some n" "p \<noteq> NULL"
  let ?m = "emit (ControlEvent (nd_requester n) (mscmixer (''<event>'' @ talkers_event (nd_Id n) talkers @ ''</event>''))) m"
  have c: "calm m ?m" by (rule calm_same [OF assms]) simp_all
  have "calm ?m (putNode p (n\<lparr>nd_start := word_of_nat elapsed\<rparr>) ?m)"
    by (rule calm_putNode [OF calm_ok [OF c]]) (simp_all add: n face_of_def sound_ok_def)
  then show "all_val (calm m) (cpp_bind (cpp_bind (deref (mx_heap m) p) (\<lambda>na. Val (emit (ControlEvent (nd_requester na)
      (mscmixer (''<event>'' @ talkers_event (nd_Id n) talkers @ ''</event>''))) m))) (\<lambda>m1.
           Val (putNode p (n\<lparr>nd_start := word_of_nat elapsed\<rparr>) m1)))"
    using n calm_trans [OF c] by (simp add: deref_def)
qed (simp add: calm_refl assms)

lemma conf_round_calm:
  assumes "mixer_ok m"
  shows "all_val (calm m) (conf_round tod elapsed p m)"
  unfolding conf_round_def Let_def
proof (rule all_val_deref, rule all_val_any2, rule all_val_if)
  fix n buffer0 bots
  assume n: "mx_heap m p = Some n"
  let ?n1 = "n\<lparr>nd_bots := bots, nd_playing := nd_bots n \<noteq> []\<rparr>"
  have "calm m (putNode p ?n1 m)" by (rule calm_putNode [OF assms n]) (simp_all add: face_of_def sound_ok_def)
  then show "all_val (calm m) (Val (putNode p ?n1 m))" by simp
  have q: "smap_ok (nd_queued n)" using assms node_wf(4) [OF _ n] by (simp add: mixer_ok_def sound_ok_def)
  show "all_val (calm m) (cpp_bind (mix_peers (mx_heap m) (nd_bots n \<noteq> []) (nd_nodes n) (buffer0, [], nd_queued n))
         (\<lambda>(buffer, talkers, queued).
         cpp_bind (mix_each tod p (nd_bots n \<noteq> []) buffer (nd_nodes n) (putNode p (?n1\<lparr>nd_queued := queued\<rparr>) m)) (\<lambda>m1.
         cpp_bind (deref (mx_heap m1) p) (\<lambda>n2.
           notify_talkers elapsed p talkers
             (putNode p (n2\<lparr>nd_queued := drop_mixed (map fst (nd_nodes n2)) (nd_queued n2)\<rparr>) m1)))))"
  proof (rule all_val_bind [OF mix_peers_queued [OF q]], rule all_val_prod, rule all_val_prod)
    fix x :: "int list \<times> string list \<times> (ptr, frame list) smap" and buffer y talkers queued
    assume "case x of (b, t, q) \<Rightarrow> smap_ok q" and "x = (buffer, y)" and "y = (talkers, queued)"
    then have q: "smap_ok queued" by simp
    have c: "calm m (putNode p (?n1\<lparr>nd_queued := queued\<rparr>) m)"
      by (rule calm_putNode [OF assms n]) (simp_all add: face_of_def sound_ok_def q)
    show "all_val (calm m) (cpp_bind (mix_each tod p (nd_bots n \<noteq> []) buffer (nd_nodes n) (putNode p (?n1\<lparr>nd_queued := queued\<rparr>) m)) (\<lambda>m1.
         cpp_bind (deref (mx_heap m1) p) (\<lambda>n2.
           notify_talkers elapsed p talkers
             (putNode p (n2\<lparr>nd_queued := drop_mixed (map fst (nd_nodes n2)) (nd_queued n2)\<rparr>) m1))))"
    proof (rule calm_step [OF c], rule all_val_bind [OF mix_each_calm], assumption, rule all_val_deref)
      fix m1 n2
      assume c1: "calm (putNode p (?n1\<lparr>nd_queued := queued\<rparr>) m) m1" and n2: "mx_heap m1 p = Some n2"
      let ?m2 = "putNode p (n2\<lparr>nd_queued := drop_mixed (map fst (nd_nodes n2)) (nd_queued n2)\<rparr>) m1"
      have c2: "calm m1 ?m2"
        by (rule calm_putNode [OF calm_ok [OF c1] n2]) (simp_all add: face_of_def sound_ok_def drop_mixed_ok)
      show "all_val (calm (putNode p (?n1\<lparr>nd_queued := queued\<rparr>) m)) (notify_talkers elapsed p talkers ?m2)"
        by (rule calm_step [OF calm_trans [OF c1 c2] notify_talkers_calm])
    qed
  qed
qed

text \<open>The map of the package's nodes may gain NULL entries, or lose some.\<close>

lemma calm_nodes:
  assumes "mixer_ok m" and "ns = snd (smap_index NULL cp (mx_nodes m))"
  shows "calm m (m\<lparr>mx_nodes := ns\<rparr>)" "calm m (m\<lparr>mx_nodes := smap_erase con ns\<rparr>)"
proof -
  let ?m = "m\<lparr>mx_nodes := ns\<rparr>"
  have i: "nodes_index cp m = (fst (smap_index NULL cp (mx_nodes m)), ?m)"
    using assms(2) by (simp add: nodes_index_def case_prod_beta del: smap_index_value)
  note n = nodes_index_ok [OF i assms(1)]
  then show c: "calm m ?m" using keeps_ok [OF n(1)] by (simp add: calm_def)
  have k: "mixer_ok (?m\<lparr>mx_nodes := smap_erase con (mx_nodes ?m)\<rparr>)"
    by (rule keeps_ok [OF erase_node_keeps [OF calm_ok [OF c]]])
  have "link (m\<lparr>mx_nodes := smap_erase con ns\<rparr>) = link m" "faces (m\<lparr>mx_nodes := smap_erase con ns\<rparr>) = faces m"
    by (rule same_heap, simp)+
  with k show "calm m (m\<lparr>mx_nodes := smap_erase con ns\<rparr>)" by (simp add: calm_def)
qed

lemma mixer_sendFrame_calm:
  assumes "mixer_ok m"
  shows "all_val (calm m) (mixer_sendFrame tod connection f m)"
  unfolding mixer_sendFrame_def Let_def
proof (rule all_val_if, simp add: calm_refl [OF assms], rule all_val_prod, rule all_val_if)
  fix node ns
  assume i: "smap_index NULL connection (mx_nodes m) = (node, ns)"
  note c = calm_nodes [OF assms, of ns connection, simplified i snd_conv, OF refl]
  show "all_val (calm m) (cpp_bind (deref (mx_heap m) node) (\<lambda>n.
            if nd_conf n then conf_incomingFrame_mx tod node f (m\<lparr>mx_nodes := ns\<rparr>)
            else Val (m\<lparr>mx_nodes := ns\<rparr>)))"
    by (intro all_val_any all_val_if calm_step [OF c(1) conf_incomingFrame_calm]) (use c in simp_all)
  show "all_val (calm m) (Val (m\<lparr>mx_nodes := smap_erase connection ns\<rparr>))" using c by simp
qed

lemma mixer_incomingFrame_calm:
  assumes "mixer_ok m"
  shows "all_val (calm m) (mixer_incomingFrame tod connection subConnection f m)"
  unfolding mixer_incomingFrame_def Let_def
proof (rule all_val_if, simp add: calm_refl [OF assms], rule all_val_prod, rule all_val_if)
  fix node ns
  assume i: "smap_index NULL subConnection (mx_nodes m) = (node, ns)"
  note c = calm_nodes [OF assms, of ns subConnection, simplified i snd_conv, OF refl]
  show "all_val (calm m) (cpp_bind (deref (md_cps (core_md (mx_core (m\<lparr>mx_nodes := ns\<rparr>)))) subConnection) (\<lambda>d.
            if cpc_type d \<noteq> CPC_CONFERENCE then
              cpp_bind (deref (mx_heap (m\<lparr>mx_nodes := ns\<rparr>)) node) (\<lambda>n.
                if nd_conf n then conf_incomingFrame_mx tod node f (m\<lparr>mx_nodes := ns\<rparr>)
                else con_incomingFrame tod node f (m\<lparr>mx_nodes := ns\<rparr>))
            else Val (m\<lparr>mx_nodes := ns\<rparr>)))"
    by (intro all_val_any all_val_if calm_step [OF c(1) conf_incomingFrame_calm] calm_step [OF c(1) con_incomingFrame_calm])
      (use c in simp_all)
  show "all_val (calm m) (Val (m\<lparr>mx_nodes := ns\<rparr>\<lparr>mx_nodes := smap_erase connection ns\<rparr>))" using c by simp
qed

subsection \<open>The end of a connection\<close>

definition settled :: "mixer \<Rightarrow> mixer \<Rightarrow> bool" where
  "settled m m' \<longleftrightarrow> mixer_ok m' \<and> mx_next m \<le> mx_next m'"

lemma keeps_settled: "keeps r m m' \<Longrightarrow> settled m m'"
  by (simp add: keeps_def settled_def evolves_def)

lemma calm_settled: "calm m m' \<Longrightarrow> settled m m'"
  by (simp add: calm_def settled_def)

lemma settled_trans: "settled a b \<Longrightarrow> settled b c \<Longrightarrow> settled a c"
  by (auto simp: settled_def)

lemma on_package_calm: "mixer_ok m \<Longrightarrow> all_val (calm m) (on_package f cp m)"
  by (rule all_valI, rule calm_same) (auto dest: on_package_same)

lemma node_destroy_settled:
  assumes "mixer_ok m" and "\<And>cp. smap_get (mx_nodes m) cp \<noteq> Some p"
  shows "all_val (settled m) (node_destroy p m)"
  unfolding node_destroy_def
proof (rule all_val_deref, rule all_val_if)
  fix n
  assume n: "mx_heap m p = Some n"
  show "nd_conf n \<Longrightarrow> all_val (settled m) (conf_destroy p m)"
    using conf_destroy_ok [OF _ assms(1) n] by (auto simp: all_val_def settled_def evolves_def)
  show "\<not> nd_conf n \<Longrightarrow> all_val (settled m) (con_destroy p m)"
    using con_destroy_ok [OF _ assms(1) n _ assms(2)] by (auto simp: all_val_def settled_def evolves_def)
qed

lemma connectionClosing_settled:
  assumes "mixer_ok m"
  shows "all_val (settled m) (connectionClosing con sc m)"
  unfolding connectionClosing_def Let_def
proof (rule all_val_if)
  show "all_val (settled m) (Val m)" using assms by (simp add: settled_def)
  let ?p = "fst (smap_index NULL sc (mx_nodes m))" and ?m = "m\<lparr>mx_nodes := smap_erase sc (mx_nodes m)\<rparr>"
  have ok: "mixer_ok ?m" "settled m ?m"
    using erase_node_keeps [OF assms] keeps_ok keeps_settled by blast+
  have step: "all_val (settled m) (if ?p \<noteq> NULL then node_destroy ?p ?m else Val ?m)"
  proof (rule all_val_if)
    assume p: "?p \<noteq> NULL"
    have i: "nodes_index sc m = (?p, m\<lparr>mx_nodes := snd (smap_index NULL sc (mx_nodes m))\<rparr>)"
      by (simp add: nodes_index_def case_prod_beta del: smap_index_value)
    obtain n where n: "smap_get (mx_nodes m) sc = Some ?p" "mx_heap m ?p = Some n" "nd_connection n = sc"
      using nodes_index_ok(6) [OF i assms p] by blast
    have "smap_get (mx_nodes ?m) cp \<noteq> Some ?p" for cp
    proof
      assume a: "smap_get (mx_nodes ?m) cp = Some ?p"
      then have b: "cp \<noteq> sc" "smap_get (mx_nodes m) cp = Some ?p" by (auto split: if_splits)
      obtain k where k: "mx_heap m ?p = Some k" "nd_connection k = cp" by (rule registered_alive [OF assms b(2) p])
      have "k = n" using n(2) unfolding k(1) by (rule option.inject [THEN iffD1])
      then show False using k(2) n(3) b(1) by blast
    qed
    from node_destroy_settled [OF ok(1) this]
    show "all_val (settled m) (node_destroy ?p ?m)" by (rule all_val_mono) (rule settled_trans [OF ok(2)])
  qed (use ok in simp)
  show "all_val (settled m) (cpp_bind (if ?p \<noteq> NULL then node_destroy ?p ?m else Val ?m) (\<lambda>m2.
        cpp_bind (on_package removePackage con m2) (\<lambda>m3.
          if con \<noteq> sc then on_package removePackage sc m3 else Val m3)))"
  proof (rule all_val_bind [OF step])
    fix m2
    assume s2: "settled m m2"
    then have ok2: "mixer_ok m2" by (simp add: settled_def)
    show "all_val (settled m) (cpp_bind (on_package removePackage con m2) (\<lambda>m3.
          if con \<noteq> sc then on_package removePackage sc m3 else Val m3))"
    proof (rule all_val_bind [OF on_package_calm [OF ok2]])
      fix m3
      assume c: "calm m2 m3"
      have s3: "settled m m3" by (rule settled_trans [OF s2 calm_settled [OF c]])
      show "all_val (settled m) (if con \<noteq> sc then on_package removePackage sc m3 else Val m3)"
        using all_val_mono [OF on_package_calm [OF calm_ok [OF c]] settled_trans [OF s3 calm_settled]] s3 by simp
    qed
  qed
qed

subsection \<open>Histories\<close>

text \<open>
  What may happen to the package, in any order: CONTROL messages of any application server, frames in
  both directions, rounds of the conferences' threads, ends of connections, and whatever else the
  core and the other packages do to the connections meanwhile.
\<close>

inductive mixer_step :: "mixer \<Rightarrow> mixer \<Rightarrow> bool" where
  control: "mixer_control env requester tid blob doc m = Val m' \<Longrightarrow> mixer_step m m'"
| incoming: "mixer_incomingFrame tod connection subConnection f m = Val m' \<Longrightarrow> mixer_step m m'"
| sending: "mixer_sendFrame tod connection f m = Val m' \<Longrightarrow> mixer_step m m'"
| round: "conf_round tod elapsed p m = Val m' \<Longrightarrow> mixer_step m m'"
| closing: "connectionClosing connection subConnection m = Val m' \<Longrightarrow> mixer_step m m'"
| elsewhere: "mixer_step m (m\<lparr>mx_core := k\<rparr>)"

inductive mixer_reach :: "mixer \<Rightarrow> mixer \<Rightarrow> bool" for m0 where
  start: "mixer_reach m0 m0"
| step: "mixer_reach m0 m \<Longrightarrow> mixer_step m m' \<Longrightarrow> mixer_reach m0 m'"

definition newMixer :: "ptr \<Rightarrow> core \<Rightarrow> mixer" where
  "newMixer pkg k = \<lparr>mx_pkg = pkg, mx_core = k, mx_heap = Map.empty, mx_next = 1, mx_confs = [], mx_nodes = [],
     mx_joins = [], mx_out = []\<rparr>"

lemma newMixer_ok: "mixer_ok (newMixer pkg k)"
  by (simp add: mixer_ok_def newMixer_def nodes_wf_def graph_ok_def registry_ok_def link_def)

lemma step_settled:
  assumes "mixer_step m m'" and "mixer_ok m"
  shows "settled m m'"
  using assms(1)
proof cases
  case (control env r tid blob doc)
  show ?thesis
    by (rule keeps_settled, rule all_val_get [OF control_keeps [OF assms(2)] control])
next
  case (incoming tod con sc f)
  show ?thesis by (rule calm_settled, rule all_val_get [OF mixer_incomingFrame_calm [OF assms(2)] incoming])
next
  case (sending tod con f)
  show ?thesis by (rule calm_settled, rule all_val_get [OF mixer_sendFrame_calm [OF assms(2)] sending])
next
  case (round tod e p)
  show ?thesis by (rule calm_settled, rule all_val_get [OF conf_round_calm [OF assms(2)] round])
next
  case (closing con sc)
  show ?thesis by (rule all_val_get [OF connectionClosing_settled [OF assms(2)] closing])
next
  case (elsewhere k)
  show ?thesis unfolding elsewhere by (rule calm_settled, rule calm_same [OF assms(2)]) simp_all
qed

lemma reach_ok: "mixer_reach m0 m \<Longrightarrow> mixer_ok m0 \<Longrightarrow> mixer_ok m"
proof (induction rule: mixer_reach.induct)
  case (step m m')
  then show ?case using step_settled [of m m'] by (simp add: settled_def)
qed

end
