(* ===== verification/MixerAnswers.thy ===== *)
theory MixerAnswers
  imports MixerHistory
begin

text \<open>
  The answers of the mixer of \<open>src/packages/MixerPackage.cxx\<close>: a handler that stops a message has reported
  once, one that does not has not reported, and the end of a request that was understood reports
  once. Together: a document with one request gets exactly one answer.
\<close>

subsection \<open>Reports\<close>

fun is_report :: "mixer_out \<Rightarrow> bool" where
  "is_report (Report r tid status timeout body) = True"
| "is_report (ControlEvent r body) = False"
| "is_report (SendFrame cp f) = False"

definition reports :: "mixer \<Rightarrow> mixer_out list" where
  "reports m = filter is_report (mx_out m)"

definition told_once :: "mmsg \<Rightarrow> mixer \<Rightarrow> mixer \<Rightarrow> bool" where
  "told_once g m m' \<longleftrightarrow> (\<exists>status timeout body.
     reports m' = reports m @ [Report (mg_requester g) (mg_tid g) status timeout body])"

text \<open>The message keeps its addressee, and stops exactly when it is answered.\<close>

definition tells :: "mstate \<Rightarrow> mstate \<Rightarrow> bool" where
  "tells s s' \<longleftrightarrow> mg_requester (fst s') = mg_requester (fst s) \<and> mg_tid (fst s') = mg_tid (fst s) \<and>
     (if mg_stop (fst s') then told_once (fst s) (snd s) (snd s') else reports (snd s') = reports (snd s))"

definition answers :: "mstate \<Rightarrow> mstate \<Rightarrow> bool" where
  "answers s s' \<longleftrightarrow> told_once (fst s) (snd s) (snd s')"

lemma tells_refl: "\<not> mg_stop (fst s) \<Longrightarrow> tells s s"
  by (simp add: tells_def)

lemma tells_trans: "tells a b \<Longrightarrow> \<not> mg_stop (fst b) \<Longrightarrow> tells b c \<Longrightarrow> tells a c"
  by (auto simp: tells_def told_once_def)

lemma tells_answers: "tells a b \<Longrightarrow> \<not> mg_stop (fst b) \<Longrightarrow> answers b c \<Longrightarrow> answers a c"
  by (auto simp: tells_def answers_def told_once_def)

lemma tells_stopped: "tells a b \<Longrightarrow> mg_stop (fst b) \<Longrightarrow> answers a b"
  by (auto simp: tells_def answers_def)

lemma reports_emit [simp]: "reports (emit e m) = reports m @ (if is_report e then [e] else [])"
  by (simp add: reports_def emit_def)

lemma reports_notifyUnjoin [simp]: "reports (notifyUnjoin r a b c m) = reports m"
  by (simp add: notifyUnjoin_def Let_def reports_def emit_def)

lemma reports_notifyConferenceExit [simp]: "reports (notifyConferenceExit r a c m) = reports m"
  by (simp add: notifyConferenceExit_def)

lemma reports_reply [simp]:
  "reports (snd (reply st t b s)) = reports (snd s) @ [Report (mg_requester (fst s)) (mg_tid (fst s)) st t b]"
  by (simp add: reply_def)

lemma reports_fail [simp]:
  "reports (snd (fail c b s)) = reports (snd s) @ [Report (mg_requester (fst s)) (mg_tid (fst s)) 200 10 (error_body c b)]"
  by (simp add: fail_def halt_def)

lemma reports_forbid [simp]:
  "reports (snd (forbid s)) = reports (snd s) @ [Report (mg_requester (fst s)) (mg_tid (fst s)) 403 0 '''']"
  by (simp add: forbid_def halt_def)

lemma tells_fail: "tells a b \<Longrightarrow> \<not> mg_stop (fst b) \<Longrightarrow> tells a (fail c t b)"
  by (auto simp: tells_def told_once_def)

lemma tells_forbid: "tells a b \<Longrightarrow> \<not> mg_stop (fst b) \<Longrightarrow> tells a (forbid b)"
  by (auto simp: tells_def told_once_def)

lemma answers_succeed: "tells a b \<Longrightarrow> \<not> mg_stop (fst b) \<Longrightarrow> answers a (succeed t c b)"
  by (auto simp: tells_def answers_def told_once_def succeed_def)

lemma tells_same:
  "\<not> mg_stop (fst s') \<Longrightarrow> mg_requester (fst s') = mg_requester (fst s) \<Longrightarrow> mg_tid (fst s') = mg_tid (fst s) \<Longrightarrow>
     mx_out (snd s') = mx_out (snd s) \<Longrightarrow> tells s s'"
  by (simp add: tells_def reports_def)

text \<open>What reports nothing.\<close>

definition silent :: "mixer \<Rightarrow> mixer \<Rightarrow> bool" where
  "silent m m' \<longleftrightarrow> reports m' = reports m"

lemma silent_refl [simp]: "silent m m"
  by (simp add: silent_def)

lemma silent_trans: "silent a b \<Longrightarrow> silent b c \<Longrightarrow> silent a c"
  by (simp add: silent_def)

lemma tells_silent: "tells a (g, m) \<Longrightarrow> \<not> mg_stop g \<Longrightarrow> silent m m' \<Longrightarrow> tells a (g, m')"
  by (simp add: tells_def silent_def)

lemma silent_out: "mx_out m' = mx_out m \<Longrightarrow> silent m m'"
  by (simp add: silent_def reports_def)

lemma silent_putNode [simp]: "silent m (putNode p n m)"
  by (rule silent_out) simp

lemma on_package_silent: "all_val (silent m) (on_package f cp m)"
  by (rule all_valI, rule silent_out) (auto dest: on_package_keeps simp: same_frame_def)

lemma getConnection_silent: "all_val (\<lambda>(m', c). silent m m') (mx_getConnection bx i m)"
  using mx_getConnection_same by (fastforce simp: all_val_def intro: silent_out)

lemma nodes_index_silent: "nodes_index cp m = (p, m') \<Longrightarrow> silent m m'"
  by (rule silent_out) (auto simp: nodes_index_def case_prod_beta)

lemma confs_index_silent: "confs_index i m = (p, m') \<Longrightarrow> silent m m'"
  by (rule silent_out) (auto simp: confs_index_def case_prod_beta)

lemma opt_package_silent: "all_val (silent m) (if b then on_package f cp m else Val m)"
  using on_package_silent by simp

lemma con_attach_silent: "all_val (\<lambda>x. silent m (fst x)) (con_attach p q d v m)"
  unfolding con_attach_def Let_def
  by (rule all_val_if, simp, rule all_val_any, rule all_val_any, rule all_val_if, simp, rule all_val_if, simp,
      rule all_val_if, rule all_val_bind [OF on_package_silent]) (auto simp: silent_def reports_def)

lemma con_modify_silent: "all_val (\<lambda>x. silent m (fst x)) (con_modify p q d v m)"
  unfolding con_modify_def Let_def
  by (rule all_val_if, simp, rule all_val_any, rule all_val_if, simp, rule all_val_any, rule all_val_option, simp,
      rule all_val_if, simp, rule all_val_bind [OF opt_package_silent], rule all_val_bind [OF opt_package_silent])
    (auto simp: silent_def reports_def)

lemma con_detach_silent: "all_val (\<lambda>x. silent m (fst x)) (con_detach p q m)"
  unfolding con_detach_def Let_def
  by (rule all_val_if, simp, rule all_val_any, rule all_val_option, simp, rule all_val_any,
      rule all_val_bind [OF opt_package_silent]) (auto simp: silent_def reports_def)

lemma conf_attach_silent: "all_val (\<lambda>x. silent m (fst x)) (conf_attach p q d v m)"
  unfolding conf_attach_def by (intro all_val_any all_val_if) simp_all

lemma conf_modify_silent: "all_val (\<lambda>x. silent m (fst x)) (conf_modify p q d v m)"
  unfolding conf_modify_def by (intro all_val_any all_val_if all_val_option) simp_all

lemma conf_detach_silent: "all_val (\<lambda>x. silent m (fst x)) (conf_detach p q m)"
  unfolding conf_detach_def by (intro all_val_any all_val_if all_val_option) simp_all

lemma node_calls_silent:
  "all_val (\<lambda>x. silent m (fst x)) (node_attach p q d v m)"
  "all_val (\<lambda>x. silent m (fst x)) (node_modify p q d v m)"
  "all_val (\<lambda>x. silent m (fst x)) (node_detach p q m)"
  unfolding node_attach_def node_modify_def node_detach_def
  by (intro all_val_any all_val_if con_attach_silent con_modify_silent con_detach_silent conf_attach_silent
      conf_modify_silent conf_detach_silent)+

subsection \<open>Starts of elements\<close>

text \<open>The message stays with its request, unless it is stopped.\<close>

definition stays :: "mstate \<Rightarrow> mstate \<Rightarrow> bool" where
  "stays s s' \<longleftrightarrow> tells s s' \<and> (\<not> mg_stop (fst s') \<longrightarrow> mg_level (fst s') = mg_level (fst s) \<and>
     mg_request (fst s') = mg_request (fst s) \<and> mg_newconf (fst s') = mg_newconf (fst s) \<and>
     mg_conf (fst s') = mg_conf (fst s))"

lemma stays_refl: "\<not> mg_stop (fst s) \<Longrightarrow> stays s s"
  by (simp add: stays_def tells_refl)

lemma stays_fail: "\<not> mg_stop (fst s) \<Longrightarrow> stays s (fail c b s)"
  by (simp add: stays_def tells_fail tells_refl)

lemma stays_tells: "stays s s' \<Longrightarrow> tells s s'"
  by (simp add: stays_def)

lemma stays_trans: "stays a b \<Longrightarrow> \<not> mg_stop (fst b) \<Longrightarrow> stays b c \<Longrightarrow> stays a c"
  using tells_trans [of a b c] by (auto simp: stays_def)

lemma start_root_stays: "\<not> mg_stop (fst s) \<Longrightarrow> stays s (start_root name atts s)"
  by (auto simp: start_root_def Let_def intro: stays_fail stays_refl split: sum.split)

text \<open>What a request that was understood needs to be carried out.\<close>

definition understood :: "mmsg \<Rightarrow> bool" where
  "understood g \<longleftrightarrow> mg_request g = ''createconference'' \<and> mg_newconf g \<and> mg_conf g \<noteq> NULL \<or>
     mg_request g \<in> {''modifyconference'', ''destroyconference''} \<and> \<not> mg_newconf g \<or>
     mg_request g \<in> {''join'', ''modifyjoin'', ''unjoin''} \<and> mg_conf g = NULL \<or> mg_request g = ''audit''"

definition begins :: "mstate \<Rightarrow> mstate \<Rightarrow> bool" where
  "begins s s' \<longleftrightarrow> tells s s' \<and> (\<not> mg_stop (fst s') \<longrightarrow> understood (fst s') \<and> mg_level (fst s') = mg_level (fst s))"

lemma begins_fail: "tells s s1 \<Longrightarrow> \<not> mg_stop (fst s1) \<Longrightarrow> begins s (fail c b s1)"
  by (simp add: begins_def tells_fail)

lemma begins_forbid: "tells s s1 \<Longrightarrow> \<not> mg_stop (fst s1) \<Longrightarrow> begins s (forbid s1)"
  by (simp add: begins_def tells_forbid)

lemma create_conf_silent: "all_val (\<lambda>x. silent m (fst x)) (create_conf i m)"
  unfolding create_conf_def Let_def
proof (rule all_val_any2, rule all_val_if, simp add: silent_def reports_def)
  fix cp k
  have "silent m (m\<lparr>mx_core := k\<rparr>)" by (simp add: silent_def reports_def)
  then show "all_val (\<lambda>x. silent m (fst x)) (cpp_bind (on_package addPackage cp (m\<lparr>mx_core := k\<rparr>)) (\<lambda>m2. Val (m2, cp)))"
    by (intro all_val_bind [OF on_package_silent]) (auto intro: silent_trans)
qed

lemma random_conf_silent: "all_val (\<lambda>x. silent m (fst x)) (random_conf rs m)"
proof (induction rs m rule: random_conf.induct)
  case (2 r rs m)
  show ?case
  proof (cases "smap_get (mx_confs m) (random_string 8 r) \<noteq> None")
    case True
    then show ?thesis using 2(1) [OF refl] by simp
  next
    case False
    show ?thesis
      unfolding random_conf.simps Let_def if_not_P [OF False]
    proof (rule all_val_bind [OF create_conf_silent], rule all_val_prod, rule all_val_if)
      fix x :: "mixer \<times> ptr" and m1 cp
      assume s: "silent m (fst x)" "x = (m1, cp)"
      then show "all_val (\<lambda>x. silent m (fst x)) (Val (m1, random_string 8 r, cp))" by simp
      assume "\<not> cp \<noteq> NULL"
      then have "all_val (\<lambda>x. silent m1 (fst x)) (random_conf rs m1)" using 2(2) [OF refl False] by blast
      then show "all_val (\<lambda>x. silent m (fst x)) (random_conf rs m1)"
        using s by (elim all_val_mono) (auto intro: silent_trans)
    qed
  qed
qed simp

lemma newMixerConference_silent: "all_val (\<lambda>x. silent m (fst x)) (newMixerConference rs r i m)"
  unfolding newMixerConference_def Let_def
proof (rule all_val_bind [where P = "\<lambda>x. silent m (fst x)"])
  show "all_val (\<lambda>x. silent m (fst x)) (if i = '''' then random_conf rs m else cpp_bind (create_conf i m) (\<lambda>(m1, cp). Val (m1, i, cp)))"
    by (rule all_val_if [OF random_conf_silent], rule all_val_bind [OF create_conf_silent]) auto
qed (auto simp: silent_def reports_def split: prod.splits)

lemma start_create_begins:
  assumes st: "\<not> mg_stop (fst s)" and rq: "mg_request (fst s) = ''createconference''"
  shows "all_val (begins s) (start_create env atts s)"
proof -
  let ?g = "(fst s)\<lparr>mg_newconf := True\<rparr>"
  have t0: "tells s (?g, m)" if "silent (snd s) m" for m
    using that st by (simp add: tells_def silent_def)
  show ?thesis
  proof (cases "create_atts (me_bx env) atts")
    case (Inl a)
    then show ?thesis using begins_fail [OF t0 [OF silent_refl]] st by (simp add: start_create_def)
  next
    case (Inr x)
    obtain i t l where x: "x = (i, t, l)" by (cases x)
    show ?thesis
      unfolding start_create_def Let_def Inr x sum.case prod.case fst_conv snd_conv
    proof (rule all_val_bind2 [OF getConnection_silent], rule all_val_if, use begins_fail [OF t0] st in simp,
        rule all_val_prod, rule all_val_if)
      fix m1 p m2
      assume "silent (snd s) m1" "confs_index i m1 = (p, m2)"
      then have s2: "silent (snd s) m2" using confs_index_silent silent_trans by blast
      then show "all_val (begins s) (Val (fail 405 i (?g, m2)))" using begins_fail [OF t0] st by simp
      show "all_val (begins s) (cpp_bind (newMixerConference (me_random env) (mg_requester ?g) i m2) (\<lambda>(m3, p).
          cpp_bind (deref (mx_heap m3) p) (\<lambda>n. Val (?g\<lparr>mg_conf := p\<rparr>,
              putNode p (n\<lparr>nd_talkers := t, nd_listeners := l\<rparr>) m3))))"
      proof (rule all_val_bind [OF newMixerConference_silent], rule all_val_prod, rule all_val_deref)
        fix x :: "mixer \<times> ptr" and m3 p n
        assume "silent m2 (fst x)" "x = (m3, p)" and p: "p \<noteq> NULL"
        then have "silent (snd s) (putNode p (n\<lparr>nd_talkers := t, nd_listeners := l\<rparr>) m3)"
          using s2 silent_trans silent_putNode by (metis fst_conv)
        then show "all_val (begins s) (Val (?g\<lparr>mg_conf := p\<rparr>, putNode p (n\<lparr>nd_talkers := t, nd_listeners := l\<rparr>) m3))"
          using p rq st by (simp add: begins_def understood_def tells_def silent_def)
      qed
    qed
  qed
qed

lemma find_conference_begins:
  assumes st: "\<not> mg_stop (fst s)" and rq: "mg_request (fst s) \<in> {''modifyconference'', ''destroyconference''}"
  shows "all_val (begins s) (find_conference atts s)"
proof -
  let ?g = "(fst s)\<lparr>mg_newconf := False\<rparr>"
  have t0: "tells s (?g, m)" if "silent (snd s) m" for m
    using that st by (simp add: tells_def silent_def)
  show ?thesis
  proof (cases "map_of atts ''conferenceid''")
    case None
    then show ?thesis using begins_fail [OF t0 [OF silent_refl]] st by (simp add: find_conference_def)
  next
    case (Some i)
    show ?thesis
      unfolding find_conference_def Let_def Some option.case fst_conv snd_conv
    proof (rule all_val_prod, rule all_val_if)
      fix p m1
      assume "confs_index i (snd s) = (p, m1)"
      then have s1: "silent (snd s) m1" by (rule confs_index_silent)
      then show "all_val (begins s) (Val (fail 406 i (?g, m1)))" using begins_fail [OF t0] st by simp
      have t: "tells s (?g\<lparr>mg_conf := p\<rparr>, m1)" using s1 st by (simp add: tells_def silent_def)
      show "all_val (begins s) (cpp_bind (checkSender p (mg_requester ?g) m1)
          (\<lambda>mine. Val (if mine then (?g\<lparr>mg_conf := p\<rparr>, m1) else forbid (?g\<lparr>mg_conf := p\<rparr>, m1))))"
        using begins_forbid [OF t] t st rq by (intro all_val_any) (simp add: begins_def understood_def)
    qed
  qed
qed

lemma join_atts_place:
  "mg_stop (snd (join_atts atts g)) = mg_stop g" "mg_requester (snd (join_atts atts g)) = mg_requester g"
  "mg_tid (snd (join_atts atts g)) = mg_tid g" "mg_level (snd (join_atts atts g)) = mg_level g"
  "mg_request (snd (join_atts atts g)) = mg_request g" "mg_conf (snd (join_atts atts g)) = mg_conf g"
  by (induction atts g rule: join_atts.induct) auto

lemma start_join_begins:
  assumes st: "\<not> mg_stop (fst s)" and rq: "mg_request (fst s) \<in> {''join'', ''modifyjoin'', ''unjoin''}" "mg_conf (fst s) = NULL"
  shows "all_val (begins s) (start_join bx atts s)"
proof -
  obtain x g where j: "join_atts atts (fst s) = (x, g)" by (cases "join_atts atts (fst s)")
  note g = join_atts_place [of atts "fst s", unfolded j snd_conv]
  have t: "tells s (g, m)" "\<not> mg_stop g" if "silent (snd s) m" for m
    using that st g by (simp_all add: tells_def silent_def)
  show ?thesis
  proof (cases x)
    case (Some a)
    then show ?thesis using begins_fail [OF t(1) [OF silent_refl]] st g by (simp add: start_join_def j)
  next
    case None
    show ?thesis
      unfolding start_join_def j None option.case prod.case
    proof (rule all_val_bind2 [OF getConnection_silent], rule all_val_if, use begins_fail [OF t(1)] st g in \<open>simp add: fail_missing_def\<close>,
        rule all_val_bind2 [OF getConnection_silent])
      fix m1 m2 c2
      assume "silent (snd s) m1" "silent m1 m2"
      then have "silent (snd s) m2" by (rule silent_trans)
      then show "all_val (begins s) (if c2 = NULL then Val (fail_missing (mg_id2 g) (g, m2)) else Val (g, m2))"
        using begins_fail [OF t(1)] t st g rq by (simp add: fail_missing_def begins_def understood_def)
    qed
  qed
qed

lemma start_audit_begins:
  assumes st: "\<not> mg_stop (fst s)" and rq: "mg_request (fst s) = ''audit''"
  shows "begins s (start_audit bx atts s)"
proof (cases "audit_atts bx atts ('''', True, True)")
  case (Inl x)
  then show ?thesis using begins_fail [OF tells_refl] st by (cases x) (simp add: start_audit_def)
next
  case (Inr x)
  obtain i a b where x: "x = (i, a, b)" by (cases x)
  obtain p m1 where pm: "(if i \<noteq> '''' then confs_index i (snd s) else (NULL, snd s)) = (p, m1)" by fastforce
  have s1: "silent (snd s) m1" using pm confs_index_silent by (auto split: if_splits)
  then have "begins s (fail 406 i (fst s, m1))" using st by (intro begins_fail) (simp_all add: tells_def silent_def)
  moreover have "begins s ((fst s)\<lparr>mg_auditCapabilities := a, mg_auditMixers := b, mg_auditConference := i\<rparr>, m1)"
    using s1 st rq by (simp add: begins_def tells_def silent_def understood_def)
  ultimately show ?thesis by (simp add: start_audit_def Inr x pm)
qed

lemma start_request_begins:
  assumes st: "\<not> mg_stop (fst s)" and cf: "mg_conf (fst s) = NULL"
  shows "all_val (begins s) (start_request env name atts s)"
proof -
  let ?s = "((fst s)\<lparr>mg_request := name\<rparr>, snd s)"
  have sn: "\<not> mg_stop (fst ?s)" using st by simp
  have b: "begins s s'" if "begins ?s s'" for s'
    using that by (auto simp: begins_def tells_def told_once_def split: if_splits)
  have "all_val (begins ?s) (start_request env name atts s)"
    unfolding start_request_def Let_def
  proof (intro all_val_if)
    show "all_val (begins ?s) (Val (fail 428 name ?s))" using begins_fail [OF tells_refl, OF sn sn] by simp
    show "name = ''createconference'' \<Longrightarrow> all_val (begins ?s) (start_create env atts ?s)"
      by (rule start_create_begins [OF sn]) simp
    show "name = ''modifyconference'' \<or> name = ''destroyconference'' \<Longrightarrow> all_val (begins ?s) (find_conference atts ?s)"
      by (rule find_conference_begins [OF sn]) auto
    show "name = ''join'' \<or> name = ''modifyjoin'' \<or> name = ''unjoin'' \<Longrightarrow> all_val (begins ?s) (start_join (me_bx env) atts ?s)"
      by (rule start_join_begins [OF sn]) (use cf in auto)
    show "name = ''audit'' \<Longrightarrow> all_val (begins ?s) (Val (start_audit (me_bx env) atts ?s))"
      unfolding all_val_simps by (rule start_audit_begins [OF sn]) simp
  qed
  then show ?thesis using b by (rule all_val_mono)
qed

subsection \<open>Inside a request\<close>

lemma stays_msg:
  "\<not> mg_stop (fst s) \<Longrightarrow> \<not> mg_stop g \<Longrightarrow> mg_requester g = mg_requester (fst s) \<Longrightarrow> mg_tid g = mg_tid (fst s) \<Longrightarrow>
     mg_level g = mg_level (fst s) \<Longrightarrow> mg_request g = mg_request (fst s) \<Longrightarrow> mg_newconf g = mg_newconf (fst s) \<Longrightarrow>
     mg_conf g = mg_conf (fst s) \<Longrightarrow> silent (snd s) m \<Longrightarrow> stays s (g, m)"
  by (simp add: stays_def tells_def silent_def)

lemma stays_mixer: "\<not> mg_stop (fst s) \<Longrightarrow> silent (snd s) m \<Longrightarrow> stays s (fst s, m)"
  by (rule stays_msg) simp_all

lemma start_mixing_stays: "\<not> mg_stop (fst s) \<Longrightarrow> all_val (stays s) (start_mixing bx atts s)"
  by (auto simp: start_mixing_def Let_def intro!: stays_fail stays_mixer stays_refl all_val_any split: sum.split)

lemma start_stream_stays: "\<not> mg_stop (fst s) \<Longrightarrow> stays s (start_stream atts s)"
  by (auto simp: start_stream_def Let_def intro!: stays_fail stays_msg split: sum.split)

lemma start_part_stays:
  assumes "\<not> mg_stop (fst s)"
  shows "all_val (stays s) (start_part env name atts s)"
  using start_mixing_stays [OF assms] start_stream_stays [OF assms] stays_fail [OF assms] stays_refl [OF assms]
  by (simp add: start_part_def Let_def)

lemma set_last_stream_stays: "\<not> mg_stop (fst s) \<Longrightarrow> stays s (set_last_stream f s)"
  unfolding set_last_stream_def by (rule stays_msg) simp_all

lemma start_volume_stays:
  assumes "\<not> mg_stop (fst s)"
  shows "all_val (stays s) (start_volume atts s)"
proof -
  obtain k v where kv: "volume_atts atts ('''', '''') = (k, v)" by (cases "volume_atts atts ('''', '''')")
  show ?thesis
    using stays_fail [OF assms] set_last_stream_stays [OF assms] stays_refl [OF assms]
    by (cases "getPercentVolume (atoi v)") (simp_all add: start_volume_def kv)
qed

lemma start_clamp_stays: "\<not> mg_stop (fst s) \<Longrightarrow> all_val (stays s) (start_clamp atts s)"
  using set_last_stream_stays stays_fail by (auto simp: start_clamp_def split: list.split)

lemma conf_subscribe_silent: "all_val (silent m) (conf_subscribe n t p m)"
  unfolding conf_subscribe_def Let_def by (intro all_val_any) simp

lemma start_subscription_stays:
  assumes "\<not> mg_stop (fst s)"
  shows "all_val (stays s) (start_subscription env atts s)"
proof (cases atts)
  case (Cons x xs)
  obtain a v where x: "x = (a, v)" by (cases x)
  have "all_val (stays s) (cpp_bind (conf_subscribe n t (mg_conf (fst s)) (snd s)) (\<lambda>m1. Val (fst s, m1)))" for n t
    by (rule all_val_bind [OF conf_subscribe_silent]) (simp add: stays_mixer assms)
  then show ?thesis
    using stays_fail [OF assms] by (auto simp: start_subscription_def Cons x split: option.split)
qed (simp add: start_subscription_def)

lemma start_detail_stays:
  assumes "\<not> mg_stop (fst s)"
  shows "all_val (stays s) (start_detail env name atts s)"
proof -
  let ?up = "butlast (mg_childs (fst s))"
  let ?s = "set_childs ?up s" and ?s1 = "set_childs (?up @ [name]) (set_childs ?up s)"
  have a: "stays s ?s" "stays s ?s1" using assms by (simp_all add: set_childs_def stays_msg)
  have st: "\<not> mg_stop (fst ?s)" "\<not> mg_stop (fst ?s1)" using assms by simp_all
  have v: "all_val (stays s) (start_volume atts ?s1)" "all_val (stays s) (start_clamp atts ?s1)"
      "all_val (stays s) (start_subscription env atts ?s1)"
    by (rule all_val_mono [OF _ stays_trans [OF a(2) st(2)]], simp_all only: start_volume_stays [OF st(2)]
        start_clamp_stays [OF st(2)] start_subscription_stays [OF st(2)])+
  have f: "stays s (fail c b ?s)" "stays s (fail c b ?s1)" for c b
    using stays_trans [OF a(1) st(1) stays_fail [OF st(1)]] stays_trans [OF a(2) st(2) stays_fail [OF st(2)]] by blast+
  show ?thesis
    unfolding start_detail_def Let_def
    by (intro all_val_if) (simp_all (no_asm) only: all_val_simps v a f)
qed

text \<open>Elements below the request: the message is left as found, or stopped.\<close>

lemma mx_parse_stopped: "mg_stop (fst s) \<Longrightarrow> mx_parse env es s = Val s"
proof (induction es)
  case (Cons e es)
  then show ?case by (cases e) (simp_all add: mx_startElement_def mx_endElement_def)
qed simp

lemma mx_parse_append: "mx_parse env (xs @ ys) s = cpp_bind (mx_parse env xs s) (mx_parse env ys)"
proof (induction xs arbitrary: s)
  case (Cons x xs)
  show ?case by (cases "mx_handle env x s") (simp_all add: Cons)
qed simp

definition opened :: "string \<Rightarrow> mstate \<Rightarrow> mstate" where
  "opened name s = ((fst s)\<lparr>mg_level := mg_level (fst s) + 1, mg_childs := mg_childs (fst s) @ [name]\<rparr>, snd s)"

lemma startElement_inside:
  assumes "\<not> mg_stop (fst s)" and "2 \<le> mg_level (fst s)"
  shows "all_val (stays (opened name s)) (mx_startElement env name atts s)"
proof -
  have st: "\<not> mg_stop (fst (opened name s))" using assms(1) by (simp add: opened_def)
  have f: "all_val (stays (opened name s)) (Val (fail 428 name (opened name s)))" using stays_fail [OF st] by simp
  note p = start_part_stays [OF st, unfolded opened_def] start_detail_stays [OF st, unfolded opened_def] f [unfolded opened_def]
  show ?thesis
    unfolding mx_startElement_def Let_def if_not_P [OF assms(1)] opened_def
    by (intro all_val_if p) (use assms(2) in simp_all)
qed

lemma endElement_inside:
  assumes "\<not> mg_stop (fst s)" and "mg_level (fst s) \<noteq> 1"
  shows "all_val (\<lambda>s'. tells s s' \<and> \<not> mg_stop (fst s') \<and> mg_level (fst s') = mg_level (fst s) - 1 \<and>
     mg_request (fst s') = mg_request (fst s) \<and> mg_newconf (fst s') = mg_newconf (fst s) \<and> mg_conf (fst s') = mg_conf (fst s))
     (mx_endElement env s)"
  using assms by (simp add: mx_endElement_def Let_def tells_def)

lemma parse_end: "mx_parse env [EndElement name] = (\<lambda>s. cpp_bind (mx_endElement env s) (mx_parse env []))"
  by (simp add: fun_eq_iff)

lemma parse_inside:
  "\<not> mg_stop (fst s) \<Longrightarrow> 2 \<le> mg_level (fst s) \<Longrightarrow> all_val (stays s) (mx_parse env (events x) s)"
  "\<not> mg_stop (fst s) \<Longrightarrow> 2 \<le> mg_level (fst s) \<Longrightarrow> all_val (stays s) (mx_parse env (events_of xs) s)"
proof (induction x and xs arbitrary: s and s rule: events_events_of.induct)
  case (1 name atts cs)
  show ?case
    unfolding events.simps mx_parse.simps mx_handle.simps
  proof (rule all_val_bind [OF startElement_inside [OF 1(2,3)]])
    fix s1
    assume s1: "stays (opened name s) s1"
    show "all_val (stays s) (mx_parse env (events_of cs @ [EndElement name]) s1)"
    proof (cases "mg_stop (fst s1)")
      case True
      then show ?thesis
        using s1 by (simp add: mx_parse_stopped stays_def tells_def opened_def told_once_def)
    next
      case False
      then have l1: "mg_level (fst s1) = mg_level (fst s) + 1" using s1 by (simp add: stays_def opened_def)
      show ?thesis
        unfolding mx_parse_append parse_end
      proof (rule all_val_bind [OF 1(1) [OF False]])
        show "2 \<le> mg_level (fst s1)" using l1 1(3) by simp
        fix s2
        assume "stays s1 s2"
        then have s2: "stays (opened name s) s2" by (rule stays_trans [OF s1 False])
        show "all_val (stays s) (cpp_bind (mx_endElement env s2) (mx_parse env []))"
        proof (cases "mg_stop (fst s2)")
          case True
          then show ?thesis
            using s2 by (simp add: mx_endElement_def) (simp add: stays_def tells_def opened_def told_once_def)
        next
          case False
          then have l2: "mg_level (fst s2) \<noteq> 1" using s2 1(3) by (simp add: stays_def opened_def)
          show ?thesis
          proof (rule all_val_bind [OF endElement_inside [OF False l2]])
            fix s3
            assume "tells s2 s3 \<and> \<not> mg_stop (fst s3) \<and> mg_level (fst s3) = mg_level (fst s2) - 1 \<and>
              mg_request (fst s3) = mg_request (fst s2) \<and> mg_newconf (fst s3) = mg_newconf (fst s2) \<and>
              mg_conf (fst s3) = mg_conf (fst s2)"
            with s2 False show "all_val (stays s) (mx_parse env [] s3)"
              by (simp add: stays_def tells_def opened_def)
          qed
        qed
      qed
    qed
  qed
next
  case (4 x xs)
  show ?case
    unfolding events_of.simps mx_parse_append
  proof (rule all_val_bind [OF 4(1) [OF 4(3,4)]])
    fix s1
    assume s1: "stays s s1"
    show "all_val (stays s) (mx_parse env (events_of xs) s1)"
    proof (cases "mg_stop (fst s1)")
      case False
      then have l: "2 \<le> mg_level (fst s1)" using s1 4(4) by (simp add: stays_def)
      show ?thesis by (rule all_val_mono [OF 4(2) [OF False l] stays_trans [OF s1 False]])
    qed (use s1 in \<open>simp add: mx_parse_stopped\<close>)
  qed
qed (simp_all add: stays_refl)

subsection \<open>Carrying out\<close>

lemma for_each_silent: "(\<And>q m. all_val (silent m) (f q m)) \<Longrightarrow> all_val (silent m) (for_each f qs m)"
proof (induction qs arbitrary: m)
  case (Cons q qs)
  show ?case
    unfolding for_each.simps
  proof (rule all_val_bind [OF Cons.prems])
    fix m1
    assume "silent m m1"
    then show "all_val (silent m) (for_each f qs m1)" using Cons.IH [OF Cons.prems, of m1] silent_trans by (auto simp: all_val_def)
  qed
qed simp

lemma part_from_silent: "all_val (silent m) (part_from p n q m)"
  unfolding part_from_def
proof (rule all_val_bind [OF node_calls_silent(3)], rule all_val_prod, rule all_val_any)
  fix x :: "mixer \<times> int" and m1 e k
  assume "silent m (fst x)" and "x = (m1, e)"
  then show "all_val (silent m) (Val (notifyUnjoin (nd_requester n) (nd_Id n) (nd_Id k) UNJOIN_CONTERMINATE m1))"
    by (simp add: silent_def)
qed

lemma conf_destroy_silent: "all_val (silent m) (conf_destroy p m)"
  unfolding conf_destroy_def Let_def
proof (rule all_val_any, rule all_val_bind [OF for_each_silent], rule all_val_if, simp, rule part_from_silent)
  fix n m1
  assume "silent m m1"
  then show "all_val (silent m) (Val (free_node p
      (endConference (nd_Id n) (if nd_started n then notifyConferenceExit (nd_requester n) (nd_Id n) CONFEXIT_REQUEST m1 else m1)
        \<lparr>mx_nodes := smap_erase (nd_connection n) (mx_nodes (endConference (nd_Id n)
          (if nd_started n then notifyConferenceExit (nd_requester n) (nd_Id n) CONFEXIT_REQUEST m1 else m1)))\<rparr>)))"
    by (simp add: silent_def free_node_def endConference_def reports_def notifyConferenceExit_def)
qed

lemma tells_mixer: "tells s s1 \<Longrightarrow> \<not> mg_stop (fst s1) \<Longrightarrow> silent (snd s1) m \<Longrightarrow> tells s (fst s1, m)"
  by (simp add: tells_def silent_def)

abbreviation (input) tells1 :: "mstate \<Rightarrow> mstate \<times> bool \<Rightarrow> bool" where
  "tells1 s x \<equiv> tells s (fst x)"

lemma own_conference_tells:
  assumes "\<not> mg_stop (fst s)"
  shows "all_val (\<lambda>x. tells1 s x \<and> (snd x \<or> \<not> mg_stop (fst (fst x)))) (own_conference con s)"
  unfolding own_conference_def Let_def
proof (intro all_val_any all_val_if all_val_prod)
  fix p m1 mine
  assume "nodes_index con (snd s) = (p, m1)"
  then have s1: "silent (snd s) m1" by (rule nodes_index_silent)
  have "tells s (fst s, m1\<lparr>mx_nodes := smap_erase con (mx_nodes m1)\<rparr>)"
    using s1 assms by (simp add: tells_def silent_def reports_def)
  from tells_forbid [OF this]
  show "all_val (\<lambda>x. tells1 s x \<and> (snd x \<or> \<not> mg_stop (fst (fst x))))
     (Val (forbid (fst s, m1\<lparr>mx_nodes := smap_erase con (mx_nodes m1)\<rparr>), True))" using assms by simp
  have t: "tells s (fst s, m1)" using s1 assms by (simp add: tells_def silent_def)
  show "all_val (\<lambda>x. tells1 s x \<and> (snd x \<or> \<not> mg_stop (fst (fst x))))
     (Val (if mine then ((fst s, m1), False) else (forbid (fst s, m1), True)))"
    using t tells_forbid [OF t] assms by simp
qed (use tells_refl [OF assms] assms in simp)

lemma tells_change:
  "tells s s1 \<Longrightarrow> \<not> mg_stop (fst s1) \<Longrightarrow> mg_requester g = mg_requester (fst s1) \<Longrightarrow> mg_tid g = mg_tid (fst s1) \<Longrightarrow>
     \<not> mg_stop g \<Longrightarrow> tells s (g, snd s1)"
  by (simp add: tells_def)

lemma parse_whole_tells:
  assumes "\<not> mg_stop (fst s)"
  shows "all_val (tells s) (parse_whole s)"
  unfolding parse_whole_def Let_def
  by (intro all_val_any all_val_option)
    (simp_all add: tells_fail tells_refl tells_change [OF tells_refl] assms)

lemma check_label_tells:
  assumes "\<not> mg_stop (fst s)"
  shows "all_val (\<lambda>x. tells1 s x \<and> (snd x \<or> \<not> mg_stop (fst (fst x)))) (check_label st s)"
  unfolding check_label_def Let_def
  by (intro all_val_any all_val_if)
    (simp_all add: label_medium_def tells_fail tells_refl assms)

lemma take_direction_place:
  "take_direction st g = Inr g' \<Longrightarrow> mg_stop g' = mg_stop g \<and> mg_requester g' = mg_requester g \<and> mg_tid g' = mg_tid g"
  by (auto simp: take_direction_def Let_def split: if_splits)

lemma parse_stream_tells:
  assumes "\<not> mg_stop (fst s)"
  shows "all_val (\<lambda>x. tells1 s x \<and> (snd x \<or> \<not> mg_stop (fst (fst x)))) (parse_stream st s)"
  unfolding parse_stream_def
proof (rule all_val_bind [OF check_label_tells [OF assms]], rule all_val_prod, rule all_val_if)
  fix x s1 returned
  assume x: "tells1 s x \<and> (snd x \<or> \<not> mg_stop (fst (fst x)))" "x = (s1, returned)"
  then show "all_val (\<lambda>x. tells1 s x \<and> (snd x \<or> \<not> mg_stop (fst (fst x)))) (Val (s1, True))" by simp
  assume "\<not> returned"
  then have t: "tells s s1" "\<not> mg_stop (fst s1)" using x by auto
  have n: "tells s ((fst s1)\<lparr>mg_node1 := a1\<rparr>, snd s1)" for a1 by (rule tells_change [OF t]) (simp_all add: t)
  show "all_val (\<lambda>x. tells1 s x \<and> (snd x \<or> \<not> mg_stop (fst (fst x)))) (if mg_stop (fst s1) then Val (s1, False)
       else cpp_bind (stream_node (mg_con1 (fst s1)) st (snd s1)) (\<lambda>a1.
         if a1 = NULL then Val (no_media (mg_id1 (fst s1)) st s1, True)
         else case (if st_mediaType st = MEDIACTRL_MEDIA_AUDIO
                    then take_direction st ((fst s1)\<lparr>mg_node1 := a1\<rparr>) else Inr (fst s1)) of
           Inl conflict \<Rightarrow> Val (fail 422 conflict ((fst s1)\<lparr>mg_node1 := a1\<rparr>, snd s1), True)
         | Inr g \<Rightarrow>
             cpp_bind (stream_node (mg_con2 g) st (snd s1)) (\<lambda>a2.
               if a2 = NULL then Val (no_media (mg_id2 g) st (g, snd s1), True)
               else Val (if st_mediaType st = MEDIACTRL_MEDIA_AUDIO then (g\<lparr>mg_node2 := a2\<rparr>, snd s1)
                         else (g, snd s1), False))))"
    unfolding if_not_P [OF t(2)]
  proof (rule all_val_any, rule all_val_if)
    fix a1
    show "all_val (\<lambda>x. tells1 s x \<and> (snd x \<or> \<not> mg_stop (fst (fst x)))) (Val (no_media (mg_id1 (fst s1)) st s1, True))"
      using tells_fail [OF t] by (simp add: no_media_def)
    show "all_val (\<lambda>x. tells1 s x \<and> (snd x \<or> \<not> mg_stop (fst (fst x)))) (case (if st_mediaType st = MEDIACTRL_MEDIA_AUDIO
                    then take_direction st ((fst s1)\<lparr>mg_node1 := a1\<rparr>) else Inr (fst s1)) of
           Inl conflict \<Rightarrow> Val (fail 422 conflict ((fst s1)\<lparr>mg_node1 := a1\<rparr>, snd s1), True)
         | Inr g \<Rightarrow>
             cpp_bind (stream_node (mg_con2 g) st (snd s1)) (\<lambda>a2.
               if a2 = NULL then Val (no_media (mg_id2 g) st (g, snd s1), True)
               else Val (if st_mediaType st = MEDIACTRL_MEDIA_AUDIO then (g\<lparr>mg_node2 := a2\<rparr>, snd s1)
                         else (g, snd s1), False)))"
    proof (cases "(if st_mediaType st = MEDIACTRL_MEDIA_AUDIO then take_direction st ((fst s1)\<lparr>mg_node1 := a1\<rparr>) else Inr (fst s1))")
      case (Inl conflict)
      show ?thesis unfolding Inl sum.case using tells_fail [OF n] t by simp
    next
      case (Inr g)
      have g: "\<not> mg_stop g \<and> mg_requester g = mg_requester (fst s1) \<and> mg_tid g = mg_tid (fst s1)"
        using Inr take_direction_place [of st "(fst s1)\<lparr>mg_node1 := a1\<rparr>" g] t by (auto split: if_splits)
      then have tg: "tells s (g, snd s1)" "tells s (g\<lparr>mg_node2 := a2\<rparr>, snd s1)" for a2
        using tells_change [OF t, of g] tells_change [OF t, of "g\<lparr>mg_node2 := a2\<rparr>"] by simp_all
      show ?thesis
        unfolding Inr sum.case using tg tells_fail [OF tg(1)] g by (auto intro!: all_val_any simp: no_media_def)
    qed
  qed
qed

lemma parse_each_tells: "\<not> mg_stop (fst s) \<Longrightarrow> all_val (tells s) (parse_each sts s)"
proof (induction sts arbitrary: s)
  case (Cons st sts)
  show ?case
    unfolding parse_each.simps
  proof (rule all_val_bind [OF parse_stream_tells [OF Cons.prems]], rule all_val_prod, rule all_val_if)
    fix x s1 returned
    assume x: "tells1 s x \<and> (snd x \<or> \<not> mg_stop (fst (fst x)))" "x = (s1, returned)"
    then show "all_val (tells s) (Val s1)" by simp
    assume "\<not> returned"
    then have t: "tells s s1" "\<not> mg_stop (fst s1)" using x by auto
    show "all_val (tells s) (parse_each sts s1)"
      by (rule all_val_mono [OF Cons.IH [OF t(2)] tells_trans [OF t]])
  qed
qed (simp add: tells_refl)

lemma parseStreams_tells:
  assumes "\<not> mg_stop (fst s)"
  shows "all_val (tells s) (parseStreams bx s)"
  unfolding parseStreams_def Let_def
proof (rule all_val_bind2 [OF getConnection_silent], rule all_val_bind2 [OF getConnection_silent])
  fix m1 con1 m2 con2
  assume "silent (snd s) m1" "silent m1 m2"
  then have s2: "silent (snd s) m2" by (rule silent_trans)
  let ?s = "((fst s)\<lparr>mg_con1 := con1, mg_con2 := con2, mg_direction := SENDRECV, mg_node1 := NULL,
                  mg_node2 := NULL, mg_volume1 := VOLUME_NONE, mg_volume2 := VOLUME_NONE\<rparr>, m2)"
  have t: "tells s ?s" using s2 assms by (simp add: tells_def silent_def)
  have st: "\<not> mg_stop (fst ?s)" using assms by simp
  show "all_val (tells s) (cpp_bind (own_conference con1 ?s) (\<lambda>(s1, returned1).
         if returned1 then Val s1
         else cpp_bind (own_conference con2 s1) (\<lambda>(s2, returned2).
           if returned2 then Val s2
           else if mg_streams (fst s2) = [] then parse_whole s2
           else parse_each (mg_streams (fst s2)) s2)))"
  proof (rule all_val_bind [OF own_conference_tells [OF st]], rule all_val_prod, rule all_val_if)
    fix x s1 returned1
    assume x: "tells1 ?s x \<and> (snd x \<or> \<not> mg_stop (fst (fst x)))" "x = (s1, returned1)"
    then have t1: "tells s s1" using tells_trans [OF t st] by auto
    then show "all_val (tells s) (Val s1)" by simp
    assume "\<not> returned1"
    then have st1: "\<not> mg_stop (fst s1)" using x by simp
    show "all_val (tells s) (cpp_bind (own_conference con2 s1) (\<lambda>(s2, returned2).
           if returned2 then Val s2
           else if mg_streams (fst s2) = [] then parse_whole s2
           else parse_each (mg_streams (fst s2)) s2))"
    proof (rule all_val_bind [OF own_conference_tells [OF st1]], rule all_val_prod, rule all_val_if)
      fix x s2 returned2
      assume x: "tells1 s1 x \<and> (snd x \<or> \<not> mg_stop (fst (fst x)))" "x = (s2, returned2)"
      then have t2: "tells s s2" using tells_trans [OF t1 st1] by auto
      then show "all_val (tells s) (Val s2)" by simp
      assume "\<not> returned2"
      then have st2: "\<not> mg_stop (fst s2)" using x by simp
      show "all_val (tells s) (if mg_streams (fst s2) = [] then parse_whole s2 else parse_each (mg_streams (fst s2)) s2)"
        by (intro all_val_if all_val_mono [OF parse_whole_tells [OF st2] tells_trans [OF t2 st2]]
            all_val_mono [OF parse_each_tells [OF st2] tells_trans [OF t2 st2]])
    qed
  qed
qed

text \<open>The parts of \<open>join\<close>, \<open>modifyjoin\<close> and \<open>unjoin\<close>: a success has not been told yet.\<close>

definition mx_speaks :: "mstate \<Rightarrow> mstate \<times> bool \<Rightarrow> bool" where
  "mx_speaks s x \<longleftrightarrow> tells s (fst x) \<and> (snd x \<longrightarrow> \<not> mg_stop (fst (fst x)))"

lemma speaks_fail: "tells s s1 \<Longrightarrow> \<not> mg_stop (fst s1) \<Longrightarrow> mx_speaks s (fail c b s1, False)"
  by (simp add: mx_speaks_def tells_fail)

lemma speaks_forbid: "tells s s1 \<Longrightarrow> \<not> mg_stop (fst s1) \<Longrightarrow> mx_speaks s (forbid s1, False)"
  by (simp add: mx_speaks_def tells_forbid)

lemma speaks_ok: "tells s s1 \<Longrightarrow> \<not> mg_stop (fst s1) \<Longrightarrow> mx_speaks s (s1, b)"
  by (simp add: mx_speaks_def)

lemma speaks_trans: "tells a b \<Longrightarrow> \<not> mg_stop (fst b) \<Longrightarrow> mx_speaks b x \<Longrightarrow> mx_speaks a x"
  using tells_trans [of a b "fst x"] by (simp add: mx_speaks_def)

lemma tells_silent0: "\<not> mg_stop (fst s) \<Longrightarrow> silent (snd s) m \<Longrightarrow> tells s (fst s, m)"
  by (simp add: tells_def silent_def)

lemma change_half_speaks:
  assumes "\<not> mg_stop (fst s)" and op: "\<And>m. all_val (\<lambda>x. silent m (fst x)) (f m)"
  shows "all_val (mx_speaks s) (change_half what p q f s)"
  unfolding change_half_def
proof (rule all_val_any, rule all_val_if)
  show "all_val (mx_speaks s) (Val (fail 409 what s, False))" using speaks_fail [OF tells_refl] assms(1) by simp
  show "all_val (mx_speaks s) (cpp_bind (f (snd s)) (\<lambda>(m1, err).
         if err < 0 then Val (fail (if err = -2 then 409 else 411) what (fst s, m1), False)
         else Val ((fst s, m1), True)))"
  proof (rule all_val_bind [OF op], rule all_val_prod)
    fix x :: "mixer \<times> int" and m1 err
    assume "silent (snd s) (fst x)" "x = (m1, err)"
    then have "tells s (fst s, m1)" using assms(1) by (intro tells_silent0) simp_all
    then show "all_val (mx_speaks s) (if err < 0 then Val (fail (if err = -2 then 409 else 411) what (fst s, m1), False)
         else Val ((fst s, m1), True))"
      using assms(1) by (simp add: speaks_fail speaks_ok)
  qed
qed

lemma link_back_speaks:
  assumes "\<not> mg_stop (fst s)"
  shows "all_val (mx_speaks s) (link_back p q s)"
  unfolding link_back_def Let_def
proof (rule all_val_any, rule all_val_if)
  show "all_val (mx_speaks s) (Val (fail 408 id2_error s, False))" using speaks_fail [OF tells_refl] assms by simp
  show "all_val (mx_speaks s) (cpp_bind (node_attach q p (getReverseDirection (mg_direction (fst s))) (mg_volume2 (fst s)) (snd s)) (\<lambda>(m1, err).
         if 0 \<le> err then Val ((fst s, m1), True)
         else if err = -2 then Val (fail 408 id2_error (fst s, m1), False)
         else cpp_bind (node_detach p q m1) (\<lambda>(m2, _).
           cpp_bind (deref (mx_heap m2) p) (\<lambda>n. cpp_bind (deref (mx_heap m2) q) (\<lambda>k.
             Val ((fst (fail 411 id2_error (fst s, m2)), notifyUnjoin (mg_requester (fst s)) (nd_Id n) (nd_Id k) UNJOIN_ERROR
               (snd (fail 411 id2_error (fst s, m2)))), False))))))"
  proof (rule all_val_bind [OF node_calls_silent(1)], rule all_val_prod, intro all_val_if)
    fix x :: "mixer \<times> int" and m1 err
    assume x: "silent (snd s) (fst x)" "x = (m1, err)"
    then have t: "tells s (fst s, m1)" using assms by (intro tells_silent0) simp_all
    then show "all_val (mx_speaks s) (Val ((fst s, m1), True))" "all_val (mx_speaks s) (Val (fail 408 id2_error (fst s, m1), False))"
      using assms by (simp_all add: speaks_fail speaks_ok)
    show "all_val (mx_speaks s) (cpp_bind (node_detach p q m1) (\<lambda>(m2, _).
           cpp_bind (deref (mx_heap m2) p) (\<lambda>n. cpp_bind (deref (mx_heap m2) q) (\<lambda>k.
             Val ((fst (fail 411 id2_error (fst s, m2)), notifyUnjoin (mg_requester (fst s)) (nd_Id n) (nd_Id k) UNJOIN_ERROR
               (snd (fail 411 id2_error (fst s, m2)))), False)))))"
    proof (rule all_val_bind [OF node_calls_silent(3)], rule all_val_prod, intro all_val_any)
      fix y :: "mixer \<times> int" and m2 e n k
      assume y: "silent m1 (fst y)" "y = (m2, e)"
      then have "tells s (fst s, m2)" using x assms silent_trans by (intro tells_silent0) auto
      from speaks_fail [OF this, of 411 id2_error] assms
      show "all_val (mx_speaks s) (Val ((fst (fail 411 id2_error (fst s, m2)), notifyUnjoin (mg_requester (fst s)) (nd_Id n) (nd_Id k) UNJOIN_ERROR
               (snd (fail 411 id2_error (fst s, m2)))), False))"
        by (simp add: mx_speaks_def tells_def told_once_def)
    qed
  qed
qed

lemma link_nodes_speaks:
  assumes "\<not> mg_stop (fst s)"
  shows "all_val (mx_speaks s) (link_nodes p q s)"
  unfolding link_nodes_def Let_def
proof (rule all_val_any, rule all_val_if)
  show "all_val (mx_speaks s) (Val (fail 408 id1_error s, False))" using speaks_fail [OF tells_refl] assms by simp
  show "all_val (mx_speaks s) (cpp_bind (node_attach p q (mg_direction (fst s)) (mg_volume1 (fst s)) (snd s)) (\<lambda>(m1, err).
         if err < 0 then Val (fail (if err = -2 then 408 else 411) id1_error (fst s, m1), False)
         else if p = q then Val ((fst s, m1), True)
         else link_back p q (fst s, m1)))"
  proof (rule all_val_bind [OF node_calls_silent(1)], rule all_val_prod)
    fix x :: "mixer \<times> int" and m1 err
    assume "silent (snd s) (fst x)" "x = (m1, err)"
    then have t: "tells s (fst s, m1)" using assms by (intro tells_silent0) simp_all
    have st: "\<not> mg_stop (fst (fst s, m1))" using assms by simp
    show "all_val (mx_speaks s) (if err < 0 then Val (fail (if err = -2 then 408 else 411) id1_error (fst s, m1), False)
         else if p = q then Val ((fst s, m1), True)
         else link_back p q (fst s, m1))"
      using all_val_mono [OF link_back_speaks [OF st] speaks_trans [OF t st]] t assms by (simp add: speaks_fail speaks_ok)
  qed
qed

lemma modify_nodes_speaks:
  assumes "\<not> mg_stop (fst s)"
  shows "all_val (mx_speaks s) (modify_nodes p q s)"
  unfolding modify_nodes_def Let_def
proof (rule all_val_bind [OF change_half_speaks [OF assms node_calls_silent(2)]], rule all_val_prod)
  fix x s1 ok
  assume x: "mx_speaks s x" "x = (s1, ok)"
  show "all_val (mx_speaks s) (if \<not> ok \<or> p = q then Val (s1, ok)
       else change_half id2_error q p
              (node_modify q p (getReverseDirection (mg_direction (fst s))) (mg_volume2 (fst s))) s1)"
  proof (rule all_val_if)
    assume "\<not> (\<not> ok \<or> p = q)"
    then have t: "tells s s1" "\<not> mg_stop (fst s1)" using x by (auto simp: mx_speaks_def)
    show "all_val (mx_speaks s) (change_half id2_error q p
              (node_modify q p (getReverseDirection (mg_direction (fst s))) (mg_volume2 (fst s))) s1)"
      by (rule all_val_mono [OF change_half_speaks [OF t(2) node_calls_silent(2)] speaks_trans [OF t]])
  qed (use x in simp)
qed

lemma unjoin_nodes_speaks:
  assumes "\<not> mg_stop (fst s)"
  shows "all_val (mx_speaks s) (unjoin_nodes p q s)"
  unfolding unjoin_nodes_def
proof (rule all_val_bind [OF change_half_speaks [OF assms node_calls_silent(3)]], rule all_val_prod, rule all_val_if)
  fix x s1 ok1
  assume x: "mx_speaks s x" "x = (s1, ok1)"
  then show "\<not> ok1 \<Longrightarrow> all_val (mx_speaks s) (Val (s1, False))" by (simp add: mx_speaks_def)
  assume "\<not> \<not> ok1"
  then have t: "tells s s1" "\<not> mg_stop (fst s1)" using x by (auto simp: mx_speaks_def)
  have "all_val (mx_speaks s) (if p = q then Val (s1, True) else change_half id2_error q p (node_detach q p) s1)"
    using all_val_mono [OF change_half_speaks [OF t(2) node_calls_silent(3)] speaks_trans [OF t]] t
    by (simp add: speaks_ok)
  then show "all_val (mx_speaks s) (cpp_bind (if p = q then Val (s1, True) else change_half id2_error q p (node_detach q p) s1)
         (\<lambda>(s2, ok2).
         if \<not> ok2 then Val (s2, False)
         else cpp_bind (deref (mx_heap (snd s2)) p) (\<lambda>n. cpp_bind (deref (mx_heap (snd s2)) q) (\<lambda>k.
           Val ((fst s2, notifyUnjoin (mg_requester (fst s2)) (nd_Id n) (nd_Id k) UNJOIN_REQUEST (snd s2)), True)))))"
  proof (rule all_val_bind, intro all_val_prod all_val_if all_val_any)
    fix y s2 ok2 n k
    assume y: "mx_speaks s y" "y = (s2, ok2)"
    then show "\<not> ok2 \<Longrightarrow> all_val (mx_speaks s) (Val (s2, False))" by (simp add: mx_speaks_def)
    assume "\<not> \<not> ok2"
    then have "tells s (fst s2, notifyUnjoin (mg_requester (fst s2)) (nd_Id n) (nd_Id k) UNJOIN_REQUEST (snd s2))" "\<not> mg_stop (fst s2)"
      using y by (auto simp: mx_speaks_def intro!: tells_mixer simp: silent_def)
    then show "all_val (mx_speaks s) (Val ((fst s2, notifyUnjoin (mg_requester (fst s2)) (nd_Id n) (nd_Id k) UNJOIN_REQUEST (snd s2)), True))"
      by (simp add: mx_speaks_def)
  qed
qed

lemma node_for_silent: "all_val (\<lambda>x. silent m (fst x)) (node_for r con m)"
  unfolding node_for_def Let_def
proof (rule all_val_prod, rule all_val_if)
  fix p m1
  assume "nodes_index con m = (p, m1)"
  then have "silent m m1" by (rule nodes_index_silent)
  then show "all_val (\<lambda>x. silent m (fst x)) (Val (m1, p))" "all_val (\<lambda>x. silent m (fst x)) (newMixerConnection r con m1)"
    by (auto simp: newMixerConnection_def Let_def silent_def reports_def intro!: all_val_any)
qed

lemma join_nodes_speaks:
  assumes "\<not> mg_stop (fst s)"
  shows "all_val (mx_speaks s) (join_nodes s)"
  unfolding join_nodes_def Let_def
proof (rule all_val_bind [OF node_for_silent], rule all_val_prod, rule all_val_any, rule all_val_if)
  fix x :: "mixer \<times> ptr" and m1 p
  assume "silent (snd s) (fst x)" "x = (m1, p)"
  then have s1: "silent (snd s) m1" by simp
  show "all_val (mx_speaks s) (Val (forbid (fst s, m1), False))"
    using speaks_forbid [OF tells_silent0 [OF assms s1]] assms by simp
  show "all_val (mx_speaks s) (cpp_bind (node_for (mg_requester (fst s)) (mg_node2 (fst s)) m1) (\<lambda>(m2, q).
         cpp_bind (checkSender q (mg_requester (fst s)) m2) (\<lambda>mine2.
           if \<not> mine2 then Val (forbid (fst s, m2), False) else link_nodes p q (fst s, m2))))"
  proof (rule all_val_bind [OF node_for_silent], rule all_val_prod, rule all_val_any, rule all_val_if)
    fix y :: "mixer \<times> ptr" and m2 q
    assume "silent m1 (fst y)" "y = (m2, q)"
    then have s2: "silent (snd s) m2" using s1 silent_trans by simp
    have t: "tells s (fst s, m2)" "\<not> mg_stop (fst (fst s, m2))" using tells_silent0 [OF assms s2] assms by simp_all
    show "all_val (mx_speaks s) (Val (forbid (fst s, m2), False))" using speaks_forbid [OF t] by simp
    show "all_val (mx_speaks s) (link_nodes p q (fst s, m2))"
      by (rule all_val_mono [OF link_nodes_speaks [OF t(2)] speaks_trans [OF t]])
  qed
qed

lemma with_nodes_speaks:
  assumes "\<not> mg_stop (fst s)" and f: "\<And>p q s. \<not> mg_stop (fst s) \<Longrightarrow> all_val (mx_speaks s) (f p q s)"
  shows "all_val (mx_speaks s) (with_nodes f s)"
  unfolding with_nodes_def Let_def
proof (rule all_val_prod, rule all_val_if)
  fix p m1
  assume "nodes_index (mg_node1 (fst s)) (snd s) = (p, m1)"
  then have s1: "silent (snd s) m1" by (rule nodes_index_silent)
  note t1 = tells_silent0 [OF assms(1) s1]
  show "all_val (mx_speaks s) (Val (fail 426 id1_error (fst s, m1), False))" using speaks_fail [OF t1] assms(1) by simp
  show "all_val (mx_speaks s) (cpp_bind (checkSender p (mg_requester (fst s)) m1) (\<lambda>mine1.
       if \<not> mine1 then Val (forbid (fst s, m1), False)
       else case nodes_index (mg_node2 (fst s)) m1 of (q, m2) \<Rightarrow>
         if q = NULL then Val (fail 426 id2_error (fst s, m2), False)
         else cpp_bind (checkSender q (mg_requester (fst s)) m2) (\<lambda>mine2.
           if \<not> mine2 then Val (forbid (fst s, m2), False) else f p q (fst s, m2))))"
  proof (rule all_val_any, rule all_val_if, use speaks_forbid [OF t1] assms(1) in simp, rule all_val_prod, rule all_val_if)
    fix q m2
    assume "nodes_index (mg_node2 (fst s)) m1 = (q, m2)"
    then have s2: "silent (snd s) m2" using nodes_index_silent s1 silent_trans by blast
    have t2: "tells s (fst s, m2)" "\<not> mg_stop (fst (fst s, m2))" using tells_silent0 [OF assms(1) s2] assms(1) by simp_all
    show "all_val (mx_speaks s) (Val (fail 426 id2_error (fst s, m2), False))" using speaks_fail [OF t2] by simp
    show "all_val (mx_speaks s) (cpp_bind (checkSender q (mg_requester (fst s)) m2) (\<lambda>mine2.
           if \<not> mine2 then Val (forbid (fst s, m2), False) else f p q (fst s, m2)))"
      using all_val_mono [OF f [OF t2(2)] speaks_trans [OF t2]] speaks_forbid [OF t2]
      by (intro all_val_any all_val_if) simp_all
  qed
qed

lemma conclude_answers:
  assumes x: "mx_speaks s x" and after: "\<And>g m. mx_out (after g m) = mx_out m"
  shows "answers s (conclude a b after x)"
proof -
  obtain s1 ok1 where e: "x = (s1, ok1)" by fastforce
  show ?thesis
  proof (cases "mg_stop (fst s1)")
    case True
    then show ?thesis using x tells_stopped by (simp add: e conclude_def mx_speaks_def)
  next
    case False
    have t: "tells s s1" using x by (simp add: e mx_speaks_def)
    have "answers s (fail 411 a s1)" using tells_stopped [OF tells_fail [OF t False]] by simp
    moreover have "tells s (fst s1, after (fst s1) (snd s1))"
      using t False after by (intro tells_mixer) (simp_all add: silent_def reports_def)
    then have "answers s (succeed b None (fst s1, after (fst s1) (snd s1)))"
      by (rule answers_succeed) (use False in simp)
    ultimately show ?thesis using False by (simp add: e conclude_def)
  qed
qed

lemma do_request_answers:
  assumes st: "\<not> mg_stop (fst s)" and f: "\<And>s. \<not> mg_stop (fst s) \<Longrightarrow> all_val (mx_speaks s) (f s)"
    and after: "\<And>g m. mx_out (after g m) = mx_out m"
  shows "all_val (answers s) (cpp_bind (parseStreams bx s) (\<lambda>s1. if mg_stop (fst s1) then Val s1
        else cpp_bind (on_nodes f s1) (\<lambda>x. Val (conclude a b after x))))"
proof (rule all_val_bind [OF parseStreams_tells [OF st]], rule all_val_if)
  fix s1
  assume t: "tells s s1"
  then show "mg_stop (fst s1) \<Longrightarrow> all_val (answers s) (Val s1)" using tells_stopped by simp
  assume st1: "\<not> mg_stop (fst s1)"
  have "all_val (mx_speaks s) (on_nodes f s1)"
    unfolding on_nodes_def
    using all_val_mono [OF f [OF st1] speaks_trans [OF t st1]] speaks_ok [OF t st1] by (intro all_val_if) simp_all
  then show "all_val (answers s) (cpp_bind (on_nodes f s1) (\<lambda>x. Val (conclude a b after x)))"
    by (rule all_val_bind) (simp add: conclude_answers after)
qed

lemma do_join_answers: "\<not> mg_stop (fst s) \<Longrightarrow> all_val (answers s) (do_join bx s)"
  unfolding do_join_def by (rule do_request_answers) (simp_all add: join_nodes_speaks remember_join_def)

lemma do_modifyjoin_answers: "\<not> mg_stop (fst s) \<Longrightarrow> all_val (answers s) (do_modifyjoin bx s)"
  unfolding do_modifyjoin_def by (rule do_request_answers) (simp_all add: with_nodes_speaks modify_nodes_speaks)

lemma do_unjoin_answers: "\<not> mg_stop (fst s) \<Longrightarrow> all_val (answers s) (do_unjoin bx s)"
  unfolding do_unjoin_def by (rule do_request_answers) (simp_all add: with_nodes_speaks unjoin_nodes_speaks)

lemma do_audit_answers:
  assumes "\<not> mg_stop (fst s)"
  shows "all_val (answers s) (do_audit s)"
  unfolding do_audit_def Let_def
proof (rule all_val_any)
  fix x :: "string option"
  show "all_val (answers s) (case x of None \<Rightarrow> Val (forbid s)
        | Some t \<Rightarrow> Val (reply 200 10 (mscmixer (''<auditresponse status='' @ quoted ''200'' @ ''>'' @
            (if mg_auditCapabilities (fst s) then audit_codecs else '''') @ t @ ''</auditresponse>'')) s))"
    by (cases x) (simp_all add: answers_def told_once_def)
qed

lemma finish_request_answers:
  assumes st: "\<not> mg_stop (fst s)" and u: "understood (fst s)"
  shows "all_val (answers s) (finish_request bx s)"
proof (cases "mg_request (fst s) = ''createconference''")
  case True
  then have c: "mg_newconf (fst s) \<and> mg_conf (fst s) \<noteq> NULL" using u by (auto simp: understood_def)
  let ?fin = "\<lambda>s1. mg_request (fst s1) = ''createconference'' \<and> answers s s1"
  have nc: "\<not> \<not> (mg_newconf (fst s) \<and> mg_conf (fst s) \<noteq> NULL)" using c by simp
  have "all_val ?fin (finish_create s)"
    unfolding finish_create_def if_not_P [OF nc] Let_def
  proof (rule all_val_any, rule all_val_if)
    fix n
    let ?s = "fail 421 ''audio-mixing'' s"
    have a: "answers s ?s" using tells_stopped [OF tells_fail [OF tells_refl]] st by simp
    show "all_val ?fin (cpp_bind (conf_destroy (mg_conf (fst s)) (snd ?s)) (\<lambda>m1. Val (fst ?s, m1)))"
      by (rule all_val_bind [OF conf_destroy_silent]) (use a True in \<open>simp add: answers_def told_once_def silent_def\<close>)
    have "all_val (silent (snd s)) (conf_start (mg_conf (fst s)) (snd s))"
      unfolding conf_start_def by (intro all_val_any) simp
    then show "all_val ?fin (cpp_bind (conf_start (mg_conf (fst s)) (snd s)) (\<lambda>m1.
          Val (succeed ''Conference created'' (Some (nd_Id n)) (fst s, m1))))"
      by (rule all_val_bind) (use answers_succeed [OF tells_silent0 [OF st]] st True in \<open>simp add: succeed_def\<close>)
  qed
  then show ?thesis
    unfolding finish_request_def Let_def using True by (auto intro!: all_val_bind)
next
  case False
  then have c: "finish_create s = Val s \<or> mg_request (fst s) = ''audit''"
    using u by (auto simp: understood_def finish_create_def)
  have su: "answers s (succeed a b (fst s, m))" if "silent (snd s) m" for a b m
    using answers_succeed [OF tells_silent0 [OF st that]] st by simp
  have dst: "all_val (answers s) (cpp_bind (conf_destroy p (snd s)) (\<lambda>m1. Val (succeed a b (fst s, m1))))" for p a b
    by (rule all_val_bind [OF conf_destroy_silent]) (simp add: su)
  have dd: "all_val (answers s) (cpp_bind r (\<lambda>n. cpp_bind (conf_destroy p (snd s)) (\<lambda>m1. Val (succeed a (b n) (fst s, m1)))))"
    for a b p and r :: "mnode cpp"
    by (rule all_val_any) (rule dst)
  have md: "all_val (answers s) (cpp_bind r (\<lambda>n. Val (succeed a (b n) s)))" for a b and r :: "mnode cpp"
    using su [OF silent_refl] by (intro all_val_any) simp
  show ?thesis
  proof (cases "mg_request (fst s) = ''audit''")
    case True
    then show ?thesis using do_audit_answers [OF st] by (simp add: finish_request_def)
  next
    case na: False
    then have fc: "finish_create s = Val s" using c by simp
    have kn: "mg_request (fst s) \<in> {''modifyconference'', ''destroyconference'', ''join'', ''modifyjoin'', ''unjoin''}"
      using u False na by (auto simp: understood_def)
    show ?thesis
      unfolding finish_request_def if_not_P [OF na] fc cpp_bind.simps Let_def
    proof (intro all_val_if do_join_answers do_modifyjoin_answers do_unjoin_answers md dd)
    qed (use st kn in auto)
  qed
qed

subsection \<open>A document with one request\<close>

lemma parse_chunks: "mx_parse env (events_of (map Chunk cs)) s = Val s"
  by (induction cs) simp_all

lemma events_of_append: "events_of (xs @ ys) = events_of xs @ events_of ys"
  by (induction xs) simp_all

lemma cpp_bind_assoc: "cpp_bind (cpp_bind r f) g = cpp_bind r (\<lambda>x. cpp_bind (f x) g)"
  by (cases r) simp_all

lemma answers_opened: "answers (opened name s) s' \<longleftrightarrow> answers s s'"
  by (simp add: answers_def opened_def told_once_def)

lemma tells_opened: "tells (opened name s) s' \<longleftrightarrow> tells s s'"
  by (simp add: tells_def opened_def told_once_def)

lemma endElement_root:
  assumes "\<not> mg_stop (fst s)" and "mg_level (fst s) = 1" and "understood (fst s)"
  shows "all_val (answers s) (mx_endElement env s)"
proof -
  let ?s = "((fst s)\<lparr>mg_level := mg_level (fst s) - 1, mg_childs := butlast (mg_childs (fst s))\<rparr>, snd s)"
  have "all_val (answers ?s) (finish_request (me_bx env) ?s)"
    by (rule finish_request_answers) (use assms(1,3) in \<open>simp_all add: understood_def\<close>)
  moreover have "answers ?s = answers s" by (simp add: answers_def told_once_def fun_eq_iff)
  ultimately show ?thesis using assms(1,2) by (simp add: mx_endElement_def Let_def)
qed

text \<open>The request inside an opened rname element, up to the end of the root.\<close>

lemma request_answers:
  assumes st: "\<not> mg_stop (fst s)" and lv: "mg_level (fst s) = 1" and cf: "mg_conf (fst s) = NULL"
  shows "all_val (answers s) (mx_parse env (events (Elem name atts kids) @ events_of (map Chunk post) @ [EndElement rname]) s)"
  unfolding events.simps append_Cons mx_parse.simps mx_handle.simps
proof (rule all_val_bind)
  let ?o = "opened name s"
  have o: "\<not> mg_stop (fst ?o)" "mg_conf (fst ?o) = NULL" using st cf by (simp_all add: opened_def)
  show "all_val (\<lambda>x. begins ?o x) (mx_startElement env name atts s)"
    using start_request_begins [OF o, of env name atts] st lv by (simp add: mx_startElement_def Let_def opened_def)
  fix s1 assume s1: "begins ?o s1"
  show "all_val (answers s) (mx_parse env ((events_of kids @ [EndElement name]) @ events_of (map Chunk post) @ [EndElement rname]) s1)"
  proof (cases "mg_stop (fst s1)")
    case True
    then show ?thesis using s1 tells_stopped tells_opened by (auto simp: mx_parse_stopped begins_def)
  next
    case False
    then have t1: "tells s s1" "understood (fst s1)" "mg_level (fst s1) = mg_level (fst ?o)"
      using s1 by (simp_all add: begins_def tells_opened)
    then have t1: "tells s s1" "understood (fst s1)" "mg_level (fst s1) = 2" using lv by (simp_all add: opened_def)
    show ?thesis
      unfolding append_assoc mx_parse_append
    proof (rule all_val_bind [OF parse_inside(2) [OF False]])
      fix s2 assume s2: "stays s1 s2"
      show "all_val (answers s) (cpp_bind (mx_parse env [EndElement name] s2)
          (\<lambda>s3. cpp_bind (mx_parse env (events_of (map Chunk post)) s3) (mx_parse env [EndElement rname])))"
      proof (cases "mg_stop (fst s2)")
        case True
        then have "answers s s2" using s2 tells_answers [OF t1(1) False tells_stopped] by (simp add: stays_def)
        with True show ?thesis by (simp add: mx_endElement_def mx_parse_stopped parse_chunks)
      next
        case st2: False
        then have t2: "tells s s2" "understood (fst s2)" "mg_level (fst s2) = 2"
          using s2 t1 tells_trans [OF t1(1) False] by (auto simp: stays_def understood_def)
        show ?thesis
          unfolding parse_end parse_chunks cpp_bind_assoc mx_parse.simps
        proof (rule all_val_bind [OF endElement_inside [OF st2]], simp add: t2)
          fix s3
          assume s3: "tells s2 s3 \<and> \<not> mg_stop (fst s3) \<and> mg_level (fst s3) = mg_level (fst s2) - 1 \<and>
              mg_request (fst s3) = mg_request (fst s2) \<and> mg_newconf (fst s3) = mg_newconf (fst s2) \<and>
              mg_conf (fst s3) = mg_conf (fst s2)"
          then have t3: "tells s s3" "\<not> mg_stop (fst s3)" "understood (fst s3)" "mg_level (fst s3) = 1"
            using t2 tells_trans [OF t2(1) st2] by (auto simp: understood_def)
          have "all_val (answers s) (mx_endElement env s3)"
            by (rule all_val_mono [OF endElement_root [OF t3(2,4,3)] tells_answers [OF t3(1,2)]])
          then show "all_val (answers s) (cpp_bind (Val s3) (\<lambda>s4. cpp_bind (Val s4) (\<lambda>s5. cpp_bind (mx_endElement env s5) Val)))"
            by (cases "mx_endElement env s3") simp_all
        qed
      qed
    qed (simp add: t1)
  qed
qed

lemma document_answers:
  "all_val (answers (newMixerMessage r tid, m))
     (mx_parse env (events (Elem rname ratts (map Chunk pre @ [Elem name atts kids] @ map Chunk post))) (newMixerMessage r tid, m))"
proof -
  let ?s = "(newMixerMessage r tid, m)"
  let ?o = "opened rname ?s"
  have n: "\<not> mg_stop (newMixerMessage r tid)" "mg_level (newMixerMessage r tid) = 0" "mg_conf (newMixerMessage r tid) = NULL"
    by (simp_all add: newMixerMessage_def)
  let ?s1 = "start_root rname ratts ?o"
  have o: "\<not> mg_stop (fst ?o)" "mg_level (fst ?o) = 1" "mg_conf (fst ?o) = NULL" using n by (simp_all add: opened_def)
  have s1: "stays ?o ?s1" by (rule start_root_stays [OF o(1)])
  have st: "mx_startElement env rname ratts ?s = Val ?s1" using n by (simp add: mx_startElement_def Let_def opened_def)
  show ?thesis
  proof (cases "mg_stop (fst ?s1)")
    case True
    then have "answers ?s ?s1" using s1 tells_stopped tells_opened by (auto simp: stays_def)
    with True st show ?thesis by (simp add: mx_parse_stopped)
  next
    case False
    then have t: "tells ?s ?s1" "mg_level (fst ?s1) = 1" "mg_conf (fst ?s1) = NULL"
      using s1 o by (simp_all add: stays_def tells_opened)
    have "all_val (answers ?s) (mx_parse env (events (Elem name atts kids) @ events_of (map Chunk post) @ [EndElement rname]) ?s1)"
      by (rule all_val_mono [OF request_answers [OF False t(2,3)] tells_answers [OF t(1) False]])
    then show ?thesis
      unfolding events.simps(1) [of rname] events_of_append events_of.simps append_assoc mx_parse.simps mx_handle.simps st cpp_bind.simps
        mx_parse_append [of env "events_of (map Chunk pre)"] parse_chunks append_Nil .
  qed
qed

end
