(* ===== verification/MixerRounds.thy ===== *)
theory MixerRounds
  imports MixerHistory
begin

text \<open>
  Rounds of the conferences' threads of \<open>src/packages/MixerPackage.cxx\<close> come to an end: with whole frames
  of 20 ms in its queues, a conference of any history finds its peers alive and serves them.
\<close>

definition whole_frame :: "frame \<Rightarrow> bool" where
  "whole_frame f \<longleftrightarrow> fr_len f = 320 \<and> (case fr_buffer f of None \<Rightarrow> False | Some buf \<Rightarrow> length buf = 320)"

lemma whole_samples: "whole_frame f \<Longrightarrow> \<exists>ss. samples160 f = Val (Some ss)"
  by (auto simp: whole_frame_def samples160_def split: option.splits)

lemma whole_silence: "whole_frame f \<Longrightarrow> \<exists>b. isSilence (Some f) = Val b"
  by (auto simp: whole_frame_def isSilence_def Let_def split: option.splits)

lemma mix_bots_returns:
  "list_all (\<lambda>(tid, fs). list_all whole_frame fs) bots \<Longrightarrow> \<exists>r. mix_bots bots acc = Val r"
proof (induction bots acc rule: mix_bots.induct)
  case (2 tid rest acc)
  then obtain b r where "mix_bots rest acc = Val (b, r)" by auto
  then show ?case by simp
next
  case (3 tid f fs rest acc)
  then obtain ss where ss: "samples160 f = Val (Some ss)" using whole_samples by auto
  have "\<exists>r. mix_bots rest (add_samples acc ss) = Val r" using 3(1) [of "Some ss"] 3(2) by simp
  then obtain b r where "mix_bots rest (add_samples acc ss) = Val (b, r)" by auto
  then show ?case by (simp add: ss)
qed simp

lemma mix_peers_returns:
  assumes "smap_ok queued" and "\<forall>q. list_all whole_frame (frames_of queued q)"
    and "\<forall>q\<in>fst ` set es. q \<noteq> NULL \<and> h q \<noteq> None"
  shows "\<exists>r. mix_peers h playing es (buffer, talkers, queued) = Val r"
  using assms
proof (induction es arbitrary: buffer talkers queued)
  case (Cons e es)
  obtain q d where e: "e = (q, d)" by (cases e)
  obtain q1 where i: "smap_index [] q queued = (frames_of queued q, q1)" using frames_index [of q queued] by (metis prod.collapse)
  have q1: "smap_ok q1" "frames_of q1 = frames_of queued"
    using smap_index_ok [OF Cons.prems(1), of "[]" q] frames_of_index [OF Cons.prems(1), of q] i by simp_all
  have IH: "\<exists>r. mix_peers h playing es (b, t, q1) = Val r" "\<exists>r. mix_peers h playing es (b, t, queued) = Val r" for b t
    using Cons.IH [OF q1(1)] Cons.IH [OF Cons.prems(1)] q1(2) Cons.prems(2,3) by (auto simp: e)
  show ?case
  proof (cases "q = NULL \<or> \<not> (d = SENDRECV \<or> d = RECVONLY)")
    case True
    then show ?thesis using IH(2) by (simp only: e mix_peers.simps if_True)
  next
    case False
    show ?thesis
    proof (cases "frames_of queued q")
      case Nil
      then show ?thesis
        unfolding e mix_peers.simps if_not_P [OF False] Let_def i prod.case using IH(1) by simp
    next
      case (Cons f fs)
      then have wf: "whole_frame f" using Cons.prems(2) [THEN spec, of q] by simp
      obtain k where k: "h q = Some k" using Cons.prems(3) by (auto simp: e)
      obtain ss b where ss: "samples160 f = Val (Some ss)" "isSilence (Some f) = Val b"
        using whole_samples [OF wf] whole_silence [OF wf] by blast
      obtain t1 where t1: "(if b then Val talkers else cpp_bind (deref h q) (\<lambda>k. Val (talkers @ [nd_Id k]))) = Val t1"
        using k False by (cases b) (auto simp: deref_def)
      show ?thesis
        unfolding e mix_peers.simps if_not_P [OF False] Let_def i prod.case
        unfolding Cons list.case ss cpp_bind.simps option.case t1 by (rule IH(1))
    qed
  qed
qed simp

lemma mixed_frame: "length ss = 160 \<Longrightarrow> \<exists>g. newFrameBuf MEDIACTRL_MEDIA_AUDIO (bytes_of ss) 320 MEDIACTRL_RAW tod = Val g"
  using newFrameBuf_audio [of 320 "bytes_of ss" MEDIACTRL_RAW tod] by auto

text \<open>Sums of \<open>k\<close> frames, and the volumes for which their product fits 32 bits.\<close>

definition level_ok :: "nat \<Rightarrow> int list \<Rightarrow> bool" where
  "level_ok k xs \<longleftrightarrow> list_all (\<lambda>x. \<bar>x\<bar> \<le> 32768 * int k) xs"

lemma level_add:
  "length xs = length ys \<Longrightarrow> level_ok k xs \<Longrightarrow> level_ok l ys \<Longrightarrow> level_ok (k + l) (map2 (+) xs ys) \<and> level_ok (k + l) (map2 (-) xs ys)"
proof (induction xs ys rule: list_induct2)
  case (Cons x xs y ys)
  then have "\<bar>x\<bar> \<le> 32768 * int k" "\<bar>y\<bar> \<le> 32768 * int l" by (simp_all add: level_ok_def)
  then have "\<bar>x + y\<bar> \<le> 32768 * int (k + l)" "\<bar>x - y\<bar> \<le> 32768 * int (k + l)" by simp_all
  with Cons show ?case by (simp add: level_ok_def)
qed (simp add: level_ok_def)

lemma level_mono: "level_ok k xs \<Longrightarrow> k \<le> l \<Longrightarrow> level_ok l xs"
  unfolding level_ok_def by (erule list.pred_mono_strong) auto

lemma samples_level: "samples160 f = Val (Some ss) \<Longrightarrow> level_ok 1 ss"
  using samples_of_short by (fastforce simp: samples160_def level_ok_def list_all_iff is_short_def split: option.splits if_splits)

lemma third_level: "level_ok 1 ss \<Longrightarrow> level_ok 1 (third playing ss)"
proof -
  have "\<bar>cdiv x 3\<bar> \<le> \<bar>x\<bar>" for x by (auto simp: cdiv_def)
  then show "level_ok 1 ss \<Longrightarrow> level_ok 1 (third playing ss)"
    by (auto simp: level_ok_def third_def list_all_iff intro: order_trans)
qed

lemma mix_bots_level:
  "mix_bots bs acc = Val (b, r) \<Longrightarrow> length acc = 160 \<Longrightarrow> level_ok k acc \<Longrightarrow> level_ok (k + length bs) b"
proof (induction bs acc arbitrary: b r k rule: mix_bots.induct)
  case (2 tid rest acc)
  then obtain r' where "mix_bots rest acc = Val (b, r')" by (auto simp: cpp_bind_Val)
  from "2.IH" [OF this 2(3,4)] show ?case by (rule level_mono) simp
next
  case (3 tid f fs rest acc)
  then obtain so r' where so: "samples160 f = Val so"
    and r: "mix_bots rest (case so of None \<Rightarrow> acc | Some ss \<Rightarrow> add_samples acc ss) = Val (b, r')"
    by (auto simp: cpp_bind_Val)
  have "level_ok (k + 1) (case so of None \<Rightarrow> acc | Some ss \<Rightarrow> add_samples acc ss)"
  proof (cases so)
    case None
    then show ?thesis using level_mono [OF 3(4), of "k + 1"] by simp
  next
    case (Some ss)
    then have "samples160 f = Val (Some ss)" using so by simp
    then show ?thesis using level_add [OF _ 3(4) samples_level] samples160_length Some 3(3) by (simp add: add_samples_def)
  qed
  moreover have "length (case so of None \<Rightarrow> acc | Some ss \<Rightarrow> add_samples acc ss) = 160"
    using so 3(3) by (auto simp: samples160_length split: option.split)
  ultimately have "level_ok (k + 1 + length rest) b" using "3.IH" [OF r] by blast
  then show ?case by simp
qed simp

lemma part_level: "level_ok 1 (part playing queued e)"
proof -
  have "level_ok 1 (replicate 160 0)" by (simp add: level_ok_def list_all_iff)
  moreover have "level_ok 1 (third playing ss)" if "own_part d fs = Val (Some ss)" for d fs ss
    using that samples_level third_level by (fastforce simp: own_part_def split: list.splits if_splits)
  ultimately show ?thesis by (auto simp: part_def split: cpp.split option.split)
qed

lemma sum_level: "(\<forall>e\<in>set es. \<bar>f e\<bar> \<le> 32768) \<Longrightarrow> \<bar>\<Sum>e\<leftarrow>es. f e\<bar> \<le> 32768 * int (length es)" for f :: "'a \<Rightarrow> int"
proof (induction es)
  case (Cons a es)
  have "\<bar>f a\<bar> \<le> 32768" using Cons.prems by simp
  moreover have "\<bar>\<Sum>e\<leftarrow>es. f e\<bar> \<le> 32768 * int (length es)" using Cons by simp
  ultimately show ?case by simp
qed simp

lemma mix_peers_level:
  assumes "mix_peers h playing es (b, t, qs) = Val (b', t', qs')" and "smap_ok qs" and "length b = 160" and "level_ok k b"
  shows "level_ok (k + length es) b'"
  unfolding level_ok_def list_all_length
proof (intro allI impI)
  fix i assume "i < length b'"
  with mix_peers_sum [OF assms(1-3)] have i: "i < 160" "b' ! i = b ! i + (\<Sum>e\<leftarrow>es. part playing qs e ! i)" by auto
  have "\<bar>b ! i\<bar> \<le> 32768 * int k" using assms(3,4) i(1) by (simp add: level_ok_def list_all_length)
  moreover have "\<bar>\<Sum>e\<leftarrow>es. part playing qs e ! i\<bar> \<le> 32768 * int (length es)"
  proof (rule sum_level, rule ballI)
    fix e show "\<bar>part playing qs e ! i\<bar> \<le> 32768"
      using part_level [of playing qs e] i(1) by (simp add: level_ok_def list_all_length)
  qed
  ultimately show "\<bar>b' ! i\<bar> \<le> 32768 * int (k + length es)" using i(2) by simp
qed

lemma mix_out_returns:
  assumes "level_ok k buffer" and "length buffer = 160" and "own = None \<or> (\<exists>f. samples160 f = Val own)"
    and v: "\<bar>volume\<bar> * int (k + 1) \<le> 65535"
  shows "mix_out playing volume buffer own = Val (mixed playing volume buffer own)"
proof -
  have l: "level_ok (k + 1) (without_own playing buffer own)"
  proof (cases own)
    case None
    then show ?thesis using level_mono [OF assms(1), of "k + 1"] by (simp add: without_own_def)
  next
    case (Some ss)
    then obtain f where f: "samples160 f = Val (Some ss)" using assms(3) by auto
    show ?thesis
      using level_add [OF _ assms(1) third_level [OF samples_level [OF f]], of playing] samples160_length [OF f] assms(2) Some
      by (simp add: without_own_def)
  qed
  have "is_int32 (x * volume)" if "x \<in> set (without_own playing buffer own)" for x
  proof -
    have "\<bar>x\<bar> \<le> 32768 * int (k + 1)" using l that by (simp add: level_ok_def list_all_iff)
    then have "\<bar>x\<bar> * \<bar>volume\<bar> \<le> 32768 * int (k + 1) * \<bar>volume\<bar>" by (rule mult_right_mono) simp
    also have "\<dots> \<le> 32768 * 65535" using v by (simp add: algebra_simps)
    finally have "\<bar>x * volume\<bar> \<le> 2147450880" by (simp add: abs_mult)
    then show ?thesis unfolding is_int32_def by arith
  qed
  then show ?thesis by (simp add: mix_out_def list_all_iff)
qed

lemma own_part_returns: "list_all whole_frame fs \<Longrightarrow> \<exists>own. own_part d fs = Val own"
  using whole_samples by (cases fs) (auto simp: own_part_def)

lemma mix_one_returns:
  assumes p: "p \<noteq> NULL" "mx_heap m p = Some n" "p \<noteq> q" and fr: "list_all whole_frame (frames_of (nd_queued n) q)"
    and k: "mx_heap m q = Some k" "\<not> nd_conf k" and b: "length buffer = 160" "level_ok l buffer"
    and v: "\<bar>entry_of (nd_volumes n) q\<bar> * int (l + 1) \<le> 65535"
  shows "\<exists>m'. mix_one tod p playing buffer (q, d) m = Val m'"
proof (cases "q = NULL \<or> \<not> (d = SENDRECV \<or> d = SENDONLY)")
  case True
  then show ?thesis by (auto simp: mix_one_def)
next
  case False
  then have sq: "q \<noteq> NULL" "d = SENDRECV \<or> d = SENDONLY" by auto
  obtain own where own: "own_part d (frames_of (nd_queued n) q) = Val own" using own_part_returns [OF fr] by blast
  have "length (mixed playing (entry_of (nd_volumes n) q) buffer own) = 160"
    by (rule mixed_length [OF b(1)]) (use own own_part_length in simp)
  then obtain g where g: "newFrameBuf MEDIACTRL_MEDIA_AUDIO (bytes_of (mixed playing (entry_of (nd_volumes n) q) buffer own))
      320 MEDIACTRL_RAW tod = Val g" using mixed_frame by blast
  have "own = None \<or> (\<exists>f. samples160 f = Val own)" using own by (auto simp: own_part_def split: list.splits if_splits)
  note out = mix_out_returns [OF b(2,1) this v, of playing]
  have "\<exists>m'. node_feedFrame tod q p (g\<lparr>fr_who := ALLOC_MIXER\<rparr>) (putNode p (touch q n) m) = Val m'"
    using k p(3) sq(1) by (simp add: node_feedFrame_def con_feedFrame_def deref_def split: option.split)
  then show ?thesis
    unfolding mix_one_eq [OF p(1,2) sq] own out g cpp_bind.simps by auto
qed

lemma mix_each_returns:
  assumes "p \<noteq> NULL" "mx_heap m p = Some n" "sound_ok n" and "p \<notin> fst ` set es"
    and "\<forall>q. list_all whole_frame (frames_of (nd_queued n) q)" and "length buffer = 160" "level_ok l buffer"
    and "\<forall>q\<in>fst ` set es. \<exists>k. mx_heap m q = Some k \<and> \<not> nd_conf k"
    and "\<forall>q. \<bar>entry_of (nd_volumes n) q\<bar> * int (l + 1) \<le> 65535"
  shows "\<exists>m' n'. mix_each tod p playing buffer es m = Val m' \<and> mx_heap m' p = Some n'"
  using assms
proof (induction es arbitrary: m n)
  case (Cons e es)
  obtain q d where e: "e = (q, d)" by (cases e)
  obtain k where k: "mx_heap m q = Some k" "\<not> nd_conf k" using Cons.prems(8) by (auto simp: e)
  have pq: "p \<noteq> q" using Cons.prems(4) by (auto simp: e)
  obtain m1 where m1: "mix_one tod p playing buffer (q, d) m = Val m1"
    using mix_one_returns [OF Cons.prems(1,2) pq _ k Cons.prems(6,7)] Cons.prems(5,9) by blast
  from mix_one_keeps [OF m1 _ Cons.prems(2,3)] pq obtain n1 where n1: "mx_heap m1 p = Some n1" "same_sound n n1"
      "quiet_step p m m1" by blast
  have "\<exists>m' n'. mix_each tod p playing buffer es m1 = Val m' \<and> mx_heap m' p = Some n'"
  proof (rule Cons.IH [OF Cons.prems(1) n1(1)])
    show "sound_ok n1" "\<forall>q. list_all whole_frame (frames_of (nd_queued n1) q)"
        "\<forall>q. \<bar>entry_of (nd_volumes n1) q\<bar> * int (l + 1) \<le> 65535"
      using n1(2) Cons.prems(5,9) by (simp_all add: same_sound_def)
    show "\<forall>q\<in>fst ` set es. \<exists>k. mx_heap m1 q = Some k \<and> \<not> nd_conf k"
    proof
      fix x assume x: "x \<in> fst ` set es"
      then obtain k where "mx_heap m x = Some k" "\<not> nd_conf k" using Cons.prems(8) by auto
      moreover have "x \<noteq> p" using x Cons.prems(4) by auto
      ultimately show "\<exists>k. mx_heap m1 x = Some k \<and> \<not> nd_conf k" using n1(3) unfolding quiet_step_def by blast
    qed
  qed (use Cons.prems in auto)
  then show ?case using m1 by (simp add: e)
qed simp

lemma notify_talkers_returns: "p \<noteq> NULL \<Longrightarrow> mx_heap m p = Some n \<Longrightarrow> \<exists>m'. notify_talkers elapsed p talkers m = Val m'"
  by (simp add: notify_talkers_def notifyEvent_def deref_def)

text \<open>The peers of a conference are connections that are alive.\<close>

lemma conf_peers:
  assumes "mixer_ok m" and "mx_heap m p = Some n" "nd_conf n" and "(q, d) \<in> set (nd_nodes n)"
  obtains k where "q \<noteq> NULL" "q \<noteq> p" "mx_heap m q = Some k" "\<not> nd_conf k" "nd_requester k = nd_requester n"
    "0 \<le> d" "d \<le> 3" "smap_get (nd_nodes k) p = Some (getReverseDirection d)"
proof -
  have wf: "nodes_wf m" "graph_ok (faces m) (link m)" using assms(1) by (auto simp: mixer_ok_def)
  have l: "link m p q = Some d"
    using smap_in_get [OF node_wf(3) [OF wf(1) assms(2)] assms(4)] link_Some [of m, OF assms(2)] by simp
  from linked_faces [OF wf(2) l] obtain a b where ab: "faces m p = Some a" "faces m q = Some b" "fc_req a = fc_req b" "q \<noteq> NULL"
    "fc_conf a \<longrightarrow> p \<noteq> q \<and> fc_media b = MEDIACTRL_MEDIA_AUDIO" "0 \<le> d" "d \<le> 3"
    "p \<noteq> q \<longrightarrow> link m q p = Some (getReverseDirection d)" by metis
  obtain k where k: "mx_heap m q = Some k" "face_of k = b" using ab(2) by (auto simp: faces_def)
  have a: "fc_conf a" "fc_req a = nd_requester n" using ab(1) assms(2,3) by (auto simp: faces_def)
  have "\<not> nd_conf k" using node_wf(6) [OF wf(1) k(1)] ab(5) a(1) k(2) by auto
  then show ?thesis using that [of k] ab k a link_Some [of m, OF k(1)] by auto
qed

lemma conf_round_returns:
  assumes "mixer_ok m" and "mx_heap m p = Some n" "nd_conf n"
    and fr: "\<forall>q. list_all whole_frame (frames_of (nd_queued n) q)"
    and bots: "list_all (\<lambda>(tid, fs). list_all whole_frame fs) (nd_bots n)"
    and vol: "\<forall>q. \<bar>entry_of (nd_volumes n) q\<bar> * int (length (nd_bots n) + length (nd_nodes n) + 1) \<le> 65535"
  shows "\<exists>m'. conf_round tod elapsed p m = Val m'"
proof -
  have wf: "p \<noteq> NULL" "smap_ok (nd_nodes n)" "sound_ok n" using assms(1) node_wf [OF _ assms(2)] by (auto simp: mixer_ok_def)
  obtain buffer0 bts where b0: "mix_bots (nd_bots n) (replicate 160 0) = Val (buffer0, bts)"
    using mix_bots_returns [OF bots] by force
  have d: "deref (mx_heap m) p = Val n" using assms(2) wf(1) by (simp add: deref_def)
  show ?thesis
  proof (cases "nd_nodes n = []")
    case True
    then show ?thesis by (simp add: conf_round_def d b0 Let_def)
  next
    case False
    let ?pl = "nd_bots n \<noteq> []"
    have peers: "\<exists>k. q \<noteq> NULL \<and> q \<noteq> p \<and> mx_heap m q = Some k \<and> \<not> nd_conf k" if "q \<in> fst ` set (nd_nodes n)" for q
    proof -
      from that obtain d where "(q, d) \<in> set (nd_nodes n)" by auto
      from conf_peers [OF assms(1-3) this] show ?thesis by metis
    qed
    have sk: "smap_ok (nd_queued n)" using wf(3) by (simp add: sound_ok_def)
    obtain buffer talkers queued where mp: "mix_peers (mx_heap m) ?pl (nd_nodes n) (buffer0, [], nd_queued n) = Val (buffer, talkers, queued)"
      using mix_peers_returns [OF sk fr, of "nd_nodes n" "mx_heap m"] peers by (metis option.distinct(1) surj_pair)
    have sum: "smap_ok queued" "length buffer = 160" "frames_of queued = frames_of (nd_queued n)"
      using mix_peers_sum [OF mp sk mix_bots_length [OF b0]] by simp_all
    have "level_ok 0 (replicate 160 0)" by (simp add: level_ok_def list_all_iff)
    from mix_peers_level [OF mp sk mix_bots_length [OF b0] mix_bots_level [OF b0 _ this]]
    have lv: "level_ok (length (nd_bots n) + length (nd_nodes n)) buffer" by simp
    let ?n = "n\<lparr>nd_bots := bts, nd_playing := ?pl, nd_queued := queued\<rparr>"
    have "\<exists>m' n'. mix_each tod p ?pl buffer (nd_nodes n) (putNode p ?n m) = Val m' \<and> mx_heap m' p = Some n'"
    proof (rule mix_each_returns [OF wf(1)])
      show "mx_heap (putNode p ?n m) p = Some ?n" by simp
      show "sound_ok ?n" using wf(3) sum(1) by (simp add: sound_ok_def)
      show "p \<notin> fst ` set (nd_nodes n)" using peers by blast
      show "\<forall>q. list_all whole_frame (frames_of (nd_queued ?n) q)" using fr sum(3) by simp
      show "\<forall>q\<in>fst ` set (nd_nodes n). \<exists>k. mx_heap (putNode p ?n m) q = Some k \<and> \<not> nd_conf k"
      proof
        fix q assume "q \<in> fst ` set (nd_nodes n)"
        from peers [OF this] show "\<exists>k. mx_heap (putNode p ?n m) q = Some k \<and> \<not> nd_conf k" by auto
      qed
      show "\<forall>q. \<bar>entry_of (nd_volumes ?n) q\<bar> * int (length (nd_bots n) + length (nd_nodes n) + 1) \<le> 65535"
        using vol by simp
    qed (use sum(2) lv in simp_all)
    then obtain m1 n2 where m1: "mix_each tod p ?pl buffer (nd_nodes n) (putNode p ?n m) = Val m1" "mx_heap m1 p = Some n2" by blast
    have d1: "deref (mx_heap m1) p = Val n2" using m1(2) wf(1) by (simp add: deref_def)
    let ?m2 = "putNode p (n2\<lparr>nd_queued := drop_mixed (map fst (nd_nodes n2)) (nd_queued n2)\<rparr>) m1"
    obtain m' where "notify_talkers elapsed p talkers ?m2 = Val m'"
      using notify_talkers_returns [of p ?m2 "n2\<lparr>nd_queued := drop_mixed (map fst (nd_nodes n2)) (nd_queued n2)\<rparr>"] wf(1)
      by auto
    then show ?thesis
      unfolding conf_round_def d cpp_bind.simps b0 prod.case Let_def if_not_P [OF False] mp m1(1) d1
      using m1(1) by (simp add: d1)
  qed
qed

end
