(* ===== verification/MixerContract.thy ===== *)
theory MixerContract
  imports MixerLinks
begin

text \<open>
  The abstract class \<open>MixerNode\<close> of \<open>src/packages/MixerPackage.cxx\<close> as an interface: what \<open>attach\<close>, \<open>modify\<close> and
  \<open>detach\<close> promise about the links of a node, whichever class it has. Connections and conferences both
  keep the promise; a conference only takes peers that \<open>fits\<close> it.
\<close>

locale mixer_node =
  fixes fits :: "ptr \<Rightarrow> mixer \<Rightarrow> bool"
    and attach :: "ptr \<Rightarrow> ptr \<Rightarrow> int \<Rightarrow> int \<Rightarrow> mixer \<Rightarrow> (mixer \<times> int) cpp"
    and modify :: "ptr \<Rightarrow> ptr \<Rightarrow> int \<Rightarrow> int \<Rightarrow> mixer \<Rightarrow> (mixer \<times> int) cpp"
    and detach :: "ptr \<Rightarrow> ptr \<Rightarrow> mixer \<Rightarrow> (mixer \<times> int) cpp"
  assumes attach_law: "\<lbrakk>attach p q d v m = Val (m', err); nodes_wf m\<rbrakk> \<Longrightarrow>
      (err < 0 \<and> m' = m) \<or> (err = 0 \<and> relink p (\<lambda>l. l(q \<mapsto> d)) m m' \<and> fits q m \<and> q \<noteq> NULL)"
    and attach_linked: "\<lbrakk>attach p q d v m = Val (m', err); nodes_wf m; link m p q \<noteq> None\<rbrakk> \<Longrightarrow> err < 0"
    and modify_law: "\<lbrakk>modify p q d v m = Val (m', err); nodes_wf m; fits q m\<rbrakk> \<Longrightarrow>
      (err < 0 \<and> m' = m \<and> (q = NULL \<or> link m p q = None)) \<or> (err = 0 \<and> relink p (\<lambda>l. l(q \<mapsto> d)) m m')"
    and detach_law: "\<lbrakk>detach p q m = Val (m', err); nodes_wf m; fits q m\<rbrakk> \<Longrightarrow>
      (err < 0 \<and> m' = m \<and> (q = NULL \<or> link m p q = None)) \<or> (err = 0 \<and> relink p (\<lambda>l. l(q := None)) m m')"
    and fits_kept: "faces m' = faces m \<Longrightarrow> fits q m' = fits q m"
begin

lemma attached:
  assumes "attach p q d v m = Val (m1, 0)" and "nodes_wf m"
  shows "relink p (\<lambda>l. l(q \<mapsto> d)) m m1" and "link m p q = None" and "nodes_wf m1" and "fits q m1" and "q \<noteq> NULL"
    and "link m1 p q = Some d"
proof -
  from attach_law [OF assms] show r: "relink p (\<lambda>l. l(q \<mapsto> d)) m m1" and q: "q \<noteq> NULL" by auto
  show "link m p q = None" using attach_linked [OF assms] by (cases "link m p q") auto
  show "nodes_wf m1" "link m1 p q = Some d" using r by (simp_all add: relink_def)
  show "fits q m1" using attach_law [OF assms] fits_kept [of m1 m q] r by (auto simp: relink_def)
qed

lemma detach_undoes:
  assumes a: "attach p q d v m = Val (m1, 0)" and "nodes_wf m" and d: "detach p q m1 = Val (m2, err)"
  shows "err = 0 \<and> link m2 = link m \<and> faces m2 = faces m"
proof -
  note r = attached [OF a assms(2)]
  from detach_law [OF d r(3,4)] r(5,6) have "err = 0" "relink p (\<lambda>l. l(q := None)) m1 m2" by auto
  with r(1,2) show ?thesis by (auto simp: relink_def fun_eq_iff)
qed

lemma modify_replaces:
  assumes a: "attach p q d v m = Val (m1, 0)" and "nodes_wf m" and d: "modify p q d' v' m1 = Val (m2, err)"
  shows "err = 0 \<and> link m2 = (link m)(p := (link m p)(q \<mapsto> d')) \<and> faces m2 = faces m"
proof -
  note r = attached [OF a assms(2)]
  from modify_law [OF d r(3,4)] r(5,6) have "err = 0" "relink p (\<lambda>l. l(q \<mapsto> d')) m1 m2" by auto
  with r(1) show ?thesis by (auto simp: relink_def fun_eq_iff)
qed

lemma attach_once:
  assumes a: "attach p q d v m = Val (m1, 0)" and "nodes_wf m" and d: "attach p q d' v' m1 = Val (m2, err)"
  shows "err < 0 \<and> m2 = m1"
proof -
  note r = attached [OF a assms(2)]
  from attach_linked [OF d r(3)] attach_law [OF d r(3)] r(6) show ?thesis by auto
qed

end

subsection \<open>The two classes\<close>

definition audio_peer :: "ptr \<Rightarrow> mixer \<Rightarrow> bool" where
  "audio_peer q m \<longleftrightarrow> (\<exists>b. faces m q = Some b \<and> fc_media b = MEDIACTRL_MEDIA_AUDIO)"

lemma con_attach_linked: "con_attach p q d v m = Val (m', err) \<Longrightarrow> link m p q \<noteq> None \<Longrightarrow> err < 0"
  by (auto simp: con_attach_def cpp_bind_Val linked_iff link_def split: if_splits option.splits)

lemma conf_attach_linked: "conf_attach p q d v m = Val (m', err) \<Longrightarrow> link m p q \<noteq> None \<Longrightarrow> err < 0"
  by (auto simp: conf_attach_def cpp_bind_Val linked_iff link_def split: if_splits option.splits)

lemma attach_null: "con_attach p NULL d v m = Val (m, -1)" "conf_attach p NULL d v m = Val (m, -1)"
  by (simp_all add: con_attach_def conf_attach_def)

interpretation con_node: mixer_node "\<lambda>q m. True" con_attach con_modify con_detach
proof
  fix p q d v m m' err
  assume a: "con_attach p q d v m = Val (m', err)" and w: "nodes_wf m"
  show "(err < 0 \<and> m' = m) \<or> (err = 0 \<and> relink p (\<lambda>l. l(q \<mapsto> d)) m m' \<and> True \<and> q \<noteq> NULL)"
    using con_attach_effect [OF a w] a attach_null by (cases "q = NULL") auto
  show "link m p q \<noteq> None \<Longrightarrow> err < 0" by (rule con_attach_linked [OF a])
qed (simp_all add: con_modify_effect con_detach_effect)

interpretation conf_node: mixer_node audio_peer conf_attach conf_modify conf_detach
proof
  fix p q d v m m' err
  assume a: "conf_attach p q d v m = Val (m', err)" and w: "nodes_wf m"
  show "(err < 0 \<and> m' = m) \<or> (err = 0 \<and> relink p (\<lambda>l. l(q \<mapsto> d)) m m' \<and> audio_peer q m \<and> q \<noteq> NULL)"
    using conf_attach_effect [OF a w] a attach_null by (cases "q = NULL") (auto simp: audio_peer_def)
  show "link m p q \<noteq> None \<Longrightarrow> err < 0" by (rule conf_attach_linked [OF a])
qed (auto simp: audio_peer_def dest: conf_modify_effect conf_detach_effect)

text \<open>A virtual call keeps the promise of the class of its node.\<close>

lemma node_detach_undoes:
  assumes a: "node_attach p q d v m = Val (m1, 0)" and w: "nodes_wf m" and d: "node_detach p q m1 = Val (m2, err)"
  shows "err = 0 \<and> link m2 = link m \<and> faces m2 = faces m"
proof -
  from a obtain n where n: "mx_heap m p = Some n"
    and r: "(if nd_conf n then conf_attach p q d v m else con_attach p q d v m) = Val (m1, 0)"
    by (auto simp: node_attach_def cpp_bind_Val)
  from d obtain n1 where n1: "mx_heap m1 p = Some n1"
    and s: "(if nd_conf n1 then conf_detach p q m1 else con_detach p q m1) = Val (m2, err)"
    by (auto simp: node_detach_def cpp_bind_Val)
  show ?thesis
  proof (cases "nd_conf n")
    case True
    with r have c: "conf_attach p q d v m = Val (m1, 0)" by simp
    then have "faces m1 p = faces m p" using conf_node.attached(1) [OF c w] by (simp add: relink_def)
    then have "conf_detach p q m1 = Val (m2, err)" using s n n1 True by (simp add: faces_def face_of_def)
    from conf_node.detach_undoes [OF c w this] show ?thesis .
  next
    case False
    with r have c: "con_attach p q d v m = Val (m1, 0)" by simp
    then have "faces m1 p = faces m p" using con_node.attached(1) [OF c w] by (simp add: relink_def)
    then have "con_detach p q m1 = Val (m2, err)" using s n n1 False by (simp add: faces_def face_of_def)
    from con_node.detach_undoes [OF c w this] show ?thesis .
  qed
qed

end
