(* ===== verification/MixerDemo.thy ===== *)
theory MixerDemo
  imports MixerAnswers MixerRounds MixerContract
begin

text \<open>
  A demonstration of the mixer of \<open>src/packages/MixerPackage.cxx\<close>: an application server creates a
  conference, joins the audio of a call to it, and then modifies or removes the join. The witnesses
  of the properties of \<open>MixerProps\<close> rest on it.
\<close>

definition demo_mixer_bx :: boost where
  "demo_mixer_bx = \<lparr>bx_match = (\<lambda>re s. if s = ''a~b'' then Some [s, '''', '''', s] else Some [s, s, '''', '''']),
     bx_tokens = (\<lambda>re s. [s])\<rparr>"

definition demo_mixer_env :: mixer_env where
  "demo_mixer_env = \<lparr>me_bx = demo_mixer_bx, me_random = [], me_elapsed = 0\<rparr>"

definition mixer_atts :: "(string \<times> string) list" where
  "mixer_atts = [(''version'', ''1.0''), (''xmlns'', ''urn:ietf:params:xml:ns:msc-mixer'')]"

definition create_doc :: xml where
  "create_doc = Elem ''mscmixer'' mixer_atts [Elem ''createconference'' [(''conferenceid'', ''room'')]
     [Elem ''audio-mixing'' [(''type'', ''nbest'')] []]]"

definition demo_created :: "mixer cpp" where
  "demo_created = mixer_control demo_mixer_env 7 ''t1'' ''x'' (Some create_doc) (newMixer 9 demo_core)"

definition demo_msg :: mmsg where
  "demo_msg = (newMixerMessage 7 ''t2'')\<lparr>mg_id1 := ''a~b'', mg_id2 := ''room''\<rparr>"

definition demo_stream :: mstream where
  "demo_stream = newStream\<lparr>st_media := ''audio'', st_mediaType := MEDIACTRL_MEDIA_AUDIO, st_direction := SENDONLY\<rparr>"

text \<open>The join as a request, so that what it leads to is a history, and an attempt of another server.\<close>

definition join_doc :: xml where
  "join_doc = Elem ''mscmixer'' mixer_atts [Elem ''join'' [(''id1'', ''a~b''), (''id2'', ''room'')] []]"

definition destroy_doc :: xml where
  "destroy_doc = Elem ''mscmixer'' mixer_atts [Elem ''destroyconference'' [(''conferenceid'', ''room'')] []]"

definition demo_linked :: "mixer cpp" where
  "demo_linked = cpp_bind demo_created (mixer_control demo_mixer_env 7 ''t2'' ''x'' (Some join_doc))"

text \<open>Two connections that the core knows already, whose audio is joined.\<close>

definition calls_core :: core where
  "calls_core = demo_core\<lparr>
     core_md := putCp 21 (newCpc ''a~b'' ''x'') (putCp 23 (newCpc ''c~d'' ''y'') (noMedia\<lparr>
        md_conns := [20 \<mapsto> \<lparr>mc_media = MEDIACTRL_MEDIA_AUDIO, mc_Id = ''a~b'', mc_label = ''x'', mc_cp = 21, mc_sip = NULL,
            mc_rtp = NULL, mc_channels = [], mc_owner = NULL, mc_counter = 0\<rparr>,
          22 \<mapsto> \<lparr>mc_media = MEDIACTRL_MEDIA_AUDIO, mc_Id = ''c~d'', mc_label = ''y'', mc_cp = 23, mc_sip = NULL,
            mc_rtp = NULL, mc_channels = [], mc_owner = NULL, mc_counter = 0\<rparr>]\<rparr>)),
     core_sipConnections := [(''a~b'', 3), (''c~d'', 4)], core_endpointConnections := [(''a~b'', 20), (''c~d'', 22)]\<rparr>"

definition call_doc :: xml where
  "call_doc = Elem ''mscmixer'' mixer_atts [Elem ''join'' [(''id1'', ''a~b''), (''id2'', ''c~d'')] []]"

definition call_env :: mixer_env where
  "call_env = demo_mixer_env\<lparr>me_bx := \<lparr>bx_match = (\<lambda>re s. Some [s, '''', '''', s]), bx_tokens = (\<lambda>re s. [s])\<rparr>\<rparr>"

definition demo_calls :: "mixer cpp" where
  "demo_calls = mixer_control call_env 7 ''t1'' ''x'' (Some call_doc) (newMixer 9 calls_core)"

definition calls_msg :: mmsg where
  "calls_msg = (newMixerMessage 7 ''t2'')\<lparr>mg_id1 := ''a~b'', mg_id2 := ''c~d''\<rparr>"

definition joined_as :: "int option \<Rightarrow> mixer \<Rightarrow> bool" where
  "joined_as d m = (case (mx_heap m 2, mx_heap m 1) of
     (Some a, Some b) \<Rightarrow> \<not> nd_conf a \<and> nd_conf b \<and> nd_requester a = 7 \<and> nd_requester b = 7 \<and>
       smap_get (nd_nodes a) 1 = d \<and> smap_get (nd_nodes b) 2 = map_option getReverseDirection d
   | _ \<Rightarrow> False)"

definition val_and :: "('a \<Rightarrow> bool) \<Rightarrow> 'a cpp \<Rightarrow> bool" where
  "val_and P r = (case r of Undef \<Rightarrow> False | Val x \<Rightarrow> P x)"

lemma case_optionE: "(case x of None \<Rightarrow> False | Some n \<Rightarrow> P n) \<Longrightarrow> (\<And>n. x = Some n \<Longrightarrow> P n \<Longrightarrow> thesis) \<Longrightarrow> thesis"
  by (cases x) auto

lemma val_andE: "val_and P r \<Longrightarrow> (\<And>x. r = Val x \<Longrightarrow> P x \<Longrightarrow> thesis) \<Longrightarrow> thesis"
  by (cases r) (auto simp: val_and_def)

lemma demo_created_runs:
  "val_and (\<lambda>m. val_and (\<lambda>s. \<not> mg_stop (fst s) \<and> joined_as (Some SENDRECV) (snd s)) (do_join demo_mixer_bx (demo_msg, m)) \<and>
       (case mx_heap m 1 of Some n \<Rightarrow> nd_requester n = 7 | None \<Rightarrow> False) \<and>
       val_and (\<lambda>_. True) (mixer_control demo_mixer_env 8 ''t'' ''x'' (Some destroy_doc) m)) demo_created"
  by code_simp

definition conference_of_one :: "mixer \<Rightarrow> bool" where
  "conference_of_one m = (case mx_heap m 1 of None \<Rightarrow> False | Some b \<Rightarrow> nd_conf b \<and> nd_queued b = [] \<and> nd_bots b = [] \<and>
     nd_volumes b = [(2, 100)] \<and> nd_mutes b = [(2, VOLUME_UNMUTE)] \<and> nd_nodes b = [(2, SENDRECV)])"

lemma demo_linked_runs: "val_and (\<lambda>m. joined_as (Some SENDRECV) m \<and> conference_of_one m) demo_linked"
  by code_simp

definition called_as :: "int option \<Rightarrow> mixer \<Rightarrow> bool" where
  "called_as d m = (case (mx_heap m 1, mx_heap m 2) of
     (Some a, Some b) \<Rightarrow> smap_get (nd_nodes a) 2 = d \<and> smap_get (nd_nodes b) 1 = map_option getReverseDirection d
   | _ \<Rightarrow> False)"

lemma demo_modified_runs:
  "val_and (\<lambda>m. called_as (Some SENDRECV) m \<and>
     val_and (\<lambda>s. \<not> mg_stop (fst s) \<and> called_as (Some SENDONLY) (snd s))
       (do_modifyjoin (me_bx call_env) (calls_msg\<lparr>mg_streams := [demo_stream]\<rparr>, m))) demo_calls"
  by code_simp

lemma demo_unjoined_runs:
  "val_and (\<lambda>m. called_as (Some SENDRECV) m \<and>
     val_and (\<lambda>s. \<not> mg_stop (fst s) \<and> called_as None (snd s)) (do_unjoin (me_bx call_env) (calls_msg, m))) demo_calls"
  by code_simp

lemma demo_echo_runs:
  "val_and (\<lambda>m. val_and (\<lambda>x. snd x = 0 \<and> val_and (\<lambda>_. True) (node_detach 1 1 (fst x))) (node_attach 1 1 SENDRECV 100 m)) demo_calls"
  by code_simp

text \<open>What these runs lead to are histories of the mixer.\<close>

lemma demo_created_reached: "demo_created = Val m \<Longrightarrow> mixer_reach (newMixer 9 demo_core) m"
  unfolding demo_created_def by (rule mixer_reach.step [OF mixer_reach.start mixer_step.control])

lemma demo_linked_reached:
  assumes "demo_linked = Val m"
  shows "mixer_reach (newMixer 9 demo_core) m"
proof -
  obtain m0 where "demo_created = Val m0" "mixer_control demo_mixer_env 7 ''t2'' ''x'' (Some join_doc) m0 = Val m"
    using assms unfolding demo_linked_def by (rule cpp_bindE)
  then show ?thesis by (metis mixer_reach.step demo_created_reached mixer_step.control)
qed

lemma demo_calls_reached: "demo_calls = Val m \<Longrightarrow> mixer_reach (newMixer 9 calls_core) m"
  unfolding demo_calls_def by (rule mixer_reach.step [OF mixer_reach.start mixer_step.control])

lemma joined_link: "joined_as d m \<Longrightarrow> link m 2 1 = d"
  by (auto simp: joined_as_def link_def split: option.splits)

lemma called_link: "called_as d m \<Longrightarrow> link m 1 2 = d"
  by (auto simp: called_as_def link_def split: option.splits)

lemma demo_history:
  obtains m a b where "demo_linked = Val m" "mixer_reach (newMixer 9 demo_core) m" "mx_heap m 2 = Some a" "mx_heap m 1 = Some b"
    "\<not> nd_conf a" "nd_conf b" "nd_requester a = 7" "nd_requester b = 7" "smap_get (nd_nodes a) 1 = Some SENDRECV"
    "smap_get (nd_nodes b) 2 = Some SENDRECV"
proof -
  from demo_linked_runs obtain m where m: "demo_linked = Val m" "joined_as (Some SENDRECV) m" by (blast elim: val_andE)
  from m(2) show thesis
    by (auto simp: joined_as_def getReverseDirection_def split: option.splits
        intro: that [OF m(1) demo_linked_reached [OF m(1)]])
qed

lemma demo_conference:
  obtains m b where "demo_linked = Val m" "mixer_reach (newMixer 9 demo_core) m" "mx_heap m 1 = Some b" "nd_conf b"
    "nd_queued b = []" "nd_bots b = []" "nd_volumes b = [(2, 100)]" "nd_mutes b = [(2, VOLUME_UNMUTE)]"
    "nd_nodes b = [(2, SENDRECV)]"
proof -
  from demo_linked_runs obtain m where m: "demo_linked = Val m" "conference_of_one m" by (blast elim: val_andE)
  from m(2) show thesis
    unfolding conference_of_one_def by (elim case_optionE) (blast intro: that [OF m(1) demo_linked_reached [OF m(1)]])
qed

lemma demo_msg_fields [simp]: "mg_conf demo_msg = NULL" "mg_direction demo_msg = SENDRECV"
  by (simp_all add: demo_msg_def newMixerMessage_def)

lemma calls_msg_fields [simp]: "mg_conf calls_msg = NULL" "mg_direction calls_msg = SENDRECV"
  by (simp_all add: calls_msg_def newMixerMessage_def)

end
