(* ===== verification/MixerProps.thy ===== *)
theory MixerProps
  imports MixerDemo
begin

text \<open>
  What the mixer of \<open>src/packages/MixerPackage.cxx\<close> promises as a whole, over all its histories: its graph
  of joins, the separation of the application servers, the answers, and the rounds of conferences.
\<close>

subsection \<open>The graph of joins\<close>

text \<open>
  C9. In every history of the mixer a link has two ends: whenever a node lists another one, that node
  exists, belongs to the same requester, and lists the first one with the reverse direction. The
  direction is one of the four, and two conferences are never linked.
\<close>

theorem links_two_sided:
  assumes "mixer_reach (newMixer pkg k) m" and "mx_heap m p = Some n" and "smap_get (nd_nodes n) q = Some d"
  shows "q \<noteq> NULL \<and> 0 \<le> d \<and> d \<le> 3 \<and> (\<exists>n'. mx_heap m q = Some n' \<and> nd_requester n' = nd_requester n \<and>
     (p \<noteq> q \<longrightarrow> smap_get (nd_nodes n') p = Some (getReverseDirection d)) \<and> \<not> (nd_conf n \<and> nd_conf n'))"
proof -
  have ok: "mixer_ok m" by (rule reach_ok [OF assms(1) newMixer_ok])
  then have g: "graph_ok (faces m) (link m)" and w: "nodes_wf m" by (auto simp: mixer_ok_def)
  have "link m p q = Some d" using assms(2,3) by (simp add: link_Some)
  from linked_faces [OF g this] obtain a b where f: "faces m p = Some a" "faces m q = Some b" "fc_req a = fc_req b"
      "q \<noteq> NULL" "fc_conf a \<longrightarrow> p \<noteq> q \<and> fc_media b = MEDIACTRL_MEDIA_AUDIO" "0 \<le> d" "d \<le> 3"
      "p \<noteq> q \<longrightarrow> link m q p = Some (getReverseDirection d)" by metis
  from f(2) obtain n' where n': "mx_heap m q = Some n'" "b = face_of n'" by (auto simp: faces_def)
  have "a = face_of n" using f(1) assms(2) by (simp add: faces_def)
  then show ?thesis using f n' node_wf(6) [OF w n'(1)] link_Some [of m, OF n'(1)] by auto
qed

theorem links_two_sided_witness:
  "\<exists>m n n'. mixer_reach (newMixer 9 demo_core) m \<and> mx_heap m 2 = Some n \<and> mx_heap m 1 = Some n' \<and>
     smap_get (nd_nodes n') 2 = Some (getReverseDirection SENDRECV)"
proof -
  obtain m a b where h: "mixer_reach (newMixer 9 demo_core) m" "mx_heap m 2 = Some a" "mx_heap m 1 = Some b"
      "smap_get (nd_nodes a) 1 = Some SENDRECV" by (rule demo_history)
  from links_two_sided [OF h(1,2,4)] h show ?thesis by auto
qed

text \<open>
  C18. In every history the package's maps name nodes that are alive: an entry for a connection that is
  not NULL is the node of that connection, an entry for an identifier the conference of that
  identifier. Every node's maps are ordered and without duplicates, and its count of receptions is 0.
\<close>

theorem nodes_well_formed:
  assumes "mixer_reach (newMixer pkg k) m"
  shows "(\<forall>cp p. smap_get (mx_nodes m) cp = Some p \<and> p \<noteq> NULL \<longrightarrow> (\<exists>n. mx_heap m p = Some n \<and> nd_connection n = cp)) \<and>
     (\<forall>i p. smap_get (mx_confs m) i = Some p \<and> p \<noteq> NULL \<longrightarrow> (\<exists>n. mx_heap m p = Some n \<and> nd_conf n \<and> nd_Id n = i)) \<and>
     (\<forall>p n. mx_heap m p = Some n \<longrightarrow> p \<noteq> NULL \<and> p < mx_next m \<and> smap_ok (nd_nodes n) \<and> smap_ok (nd_mutes n) \<and>
        smap_ok (nd_volumes n) \<and> smap_ok (nd_queued n) \<and> nd_receiving n = 0)"
proof -
  have ok: "mixer_ok m" by (rule reach_ok [OF assms newMixer_ok])
  then have r: "registry_ok (faces m) (mx_nodes m) (mx_confs m)" and w: "nodes_wf m" by (auto simp: mixer_ok_def)
  have n: "\<exists>n. mx_heap m p = Some n \<and> nd_connection n = cp" if "smap_get (mx_nodes m) cp = Some p" "p \<noteq> NULL" for cp p
    by (rule registered_alive [OF ok that]) blast
  have "\<exists>n. mx_heap m p = Some n \<and> nd_conf n \<and> nd_Id n = i" if "smap_get (mx_confs m) i = Some p" "p \<noteq> NULL" for i p
  proof -
    have "\<exists>a. faces m p = Some a \<and> fc_conf a \<and> fc_id a = i" using r that unfolding registry_ok_def by blast
    then show ?thesis by (auto simp: faces_def)
  qed
  then show ?thesis using n node_wf [OF w] unfolding sound_ok_def by blast
qed

theorem nodes_well_formed_witness:
  "\<exists>m n. mixer_reach (newMixer 9 demo_core) m \<and> mx_heap m 1 = Some n \<and> nd_conf n \<and> smap_ok (nd_nodes n) \<and> nd_nodes n \<noteq> []"
proof -
  obtain m a b where h: "mixer_reach (newMixer 9 demo_core) m" "mx_heap m 1 = Some b" "nd_conf b"
      "smap_get (nd_nodes b) 2 = Some SENDRECV" by (rule demo_history)
  have "smap_ok (nd_nodes b)" using nodes_well_formed [OF h(1)] h(2) by blast
  moreover have "nd_nodes b \<noteq> []" using h(4) by auto
  ultimately show ?thesis using h by blast
qed

subsection \<open>Requests\<close>

text \<open>
  C10. A CONTROL request never changes a node of another application server: not its links, its volumes
  or its subscriptions, and it does not destroy it, whatever identifiers the request names.
\<close>

theorem requester_isolation:
  assumes "mixer_reach (newMixer pkg k) m" and "mixer_control env r tid blob doc m = Val m'"
    and "mx_heap m p = Some n" and "nd_requester n \<noteq> r"
  shows "mx_heap m' p = Some n"
proof -
  have "mixer_ok m" by (rule reach_ok [OF assms(1) newMixer_ok])
  from all_val_get [OF control_keeps [OF this] assms(2)] have "evolves r m m'" by (simp add: keeps_def)
  with assms(3,4) show ?thesis by (simp add: evolves_def)
qed

theorem requester_isolation_witness:
  "\<exists>m m' n. mixer_control demo_mixer_env 8 ''t'' ''x'' (Some destroy_doc) m = Val m' \<and> mx_heap m 1 = Some n \<and> mx_heap m' 1 = Some n"
proof -
  obtain m m' n where h: "demo_created = Val m" "mx_heap m 1 = Some n" "nd_requester n = 7"
      "mixer_control demo_mixer_env 8 ''t'' ''x'' (Some destroy_doc) m = Val m'"
    using demo_created_runs by (blast elim!: val_andE case_optionE)
  have "nd_requester n \<noteq> 8" using h(3) by simp
  from requester_isolation [OF demo_created_reached [OF h(1)] h(4) h(2) this] have "mx_heap m' 1 = Some n" .
  with h show ?thesis by blast
qed









subsection \<open>Answers\<close>



text \<open>
  C19. A \<open>mscmixer\<close> document without a request is never answered and changes nothing, although its root
  element is in order; the transaction of the stack is left to its timeout.
\<close>

theorem nothing_asked_nothing_answered:
  assumes "blob \<noteq> ''''" and "\<not> mg_stop (fst (start_root rname ratts (newMixerMessage r tid, m)))"
  shows "mixer_control env r tid blob (Some (Elem rname ratts (map Chunk cs))) m = Val m"
proof -
  let ?o = "opened rname (newMixerMessage r tid, m)"
  have o: "\<not> mg_stop (newMixerMessage r tid)" "mg_level (newMixerMessage r tid) = 0" "mg_childs (newMixerMessage r tid) = []"
    by (simp_all add: newMixerMessage_def)
  have sr: "start_root rname ratts ?o = ?o"
    using assms(2) by (auto simp: start_root_def split: sum.splits if_splits)
  have st: "mx_startElement env rname ratts (newMixerMessage r tid, m) = Val ?o"
    using o sr by (simp add: mx_startElement_def Let_def opened_def)
  have "mx_endElement env ?o = Val ((newMixerMessage r tid)\<lparr>mg_level := 0, mg_childs := []\<rparr>, m)"
    by (simp add: mx_endElement_def Let_def opened_def o finish_request_def finish_create_def)
      (simp add: newMixerMessage_def finish_request_def finish_create_def)
  then show ?thesis using assms(1)
    by (simp add: mixer_control_def st mx_parse_append parse_chunks)
qed

theorem nothing_asked_nothing_answered_witness:
  "mixer_control demo_mixer_env 7 ''t'' ''x'' (Some (Elem ''mscmixer'' mixer_atts (map Chunk [''hello'']))) (newMixer 9 demo_core) =
     Val (newMixer 9 demo_core)"
  by (rule nothing_asked_nothing_answered) (simp_all add: start_root_def mixer_atts_def newMixerMessage_def)

subsection \<open>Rounds\<close>

text \<open>
  C13. Rounds come to an end and serve everyone: in every history, a round of a conference returns when
  the frames in its queues are whole and its volumes moderate for its size, and every peer that may
  listen and is not muted is sent a frame.
\<close>

theorem everyone_is_served:
  assumes "mixer_reach (newMixer pkg k) m" and "mx_heap m p = Some n" and "nd_conf n"
    and "\<forall>q. list_all whole_frame (frames_of (nd_queued n) q)" and "list_all (\<lambda>(tid, fs). list_all whole_frame fs) (nd_bots n)"
    and "\<forall>q. \<bar>entry_of (nd_volumes n) q\<bar> * int (length (nd_bots n) + length (nd_nodes n) + 1) \<le> 65535"
  shows "\<exists>m'. conf_round tod elapsed p m = Val m' \<and>
     (\<forall>q d. (q, d) \<in> set (nd_nodes n) \<and> (d = SENDRECV \<or> d = SENDONLY) \<and> entry_of (nd_mutes n) q \<noteq> VOLUME_MUTE \<longrightarrow>
        (\<exists>a f. mx_heap m q = Some a \<and> SendFrame (nd_connection a) f \<in> set (drop (length (mx_out m)) (mx_out m'))))"
proof -
  have ok: "mixer_ok m" by (rule reach_ok [OF assms(1) newMixer_ok])
  then have wf: "nodes_wf m" by (simp add: mixer_ok_def)
  note w = node_wf [OF wf assms(2)]
  obtain m' where m': "conf_round tod elapsed p m = Val m'" using conf_round_returns [OF ok assms(2-6)] by blast
  have "\<exists>a f. mx_heap m q = Some a \<and> SendFrame (nd_connection a) f \<in> set (drop (length (mx_out m)) (mx_out m'))"
    if q: "(q, d) \<in> set (nd_nodes n)" "d = SENDRECV \<or> d = SENDONLY" "entry_of (nd_mutes n) q \<noteq> VOLUME_MUTE" for q d
  proof -
    obtain a where a: "q \<noteq> NULL" "mx_heap m q = Some a" "\<not> nd_conf a" "smap_get (nd_nodes a) p = Some (getReverseDirection d)"
      using conf_peers [OF ok assms(2,3) q(1)] by metis
    have r: "getReverseDirection d = SENDRECV \<or> getReverseDirection d = RECVONLY"
      using q(2) by (auto simp: getReverseDirection_def)
    have np: "p \<notin> fst ` set (nd_nodes n)"
    proof
      assume "p \<in> fst ` set (nd_nodes n)"
      then obtain e where "(p, e) \<in> set (nd_nodes n)" by auto
      then show False by (rule conf_peers [OF ok assms(2,3)]) simp
    qed
    from round_serves [OF m' assms(2) w(3,4) np q(1) a(1) q(2,3) a(2-4) r] a(2) show ?thesis by blast
  qed
  with m' show ?thesis by blast
qed

theorem everyone_is_served_witness:
  "\<exists>m m' a f. demo_linked = Val m \<and> conf_round 0 0 1 m = Val m' \<and> mx_heap m 2 = Some a \<and>
     SendFrame (nd_connection a) f \<in> set (drop (length (mx_out m)) (mx_out m'))"
proof -
  obtain m b where h: "demo_linked = Val m" "mixer_reach (newMixer 9 demo_core) m" "mx_heap m 1 = Some b" "nd_conf b"
      "nd_queued b = []" "nd_bots b = []" "nd_volumes b = [(2, 100)]" "nd_mutes b = [(2, VOLUME_UNMUTE)]"
      "nd_nodes b = [(2, SENDRECV)]" by (rule demo_conference)
  have "\<forall>q. list_all whole_frame (frames_of (nd_queued b) q)" "list_all (\<lambda>(tid, fs). list_all whole_frame fs) (nd_bots b)"
      "\<forall>q. \<bar>entry_of (nd_volumes b) q\<bar> * int (length (nd_bots b) + length (nd_nodes b) + 1) \<le> 65535"
    by (simp_all add: h frames_of_def entry_of_def smap_get_def)
  from everyone_is_served [OF h(2-4) this, of 0 0] obtain m' where m': "conf_round 0 0 1 m = Val m'"
    and s: "\<forall>q d. (q, d) \<in> set (nd_nodes b) \<and> (d = SENDRECV \<or> d = SENDONLY) \<and> entry_of (nd_mutes b) q \<noteq> VOLUME_MUTE \<longrightarrow>
        (\<exists>a f. mx_heap m q = Some a \<and> SendFrame (nd_connection a) f \<in> set (drop (length (mx_out m)) (mx_out m')))" by blast
  have "entry_of (nd_mutes b) 2 \<noteq> VOLUME_MUTE" "(2, SENDRECV) \<in> set (nd_nodes b)" by (simp_all add: h entry_of_def smap_get_def)
  with s h(1) m' show ?thesis by blast
qed

end
