(* ===== verification/IvrValues.thy ===== *)
theory IvrValues
  imports MixerControl
begin

text \<open>
  \<open>src/packages/IvrPackage.cxx\<close>, the helpers of the dialogs: times, percentages, DTMF digits, and the
  files that speak the value of a \<open>variable\<close>. \<open>booleanValue\<close>, \<open>positiveInteger\<close>, \<open>isSilence\<close> and
  \<open>random_string\<close> are the same code as in the mixer package (\<open>MixerControl\<close>, \<open>MixerAudio\<close>, \<open>MixerNode\<close>).
  Lists of digits are as long as the regular expressions let them be; \<open>atoi\<close> beyond the range of
  \<open>int\<close>, and a product beyond it, are undefined.
\<close>

subsection \<open>Values of parameters\<close>

definition checkType :: "boost \<Rightarrow> string \<Rightarrow> int" where
  "checkType bx t = (if bx_match bx ''application/msc-ivr+xml'' t = None then -1 else 0)"

definition parseDirection :: "boost \<Rightarrow> string \<Rightarrow> int" where
  "parseDirection bx d =
     (if bx_match bx ''sendrecv'' d \<noteq> None then SENDRECV
      else if bx_match bx ''sendonly'' d \<noteq> None then SENDONLY
      else if bx_match bx ''recvonly'' d \<noteq> None then RECVONLY
      else if bx_match bx ''inactive'' d \<noteq> None then INACTIVE
      else -1)"

definition rx_time :: string where
  "rx_time = bsl @ ''+?('' @ bsl @ ''d+)?'' @ bsl @ ''.*('' @ bsl @ ''d+)?(s|ms)''"

text \<open>What \<open>time += atoi(match)*m\<close> adds for one of the two groups of digits.\<close>

definition add_time :: "string \<Rightarrow> int \<Rightarrow> u32 \<Rightarrow> u32 cpp" where
  "add_time digits m time =
     (if digits = '''' then Val time
      else if is_int32 (atoi digits) \<and> is_int32 (atoi digits * m) then Val (time + word_of_int (atoi digits * m))
      else Undef)"

text \<open>The value, and whether it is one.\<close>

definition timeDesignation :: "boost \<Rightarrow> string \<Rightarrow> (u32 \<times> bool) cpp" where
  "timeDesignation bx v = (case bx_match bx rx_time v of None \<Rightarrow> Val (0, False)
     | Some ms \<Rightarrow>
         let m = (if sub ms 3 = ''s'' then 1000 else 1) in
         cpp_bind (add_time (sub ms 1) m 0) (\<lambda>t.
         cpp_bind (add_time (sub ms 2) (m div 10) t) (\<lambda>t'. Val (t', True))))"

definition rx_percent :: string where
  "rx_percent = bsl @ ''+?('' @ bsl @ ''d|'' @ bsl @ ''d{2}|'' @ bsl @ ''d{3})%''"

definition percentValue :: "boost \<Rightarrow> string \<Rightarrow> u16 \<times> bool" where
  "percentValue bx v = (case bx_match bx rx_percent v of None \<Rightarrow> (0, False)
     | Some ms \<Rightarrow> (word_of_int (atoi (sub ms 1)), True))"

subsection \<open>Digits\<close>

abbreviation (input) MEDIACTRL_DTMF_NONE :: int where "MEDIACTRL_DTMF_NONE \<equiv> -1"
abbreviation (input) MEDIACTRL_DTMF_POUND :: int where "MEDIACTRL_DTMF_POUND \<equiv> 11"

definition dtmf_keys :: string where
  "dtmf_keys = ''0123456789*#ABCD''"

text \<open>The chain of comparisons goes through the keys in the order of their numbers.\<close>

fun key_index :: "char \<Rightarrow> string \<Rightarrow> int \<Rightarrow> int option" where
  "key_index c [] k = None"
| "key_index c (x # xs) k = (if c = x then Some k else key_index c xs (k + 1))"

definition dtmfDigit :: "string \<Rightarrow> int \<times> bool" where
  "dtmfDigit v = (case v of [c] \<Rightarrow>
       (case key_index c dtmf_keys 0 of None \<Rightarrow> (MEDIACTRL_DTMF_NONE, False) | Some k \<Rightarrow> (k, True))
     | _ \<Rightarrow> (MEDIACTRL_DTMF_NONE, False))"

definition dtmfCode :: "int \<Rightarrow> string" where
  "dtmfCode d = (if d < 0 \<or> 15 < d then '''' else [dtmf_keys ! nat d])"

subsection \<open>Spoken values\<close>

definition wav :: "string \<Rightarrow> string \<Rightarrow> string" where
  "wav base name = base @ name @ ''.wav''"

text \<open>The same steps for a year and for a number: thousands, hundreds, tens and units.\<close>

definition number_files :: "string \<Rightarrow> nat \<Rightarrow> string list" where
  "number_files base n = (let th = n div 1000; hu = (n - th * 1000) div 100;
       de = (n - th * 1000 - hu * 100) div 10; un = n - th * 1000 - hu * 100 - de * 10 in
     (if th \<noteq> 0 then [wav base (dec_nat th), wav base ''thousand''] else []) @
     (if hu \<noteq> 0 then [wav base (dec_nat hu), wav base ''hundred''] else []) @
     (if 1 < de then [wav base (dec_nat (de * 10))] else []) @
     (if un \<noteq> 0 then [wav base (dec_nat (if de = 1 then un + 10 else un))] else []))"

definition day_files :: "string \<Rightarrow> nat \<Rightarrow> string list" where
  "day_files base d =
     [wav base (''h-'' @ (if 30 \<le> d then ''30'' else if 20 \<le> d then ''20'' else dec_nat d))] @
     (if 20 < d \<and> 0 < d mod 10 then [wav base (''h-'' @ dec_nat (d mod 10))] else [])"

text \<open>The value of \<open>atoi\<close> stored in a \<open>uint16_t\<close>.\<close>

definition to_u16 :: "string \<Rightarrow> nat" where
  "to_u16 s = unat (word_of_int (atoi s) :: u16)"

definition rx_date :: string where
  "rx_date = ''('' @ bsl @ ''d{2}|'' @ bsl @ ''d{4})'' @ bsl @ ''-('' @ bsl @ ''d{1,2})'' @ bsl @ ''-('' @ bsl @ ''d{1,2})''"

definition date_files :: "boost \<Rightarrow> string \<Rightarrow> string \<Rightarrow> string \<Rightarrow> string list option" where
  "date_files bx base v format0 = (let format = (if format0 = '''' then ''ymd'' else format0) in
     if bx_match bx ''mdy|ymd|dmy|dm'' format = None then None
     else case bx_match bx rx_date v of None \<Rightarrow> None
     | Some ms \<Rightarrow>
         let y = to_u16 (if atoi (sub ms 1) < 100 then ''20'' @ sub ms 1 else sub ms 1);
             m = to_u16 (sub ms 2); d = to_u16 (sub ms 3) in
         if 31 < d then None
         else if m = 0 \<or> 12 < m then None
         else let ds = day_files base d; mo = [wav base (''mon-'' @ dec_nat (m - 1))];
                  ys = (if 0 < y then number_files base y else []) in
           Some (if format = ''mdy'' then mo @ ds @ ys
                 else if format = ''ymd'' then ys @ mo @ ds
                 else if format = ''dmy'' then ds @ mo @ ys
                 else if format = ''dm'' then ds @ mo
                 else []))"

definition rx_clock :: string where
  "rx_clock = ''('' @ bsl @ ''d{1,2})'' @ bsl @ '':('' @ bsl @ ''d{1,2})''"

definition minute_files :: "string \<Rightarrow> nat \<Rightarrow> string list" where
  "minute_files base m = (let de = m div 10; un = m - de * 10 in
     (if 1 < de then [wav base (dec_nat (de * 10))] else []) @
     (if un \<noteq> 0 then [wav base (dec_nat (if de = 1 then un + 10 else un))] else []))"

definition time_files :: "boost \<Rightarrow> string \<Rightarrow> string \<Rightarrow> string \<Rightarrow> string list option" where
  "time_files bx base v format0 = (let format = (if format0 = '''' then ''t24'' else format0) in
     if format \<noteq> ''t12'' \<and> format \<noteq> ''t24'' then None
     else case bx_match bx rx_clock v of None \<Rightarrow> None
     | Some ms \<Rightarrow>
         let h0 = to_u16 (sub ms 1); m = to_u16 (sub ms 2);
             pm = (format = ''t12'' \<and> 12 < h0); h = (if pm then h0 - 12 else h0) in
         if 23 < h then None
         else if 59 < m then None
         else Some ([if 20 \<le> h then wav base ''20'' else wav base (dec_nat h)] @
           (if 20 < h \<and> 0 < h mod 10 then [wav base (dec_nat (h mod 10))] else []) @
           minute_files base m @
           (if format = ''t12'' then [wav base (if pm then ''p-m'' else ''a-m'')] else []) @
           [wav base ''oclock'']))"

definition rx_digits :: string where
  "rx_digits = ''('' @ bsl @ ''d+)''"

definition digits_files :: "boost \<Rightarrow> string \<Rightarrow> string \<Rightarrow> string \<Rightarrow> string list option" where
  "digits_files bx base v format0 = (let format = (if format0 = '''' then ''gen'' else format0) in
     if format \<noteq> ''gen'' \<and> format \<noteq> ''crn'' \<and> format \<noteq> ''ord'' then None
     else case bx_match bx rx_digits v of None \<Rightarrow> None
     | Some ms \<Rightarrow> let d = to_u16 (sub ms 1) in
         if 9999 < d then None else Some (number_files base d))"

text \<open>\<open>None\<close> is NULL.\<close>

definition buildVariableFilenames :: "boost \<Rightarrow> string \<Rightarrow> string \<Rightarrow> string \<Rightarrow> string \<Rightarrow> string list option" where
  "buildVariableFilenames bx webServerPath v kind format =
     (if v = '''' \<or> kind = '''' then None
      else let base = ''file://'' @ webServerPath @ ''/prompts/digits/'' in
        if bx_match bx ''date'' kind \<noteq> None then date_files bx base v format
        else if bx_match bx ''time'' kind \<noteq> None then time_files bx base v format
        else if bx_match bx ''digits'' kind \<noteq> None then digits_files bx base v format
        else None)"

subsection \<open>What is said\<close>

text \<open>A listener's understanding of the files: numbers add up, \<open>hundred\<close> and \<open>thousand\<close> multiply.\<close>

datatype number_word = Say nat | Hundred | Thousand

fun word_file :: "string \<Rightarrow> number_word \<Rightarrow> string" where
  "word_file base (Say k) = wav base (dec_nat k)"
| "word_file base Hundred = wav base ''hundred''"
| "word_file base Thousand = wav base ''thousand''"

fun listen :: "number_word list \<Rightarrow> nat \<Rightarrow> nat \<Rightarrow> nat" where
  "listen [] sum0 now = sum0 + now"
| "listen (Say k # ws) sum0 now = listen ws sum0 (now + k)"
| "listen (Hundred # ws) sum0 now = listen ws sum0 (now * 100)"
| "listen (Thousand # ws) sum0 now = listen ws (sum0 + now * 1000) 0"

definition sayable :: "number_word \<Rightarrow> bool" where
  "sayable w = (case w of Say k \<Rightarrow> 1 \<le> k \<and> (k < 20 \<or> k mod 10 = 0 \<and> k \<le> 90) | _ \<Rightarrow> True)"

definition tens_words :: "nat \<Rightarrow> nat \<Rightarrow> number_word list" where
  "tens_words de un = (if 1 < de then [Say (de * 10)] else []) @
     (if un \<noteq> 0 then [Say (if de = 1 then un + 10 else un)] else [])"

definition number_words :: "nat \<Rightarrow> nat \<Rightarrow> nat \<Rightarrow> nat \<Rightarrow> number_word list" where
  "number_words th hu de un = (if th \<noteq> 0 then [Say th, Thousand] else []) @
     (if hu \<noteq> 0 then [Say hu, Hundred] else []) @ tens_words de un"

lemma number_files_words:
  "number_files base n = map (word_file base) (number_words (n div 1000) ((n - n div 1000 * 1000) div 100)
     ((n - n div 1000 * 1000 - (n - n div 1000 * 1000) div 100 * 100) div 10)
     (n - n div 1000 * 1000 - (n - n div 1000 * 1000) div 100 * 100 -
        (n - n div 1000 * 1000 - (n - n div 1000 * 1000) div 100 * 100) div 10 * 10))"
  by (simp only: number_files_def number_words_def tens_words_def Let_def map_append if_distrib [of "map (word_file base)"]
        list.map word_file.simps append_assoc)

lemma listen_tens:
  "de < 10 \<Longrightarrow> un < 10 \<Longrightarrow> listen (tens_words de un) t c = t + c + (if de = 1 \<and> un = 0 then 0 else de * 10 + un)"
  by (auto simp: tens_words_def)

lemma listen_number:
  assumes "hu < 10" "de < 10" "un < 10"
  shows "listen (number_words th hu de un) 0 0 = th * 1000 + hu * 100 + (if de = 1 \<and> un = 0 then 0 else de * 10 + un)"
  using listen_tens [OF assms(2,3)] by (auto simp: number_words_def)

lemma sayable_number: "th < 10 \<Longrightarrow> hu < 10 \<Longrightarrow> de < 10 \<Longrightarrow> un < 10 \<Longrightarrow> list_all sayable (number_words th hu de un)"
  by (auto simp: number_words_def tens_words_def sayable_def)

lemma decimal_places:
  fixes n :: nat
  assumes "n < 10000"
  obtains th hu de un where "n = th * 1000 + hu * 100 + de * 10 + un" "th < 10" "hu < 10" "de < 10" "un < 10"
    "n div 1000 = th" "(n - th * 1000) div 100 = hu" "(n - th * 1000 - hu * 100) div 10 = de" "n - th * 1000 - hu * 100 - de * 10 = un"
proof
  let ?th = "n div 1000" let ?r = "n mod 1000" let ?hu = "n mod 1000 div 100" let ?s = "n mod 1000 mod 100"
  let ?de = "n mod 1000 mod 100 div 10" let ?un = "n mod 1000 mod 100 mod 10"
  have a: "n = ?th * 1000 + ?r" "?r = ?hu * 100 + ?s" "?s = ?de * 10 + ?un" by simp_all
  then show "n = ?th * 1000 + ?hu * 100 + ?de * 10 + ?un" by simp
  have "?r < 1000" "?s < 100" by simp_all
  then show "?th < 10" "?hu < 10" "?de < 10" "?un < 10" using assms by (simp_all add: less_mult_imp_div_less)
  have b: "n - ?th * 1000 = ?r" "?r - ?hu * 100 = ?s" "?s - ?de * 10 = ?un" by (simp_all only: minus_div_mult_eq_mod)
  then show "n div 1000 = ?th" "(n - ?th * 1000) div 100 = ?hu" "(n - ?th * 1000 - ?hu * 100) div 10 = ?de"
    "n - ?th * 1000 - ?hu * 100 - ?de * 10 = ?un" by simp_all
qed

lemma last_ten: "un < 10 \<Longrightarrow> de * 10 + un = 10 \<longleftrightarrow> de = 1 \<and> un = 0" for de un :: nat
  by presburger

lemma number_heard:
  assumes "n < 10000"
  shows "\<exists>ws. number_files base n = map (word_file base) ws \<and> list_all sayable ws \<and>
     listen ws 0 0 = (if n mod 100 = 10 then n - 10 else n)"
proof -
  from decimal_places [OF assms] obtain th hu de un where n: "n = th * 1000 + hu * 100 + de * 10 + un"
      "th < 10" "hu < 10" "de < 10" "un < 10" "n div 1000 = th" "(n - th * 1000) div 100 = hu"
      "(n - th * 1000 - hu * 100) div 10 = de" "n - th * 1000 - hu * 100 - de * 10 = un" by metis
  have f: "number_files base n = map (word_file base) (number_words th hu de un)"
    unfolding number_files_words n(6-9) ..
  have "n = de * 10 + un + (th * 10 + hu) * 100"
    using n(1) by (simp only: distrib_right mult.assoc add.commute add.left_commute)
  then have "n mod 100 = (de * 10 + un) mod 100" by (simp only: mod_mult_self1)
  moreover have "de * 10 + un < 100" using n(4,5) by linarith
  ultimately have "n mod 100 = de * 10 + un" by (simp only: mod_less)
  then have m: "n mod 100 = 10 \<longleftrightarrow> de = 1 \<and> un = 0" by (simp only: last_ten [OF n(5)])
  have "th * 1000 + hu * 100 + (if de = 1 \<and> un = 0 then 0 else de * 10 + un) = (if n mod 100 = 10 then n - 10 else n)"
    unfolding m by (simp add: n(1))
  then have "listen (number_words th hu de un) 0 0 = (if n mod 100 = 10 then n - 10 else n)"
    unfolding listen_number [OF n(3-5)] .
  with f sayable_number [OF n(2-5)] show ?thesis by blast
qed

text \<open>
  C20. A \<open>variable\<close> of type \<open>digits\<close> below ten thousand is spoken: the files are recordings of numbers up to
  nineteen, of tens, of \<open>hundred\<close> and of \<open>thousand\<close>, and whoever hears them in order understands the
  number, except that a last part of ten is left out, so that 110 is heard as 100 and 10 is silence.
\<close>

theorem digits_are_spoken:
  assumes "bx_match bx ''date'' kind = None" and "bx_match bx ''time'' kind = None" and "bx_match bx ''digits'' kind \<noteq> None"
    and "bx_match bx rx_digits v = Some [v, v]" and "list_all is_digit v" and "v \<noteq> ''''" and "kind \<noteq> ''''"
    and "digits_val v < 10000" and "format = '''' \<or> format = ''gen''"
  shows "\<exists>fs ws. buildVariableFilenames bx web v kind format = Some fs \<and>
     fs = map (word_file (''file://'' @ web @ ''/prompts/digits/'')) ws \<and> list_all sayable ws \<and>
     listen ws 0 0 = (if digits_val v mod 100 = 10 then digits_val v - 10 else digits_val v)"
proof -
  have "to_u16 v = digits_val v"
    using assms(8) by (simp add: to_u16_def atoi_digits [OF assms(5,6)] unsigned_of_nat take_bit_nat_eq_self)
  moreover obtain ws where "number_files (''file://'' @ web @ ''/prompts/digits/'') (digits_val v) =
      map (word_file (''file://'' @ web @ ''/prompts/digits/'')) ws" "list_all sayable ws"
      "listen ws 0 0 = (if digits_val v mod 100 = 10 then digits_val v - 10 else digits_val v)"
    using number_heard [OF assms(8)] by blast
  ultimately show ?thesis
    using assms by (auto simp: buildVariableFilenames_def digits_files_def Let_def sub_def)
qed

definition speech_bx :: boost where
  "speech_bx = \<lparr>bx_match = (\<lambda>re s. if re = ''date'' \<or> re = ''time'' then None else Some [s, s]), bx_tokens = (\<lambda>re s. [s])\<rparr>"

theorem digits_are_spoken_witness:
  "\<exists>ws. buildVariableFilenames speech_bx ''/srv'' ''2345'' ''digits'' '''' =
       Some (map (word_file ''file:///srv/prompts/digits/'') ws) \<and> listen ws 0 0 = 2345"
proof -
  have d: "digits_val ''2345'' = 2345" by code_simp
  have h: "bx_match speech_bx ''date'' ''digits'' = None" "bx_match speech_bx ''time'' ''digits'' = None"
      "bx_match speech_bx ''digits'' ''digits'' \<noteq> None" "bx_match speech_bx rx_digits ''2345'' = Some [''2345'', ''2345'']"
      "list_all is_digit ''2345''" by code_simp+
  from digits_are_spoken [OF h, of "''''" "''/srv''"] show ?thesis unfolding d by auto
qed

text \<open>
  The key that a DTMF number stands for and the number of a key are inverse to each other: every one of
  the sixteen numbers is read back from its key, and a key that is recognised is written back.
\<close>

theorem dtmf_roundtrip:
  "(\<forall>d\<in>{0..15}. dtmfDigit (dtmfCode d) = (d, True)) \<and> (\<forall>v. snd (dtmfDigit v) \<longrightarrow> dtmfCode (fst (dtmfDigit v)) = v)"
proof
  have "list_all (\<lambda>d. dtmfDigit (dtmfCode d) = (d, True)) [0..15]" by code_simp
  then show "\<forall>d\<in>{0..15}. dtmfDigit (dtmfCode d) = (d, True)"
    by (simp only: list_all_iff set_upto)
  have "dtmfCode k = [c]" if "key_index c dtmf_keys 0 = Some k" for c k
    using that by (auto simp: dtmf_keys_def dtmfCode_def split: if_splits)
  then show "\<forall>v. snd (dtmfDigit v) \<longrightarrow> dtmfCode (fst (dtmfDigit v)) = v"
    by (auto simp: dtmfDigit_def split: list.splits option.splits)
qed

theorem dtmf_roundtrip_witness: "dtmfDigit (dtmfCode 11) = (11, True) \<and> dtmfCode (fst (dtmfDigit ''#'')) = ''#''"
proof -
  have "snd (dtmfDigit ''#'')" by code_simp
  then show ?thesis using dtmf_roundtrip by simp
qed

text \<open>
  A time in seconds with digits behind the point is read as the seconds before the point and as many
  tenths as the digits behind it say: \<open>2.5s\<close> is 2500 ms, but \<open>1.25s\<close> is 3500 ms.
\<close>

theorem seconds_in_tenths:
  assumes "bx_match bx rx_time v = Some [v, ds, fs, ''s'']" and "list_all is_digit ds" "ds \<noteq> ''''"
    and "list_all is_digit fs" "fs \<noteq> ''''" and "digits_val ds \<le> 2147483" and "digits_val fs \<le> 21474836"
  shows "timeDesignation bx v = Val (word_of_nat (1000 * digits_val ds + 100 * digits_val fs), True)"
proof -
  have "is_int32 (int (digits_val ds))" "is_int32 (int (digits_val ds) * 1000)" "is_int32 (int (digits_val fs))"
      "is_int32 (int (digits_val fs) * 100)" using assms(6,7) by (simp_all add: is_int32_def)
  then show ?thesis
    using assms(1,3,5) by (simp add: timeDesignation_def sub_def add_time_def atoi_digits assms algebra_simps)
qed

definition time_bx :: boost where
  "time_bx = \<lparr>bx_match = (\<lambda>re s. if s = ''1.25s'' then Some [s, ''1'', ''25'', ''s''] else None), bx_tokens = (\<lambda>re s. [s])\<rparr>"

theorem seconds_in_tenths_witness: "timeDesignation time_bx ''1.25s'' = Val (3500, True)"
proof -
  have h: "bx_match time_bx rx_time ''1.25s'' = Some [''1.25s'', ''1'', ''25'', ''s'']" "list_all is_digit ''1''"
      "list_all is_digit ''25''" by code_simp+
  have d: "digits_val ''1'' = 1" "digits_val ''25'' = 25" by code_simp+
  from seconds_in_tenths [OF h(1,2) _ h(3)] show ?thesis by (simp add: d)
qed

end
