(* ===== verification/IvrDialog.thy ===== *)
theory IvrDialog
  imports IvrValues
begin

unbundle bit_operations_syntax

text \<open>
  \<open>src/packages/IvrPackage.cxx\<close>, class \<open>IvrDialog\<close>: the members of a dialog and their defaults, the
  parameters of \<open>prompt\<close>, \<open>control\<close>, \<open>collect\<close> and \<open>record\<close>, the time line of prompts, the streams, and what a
  DTMF tone does to a dialog. The ten control keys, which are members of their own in the source, are
  a function from the enumeration of the VCR controls. Regular expressions without \<open>icase\<close> are a second
  parameter, \<open>ie_exact\<close>. Threads meet in \<open>dg_tones\<close>, \<open>dg_pVcrEvents\<close> and the flags; an operation is one step.
\<close>

subsection \<open>Constants\<close>

abbreviation (input) DIALOG_IDLE :: int where "DIALOG_IDLE \<equiv> 0"
abbreviation (input) DIALOG_PREPARED :: int where "DIALOG_PREPARED \<equiv> 2"
abbreviation (input) DIALOG_STARTED :: int where "DIALOG_STARTED \<equiv> 4"
abbreviation (input) MODEL_PROMPT :: int where "MODEL_PROMPT \<equiv> 1"
abbreviation (input) MODEL_COLLECT :: int where "MODEL_COLLECT \<equiv> 2"
abbreviation (input) MODEL_CONTROL :: int where "MODEL_CONTROL \<equiv> 4"
abbreviation (input) MODEL_RECORD :: int where "MODEL_RECORD \<equiv> 8"
abbreviation (input) DIALOGEXIT_DIALOGTERMINATE :: int where "DIALOGEXIT_DIALOGTERMINATE \<equiv> 0"
abbreviation (input) DIALOGEXIT_SUCCESS :: int where "DIALOGEXIT_SUCCESS \<equiv> 1"
abbreviation (input) DIALOGEXIT_CONTERMINATE :: int where "DIALOGEXIT_CONTERMINATE \<equiv> 2"
abbreviation (input) DIALOGEXIT_MAXDURATION :: int where "DIALOGEXIT_MAXDURATION \<equiv> 3"
abbreviation (input) TERMMODE_UNKNOWN :: int where "TERMMODE_UNKNOWN \<equiv> -1"
abbreviation (input) TERMMODE_BARGEIN :: int where "TERMMODE_BARGEIN \<equiv> 2"
abbreviation (input) TERMMODE_STOPPED :: int where "TERMMODE_STOPPED \<equiv> 3"
abbreviation (input) TERMMODE_NOINPUT :: int where "TERMMODE_NOINPUT \<equiv> 5"
abbreviation (input) TERMMODE_NOMATCH :: int where "TERMMODE_NOMATCH \<equiv> 6"
abbreviation (input) TERMMODE_DTMF :: int where "TERMMODE_DTMF \<equiv> 7"
abbreviation (input) TERMMODE_MAXTIME :: int where "TERMMODE_MAXTIME \<equiv> 8"
abbreviation (input) TERMMODE_FINALSILENCE :: int where "TERMMODE_FINALSILENCE \<equiv> 9"
abbreviation (input) TIMELINE_NORMAL :: int where "TIMELINE_NORMAL \<equiv> 0"
abbreviation (input) TIMELINE_PAR :: int where "TIMELINE_PAR \<equiv> 1"
abbreviation (input) TIMELINE_SEQ :: int where "TIMELINE_SEQ \<equiv> 2"
abbreviation (input) ENDSYNC_NONE :: int where "ENDSYNC_NONE \<equiv> -1"
abbreviation (input) ENDSYNC_FIRST :: int where "ENDSYNC_FIRST \<equiv> 0"
abbreviation (input) TRACKS :: nat where "TRACKS \<equiv> 4"

datatype vcr = VCR_START | VCR_END | VCR_FF | VCR_RW | VCR_PAUSE | VCR_RESUME
  | VCR_VOLUP | VCR_VOLDOWN | VCR_SPEEDUP | VCR_SPEEDDOWN

subsection \<open>Members\<close>

record timeline =
  tl_files :: "string list"
  tl_timeouts :: "u32 list"
  tl_levels :: "u32 list"
  tl_begins :: "u32 list"
  tl_ends :: "u32 list"

definition newTimeLine :: timeline where
  "newTimeLine = \<lparr>tl_files = [], tl_timeouts = [], tl_levels = [], tl_begins = [], tl_ends = []\<rparr>"

text \<open>What a dialog asks of the server: an event to the application server, and the call
  \<open>clearDtmfBuffer\<close> for its connection.\<close>

datatype dialog_out = NotifyEvent string | ClearDtmfBuffer

record ivr_dialog =
  dg_id :: string
  dg_state :: int
  dg_model :: int
  dg_connection :: ptr
  dg_conType :: int
  dg_streams :: "(int \<times> int) list"
  dg_out :: "dialog_out list"
  dg_info :: string
  dg_playing :: bool
  dg_collecting :: bool
  dg_recording :: bool
  dg_restart :: bool
  dg_done :: bool
  dg_immediate :: bool
  dg_destroy :: bool
  dg_running :: bool
  dg_termmode :: int
  dg_exitStatus :: int
  dg_exitString :: string
  dg_iterations :: u32
  dg_currentIteration :: u32
  dg_duration :: u32
  dg_notifyAll :: bool
  dg_notifyCollect :: bool
  dg_notifyVcr :: bool
  dg_pAudio :: bool
  dg_pBase :: string
  dg_pBargein :: bool
  dg_pVcrEvents :: "vcr list"
  dg_endsync :: "int list"
  dg_timelines :: "timeline list list"
  dg_currentEndSync :: int
  dg_currentSlot :: nat
  dg_newTimelineStep :: bool
  dg_newSlot :: bool
  dg_tones :: "int list"
  dg_cClear :: bool
  dg_cTimeout :: u32
  dg_cInterdigit :: u32
  dg_cTermtimeout :: u32
  dg_cMaxdigits :: u16
  dg_cEscapekey :: int
  dg_cTermchar :: int
  dg_cMatch :: bool
  dg_vSkip :: u32
  dg_vPause :: u32
  dg_vVolume :: int
  dg_vSpeed :: int
  dg_keys :: "vcr \<Rightarrow> int"
  dg_vcrMode :: bool
  dg_vcrInfo :: string
  dg_rAudio :: bool
  dg_rInput :: bool
  dg_rTimeout :: u32
  dg_rType :: string
  dg_rDests :: "(string \<times> bool \<times> string) list"
  dg_rVadinitial :: bool
  dg_rVadfinal :: bool
  dg_rDtmfterm :: bool
  dg_rBeep :: bool
  dg_rMaxtime :: u32
  dg_rFinalsilence :: u32
  dg_rSilencestart :: u32
  dg_rAppend :: bool

text \<open>The constructor with \<open>setDefaults\<close>; an identifier has been chosen.\<close>

definition newDialog :: "string \<Rightarrow> ivr_dialog" where
  "newDialog i = \<lparr>dg_id = i, dg_state = DIALOG_IDLE, dg_model = 0, dg_connection = NULL, dg_conType = 0,
     dg_streams = [], dg_out = [], dg_info = '''', dg_playing = False, dg_collecting = False, dg_recording = False,
     dg_restart = False, dg_done = False, dg_immediate = False, dg_destroy = False, dg_running = False,
     dg_termmode = TERMMODE_UNKNOWN, dg_exitStatus = -1, dg_exitString = '''', dg_iterations = 1,
     dg_currentIteration = 0, dg_duration = 0, dg_notifyAll = False, dg_notifyCollect = False,
     dg_notifyVcr = False, dg_pAudio = False, dg_pBase = '''', dg_pBargein = True, dg_pVcrEvents = [],
     dg_endsync = [], dg_timelines = replicate TRACKS [], dg_currentEndSync = ENDSYNC_NONE,
     dg_currentSlot = 0, dg_newTimelineStep = True, dg_newSlot = True, dg_tones = [], dg_cClear = True,
     dg_cTimeout = 5000, dg_cInterdigit = 2000, dg_cTermtimeout = 0, dg_cMaxdigits = 5,
     dg_cEscapekey = MEDIACTRL_DTMF_NONE, dg_cTermchar = MEDIACTRL_DTMF_POUND, dg_cMatch = False,
     dg_vSkip = 6000, dg_vPause = 10000, dg_vVolume = 10, dg_vSpeed = 0,
     dg_keys = (\<lambda>k. MEDIACTRL_DTMF_NONE), dg_vcrMode = False, dg_vcrInfo = '''', dg_rAudio = False,
     dg_rInput = False, dg_rTimeout = 5000, dg_rType = '''', dg_rDests = [], dg_rVadinitial = False,
     dg_rVadfinal = False, dg_rDtmfterm = True, dg_rBeep = False, dg_rMaxtime = 15000,
     dg_rFinalsilence = 5000, dg_rSilencestart = 0, dg_rAppend = False\<rparr>"

definition addModel :: "int \<Rightarrow> ivr_dialog \<Rightarrow> ivr_dialog" where
  "addModel m d = d\<lparr>dg_model := dg_model d OR m\<rparr>"

definition has_model :: "int \<Rightarrow> ivr_dialog \<Rightarrow> bool" where
  "has_model m d \<longleftrightarrow> dg_model d AND m \<noteq> 0"

definition getModelString :: "ivr_dialog \<Rightarrow> string" where
  "getModelString d =
     (if dg_model d = MODEL_PROMPT then ''playannouncement''
      else (if has_model MODEL_PROMPT d then ''prompt'' else '''') @
        (if has_model MODEL_COLLECT d then ''collect'' else if has_model MODEL_RECORD d then ''record'' else ''''))"

definition dlg_notifyEvent :: "string \<Rightarrow> ivr_dialog \<Rightarrow> ivr_dialog" where
  "dlg_notifyEvent body d = d\<lparr>dg_out := dg_out d @ [NotifyEvent (''<mscivr version='' @ quoted ''1.0'' @ '' xmlns='' @
     quoted ''urn:ietf:params:xml:ns:msc-ivr'' @ ''><event dialogid='' @ quoted (dg_id d) @ ''>'' @ body @
     ''</event></mscivr>'')]\<rparr>"

text \<open>\<open>destroy\<close>, up to the wait for the thread; the entry into \<open>endedDialogs\<close> is the package's.\<close>

definition destroyDialog :: "bool \<Rightarrow> int \<Rightarrow> ivr_dialog \<Rightarrow> ivr_dialog" where
  "destroyDialog immediate status d =
     (let d1 = d\<lparr>dg_immediate := immediate, dg_currentIteration := dg_iterations d, dg_exitStatus := status,
            dg_exitString := (if status = DIALOGEXIT_CONTERMINATE then ''Connection terminated'' else ''Dialog terminated'')\<rparr>;
          d2 = (if immediate then d1\<lparr>dg_termmode := TERMMODE_STOPPED, dg_destroy := True\<rparr> else d1) in
      d2\<lparr>dg_running := False\<rparr>)"

subsection \<open>Parameters\<close>

record ivr_env =
  ie_bx :: boost
  ie_exact :: "string \<Rightarrow> string \<Rightarrow> bool"

text \<open>A parameter returns the dialog, the error string and the code. A value that is not recognised
  is stored nevertheless, as what the helper returns in that case.\<close>

type_synonym verdict = "ivr_dialog \<times> string \<times> int"

definition judge :: "bool \<Rightarrow> string \<Rightarrow> ivr_dialog \<Rightarrow> verdict" where
  "judge ok err d = (if ok then (d, '''', 200) else (d, err, 400))"

definition put_bool :: "boost \<Rightarrow> string \<Rightarrow> string \<Rightarrow> (bool \<Rightarrow> ivr_dialog) \<Rightarrow> verdict cpp" where
  "put_bool bx v err f = (case booleanValue bx v of None \<Rightarrow> Val (judge False err (f False))
     | Some b \<Rightarrow> Val (judge True err (f b)))"

definition put_time :: "boost \<Rightarrow> string \<Rightarrow> string \<Rightarrow> (u32 \<Rightarrow> ivr_dialog) \<Rightarrow> verdict cpp" where
  "put_time bx v err f = cpp_bind (timeDesignation bx v) (\<lambda>(t, ok). Val (judge ok err (f t)))"

definition put_percent :: "boost \<Rightarrow> string \<Rightarrow> string \<Rightarrow> (int \<Rightarrow> ivr_dialog) \<Rightarrow> verdict cpp" where
  "put_percent bx v err f = (case percentValue bx v of (p, ok) \<Rightarrow> Val (judge ok err (f (uint p))))"

definition put_maxdigits :: "boost \<Rightarrow> string \<Rightarrow> string \<Rightarrow> ivr_dialog \<Rightarrow> verdict cpp" where
  "put_maxdigits bx v err d = (case positiveInteger bx v of None \<Rightarrow> Val (judge False err (d\<lparr>dg_cMaxdigits := 0\<rparr>))
     | Some n \<Rightarrow> Val (judge True err (d\<lparr>dg_cMaxdigits := n\<rparr>)))"

text \<open>The keys that a new key is compared with.\<close>

fun key_rivals :: "vcr \<Rightarrow> vcr list" where
  "key_rivals VCR_START = [VCR_END, VCR_FF, VCR_RW, VCR_PAUSE, VCR_RESUME, VCR_VOLUP, VCR_VOLDOWN, VCR_SPEEDUP, VCR_SPEEDDOWN]"
| "key_rivals VCR_END = [VCR_START, VCR_FF, VCR_RW, VCR_PAUSE, VCR_RESUME, VCR_VOLUP, VCR_VOLDOWN, VCR_SPEEDUP, VCR_SPEEDDOWN]"
| "key_rivals VCR_FF = [VCR_START, VCR_END, VCR_RW, VCR_PAUSE, VCR_RESUME, VCR_VOLUP, VCR_VOLDOWN, VCR_SPEEDUP, VCR_SPEEDDOWN]"
| "key_rivals VCR_RW = [VCR_START, VCR_END, VCR_FF, VCR_PAUSE, VCR_RESUME, VCR_VOLUP, VCR_VOLDOWN, VCR_SPEEDUP, VCR_SPEEDDOWN]"
| "key_rivals VCR_PAUSE = [VCR_START, VCR_END, VCR_RW, VCR_FF, VCR_VOLUP, VCR_VOLDOWN, VCR_SPEEDUP, VCR_SPEEDDOWN]"
| "key_rivals VCR_RESUME = [VCR_START, VCR_END, VCR_RW, VCR_FF, VCR_VOLUP, VCR_VOLDOWN, VCR_SPEEDUP, VCR_SPEEDDOWN]"
| "key_rivals VCR_VOLUP = [VCR_START, VCR_END, VCR_RW, VCR_PAUSE, VCR_RESUME, VCR_FF, VCR_VOLDOWN, VCR_SPEEDUP, VCR_SPEEDDOWN]"
| "key_rivals VCR_VOLDOWN = [VCR_START, VCR_END, VCR_RW, VCR_PAUSE, VCR_RESUME, VCR_VOLUP, VCR_FF, VCR_SPEEDUP, VCR_SPEEDDOWN]"
| "key_rivals VCR_SPEEDUP = [VCR_START, VCR_END, VCR_RW, VCR_PAUSE, VCR_RESUME, VCR_FF, VCR_VOLDOWN, VCR_SPEEDDOWN]"
| "key_rivals VCR_SPEEDDOWN = [VCR_START, VCR_END, VCR_RW, VCR_PAUSE, VCR_RESUME, VCR_VOLUP, VCR_FF, VCR_SPEEDUP]"

definition put_key :: "vcr \<Rightarrow> string \<Rightarrow> string \<Rightarrow> ivr_dialog \<Rightarrow> verdict cpp" where
  "put_key k v err d = (case dtmfDigit v of (t, ok) \<Rightarrow>
     let d1 = d\<lparr>dg_keys := (dg_keys d)(k := t)\<rparr> in
     if \<not> ok then Val (d1, err, 400)
     else if list_ex (\<lambda>r. dg_keys d1 r = t) (key_rivals k) then Val (d1, err @ '', duplicate key'', 413)
     else Val (d1\<lparr>dg_vcrMode := True\<rparr>, '''', 200))"

definition prompt_parameter :: "ivr_env \<Rightarrow> string \<Rightarrow> string \<Rightarrow> string \<Rightarrow> ivr_dialog \<Rightarrow> verdict cpp" where
  "prompt_parameter e n v err d =
     (if bx_match (ie_bx e) ''xml:base|bargein'' n = None then Val (d, n, 431)
      else if n = ''xml:base'' then Val (d\<lparr>dg_pBase := v\<rparr>, '''', 200)
      else if n = ''bargein'' then put_bool (ie_bx e) v err (\<lambda>b. d\<lparr>dg_pBargein := b\<rparr>)
      else Val (d, '''', 200))"

definition rx_control :: string where
  "rx_control = ''gotostartkey|gotoendkey|skipinterval|ffkey|rwkey|pauseinterval|pausekey|resumekey|volumeinterval|volupkey|voldnkey|speedinterval|speedupkey|speeddnkey|external''"

definition control_parameter :: "ivr_env \<Rightarrow> string \<Rightarrow> string \<Rightarrow> string \<Rightarrow> ivr_dialog \<Rightarrow> verdict cpp" where
  "control_parameter e n v err d =
     (if \<not> ie_exact e rx_control n then Val (d, n, 431)
      else if n = ''gotostartkey'' then put_key VCR_START v err d
      else if n = ''gotoendkey'' then put_key VCR_END v err d
      else if n = ''skipinterval'' then put_time (ie_bx e) v err (\<lambda>t. d\<lparr>dg_vSkip := t\<rparr>)
      else if n = ''ffkey'' then put_key VCR_FF v err d
      else if n = ''rwkey'' then put_key VCR_RW v err d
      else if n = ''pauseinterval'' then put_time (ie_bx e) v err (\<lambda>t. d\<lparr>dg_vPause := t\<rparr>)
      else if n = ''pausekey'' then put_key VCR_PAUSE v err d
      else if n = ''resumekey'' then put_key VCR_RESUME v err d
      else if n = ''volumeinterval'' then put_percent (ie_bx e) v err (\<lambda>p. d\<lparr>dg_vVolume := p\<rparr>)
      else if n = ''volupkey'' then put_key VCR_VOLUP v err d
      else if n = ''voldnkey'' then put_key VCR_VOLDOWN v err d
      else if n = ''speedinterval'' then put_percent (ie_bx e) v err (\<lambda>p. d\<lparr>dg_vSpeed := p\<rparr>)
      else if n = ''speedupkey'' then put_key VCR_SPEEDUP v err d
      else if n = ''speeddnkey'' then put_key VCR_SPEEDDOWN v err d
      else if n = ''external'' then Val (d, err, 400)
      else Val (d, '''', 200))"

definition put_escape :: "string \<Rightarrow> string \<Rightarrow> ivr_dialog \<Rightarrow> verdict cpp" where
  "put_escape v err d = (case dtmfDigit v of (t, ok) \<Rightarrow> let d1 = d\<lparr>dg_cEscapekey := t\<rparr> in
     if \<not> ok then Val (d1, err, 400)
     else if dg_cEscapekey d1 = dg_cTermchar d1 then Val (d1, err @ '', duplicate key (termchar)'', 400)
     else Val (d1, '''', 200))"

definition put_termchar :: "string \<Rightarrow> string \<Rightarrow> ivr_dialog \<Rightarrow> verdict cpp" where
  "put_termchar v err d = (case dtmfDigit v of (t, ok) \<Rightarrow> let d1 = d\<lparr>dg_cTermchar := t\<rparr> in
     if \<not> ok then Val (d1, err, 400)
     else if dg_cTermchar d1 = dg_cEscapekey d1 then Val (d1, err @ '', duplicate key (escapekey)'', 400)
     else Val (d1, '''', 200))"

definition rx_collect :: string where
  "rx_collect = ''cleardigitbuffer|timeout|interdigittimeout|termtimeout|escapekey|termchar|maxdigits''"

definition collect_parameter :: "ivr_env \<Rightarrow> string \<Rightarrow> string \<Rightarrow> string \<Rightarrow> ivr_dialog \<Rightarrow> verdict cpp" where
  "collect_parameter e n v err d =
     (if bx_match (ie_bx e) rx_collect n = None then Val (d, n, 431)
      else if n = ''cleardigitbuffer'' then put_bool (ie_bx e) v err (\<lambda>b. d\<lparr>dg_cClear := b\<rparr>)
      else if n = ''timeout'' then put_time (ie_bx e) v err (\<lambda>t. d\<lparr>dg_cTimeout := t\<rparr>)
      else if n = ''interdigittimeout'' then put_time (ie_bx e) v err (\<lambda>t. d\<lparr>dg_cInterdigit := t\<rparr>)
      else if n = ''termtimeout'' then put_time (ie_bx e) v err (\<lambda>t. d\<lparr>dg_cTermtimeout := t\<rparr>)
      else if n = ''escapekey'' then put_escape v err d
      else if n = ''termchar'' then put_termchar v err d
      else if n = ''maxdigits'' then put_maxdigits (ie_bx e) v err d
      else Val (d, '''', 200))"

definition rx_record :: string where
  "rx_record = ''timeout|vadinitial|vadfinal|dtmfterm|maxtime|beep|finalsilence|append''"

definition record_parameter :: "ivr_env \<Rightarrow> string \<Rightarrow> string \<Rightarrow> string \<Rightarrow> ivr_dialog \<Rightarrow> verdict cpp" where
  "record_parameter e n v err d =
     (if bx_match (ie_bx e) rx_record n = None then Val (d, n, 400)
      else if n = ''timeout'' then put_time (ie_bx e) v err (\<lambda>t. d\<lparr>dg_rTimeout := t\<rparr>)
      else if n = ''vadinitial'' then put_bool (ie_bx e) v err (\<lambda>b. d\<lparr>dg_rVadinitial := b\<rparr>)
      else if n = ''vadfinal'' then put_bool (ie_bx e) v err (\<lambda>b. d\<lparr>dg_rVadfinal := b\<rparr>)
      else if n = ''dtmfterm'' then put_bool (ie_bx e) v err (\<lambda>b. d\<lparr>dg_rDtmfterm := b\<rparr>)
      else if n = ''maxtime'' then put_time (ie_bx e) v err (\<lambda>t. d\<lparr>dg_rMaxtime := t\<rparr>)
      else if n = ''beep'' then put_bool (ie_bx e) v err (\<lambda>b. d\<lparr>dg_rBeep := b\<rparr>)
      else if n = ''finalsilence'' then put_time (ie_bx e) v err (\<lambda>t. d\<lparr>dg_rFinalsilence := t\<rparr>)
      else if n = ''append'' then put_bool (ie_bx e) v err (\<lambda>b. d\<lparr>dg_rAppend := b\<rparr>)
      else Val (d, '''', 200))"

definition checkDataParameter :: "ivr_env \<Rightarrow> int \<Rightarrow> string \<Rightarrow> string \<Rightarrow> ivr_dialog \<Rightarrow> verdict cpp" where
  "checkDataParameter e model n v d = (let err = n @ ''='' @ v in
     if model = MODEL_PROMPT then prompt_parameter e n v err d
     else if model = MODEL_CONTROL then control_parameter e n v err d
     else if model = MODEL_COLLECT then collect_parameter e n v err d
     else if model = MODEL_RECORD then record_parameter e n v err d
     else Val (d, '''', 200))"

subsection \<open>Time line\<close>

text \<open>\<open>audioTimeLine[i]\<close> is the list of the steps of track \<open>i\<close>; \<open>back()\<close> of an empty list is undefined.\<close>

record prompt_clip =
  cl_file :: string
  cl_timeout :: u32
  cl_level :: u16
  cl_begin :: u32
  cl_end :: u32

definition add_clip :: "prompt_clip \<Rightarrow> timeline \<Rightarrow> timeline" where
  "add_clip c t = \<lparr>tl_files = tl_files t @ [cl_file c], tl_timeouts = tl_timeouts t @ [cl_timeout c],
     tl_levels = tl_levels t @ [ucast (cl_level c)], tl_begins = tl_begins t @ [cl_begin c], tl_ends = tl_ends t @ [cl_end c]\<rparr>"

definition push_back_step :: "timeline list \<Rightarrow> ivr_dialog \<Rightarrow> ivr_dialog" where
  "push_back_step ts d = d\<lparr>dg_timelines := map2 (\<lambda>tl t. tl @ [t]) (dg_timelines d) ts\<rparr>"

definition new_step :: "int \<Rightarrow> prompt_clip \<Rightarrow> ivr_dialog \<Rightarrow> ivr_dialog" where
  "new_step sync c d = push_back_step (add_clip c newTimeLine # replicate (TRACKS - 1) newTimeLine)
     (d\<lparr>dg_currentSlot := 0, dg_endsync := dg_endsync d @ [sync]\<rparr>)"

definition add_to_slot :: "nat \<Rightarrow> prompt_clip \<Rightarrow> ivr_dialog \<Rightarrow> ivr_dialog cpp" where
  "add_to_slot i c d = (if i < length (dg_timelines d) \<and> dg_timelines d ! i \<noteq> [] then
       Val (d\<lparr>dg_timelines := (dg_timelines d)[i := butlast (dg_timelines d ! i) @ [add_clip c (last (dg_timelines d ! i))]]\<rparr>)
     else Undef)"

text \<open>The search for the first slot of the current step without a file.\<close>

fun free_slot :: "timeline list list \<Rightarrow> nat \<Rightarrow> nat option cpp" where
  "free_slot [] i = Val None"
| "free_slot (tr # trs) i = (if tr = [] then Undef
     else if tl_files (last tr) = [] then Val (Some i) else free_slot trs (Suc i))"

definition next_slot :: "prompt_clip \<Rightarrow> ivr_dialog \<Rightarrow> (ivr_dialog \<times> int) cpp" where
  "next_slot c d = cpp_bind (free_slot (dg_timelines d) 0) (\<lambda>slot. case slot of None \<Rightarrow> Val (d, 435)
     | Some i \<Rightarrow> cpp_bind (add_to_slot i c (d\<lparr>dg_currentSlot := i\<rparr>)) (\<lambda>d'. Val (d', 0)))"

definition addFilename :: "int \<Rightarrow> prompt_clip \<Rightarrow> ivr_dialog \<Rightarrow> (ivr_dialog \<times> int) cpp" where
  "addFilename how c d =
     (if how \<noteq> TIMELINE_NORMAL \<and> how \<noteq> TIMELINE_PAR \<and> how \<noteq> TIMELINE_SEQ then Val (d, -1)
      else if str_find (cl_file c) ''.wav'' 0 = None \<and> str_find (cl_file c) ''.mp3'' 0 \<noteq> None \<and>
        str_find (cl_file c) ''.ogg'' 0 \<noteq> None then Val (d, 422)
      else if how = TIMELINE_NORMAL then Val (new_step ENDSYNC_NONE c d, 0)
      else if dg_newTimelineStep d then Val (new_step (dg_currentEndSync d) c d, 0)
      else if how = TIMELINE_PAR \<or> dg_newSlot d then next_slot c d
      else cpp_bind (add_to_slot (dg_currentSlot d) c d) (\<lambda>d'. Val (d', 0)))"

subsection \<open>Streams and recordings\<close>

text \<open>A destination is a file name, whether it takes audio, and where to upload it. \<open>rnd\<close> is what
  \<open>random()\<close> gives.\<close>

definition addRecordingType :: "nat list \<Rightarrow> string \<Rightarrow> bool \<Rightarrow> string \<Rightarrow> ivr_dialog \<Rightarrow> ivr_dialog" where
  "addRecordingType rnd dest audio type d = (if type = ''audio/x-wav'' then
     d\<lparr>dg_rDests := dg_rDests d @ [(''recording-'' @ dg_id d @ ''-'' @ random_string 4 rnd @ ''.wav'', audio, dest)]\<rparr> else d)"

definition default_streams :: "int \<Rightarrow> bool \<Rightarrow> ivr_dialog \<Rightarrow> ivr_dialog" where
  "default_streams mediaType has_audio d =
     (if dg_conType d = CPC_CONFERENCE \<or> mediaType = MEDIACTRL_MEDIA_AUDIO \<or> has_audio then
        d\<lparr>dg_pAudio := (has_model MODEL_PROMPT d \<or> dg_pAudio d), dg_rAudio := (has_model MODEL_RECORD d \<or> dg_rAudio d)\<rparr>
      else d)"

definition apply_stream :: "int \<times> int \<Rightarrow> ivr_dialog \<Rightarrow> ivr_dialog" where
  "apply_stream s d = (case s of (media, dir) \<Rightarrow>
     if media \<noteq> MEDIACTRL_MEDIA_AUDIO then d
     else d\<lparr>dg_pAudio := (if has_model MODEL_PROMPT d then dir = SENDRECV \<or> dir = SENDONLY else dg_pAudio d),
            dg_rAudio := (if has_model MODEL_RECORD d then dir = SENDRECV \<or> dir = RECVONLY else dg_rAudio d)\<rparr>)"

text \<open>\<open>mediaType\<close> is that of the connection; \<open>has_audio\<close> tells whether \<open>getSubConnection\<close> finds an audio
  channel. The front of an empty list of destinations is undefined, so a type other than
  \<open>audio/x-wav\<close> without destination is.\<close>

definition setupStreams :: "int \<Rightarrow> bool \<Rightarrow> nat list \<Rightarrow> ivr_dialog \<Rightarrow> ivr_dialog cpp" where
  "setupStreams mediaType has_audio rnd d0 =
     (if dg_connection d0 = NULL then Undef
      else let d1 = fold apply_stream (dg_streams d0) (default_streams mediaType has_audio d0) in
        if \<not> has_model MODEL_RECORD d1 then Val d1
        else let d2 = (if dg_rType d1 = '''' then d1\<lparr>dg_rType := ''audio/x-wav''\<rparr> else d1) in
          if dg_rDests d2 \<noteq> [] then Val d2
          else if dg_rType d2 = ''audio/x-wav'' then Val (addRecordingType rnd '''' True ''audio/x-wav'' d2)
          else Undef)"

subsection \<open>Tones\<close>

definition all_vcr :: "vcr list" where
  "all_vcr = [VCR_START, VCR_END, VCR_FF, VCR_RW, VCR_PAUSE, VCR_RESUME, VCR_VOLUP, VCR_VOLDOWN, VCR_SPEEDUP, VCR_SPEEDDOWN]"

definition dtmf_info :: "string \<Rightarrow> int \<Rightarrow> string" where
  "dtmf_info stamp t = ''dtmf='' @ quoted (dtmfCode t) @ '' timestamp='' @ quoted stamp"

definition notify_all :: "string \<Rightarrow> int \<Rightarrow> ivr_dialog \<Rightarrow> ivr_dialog" where
  "notify_all stamp t d = (if dg_notifyAll d
     then dlg_notifyEvent (''<dtmfnotify matchmode='' @ quoted ''all'' @ '' '' @ dtmf_info stamp t @ ''/>'') d else d)"

definition vcr_tone :: "string \<Rightarrow> int \<Rightarrow> ivr_dialog \<Rightarrow> ivr_dialog" where
  "vcr_tone stamp t d =
     (let found = find (\<lambda>k. t = dg_keys d k) all_vcr;
          d1 = (case found of Some k \<Rightarrow> d\<lparr>dg_pVcrEvents := dg_pVcrEvents d @ [k]\<rparr>
             | None \<Rightarrow> if dg_pBargein d then d\<lparr>dg_termmode := TERMMODE_BARGEIN, dg_playing := False\<rparr> else d);
          d2 = (if found \<noteq> None \<and> dg_notifyVcr d1 then
                  dlg_notifyEvent (''<dtmfnotify matchmode='' @ quoted ''control'' @ '' '' @ dtmf_info stamp t @ ''/>'')
                    (d1\<lparr>dg_vcrInfo := dg_vcrInfo d1 @ ''<controlmatch '' @ dtmf_info stamp t @ ''/>''\<rparr>)
                else d1) in
      notify_all stamp t d2)"

definition collect_tone :: "string \<Rightarrow> int \<Rightarrow> ivr_dialog \<Rightarrow> ivr_dialog" where
  "collect_tone stamp t d0 =
     (let d1 = notify_all stamp t d0;
          d2 = (if t = dg_cEscapekey d1 then d1\<lparr>dg_restart := True\<rparr>
                else if t = dg_cTermchar d1 then d1\<lparr>dg_done := True\<rparr> else d1) in
      if dg_done d2 \<or> dg_restart d2 then d2
      else d2\<lparr>dg_tones := dg_tones d2 @ [t], dg_out := dg_out d2 @ [ClearDtmfBuffer]\<rparr>)"

definition record_tone :: "string \<Rightarrow> int \<Rightarrow> ivr_dialog \<Rightarrow> ivr_dialog" where
  "record_tone stamp t d0 = (let d1 = notify_all stamp t d0 in
     if dg_rDtmfterm d1 then d1\<lparr>dg_termmode := TERMMODE_DTMF, dg_done := True\<rparr> else d1)"

definition dlg_incomingDtmf :: "string \<Rightarrow> ptr \<Rightarrow> ptr \<Rightarrow> int \<Rightarrow> ivr_dialog \<Rightarrow> ivr_dialog" where
  "dlg_incomingDtmf stamp con subcon t d =
     (if dg_state d \<noteq> DIALOG_STARTED \<or> dg_done d then d
      else if dg_connection d \<noteq> con \<and> dg_connection d \<noteq> subcon then d
      else if dg_playing d \<and> has_model MODEL_CONTROL d then vcr_tone stamp t d
      else if dg_playing d \<and> dg_pBargein d then
        (notify_all stamp t d)\<lparr>dg_termmode := TERMMODE_BARGEIN, dg_playing := False\<rparr>
      else if dg_collecting d \<and> has_model MODEL_COLLECT d then collect_tone stamp t d
      else if dg_recording d \<and> has_model MODEL_RECORD d then record_tone stamp t d
      else notify_all stamp t d)"

subsection \<open>Elements of a dialog\<close>

text \<open>The level 2 elements of the handler \<open>startElementBI\<close>: an error is its code and text.\<close>

fun check_attributes :: "ivr_env \<Rightarrow> int \<Rightarrow> (string \<times> string) list \<Rightarrow> ivr_dialog \<Rightarrow> (ivr_dialog \<times> (int \<times> string) option) cpp" where
  "check_attributes e m [] d = Val (d, None)"
| "check_attributes e m ((n, v) # atts) d = cpp_bind (checkDataParameter e m n v d) (\<lambda>(d', err, code).
     if code \<noteq> 200 then Val (d', Some (code, err)) else check_attributes e m atts d')"

definition model_element :: "ivr_env \<Rightarrow> int \<Rightarrow> string \<Rightarrow> (string \<times> string) list \<Rightarrow> ivr_dialog \<Rightarrow> (ivr_dialog \<times> (int \<times> string) option) cpp" where
  "model_element e m name atts d =
     (if has_model m d then Val (d, Some (400, ''multiple '' @ [CHR 0x27] @ name @ [CHR 0x27] @ '' elements defined''))
      else check_attributes e m atts (addModel m d))"

definition dialog_element :: "ivr_env \<Rightarrow> string \<Rightarrow> (string \<times> string) list \<Rightarrow> ivr_dialog \<Rightarrow> (ivr_dialog \<times> (int \<times> string) option) cpp" where
  "dialog_element e name atts d =
     (if name = ''prompt'' then model_element e MODEL_PROMPT name atts d
      else if name = ''collect'' then model_element e MODEL_COLLECT name atts d
      else if name = ''control'' then model_element e MODEL_CONTROL name atts d
      else if name = ''record'' then model_element e MODEL_RECORD name atts d
      else Val (d, Some (431, name)))"

text \<open>The root. \<open>ULONG_MAX-1\<close> is cut to 32 bits.\<close>

fun dialog_atts :: "(string \<times> string) list \<Rightarrow> string \<times> string \<Rightarrow> string + string \<times> string" where
  "dialog_atts [] r = Inr r"
| "dialog_atts ((n, v) # atts) (rc, rd) =
     (if n = ''repeatCount'' then dialog_atts atts (v, rd)
      else if n = ''repeatDur'' then dialog_atts atts (rc, v) else Inl n)"

definition dialog_root :: "boost \<Rightarrow> string \<Rightarrow> (string \<times> string) list \<Rightarrow> ivr_dialog \<Rightarrow> (ivr_dialog \<times> (int \<times> string) option) cpp" where
  "dialog_root bx name atts d =
     (if name \<noteq> ''dialog'' then Val (d, Some (400, name))
      else case dialog_atts atts ('''', '''') of Inl a \<Rightarrow> Val (d, Some (431, a))
      | Inr (rc, rd) \<Rightarrow>
        (case (if rc = '''' then Some 1 else map_option (\<lambda>n. if n = 0 then -2 else ucast n) (positiveInteger bx rc)) of
           None \<Rightarrow> Val (d, Some (400, ''repeatCount''))
         | Some its \<Rightarrow> let d1 = d\<lparr>dg_iterations := its\<rparr> in
             if rd = '''' then Val (d1\<lparr>dg_duration := 0\<rparr>, None)
             else cpp_bind (timeDesignation bx rd) (\<lambda>(t, ok).
               if ok then Val (d1\<lparr>dg_duration := t\<rparr>, None) else Val (d1, Some (400, ''repeatDur'')))))"

subsection \<open>Control keys\<close>

definition may_share :: "vcr \<Rightarrow> vcr \<Rightarrow> bool" where
  "may_share j k \<longleftrightarrow> {j, k} \<in> {{VCR_PAUSE, VCR_RESUME}, {VCR_VOLUP, VCR_SPEEDUP}, {VCR_VOLDOWN, VCR_SPEEDDOWN}}"

definition keys_apart :: "(vcr \<Rightarrow> int) \<Rightarrow> bool" where
  "keys_apart f \<longleftrightarrow> (\<forall>j k. j \<noteq> k \<longrightarrow> 0 \<le> f k \<longrightarrow> f j = f k \<longrightarrow> may_share j k)"

lemma rivals_cover: "j \<noteq> k \<Longrightarrow> \<not> may_share j k \<Longrightarrow> j \<in> set (key_rivals k)"
  by (cases k; cases j) (simp_all add: may_share_def doubleton_eq_iff)

lemma may_share_sym: "may_share j k = may_share k j"
  by (simp add: may_share_def insert_commute)

lemma put_key_apart:
  assumes "keys_apart (dg_keys d)" and "put_key k v err d = Val (d', x, 200)"
  shows "keys_apart (dg_keys d')"
proof -
  obtain t where t: "dtmfDigit v = (t, True)" "\<not> list_ex (\<lambda>r. ((dg_keys d)(k := t)) r = t) (key_rivals k)"
      "dg_keys d' = (dg_keys d)(k := t)"
    using assms(2) by (auto simp: put_key_def Let_def split: prod.splits if_splits)
  have r: "\<And>r. r \<in> set (key_rivals k) \<Longrightarrow> ((dg_keys d)(k := t)) r \<noteq> t" using t(2) by (auto simp: list_ex_iff)
  show ?thesis unfolding keys_apart_def
  proof (intro allI impI)
    fix a b assume ab: "a \<noteq> b" "0 \<le> dg_keys d' b" "dg_keys d' a = dg_keys d' b"
    consider "b = k" | "a = k" | "a \<noteq> k" "b \<noteq> k" by blast
    then show "may_share a b"
    proof cases
      case 1
      with ab t(3) r [of a] rivals_cover [of a k] show ?thesis by auto
    next
      case 2
      with ab t(3) r [of b] rivals_cover [of b k] show ?thesis by (auto simp: may_share_sym)
    next
      case 3
      with ab t(3) assms(1) show ?thesis by (auto simp: keys_apart_def)
    qed
  qed
qed

lemma judge_200: "judge ok err d = (d', x, 200) \<Longrightarrow> d' = d"
  by (auto simp: judge_def split: if_splits)

lemma put_keeps_keys:
  "put_bool bx v err f = Val (d', x, 200) \<Longrightarrow> \<exists>y. d' = f y"
  "put_time bx v err g = Val (d', x, 200) \<Longrightarrow> \<exists>y. d' = g y"
  "put_percent bx v err h = Val (d', x, 200) \<Longrightarrow> \<exists>y. d' = h y"
  by (auto simp: put_bool_def put_time_def put_percent_def cpp_bind_Val split: option.splits prod.splits dest!: judge_200)

lemma control_parameter_apart:
  assumes "keys_apart (dg_keys d)" and "control_parameter e n v err d = Val (d', x, 200)"
  shows "keys_apart (dg_keys d')"
  using assms
  by (auto simp: control_parameter_def split: if_splits dest!: put_keeps_keys intro: put_key_apart)

lemma controls_apart:
  "check_attributes e MODEL_CONTROL atts d = Val (d', None) \<Longrightarrow> keys_apart (dg_keys d) \<Longrightarrow> keys_apart (dg_keys d')"
proof (induction atts arbitrary: d)
  case (Cons a atts)
  obtain n v where a: "a = (n, v)" by (cases a)
  from Cons.prems(1) obtain d1 x where d1: "control_parameter e n v (n @ ''='' @ v) d = Val (d1, x, 200)"
      "check_attributes e MODEL_CONTROL atts d1 = Val (d', None)"
    unfolding a by (auto simp: cpp_bind_Val checkDataParameter_def Let_def split: if_splits)
  show ?case by (rule Cons.IH [OF d1(2) control_parameter_apart [OF Cons.prems(2) d1(1)]])
qed simp

lemma found_key:
  assumes "keys_apart f" and "0 \<le> f k"
  shows "\<exists>x. find (\<lambda>j. f k = f j) all_vcr = Some x \<and>
     (x = k \<or> (x, k) \<in> {(VCR_PAUSE, VCR_RESUME), (VCR_VOLUP, VCR_SPEEDUP), (VCR_VOLDOWN, VCR_SPEEDDOWN)})"
proof -
  have ex: "\<exists>x. find (\<lambda>j. f k = f j) all_vcr = Some x"
    by (cases k) (simp_all add: all_vcr_def)
  then obtain x where x: "find (\<lambda>j. f k = f j) all_vcr = Some x" by blast
  then have eq: "f k = f x" by (auto simp: find_Some_iff)
  have "x = k \<or> may_share x k" using assms eq unfolding keys_apart_def by metis
  moreover have "(x, k) \<notin> {(VCR_RESUME, VCR_PAUSE), (VCR_SPEEDUP, VCR_VOLUP), (VCR_SPEEDDOWN, VCR_VOLDOWN)}"
    using x by (auto simp: all_vcr_def split: if_splits)
  ultimately show ?thesis using x by (auto simp: may_share_def doubleton_eq_iff)
qed

lemma notify_keeps [simp]:
  "dg_pVcrEvents (notify_all s t d) = dg_pVcrEvents d" "dg_playing (notify_all s t d) = dg_playing d"
  "dg_tones (notify_all s t d) = dg_tones d" "dg_done (notify_all s t d) = dg_done d"
  "dg_restart (notify_all s t d) = dg_restart d" "dg_cEscapekey (notify_all s t d) = dg_cEscapekey d"
  "dg_cTermchar (notify_all s t d) = dg_cTermchar d" "dg_cMaxdigits (notify_all s t d) = dg_cMaxdigits d"
  "dg_rDtmfterm (notify_all s t d) = dg_rDtmfterm d" "dg_pVcrEvents (dlg_notifyEvent b d) = dg_pVcrEvents d"
  "dg_playing (dlg_notifyEvent b d) = dg_playing d"
  by (simp_all add: notify_all_def dlg_notifyEvent_def)

text \<open>
  C24. A \<open>control\<close> element that is accepted gives its controls keys such that, during a prompt, the key of a
  control asks for that control and the prompt goes on; only \<open>pausekey\<close> may be the key of \<open>resume\<close> too, and, because the
  source leaves these two pairs out of its comparisons, \<open>volupkey\<close> that of \<open>speedup\<close> and \<open>voldnkey\<close> that of \<open>speeddn\<close>: then the
  first one is asked for.
\<close>

theorem key_asks_for_its_control:
  assumes "dialog_element e ''control'' atts d = Val (d1, None)" and "\<forall>k. dg_keys d k = MEDIACTRL_DTMF_NONE"
    and "dg_keys d2 = dg_keys d1" and "dg_state d2 = DIALOG_STARTED" and "\<not> dg_done d2" and "dg_playing d2"
    and "has_model MODEL_CONTROL d2" and "dg_connection d2 \<in> {con, subcon}" and "0 \<le> dg_keys d1 k"
  shows "\<exists>x. dg_pVcrEvents (dlg_incomingDtmf stamp con subcon (dg_keys d1 k) d2) = dg_pVcrEvents d2 @ [x] \<and>
     dg_playing (dlg_incomingDtmf stamp con subcon (dg_keys d1 k) d2) \<and>
     (x = k \<or> (x, k) \<in> {(VCR_PAUSE, VCR_RESUME), (VCR_VOLUP, VCR_SPEEDUP), (VCR_VOLDOWN, VCR_SPEEDDOWN)})"
proof -
  have "keys_apart (dg_keys (addModel MODEL_CONTROL d))" using assms(2) by (simp add: keys_apart_def addModel_def)
  with assms(1) have "keys_apart (dg_keys d1)"
    by (auto simp: dialog_element_def model_element_def split: if_splits intro: controls_apart)
  from found_key [OF this assms(9)] obtain x where
    x: "find (\<lambda>j. dg_keys d1 k = dg_keys d2 j) all_vcr = Some x"
      "x = k \<or> (x, k) \<in> {(VCR_PAUSE, VCR_RESUME), (VCR_VOLUP, VCR_SPEEDUP), (VCR_VOLDOWN, VCR_SPEEDDOWN)}"
    unfolding assms(3) by blast
  have "dlg_incomingDtmf stamp con subcon (dg_keys d1 k) d2 = vcr_tone stamp (dg_keys d1 k) d2"
    using assms(4-8) by (auto simp: dlg_incomingDtmf_def)
  with x show ?thesis using assms(6) by (auto simp: vcr_tone_def Let_def)
qed

definition plain_ivr_env :: ivr_env where
  "plain_ivr_env = \<lparr>ie_bx = \<lparr>bx_match = (\<lambda>re s. None), bx_tokens = (\<lambda>re s. [s])\<rparr>, ie_exact = (\<lambda>re s. True)\<rparr>"

definition shared_keys :: ivr_dialog where
  "shared_keys = (newDialog ''d'')\<lparr>dg_model := MODEL_CONTROL, dg_vcrMode := True,
     dg_keys := (\<lambda>k. MEDIACTRL_DTMF_NONE)(VCR_VOLUP := 1, VCR_SPEEDUP := 1)\<rparr>"

lemma shared_keys_accepted:
  "dialog_element plain_ivr_env ''control'' [(''volupkey'', ''1''), (''speedupkey'', ''1'')] (newDialog ''d'') =
     Val (shared_keys, None)"
proof -
  have "dtmfDigit ''1'' = (1, True)" by code_simp
  then show ?thesis
    by (simp add: dialog_element_def model_element_def has_model_def newDialog_def addModel_def checkDataParameter_def
        control_parameter_def put_key_def plain_ivr_env_def shared_keys_def fun_eq_iff)
qed

theorem key_asks_for_its_control_witness:
  "\<exists>x. dg_pVcrEvents (dlg_incomingDtmf '''' 7 7 1 (shared_keys\<lparr>dg_state := DIALOG_STARTED, dg_playing := True, dg_connection := 7\<rparr>)) = [x]
     \<and> x \<in> {VCR_SPEEDUP, VCR_VOLUP}"
proof -
  have k: "dg_keys shared_keys VCR_SPEEDUP = 1" by (simp add: shared_keys_def)
  have m: "has_model MODEL_CONTROL shared_keys" by (simp add: has_model_def shared_keys_def)
  then have m': "has_model MODEL_CONTROL (shared_keys\<lparr>dg_state := DIALOG_STARTED, dg_playing := True, dg_connection := 7\<rparr>)"
    by (simp add: has_model_def)
  have f: "\<forall>k. dg_keys (newDialog ''d'') k = MEDIACTRL_DTMF_NONE" "\<not> dg_done shared_keys" "dg_pVcrEvents shared_keys = []"
    by (simp_all add: newDialog_def shared_keys_def)
  from key_asks_for_its_control [OF shared_keys_accepted f(1), where
      ?d2.0 = "shared_keys\<lparr>dg_state := DIALOG_STARTED, dg_playing := True, dg_connection := 7\<rparr>" and con = 7 and subcon = 7 and
      k = VCR_SPEEDUP and stamp = "''''"]
  show ?thesis using k m' f by auto
qed

subsection \<open>The time line as a list of steps\<close>

text \<open>What is prepared: for each step its way of ending and the files of the four tracks.\<close>

definition step_files :: "ivr_dialog \<Rightarrow> nat \<Rightarrow> string list list" where
  "step_files d j = map (\<lambda>tr. tl_files (tr ! j)) (dg_timelines d)"

definition abs_steps :: "ivr_dialog \<Rightarrow> (int \<times> string list list) list" where
  "abs_steps d = map (\<lambda>j. (dg_endsync d ! j, step_files d j)) [0..<length (dg_endsync d)]"

definition aligned :: "timeline \<Rightarrow> bool" where
  "aligned t \<longleftrightarrow> length (tl_timeouts t) = length (tl_files t) \<and> length (tl_levels t) = length (tl_files t) \<and>
     length (tl_begins t) = length (tl_files t) \<and> length (tl_ends t) = length (tl_files t)"

text \<open>Every track has every step, every clip has all its values, and a step whose slots are filled in order
  has a first file.\<close>

definition timeline_ok :: "ivr_dialog \<Rightarrow> bool" where
  "timeline_ok d \<longleftrightarrow> length (dg_timelines d) = TRACKS \<and> dg_currentSlot d < TRACKS \<and>
     (\<forall>tr\<in>set (dg_timelines d). length tr = length (dg_endsync d) \<and> list_all aligned tr) \<and>
     (dg_newTimelineStep d \<or> dg_endsync d \<noteq> [])"

definition open_slot :: "string list list \<Rightarrow> nat option" where
  "open_slot fs = (if [] \<in> set fs then Some (length (takeWhile (\<lambda>f. f \<noteq> []) fs)) else None)"

definition put_file :: "nat \<Rightarrow> string \<Rightarrow> (int \<times> string list list) list \<Rightarrow> (int \<times> string list list) list" where
  "put_file i f sts = butlast sts @ [(fst (last sts), (snd (last sts))[i := snd (last sts) ! i @ [f]])]"

definition abs_add :: "int \<Rightarrow> int \<Rightarrow> bool \<Rightarrow> bool \<Rightarrow> nat \<Rightarrow> string \<Rightarrow> (int \<times> string list list) list \<Rightarrow> (int \<times> string list list) list option" where
  "abs_add how sync fresh newslot cur f sts =
     (if how = TIMELINE_NORMAL then Some (sts @ [(ENDSYNC_NONE, [[f], [], [], []])])
      else if fresh then Some (sts @ [(sync, [[f], [], [], []])])
      else if how = TIMELINE_PAR \<or> newslot then map_option (\<lambda>i. put_file i f sts) (open_slot (snd (last sts)))
      else Some (put_file cur f sts))"

lemma aligned_add [simp]: "aligned t \<Longrightarrow> aligned (add_clip c t)" "aligned newTimeLine" "tl_files (add_clip c t) = tl_files t @ [cl_file c]"
  "tl_files newTimeLine = []"
  by (auto simp: aligned_def add_clip_def newTimeLine_def)

lemma four_tracks: "length ts = TRACKS \<Longrightarrow> \<exists>a b c d. ts = [a, b, c, d]"
  by (auto simp: eval_nat_numeral length_Suc_conv)

lemma new_step_abs:
  assumes "timeline_ok d"
  shows "timeline_ok (new_step sync c d)" and "abs_steps (new_step sync c d) = abs_steps d @ [(sync, [[cl_file c], [], [], []])]"
proof -
  from assms obtain t0 t1 t2 t3 where t: "dg_timelines d = [t0, t1, t2, t3]"
    using four_tracks unfolding timeline_ok_def by blast
  have l: "length t0 = length (dg_endsync d)" "length t1 = length (dg_endsync d)" "length t2 = length (dg_endsync d)"
      "length t3 = length (dg_endsync d)" using assms by (simp_all add: timeline_ok_def t)
  have n: "dg_timelines (new_step sync c d) = [t0 @ [add_clip c newTimeLine], t1 @ [newTimeLine], t2 @ [newTimeLine], t3 @ [newTimeLine]]"
    by (simp add: new_step_def push_back_step_def t eval_nat_numeral)
  have e: "dg_endsync (new_step sync c d) = dg_endsync d @ [sync]" "dg_currentSlot (new_step sync c d) = 0"
    by (simp_all add: new_step_def push_back_step_def)
  show "timeline_ok (new_step sync c d)" using assms by (simp add: timeline_ok_def n e t)
  show "abs_steps (new_step sync c d) = abs_steps d @ [(sync, [[cl_file c], [], [], []])]"
    by (simp add: abs_steps_def e step_files_def n t l nth_append)
qed

lemma add_to_slot_abs:
  assumes ok: "timeline_ok d" and ne: "dg_endsync d \<noteq> []" and i: "i < TRACKS"
  shows "\<exists>d'. add_to_slot i c d = Val d' \<and> timeline_ok d' \<and> abs_steps d' = put_file i (cl_file c) (abs_steps d)"
proof -
  let ?tr = "dg_timelines d ! i"
  obtain m where m: "length (dg_endsync d) = Suc m" using ne by (cases "dg_endsync d") auto
  have il: "i < length (dg_timelines d)" using ok i by (simp add: timeline_ok_def)
  then have tr: "length ?tr = Suc m" "list_all aligned ?tr" using ok m by (auto simp: timeline_ok_def)
  then have tr_ne: "?tr \<noteq> []" by auto
  let ?tr' = "butlast ?tr @ [add_clip c (last ?tr)]"
  let ?d' = "d\<lparr>dg_timelines := (dg_timelines d)[i := ?tr']\<rparr>"
  have a: "add_to_slot i c d = Val ?d'" using il tr_ne by (simp add: add_to_slot_def)
  have "aligned (last ?tr)" "list_all aligned (butlast ?tr)"
    using tr(2) tr_ne by (auto simp: list_all_iff dest: in_set_butlastD)
  then have ok': "timeline_ok ?d'"
    using ok tr(1) m by (auto simp: timeline_ok_def dest!: set_update_subset_insert [THEN subsetD])
  have old: "step_files ?d' j = step_files d j" if "j < m" for j
  proof -
    have "?tr' ! j = ?tr ! j" using that tr(1) by (simp add: nth_append nth_butlast)
    then show ?thesis using il by (simp add: step_files_def map_update list_update_same_conv)
  qed
  have "?tr' ! m = add_clip c (?tr ! m)" using tr(1) tr_ne by (simp add: nth_append last_conv_nth)
  then have new: "step_files ?d' m = (step_files d m)[i := step_files d m ! i @ [cl_file c]]"
    using il by (simp add: step_files_def map_update)
  have s: "abs_steps d = map (\<lambda>j. (dg_endsync d ! j, step_files d j)) [0..<m] @ [(dg_endsync d ! m, step_files d m)]"
      "abs_steps ?d' = map (\<lambda>j. (dg_endsync d ! j, step_files d j)) [0..<m] @ [(dg_endsync d ! m, step_files ?d' m)]"
    using old by (simp_all add: abs_steps_def m)
  have "abs_steps ?d' = put_file i (cl_file c) (abs_steps d)" unfolding s new by (simp add: put_file_def)
  with a ok' show ?thesis by blast
qed

lemma free_slot_open:
  assumes "\<forall>tr\<in>set trs. length tr = Suc m"
  shows "free_slot trs k = Val (map_option (\<lambda>i. k + i) (open_slot (map (\<lambda>tr. tl_files (tr ! m)) trs)))"
  using assms
proof (induction trs arbitrary: k)
  case (Cons tr trs)
  then have l: "length tr = Suc m" by simp
  then have ne: "tr \<noteq> []" by auto
  then have tr: "tr \<noteq> []" "last tr = tr ! m" using l by (simp_all add: last_conv_nth)
  show ?case
  proof (cases "tl_files (tr ! m) = []")
    case True
    then show ?thesis using tr by (simp add: open_slot_def)
  next
    case False
    then have "open_slot (map (\<lambda>tr. tl_files (tr ! m)) (tr # trs)) = map_option Suc (open_slot (map (\<lambda>tr. tl_files (tr ! m)) trs))"
      by (auto simp: open_slot_def)
    with False tr Cons show ?thesis by (cases "open_slot (map (\<lambda>tr. tl_files (tr ! m)) trs)") simp_all
  qed
qed (simp add: open_slot_def)

lemma open_slot_bound: "open_slot fs = Some i \<Longrightarrow> i < length fs"
proof -
  assume "open_slot fs = Some i"
  then have h: "[] \<in> set fs" "i = length (takeWhile (\<lambda>f. f \<noteq> []) fs)" by (auto simp: open_slot_def split: if_splits)
  show ?thesis
  proof (rule ccontr)
    assume "\<not> i < length fs"
    then have "takeWhile (\<lambda>f. f \<noteq> []) fs = fs" using h(2) takeWhile_eq_take [of "\<lambda>f. f \<noteq> []" fs] by simp
    then show False using h(1) by (metis (mono_tags) set_takeWhileD)
  qed
qed

lemma last_step:
  assumes "length (dg_endsync d) = Suc m" shows "snd (last (abs_steps d)) = step_files d m"
  using assms by (simp add: abs_steps_def)

text \<open>
  C25. Adding a prompt never leaves defined behaviour, keeps the four tracks in step, and does to the list of
  steps what it stands for: a plain prompt is a step of its own, the first prompt of a \<open>par\<close> opens a step with its way
  of ending, a further one takes the next free track or is refused with 435, and a prompt of a \<open>seq\<close> follows the last one
  on its track; a file is refused with 422 only if its name has both \<open>.mp3\<close> and \<open>.ogg\<close>. A refused prompt changes no step.
\<close>

theorem time_line_of_prompts:
  assumes ok: "timeline_ok d" and how: "how \<in> {TIMELINE_NORMAL, TIMELINE_PAR, TIMELINE_SEQ}"
  shows "\<exists>d' r. addFilename how c d = Val (d', r) \<and> timeline_ok d' \<and> (r \<noteq> 0 \<longrightarrow> abs_steps d' = abs_steps d) \<and>
     (r = 422 \<longleftrightarrow> str_find (cl_file c) ''.wav'' 0 = None \<and> str_find (cl_file c) ''.mp3'' 0 \<noteq> None \<and> str_find (cl_file c) ''.ogg'' 0 \<noteq> None) \<and>
     (r \<noteq> 422 \<longrightarrow> (case abs_add how (dg_currentEndSync d) (dg_newTimelineStep d) (dg_newSlot d) (dg_currentSlot d) (cl_file c) (abs_steps d)
        of None \<Rightarrow> r = 435 | Some sts \<Rightarrow> r = 0 \<and> abs_steps d' = sts))"
proof (cases "str_find (cl_file c) ''.wav'' 0 = None \<and> str_find (cl_file c) ''.mp3'' 0 \<noteq> None \<and> str_find (cl_file c) ''.ogg'' 0 \<noteq> None")
  case True
  with how ok show ?thesis by (auto simp: addFilename_def)
next
  case fmt: False
  show ?thesis
  proof (cases "how = TIMELINE_NORMAL \<or> dg_newTimelineStep d")
    case True
    then show ?thesis using how fmt new_step_abs [OF ok] by (auto simp: addFilename_def abs_add_def)
  next
    case False
    with ok obtain m where m: "length (dg_endsync d) = Suc m" "dg_endsync d \<noteq> []"
      by (cases "dg_endsync d") (auto simp: timeline_ok_def)
    have cur: "dg_currentSlot d < TRACKS" using ok by (simp add: timeline_ok_def)
    show ?thesis
    proof (cases "how = TIMELINE_PAR \<or> dg_newSlot d")
      case slot: True
      have fr: "free_slot (dg_timelines d) 0 = Val (open_slot (step_files d m))"
        using free_slot_open [of "dg_timelines d" m 0] ok m by (simp add: timeline_ok_def step_files_def option.map_ident)
      show ?thesis
      proof (cases "open_slot (step_files d m)")
        case None
        then show ?thesis using how fmt False slot ok fr last_step [OF m(1)]
          by (auto simp: addFilename_def abs_add_def next_slot_def)
      next
        case (Some i)
        then have i: "i < TRACKS" using open_slot_bound [OF Some] ok by (simp add: step_files_def timeline_ok_def)
        let ?d = "d\<lparr>dg_currentSlot := i\<rparr>"
        have d: "timeline_ok ?d" "dg_endsync ?d \<noteq> []" "abs_steps ?d = abs_steps d"
          using ok i m by (auto simp: timeline_ok_def abs_steps_def step_files_def)
        from add_to_slot_abs [OF d(1,2) i] obtain d' where "add_to_slot i c ?d = Val d'" "timeline_ok d'"
            "abs_steps d' = put_file i (cl_file c) (abs_steps d)" unfolding d(3) by blast
        then show ?thesis using how fmt False slot fr Some last_step [OF m(1)]
          by (auto simp: addFilename_def abs_add_def next_slot_def)
      qed
    next
      case False
      note slot = this
      from add_to_slot_abs [OF ok m(2) cur] obtain d' where "add_to_slot (dg_currentSlot d) c d = Val d'" "timeline_ok d'"
          "abs_steps d' = put_file (dg_currentSlot d) (cl_file c) (abs_steps d)" by blast
      then show ?thesis using how fmt slot \<open>\<not> (how = TIMELINE_NORMAL \<or> dg_newTimelineStep d)\<close>
        by (auto simp: addFilename_def abs_add_def)
    qed
  qed
qed

definition demo_clip :: "string \<Rightarrow> prompt_clip" where
  "demo_clip f = \<lparr>cl_file = f, cl_timeout = 30000, cl_level = 100, cl_begin = 0, cl_end = 0\<rparr>"

theorem time_line_of_prompts_witness:
  "\<exists>d'. addFilename TIMELINE_PAR (demo_clip ''b.wav'') ((new_step ENDSYNC_FIRST (demo_clip ''a.wav'') (newDialog ''d''))\<lparr>dg_newTimelineStep := False\<rparr>) = Val (d', 0)
     \<and> abs_steps d' = [(ENDSYNC_FIRST, [[''a.wav''], [''b.wav''], [], []])]"
proof -
  let ?d = "(new_step ENDSYNC_FIRST (demo_clip ''a.wav'') (newDialog ''d''))\<lparr>dg_newTimelineStep := False\<rparr>"
  have n: "timeline_ok (newDialog ''d'')" "abs_steps (newDialog ''d'') = []"
    by (simp_all add: timeline_ok_def newDialog_def abs_steps_def)
  have ok: "timeline_ok ?d" and a: "abs_steps ?d = [(ENDSYNC_FIRST, [[''a.wav''], [], [], []])]"
    using new_step_abs [OF n(1), of ENDSYNC_FIRST "demo_clip ''a.wav''"]
    by (simp_all add: timeline_ok_def abs_steps_def step_files_def new_step_def push_back_step_def n demo_clip_def
        newDialog_def eval_nat_numeral add_clip_def newTimeLine_def)
  have w: "str_find ''b.wav'' ''.wav'' 0 \<noteq> None" by code_simp
  from time_line_of_prompts [OF ok, of TIMELINE_PAR "demo_clip ''b.wav''"] show ?thesis unfolding a using w
    by (auto simp: abs_add_def open_slot_def put_file_def demo_clip_def new_step_def push_back_step_def)
qed

end
