(* ===== verification/IvrCollect.thy ===== *)
theory IvrCollect
  imports IvrDialog
begin

text \<open>
  \<open>src/packages/IvrPackage.cxx\<close>, the thread of a dialog while it collects digits (\<open>IvrDialog::run\<close>). The tones that the connection has kept before are the list
  that \<open>getNextDtmfBuffer\<close> empties from the front, with a negative number at its end. The waiting loop is
  a function of its turns: what the timers show, and what other threads do to the dialog while it sleeps; at
  the end of the list it still waits (\<open>None\<close>). Fewer than 65536 tones are collected.
\<close>

subsection \<open>Tones that are there already\<close>

definition take_tone :: "int \<Rightarrow> ivr_dialog \<Rightarrow> ivr_dialog" where
  "take_tone t d = (let d1 = d\<lparr>dg_tones := dg_tones d @ [t]\<rparr> in
     if unat (dg_cMaxdigits d1) \<le> length (dg_tones d1) then d1\<lparr>dg_done := True\<rparr> else d1)"

text \<open>The tone that kept the prompt from being played, -1 if there was none.\<close>

definition early_tone :: "int \<Rightarrow> ivr_dialog \<Rightarrow> int \<times> ivr_dialog" where
  "early_tone temp d =
     (if temp = -1 then (temp, d)
      else if temp = dg_cTermchar d then (temp, d\<lparr>dg_done := True\<rparr>)
      else if temp = dg_cEscapekey d then (temp, d\<lparr>dg_restart := True\<rparr>)
      else (-1, take_tone temp d))"

fun buffered_tones :: "int list \<Rightarrow> ivr_dialog \<Rightarrow> int list \<times> ivr_dialog" where
  "buffered_tones [] d = ([], d)"
| "buffered_tones (t # ts) d =
     (if t < 0 then (ts, d)
      else if t = dg_cTermchar d then (ts, d\<lparr>dg_done := True\<rparr>)
      else if t = dg_cEscapekey d then (ts, d\<lparr>dg_restart := True\<rparr>)
      else let d1 = take_tone t d in if dg_done d1 then (ts, d1) else buffered_tones ts d1)"

text \<open>From \<open>collectstartpoint\<close> to \<open>goto collectstartpoint\<close>.\<close>

definition collect_pass :: "int \<Rightarrow> int list \<Rightarrow> ivr_dialog \<Rightarrow> int \<times> int list \<times> ivr_dialog" where
  "collect_pass temp buf0 d0 =
     (let (buf, d1) = (if dg_restart d0 then ([], d0\<lparr>dg_restart := False, dg_cClear := True, dg_out := dg_out d0 @ [ClearDtmfBuffer]\<rparr>)
            else (buf0, d0));
          (temp', d2) = early_tone temp (d1\<lparr>dg_termmode := TERMMODE_UNKNOWN, dg_done := False, dg_tones := [], dg_state := DIALOG_STARTED\<rparr>) in
      if \<not> dg_done d2 \<and> \<not> dg_restart d2 then (let (buf', d3) = buffered_tones buf d2 in (temp', buf', d3))
      else (temp', buf, d2))"

partial_function (option) collect_start :: "int \<Rightarrow> int list \<Rightarrow> ivr_dialog \<Rightarrow> (int \<times> int list \<times> ivr_dialog) option" where
  "collect_start temp buf d = (case collect_pass temp buf d of (temp', buf', d') \<Rightarrow>
     if dg_restart d' then collect_start temp' buf' d' else Some (temp', buf', d'))"

subsection \<open>Waiting for tones\<close>

datatype dialog_event = Tone string int | Terminate bool int

fun happen :: "dialog_event \<Rightarrow> ivr_dialog \<Rightarrow> ivr_dialog" where
  "happen (Tone stamp t) d = dlg_incomingDtmf stamp (dg_connection d) (dg_connection d) t d"
| "happen (Terminate immediate status) d = destroyDialog immediate status d"

record turn =
  tn_timer :: u32
  tn_collect :: u32
  tn_events :: "dialog_event list"

definition over_duration :: "u32 \<Rightarrow> u32 \<Rightarrow> ivr_dialog \<Rightarrow> bool" where
  "over_duration startTime now d \<longleftrightarrow> 0 < dg_duration d \<and> dg_duration d \<le> now - startTime"

definition max_duration :: "ivr_dialog \<Rightarrow> ivr_dialog" where
  "max_duration d = d\<lparr>dg_exitStatus := DIALOGEXIT_MAXDURATION, dg_exitString := ''Maximum dialog duration reached'',
     dg_termmode := TERMMODE_STOPPED, dg_currentIteration := dg_iterations d\<rparr>"

definition timed_out :: "u32 \<Rightarrow> u32 \<Rightarrow> u32 \<Rightarrow> ivr_dialog \<Rightarrow> bool" where
  "timed_out begin0 latest now d \<longleftrightarrow>
     (if begin0 = latest then dg_cTimeout d \<le> now - begin0 else dg_cInterdigit d \<le> now - latest)"

fun collect_wait :: "u32 \<Rightarrow> u32 \<Rightarrow> turn list \<Rightarrow> u32 \<Rightarrow> nat \<Rightarrow> ivr_dialog \<Rightarrow> ivr_dialog option" where
  "collect_wait startTime begin0 [] latest seen d = (if dg_done d then Some d else None)"
| "collect_wait startTime begin0 (tn # tns) latest seen d =
     (if dg_done d then Some d
      else if over_duration startTime (tn_timer tn) d then Some ((max_duration d)\<lparr>dg_destroy := True\<rparr>)
      else if dg_destroy d \<or> dg_restart d then Some d
      else let fresh = seen < length (dg_tones d);
               latest' = (if fresh then tn_collect tn else latest);
               d1 = (if fresh \<and> unat (dg_cMaxdigits d) \<le> length (dg_tones d) then d\<lparr>dg_done := True\<rparr> else d) in
        if dg_done d1 \<or> timed_out begin0 latest' (tn_collect tn) d1 then Some d1
        else collect_wait startTime begin0 tns latest' (length (dg_tones d)) (fold happen (tn_events tn) d1))"

definition collect_digits :: "u32 \<Rightarrow> u32 \<Rightarrow> turn list \<Rightarrow> ivr_dialog \<Rightarrow> ivr_dialog option" where
  "collect_digits startTime begin0 tns d0 =
     (let d = d0\<lparr>dg_collecting := True, dg_cMatch := True\<rparr> in
      if dg_done d then Some d
      else if unat (dg_cMaxdigits d) \<le> length (dg_tones d) then Some (d\<lparr>dg_done := True\<rparr>)
      else map_option (\<lambda>d1. if \<not> dg_restart d1 \<and> dg_tones d1 \<noteq> [] then d1\<lparr>dg_done := True\<rparr> else d1)
        (collect_wait startTime begin0 tns begin0 0 d))"

text \<open>With the way back to \<open>collectstartpoint\<close> after the escape key: one element for each run of the loop.\<close>

fun collect_phase :: "u32 \<Rightarrow> (u32 \<times> turn list) list \<Rightarrow> int \<Rightarrow> int list \<Rightarrow> ivr_dialog \<Rightarrow> (int \<times> ivr_dialog) option" where
  "collect_phase startTime [] temp buf d = None"
| "collect_phase startTime ((begin0, tns) # runs) temp buf d = (case collect_start temp buf d of None \<Rightarrow> None
     | Some (temp', buf', d1) \<Rightarrow> (case collect_digits startTime begin0 tns d1 of None \<Rightarrow> None
       | Some d2 \<Rightarrow> if dg_restart d2 then collect_phase startTime runs temp' buf' d2 else Some (temp', d2)))"

subsection \<open>The report\<close>

definition add_info :: "string \<Rightarrow> ivr_dialog \<Rightarrow> ivr_dialog" where
  "add_info s d = d\<lparr>dg_info := dg_info d @ s\<rparr>"

definition collect_info :: "ivr_dialog \<Rightarrow> string \<Rightarrow> ivr_dialog" where
  "collect_info d0 s =
     (if dg_done d0 then add_info (''<collectinfo dtmf='' @ quoted s @ '' termmode='' @
          quoted (if dg_cMatch d0 then ''match'' else ''nomatch'') @ ''/>'') d0
      else let d = (if \<not> dg_cMatch d0 then d0\<lparr>dg_termmode := TERMMODE_NOMATCH\<rparr> else d0) in
        add_info (''<collectinfo '' @ (if s \<noteq> '''' then ''dtmf='' @ quoted s @ '' '' else '''') @
          (if dg_termmode d = TERMMODE_NOINPUT then ''termmode='' @ quoted ''noinput'' @ ''/>''
           else if dg_termmode d = TERMMODE_NOMATCH then ''termmode='' @ quoted ''nomatch'' @ ''/>''
           else if dg_termmode d = TERMMODE_STOPPED then ''termmode='' @ quoted ''stopped'' @ ''/>'' else '''')) d)"

definition collect_report :: "string \<Rightarrow> ivr_dialog \<Rightarrow> ivr_dialog" where
  "collect_report stamp d0 =
     (let d = d0\<lparr>dg_collecting := False\<rparr> in
      if \<not> dg_done d \<and> \<not> dg_destroy d then
        (if dg_currentIteration d = dg_iterations d
         then add_info (''<collectinfo termmode='' @ quoted ''noinput'' @ ''/>'') d else d)
      else let s = concat (map dtmfCode (dg_tones d));
               d1 = (if dg_notifyCollect d \<and> dg_done d \<and> dg_cMatch d \<and> s \<noteq> '''' then
                   dlg_notifyEvent (''<dtmfnotify matchmode='' @ quoted ''collect'' @ '' dtmf='' @ quoted s @
                     '' timestamp='' @ quoted stamp @ ''/>'') d else d) in
        if dg_currentIteration d1 = dg_iterations d1 \<and> \<not> (dg_destroy d1 \<and> dg_immediate d1) then collect_info d1 s else d1)"

subsection \<open>The start returns\<close>

definition caught :: "int \<Rightarrow> ivr_dialog \<Rightarrow> bool" where
  "caught temp d \<longleftrightarrow> temp = dg_cEscapekey d \<and> temp \<noteq> -1 \<and> temp \<noteq> dg_cTermchar d"

lemma take_tone_keeps [simp]:
  "dg_cEscapekey (take_tone t d) = dg_cEscapekey d" "dg_cTermchar (take_tone t d) = dg_cTermchar d"
  "dg_restart (take_tone t d) = dg_restart d"
  by (simp_all add: take_tone_def Let_def)

lemma buffered_keeps [simp]:
  "dg_cEscapekey (snd (buffered_tones ts d)) = dg_cEscapekey d" "dg_cTermchar (snd (buffered_tones ts d)) = dg_cTermchar d"
  by (induction ts d rule: buffered_tones.induct) (auto simp: Let_def)

lemma pass_caught:
  assumes "caught temp d" and "collect_pass temp buf d = (temp', buf', d')"
  shows "dg_restart d'" and "temp' = temp" and "caught temp d'"
  using assms by (auto simp: collect_pass_def caught_def early_tone_def Let_def split: if_splits)

lemma pass_free:
  assumes "\<not> caught temp d" and "collect_pass temp buf d = (temp', buf', d')"
  shows "dg_restart d' \<longrightarrow> temp' = -1" and "temp = -1 \<and> dg_restart d \<longrightarrow> \<not> dg_restart d'"
  using assms by (auto simp: collect_pass_def caught_def early_tone_def Let_def split: if_splits prod.splits)

lemma caught_never:
  assumes "collect_start temp buf d = Some y"
  shows "\<not> caught temp d"
proof (rule collect_start.raw_induct [OF _ assms, where P = "\<lambda>temp buf d y. \<not> caught temp d"])
  fix f temp buf d y
  assume ih: "\<And>temp buf d y. f temp buf d = Some y \<Longrightarrow> \<not> caught temp d"
    and e: "(case collect_pass temp buf d of (temp', buf', d') \<Rightarrow> if dg_restart d' then f temp' buf' d' else Some (temp', buf', d')) = Some y"
  show "\<not> caught temp d"
  proof
    assume c: "caught temp d"
    obtain temp' buf' d' where p: "collect_pass temp buf d = (temp', buf', d')" by (cases "collect_pass temp buf d")
    from pass_caught [OF c p] have r: "dg_restart d'" "caught temp' d'" by simp_all
    with e p have "f temp' buf' d' = Some y" by simp
    from ih [OF this] r(2) show False by blast
  qed
qed

text \<open>
  The collection of digits begins, at most one escape key later, unless the tone that kept the prompt from
  being played is the escape key itself: it is not forgotten on the way back to the start, and the dialog's
  thread goes round for ever.
\<close>

theorem collection_starts: "collect_start temp buf d = None \<longleftrightarrow> caught temp d"
proof
  assume "caught temp d"
  then show "collect_start temp buf d = None" using caught_never by (cases "collect_start temp buf d") auto
next
  assume n: "collect_start temp buf d = None"
  show "caught temp d"
  proof (rule ccontr)
    assume f: "\<not> caught temp d"
    obtain t1 b1 d1 where p1: "collect_pass temp buf d = (t1, b1, d1)" by (cases "collect_pass temp buf d")
    with n have r: "dg_restart d1" "collect_start t1 b1 d1 = None"
      by (simp_all add: collect_start.simps [of temp buf d] split: if_splits)
    then have t1: "t1 = -1" using pass_free(1) [OF f p1] by blast
    obtain t2 b2 d2 where p2: "collect_pass t1 b1 d1 = (t2, b2, d2)" by (cases "collect_pass t1 b1 d1")
    have "\<not> caught t1 d1" using t1 by (simp add: caught_def)
    then have "\<not> dg_restart d2" using pass_free(2) [OF _ p2] t1 r(1) by blast
    with r(2) p2 show False by (simp add: collect_start.simps [of t1 b1 d1])
  qed
qed

subsection \<open>The digits that are collected\<close>

definition waiting :: "ivr_dialog \<Rightarrow> bool" where
  "waiting d \<longleftrightarrow> dg_state d = DIALOG_STARTED \<and> dg_collecting d \<and> has_model MODEL_COLLECT d \<and> \<not> dg_playing d"

fun tone_of :: "dialog_event \<Rightarrow> int" where
  "tone_of (Tone stamp t) = t"
| "tone_of (Terminate immediate status) = -1"

definition only_tones :: "turn list \<Rightarrow> bool" where
  "only_tones tns \<longleftrightarrow> (\<forall>tn\<in>set tns. \<forall>ev\<in>set (tn_events tn). \<exists>stamp t. ev = Tone stamp t)"

definition typed :: "turn list \<Rightarrow> int list" where
  "typed tns = concat (map (\<lambda>tn. map tone_of (tn_events tn)) tns)"

text \<open>What a dialog \<open>d'\<close> that came from \<open>d\<close> has made of the tones \<open>ts\<close>: the digits up to the first escape or
  termination key, and why it stopped there.\<close>

definition plain :: "ivr_dialog \<Rightarrow> int \<Rightarrow> bool" where
  "plain d t \<longleftrightarrow> t \<noteq> dg_cEscapekey d \<and> t \<noteq> dg_cTermchar d"

definition took :: "ivr_dialog \<Rightarrow> int list \<Rightarrow> ivr_dialog \<Rightarrow> bool" where
  "took d ts d' \<longleftrightarrow> dg_tones d' = dg_tones d @ takeWhile (plain d) ts \<and>
     (dg_restart d' \<longleftrightarrow> (\<exists>r. dropWhile (plain d) ts = dg_cEscapekey d # r)) \<and> (dropWhile (plain d) ts \<noteq> [] \<longrightarrow> dg_done d' \<or> dg_restart d')"

lemma notify_frame [simp]:
  "dg_state (notify_all s t d) = dg_state d" "dg_collecting (notify_all s t d) = dg_collecting d"
  "dg_model (notify_all s t d) = dg_model d" "dg_cTimeout (notify_all s t d) = dg_cTimeout d"
  "dg_cInterdigit (notify_all s t d) = dg_cInterdigit d" "dg_destroy (notify_all s t d) = dg_destroy d"
  "dg_connection (notify_all s t d) = dg_connection d" "dg_info (notify_all s t d) = dg_info d"
  "dg_cMatch (notify_all s t d) = dg_cMatch d" "dg_iterations (notify_all s t d) = dg_iterations d"
  "dg_currentIteration (notify_all s t d) = dg_currentIteration d"
  by (simp_all add: notify_all_def dlg_notifyEvent_def)

lemma tone_waiting:
  assumes "waiting d" and "\<not> dg_done d"
  shows "happen (Tone stamp t) d = collect_tone stamp t d"
  using assms by (simp add: waiting_def dlg_incomingDtmf_def)

lemma tone_done: "dg_done d \<Longrightarrow> happen (Tone stamp t) d = d"
  by (simp add: dlg_incomingDtmf_def)

lemma collect_tone_keeps:
  "dg_cEscapekey (collect_tone s t d) = dg_cEscapekey d" "dg_cTermchar (collect_tone s t d) = dg_cTermchar d"
  "waiting (collect_tone s t d) = waiting d" "dg_info (collect_tone s t d) = dg_info d" "dg_cMatch (collect_tone s t d) = dg_cMatch d"
  "dg_iterations (collect_tone s t d) = dg_iterations d" "dg_currentIteration (collect_tone s t d) = dg_currentIteration d"
  "dg_destroy (collect_tone s t d) = dg_destroy d"
  by (auto simp: collect_tone_def Let_def waiting_def has_model_def)

lemma stopped_tones:
  assumes "waiting d" and "dg_done d \<or> dg_restart d" and "\<forall>ev\<in>set evs. \<exists>stamp t. ev = Tone stamp t"
  shows "dg_tones (fold happen evs d) = dg_tones d \<and> dg_restart (fold happen evs d) = dg_restart d \<and>
     (dg_done d \<longrightarrow> dg_done (fold happen evs d))"
  using assms
proof (induction evs arbitrary: d)
  case (Cons ev evs)
  then obtain s t where ev: "ev = Tone s t" by auto
  show ?case
  proof (cases "dg_done d")
    case True
    then show ?thesis using Cons.IH [OF Cons.prems(1)] Cons.prems by (simp only: ev fold_Cons tone_done comp_apply) auto
  next
    case False
    with Cons.prems have r: "dg_restart d" by blast
    have h: "happen ev d = collect_tone s t d" unfolding ev by (rule tone_waiting [OF Cons.prems(1) False])
    have c: "dg_restart (collect_tone s t d)" "dg_tones (collect_tone s t d) = dg_tones d"
      using r by (auto simp: collect_tone_def Let_def)
    from Cons.IH [of "collect_tone s t d"] Cons.prems c False r show ?thesis by (simp add: h collect_tone_keeps del: happen.simps)
  qed
qed simp

lemma tones_took:
  assumes "waiting d" and "\<not> dg_done d" and "\<not> dg_restart d" and "\<forall>ev\<in>set evs. \<exists>stamp t. ev = Tone stamp t"
  shows "took d (map tone_of evs) (fold happen evs d)"
  using assms
proof (induction evs arbitrary: d)
  case Nil
  then show ?case by (simp add: took_def)
next
  case (Cons ev evs)
  then obtain s t where ev: "ev = Tone s t" by auto
  have h: "happen ev d = collect_tone s t d" unfolding ev by (rule tone_waiting [OF Cons.prems(1,2)])
  let ?d = "collect_tone s t d"
  show ?case
  proof (cases "plain d t")
    case True
    then have d: "\<not> dg_done ?d" "\<not> dg_restart ?d" "dg_tones ?d = dg_tones d @ [t]"
      using Cons.prems by (auto simp: collect_tone_def Let_def plain_def)
    have p: "plain ?d = plain d" by (rule ext) (simp add: plain_def collect_tone_keeps)
    from Cons.IH [of ?d] Cons.prems d True show ?thesis
      by (auto simp: took_def p h [unfolded ev] ev collect_tone_keeps simp del: happen.simps)
  next
    case False
    then have d: "dg_tones ?d = dg_tones d" "dg_restart ?d \<longleftrightarrow> t = dg_cEscapekey d" "dg_done ?d \<or> dg_restart ?d"
      using Cons.prems by (auto simp: collect_tone_def Let_def plain_def)
    with stopped_tones [of ?d evs] Cons.prems False show ?thesis
      by (auto simp: took_def h [unfolded ev] ev collect_tone_keeps simp del: happen.simps)
  qed
qed

text \<open>What the tones and the loop leave alone.\<close>

definition kept :: "ivr_dialog \<Rightarrow> ivr_dialog \<Rightarrow> bool" where
  "kept d d' \<longleftrightarrow> dg_cEscapekey d' = dg_cEscapekey d \<and> dg_cTermchar d' = dg_cTermchar d \<and> dg_info d' = dg_info d \<and>
     dg_cMatch d' = dg_cMatch d \<and> dg_iterations d' = dg_iterations d \<and>
     (dg_currentIteration d' = dg_currentIteration d \<or> dg_currentIteration d' = dg_iterations d)"

lemma kept_refl [simp]: "kept d d"
  by (simp add: kept_def)

lemma kept_trans: "kept d d1 \<Longrightarrow> kept d1 d2 \<Longrightarrow> kept d d2"
  by (auto simp: kept_def)

lemma kept_done [simp]: "kept d (d\<lparr>dg_done := True\<rparr>)" "kept d ((max_duration d)\<lparr>dg_destroy := True\<rparr>)"
  by (simp_all add: kept_def max_duration_def)

lemma tones_keep:
  assumes "waiting d" and "\<forall>ev\<in>set evs. \<exists>stamp t. ev = Tone stamp t"
  shows "waiting (fold happen evs d) \<and> kept d (fold happen evs d) \<and> dg_destroy (fold happen evs d) = dg_destroy d"
  using assms
proof (induction evs arbitrary: d)
  case (Cons ev evs)
  then obtain s t where ev: "ev = Tone s t" by auto
  have "waiting (happen ev d) \<and> kept d (happen ev d) \<and> dg_destroy (happen ev d) = dg_destroy d"
  proof (cases "dg_done d")
    case True
    then show ?thesis using Cons.prems(1) unfolding ev by (simp only: tone_done) simp
  next
    case False
    then show ?thesis using Cons.prems(1) unfolding ev tone_waiting [OF Cons.prems(1) False]
      by (simp add: collect_tone_keeps kept_def)
  qed
  with Cons.IH [of "happen ev d"] Cons.prems(2) show ?case by (auto intro: kept_trans simp del: happen.simps)
qed simp

lemma wait_stopped:
  assumes "dg_done d \<or> dg_restart d" and "collect_wait st b tns latest seen d = Some d'"
  shows "dg_tones d' = dg_tones d" and "dg_restart d' = dg_restart d" and "dg_done d' = dg_done d" and "kept d d'"
  using assms by (cases tns; auto simp: max_duration_def kept_def split: if_splits)+

lemma took_more:
  assumes "took d ts d1" and "\<not> dg_done d1" and "\<not> dg_restart d1" and "took d1 us d'" and "kept d d1"
  shows "took d (ts @ us) d'"
proof -
  have p: "plain d1 = plain d" using assms(5) by (auto simp: kept_def plain_def fun_eq_iff)
  have e: "dropWhile (plain d) ts = []" using assms(1-3) by (auto simp: took_def)
  then have "takeWhile (plain d) (ts @ us) = ts @ takeWhile (plain d) us" "dropWhile (plain d) (ts @ us) = dropWhile (plain d) us"
      "takeWhile (plain d) ts = ts" by (simp_all add: dropWhile_eq_Nil_conv takeWhile_eq_all_conv)
  with assms(1,4,5) show ?thesis by (auto simp: took_def p kept_def)
qed

lemma took_none: "\<not> dg_restart d' \<Longrightarrow> dg_tones d' = dg_tones d \<Longrightarrow> took d [] d'"
  by (simp add: took_def)

lemma max_duration_same:
  "dg_tones ((max_duration d)\<lparr>dg_destroy := True\<rparr>) = dg_tones d" "dg_restart ((max_duration d)\<lparr>dg_destroy := True\<rparr>) = dg_restart d"
  "dg_tones (d\<lparr>dg_done := True\<rparr>) = dg_tones d" "dg_restart (d\<lparr>dg_done := True\<rparr>) = dg_restart d"
  by (simp_all add: max_duration_def)

lemma wait_turn:
  assumes "\<not> dg_done d" and "\<not> dg_restart d"
  shows "(\<exists>x. (\<forall>tns. collect_wait st b (tn # tns) latest seen d = Some x) \<and>
       (x = (max_duration d)\<lparr>dg_destroy := True\<rparr> \<or> x = d \<or> x = d\<lparr>dg_done := True\<rparr>)) \<or>
     (\<exists>l. \<forall>tns. collect_wait st b (tn # tns) latest seen d = collect_wait st b tns l (length (dg_tones d)) (fold happen (tn_events tn) d))"
proof (cases "over_duration st (tn_timer tn) d")
  case False
  note o = this
  show ?thesis
  proof (cases "dg_destroy d")
    case False
    let ?c = "seen < length (dg_tones d) \<and> unat (dg_cMaxdigits d) \<le> length (dg_tones d)"
    let ?d1 = "if ?c then d\<lparr>dg_done := True\<rparr> else d"
    let ?l = "if seen < length (dg_tones d) then tn_collect tn else latest"
    let ?e = "dg_done ?d1 \<or> timed_out b ?l (tn_collect tn) ?d1"
    have w: "collect_wait st b (tn # tns) latest seen d =
        (if ?e then Some ?d1 else collect_wait st b tns ?l (length (dg_tones d)) (fold happen (tn_events tn) ?d1))" for tns
      using o False assms by (simp add: Let_def)
    have d1: "?d1 = d \<or> ?d1 = d\<lparr>dg_done := True\<rparr>" by simp
    show ?thesis
    proof (cases ?e)
      case True
      then have "\<forall>tns. collect_wait st b (tn # tns) latest seen d = Some ?d1" unfolding w by simp
      with d1 show ?thesis by blast
    next
      case False
      then have "?d1 = d" by (auto split: if_splits)
      then have "\<forall>tns. collect_wait st b (tn # tns) latest seen d = collect_wait st b tns ?l (length (dg_tones d)) (fold happen (tn_events tn) d)"
        using False unfolding w by simp
      then show ?thesis by blast
    qed
  qed (use assms o in simp)
qed (use assms in simp)

lemma wait_took:
  assumes "collect_wait st b tns latest seen d = Some d'" and "waiting d" and "\<not> dg_done d" and "\<not> dg_restart d" and "only_tones tns"
  shows "\<exists>n. took d (typed (take n tns)) d' \<and> kept d d' \<and> (\<forall>m. collect_wait st b (take m tns) latest seen d = None \<longrightarrow> m \<le> n)"
  using assms
proof (induction tns arbitrary: latest seen d)
  case (Cons tn tns)
  let ?d2 = "fold happen (tn_events tn) d"
  have later: "\<exists>m'. m = Suc m' \<and> take m (tn # tns) = tn # take m' tns" if "0 < m" for m
    using that by (cases m) auto
  from wait_turn [OF Cons.prems(3,4), of st b tn latest seen] consider
      (now) "\<And>tns. collect_wait st b (tn # tns) latest seen d = Some d'" "took d [] d'" "kept d d'"
    | (on) l where "\<And>tns. collect_wait st b (tn # tns) latest seen d = collect_wait st b tns l (length (dg_tones d)) ?d2"
    using Cons.prems(1,4) by (metis took_none kept_refl kept_done max_duration_same option.inject)
  then show ?case
  proof cases
    case now
    have "m \<le> 0" if "collect_wait st b (take m (tn # tns)) latest seen d = None" for m
      using now(1) later [of m] that by fastforce
    with now(2,3) have "took d (typed (take 0 (tn # tns))) d' \<and> kept d d' \<and>
        (\<forall>m. collect_wait st b (take m (tn # tns)) latest seen d = None \<longrightarrow> m \<le> 0)" by (simp add: typed_def)
    then show ?thesis by blast
  next
    case on
    have go: "collect_wait st b tns l (length (dg_tones d)) ?d2 = Some d'" using Cons.prems(1) on by simp
    have evs: "\<forall>ev\<in>set (tn_events tn). \<exists>stamp t. ev = Tone stamp t" and rest: "only_tones tns"
      using Cons.prems(5) by (auto simp: only_tones_def)
    have t: "took d (map tone_of (tn_events tn)) ?d2" "waiting ?d2" "kept d ?d2"
      using tones_took [OF Cons.prems(2-4) evs] tones_keep [OF Cons.prems(2) evs] by blast+
    show ?thesis
    proof (cases "dg_done ?d2 \<or> dg_restart ?d2")
      case True
      note w = wait_stopped [OF True go]
      have "m \<le> 1" if "collect_wait st b (take m (tn # tns)) latest seen d = None" for m
      proof (rule ccontr)
        assume "\<not> m \<le> 1"
        then obtain m' where m: "m = Suc (Suc m')" by (cases m; cases "m - 1") auto
        show False
        proof (cases tns)
          case Nil
          with that m on go show False by simp
        next
          case (Cons x xs)
          with that m on True show False by (auto split: if_splits)
        qed
      qed
      moreover have "took d (typed (take 1 (tn # tns))) d'" using t(1) w(1-3) by (auto simp: took_def typed_def)
      ultimately show ?thesis using kept_trans [OF t(3) w(4)] by blast
    next
      case False
      then have f: "\<not> dg_done ?d2" "\<not> dg_restart ?d2" by blast+
      from Cons.IH [OF go t(2) f rest] obtain n where n: "took ?d2 (typed (take n tns)) d'" "kept ?d2 d'"
          "\<forall>m. collect_wait st b (take m tns) l (length (dg_tones d)) ?d2 = None \<longrightarrow> m \<le> n" by blast
      have "m \<le> Suc n" if "collect_wait st b (take m (tn # tns)) latest seen d = None" for m
        using n(3) on that by (cases m) simp_all
      moreover have "took d (typed (take (Suc n) (tn # tns))) d'"
        using took_more [OF t(1) f n(1) t(3)] by (simp add: typed_def)
      ultimately show ?thesis using kept_trans [OF t(3) n(2)] by blast
    qed
  qed
qed (auto simp: took_def)

lemma collecting_took:
  assumes "collect_digits st b tns d = Some d'" and "waiting (d\<lparr>dg_collecting := True\<rparr>)" and "\<not> dg_done d" and "\<not> dg_restart d"
    and "only_tones tns"
  shows "\<exists>n. took d (typed (take n tns)) d' \<and> kept (d\<lparr>dg_cMatch := True\<rparr>) d' \<and> (\<not> dg_restart d' \<and> dg_tones d' \<noteq> [] \<longrightarrow> dg_done d') \<and>
     (\<forall>m. collect_digits st b (take m tns) d = None \<longrightarrow> m \<le> n)"
proof -
  let ?d = "d\<lparr>dg_collecting := True, dg_cMatch := True\<rparr>"
  have p: "plain ?d = plain d" by (simp add: plain_def fun_eq_iff)
  have tk: "took ?d ts x \<longleftrightarrow> took d ts x" "kept ?d x \<longleftrightarrow> kept (d\<lparr>dg_cMatch := True\<rparr>) x" for ts x
    by (simp_all add: took_def p kept_def)
  show ?thesis
  proof (cases "unat (dg_cMaxdigits d) \<le> length (dg_tones d)")
    case True
    then have d': "d' = ?d\<lparr>dg_done := True\<rparr>" using assms(1,3) by (simp add: collect_digits_def)
    have "took d (typed (take 0 tns)) d' \<and> kept (d\<lparr>dg_cMatch := True\<rparr>) d' \<and> (\<not> dg_restart d' \<and> dg_tones d' \<noteq> [] \<longrightarrow> dg_done d') \<and>
        (\<forall>m. collect_digits st b (take m tns) d = None \<longrightarrow> m \<le> 0)"
      using assms(3,4) True by (simp add: d' took_def typed_def kept_def collect_digits_def)
    then show ?thesis by blast
  next
    case False
    then obtain d1 where d1: "collect_wait st b tns b 0 ?d = Some d1"
        "d' = (if \<not> dg_restart d1 \<and> dg_tones d1 \<noteq> [] then d1\<lparr>dg_done := True\<rparr> else d1)"
      using assms(1,3) by (auto simp: collect_digits_def Let_def)
    have w: "waiting ?d" "\<not> dg_done ?d" "\<not> dg_restart ?d" using assms(2-4) by (simp_all add: waiting_def has_model_def)
    from wait_took [OF d1(1) w assms(5)] obtain n where n: "took ?d (typed (take n tns)) d1" "kept ?d d1"
        "\<forall>m. collect_wait st b (take m tns) b 0 ?d = None \<longrightarrow> m \<le> n" by blast
    then have m: "\<forall>m. collect_digits st b (take m tns) d = None \<longrightarrow> m \<le> n"
      using False assms(3) by (simp add: collect_digits_def Let_def)
    have "took ?d (typed (take n tns)) d'" "kept ?d d'" using n(1,2) d1(2) by (auto simp: took_def kept_def)
    then show ?thesis using d1(2) m unfolding tk by auto
  qed
qed

lemma report_done:
  assumes "dg_done d" and "dg_cMatch d" and "dg_currentIteration d = dg_iterations d" and "\<not> (dg_destroy d \<and> dg_immediate d)"
  shows "dg_info (collect_report stamp d) = dg_info d @ ''<collectinfo dtmf='' @ quoted (concat (map dtmfCode (dg_tones d))) @
     '' termmode='' @ quoted ''match'' @ ''/>''"
  using assms by (simp add: collect_report_def collect_info_def add_info_def dlg_notifyEvent_def Let_def)

text \<open>
  C23. What is reported of a collection that was not abandoned are the keys that were typed, in order, up to the first
  termination key: those collected before it began to wait, then those that came in every turn of the waiting loop that was
  waited out, none lost and none twice. Without a digit and without a termination key there was no input. An escape key starts the
  collection again.
\<close>

theorem typed_digits_are_reported:
  assumes "collect_digits st b tns d = Some d'" and "waiting (d\<lparr>dg_collecting := True\<rparr>)" and "\<not> dg_done d" and "\<not> dg_restart d"
    and "only_tones tns" and "dg_currentIteration d = dg_iterations d" and "\<not> dg_destroy d'"
  shows "\<exists>n. (\<forall>m. collect_digits st b (take m tns) d = None \<longrightarrow> m \<le> n) \<and> (let ts = typed (take n tns); ds = dg_tones d @ takeWhile (plain d) ts in
     dg_tones d' = ds \<and> (dg_restart d' \<longleftrightarrow> (\<exists>r. dropWhile (plain d) ts = dg_cEscapekey d # r)) \<and>
     (\<not> dg_restart d' \<longrightarrow> dg_info (collect_report stamp d') = dg_info d @
        (if ds \<noteq> [] \<or> dg_done d' then ''<collectinfo dtmf='' @ quoted (concat (map dtmfCode ds)) @ '' termmode='' @ quoted ''match'' @ ''/>''
         else ''<collectinfo termmode='' @ quoted ''noinput'' @ ''/>'')))"
proof -
  from collecting_took [OF assms(1-5)] obtain n where n: "took d (typed (take n tns)) d'" "kept (d\<lparr>dg_cMatch := True\<rparr>) d'"
      "\<not> dg_restart d' \<and> dg_tones d' \<noteq> [] \<longrightarrow> dg_done d'" "\<forall>m. collect_digits st b (take m tns) d = None \<longrightarrow> m \<le> n" by blast
  let ?ts = "typed (take n tns)"
  have t: "dg_tones d' = dg_tones d @ takeWhile (plain d) ?ts" "dg_restart d' \<longleftrightarrow> (\<exists>r. dropWhile (plain d) ?ts = dg_cEscapekey d # r)"
    using n(1) by (auto simp: took_def)
  have k: "dg_cMatch d'" "dg_currentIteration d' = dg_iterations d'" "dg_info d' = dg_info d"
    using n(2) assms(6) by (auto simp: kept_def)
  have "dg_info (collect_report stamp d') = dg_info d @
      (if dg_tones d' \<noteq> [] \<or> dg_done d' then ''<collectinfo dtmf='' @ quoted (concat (map dtmfCode (dg_tones d'))) @ '' termmode='' @ quoted ''match'' @ ''/>''
       else ''<collectinfo termmode='' @ quoted ''noinput'' @ ''/>'')" if "\<not> dg_restart d'"
  proof (cases "dg_done d'")
    case True
    then show ?thesis using report_done [OF True k(1,2)] assms(7) by (simp add: k(3))
  next
    case False
    then have "dg_tones d' = []" using n(3) that by blast
    with False assms(7) k show ?thesis by (simp add: collect_report_def add_info_def)
  qed
  then show ?thesis using t n(4) by (auto simp: Let_def intro!: exI [of _ n])
qed

subsection \<open>The wait ends\<close>

lemma happen_timeouts [simp]:
  "dg_cTimeout (happen ev d) = dg_cTimeout d" "dg_cInterdigit (happen ev d) = dg_cInterdigit d"
  by (cases ev; auto simp: dlg_incomingDtmf_def vcr_tone_def collect_tone_def record_tone_def destroyDialog_def dlg_notifyEvent_def
      Let_def split: option.splits)+

lemma events_timeouts [simp]:
  "dg_cTimeout (fold happen evs d) = dg_cTimeout d" "dg_cInterdigit (fold happen evs d) = dg_cInterdigit d"
  by (induction evs arbitrary: d) (simp_all del: happen.simps)

lemma elapsed_mono: "x \<le> p \<Longrightarrow> p \<le> now \<Longrightarrow> now - p \<le> now - x" for x p now :: u32
proof -
  assume a: "x \<le> p" "p \<le> now"
  then have "x \<le> now" by (rule order_trans)
  with a show "now - p \<le> now - x" by (simp add: word_le_nat_alt unat_sub diff_le_mono2)
qed

definition timeouts_pass :: "ivr_dialog \<Rightarrow> u32 \<Rightarrow> turn \<Rightarrow> bool" where
  "timeouts_pass d p tn \<longleftrightarrow> dg_cTimeout d \<le> tn_collect tn - p \<and> dg_cInterdigit d \<le> tn_collect tn - p"

lemma turn_cases:
  assumes "collect_wait st b (tn # tns) latest seen d = None"
  shows "\<exists>l. (l = latest \<or> l = tn_collect tn \<and> seen < length (dg_tones d)) \<and> \<not> timed_out b l (tn_collect tn) d \<and>
     collect_wait st b tns l (length (dg_tones d)) (fold happen (tn_events tn) d) = None"
  using assms by (auto simp: Let_def split: if_splits)

lemma quiet_end:
  assumes "\<forall>tn\<in>set tns. tn_events tn = [] \<and> p \<le> tn_collect tn" and "latest \<le> p" and "b \<le> p" and "length (dg_tones d) \<le> seen"
    and "\<exists>tn\<in>set tns. timeouts_pass d p tn"
  shows "collect_wait st b tns latest seen d \<noteq> None"
  using assms
proof (induction tns arbitrary: seen)
  case (Cons tn tns)
  show ?case
  proof
    assume "collect_wait st b (tn # tns) latest seen d = None"
    from turn_cases [OF this] obtain l where l: "l = latest" "\<not> timed_out b l (tn_collect tn) d"
        "collect_wait st b tns l (length (dg_tones d)) d = None"
      using Cons.prems(1,4) by auto
    have "p \<le> tn_collect tn" using Cons.prems(1) by simp
    then have "tn_collect tn - p \<le> tn_collect tn - latest" "tn_collect tn - p \<le> tn_collect tn - b"
      using elapsed_mono Cons.prems(2,3) by blast+
    then have "\<not> timeouts_pass d p tn" using l(1,2) unfolding timeouts_pass_def timed_out_def by (metis order_trans)
    then have "collect_wait st b tns latest (length (dg_tones d)) d \<noteq> None"
      using Cons.IH [of "length (dg_tones d)"] Cons.prems by simp
    with l show False by simp
  qed
qed simp

lemma wait_ends:
  assumes "sorted (map tn_collect (pre @ q # post))" and "\<forall>tn\<in>set (pre @ q # post). latest \<le> tn_collect tn \<and> b \<le> tn_collect tn"
    and "\<forall>tn\<in>set (q # post). tn_events tn = []" and "\<exists>tn\<in>set post. timeouts_pass d (tn_collect q) tn"
  shows "collect_wait st b (pre @ q # post) latest seen d \<noteq> None"
  using assms
proof (induction pre arbitrary: latest seen d)
  case Nil
  show ?case
  proof
    assume "collect_wait st b ([] @ q # post) latest seen d = None"
    then have "collect_wait st b (q # post) latest seen d = None" by simp
    from turn_cases [OF this] obtain l where l: "l = latest \<or> l = tn_collect q"
        "collect_wait st b post l (length (dg_tones d)) d = None" using Nil.prems(3) by auto
    have "collect_wait st b post l (length (dg_tones d)) d \<noteq> None"
      by (rule quiet_end [of post "tn_collect q"]) (use Nil.prems l(1) in auto)
    with l(2) show False by simp
  qed
next
  case (Cons tn pre)
  show ?case
  proof
    assume "collect_wait st b ((tn # pre) @ q # post) latest seen d = None"
    then have "collect_wait st b (tn # (pre @ q # post)) latest seen d = None" by simp
    from turn_cases [OF this] obtain l where l: "l = latest \<or> l = tn_collect tn"
        "collect_wait st b (pre @ q # post) l (length (dg_tones d)) (fold happen (tn_events tn) d) = None" by blast
    have "collect_wait st b (pre @ q # post) l (length (dg_tones d)) (fold happen (tn_events tn) d) \<noteq> None"
      by (rule Cons.IH) (use Cons.prems l(1) in \<open>auto simp: timeouts_pass_def\<close>)
    with l(2) show False by simp
  qed
qed

text \<open>
  C27. The wait for digits ends whatever happens in it: as soon as the timer shows a time that lies both timeouts
  behind the beginning of a stretch without a key, the loop has been left.
\<close>

theorem collection_ends:
  assumes "sorted (begin0 # map tn_collect (pre @ q # post))" and "\<forall>tn\<in>set (q # post). tn_events tn = []"
    and "\<exists>tn\<in>set post. timeouts_pass d (tn_collect q) tn"
  shows "\<exists>d'. collect_digits st begin0 (pre @ q # post) d = Some d'"
proof -
  have "collect_wait st begin0 (pre @ q # post) begin0 0 (d\<lparr>dg_collecting := True, dg_cMatch := True\<rparr>) \<noteq> None"
    by (rule wait_ends) (use assms in \<open>auto simp: timeouts_pass_def\<close>)
  then show ?thesis by (auto simp: collect_digits_def Let_def)
qed

subsection \<open>An example\<close>

definition demo_collect :: ivr_dialog where
  "demo_collect = (newDialog ''d'')\<lparr>dg_model := MODEL_COLLECT, dg_state := DIALOG_STARTED, dg_connection := 7, dg_currentIteration := 1\<rparr>"

definition demo_turn :: "u32 \<Rightarrow> int list \<Rightarrow> turn" where
  "demo_turn t ks = \<lparr>tn_timer = t, tn_collect = t, tn_events = map (Tone ''now'') ks\<rparr>"

theorem collection_starts_witness:
  "collect_start 3 [] (demo_collect\<lparr>dg_cEscapekey := 3\<rparr>) = None \<and> collect_start 4 [] (demo_collect\<lparr>dg_cEscapekey := 3\<rparr>) \<noteq> None"
  using collection_starts [of 3 "[]" "demo_collect\<lparr>dg_cEscapekey := 3\<rparr>"] collection_starts [of 4 "[]" "demo_collect\<lparr>dg_cEscapekey := 3\<rparr>"]
  by (simp add: caught_def demo_collect_def newDialog_def)

theorem collection_ends_witness:
  "\<exists>d'. collect_digits 0 0 [demo_turn 20 [1], demo_turn 40 [], demo_turn 6000 []] demo_collect = Some d'"
proof -
  have "timeouts_pass demo_collect (tn_collect (demo_turn 40 [])) (demo_turn 6000 [])"
    by (simp add: timeouts_pass_def demo_turn_def demo_collect_def newDialog_def)
  then show ?thesis using collection_ends [of 0 "[demo_turn 20 [1]]" "demo_turn 40 []" "[demo_turn 6000 []]" demo_collect 0]
    by (simp add: demo_turn_def)
qed

theorem typed_digits_are_reported_witness:
  "\<exists>d'. collect_digits 0 0 [demo_turn 20 [1], demo_turn 40 [2, 11], demo_turn 60 []] demo_collect = Some d' \<and>
     dg_info (collect_report '''' d') = ''<collectinfo dtmf='' @ quoted ''12'' @ '' termmode='' @ quoted ''match'' @ ''/>''"
proof -
  let ?tns = "[demo_turn 20 [1], demo_turn 40 [2, 11], demo_turn 60 []]"
  have "map_option (\<lambda>d. (dg_tones d, dg_destroy d, dg_restart d, dg_done d)) (collect_digits 0 0 ?tns demo_collect) =
      Some ([1, 2], False, False, True)" by code_simp
  then obtain d' where d': "collect_digits 0 0 ?tns demo_collect = Some d'" "dg_tones d' = [1, 2]" "\<not> dg_destroy d'"
      "\<not> dg_restart d'" "dg_done d'" by auto
  have "waiting (demo_collect\<lparr>dg_collecting := True\<rparr>)" by (simp add: waiting_def demo_collect_def newDialog_def has_model_def)
  moreover have f: "\<not> dg_done demo_collect" "\<not> dg_restart demo_collect" "dg_currentIteration demo_collect = dg_iterations demo_collect"
      "dg_info demo_collect = ''''" by (simp_all add: demo_collect_def newDialog_def)
  moreover have "only_tones ?tns" by (simp add: only_tones_def demo_turn_def)
  ultimately have "dg_info (collect_report '''' d') = ''<collectinfo dtmf='' @ quoted (concat (map dtmfCode (dg_tones d'))) @
      '' termmode='' @ quoted ''match'' @ ''/>''"
    using typed_digits_are_reported [OF d'(1) _ _ _ _ _ d'(3), of "''''"] d'(4,5) unfolding Let_def f(4) by auto
  moreover have "concat (map dtmfCode (dg_tones d')) = ''12''" unfolding d'(2) by code_simp
  ultimately show ?thesis using d'(1) by auto
qed

end
