(* ===== verification/IvrPlayback.thy ===== *)
theory IvrPlayback
  imports IvrCollect
begin

text \<open>
  \<open>src/packages/IvrPackage.cxx\<close>, around the playing of prompts: the tracks of a step are brought to the same length
  (\<open>prepare\<close>), the VCR controls change what is played (\<open>playAnnouncements\<close>), and the outcome is reported (\<open>run\<close>). A
  track is the list of the durations of its frames, in microseconds as in the source. Files, streams and frames of
  ffmpeg are not modelled.
\<close>

subsection \<open>Tracks of one length\<close>

text \<open>\<open>while(1)\<close> with its two ways out: a frame of 20 ms for each step.\<close>

fun pad_steps :: "nat \<Rightarrow> nat" where
  "pad_steps diff = (if diff < 10000 then 0 else if diff < 20000 then 1 else Suc (pad_steps (diff - 20000)))"

declare pad_steps.simps [simp del]

record track =
  tk_frames :: "u32 list"
  tk_duration :: u32

text \<open>After each prompt of a track the shortest and the longest duration so far are noted; 0 stands for none yet. So
  a track of several prompts counts for the shortest with its first prompt alone.\<close>

definition note_duration :: "u32 \<Rightarrow> u32 \<times> u32 \<Rightarrow> u32 \<times> u32" where
  "note_duration dur r = (case r of (lo, hi) \<Rightarrow> (if lo = 0 \<or> dur < lo then dur else lo, if hi < dur then dur else hi))"

fun track_durations :: "u32 \<Rightarrow> u32 list \<Rightarrow> u32 \<times> u32 \<Rightarrow> u32 \<times> u32" where
  "track_durations total0 [] r = r"
| "track_durations total0 (p # ps) r = track_durations (total0 + p) ps (note_duration (total0 + p) r)"

definition step_durations :: "u32 list list \<Rightarrow> u32 \<times> u32" where
  "step_durations tracks = fold (track_durations 0) tracks (0, 0)"

definition pop_frames :: "nat \<Rightarrow> u32 list \<Rightarrow> u32 list cpp" where
  "pop_frames n fs = (if n \<le> length fs then Val (take (length fs - n) fs) else Undef)"

definition push_silence :: "nat \<Rightarrow> u32 list \<Rightarrow> u32 list" where
  "push_silence n fs = fs @ replicate n 20000"

definition sync_first :: "u32 \<Rightarrow> track \<Rightarrow> track cpp" where
  "sync_first shortest t =
     (if shortest < tk_duration t then
        cpp_bind (pop_frames (pad_steps (unat (tk_duration t - shortest))) (tk_frames t)) (\<lambda>fs.
          Val \<lparr>tk_frames = fs, tk_duration = shortest\<rparr>)
      else if tk_duration t = 0 then
        Val \<lparr>tk_frames = push_silence (pad_steps (unat shortest)) (tk_frames t), tk_duration = shortest\<rparr>
      else Val (t\<lparr>tk_duration := shortest\<rparr>))"

definition sync_last :: "u32 \<Rightarrow> track \<Rightarrow> track" where
  "sync_last longest t =
     (if tk_duration t < longest
      then \<lparr>tk_frames = push_silence (pad_steps (unat (longest - tk_duration t))) (tk_frames t), tk_duration = longest\<rparr>
      else t\<lparr>tk_duration := longest\<rparr>)"

text \<open>The loop over the tracks; in the first way the common duration becomes the shortest one.\<close>

fun sync_tracks :: "int \<Rightarrow> u32 \<Rightarrow> u32 \<Rightarrow> track option list \<Rightarrow> track option list cpp" where
  "sync_tracks endSync shortest longest [] = Val []"
| "sync_tracks endSync shortest longest (None # ts) =
     cpp_bind (sync_tracks endSync shortest longest ts) (\<lambda>ts'. Val (None # ts'))"
| "sync_tracks endSync shortest longest (Some t # ts) =
     (if endSync = ENDSYNC_FIRST then
        cpp_bind (sync_first shortest t) (\<lambda>t'. cpp_bind (sync_tracks endSync shortest shortest ts) (\<lambda>ts'. Val (Some t' # ts')))
      else cpp_bind (sync_tracks endSync shortest longest ts) (\<lambda>ts'. Val (Some (sync_last longest t) # ts')))"

subsection \<open>Controls\<close>

record seek =
  sk_requested :: bool
  sk_forward :: bool
  sk_goto :: bool
  sk_remaining :: u32

record playback =
  pb_paused :: bool
  pb_startPaused :: int
  pb_volume :: u16
  pb_seeks :: "seek list"

definition newPlayback :: playback where
  "newPlayback = \<lparr>pb_paused = False, pb_startPaused = 0, pb_volume = 100,
     pb_seeks = replicate TRACKS \<lparr>sk_requested = False, sk_forward = False, sk_goto = False, sk_remaining = 0\<rparr>\<rparr>"

definition resume_too :: "playback \<Rightarrow> playback" where
  "resume_too p = (if pb_paused p then p\<lparr>pb_paused := False, pb_startPaused := 0\<rparr> else p)"

definition goto_tracks :: "bool \<Rightarrow> playback \<Rightarrow> playback" where
  "goto_tracks forward p = p\<lparr>pb_seeks := map (\<lambda>s. s\<lparr>sk_requested := True, sk_forward := forward, sk_goto := True\<rparr>) (pb_seeks p)\<rparr>"

definition skip_tracks :: "bool \<Rightarrow> u32 \<Rightarrow> playback \<Rightarrow> playback" where
  "skip_tracks forward interval p =
     p\<lparr>pb_seeks := map (\<lambda>s. s\<lparr>sk_requested := True, sk_forward := forward, sk_goto := False, sk_remaining := interval\<rparr>) (pb_seeks p)\<rparr>"

text \<open>\<open>start\<close> is \<open>startAudioTime\<close>. The sum of the volume is cut to 16 bits before it is compared.\<close>

definition vcr_control :: "ivr_dialog \<Rightarrow> int \<Rightarrow> vcr \<Rightarrow> playback \<Rightarrow> playback" where
  "vcr_control d start k p = (case k of
       VCR_START \<Rightarrow> goto_tracks False (resume_too p)
     | VCR_END \<Rightarrow> goto_tracks True (resume_too p)
     | VCR_FF \<Rightarrow> skip_tracks True (dg_vSkip d) (resume_too p)
     | VCR_RW \<Rightarrow> skip_tracks False (dg_vSkip d) (resume_too p)
     | VCR_PAUSE \<Rightarrow> if \<not> pb_paused p then p\<lparr>pb_paused := True, pb_startPaused := start\<rparr>
         else if dg_keys d VCR_PAUSE \<noteq> dg_keys d VCR_RESUME then p
         else p\<lparr>pb_paused := False, pb_startPaused := 0\<rparr>
     | VCR_RESUME \<Rightarrow> if pb_paused p then p\<lparr>pb_paused := False, pb_startPaused := 0\<rparr>
         else if dg_keys d VCR_PAUSE \<noteq> dg_keys d VCR_RESUME then p
         else p\<lparr>pb_paused := True, pb_startPaused := 0\<rparr>
     | VCR_VOLUP \<Rightarrow> let v = pb_volume p + word_of_int (dg_vVolume d) in
         resume_too (p\<lparr>pb_volume := (if 500 < v then 500 else v)\<rparr>)
     | VCR_VOLDOWN \<Rightarrow>
         resume_too (p\<lparr>pb_volume := (if uint (pb_volume p) < dg_vVolume d then 0 else pb_volume p - word_of_int (dg_vVolume d))\<rparr>)
     | VCR_SPEEDUP \<Rightarrow> resume_too p
     | VCR_SPEEDDOWN \<Rightarrow> resume_too p)"

text \<open>One turn of the loop takes all the events that wait.\<close>

definition vcr_controls :: "int \<Rightarrow> ivr_dialog \<Rightarrow> playback \<Rightarrow> ivr_dialog \<times> playback" where
  "vcr_controls start d p = (d\<lparr>dg_pVcrEvents := []\<rparr>, fold (vcr_control d start) (dg_pVcrEvents d) p)"

text \<open>The end of a pause, checked every 20 ms; the product is one of 32-bit numbers.\<close>

definition pause_over :: "ivr_dialog \<Rightarrow> int \<Rightarrow> playback \<Rightarrow> playback" where
  "pause_over d now p = (if pb_paused p \<and> uint (dg_vPause d * 1000) \<le> now - pb_startPaused p
     then p\<lparr>pb_paused := False, pb_startPaused := 0\<rparr> else p)"

subsection \<open>The report of a prompt\<close>

definition prompt_mode :: "int \<Rightarrow> string" where
  "prompt_mode m = (if m = TERMMODE_BARGEIN then ''bargein'' else if m = 0 then ''completed''
     else if m = TERMMODE_STOPPED then ''stopped'' else ''??'')"

definition prompt_report :: "u32 \<Rightarrow> ivr_dialog \<Rightarrow> ivr_dialog" where
  "prompt_report time d0 =
     (let d = (if dg_termmode d0 = TERMMODE_UNKNOWN then d0\<lparr>dg_termmode := 0\<rparr> else d0) in
      if dg_currentIteration d \<noteq> dg_iterations d \<or> dg_destroy d \<and> dg_immediate d then d
      else add_info (''<promptinfo duration='' @ quoted (dec_nat (unat time)) @ '' termmode='' @ quoted (prompt_mode (dg_termmode d)) @ ''/>'' @
        (if \<not> dg_vcrMode d then '''' else if dg_vcrInfo d = '''' then ''<controlinfo/>''
         else ''<controlinfo>'' @ dg_vcrInfo d @ ''</controlinfo>'')) d)"

text \<open>Whether the prompt is played or skipped because a tone had been typed before; the tone that was taken from the buffer.\<close>

definition early_bargein :: "int \<Rightarrow> int list \<Rightarrow> ivr_dialog \<Rightarrow> int \<times> bool \<times> ivr_dialog" where
  "early_bargein temp buf d0 =
     (let d = d0\<lparr>dg_vcrInfo := '''', dg_termmode := TERMMODE_UNKNOWN\<rparr> in
      if has_model MODEL_COLLECT d \<and> dg_pBargein d \<and> \<not> dg_vcrMode d \<and> \<not> dg_cClear d then
        (case buf of [] \<Rightarrow> (-1, True, d)
         | t # ts \<Rightarrow> if t \<noteq> -1 then (t, False, d\<lparr>dg_termmode := TERMMODE_BARGEIN\<rparr>) else (-1, True, d))
      else (temp, True, d))"

subsection \<open>The tracks end together\<close>

text \<open>The loop counts to the nearest number of frames.\<close>

lemma pad_steps_nearest: "pad_steps n = (n + 10000) div 20000"
proof (induction n rule: pad_steps.induct)
  case (1 diff)
  consider (none) "diff < 10000" | (one) "10000 \<le> diff" "diff < 20000" | (more) "20000 \<le> diff" by linarith
  then show ?case
  proof cases
    case none
    then have "(diff + 10000) div 20000 = 0" by (intro div_less) linarith
    with none show ?thesis by (subst pad_steps.simps) simp
  next
    case one
    have "20000 * 1 \<le> diff + 10000" "diff + 10000 < 20000 * Suc 1" using one by simp_all
    then have "(diff + 10000) div 20000 = 1" by (rule div_nat_eqI)
    with one show ?thesis by (subst pad_steps.simps) simp
  next
    case more
    then have "(diff + 10000) div 20000 = ((diff - 20000 + 10000) + 20000) div 20000" by simp
    also have "\<dots> = Suc ((diff - 20000 + 10000) div 20000)" by (simp only: div_add_self2)
    finally show ?thesis using more 1 by (subst pad_steps.simps) simp
  qed
qed

lemma pad_steps_bounds: "pad_steps n * 20000 \<le> n + 10000" "n \<le> pad_steps n * 20000 + 10000"
proof -
  have "(n + 10000) div 20000 * 20000 + (n + 10000) mod 20000 = n + 10000" by (rule div_mult_mod_eq)
  moreover have "(n + 10000) mod 20000 < 20000" by simp
  ultimately show "pad_steps n * 20000 \<le> n + 10000" "n \<le> pad_steps n * 20000 + 10000"
    unfolding pad_steps_nearest by linarith+
qed

definition playing_time :: "track \<Rightarrow> nat" where
  "playing_time t = sum_list (map unat (tk_frames t))"

definition close_to :: "nat \<Rightarrow> nat \<Rightarrow> bool" where
  "close_to a b \<longleftrightarrow> a \<le> b + 10000 \<and> b \<le> a + 10000"

lemma time_of_silence: "sum_list (map unat (push_silence n fs)) = sum_list (map unat fs) + n * 20000"
  by (simp add: push_silence_def sum_list_replicate)

lemma sync_last_close:
  assumes "playing_time t = unat (tk_duration t)" and "tk_duration t \<le> longest"
  shows "close_to (playing_time (sync_last longest t)) (unat longest)" and "tk_duration (sync_last longest t) = longest"
proof -
  show "tk_duration (sync_last longest t) = longest" by (simp add: sync_last_def)
  have u: "unat (longest - tk_duration t) = unat longest - unat (tk_duration t)" "unat (tk_duration t) \<le> unat longest"
    using assms(2) by (simp_all add: unat_sub word_le_nat_alt)
  show "close_to (playing_time (sync_last longest t)) (unat longest)"
  proof (cases "tk_duration t < longest")
    case True
    then have "playing_time (sync_last longest t) = unat (tk_duration t) + pad_steps (unat longest - unat (tk_duration t)) * 20000"
      using assms(1) u by (simp add: sync_last_def playing_time_def time_of_silence)
    with u(2) pad_steps_bounds [of "unat longest - unat (tk_duration t)"] show ?thesis unfolding close_to_def by linarith
  next
    case False
    then have "tk_duration t = longest" using assms(2) by simp
    with assms(1) show ?thesis by (simp add: sync_last_def playing_time_def close_to_def)
  qed
qed

lemma sync_first_close:
  assumes "playing_time t = unat (tk_duration t)" and "set (tk_frames t) \<subseteq> {20000}" and "tk_duration t = 0 \<or> shortest \<le> tk_duration t"
  shows "\<exists>t'. sync_first shortest t = Val t' \<and> close_to (playing_time t') (unat shortest) \<and> tk_duration t' = shortest"
proof -
  have n: "sum_list (map unat fs) = length fs * 20000" if "set fs \<subseteq> {20000::u32}" for fs
    using that by (induction fs) auto
  let ?k = "length (tk_frames t)"
  have d: "unat (tk_duration t) = ?k * 20000" using assms(1) n [OF assms(2)] by (simp add: playing_time_def)
  consider (long) "shortest < tk_duration t" | (none) "tk_duration t = 0" "\<not> shortest < tk_duration t"
    | (same) "tk_duration t = shortest" "tk_duration t \<noteq> 0" using assms(3) by fastforce
  then show ?thesis
  proof cases
    case long
    let ?p = "pad_steps (unat (tk_duration t - shortest))"
    have u: "unat (tk_duration t - shortest) = ?k * 20000 - unat shortest" "unat shortest \<le> ?k * 20000"
      using long by (simp_all add: unat_sub word_le_nat_alt word_less_nat_alt d)
    have b: "?p * 20000 \<le> ?k * 20000 - unat shortest + 10000" "?k * 20000 - unat shortest \<le> ?p * 20000 + 10000"
      using pad_steps_bounds [of "unat (tk_duration t - shortest)"] unfolding u(1) by blast+
    then have p: "?p \<le> ?k" using u(2) by linarith
    have "set (take (?k - ?p) (tk_frames t)) \<subseteq> {20000}" using assms(2) by (meson order_trans set_take_subset)
    then have "sum_list (map unat (take (?k - ?p) (tk_frames t))) = (?k - ?p) * 20000" by (simp add: n)
    moreover have "close_to ((?k - ?p) * 20000) (unat shortest)"
      using b p u(2) unfolding close_to_def diff_mult_distrib by linarith
    ultimately show ?thesis using long p by (simp add: sync_first_def pop_frames_def playing_time_def)
  next
    case none
    then have "playing_time \<lparr>tk_frames = push_silence (pad_steps (unat shortest)) (tk_frames t), tk_duration = shortest\<rparr> =
        pad_steps (unat shortest) * 20000" using assms(1) by (simp add: playing_time_def time_of_silence)
    then show ?thesis using none pad_steps_bounds [of "unat shortest"] by (simp add: sync_first_def close_to_def)
  next
    case same
    then show ?thesis using assms(1) by (simp add: sync_first_def playing_time_def close_to_def)
  qed
qed



subsection \<open>What the controls do to the volume\<close>

definition volume_step :: "int \<Rightarrow> vcr \<Rightarrow> int \<Rightarrow> int" where
  "volume_step i k v = (if k = VCR_VOLUP then min 500 (v + i) else if k = VCR_VOLDOWN then max 0 (v - i) else v)"

lemma resume_volume [simp]:
  "pb_volume (resume_too p) = pb_volume p" "pb_volume (goto_tracks f p) = pb_volume p" "pb_volume (skip_tracks f i p) = pb_volume p"
  by (simp_all add: resume_too_def goto_tracks_def skip_tracks_def)

lemma uint_u16_add: "uint (v :: u16) \<le> 500 \<Longrightarrow> 0 \<le> i \<Longrightarrow> i \<le> 65035 \<Longrightarrow> uint (v + word_of_int i) = uint v + i"
  by (simp add: uint_word_ariths uint_word_of_int take_bit_int_eq_self)

lemma uint_u16_diff: "i \<le> uint (v :: u16) \<Longrightarrow> 0 \<le> i \<Longrightarrow> uint (v - word_of_int i) = uint v - i"
proof -
  assume i: "i \<le> uint v" "0 \<le> i"
  have "uint v < 65536" using uint_bounded [of v] by simp
  with i show ?thesis by (simp add: uint_word_ariths uint_word_of_int take_bit_int_eq_self)
qed

lemma control_volume:
  assumes "0 \<le> dg_vVolume d" and "dg_vVolume d \<le> 65035" and "uint (pb_volume p) \<le> 500"
  shows "uint (pb_volume (vcr_control d start k p)) = volume_step (dg_vVolume d) k (uint (pb_volume p))"
proof (cases k)
  case VCR_VOLUP
  have "uint (pb_volume p + word_of_int (dg_vVolume d)) = uint (pb_volume p) + dg_vVolume d"
    by (rule uint_u16_add) (use assms in simp_all)
  then show ?thesis using VCR_VOLUP by (simp add: vcr_control_def volume_step_def Let_def word_less_def)
next
  case VCR_VOLDOWN
  then show ?thesis using uint_u16_diff [of "dg_vVolume d" "pb_volume p"] assms(1)
    by (simp add: vcr_control_def volume_step_def)
qed (simp_all add: vcr_control_def volume_step_def)

text \<open>All tracks are sought alike, and a control never changes how many there are.\<close>

definition alike :: "playback \<Rightarrow> bool" where
  "alike p \<longleftrightarrow> (\<exists>s. pb_seeks p = replicate TRACKS s)"

lemma control_alike: "alike p \<Longrightarrow> alike (vcr_control d start k p)"
  by (cases k) (auto simp: alike_def vcr_control_def resume_too_def goto_tracks_def skip_tracks_def Let_def map_replicate)

text \<open>
  C30. The volume of a prompt is changed in saturating steps: \<open>volup\<close> adds the interval up to 500 percent, \<open>voldn\<close> takes it
  away down to 0, no other control changes it, and the 16-bit variable never wraps round; all four tracks are
  sought in the same way.
\<close>

theorem volume_saturates:
  assumes "0 \<le> dg_vVolume d" and "dg_vVolume d \<le> 65035" and "uint (pb_volume p) \<le> 500" and "alike p"
  shows "uint (pb_volume (snd (vcr_controls start d p))) =
      fold (volume_step (dg_vVolume d)) (dg_pVcrEvents d) (uint (pb_volume p)) \<and>
    uint (pb_volume (snd (vcr_controls start d p))) \<le> 500 \<and> alike (snd (vcr_controls start d p))"
proof -
  have "uint (pb_volume (fold (vcr_control d start) ks p)) = fold (volume_step (dg_vVolume d)) ks (uint (pb_volume p)) \<and>
      uint (pb_volume (fold (vcr_control d start) ks p)) \<le> 500 \<and> alike (fold (vcr_control d start) ks p)" for ks
    using assms(3,4)
  proof (induction ks arbitrary: p)
    case (Cons k ks)
    have v: "uint (pb_volume (vcr_control d start k p)) = volume_step (dg_vVolume d) k (uint (pb_volume p))"
      by (rule control_volume [OF assms(1,2) Cons.prems(1)])
    moreover have "volume_step (dg_vVolume d) k (uint (pb_volume p)) \<le> 500"
      using Cons.prems(1) assms(1) by (auto simp: volume_step_def)
    ultimately show ?case using Cons.IH [of "vcr_control d start k p"] Cons.prems(2) control_alike by simp
  qed simp
  then show ?thesis unfolding vcr_controls_def snd_conv by blast
qed

theorem volume_saturates_witness:
  "uint (pb_volume (snd (vcr_controls 0 ((newDialog ''d'')\<lparr>dg_vVolume := 300, dg_pVcrEvents := [VCR_VOLUP, VCR_VOLUP, VCR_VOLDOWN]\<rparr>) newPlayback))) = 200"
proof -
  let ?d = "(newDialog ''d'')\<lparr>dg_vVolume := 300, dg_pVcrEvents := [VCR_VOLUP, VCR_VOLUP, VCR_VOLDOWN]\<rparr>"
  have h: "0 \<le> dg_vVolume ?d" "dg_vVolume ?d \<le> 65035" "uint (pb_volume newPlayback) \<le> 500" "alike newPlayback"
    by (auto simp: newPlayback_def alike_def)
  from volume_saturates [OF h, of 0] show ?thesis by (simp add: volume_step_def newPlayback_def)
qed

text \<open>A pause is over at the latest after the interval, if the product fits 32 bits.\<close>

lemma pause_ends:
  assumes "uint (dg_vPause d) * 1000 < 2 ^ 32" and "pb_startPaused p + uint (dg_vPause d) * 1000 \<le> now"
  shows "\<not> pb_paused (pause_over d now p)"
  using assms by (simp add: pause_over_def uint_word_ariths)

text \<open>With two keys for pause and resume a second pause changes nothing; every other control ends the pause.\<close>

lemma pause_stays:
  "dg_keys d VCR_PAUSE \<noteq> dg_keys d VCR_RESUME \<Longrightarrow> pb_paused p \<Longrightarrow> pb_paused (vcr_control d start k p) \<longleftrightarrow> k = VCR_PAUSE"
  by (cases k) (auto simp: vcr_control_def resume_too_def goto_tracks_def skip_tracks_def Let_def)

end
