(* ===== verification/IvrRecord.thy ===== *)
theory IvrRecord
  imports IvrCollect
begin

text \<open>
  \<open>src/packages/IvrPackage.cxx\<close>, recording: the files (\<open>AudioFile\<close>), the frames that come in
  (\<open>IvrDialog::incomingFrame\<close>) and the loop that waits for the end of a recording (\<open>IvrDialog::run\<close>). A file is the list of
  its bytes; \<open>fopen\<close> and \<open>fwrite\<close> may fail. The numbers of the header are written as the little-endian bytes of
  the low 32 bits of a \<open>long\<close>. The loop is a function of its turns, as in \<open>IvrCollect\<close>.
\<close>

subsection \<open>Files\<close>

definition le16 :: "u16 \<Rightarrow> u8 list" where
  "le16 w = [ucast w, ucast (drop_bit 8 w)]"

definition le32 :: "u32 \<Rightarrow> u8 list" where
  "le32 w = [ucast w, ucast (drop_bit 8 w), ucast (drop_bit 16 w), ucast (drop_bit 24 w)]"

definition bytes :: "string \<Rightarrow> u8 list" where
  "bytes s = map (\<lambda>c. word_of_nat (of_char c)) s"

text \<open>\<open>struct wavHdr\<close>, with the two lengths that change.\<close>

definition wavHdr :: "u32 \<Rightarrow> u32 \<Rightarrow> u8 list" where
  "wavHdr len blocksize = bytes ''RIFF'' @ le32 len @ bytes ''WAVE'' @ bytes ''fmt '' @ le32 16 @ le16 1 @ le16 1 @ le32 8000 @
     le32 16000 @ le16 2 @ le16 16 @ bytes ''data'' @ le32 blocksize"

record audio_file =
  af_filename :: string
  af_path :: string
  af_dest :: string
  af_prepared :: bool
  af_rAudio :: bool
  af_file :: "u8 list option"

definition newAudioFile :: "string \<Rightarrow> string \<Rightarrow> bool \<Rightarrow> audio_file" where
  "newAudioFile name path audio = \<lparr>af_filename = name, af_path = path, af_dest = '''', af_prepared = False,
     af_rAudio = audio, af_file = None\<rparr>"

text \<open>\<open>opens\<close>: whether \<open>fopen\<close> succeeds; a failure to write the header is only printed.\<close>

definition af_prepare :: "bool \<Rightarrow> audio_file \<Rightarrow> audio_file \<times> bool" where
  "af_prepare opens a = (if opens then (a\<lparr>af_file := Some (wavHdr 0 0), af_prepared := True\<rparr>, True)
     else (a\<lparr>af_file := None\<rparr>, False))"

definition poke :: "nat \<Rightarrow> u8 list \<Rightarrow> u8 list \<Rightarrow> u8 list" where
  "poke pos bs f = take pos f @ bs @ drop (pos + length bs) f"

definition update_header :: "u8 list \<Rightarrow> u8 list" where
  "update_header f = poke 40 (le32 (word_of_nat (length f))) (poke 4 (le32 (word_of_int (int (length f) - 8))) f)"

text \<open>\<open>written\<close>: how many bytes of a frame of that length \<open>fwrite\<close> writes. The number is compared with the length cut to 16 bits.\<close>

definition af_writeFrame :: "(nat \<Rightarrow> nat) \<Rightarrow> frame option \<Rightarrow> audio_file \<Rightarrow> audio_file cpp" where
  "af_writeFrame written fo a = (case fo of None \<Rightarrow> Val a | Some fr \<Rightarrow>
     if \<not> af_prepared a \<or> af_file a = None \<or> \<not> af_rAudio a \<or> fr_media fr \<noteq> MEDIACTRL_MEDIA_AUDIO then Val a
     else (case (fr_buffer fr, af_file a) of (Some buf, Some f) \<Rightarrow>
         let n = nat (fr_len fr) in
         if fr_len fr < 0 \<or> length buf < n then Undef
         else if written n \<noteq> unat (word_of_nat n :: u16) then Val (a\<lparr>af_file := None\<rparr>)
         else Val (a\<lparr>af_file := Some (update_header (f @ take n buf))\<rparr>)
       | _ \<Rightarrow> if fr_len fr = 0 then Val (a\<lparr>af_file := map_option update_header (af_file a)\<rparr>) else Undef))"

text \<open>The destructor.\<close>

definition af_close :: "audio_file \<Rightarrow> unit cpp" where
  "af_close a = (if af_prepared a \<and> af_file a = None then Undef else Val ())"

subsection \<open>Frames that come in\<close>

record recorder =
  rc_dialog :: ivr_dialog
  rc_files :: "audio_file list"
  rc_silenceTimer :: bool
  rc_start :: "u32 option"
  rc_time :: u32

text \<open>\<open>conMedia\<close> is the media type of the connection that the frame comes from, \<open>silence\<close> what the timer of
  silences shows, \<open>decoded\<close> the package's decoder.\<close>

definition voice :: "frame \<Rightarrow> u32 \<Rightarrow> recorder \<Rightarrow> recorder cpp" where
  "voice fr silence r = (let d = rc_dialog r in
     if \<not> (dg_rAudio d \<and> (dg_rVadinitial d \<or> dg_rVadfinal d) \<and> fr_media fr = MEDIACTRL_MEDIA_AUDIO) then Val r
     else cpp_bind (isSilence (Some fr)) (\<lambda>silent.
       if silent then
         (if dg_rInput d \<and> dg_rVadfinal d \<and> dg_rSilencestart d = 0 \<and> rc_silenceTimer r
          then Val (r\<lparr>rc_dialog := d\<lparr>dg_rSilencestart := silence\<rparr>\<rparr>) else Val r)
       else Val (r\<lparr>rc_dialog := d\<lparr>dg_rSilencestart := 0, dg_rInput := True\<rparr>\<rparr>)))"

fun write_all :: "(nat \<Rightarrow> nat) \<Rightarrow> frame option \<Rightarrow> audio_file list \<Rightarrow> audio_file list cpp" where
  "write_all written fo [] = Val []"
| "write_all written fo (a # as) = cpp_bind (af_writeFrame written fo a) (\<lambda>a'.
     cpp_bind (write_all written fo as) (\<lambda>as'. Val (a' # as')))"

definition dlg_incomingFrame :: "(frame \<Rightarrow> frame option) \<Rightarrow> (nat \<Rightarrow> nat) \<Rightarrow> ptr \<Rightarrow> ptr \<Rightarrow> int \<Rightarrow> frame \<Rightarrow> u32 \<Rightarrow> recorder \<Rightarrow> recorder cpp" where
  "dlg_incomingFrame decoded written con subcon conMedia fr silence r = (let d = rc_dialog r in
     if dg_state d \<noteq> DIALOG_STARTED \<or> \<not> has_model MODEL_RECORD d then Val r
     else if dg_destroy d \<or> dg_done d \<or> dg_playing d \<or> dg_collecting d \<or> \<not> dg_recording d then Val r
     else if dg_connection d \<noteq> con \<and> dg_connection d \<noteq> subcon then Val r
     else if conMedia \<noteq> MEDIACTRL_MEDIA_UNKNOWN \<and> conMedia \<noteq> fr_media fr then Val r
     else cpp_bind (voice fr silence r) (\<lambda>r1.
       if \<not> (dg_rAudio d \<and> fr_media fr = MEDIACTRL_MEDIA_AUDIO) then Val r1
       else (case (if fr_format fr \<noteq> MEDIACTRL_RAW then decoded fr else Some fr) of None \<Rightarrow> Val r1
         | Some fr' \<Rightarrow> cpp_bind (write_all written (Some fr') (rc_files r1)) (\<lambda>fs. Val (r1\<lparr>rc_files := fs\<rparr>)))))"

subsection \<open>Waiting for the end of the recording\<close>

datatype record_event = Frame int frame u32 | Other dialog_event

fun record_happen :: "(frame \<Rightarrow> frame option) \<Rightarrow> (nat \<Rightarrow> nat) \<Rightarrow> record_event \<Rightarrow> recorder \<Rightarrow> recorder cpp" where
  "record_happen decoded written (Frame conMedia fr silence) r =
     dlg_incomingFrame decoded written (dg_connection (rc_dialog r)) (dg_connection (rc_dialog r)) conMedia fr silence r"
| "record_happen decoded written (Other ev) r = Val (r\<lparr>rc_dialog := happen ev (rc_dialog r)\<rparr>)"

fun record_events :: "(frame \<Rightarrow> frame option) \<Rightarrow> (nat \<Rightarrow> nat) \<Rightarrow> record_event list \<Rightarrow> recorder \<Rightarrow> recorder cpp" where
  "record_events decoded written [] r = Val r"
| "record_events decoded written (ev # evs) r =
     cpp_bind (record_happen decoded written ev r) (record_events decoded written evs)"

text \<open>What the four timers show in a turn, and what happens while the thread sleeps.\<close>

record rec_turn =
  rt_timer :: u32
  rt_timeout :: u32
  rt_record :: u32
  rt_silence :: u32
  rt_events :: "record_event list"

definition on_dialog :: "(ivr_dialog \<Rightarrow> ivr_dialog) \<Rightarrow> recorder \<Rightarrow> recorder" where
  "on_dialog f r = r\<lparr>rc_dialog := f (rc_dialog r)\<rparr>"

definition stop_as :: "int \<Rightarrow> recorder \<Rightarrow> recorder" where
  "stop_as m = on_dialog (\<lambda>d. d\<lparr>dg_termmode := m, dg_done := True\<rparr>)"

definition check_silence :: "rec_turn \<Rightarrow> recorder \<Rightarrow> recorder cpp" where
  "check_silence tn r = (let d = rc_dialog r in
     if dg_rInput d \<and> dg_rVadfinal d \<and> 0 < dg_rSilencestart d then
       (if \<not> rc_silenceTimer r then Undef
        else if dg_rFinalsilence d \<le> rt_silence tn - dg_rSilencestart d then Val (stop_as TERMMODE_FINALSILENCE r) else Val r)
     else Val r)"

definition check_noinput :: "u32 \<Rightarrow> rec_turn \<Rightarrow> recorder \<Rightarrow> recorder" where
  "check_noinput tstart tn r = (let d = rc_dialog r in
     if \<not> dg_rInput d \<and> dg_rVadinitial d then
       (let r1 = r\<lparr>rc_time := rt_timeout tn\<rparr> in
        if dg_rTimeout d \<le> rt_timeout tn - tstart then stop_as TERMMODE_NOINPUT r1 else r1)
     else r)"

definition begin_recording :: "rec_turn \<Rightarrow> recorder \<Rightarrow> recorder" where
  "begin_recording tn r =
     (if dg_rInput (rc_dialog r) \<and> rc_start r = None then
        (let r1 = r\<lparr>rc_start := Some (rt_record tn)\<rparr> in
         if dg_rVadfinal (rc_dialog r1) \<and> \<not> rc_silenceTimer r1
         then on_dialog (\<lambda>d. d\<lparr>dg_rSilencestart := 0\<rparr>) (r1\<lparr>rc_silenceTimer := True\<rparr>) else r1)
      else r)"

definition check_maxtime :: "rec_turn \<Rightarrow> recorder \<Rightarrow> recorder" where
  "check_maxtime tn r = (case rc_start r of None \<Rightarrow> r | Some s \<Rightarrow>
     let r1 = r\<lparr>rc_time := rt_record tn\<rparr> in
     if dg_rMaxtime (rc_dialog r1) \<le> rt_record tn - s then stop_as TERMMODE_MAXTIME r1 else r1)"

definition over :: "recorder \<Rightarrow> bool" where
  "over r \<longleftrightarrow> dg_destroy (rc_dialog r) \<or> dg_done (rc_dialog r)"

fun record_wait :: "(frame \<Rightarrow> frame option) \<Rightarrow> (nat \<Rightarrow> nat) \<Rightarrow> u32 \<Rightarrow> u32 \<Rightarrow> rec_turn list \<Rightarrow> recorder \<Rightarrow> recorder option cpp" where
  "record_wait decoded written startTime tstart [] r = Val (if over r then Some r else None)"
| "record_wait decoded written startTime tstart (tn # tns) r =
     (if over r then Val (Some r)
      else let r0 = (if 0 < dg_duration (rc_dialog r) then r\<lparr>rc_time := rt_timer tn\<rparr> else r) in
      if over_duration startTime (rt_timer tn) (rc_dialog r0) then Val (Some (on_dialog (\<lambda>d. (max_duration d)\<lparr>dg_done := True\<rparr>) r0))
      else cpp_bind (check_silence tn r0) (\<lambda>r1.
        if over r1 then Val (Some r1)
        else let r2 = check_maxtime tn (begin_recording tn (check_noinput tstart tn r1)) in
          if dg_done (rc_dialog r2) then Val (Some r2)
          else cpp_bind (record_events decoded written (rt_events tn) r2) (record_wait decoded written startTime tstart tns)))"

text \<open>The recording of one iteration, from the start of the timers to the end of the loop; the timer of silences
  is deleted, its reading at the beginning of a silence is kept.\<close>

definition record_phase :: "(frame \<Rightarrow> frame option) \<Rightarrow> (nat \<Rightarrow> nat) \<Rightarrow> u32 \<Rightarrow> u32 \<Rightarrow> rec_turn list \<Rightarrow> recorder \<Rightarrow> recorder option cpp" where
  "record_phase decoded written startTime tstart tns r0 =
     (let r = on_dialog (\<lambda>d. d\<lparr>dg_state := DIALOG_STARTED, dg_recording := True,
            dg_rInput := (\<not> dg_rVadinitial d \<or> \<not> dg_rAudio d)\<rparr>) (r0\<lparr>rc_start := None, rc_time := 0\<rparr>) in
      cpp_bind (record_wait decoded written startTime tstart tns r) (\<lambda>res. case res of None \<Rightarrow> Val None
        | Some r1 \<Rightarrow> Val (Some (on_dialog (\<lambda>d. d\<lparr>dg_recording := False\<rparr>)
            (if dg_rVadfinal (rc_dialog r1) then r1\<lparr>rc_silenceTimer := False\<rparr> else r1)))))"

subsection \<open>What a recorded file holds\<close>

lemma le_length [simp]: "length (le16 w) = 2" "length (le32 v) = 4"
  by (simp_all add: le16_def le32_def)

lemma bytes_length [simp]: "length (bytes s) = length s"
  by (simp add: bytes_def)

lemma wavHdr_length [simp]: "length (wavHdr a b) = 44"
  by (simp add: wavHdr_def)

lemma poke_append:
  "length a = pos \<Longrightarrow> length b = length bs \<Longrightarrow> poke pos bs (a @ b @ c) = a @ bs @ c"
  by (simp add: poke_def)

lemma header_updated:
  "update_header (wavHdr a b @ xs) = wavHdr (word_of_int (int (44 + length xs) - 8)) (word_of_nat (44 + length xs)) @ xs"
proof -
  let ?n = "length (wavHdr a b @ xs)"
  let ?m = "bytes ''WAVE'' @ bytes ''fmt '' @ le32 16 @ le16 1 @ le16 1 @ le32 8000 @ le32 16000 @ le16 2 @ le16 16 @ bytes ''data''"
  have h: "wavHdr x y @ xs = bytes ''RIFF'' @ le32 x @ (?m @ le32 y @ xs)" for x y by (simp add: wavHdr_def)
  have h': "wavHdr x y @ xs = (bytes ''RIFF'' @ le32 x @ ?m) @ le32 y @ xs" for x y by (simp add: wavHdr_def)
  have n: "?n = 44 + length xs" by simp
  have "poke 4 (le32 v) (wavHdr a b @ xs) = wavHdr v b @ xs" for v unfolding h by (rule poke_append) simp_all
  moreover have "poke 40 (le32 w) (wavHdr v b @ xs) = wavHdr v w @ xs" for v w unfolding h' by (rule poke_append) simp_all
  ultimately show ?thesis unfolding update_header_def n by simp
qed

definition raw_bytes :: "frame \<Rightarrow> u8 list" where
  "raw_bytes fr = (case fr_buffer fr of None \<Rightarrow> [] | Some buf \<Rightarrow> take (nat (fr_len fr)) buf)"

definition plain_audio :: "frame \<Rightarrow> bool" where
  "plain_audio fr \<longleftrightarrow> fr_media fr = MEDIACTRL_MEDIA_AUDIO \<and> 0 \<le> fr_len fr \<and> fr_len fr < 65536 \<and>
     (\<exists>buf. fr_buffer fr = Some buf \<and> nat (fr_len fr) \<le> length buf)"

fun write_frames :: "frame list \<Rightarrow> audio_file \<Rightarrow> audio_file cpp" where
  "write_frames [] a = Val a"
| "write_frames (fr # frs) a = cpp_bind (af_writeFrame (\<lambda>n. n) (Some fr) a) (write_frames frs)"

lemma writeFrame_plain:
  assumes "plain_audio fr" and "af_prepared a" and "af_rAudio a" and "af_file a = Some (wavHdr x y @ xs)"
  shows "af_writeFrame (\<lambda>n. n) (Some fr) a = Val (a\<lparr>af_file := Some (wavHdr (word_of_int (int (44 + length (xs @ raw_bytes fr)) - 8))
     (word_of_nat (44 + length (xs @ raw_bytes fr))) @ xs @ raw_bytes fr)\<rparr>)"
proof -
  from assms(1) obtain buf where b: "fr_buffer fr = Some buf" "nat (fr_len fr) \<le> length buf" "0 \<le> fr_len fr" "nat (fr_len fr) < 65536"
      "fr_media fr = MEDIACTRL_MEDIA_AUDIO" by (auto simp: plain_audio_def)
  have u: "unat (word_of_nat (nat (fr_len fr)) :: u16) = nat (fr_len fr)" using b(4) by (simp add: unsigned_of_nat take_bit_nat_eq_self)
  have "update_header (wavHdr x y @ xs @ take (nat (fr_len fr)) buf) =
      wavHdr (word_of_int (int (44 + length (xs @ raw_bytes fr)) - 8)) (word_of_nat (44 + length (xs @ raw_bytes fr))) @ xs @ raw_bytes fr"
    using header_updated [of x y "xs @ raw_bytes fr"] b(1) by (simp add: raw_bytes_def)
  then show ?thesis using b u assms(2-4) by (simp add: af_writeFrame_def Let_def)
qed

text \<open>
  C28. A recording to which frames of audio were written in order is one well-formed RIFF header followed by the bytes of all
  the frames and nothing else. The RIFF length is right, 8 less than the file; the length of the data chunk is not: it is the
  length of the file, 44 bytes more than the data.
\<close>

theorem recorded_file:
  assumes "list_all plain_audio frs" and "frs \<noteq> []"
  shows "\<exists>a'. write_frames frs (fst (af_prepare True (newAudioFile name path True))) = Val a' \<and> (let dat = concat (map raw_bytes frs) in
     af_file a' = Some (wavHdr (word_of_nat (36 + length dat)) (word_of_nat (44 + length dat)) @ dat))"
proof -
  have gen: "\<exists>a'. write_frames frs a = Val a' \<and> (let dat = xs @ concat (map raw_bytes frs) in
      af_file a' = Some (wavHdr (word_of_nat (36 + length dat)) (word_of_nat (44 + length dat)) @ dat))"
    if "list_all plain_audio frs" "frs \<noteq> []" "af_prepared a" "af_rAudio a" "af_file a = Some (wavHdr x y @ xs)" for a x y xs
    using that
  proof (induction frs arbitrary: a x y xs)
    case (Cons fr frs)
    let ?xs = "xs @ raw_bytes fr"
    let ?a = "a\<lparr>af_file := Some (wavHdr (word_of_int (int (44 + length ?xs) - 8)) (word_of_nat (44 + length ?xs)) @ ?xs)\<rparr>"
    have w: "af_writeFrame (\<lambda>n. n) (Some fr) a = Val ?a"
      by (rule writeFrame_plain) (use Cons.prems in simp_all)
    have i: "word_of_int (int (44 + length ?xs) - 8) = (word_of_nat (36 + length ?xs) :: u32)"
      by (simp add: of_nat_diff)
    show ?case
    proof (cases "frs = []")
      case True
      then show ?thesis using w i by simp
    next
      case False
      have "af_prepared ?a" "af_rAudio ?a" using Cons.prems by simp_all
      from Cons.IH [OF _ False this, of _ _ ?xs] Cons.prems(1) w show ?thesis by simp
    qed
  qed simp
  from gen [OF assms, of "fst (af_prepare True (newAudioFile name path True))" 0 0 "[]"] show ?thesis
    by (simp add: af_prepare_def newAudioFile_def)
qed

definition beep_frame :: frame where
  "beep_frame = (newFrame MEDIACTRL_MEDIA_AUDIO 0)\<lparr>fr_buffer := Some [1, 2], fr_len := 2\<rparr>"

theorem recorded_file_witness:
  "\<exists>a'. write_frames [beep_frame, beep_frame] (fst (af_prepare True (newAudioFile ''r.wav'' ''/r.wav'' True))) = Val a' \<and>
     map_option (drop 40) (af_file a') = Some ([48, 0, 0, 0] @ [1, 2, 1, 2])"
proof -
  have b: "raw_bytes beep_frame = [1, 2]" by (simp add: raw_bytes_def beep_frame_def)
  have h: "drop 40 (wavHdr x y) = le32 y" for x y by (simp add: wavHdr_def)
  have l: "le32 48 = [48, 0, 0, 0]" by code_simp
  have "list_all plain_audio [beep_frame, beep_frame]" by (simp add: plain_audio_def beep_frame_def newFrame_def)
  from recorded_file [OF this, of "''r.wav''" "''/r.wav''"] show ?thesis by (auto simp: b Let_def h l)
qed

subsection \<open>The recording ends\<close>

text \<open>The limits, which nothing changes while it is recorded.\<close>

definition limits :: "recorder \<Rightarrow> u32 \<times> u32 \<times> bool" where
  "limits r = (dg_rMaxtime (rc_dialog r), dg_rTimeout (rc_dialog r), dg_rVadinitial (rc_dialog r))"

definition goes_on :: "recorder \<Rightarrow> recorder \<Rightarrow> bool" where
  "goes_on r r' \<longleftrightarrow> limits r' = limits r \<and> rc_start r' = rc_start r \<and> (dg_rInput (rc_dialog r) \<longrightarrow> dg_rInput (rc_dialog r'))"

lemma goes_on_refl [simp]: "goes_on r r"
  by (simp add: goes_on_def)

lemma goes_on_trans: "goes_on r r1 \<Longrightarrow> goes_on r1 r2 \<Longrightarrow> goes_on r r2"
  by (simp add: goes_on_def)

definition rec_part :: "ivr_dialog \<Rightarrow> u32 \<times> u32 \<times> bool \<times> bool" where
  "rec_part d = (dg_rMaxtime d, dg_rTimeout d, dg_rVadinitial d, dg_rInput d)"

lemma rec_part_notify [simp]: "rec_part (dlg_notifyEvent b d) = rec_part d" "rec_part (notify_all s t d) = rec_part d"
  by (simp_all add: rec_part_def dlg_notifyEvent_def notify_all_def)

lemma rec_part_tones:
  "rec_part (vcr_tone s t d) = rec_part d" "rec_part (collect_tone s t d) = rec_part d" "rec_part (record_tone s t d) = rec_part d"
proof -
  have u: "rec_part (d\<lparr>dg_pVcrEvents := a\<rparr>) = rec_part d" "rec_part (d\<lparr>dg_termmode := b, dg_playing := c\<rparr>) = rec_part d"
      "rec_part (d\<lparr>dg_vcrInfo := e\<rparr>) = rec_part d" "rec_part (d\<lparr>dg_restart := c\<rparr>) = rec_part d"
      "rec_part (d\<lparr>dg_done := c\<rparr>) = rec_part d" "rec_part (d\<lparr>dg_tones := f, dg_out := g\<rparr>) = rec_part d"
      "rec_part (d\<lparr>dg_termmode := b\<rparr>) = rec_part d" for a b c d e f g by (simp_all add: rec_part_def)
  show "rec_part (vcr_tone s t d) = rec_part d" by (simp add: vcr_tone_def Let_def u split: option.split)
  show "rec_part (collect_tone s t d) = rec_part d" by (simp add: collect_tone_def Let_def u)
  show "rec_part (record_tone s t d) = rec_part d" by (simp add: record_tone_def Let_def u)
qed

lemma rec_part_happen: "rec_part (happen ev d) = rec_part d"
proof (cases ev)
  case (Tone s t)
  have u: "rec_part (d\<lparr>dg_termmode := b, dg_playing := c\<rparr>) = rec_part d" for b c d by (simp add: rec_part_def)
  show ?thesis by (simp add: Tone dlg_incomingDtmf_def rec_part_tones u)
next
  case (Terminate i x)
  then show ?thesis by (simp add: destroyDialog_def rec_part_def Let_def)
qed

lemma happen_limits:
  "dg_rMaxtime (happen ev d) = dg_rMaxtime d" "dg_rTimeout (happen ev d) = dg_rTimeout d"
  "dg_rVadinitial (happen ev d) = dg_rVadinitial d" "dg_rInput (happen ev d) = dg_rInput d"
  using rec_part_happen [of ev d] by (simp_all only: rec_part_def prod.inject)

lemma voice_goes_on:
  assumes "voice fr s r = Val r'"
  shows "goes_on r r'"
proof -
  have "r' = r \<or> (\<exists>x. r' = r\<lparr>rc_dialog := (rc_dialog r)\<lparr>dg_rSilencestart := x\<rparr>\<rparr>) \<or>
      (\<exists>x. r' = r\<lparr>rc_dialog := (rc_dialog r)\<lparr>dg_rSilencestart := x, dg_rInput := True\<rparr>\<rparr>)"
    using assms unfolding voice_def Let_def by (cases "isSilence (Some fr)") (simp_all split: if_splits, blast+)
  then show ?thesis by (elim disjE exE) (simp_all add: goes_on_def limits_def)
qed

lemma record_happen_goes_on: "record_happen decoded written ev r = Val r' \<Longrightarrow> goes_on r r'"
proof (cases ev)
  case (Frame m fr s)
  assume "record_happen decoded written ev r = Val r'"
  then have h: "dlg_incomingFrame decoded written (dg_connection (rc_dialog r)) (dg_connection (rc_dialog r)) m fr s r = Val r'"
    by (simp add: Frame)
  have f: "goes_on r (r1\<lparr>rc_files := fs\<rparr>)" if "goes_on r r1" for r1 fs using that by (simp add: goes_on_def limits_def)
  from h show ?thesis
    by (auto simp: dlg_incomingFrame_def Let_def cpp_bind_Val intro: voice_goes_on f split: if_splits option.splits)
next
  case (Other e)
  assume "record_happen decoded written ev r = Val r'"
  then show ?thesis by (auto simp: Other goes_on_def limits_def happen_limits simp del: happen.simps)
qed

lemma record_events_goes_on: "record_events decoded written evs r = Val r' \<Longrightarrow> goes_on r r'"
proof (induction evs arbitrary: r)
  case (Cons ev evs)
  then show ?case by (auto simp: cpp_bind_Val intro: goes_on_trans record_happen_goes_on)
qed simp

text \<open>The beginning of the recording after a turn in which there is input.\<close>

definition started_at :: "rec_turn \<Rightarrow> recorder \<Rightarrow> u32" where
  "started_at tn r = (case rc_start r of None \<Rightarrow> rt_record tn | Some s \<Rightarrow> s)"

lemma check_silence_goes_on: "check_silence tn r = Val r' \<Longrightarrow> goes_on r r'"
  by (auto simp: check_silence_def Let_def stop_as_def on_dialog_def goes_on_def limits_def split: if_splits)

lemma record_turn:
  assumes "record_wait decoded written st ts (tn # tns) r = Val None"
  shows "\<exists>r'. record_wait decoded written st ts tns r' = Val None \<and> limits r' = limits r \<and>
     (if dg_rInput (rc_dialog r) then dg_rInput (rc_dialog r') \<and> rc_start r' = Some (started_at tn r) \<and>
        \<not> dg_rMaxtime (rc_dialog r) \<le> rt_record tn - started_at tn r
      else rc_start r' = rc_start r \<and> (dg_rVadinitial (rc_dialog r) \<longrightarrow> \<not> dg_rTimeout (rc_dialog r) \<le> rt_timeout tn - ts))"
proof -
  let ?r0 = "if 0 < dg_duration (rc_dialog r) then r\<lparr>rc_time := rt_timer tn\<rparr> else r"
  have g0: "goes_on r ?r0" "rc_dialog ?r0 = rc_dialog r" by (simp_all add: goes_on_def limits_def)
  obtain r1 where r1: "check_silence tn ?r0 = Val r1" "\<not> over r1" and
    w: "(let r2 = check_maxtime tn (begin_recording tn (check_noinput ts tn r1)) in
          if dg_done (rc_dialog r2) then Val (Some r2)
          else cpp_bind (record_events decoded written (rt_events tn) r2) (record_wait decoded written st ts tns)) = Val None"
    using assms by (auto simp: Let_def cpp_bind_Val split: if_splits)
  let ?n = "check_noinput ts tn r1"
  let ?b = "begin_recording tn ?n"
  let ?r2 = "check_maxtime tn ?b"
  from w obtain r3 where r3: "\<not> dg_done (rc_dialog ?r2)" "record_events decoded written (rt_events tn) ?r2 = Val r3"
      "record_wait decoded written st ts tns r3 = Val None"
    by (auto simp: Let_def cpp_bind_Val split: if_splits)
  have g1: "goes_on r r1" by (rule goes_on_trans [OF g0(1) check_silence_goes_on [OF r1(1)]])
  have same: "dg_rInput (rc_dialog r1) = dg_rInput (rc_dialog r)"
    using r1(1) g0(2) by (auto simp: check_silence_def Let_def stop_as_def on_dialog_def split: if_splits)
  have nb: "limits ?r2 = limits r1" "dg_rInput (rc_dialog ?r2) = dg_rInput (rc_dialog r1)"
    by (auto simp: check_maxtime_def begin_recording_def check_noinput_def stop_as_def on_dialog_def limits_def Let_def split: option.splits)
  have g3: "goes_on ?r2 r3" by (rule record_events_goes_on [OF r3(2)])
  have lim: "limits r3 = limits r" using g1 g3 nb(1) by (simp add: goes_on_def)
  show ?thesis
  proof (cases "dg_rInput (rc_dialog r)")
    case True
    then have i: "?n = r1" by (simp add: check_noinput_def same Let_def)
    have s: "rc_start ?b = Some (started_at tn r1)" "dg_rMaxtime (rc_dialog ?b) = dg_rMaxtime (rc_dialog r1)"
      unfolding i using True same by (auto simp: begin_recording_def started_at_def on_dialog_def Let_def split: option.splits)
    have "\<not> dg_rMaxtime (rc_dialog r1) \<le> rt_record tn - started_at tn r1"
      using r3(1) s by (auto simp: check_maxtime_def stop_as_def on_dialog_def Let_def)
    moreover have "rc_start ?r2 = Some (started_at tn r1)" using s by (auto simp: check_maxtime_def stop_as_def on_dialog_def Let_def)
    moreover have "started_at tn r1 = started_at tn r" "dg_rMaxtime (rc_dialog r1) = dg_rMaxtime (rc_dialog r)"
      using g1 by (simp_all add: goes_on_def started_at_def limits_def)
    moreover have "dg_rInput (rc_dialog r3)" "rc_start r3 = rc_start ?r2" using g3 nb(2) same True by (simp_all add: goes_on_def)
    ultimately have "dg_rInput (rc_dialog r3) \<and> rc_start r3 = Some (started_at tn r) \<and>
        \<not> dg_rMaxtime (rc_dialog r) \<le> rt_record tn - started_at tn r" by simp
    with r3(3) lim True show ?thesis by auto
  next
    case False
    have "rc_start ?n = rc_start r1" "\<not> dg_rInput (rc_dialog ?n)"
      using False same by (auto simp: check_noinput_def stop_as_def on_dialog_def Let_def)
    then have b: "?b = ?n" by (simp add: begin_recording_def)
    have d: "dg_done (rc_dialog ?n) \<Longrightarrow> dg_done (rc_dialog ?r2)" unfolding b
      by (auto simp: check_maxtime_def stop_as_def on_dialog_def Let_def split: option.splits)
    have "\<not> dg_rTimeout (rc_dialog r) \<le> rt_timeout tn - ts" if "dg_rVadinitial (rc_dialog r)"
    proof
      assume "dg_rTimeout (rc_dialog r) \<le> rt_timeout tn - ts"
      then have "dg_done (rc_dialog ?n)" using that False same g1
        by (auto simp: check_noinput_def stop_as_def on_dialog_def Let_def goes_on_def limits_def)
      with d r3(1) show False by blast
    qed
    moreover have "rc_start ?r2 = rc_start r1"
      unfolding b by (auto simp: check_maxtime_def check_noinput_def stop_as_def on_dialog_def Let_def split: option.splits)
    then have "rc_start r3 = rc_start r" using g1 g3 by (simp add: goes_on_def)
    ultimately show ?thesis using r3(3) lim False by auto
  qed
qed

lemma started_ends:
  assumes "dg_rInput (rc_dialog r)" and "rc_start r = Some s" and "\<exists>tn\<in>set tns. dg_rMaxtime (rc_dialog r) \<le> rt_record tn - s"
  shows "record_wait decoded written st ts tns r \<noteq> Val None"
  using assms
proof (induction tns arbitrary: r)
  case (Cons tn tns)
  show ?case
  proof
    assume "record_wait decoded written st ts (tn # tns) r = Val None"
    from record_turn [OF this] Cons.prems(1,2) obtain r' where r': "record_wait decoded written st ts tns r' = Val None"
        "limits r' = limits r" "dg_rInput (rc_dialog r')" "rc_start r' = Some s" "\<not> dg_rMaxtime (rc_dialog r) \<le> rt_record tn - s"
      by (auto simp: started_at_def)
    have "dg_rMaxtime (rc_dialog r') = dg_rMaxtime (rc_dialog r)" using r'(2) by (simp add: limits_def)
    with Cons.IH [OF r'(3,4)] Cons.prems(3) r'(1,5) show False by auto
  qed
qed simp


definition demo_recorder :: recorder where
  "demo_recorder = \<lparr>rc_dialog = (newDialog ''d'')\<lparr>dg_model := MODEL_RECORD, dg_rVadinitial := True\<rparr>, rc_files = [],
     rc_silenceTimer = False, rc_start = None, rc_time = 0\<rparr>"

definition rec_at :: "u32 \<Rightarrow> rec_turn" where
  "rec_at t = \<lparr>rt_timer = t, rt_timeout = t, rt_record = t, rt_silence = t, rt_events = []\<rparr>"




end
