(* ===== verification/IvrRun.thy ===== *)
theory IvrRun
  imports IvrPlayback IvrRecord
begin

text \<open>
  \<open>src/packages/IvrPackage.cxx\<close>, the thread of a dialog (\<open>IvrDialog::run\<close>): its iterations of prompt and
  collection or recording, the report of a recording, and the end of the dialog. What comes from outside in an
  iteration (\<open>run_input\<close>) is what the timers and the decoder of the prompts show in each turn of a waiting
  loop, what other threads do to the dialog meanwhile, and the tones that wait for it. \<open>playAnnouncements\<close> and
  \<open>playBeep\<close> are here without the audio they send.
\<close>

subsection \<open>Playing\<close>

text \<open>\<open>pt_over\<close>: all tracks are done when the turn begins; \<open>pt_left\<close>: some is not after decoding; \<open>pt_clock\<close> and
  \<open>pt_pause\<close> are the two readings of \<open>av_gettime\<close>.\<close>

record play_turn =
  pt_over :: bool
  pt_timer :: u32
  pt_left :: bool
  pt_clock :: int
  pt_pause :: int
  pt_events :: "dialog_event list"

fun play_wait :: "u32 \<Rightarrow> play_turn list \<Rightarrow> int \<Rightarrow> ivr_dialog \<Rightarrow> playback \<Rightarrow> ivr_dialog option" where
  "play_wait startTime [] start d p = (if dg_playing d then None else Some d)"
| "play_wait startTime (tn # tns) start d p =
     (if \<not> dg_playing d \<or> pt_over tn then Some d
      else if over_duration startTime (pt_timer tn) d then Some ((max_duration d)\<lparr>dg_destroy := True\<rparr>)
      else if dg_destroy d then Some d
      else case vcr_controls start d p of (d1, p1) \<Rightarrow> let d2 = fold happen (pt_events tn) d1 in
        if pt_left tn \<and> 19980 \<le> pt_clock tn - start
        then play_wait startTime tns (start + 20000) d2 (pause_over d2 (pt_pause tn) p1)
        else play_wait startTime tns start d2 p1)"

definition playAnnouncements :: "u32 \<Rightarrow> int \<Rightarrow> play_turn list \<Rightarrow> ivr_dialog \<Rightarrow> ivr_dialog option" where
  "playAnnouncements startTime start tns d =
     map_option (\<lambda>d1. d1\<lparr>dg_playing := False\<rparr>)
       (play_wait startTime tns start (d\<lparr>dg_state := DIALOG_STARTED, dg_playing := True, dg_pVcrEvents := []\<rparr>) newPlayback)"

text \<open>One element for each frame of the beep: what happens until the next one is due.\<close>

fun beep_wait :: "dialog_event list list \<Rightarrow> ivr_dialog \<Rightarrow> ivr_dialog" where
  "beep_wait [] d = d"
| "beep_wait (evs # fs) d = (if \<not> dg_playing d \<or> dg_destroy d then d else beep_wait fs (fold happen evs d))"

definition playBeep :: "dialog_event list list option \<Rightarrow> ivr_dialog \<Rightarrow> ivr_dialog" where
  "playBeep fs d = (case fs of None \<Rightarrow> d | Some fs' \<Rightarrow> (beep_wait fs' (d\<lparr>dg_playing := True\<rparr>))\<lparr>dg_playing := False\<rparr>)"

subsection \<open>What an iteration is given\<close>

record run_env =
  re_decoded :: "frame \<Rightarrow> frame option"
  re_written :: "nat \<Rightarrow> nat"
  re_upload :: "string \<Rightarrow> string \<Rightarrow> int"
  re_size :: "string \<Rightarrow> nat"
  re_webAddress :: string
  re_webPort :: string
  re_webPath :: string
  re_recordingsPath :: string
  re_startTime :: u32

record run_input =
  in_early :: "int list"
  in_start :: int
  in_play :: "play_turn list"
  in_time :: u32
  in_tones :: "int list"
  in_collect :: "(u32 \<times> turn list) list"
  in_stamp :: string
  in_opens :: "string \<Rightarrow> bool"
  in_beep :: "dialog_event list list option"
  in_timeoutStart :: u32
  in_record :: "rec_turn list"

text \<open>The variables of the thread that outlive an iteration.\<close>

record run_state =
  rn_rec :: recorder
  rn_temp :: int
  rn_time :: u32
  rn_recordTime :: u32

subsection \<open>Prompt and collection\<close>

definition prompt_part :: "run_env \<Rightarrow> run_input \<Rightarrow> int \<times> u32 \<times> ivr_dialog \<Rightarrow> (int \<times> u32 \<times> ivr_dialog) option" where
  "prompt_part e i s = (case s of (temp, time, d) \<Rightarrow>
     if \<not> has_model MODEL_PROMPT d then Some s
     else case early_bargein temp (in_early i) d of (temp1, play, d1) \<Rightarrow>
       if \<not> play then Some (temp1, time, prompt_report time d1)
       else map_option (\<lambda>d2. (temp1, in_time i, prompt_report (in_time i) d2))
         (if dg_pAudio d1 then playAnnouncements (re_startTime e) (in_start i) (in_play i) d1 else Some d1))"

definition collect_part :: "run_env \<Rightarrow> run_input \<Rightarrow> int \<Rightarrow> ivr_dialog \<Rightarrow> (int \<times> ivr_dialog) option" where
  "collect_part e i temp d = map_option (\<lambda>(temp1, d1). (temp1, collect_report (in_stamp i) d1))
     (collect_phase (re_startTime e) (in_collect i) temp (in_tones i) d)"

subsection \<open>Recording\<close>

text \<open>Files are opened for the first iteration, and for each when nothing is appended. If they are appended to
  in several iterations, they are made again first, and lose their destination.\<close>

fun renew_files :: "(string \<Rightarrow> bool) \<Rightarrow> bool \<Rightarrow> audio_file list \<Rightarrow> audio_file list cpp" where
  "renew_files opens again [] = Val []"
| "renew_files opens again (a # as) =
     cpp_bind (if again then cpp_bind (af_close a) (\<lambda>_. Val (newAudioFile (af_filename a) (af_path a) (af_rAudio a))) else Val a) (\<lambda>a1.
     cpp_bind (renew_files opens again as) (\<lambda>as'. Val (fst (af_prepare (opens (af_path a1)) a1) # as')))"

definition open_files :: "(string \<Rightarrow> bool) \<Rightarrow> recorder \<Rightarrow> recorder cpp" where
  "open_files opens r = (let d = rc_dialog r in
     if dg_rAppend d \<and> dg_currentIteration d \<noteq> 1 then Val r
     else cpp_bind (renew_files opens (dg_rAppend d \<and> 1 < dg_iterations d) (rc_files r)) (\<lambda>fs.
       Val (r\<lparr>rc_files := fs, rc_dialog := (if rc_files r = [] then d else d\<lparr>dg_termmode := TERMMODE_UNKNOWN\<rparr>)\<rparr>)))"

definition recorded_url :: "run_env \<Rightarrow> audio_file \<Rightarrow> string" where
  "recorded_url e a = ''http://'' @ re_webAddress e @ (if re_webPort e = ''80'' then '''' else '':'' @ re_webPort e) @
     ''/'' @ re_recordingsPath e @ ''/'' @ af_filename a"

text \<open>The files are closed and uploaded; the termination mode becomes \<open>stopped\<close> if an upload fails.\<close>

fun media_infos :: "run_env \<Rightarrow> audio_file list \<Rightarrow> int \<Rightarrow> (string \<times> int) cpp" where
  "media_infos e [] mode = Val ('''', mode)"
| "media_infos e (a # as) mode = cpp_bind (af_close a) (\<lambda>_.
     let failed = af_dest a \<noteq> '''' \<and> re_upload e (af_dest a) (af_path a) \<noteq> 0;
         loc = (if af_dest a \<noteq> '''' \<and> \<not> failed then af_dest a else recorded_url e a) in
     cpp_bind (media_infos e as (if failed then TERMMODE_STOPPED else mode)) (\<lambda>(s, mode').
       Val (''<mediainfo loc='' @ quoted loc @ '' type='' @ quoted ''audio/x-wav'' @ '' size='' @ quoted (dec_nat (re_size e (af_path a))) @ ''/>'' @ s, mode')))"

definition record_mode :: "int \<Rightarrow> string" where
  "record_mode m = (if m = TERMMODE_MAXTIME then ''maxtime'' else if m = TERMMODE_DTMF then ''dtmf''
     else if m = TERMMODE_FINALSILENCE then ''finalsilence'' else if m = TERMMODE_STOPPED then ''stopped'' else ''??'')"

definition record_report :: "run_env \<Rightarrow> u32 \<Rightarrow> recorder \<Rightarrow> recorder cpp" where
  "record_report e recordTime r = (let d = rc_dialog r in
     if dg_currentIteration d \<noteq> dg_iterations d \<or> dg_destroy d \<and> dg_immediate d then Val r
     else if \<not> dg_done d \<or> dg_termmode d = TERMMODE_NOINPUT then
       Val (on_dialog (add_info (''<recordinfo termmode='' @ quoted (if \<not> dg_done d \<and> dg_destroy d then ''stopped'' else ''noinput'') @ ''/>'')) r)
     else cpp_bind (media_infos e (rc_files r) (dg_termmode d)) (\<lambda>(s, mode).
       Val (on_dialog (\<lambda>d. add_info (''<recordinfo duration='' @ quoted (dec_nat (unat recordTime)) @ '' termmode='' @ quoted (record_mode mode) @
         (if s = '''' then ''/>'' else ''>'' @ s @ ''</recordinfo>'')) (d\<lparr>dg_termmode := mode\<rparr>)) r)))"

definition record_part :: "run_env \<Rightarrow> run_input \<Rightarrow> u32 \<Rightarrow> recorder \<Rightarrow> (u32 \<times> recorder) option cpp" where
  "record_part e i recordTime r0 = cpp_bind (open_files (in_opens i) r0) (\<lambda>r1.
     let r2 = (if dg_rBeep (rc_dialog r1) then on_dialog (playBeep (in_beep i)) r1 else r1) in
     cpp_bind (record_phase (re_decoded e) (re_written e) (re_startTime e) (in_timeoutStart i) (in_record i) r2) (\<lambda>res.
       case res of None \<Rightarrow> Val None
       | Some r3 \<Rightarrow> let time = (if dg_rAppend (rc_dialog r3) then recordTime + rc_time r3 else rc_time r3) in
           cpp_bind (record_report e time r3) (\<lambda>r4. Val (Some (time, r4)))))"

subsection \<open>The iterations\<close>

definition begin_iteration :: "ivr_dialog \<Rightarrow> ivr_dialog" where
  "begin_iteration d0 =
     (let d = d0\<lparr>dg_done := False, dg_destroy := False, dg_cClear := (dg_vcrMode d0 \<or> dg_cClear d0)\<rparr> in
      if has_model MODEL_COLLECT d \<and> dg_cClear d then d\<lparr>dg_out := dg_out d @ [ClearDtmfBuffer]\<rparr> else d)"

definition run_iteration :: "run_env \<Rightarrow> run_input \<Rightarrow> run_state \<Rightarrow> run_state option cpp" where
  "run_iteration e i s =
     (case prompt_part e i (rn_temp s, rn_time s, begin_iteration (rc_dialog (rn_rec s))) of None \<Rightarrow> Val None
      | Some (temp, time, d) \<Rightarrow>
        let s1 = s\<lparr>rn_rec := (rn_rec s)\<lparr>rc_dialog := d\<rparr>, rn_temp := temp, rn_time := time\<rparr> in
        if has_model MODEL_COLLECT d then
          Val (map_option (\<lambda>(temp', d'). s1\<lparr>rn_rec := (rn_rec s1)\<lparr>rc_dialog := d'\<rparr>, rn_temp := temp'\<rparr>) (collect_part e i temp d))
        else if has_model MODEL_RECORD d then
          cpp_bind (record_part e i (rn_recordTime s1) (rn_rec s1)) (\<lambda>res.
            Val (map_option (\<lambda>(rt, r). s1\<lparr>rn_rec := r, rn_recordTime := rt\<rparr>) res))
        else Val (Some s1))"

definition next_iteration :: "run_state \<Rightarrow> run_state" where
  "next_iteration s = s\<lparr>rn_rec := on_dialog (\<lambda>d. d\<lparr>dg_currentIteration := dg_currentIteration d + 1\<rparr>) (rn_rec s)\<rparr>"

fun iterate :: "run_env \<Rightarrow> run_input list \<Rightarrow> run_state \<Rightarrow> run_state option cpp" where
  "iterate e [] s = (let d = rc_dialog (rn_rec s) in Val (if dg_currentIteration d \<le> dg_iterations d then None else Some s))"
| "iterate e (i # is) s = (let d = rc_dialog (rn_rec s) in
     if \<not> dg_currentIteration d \<le> dg_iterations d then Val (Some s)
     else cpp_bind (run_iteration e i s) (\<lambda>res. case res of None \<Rightarrow> Val None
       | Some s1 \<Rightarrow> iterate e is (next_iteration s1)))"

subsection \<open>The whole thread\<close>

definition finish_dialog :: "ivr_dialog \<Rightarrow> ivr_dialog" where
  "finish_dialog d0 =
     (let d1 = d0\<lparr>dg_connection := NULL\<rparr>;
          d2 = (if dg_exitStatus d1 = -1 then d1\<lparr>dg_exitStatus := DIALOGEXIT_SUCCESS, dg_exitString := ''Dialog successfully completed''\<rparr> else d1);
          d3 = dlg_notifyEvent (''<dialogexit status='' @ quoted (dec_int (dg_exitStatus d2)) @ '' reason='' @ quoted (dg_exitString d2) @
            (if dg_destroy d2 \<and> dg_immediate d2 then ''/>'' else ''>'' @ dg_info d2 @ ''</dialogexit>'')) d2 in
      destroyDialog True DIALOGEXIT_SUCCESS (d3\<lparr>dg_running := False\<rparr>))"

definition file_of :: "run_env \<Rightarrow> string \<times> bool \<times> string \<Rightarrow> audio_file" where
  "file_of e f = (case f of (name, audio, dest) \<Rightarrow>
     (newAudioFile name (re_webPath e @ ''/'' @ re_recordingsPath e @ ''/'' @ name) audio)\<lparr>af_dest := dest\<rparr>)"

definition begin_run :: "run_env \<Rightarrow> recorder \<Rightarrow> ivr_dialog \<Rightarrow> run_state" where
  "begin_run e r d = \<lparr>rn_rec = r\<lparr>rc_dialog := (if dg_pAudio d then d else d\<lparr>dg_timelines := replicate TRACKS []\<rparr>)\<lparr>dg_currentIteration := 1\<rparr>,
     rc_files := map (file_of e) (dg_rDests d)\<rparr>, rn_temp = -1, rn_time = 0, rn_recordTime = 0\<rparr>"

definition dlg_run :: "run_env \<Rightarrow> int \<Rightarrow> bool \<Rightarrow> nat list \<Rightarrow> run_input list \<Rightarrow> recorder \<Rightarrow> ivr_dialog option cpp" where
  "dlg_run e mediaType has_audio rnd ins r =
     cpp_bind (setupStreams mediaType has_audio rnd ((rc_dialog r)\<lparr>dg_state := 3, dg_running := True\<rparr>)) (\<lambda>d.
     cpp_bind (iterate e ins (begin_run e r d)) (\<lambda>res.
       Val (map_option (\<lambda>s. finish_dialog (rc_dialog (rn_rec s))) res)))"

subsection \<open>What a dialog sends and why it stops\<close>

definition ivr_event :: "string \<Rightarrow> string \<Rightarrow> string" where
  "ivr_event i body = ''<mscivr version='' @ quoted ''1.0'' @ '' xmlns='' @ quoted ''urn:ietf:params:xml:ns:msc-ivr'' @
     ''><event dialogid='' @ quoted i @ ''>'' @ body @ ''</event></mscivr>''"

text \<open>A message between begin and end: a request to the connection, or a notification of a key.\<close>

definition is_note :: "string \<Rightarrow> dialog_out \<Rightarrow> bool" where
  "is_note i msg \<longleftrightarrow> msg = ClearDtmfBuffer \<or> (\<exists>b. msg = NotifyEvent (ivr_event i (''<dtmfnotify'' @ b)))"

definition halted :: "int \<Rightarrow> string \<Rightarrow> bool" where
  "halted status reason \<longleftrightarrow> status = DIALOGEXIT_MAXDURATION \<and> reason = ''Maximum dialog duration reached'' \<or>
     reason = (if status = DIALOGEXIT_CONTERMINATE then ''Connection terminated'' else ''Dialog terminated'')"

definition goes :: "bool \<Rightarrow> ivr_dialog \<Rightarrow> ivr_dialog \<Rightarrow> bool" where
  "goes calm d d' \<longleftrightarrow> dg_id d' = dg_id d \<and> dg_iterations d' = dg_iterations d \<and> dg_duration d' = dg_duration d \<and>
     (\<exists>outs. dg_out d' = dg_out d @ outs \<and> list_all (is_note (dg_id d)) outs) \<and>
     (dg_exitStatus d' = dg_exitStatus d \<and> dg_exitString d' = dg_exitString d \<and> dg_currentIteration d' = dg_currentIteration d \<or>
      \<not> calm \<and> dg_currentIteration d' = dg_iterations d \<and> halted (dg_exitStatus d') (dg_exitString d'))"

lemma goes_refl [simp, intro]: "goes q d d"
  by (simp add: goes_def)

lemma goes_trans [trans]: "goes q d d1 \<Longrightarrow> goes q d1 d2 \<Longrightarrow> goes q d d2"
proof -
  assume a: "goes q d d1" and b: "goes q d1 d2"
  obtain o1 where o1: "dg_out d1 = dg_out d @ o1" "list_all (is_note (dg_id d)) o1" using a unfolding goes_def by blast
  have i: "dg_id d1 = dg_id d" "dg_iterations d1 = dg_iterations d" "dg_duration d1 = dg_duration d" using a unfolding goes_def by blast+
  obtain o2 where "dg_out d2 = dg_out d1 @ o2" "list_all (is_note (dg_id d1)) o2" using b unfolding goes_def by blast
  with o1 i have "dg_out d2 = dg_out d @ (o1 @ o2)" "list_all (is_note (dg_id d)) (o1 @ o2)" by simp_all
  then have "\<exists>outs. dg_out d2 = dg_out d @ outs \<and> list_all (is_note (dg_id d)) outs" by blast
  with a b i show ?thesis unfolding goes_def by metis
qed

text \<open>Everything that \<open>goes\<close> looks at.\<close>

definition trail :: "ivr_dialog \<Rightarrow> string \<times> u32 \<times> u32 \<times> dialog_out list \<times> int \<times> string \<times> u32" where
  "trail d = (dg_id d, dg_iterations d, dg_duration d, dg_out d, dg_exitStatus d, dg_exitString d, dg_currentIteration d)"

lemma goes_same: "trail d' = trail d1 \<Longrightarrow> goes q d d1 \<Longrightarrow> goes q d d'"
  by (simp add: goes_def trail_def)

lemma goes_from: "trail d = trail d1 \<Longrightarrow> goes q d1 d' \<Longrightarrow> goes q d d'"
  by (simp add: goes_def trail_def)

lemma goes_trail: "trail d' = trail d \<Longrightarrow> goes q d d'"
  by (rule goes_same [OF _ goes_refl])

subsection \<open>Tones and terminations\<close>

lemma goes_notify: "(\<exists>b. body = ''<dtmfnotify'' @ b) \<Longrightarrow> goes q d (dlg_notifyEvent body d)"
  by (auto simp: goes_def dlg_notifyEvent_def is_note_def ivr_event_def)

lemma notify_all_goes: "goes q d (notify_all stamp t d)"
  by (auto simp: notify_all_def intro!: goes_notify)

lemma vcr_tone_goes: "goes q d (vcr_tone stamp t d)"
proof -
  have n: "goes q x (if c then dlg_notifyEvent body (x\<lparr>dg_vcrInfo := s\<rparr>) else x)" if "\<exists>b. body = ''<dtmfnotify'' @ b" for x c s body
  proof -
    have "trail x = trail (x\<lparr>dg_vcrInfo := s\<rparr>)" by (simp add: trail_def)
    from goes_from [OF this goes_notify [OF that]] show ?thesis by simp
  qed
  have t: "goes q d (case f of Some k \<Rightarrow> d\<lparr>dg_pVcrEvents := ks k\<rparr> | None \<Rightarrow> if b then d\<lparr>dg_termmode := m, dg_playing := c\<rparr> else d)" for f ks b m c
    by (rule goes_trail) (simp add: trail_def split: option.split)
  show ?thesis unfolding vcr_tone_def Let_def
    by (rule goes_trans [OF goes_trans [OF t n] notify_all_goes]) simp
qed

lemma collect_tone_goes: "goes q d (collect_tone stamp t d)"
proof -
  have "goes q d1 (d1\<lparr>dg_tones := ts, dg_out := dg_out d1 @ [ClearDtmfBuffer]\<rparr>)" for d1 ts by (simp add: goes_def is_note_def)
  then have c: "goes q d (d1\<lparr>dg_tones := ts, dg_out := dg_out d1 @ [ClearDtmfBuffer]\<rparr>)" if "goes q d d1" for d1 ts
    using goes_trans [OF that] by blast
  have s: "goes q d (d1\<lparr>dg_restart := b\<rparr>)" "goes q d (d1\<lparr>dg_done := b\<rparr>)" if "goes q d d1" for d1 b
    by (rule goes_same [OF _ that], simp add: trail_def)+
  show ?thesis unfolding collect_tone_def Let_def by (auto intro!: notify_all_goes c s)
qed

lemma record_tone_goes: "goes q d (record_tone stamp t d)"
proof -
  have "goes q d ((notify_all stamp t d)\<lparr>dg_termmode := m, dg_done := b\<rparr>)" for m b
    by (rule goes_same [OF _ notify_all_goes]) (simp add: trail_def)
  then show ?thesis by (simp add: record_tone_def Let_def notify_all_goes)
qed

lemma tone_goes: "goes q d (happen (Tone stamp t) d)"
proof -
  have "goes q d ((notify_all stamp t d)\<lparr>dg_termmode := m, dg_playing := b\<rparr>)" for m b
    by (rule goes_same [OF _ notify_all_goes]) (simp add: trail_def)
  then show ?thesis
    by (simp add: dlg_incomingDtmf_def vcr_tone_goes collect_tone_goes record_tone_goes notify_all_goes)
qed

lemma destroy_goes: "\<not> q \<Longrightarrow> goes q d (destroyDialog immediate status d)"
  by (simp add: goes_def destroyDialog_def halted_def Let_def)

lemma max_duration_goes: "q \<longrightarrow> dg_duration d = 0 \<Longrightarrow> over_duration startTime t d \<Longrightarrow> goes q d (max_duration d)"
  by (auto simp: goes_def max_duration_def halted_def over_duration_def)

text \<open>\<open>calm\<close> events do not end the dialog.\<close>

definition calm_event :: "dialog_event \<Rightarrow> bool" where
  "calm_event ev \<longleftrightarrow> (case ev of Tone stamp t \<Rightarrow> True | Terminate immediate status \<Rightarrow> False)"

lemma happen_goes: "q \<longrightarrow> calm_event ev \<Longrightarrow> goes q d (happen ev d)"
  by (cases ev) (auto simp: calm_event_def tone_goes destroy_goes simp del: happen.simps(1))

lemma events_go: "q \<longrightarrow> list_all calm_event evs \<Longrightarrow> goes q d (fold happen evs d)"
proof (induction evs arbitrary: d)
  case (Cons ev evs)
  have "goes q d (happen ev d)" by (rule happen_goes) (use Cons.prems in simp)
  moreover have "goes q (happen ev d) (fold happen evs (happen ev d))" by (rule Cons.IH) (use Cons.prems in simp)
  ultimately show ?case by (simp del: happen.simps) (rule goes_trans)
qed simp

lemma goes_duration: "goes q d d' \<Longrightarrow> q \<longrightarrow> dg_duration d = 0 \<Longrightarrow> q \<longrightarrow> dg_duration d' = 0"
  by (simp add: goes_def)

subsection \<open>The parts of an iteration\<close>

lemma collect_pass_goes: "collect_pass temp buf d = (temp', buf', d') \<Longrightarrow> goes q d d'"
proof -
  have t: "trail (take_tone x y) = trail y" for x y by (simp add: take_tone_def trail_def Let_def)
  have e: "trail (snd (early_tone x y)) = trail y" for x y
  proof -
    have "trail (y\<lparr>dg_done := b\<rparr>) = trail y" "trail (y\<lparr>dg_restart := b\<rparr>) = trail y" for b by (simp_all add: trail_def)
    then show ?thesis by (simp add: early_tone_def t)
  qed
  have b: "trail (snd (buffered_tones ts y)) = trail y" for ts y
  proof (induction ts arbitrary: y)
    case (Cons x ts)
    have "trail (y\<lparr>dg_done := b\<rparr>) = trail y" "trail (y\<lparr>dg_restart := b\<rparr>) = trail y" for b by (simp_all add: trail_def)
    with Cons.IH show ?case by (simp add: t Let_def)
  qed simp
  let ?d1 = "if dg_restart d then d\<lparr>dg_restart := False, dg_cClear := True, dg_out := dg_out d @ [ClearDtmfBuffer]\<rparr> else d"
  let ?d = "?d1\<lparr>dg_termmode := TERMMODE_UNKNOWN, dg_done := False, dg_tones := [], dg_state := DIALOG_STARTED\<rparr>"
  have g: "goes q d ?d" by (simp add: goes_def is_note_def)
  assume "collect_pass temp buf d = (temp', buf', d')"
  then have "trail d' = trail ?d" using e [of temp ?d] b
    by (auto simp: collect_pass_def Let_def split: prod.splits if_splits) (metis snd_conv)+
  from goes_same [OF this g] show ?thesis .
qed

lemma collect_start_goes:
  assumes "collect_start temp buf d = Some r"
  shows "goes q d (snd (snd r))"
proof (rule collect_start.raw_induct [where P = "\<lambda>temp buf d r. goes q d (snd (snd r))", OF _ assms])
  fix rec temp buf d r
  assume IH: "\<And>temp buf d r. rec temp buf d = Some r \<Longrightarrow> goes q d (snd (snd r))"
    and eq: "(case collect_pass temp buf d of (temp', buf', d') \<Rightarrow> if dg_restart d' then rec temp' buf' d' else Some (temp', buf', d')) = Some r"
  obtain temp' buf' d' where p: "collect_pass temp buf d = (temp', buf', d')" by (metis prod_cases3)
  have g: "goes q d d'" by (rule collect_pass_goes [OF p])
  show "goes q d (snd (snd r))"
  proof (cases "dg_restart d'")
    case True
    with eq p have "rec temp' buf' d' = Some r" by simp
    from goes_trans [OF g IH [OF this]] show ?thesis .
  next
    case False
    with eq p g show ?thesis by auto
  qed
qed

definition calm_turns :: "turn list \<Rightarrow> bool" where
  "calm_turns tns \<longleftrightarrow> list_all (\<lambda>tn. list_all calm_event (tn_events tn)) tns"

lemma stop_goes: "goes q d ((max_duration d)\<lparr>dg_destroy := True\<rparr>)" if "q \<longrightarrow> dg_duration d = 0" "over_duration startTime t d"
  by (rule goes_same [OF _ max_duration_goes [OF that]]) (simp add: trail_def)

lemma if_chain: "(if a then Some x else if b then Some y else if c then Some x else if e then Some z else w) = Some r \<Longrightarrow>
    r = x \<or> b \<and> r = y \<or> r = z \<or> w = Some r"
  by (auto split: if_splits)

lemma collect_wait_goes:
  "collect_wait startTime b tns latest seen d = Some d' \<Longrightarrow> q \<longrightarrow> dg_duration d = 0 \<and> calm_turns tns \<Longrightarrow> goes q d d'"
proof (induction tns arbitrary: latest seen d)
  case Nil
  then show ?case by (simp split: if_splits)
next
  case (Cons tn tns)
  let ?d1 = "if seen < length (dg_tones d) \<and> unat (dg_cMaxdigits d) \<le> length (dg_tones d) then d\<lparr>dg_done := True\<rparr> else d"
  let ?latest = "if seen < length (dg_tones d) then tn_collect tn else latest"
  let ?d2 = "fold happen (tn_events tn) ?d1"
  have g1: "goes q d ?d1" by (rule goes_trail) (simp add: trail_def)
  have "goes q ?d1 ?d2" by (rule events_go) (use Cons.prems in \<open>simp add: calm_turns_def\<close>)
  then have g2: "goes q d ?d2" by (rule goes_trans [OF g1])
  have q: "q \<longrightarrow> dg_duration d = 0" using Cons.prems by blast
  consider "d' = d" | "over_duration startTime (tn_timer tn) d" "d' = (max_duration d)\<lparr>dg_destroy := True\<rparr>" | "d' = ?d1"
    | "collect_wait startTime b tns ?latest (length (dg_tones d)) ?d2 = Some d'"
    using if_chain [OF Cons.prems(1) [unfolded collect_wait.simps Let_def]] by blast
  then show ?case
  proof cases
    case 2
    with stop_goes [OF q] show ?thesis by simp
  next
    case 4
    have "q \<longrightarrow> dg_duration ?d2 = 0 \<and> calm_turns tns"
      using goes_duration [OF g2 q] Cons.prems(2) by (simp add: calm_turns_def)
    from goes_trans [OF g2 Cons.IH [OF 4 this]] show ?thesis .
  qed (use g1 in simp_all)
qed

lemma collect_digits_goes:
  assumes "collect_digits startTime b tns d = Some d'" and "q \<longrightarrow> dg_duration d = 0 \<and> calm_turns tns"
  shows "goes q d d'"
proof -
  let ?d = "d\<lparr>dg_collecting := True, dg_cMatch := True\<rparr>"
  have s: "goes q d (x\<lparr>dg_done := True\<rparr>)" if "goes q d x" for x
    by (rule goes_same [OF _ that]) (simp add: trail_def)
  have g: "goes q d ?d" by (rule goes_trail) (simp add: trail_def)
  have w: "goes q d d1" if "collect_wait startTime b tns b 0 ?d = Some d1" for d1
    by (rule goes_trans [OF g collect_wait_goes [OF that]]) (use assms(2) in simp)
  show ?thesis using assms(1) unfolding collect_digits_def Let_def
    by (auto split: if_splits intro!: s g intro: w)
qed

lemma collect_phase_goes:
  "collect_phase startTime runs temp buf d = Some (temp', d') \<Longrightarrow> q \<longrightarrow> dg_duration d = 0 \<and> list_all (\<lambda>r. calm_turns (snd r)) runs \<Longrightarrow> goes q d d'"
proof (induction startTime runs temp buf d rule: collect_phase.induct)
  case (2 startTime b tns runs temp buf d)
  from "2.prems"(1) obtain t1 b1 d1 d2 where c: "collect_start temp buf d = Some (t1, b1, d1)" "collect_digits startTime b tns d1 = Some d2"
      "if dg_restart d2 then collect_phase startTime runs t1 b1 d2 = Some (temp', d') else d' = d2"
    by (auto split: option.splits if_splits prod.splits)
  have g1: "goes q d d1" using collect_start_goes [OF c(1)] by simp
  have q1: "q \<longrightarrow> dg_duration d1 = 0" by (rule goes_duration [OF g1]) (use "2.prems"(2) in blast)
  have g2: "goes q d d2" by (rule goes_trans [OF g1 collect_digits_goes [OF c(2)]]) (use q1 "2.prems"(2) in simp)
  show ?case
  proof (cases "dg_restart d2")
    case True
    have "q \<longrightarrow> dg_duration d2 = 0" by (rule goes_duration [OF g2]) (use "2.prems"(2) in blast)
    then have "goes q d2 d'" using "2.IH" [OF c(1) refl refl c(2) True] True c(3) "2.prems"(2) by simp
    then show ?thesis by (rule goes_trans [OF g2])
  next
    case False
    with g2 c(3) show ?thesis by simp
  qed
qed simp

lemma collect_report_goes: "goes q d (collect_report stamp d)"
proof -
  have a: "goes q d (add_info s x)" if "goes q d x" for s x
    by (rule goes_same [OF _ that]) (simp add: add_info_def trail_def)
  have c: "goes q d (d\<lparr>dg_collecting := False\<rparr>)" by (rule goes_trail) (simp add: trail_def)
  have n: "goes q d (dlg_notifyEvent (''<dtmfnotify'' @ x) (d\<lparr>dg_collecting := False\<rparr>))" for x
    by (rule goes_trans [OF c goes_notify]) blast
  have i: "goes q d (collect_info x s)" if "goes q d x" for s x
  proof -
    have "goes q d (x\<lparr>dg_termmode := m\<rparr>)" for m by (rule goes_same [OF _ that]) (simp add: trail_def)
    with that show ?thesis by (simp add: collect_info_def a Let_def)
  qed
  show ?thesis unfolding collect_report_def Let_def using n [simplified]
    by (auto intro!: a c i)
qed

lemma play_wait_goes:
  "play_wait startTime tns start d p = Some d' \<Longrightarrow> q \<longrightarrow> dg_duration d = 0 \<and> list_all (\<lambda>tn. list_all calm_event (pt_events tn)) tns \<Longrightarrow> goes q d d'"
proof (induction tns arbitrary: start d p)
  case Nil
  then show ?case by (simp split: if_splits)
next
  case (Cons tn tns)
  obtain d1 p1 where v: "vcr_controls start d p = (d1, p1)" by (cases "vcr_controls start d p")
  let ?d2 = "fold happen (pt_events tn) d1"
  have g1: "goes q d d1" using v by (intro goes_trail) (auto simp: vcr_controls_def trail_def)
  have "goes q d1 ?d2" by (rule events_go) (use Cons.prems in simp)
  then have g2: "goes q d ?d2" by (rule goes_trans [OF g1])
  have q: "q \<longrightarrow> dg_duration d = 0" using Cons.prems by blast
  have c: "(if a then Some x else if b then Some y else if c then Some x else if e then u else w) = Some r \<Longrightarrow>
      r = x \<or> b \<and> r = y \<or> u = Some r \<or> w = Some r" for a b c e and x y r :: ivr_dialog and u w
    by (auto split: if_splits)
  consider "d' = d" | "over_duration startTime (pt_timer tn) d" "d' = (max_duration d)\<lparr>dg_destroy := True\<rparr>"
    | st p2 where "play_wait startTime tns st ?d2 p2 = Some d'"
    using c [OF Cons.prems(1) [unfolded play_wait.simps v prod.case Let_def]] by blast
  then show ?case
  proof cases
    case 2
    with stop_goes [OF q] show ?thesis by simp
  next
    case 3
    have "q \<longrightarrow> dg_duration ?d2 = 0 \<and> list_all (\<lambda>tn. list_all calm_event (pt_events tn)) tns"
      using goes_duration [OF g2 q] Cons.prems(2) by simp
    from goes_trans [OF g2 Cons.IH [OF 3 this]] show ?thesis .
  qed simp
qed

definition calm_record_event :: "record_event \<Rightarrow> bool" where
  "calm_record_event ev \<longleftrightarrow> (case ev of Frame m fr s \<Rightarrow> True | Other e \<Rightarrow> calm_event e)"

text \<open>An iteration in which no other thread ends the dialog.\<close>

definition calm_input :: "run_input \<Rightarrow> bool" where
  "calm_input i \<longleftrightarrow> list_all (\<lambda>tn. list_all calm_event (pt_events tn)) (in_play i) \<and>
     list_all (\<lambda>r. calm_turns (snd r)) (in_collect i) \<and>
     (case in_beep i of None \<Rightarrow> True | Some fs \<Rightarrow> list_all (list_all calm_event) fs) \<and>
     list_all (\<lambda>tn. list_all calm_record_event (rt_events tn)) (in_record i)"

lemma prompt_report_goes: "goes q d (prompt_report time d)"
proof -
  have t: "goes q d (d\<lparr>dg_termmode := m\<rparr>)" for m by (rule goes_trail) (simp add: trail_def)
  have "goes q d (add_info s x)" if "goes q d x" for s x
    by (rule goes_same [OF _ that]) (simp add: add_info_def trail_def)
  with t show ?thesis unfolding prompt_report_def Let_def by auto
qed

lemma early_bargein_goes: "early_bargein temp buf d = (temp', play, d') \<Longrightarrow> goes q d d'"
  by (rule goes_trail) (auto simp: early_bargein_def trail_def Let_def split: if_splits list.splits)

lemma prompt_part_goes:
  assumes "prompt_part e i (temp, time, d) = Some (temp', time', d')" and "q \<longrightarrow> dg_duration d = 0 \<and> calm_input i"
  shows "goes q d d'"
proof (cases "has_model MODEL_PROMPT d")
  case False
  with assms(1) show ?thesis by (simp add: prompt_part_def)
next
  case True
  obtain temp1 play d1 where b: "early_bargein temp (in_early i) d = (temp1, play, d1)" by (cases "early_bargein temp (in_early i) d")
  have g: "goes q d d1" by (rule early_bargein_goes [OF b])
  have r: "goes q d (prompt_report x d2)" if "goes q d d2" for x d2 by (rule goes_trans [OF that prompt_report_goes])
  have p: "goes q d d2" if pl: "playAnnouncements (re_startTime e) (in_start i) (in_play i) d1 = Some d2" for d2
  proof -
    let ?d = "d1\<lparr>dg_state := DIALOG_STARTED, dg_playing := True, dg_pVcrEvents := []\<rparr>"
    obtain d3 where d3: "play_wait (re_startTime e) (in_play i) (in_start i) ?d newPlayback = Some d3" "d3\<lparr>dg_playing := False\<rparr> = d2"
      using pl unfolding playAnnouncements_def map_option_eq_Some by blast
    have "goes q d ?d" by (rule goes_same [OF _ g]) (simp add: trail_def)
    moreover have "goes q ?d d3"
      by (rule play_wait_goes [OF d3(1)]) (use assms(2) goes_duration [OF g] in \<open>auto simp: calm_input_def\<close>)
    ultimately have "goes q d d3" by (rule goes_trans)
    moreover have "trail d2 = trail d3" unfolding d3(2) [symmetric] by (simp add: trail_def)
    ultimately show ?thesis using goes_same by blast
  qed
  from assms(1) True b show ?thesis
    by (auto simp: prompt_part_def split: if_splits intro: r g p)
qed

lemma collect_part_goes:
  assumes "collect_part e i temp d = Some (temp', d')" and "q \<longrightarrow> dg_duration d = 0 \<and> calm_input i"
  shows "goes q d d'"
proof -
  obtain d1 where "collect_phase (re_startTime e) (in_collect i) temp (in_tones i) d = Some (temp', d1)" "d' = collect_report (in_stamp i) d1"
    using assms(1) by (auto simp: collect_part_def)
  with collect_phase_goes [of _ _ _ _ d temp' d1 q] assms(2) show ?thesis
    by (auto simp: calm_input_def intro: goes_trans [OF _ collect_report_goes])
qed

lemma play_beep_goes:
  assumes "q \<longrightarrow> (case fs of None \<Rightarrow> True | Some l \<Rightarrow> list_all (list_all calm_event) l)"
  shows "goes q d (playBeep fs d)"
proof (cases fs)
  case (Some l)
  have w: "goes q x (beep_wait l x)" if "q \<longrightarrow> list_all (list_all calm_event) l" for x
    using that
  proof (induction l arbitrary: x)
    case (Cons evs l)
    have "goes q x (fold happen evs x)" by (rule events_go) (use Cons.prems in simp)
    moreover have "goes q (fold happen evs x) (beep_wait l (fold happen evs x))" by (rule Cons.IH) (use Cons.prems in simp)
    ultimately have "goes q x (beep_wait l (fold happen evs x))" by (rule goes_trans)
    then show ?case by simp
  qed simp
  let ?d = "d\<lparr>dg_playing := True\<rparr>"
  have "goes q d ?d" by (rule goes_trail) (simp add: trail_def)
  moreover have "goes q ?d (beep_wait l ?d)" by (rule w) (use assms Some in simp)
  ultimately have b: "goes q d (beep_wait l ?d)" by (rule goes_trans)
  have "goes q d ((beep_wait l ?d)\<lparr>dg_playing := False\<rparr>)" by (rule goes_same [OF _ b]) (simp add: trail_def)
  then show ?thesis by (simp add: playBeep_def Some)
qed (simp add: playBeep_def)

subsection \<open>The recording\<close>

abbreviation (input) rtrail :: "recorder \<Rightarrow> string \<times> u32 \<times> u32 \<times> dialog_out list \<times> int \<times> string \<times> u32" where
  "rtrail r \<equiv> trail (rc_dialog r)"

abbreviation (input) rgoes :: "bool \<Rightarrow> recorder \<Rightarrow> recorder \<Rightarrow> bool" where
  "rgoes q r r' \<equiv> goes q (rc_dialog r) (rc_dialog r')"

lemma voice_trail: "voice fr s r = Val r' \<Longrightarrow> rtrail r' = rtrail r"
  by (auto simp: voice_def Let_def trail_def cpp_bind_Val split: if_splits)

lemma incomingFrame_trail:
  assumes "dlg_incomingFrame decoded written con subcon conMedia fr s r = Val r'"
  shows "rtrail r' = rtrail r"
proof -
  have "r' = r \<or> (\<exists>r1. voice fr s r = Val r1 \<and> rc_dialog r' = rc_dialog r1)"
    using assms by (auto simp: dlg_incomingFrame_def Let_def cpp_bind_Val split: if_split_asm option.split_asm)
  with voice_trail show ?thesis by metis
qed

lemma record_events_go:
  "record_events decoded written evs r = Val r' \<Longrightarrow> q \<longrightarrow> list_all calm_record_event evs \<Longrightarrow> rgoes q r r'"
proof (induction evs arbitrary: r)
  case (Cons ev evs)
  obtain r1 where r1: "record_happen decoded written ev r = Val r1" "record_events decoded written evs r1 = Val r'"
    using Cons.prems(1) by (auto simp: cpp_bind_Val)
  have "rgoes q r r1"
  proof (cases ev)
    case (Frame m fr s)
    with r1(1) show ?thesis by (auto intro!: goes_trail dest!: incomingFrame_trail)
  next
    case (Other e)
    with Cons.prems(2) have "q \<longrightarrow> calm_event e" by (simp add: calm_record_event_def)
    from happen_goes [OF this] r1(1) show ?thesis by (auto simp: Other simp del: happen.simps)
  qed
  moreover have "rgoes q r1 r'" by (rule Cons.IH [OF r1(2)]) (use Cons.prems(2) in simp)
  ultimately show ?case by (rule goes_trans)
qed simp

lemma stop_as_trail [simp]: "rtrail (stop_as m r) = rtrail r"
  by (simp add: stop_as_def on_dialog_def trail_def)

lemma checks_trail:
  "check_silence tn r = Val r' \<Longrightarrow> rtrail r' = rtrail r" "rtrail (check_noinput ts tn r) = rtrail r"
  "rtrail (begin_recording tn r) = rtrail r" "rtrail (check_maxtime tn r) = rtrail r"
proof -
  show "check_silence tn r = Val r' \<Longrightarrow> rtrail r' = rtrail r" by (auto simp: check_silence_def Let_def split: if_splits)
  show "rtrail (check_noinput ts tn r) = rtrail r" by (simp add: check_noinput_def Let_def)
  have "trail (d\<lparr>dg_rSilencestart := x\<rparr>) = trail d" for d x by (simp add: trail_def)
  then show "rtrail (begin_recording tn r) = rtrail r" by (simp add: begin_recording_def on_dialog_def Let_def)
  show "rtrail (check_maxtime tn r) = rtrail r" by (simp add: check_maxtime_def Let_def split: option.split)
qed

text \<open>Three ways out of a turn, or the next one.\<close>

lemma record_wait_turn:
  assumes "record_wait decoded written st ts (tn # tns) r = Val (Some r')"
  shows "rtrail r' = rtrail r \<or> (over_duration st (rt_timer tn) (rc_dialog r) \<and> rc_dialog r' = (max_duration (rc_dialog r))\<lparr>dg_done := True\<rparr>) \<or>
     (\<exists>r2 r3. rtrail r2 = rtrail r \<and> record_events decoded written (rt_events tn) r2 = Val r3 \<and>
        record_wait decoded written st ts tns r3 = Val (Some r'))"
proof -
  define r0 where "r0 = (if 0 < dg_duration (rc_dialog r) then r\<lparr>rc_time := rt_timer tn\<rparr> else r)"
  have r0: "rc_dialog r0 = rc_dialog r" by (simp add: r0_def)
  note e = assms [unfolded record_wait.simps Let_def, folded r0_def]
  show ?thesis
  proof (cases "over r \<or> over_duration st (rt_timer tn) (rc_dialog r0)")
    case True
    with e r0 show ?thesis by (auto simp: on_dialog_def split: if_split_asm)
  next
    case False
    with e obtain r1 where r1: "check_silence tn r0 = Val r1"
        "(if over r1 then Val (Some r1) else if dg_done (rc_dialog (check_maxtime tn (begin_recording tn (check_noinput ts tn r1))))
          then Val (Some (check_maxtime tn (begin_recording tn (check_noinput ts tn r1))))
          else cpp_bind (record_events decoded written (rt_events tn) (check_maxtime tn (begin_recording tn (check_noinput ts tn r1))))
            (record_wait decoded written st ts tns)) = Val (Some r')"
      by (auto simp: cpp_bind_Val)
    let ?r2 = "check_maxtime tn (begin_recording tn (check_noinput ts tn r1))"
    have "rtrail r1 = rtrail r" using checks_trail(1) [OF r1(1)] r0 by simp
    then have "rtrail ?r2 = rtrail r" "rtrail r1 = rtrail r" by (simp_all add: checks_trail)
    with r1(2) show ?thesis by (auto simp: cpp_bind_Val split: if_split_asm)
  qed
qed

definition calm_record :: "rec_turn list \<Rightarrow> bool" where
  "calm_record tns \<longleftrightarrow> list_all (\<lambda>tn. list_all calm_record_event (rt_events tn)) tns"

lemma record_wait_goes:
  "record_wait decoded written st ts tns r = Val (Some r') \<Longrightarrow> q \<longrightarrow> dg_duration (rc_dialog r) = 0 \<and> calm_record tns \<Longrightarrow> rgoes q r r'"
proof (induction tns arbitrary: r)
  case Nil
  then show ?case by (simp split: if_splits)
next
  case (Cons tn tns)
  have q: "q \<longrightarrow> dg_duration (rc_dialog r) = 0" using Cons.prems by blast
  from record_wait_turn [OF Cons.prems(1)] consider "rtrail r' = rtrail r"
    | "over_duration st (rt_timer tn) (rc_dialog r)" "rc_dialog r' = (max_duration (rc_dialog r))\<lparr>dg_done := True\<rparr>"
    | r2 r3 where "rtrail r2 = rtrail r" "record_events decoded written (rt_events tn) r2 = Val r3"
      "record_wait decoded written st ts tns r3 = Val (Some r')" by blast
  then show ?case
  proof cases
    case 1
    then show ?thesis by (rule goes_trail)
  next
    case 2
    show ?thesis unfolding 2(2) by (rule goes_same [OF _ max_duration_goes [OF q 2(1)]]) (simp add: trail_def)
  next
    case 3
    have "rgoes q r r2" by (rule goes_trail [OF 3(1)])
    moreover have "rgoes q r2 r3" by (rule record_events_go [OF 3(2)]) (use Cons.prems(2) in \<open>simp add: calm_record_def\<close>)
    ultimately have g: "rgoes q r r3" by (rule goes_trans)
    have "rgoes q r3 r'" by (rule Cons.IH [OF 3(3)]) (use goes_duration [OF g q] Cons.prems(2) in \<open>simp add: calm_record_def\<close>)
    with g show ?thesis by (rule goes_trans)
  qed
qed

lemma record_phase_goes:
  assumes "record_phase decoded written st ts tns r = Val (Some r')" and "q \<longrightarrow> dg_duration (rc_dialog r) = 0 \<and> calm_record tns"
  shows "rgoes q r r'"
proof -
  let ?r = "on_dialog (\<lambda>d. d\<lparr>dg_state := DIALOG_STARTED, dg_recording := True, dg_rInput := (\<not> dg_rVadinitial d \<or> \<not> dg_rAudio d)\<rparr>)
      (r\<lparr>rc_start := None, rc_time := 0\<rparr>)"
  obtain r1 where r1: "record_wait decoded written st ts tns ?r = Val (Some r1)" "rtrail r' = rtrail r1"
    using assms(1) by (auto simp: record_phase_def Let_def cpp_bind_Val on_dialog_def trail_def split: option.splits)
  have "rgoes q r ?r" by (rule goes_trail) (simp add: on_dialog_def trail_def)
  moreover have "rgoes q ?r r1" by (rule record_wait_goes [OF r1(1)]) (use assms(2) in \<open>simp add: on_dialog_def\<close>)
  ultimately have "rgoes q r r1" by (rule goes_trans)
  then show ?thesis by (rule goes_same [OF r1(2)])
qed

lemma record_report_trail: "record_report e rt r = Val r' \<Longrightarrow> rtrail r' = rtrail r"
  by (auto simp: record_report_def Let_def cpp_bind_Val on_dialog_def add_info_def trail_def split: if_split_asm)

lemma record_part_goes:
  assumes "record_part e i rt r = Val (Some (rt', r'))" and "q \<longrightarrow> dg_duration (rc_dialog r) = 0 \<and> calm_input i"
  shows "rgoes q r r'"
proof -
  obtain r1 where r1: "open_files (in_opens i) r = Val r1"
      "cpp_bind (record_phase (re_decoded e) (re_written e) (re_startTime e) (in_timeoutStart i) (in_record i)
        (if dg_rBeep (rc_dialog r1) then on_dialog (playBeep (in_beep i)) r1 else r1)) (\<lambda>res. case res of None \<Rightarrow> Val None
       | Some r3 \<Rightarrow> cpp_bind (record_report e (if dg_rAppend (rc_dialog r3) then rt + rc_time r3 else rc_time r3) r3) (\<lambda>r4.
           Val (Some ((if dg_rAppend (rc_dialog r3) then rt + rc_time r3 else rc_time r3), r4)))) = Val (Some (rt', r'))"
    using assms(1) unfolding record_part_def Let_def cpp_bind_Val by blast
  define r2 where "r2 = (if dg_rBeep (rc_dialog r1) then on_dialog (playBeep (in_beep i)) r1 else r1)"
  obtain r3 where r3: "record_phase (re_decoded e) (re_written e) (re_startTime e) (in_timeoutStart i) (in_record i) r2 = Val (Some r3)"
      "rtrail r' = rtrail r3"
    using r1(2) [folded r2_def] by (auto simp: cpp_bind_Val dest: record_report_trail split: option.split_asm)
  have "rtrail r1 = rtrail r" using r1(1) by (auto simp: open_files_def Let_def cpp_bind_Val trail_def split: if_split_asm)
  then have g1: "rgoes q r r1" by (rule goes_trail)
  have "rgoes q r1 r2" using play_beep_goes [of q "in_beep i" "rc_dialog r1"] assms(2) by (auto simp: r2_def on_dialog_def calm_input_def)
  then have g2: "rgoes q r r2" by (rule goes_trans [OF g1])
  have "q \<longrightarrow> dg_duration (rc_dialog r2) = 0" by (rule goes_duration [OF g2]) (use assms(2) in blast)
  then have "rgoes q r2 r3" by (intro record_phase_goes [OF r3(1)]) (use assms(2) in \<open>simp add: calm_input_def calm_record_def\<close>)
  then have "rgoes q r r3" by (rule goes_trans [OF g2])
  then show ?thesis by (rule goes_same [OF r3(2)])
qed

subsection \<open>Iterations\<close>

abbreviation (input) run_dialog :: "run_state \<Rightarrow> ivr_dialog" where
  "run_dialog s \<equiv> rc_dialog (rn_rec s)"

lemma begin_iteration_goes: "goes q d (begin_iteration d)"
  by (simp add: begin_iteration_def goes_def is_note_def Let_def)

lemma run_iteration_goes:
  assumes "run_iteration e i s = Val (Some s')" and "q \<longrightarrow> dg_duration (run_dialog s) = 0 \<and> calm_input i"
  shows "goes q (run_dialog s) (run_dialog s')"
proof -
  let ?d0 = "begin_iteration (run_dialog s)"
  obtain temp time d where p: "prompt_part e i (rn_temp s, rn_time s, ?d0) = Some (temp, time, d)"
    using assms(1) by (auto simp: run_iteration_def split: option.splits)
  have g0: "goes q (run_dialog s) ?d0" by (rule begin_iteration_goes)
  have q0: "q \<longrightarrow> dg_duration ?d0 = 0" by (rule goes_duration [OF g0]) (use assms(2) in blast)
  have g: "goes q (run_dialog s) d" by (rule goes_trans [OF g0 prompt_part_goes [OF p]]) (use q0 assms(2) in blast)
  have q: "q \<longrightarrow> dg_duration d = 0 \<and> calm_input i" using goes_duration [OF g] assms(2) by blast
  let ?s = "s\<lparr>rn_rec := (rn_rec s)\<lparr>rc_dialog := d\<rparr>, rn_temp := temp, rn_time := time\<rparr>"
  consider "run_dialog s' = d" | t where "collect_part e i temp d = Some (t, run_dialog s')"
    | rt' where "record_part e i (rn_recordTime s) (rn_rec ?s) = Val (Some (rt', rn_rec s'))"
    using assms(1) p by (auto simp: run_iteration_def Let_def cpp_bind_Val split: if_split_asm)
  then show ?thesis
  proof cases
    case 1
    with g show ?thesis by simp
  next
    case 2
    from goes_trans [OF g collect_part_goes [OF 2 q]] show ?thesis .
  next
    case 3
    have "goes q d (run_dialog s')" using record_part_goes [OF 3, of q] q by simp
    with g show ?thesis by (rule goes_trans)
  qed
qed

text \<open>Up to the end of the loop: what was sent, and the exit of the dialog if something stopped it.\<close>

definition went :: "ivr_dialog \<Rightarrow> ivr_dialog \<Rightarrow> bool" where
  "went d d' \<longleftrightarrow> dg_id d' = dg_id d \<and> (\<exists>outs. dg_out d' = dg_out d @ outs \<and> list_all (is_note (dg_id d)) outs) \<and>
     (dg_exitStatus d' = dg_exitStatus d \<and> dg_exitString d' = dg_exitString d \<or> halted (dg_exitStatus d') (dg_exitString d'))"

lemma went_refl [simp]: "went d d"
  by (simp add: went_def)

lemma went_step: "goes q d d1 \<Longrightarrow> went (d1\<lparr>dg_currentIteration := n\<rparr>) d2 \<Longrightarrow> went d d2"
proof -
  assume g: "goes q d d1" and w: "went (d1\<lparr>dg_currentIteration := n\<rparr>) d2"
  obtain o1 where o1: "dg_out d1 = dg_out d @ o1" "list_all (is_note (dg_id d)) o1" using g unfolding goes_def by blast
  have i: "dg_id d1 = dg_id d" using g unfolding goes_def by blast
  obtain o2 where "dg_out d2 = dg_out d1 @ o2" "list_all (is_note (dg_id d1)) o2" using w by (auto simp: went_def)
  with o1 i have "dg_out d2 = dg_out d @ (o1 @ o2)" "list_all (is_note (dg_id d)) (o1 @ o2)" by simp_all
  then have "\<exists>outs. dg_out d2 = dg_out d @ outs \<and> list_all (is_note (dg_id d)) outs" by blast
  with g w show ?thesis by (auto simp: went_def goes_def)
qed

lemma next_dialog [simp]: "run_dialog (next_iteration s) = (run_dialog s)\<lparr>dg_currentIteration := dg_currentIteration (run_dialog s) + 1\<rparr>"
  by (simp add: next_iteration_def on_dialog_def)

lemma iterate_went: "iterate e ins s = Val (Some s') \<Longrightarrow> went (run_dialog s) (run_dialog s')"
proof (induction ins arbitrary: s)
  case Nil
  then show ?case by (simp add: Let_def split: if_splits)
next
  case (Cons i ins)
  show ?case
  proof (cases "dg_currentIteration (run_dialog s) \<le> dg_iterations (run_dialog s)")
    case True
    then obtain s1 where s1: "run_iteration e i s = Val (Some s1)" "iterate e ins (next_iteration s1) = Val (Some s')"
      using Cons.prems by (auto simp: Let_def cpp_bind_Val split: option.split_asm)
    have "went (run_dialog (next_iteration s1)) (run_dialog s')" by (rule Cons.IH [OF s1(2)])
    then have w: "went ((run_dialog s1)\<lparr>dg_currentIteration := dg_currentIteration (run_dialog s1) + 1\<rparr>) (run_dialog s')" by simp
    have "goes False (run_dialog s) (run_dialog s1)" by (rule run_iteration_goes [OF s1(1)]) simp
    from went_step [OF this w] show ?thesis .
  qed (use Cons.prems in simp)
qed

text \<open>A dialog that was stopped in an iteration does not begin another one.\<close>

lemma u32_next: "x < - 1 \<Longrightarrow> unat (x + 1) = unat x + 1" for x :: u32
proof -
  assume "x < - 1"
  then have "1 + x \<noteq> 0" by (metis add.commute eq_neg_iff_add_eq_0 order_less_irrefl)
  from unatSuc [OF this] show ?thesis by (simp add: add.commute)
qed

lemma stopped_iteration_is_last:
  assumes "run_iteration e i s = Val (Some s1)" and "dg_currentIteration (run_dialog s) \<le> dg_iterations (run_dialog s)"
    and "dg_iterations (run_dialog s) < - 1" and "dg_exitStatus (run_dialog s1) \<noteq> dg_exitStatus (run_dialog s)"
  shows "iterate e (i # ins) s = Val (Some (next_iteration s1))"
proof -
  have "goes False (run_dialog s) (run_dialog s1)" by (rule run_iteration_goes [OF assms(1)]) simp
  with assms(4) have c: "dg_currentIteration (run_dialog s1) = dg_iterations (run_dialog s)" "dg_iterations (run_dialog s1) = dg_iterations (run_dialog s)"
    by (auto simp: goes_def)
  have "\<not> dg_iterations (run_dialog s) + 1 \<le> dg_iterations (run_dialog s)"
    using u32_next [OF assms(3)] by (simp add: word_le_nat_alt)
  then have "iterate e ins (next_iteration s1) = Val (Some (next_iteration s1))" using c by (cases ins) (simp_all add: Let_def)
  then show ?thesis using assms(1,2) by (simp add: Let_def)
qed

text \<open>Nothing is skipped in a dialog that nobody ends.\<close>

lemma calm_iterations:
  "iterate e ins s = Val (Some s') \<Longrightarrow> dg_duration (run_dialog s) = 0 \<Longrightarrow> list_all calm_input ins \<Longrightarrow>
    unat (dg_currentIteration (run_dialog s)) + n = unat (dg_iterations (run_dialog s)) + 1 \<Longrightarrow> dg_iterations (run_dialog s) < - 1 \<Longrightarrow>
    n \<le> length ins \<and> iterate e (take n ins) s = Val (Some s') \<and> (\<forall>k<n. iterate e (take k ins) s = Val None) \<and>
    dg_exitStatus (run_dialog s') = dg_exitStatus (run_dialog s)"
proof (induction n arbitrary: s ins)
  case 0
  then have "\<not> dg_currentIteration (run_dialog s) \<le> dg_iterations (run_dialog s)" by (simp add: word_le_nat_alt)
  with 0 show ?case by (cases ins) (auto simp: Let_def)
next
  case (Suc n)
  have le: "dg_currentIteration (run_dialog s) \<le> dg_iterations (run_dialog s)" using Suc.prems(4) by (simp add: word_le_nat_alt)
  then obtain i rest where ins: "ins = i # rest" using Suc.prems(1) by (cases ins) (auto simp: Let_def)
  from Suc.prems(1) le obtain s1 where s1: "run_iteration e i s = Val (Some s1)" "iterate e rest (next_iteration s1) = Val (Some s')"
    by (auto simp: ins Let_def cpp_bind_Val split: option.split_asm)
  have "goes True (run_dialog s) (run_dialog s1)" by (rule run_iteration_goes [OF s1(1)]) (use Suc.prems ins in simp)
  then have c: "dg_currentIteration (run_dialog s1) = dg_currentIteration (run_dialog s)" "dg_iterations (run_dialog s1) = dg_iterations (run_dialog s)"
      "dg_duration (run_dialog s1) = dg_duration (run_dialog s)" "dg_exitStatus (run_dialog s1) = dg_exitStatus (run_dialog s)"
    by (auto simp: goes_def)
  have "dg_currentIteration (run_dialog s) < - 1" using le Suc.prems(5) by (rule le_less_trans)
  from u32_next [OF this] have "unat (dg_currentIteration (run_dialog s) + 1) = unat (dg_currentIteration (run_dialog s)) + 1" .
  with Suc.IH [OF s1(2)] Suc.prems c ins
  have h: "n \<le> length rest" "iterate e (take n rest) (next_iteration s1) = Val (Some s')"
      "k < n \<Longrightarrow> iterate e (take k rest) (next_iteration s1) = Val None" "dg_exitStatus (run_dialog s') = dg_exitStatus (run_dialog s)" for k by simp_all
  have t: "iterate e (take (Suc k) ins) s = iterate e (take k rest) (next_iteration s1)" for k using s1(1) le ins by (simp add: Let_def)
  have z: "iterate e (take 0 ins) s = Val None" using le by (simp add: Let_def)
  have "iterate e (take k ins) s = Val None" if "k < Suc n" for k
  proof (cases k)
    case 0
    with z show ?thesis by simp
  next
    case (Suc j)
    with that t [of j] h(3) [of j] show ?thesis by (simp only: Suc_less_eq)
  qed
  moreover have "iterate e (take (Suc n) ins) s = Val (Some s')" unfolding t by (rule h(2))
  moreover have "Suc n \<le> length ins" using h(1) ins by simp
  ultimately show ?case using h(4) by blast
qed

subsection \<open>The end of a dialog\<close>

lemma setup_trail:
  assumes "setupStreams mediaType has_audio rnd d = Val d'"
  shows "trail d' = trail d"
proof -
  have "trail (apply_stream s x) = trail x" for s x by (cases s) (simp add: apply_stream_def trail_def)
  then have f: "trail (fold apply_stream ss x) = trail x" for ss x by (induction ss arbitrary: x) simp_all
  have "trail (default_streams mediaType has_audio d) = trail d" by (simp add: default_streams_def trail_def)
  moreover have "trail (x\<lparr>dg_rType := t\<rparr>) = trail x" "trail (addRecordingType rnd dest a t x) = trail x" for x t dest a
    by (simp_all add: trail_def addRecordingType_def)
  ultimately show ?thesis using assms f by (auto simp: setupStreams_def Let_def split: if_split_asm)
qed

definition exit_event :: "string \<Rightarrow> int \<Rightarrow> string \<Rightarrow> string \<Rightarrow> dialog_out" where
  "exit_event i status reason info =
     NotifyEvent (ivr_event i (''<dialogexit status='' @ quoted (dec_int status) @ '' reason='' @ quoted reason @ info))"

lemma finish_reports:
  assumes "status = (if dg_exitStatus d = -1 then DIALOGEXIT_SUCCESS else dg_exitStatus d)"
    and "reason = (if dg_exitStatus d = -1 then ''Dialog successfully completed'' else dg_exitString d)"
  shows "\<exists>info. dg_out (finish_dialog d) = dg_out d @ [exit_event (dg_id d) status reason info]"
    and "dg_connection (finish_dialog d) = NULL" and "\<not> dg_running (finish_dialog d)"
  unfolding assms
  by (auto simp: finish_dialog_def dlg_notifyEvent_def destroyDialog_def exit_event_def ivr_event_def Let_def)

lemma dlg_run_ended:
  assumes "dlg_run e mediaType has_audio rnd ins r = Val (Some d')"
  obtains d s' where "setupStreams mediaType has_audio rnd ((rc_dialog r)\<lparr>dg_state := 3, dg_running := True\<rparr>) = Val d"
    and "iterate e ins (begin_run e r d) = Val (Some s')" and "d' = finish_dialog (run_dialog s')"
    and "dg_id (run_dialog (begin_run e r d)) = dg_id (rc_dialog r)" and "dg_out (run_dialog (begin_run e r d)) = dg_out (rc_dialog r)"
    and "dg_exitStatus (run_dialog (begin_run e r d)) = dg_exitStatus (rc_dialog r)"
    and "dg_iterations (run_dialog (begin_run e r d)) = dg_iterations (rc_dialog r)"
    and "dg_duration (run_dialog (begin_run e r d)) = dg_duration (rc_dialog r)" and "dg_currentIteration (run_dialog (begin_run e r d)) = 1"
proof -
  obtain d s' where d: "setupStreams mediaType has_audio rnd ((rc_dialog r)\<lparr>dg_state := 3, dg_running := True\<rparr>) = Val d"
    and s': "iterate e ins (begin_run e r d) = Val (Some s')" "finish_dialog (run_dialog s') = d'"
    using assms unfolding dlg_run_def cpp_bind_Val by (auto simp: cpp_bind_Val)
  show thesis by (rule that [OF d s'(1) s'(2) [symmetric]])
    (use setup_trail [OF d] in \<open>simp_all add: trail_def begin_run_def\<close>)
qed


text \<open>
  C22. A dialog without maximum duration that nobody ends runs all its iterations and no more, waits in each as long as its
  parts wait, and reports success.
\<close>

theorem undisturbed_dialog_runs_to_its_end:
  assumes "dlg_run e mediaType has_audio rnd ins r = Val (Some d')" and "dg_exitStatus (rc_dialog r) = -1"
    and "dg_duration (rc_dialog r) = 0" and "list_all calm_input ins" and "dg_iterations (rc_dialog r) < - 1"
  shows "unat (dg_iterations (rc_dialog r)) \<le> length ins \<and>
     dlg_run e mediaType has_audio rnd (take (unat (dg_iterations (rc_dialog r))) ins) r = Val (Some d') \<and>
     (\<forall>k<unat (dg_iterations (rc_dialog r)). dlg_run e mediaType has_audio rnd (take k ins) r = Val None) \<and>
     (\<exists>outs info. dg_out d' = outs @ [exit_event (dg_id (rc_dialog r)) DIALOGEXIT_SUCCESS ''Dialog successfully completed'' info])"
proof -
  from dlg_run_ended [OF assms(1)] obtain d s' where d: "setupStreams mediaType has_audio rnd ((rc_dialog r)\<lparr>dg_state := 3, dg_running := True\<rparr>) = Val d"
    and s': "iterate e ins (begin_run e r d) = Val (Some s')" "d' = finish_dialog (run_dialog s')"
    and b: "dg_id (run_dialog (begin_run e r d)) = dg_id (rc_dialog r)"
      "dg_exitStatus (run_dialog (begin_run e r d)) = dg_exitStatus (rc_dialog r)" "dg_iterations (run_dialog (begin_run e r d)) = dg_iterations (rc_dialog r)"
      "dg_duration (run_dialog (begin_run e r d)) = dg_duration (rc_dialog r)" "dg_currentIteration (run_dialog (begin_run e r d)) = 1" by metis
  let ?n = "unat (dg_iterations (rc_dialog r))"
  have u: "unat (dg_currentIteration (run_dialog (begin_run e r d))) + ?n = unat (dg_iterations (run_dialog (begin_run e r d))) + 1"
    unfolding b by simp
  note c = calm_iterations [OF s'(1) _ assms(4) u, unfolded b, OF assms(3) assms(5)]
  have i: "dg_id (run_dialog s') = dg_id (rc_dialog r)" using iterate_went [OF s'(1)] unfolding went_def b by blast
  have x: "dg_exitStatus (run_dialog s') = -1" using c assms(2) by simp
  have "\<exists>info. dg_out d' = dg_out (run_dialog s') @ [exit_event (dg_id (rc_dialog r)) DIALOGEXIT_SUCCESS ''Dialog successfully completed'' info]"
    using finish_reports(1) [OF refl refl, of "run_dialog s'"] unfolding s'(2) i x by simp
  then have "\<exists>outs info. dg_out d' = outs @ [exit_event (dg_id (rc_dialog r)) DIALOGEXIT_SUCCESS ''Dialog successfully completed'' info]" by blast
  moreover have "dlg_run e mediaType has_audio rnd (take ?n ins) r = Val (Some d')" using c d s'(2) by (simp add: dlg_run_def)
  moreover have "dlg_run e mediaType has_audio rnd (take k ins) r = Val None" if "k < ?n" for k using c d that by (simp add: dlg_run_def)
  ultimately show ?thesis using c by blast
qed

subsection \<open>Examples\<close>

text \<open>An announcement that is to be played twice, and is played to its end or terminated while it plays.\<close>

definition demo_announcement :: recorder where
  "demo_announcement = \<lparr>rc_dialog = (newDialog ''d'')\<lparr>dg_model := MODEL_PROMPT, dg_connection := 7, dg_iterations := 2\<rparr>,
     rc_files = [], rc_silenceTimer = False, rc_start = None, rc_time = 0\<rparr>"

definition demo_run_env :: run_env where
  "demo_run_env = \<lparr>re_decoded = Some, re_written = (\<lambda>n. n), re_upload = (\<lambda>url path. 0), re_size = (\<lambda>path. 0), re_webAddress = ''host'',
     re_webPort = ''80'', re_webPath = '''', re_recordingsPath = ''rec'', re_startTime = 0\<rparr>"

definition demo_play :: "bool \<Rightarrow> dialog_event list \<Rightarrow> play_turn" where
  "demo_play ended evs = \<lparr>pt_over = ended, pt_timer = 20, pt_left = True, pt_clock = 20000, pt_pause = 20000, pt_events = evs\<rparr>"

definition demo_input :: "play_turn list \<Rightarrow> run_input" where
  "demo_input tns = \<lparr>in_early = [], in_start = 0, in_play = tns, in_time = 40, in_tones = [], in_collect = [], in_stamp = ''now'',
     in_opens = (\<lambda>path. True), in_beep = None, in_timeoutStart = 0, in_record = []\<rparr>"

lemmas demo_run_defs = demo_announcement_def demo_run_env_def demo_play_def demo_input_def newDialog_def dlg_run_def setupStreams_def
  default_streams_def begin_run_def Let_def run_iteration_def begin_iteration_def prompt_part_def early_bargein_def playAnnouncements_def
  vcr_controls_def newPlayback_def over_duration_def prompt_report_def pause_over_def next_iteration_def on_dialog_def has_model_def add_info_def

lemma demo_terminated:
  "\<exists>d'. dlg_run demo_run_env MEDIACTRL_MEDIA_AUDIO True [] [demo_input [demo_play False [Terminate True 0], demo_play False []]] demo_announcement = Val (Some d')"
  by (simp add: demo_run_defs destroyDialog_def)

lemma demo_played:
  "\<exists>d'. dlg_run demo_run_env MEDIACTRL_MEDIA_AUDIO True [] [demo_input [demo_play False [], demo_play True []], demo_input [demo_play True []]]
     demo_announcement = Val (Some d')"
  by (simp add: demo_run_defs)


theorem undisturbed_dialog_runs_to_its_end_witness:
  "dlg_run demo_run_env MEDIACTRL_MEDIA_AUDIO True [] [demo_input [demo_play False [], demo_play True []]] demo_announcement = Val None"
proof -
  obtain d' where d': "dlg_run demo_run_env MEDIACTRL_MEDIA_AUDIO True [] [demo_input [demo_play False [], demo_play True []], demo_input [demo_play True []]]
      demo_announcement = Val (Some d')" using demo_played by blast
  have h: "dg_exitStatus (rc_dialog demo_announcement) = -1" "dg_duration (rc_dialog demo_announcement) = 0"
      "dg_iterations (rc_dialog demo_announcement) < - 1" "unat (dg_iterations (rc_dialog demo_announcement)) = 2"
    by (simp_all add: demo_announcement_def newDialog_def)
  have c: "list_all calm_input [demo_input [demo_play False [], demo_play True []], demo_input [demo_play True []]]"
    by (simp add: calm_input_def demo_input_def demo_play_def)
  from undisturbed_dialog_runs_to_its_end [OF d' h(1,2) c h(3)] have
    "\<forall>k<2. dlg_run demo_run_env MEDIACTRL_MEDIA_AUDIO True [] (take k [demo_input [demo_play False [], demo_play True []], demo_input [demo_play True []]])
      demo_announcement = Val None" unfolding h(4) by blast
  from this [rule_format, of 1] show ?thesis by simp
qed

end
