(* ===== verification/IvrGrammar.thy ===== *)
theory IvrGrammar
  imports IvrValues
begin

text \<open>
  \<open>src/packages/IvrPackage.cxx\<close>, the handlers of an SRGS grammar (\<open>startElementGR\<close>, \<open>valueElementGR\<close>,
  \<open>endElementGR\<close>). A grammar comes as the events of eXpat; \<open>atts\<close> is never NULL. An error stops the
  handlers; it is kept with its code and text, what becomes of it is the affair of the message that contains the grammar.
\<close>

subsection \<open>Rules\<close>

record srgs_rule =
  sr_id :: string
  sr_private :: bool
  sr_alternatives :: "string list list"

text \<open>The members of the dialog that belong to the grammar. A NULL pointer in the map is \<open>None\<close>.\<close>

record srgs =
  sg_oneOf :: bool
  sg_currentRule :: string
  sg_currentStep :: nat
  sg_ruleToMatch :: string
  sg_rules :: "(string, srgs_rule option) smap"

record gmsg =
  gm_stop :: bool
  gm_level :: int
  gm_childs :: "string list"
  gm_metaName :: bool
  gm_metaHttp :: bool
  gm_metaData :: bool
  gm_ruleFound :: bool
  gm_errors :: "(int \<times> string) list"
  gm_srgs :: srgs

definition new_srgs :: srgs where
  "new_srgs = \<lparr>sg_oneOf = False, sg_currentRule = '''', sg_currentStep = 0, sg_ruleToMatch = '''', sg_rules = []\<rparr>"

definition newGrammar :: "srgs \<Rightarrow> gmsg" where
  "newGrammar g = \<lparr>gm_stop = False, gm_level = 0, gm_childs = [], gm_metaName = False, gm_metaHttp = False,
     gm_metaData = False, gm_ruleFound = False, gm_errors = [], gm_srgs = g\<rparr>"

definition gr_error :: "int \<Rightarrow> string \<Rightarrow> gmsg \<Rightarrow> gmsg" where
  "gr_error code s m = m\<lparr>gm_stop := True, gm_errors := gm_errors m @ [(code, s)]\<rparr>"

definition gr_check :: "(int \<times> string) option \<Rightarrow> gmsg \<Rightarrow> gmsg" where
  "gr_check e m = (case e of None \<Rightarrow> m | Some (code, s) \<Rightarrow> gr_error code s m)"

definition on_srgs :: "(srgs \<Rightarrow> srgs) \<Rightarrow> gmsg \<Rightarrow> gmsg" where
  "on_srgs f m = m\<lparr>gm_srgs := f (gm_srgs m)\<rparr>"

subsection \<open>Loops over attributes\<close>

text \<open>\<open>while(atts[i])\<close> with \<open>return\<close> at the first attribute that is refused.\<close>

fun each_att :: "(string \<times> string \<Rightarrow> 'b \<Rightarrow> 'e + 'b) \<Rightarrow> (string \<times> string) list \<Rightarrow> 'b \<Rightarrow> 'e + 'b" where
  "each_att f [] acc = Inr acc"
| "each_att f (a # atts) acc = (case f a acc of Inl e \<Rightarrow> Inl e | Inr acc' \<Rightarrow> each_att f atts acc')"

definition first_error :: "'e + 'b \<Rightarrow> ('b \<Rightarrow> 'e option) \<Rightarrow> 'e option" where
  "first_error r f = (case r of Inl e \<Rightarrow> Some e | Inr b \<Rightarrow> f b)"

subsection \<open>The root\<close>

text \<open>Version, namespace and mode are collected beside the message.\<close>

definition gr_root_att :: "string \<times> string \<Rightarrow> gmsg \<times> string \<times> string \<times> bool \<Rightarrow> gmsg + gmsg \<times> string \<times> string \<times> bool" where
  "gr_root_att a acc = (case (a, acc) of ((n, v), (m, version, ns, mode)) \<Rightarrow>
     if n = ''version'' then Inr (m, v, ns, mode)
     else if n = ''xmlns'' then Inr (m, version, v, mode)
     else if n = ''xml:lang'' then Inr acc
     else if n = ''mode'' then
       (if v = ''dtmf'' then Inr (m, version, ns, True) else Inl (gr_error 400 ''only mode=dtmf is supported'' m))
     else if n = ''root'' then Inr (on_srgs (\<lambda>g. g\<lparr>sg_ruleToMatch := v\<rparr>) m, version, ns, mode)
     else if n = ''tag-format'' \<or> n = ''xml:base'' \<or> n = ''xmlns:xsi'' \<or> n = ''xsi:schemaLocation'' then Inr acc
     else Inl (gr_error 431 n m))"

definition gr_root :: "string \<Rightarrow> (string \<times> string) list \<Rightarrow> gmsg \<Rightarrow> gmsg" where
  "gr_root name atts m =
     (if name \<noteq> ''grammar'' then gr_error 400 name m
      else case each_att gr_root_att atts (m, '''', '''', False) of Inl m1 \<Rightarrow> m1
      | Inr (m1, version, ns, mode) \<Rightarrow>
          if version = '''' then gr_error 400 ''grammar version'' m1
          else if version \<noteq> ''1.0'' then gr_error 400 ''grammar version is not 1.0'' m1
          else if ns \<noteq> ''http://www.w3.org/2001/06/grammar'' then gr_error 431 ''Invalid grammar namespace'' m1
          else if \<not> mode then gr_error 400 ''only mode=dtmf is supported'' m1
          else m1)"

subsection \<open>Elements below the root\<close>

definition lexicon_att :: "string \<times> string \<Rightarrow> bool \<Rightarrow> (int \<times> string) + bool" where
  "lexicon_att a ok = (case a of (n, v) \<Rightarrow>
     if n = ''uri'' then (if ok then Inl (400, ''lexicon uri already provided'') else Inr True)
     else if n = ''type'' then Inr ok else Inl (431, n))"

definition lexicon_atts :: "(string \<times> string) list \<Rightarrow> (int \<times> string) option" where
  "lexicon_atts atts = first_error (each_att lexicon_att atts False)
     (\<lambda>ok. if ok then None else Some (400, ''lexicon uri missing''))"

text \<open>\<open>metaName\<close> and \<open>metaHttp\<close> stay set from one \<open>meta\<close> to the next.\<close>

definition meta_att :: "string \<times> string \<Rightarrow> gmsg \<times> bool \<Rightarrow> gmsg + gmsg \<times> bool" where
  "meta_att a acc = (case (a, acc) of ((n, v), (m, ok)) \<Rightarrow>
     if n = ''name'' then Inr (m\<lparr>gm_metaName := True\<rparr>, ok)
     else if n = ''http-equiv'' then Inr (m\<lparr>gm_metaHttp := True\<rparr>, ok)
     else if n = ''content'' then Inr (m, True)
     else Inl (gr_error 431 n m))"

definition gr_meta :: "(string \<times> string) list \<Rightarrow> gmsg \<Rightarrow> gmsg" where
  "gr_meta atts m = (case each_att meta_att atts (m, False) of Inl m1 \<Rightarrow> m1
     | Inr (m1, ok) \<Rightarrow>
         if \<not> ok then gr_error 400 ''meta content missing'' m1
         else if gm_metaName m1 \<and> gm_metaHttp m1
         then gr_error 400 (''can'' @ [CHR 0x27] @ ''t have both name AND http-equiv in grammar meta'') m1 else m1)"

definition no_atts :: "(string \<times> string) list \<Rightarrow> (int \<times> string) option" where
  "no_atts atts = (case atts of [] \<Rightarrow> None | (n, v) # _ \<Rightarrow> Some (431, n))"

definition rule_att :: "string \<times> string \<Rightarrow> string \<times> string \<times> bool \<Rightarrow> (int \<times> string) + string \<times> string \<times> bool" where
  "rule_att a acc = (case (a, acc) of ((n, v), (rid, scope, private)) \<Rightarrow>
     if n = ''id'' then (if rid \<noteq> '''' then Inl (400, ''rule id already provided'') else Inr (v, scope, private))
     else if n = ''scope'' then
       (if scope \<noteq> '''' then Inl (400, ''rule scope already provided'')
        else if v = ''private'' then Inr (rid, v, True)
        else if v = ''public'' then Inr (rid, v, False)
        else Inl (400, ''invalid rule scope''))
     else Inl (431, n))"

text \<open>The rule is looked up with \<open>operator[]\<close>, which makes a NULL entry, and allocated, but not entered.\<close>

definition gr_rule :: "(string \<times> string) list \<Rightarrow> gmsg \<Rightarrow> gmsg" where
  "gr_rule atts m0 = (let m = m0\<lparr>gm_ruleFound := True\<rparr> in
     case each_att rule_att atts ('''', '''', True) of Inl (code, s) \<Rightarrow> gr_error code s m
     | Inr (rid, scope, private) \<Rightarrow>
       (case smap_index None rid (sg_rules (gm_srgs m)) of (known, rules) \<Rightarrow>
        let m1 = on_srgs (\<lambda>g. g\<lparr>sg_rules := rules\<rparr>) m in
        if known \<noteq> None then gr_error 400 ''duplicate rule'' m1
        else on_srgs (\<lambda>g. g\<lparr>sg_currentStep := 0, sg_currentRule := (if private then rid else '''')\<rparr>) m1))"

definition gr_second :: "string \<Rightarrow> (string \<times> string) list \<Rightarrow> gmsg \<Rightarrow> gmsg" where
  "gr_second name atts m =
     (if name \<noteq> ''rule'' \<and> gm_ruleFound m then gr_error 400 ''meta, metadata and lexicon elements must occur before all rule elements'' m
      else if name = ''lexicon'' then gr_check (lexicon_atts atts) m
      else if name = ''meta'' then gr_meta atts m
      else if name = ''metadata'' then (case no_atts atts of None \<Rightarrow> m\<lparr>gm_metaData := True\<rparr> | Some (code, s) \<Rightarrow> gr_error code s m)
      else if name = ''tag'' then gr_check (no_atts atts) m
      else if name = ''rule'' then gr_rule atts m
      else m)"

definition ruleref_att :: "string \<times> string \<Rightarrow> string \<times> string \<times> string \<Rightarrow> (int \<times> string) + string \<times> string \<times> string" where
  "ruleref_att a acc = (case (a, acc) of ((n, v), (uri, special, type)) \<Rightarrow>
     if n = ''uri'' then
       (if uri \<noteq> '''' then Inl (400, ''ruleref uri already provided'')
        else if special \<noteq> '''' then Inl (400, ''ruleref can'' @ [CHR 0x27] @ ''t have both uri AND special'')
        else Inr (v, special, type))
     else if n = ''special'' then
       (if special \<noteq> '''' then Inl (400, ''ruleref special already provided'')
        else if uri \<noteq> '''' then Inl (400, ''ruleref can'' @ [CHR 0x27] @ ''t have both uri AND special'')
        else Inr (uri, v, type))
     else if n = ''type'' then
       (if type \<noteq> '''' then Inl (400, ''ruleref type already provided'') else Inr (uri, special, v))
     else Inl (431, n))"

definition ruleref_atts :: "(string \<times> string) list \<Rightarrow> (int \<times> string) option" where
  "ruleref_atts atts = first_error (each_att ruleref_att atts ('''', '''', '''')) (\<lambda>(uri, special, type).
     if uri = '''' \<and> special = '''' then Some (400, ''ruleref missing uri/special'')
     else if uri = ''NULL'' \<or> uri = ''VOID'' \<or> uri = ''GARBAGE'' then Some (400, ''invalid ruleref uri (reserved)'')
     else if special \<noteq> '''' \<and> special \<noteq> ''NULL'' \<and> special \<noteq> ''VOID'' \<and> special \<noteq> ''GARBAGE'' then Some (400, ''invalid ruleref special'')
     else None)"

definition rx_range :: string where
  "rx_range = ''('' @ bsl @ ''d+)'' @ bsl @ ''-('' @ bsl @ ''d+)?''"

definition item_att :: "string \<times> string \<Rightarrow> string \<times> string \<times> string \<Rightarrow> (int \<times> string) + string \<times> string \<times> string" where
  "item_att a acc = (case (a, acc) of ((n, v), (rep, prob, weight)) \<Rightarrow>
     if n = ''repeat'' then (if rep \<noteq> '''' then Inl (400, ''item repeat already provided'') else Inr (v, prob, weight))
     else if n = ''weight'' then (if weight \<noteq> '''' then Inl (400, ''item weight already provided'') else Inr (rep, prob, v))
     else if n = ''repeat-prob'' then (if prob \<noteq> '''' then Inl (400, ''item repeat-prob already provided'') else Inr (rep, v, weight))
     else Inl (431, n))"

definition item_atts :: "boost \<Rightarrow> (string \<times> string) list \<Rightarrow> (int \<times> string) option" where
  "item_atts bx atts = first_error (each_att item_att atts ('''', '''', '''')) (\<lambda>(rep, prob, weight).
     if rep = '''' \<and> prob \<noteq> '''' then Some (400, ''repeat-prob with no repeat'')
     else if rep \<noteq> '''' \<and> positiveInteger bx rep = None \<and> bx_match bx rx_range rep = None then Some (400, ''Invalid repeat for item'')
     else None)"

definition gr_third :: "string \<Rightarrow> string \<Rightarrow> (string \<times> string) list \<Rightarrow> gmsg \<Rightarrow> gmsg" where
  "gr_third owner name atts m =
     (if gm_metaData m then m
      else if owner \<noteq> ''rule'' then gr_error 431 name m
      else if name = ''one-of'' then gr_check (no_atts atts) (on_srgs (\<lambda>g. g\<lparr>sg_oneOf := True\<rparr>) m)
      else if name = ''ruleref'' then gr_check (ruleref_atts atts) m
      else if name = ''example'' then m
      else gr_error 431 name m)"

text \<open>Levels 4 and 5 allow items and references, level 6 references, deeper levels nothing.\<close>

definition gr_deep :: "boost \<Rightarrow> int \<Rightarrow> string \<Rightarrow> (string \<times> string) list \<Rightarrow> gmsg \<Rightarrow> gmsg" where
  "gr_deep bx level name atts m =
     (if gm_metaData m then m
      else if name = ''item'' \<and> (level = 4 \<or> level = 5) then gr_check (item_atts bx atts) m
      else if name = ''ruleref'' \<and> (level = 4 \<or> level = 5 \<or> level = 6) then gr_check (ruleref_atts atts) m
      else gr_error 431 name m)"

definition gr_startElement :: "boost \<Rightarrow> string \<Rightarrow> (string \<times> string) list \<Rightarrow> gmsg \<Rightarrow> gmsg cpp" where
  "gr_startElement bx name atts m0 =
     (if gm_stop m0 then Val m0
      else let m = m0\<lparr>gm_level := gm_level m0 + 1, gm_childs := gm_childs m0 @ [name]\<rparr> in
        if gm_level m = 1 then Val (gr_root name atts m)
        else if gm_level m = 2 then Val (gr_second name atts m)
        else if gm_level m = 3 then
          (if gm_childs m0 = [] then Undef else Val (gr_third (last (gm_childs m0)) name atts m))
        else Val (gr_deep bx (gm_level m) name atts m))"

subsection \<open>Text\<close>

text \<open>Tabs and line ends are left out, and spaces before the text, or everywhere in an item or a rule. The loop that
  should cut spaces at the end stops at once.\<close>

fun squeeze :: "bool \<Rightarrow> string \<Rightarrow> string \<Rightarrow> string" where
  "squeeze everywhere [] out = out"
| "squeeze everywhere (c # cs) out =
     (if c = CHR 0x09 \<or> c = CHR 0x0A \<or> c = CHR 0x0D then squeeze everywhere cs out
      else if c = CHR '' '' \<and> (out = [] \<or> everywhere) then squeeze everywhere cs out
      else squeeze everywhere cs (out @ [c]))"

text \<open>The alternative that the digits go to, which may have to be made.\<close>

definition pick_alternative :: "srgs \<Rightarrow> srgs \<times> nat option" where
  "pick_alternative g =
     (if sg_currentRule g = '''' then (g, None)
      else case smap_index None (sg_currentRule g) (sg_rules g) of
        (None, rules) \<Rightarrow> (g\<lparr>sg_rules := rules\<rparr>, None)
      | (Some r, rules) \<Rightarrow>
          if sg_currentStep g = 0 \<and> sr_alternatives r = [] then
            (g\<lparr>sg_rules := smap_put (sg_currentRule g) (Some (r\<lparr>sr_alternatives := [[]]\<rparr>)) rules\<rparr>, Some 0)
          else (g\<lparr>sg_rules := rules\<rparr>,
                if sg_currentStep g < length (sr_alternatives r) then Some (sg_currentStep g) else None))"

definition add_digits :: "nat option \<Rightarrow> string \<Rightarrow> srgs \<Rightarrow> srgs" where
  "add_digits alt v g = (case alt of None \<Rightarrow> g | Some i \<Rightarrow>
     (case smap_get (sg_rules g) (sg_currentRule g) of
        Some (Some r) \<Rightarrow>
          let alts = (sr_alternatives r)[i := sr_alternatives r ! i @ [v]] in
          g\<lparr>sg_rules := smap_put (sg_currentRule g)
             (Some (r\<lparr>sr_alternatives := (if sg_oneOf g then alts else alts @ [[]])\<rparr>)) (sg_rules g)\<rparr>
      | _ \<Rightarrow> g))"

definition gr_valueElement :: "string \<Rightarrow> gmsg \<Rightarrow> gmsg cpp" where
  "gr_valueElement s m =
     (if gm_stop m then Val m
      else if gm_childs m = [] then Undef
      else let top = last (gm_childs m); v = squeeze (top = ''item'' \<or> top = ''rule'') s [] in
        if v = '''' \<or> gm_metaData m \<or> top \<noteq> ''item'' \<and> top \<noteq> ''rule'' then Val m
        else (case pick_alternative (gm_srgs m) of (g, alt) \<Rightarrow>
          let m1 = m\<lparr>gm_srgs := g\<rparr> in
          if list_all (\<lambda>c. snd (dtmfDigit [c])) v then Val (on_srgs (add_digits alt v) m1)
          else Val (gr_error 400 ''Invalid DTMF code for item'' m1)))"

definition gr_endElement :: "string \<Rightarrow> gmsg \<Rightarrow> gmsg cpp" where
  "gr_endElement name m =
     (if gm_stop m then Val m
      else if gm_childs m = [] then Undef
      else let m1 = (if name = ''metadata'' then m\<lparr>gm_metaData := False\<rparr>
             else if name = ''rule'' then on_srgs (\<lambda>g. g\<lparr>sg_currentRule := '''', sg_currentStep := 0\<rparr>) m
             else if name = ''one-of'' then on_srgs (\<lambda>g. g\<lparr>sg_oneOf := False\<rparr>) m else m) in
        Val (m1\<lparr>gm_level := gm_level m1 - 1, gm_childs := butlast (gm_childs m1)\<rparr>))"

fun gr_handle :: "boost \<Rightarrow> xml_event \<Rightarrow> gmsg \<Rightarrow> gmsg cpp" where
  "gr_handle bx (StartElement name atts) m = gr_startElement bx name atts m"
| "gr_handle bx (CharacterData s) m = gr_valueElement s m"
| "gr_handle bx (EndElement name) m = gr_endElement name m"

fun gr_parse :: "boost \<Rightarrow> xml_event list \<Rightarrow> gmsg \<Rightarrow> gmsg cpp" where
  "gr_parse bx [] m = Val m"
| "gr_parse bx (e # es) m = cpp_bind (gr_handle bx e m) (gr_parse bx es)"

subsection \<open>What a grammar leaves behind\<close>

definition no_rules :: "srgs \<Rightarrow> bool" where
  "no_rules g \<longleftrightarrow> smap_ok (sg_rules g) \<and> (\<forall>k r. smap_get (sg_rules g) k \<noteq> Some (Some r))"

text \<open>One handler: the place in the document stays, no rule becomes known, and there is one error or none.\<close>

definition fine :: "gmsg \<Rightarrow> gmsg \<Rightarrow> bool" where
  "fine m m' \<longleftrightarrow> gm_childs m' = gm_childs m \<and> gm_level m' = gm_level m \<and> (no_rules (gm_srgs m) \<longrightarrow> no_rules (gm_srgs m')) \<and>
     (gm_stop m' = gm_stop m \<and> gm_errors m' = gm_errors m \<or> gm_stop m' \<and> (\<exists>e. gm_errors m' = gm_errors m @ [e]))"

lemma fine_refl [simp, intro]: "fine m m"
  by (simp add: fine_def)

lemma fine_error [simp, intro]: "fine m (gr_error c s m)"
  by (simp add: fine_def gr_error_def)

lemma fine_check [simp, intro]: "fine m (gr_check e m)"
  by (simp add: gr_check_def split: option.split)

text \<open>Changes that concern neither the place nor the errors.\<close>

definition unmoved :: "gmsg \<Rightarrow> gmsg \<Rightarrow> bool" where
  "unmoved m m' \<longleftrightarrow> fine m m' \<and> gm_stop m' = gm_stop m \<and> gm_errors m' = gm_errors m"

lemma unmoved_refl [simp]: "unmoved m m"
  by (simp add: unmoved_def)

lemma unmoved_fine: "unmoved m m1 \<Longrightarrow> fine m1 m' \<Longrightarrow> fine m m'"
  by (auto simp: unmoved_def fine_def)

lemma unmoved_trans: "unmoved m m1 \<Longrightarrow> unmoved m1 m2 \<Longrightarrow> unmoved m m2"
  by (auto simp: unmoved_def fine_def)

lemma unmoved_flags [simp]:
  "unmoved m (m\<lparr>gm_metaName := b\<rparr>)" "unmoved m (m\<lparr>gm_metaHttp := b\<rparr>)" "unmoved m (m\<lparr>gm_metaData := b\<rparr>)" "unmoved m (m\<lparr>gm_ruleFound := b\<rparr>)"
  by (simp_all add: unmoved_def fine_def)

lemma unmoved_srgs: "(no_rules (gm_srgs m) \<Longrightarrow> no_rules (f (gm_srgs m))) \<Longrightarrow> unmoved m (on_srgs f m)"
  by (simp add: unmoved_def fine_def on_srgs_def)

lemma no_rules_update [simp]:
  "no_rules (g\<lparr>sg_ruleToMatch := s\<rparr>) = no_rules g" "no_rules (g\<lparr>sg_oneOf := b\<rparr>) = no_rules g"
  "no_rules (g\<lparr>sg_currentStep := n, sg_currentRule := s\<rparr>) = no_rules g" "no_rules (g\<lparr>sg_currentRule := s, sg_currentStep := n\<rparr>) = no_rules g"
  by (simp_all add: no_rules_def)

lemma no_rules_index:
  assumes "no_rules g"
  shows "\<exists>rules. smap_index None k (sg_rules g) = (None, rules) \<and> no_rules (g\<lparr>sg_rules := rules\<rparr>)"
proof -
  from assms have ok: "smap_ok (sg_rules g)" and n: "smap_get (sg_rules g) k' \<noteq> Some (Some r)" for k' r
    by (simp_all add: no_rules_def)
  show ?thesis
  proof (cases "smap_get (sg_rules g) k")
    case None
    have "no_rules (g\<lparr>sg_rules := smap_put k None (sg_rules g)\<rparr>)" using ok n by (simp add: no_rules_def)
    with None show ?thesis by (simp add: smap_index_def)
  next
    case (Some x)
    with n [of k] have "x = None" by (cases x) auto
    with assms Some show ?thesis by (simp add: smap_index_def)
  qed
qed

lemma each_att_quiet:
  fixes f :: "string \<times> string \<Rightarrow> 'b \<Rightarrow> gmsg + 'b" and h :: "'b \<Rightarrow> gmsg"
  assumes "\<And>acc a. case f a acc of Inl m' \<Rightarrow> fine (h acc) m' | Inr acc' \<Rightarrow> unmoved (h acc) (h acc')"
  shows "case each_att f atts acc of Inl m' \<Rightarrow> fine (h acc) m' | Inr acc' \<Rightarrow> unmoved (h acc) (h acc')"
proof (induction atts arbitrary: acc)
  case (Cons a atts)
  show ?case
  proof (cases "f a acc")
    case (Inl m')
    then show ?thesis using assms [of acc a] by simp
  next
    case (Inr acc1)
    then have q: "unmoved (h acc) (h acc1)" using assms [of acc a] by simp
    from Cons.IH [of acc1] show ?thesis using Inr q
      by (auto split: sum.splits intro: unmoved_fine unmoved_trans)
  qed
qed simp

lemma gr_root_fine: "fine m (gr_root name atts m)"
proof -
  have "case each_att gr_root_att atts acc of Inl m' \<Rightarrow> fine (fst acc) m' | Inr acc' \<Rightarrow> unmoved (fst acc) (fst acc')" for acc
    by (rule each_att_quiet) (auto simp: gr_root_att_def unmoved_srgs split: prod.split)
  from this [of "(m, '''', '''', False)"] show ?thesis
    by (auto simp: gr_root_def split: sum.splits prod.splits intro: unmoved_fine)
qed

lemma gr_meta_fine: "fine m (gr_meta atts m)"
proof -
  have "case each_att meta_att atts acc of Inl m' \<Rightarrow> fine (fst acc) m' | Inr acc' \<Rightarrow> unmoved (fst acc) (fst acc')" for acc
    by (rule each_att_quiet) (auto simp: meta_att_def split: prod.split)
  from this [of "(m, False)"] show ?thesis
    by (auto simp: gr_meta_def split: sum.splits intro: unmoved_fine)
qed

lemma gr_rule_fine: "fine m (gr_rule atts m)"
proof (cases "each_att rule_att atts ('''', '''', True)")
  case (Inl e)
  then show ?thesis by (cases e) (auto simp: gr_rule_def Let_def intro: unmoved_fine [OF unmoved_flags(4)])
next
  case (Inr acc)
  obtain rid scope pr where a: "acc = (rid, scope, pr)" by (cases acc)
  let ?m = "m\<lparr>gm_ruleFound := True\<rparr>"
  obtain known rules where k: "smap_index None rid (sg_rules (gm_srgs ?m)) = (known, rules)" by (cases "smap_index None rid (sg_rules (gm_srgs ?m))")
  have q1: "unmoved ?m (on_srgs (\<lambda>g. g\<lparr>sg_rules := rules\<rparr>) ?m)"
    using no_rules_index [of "gm_srgs ?m" rid] k by (intro unmoved_srgs) auto
  have q2: "unmoved x (on_srgs (\<lambda>g. g\<lparr>sg_currentStep := 0, sg_currentRule := s\<rparr>) x)" for x s by (rule unmoved_srgs) simp
  have q: "unmoved m (on_srgs (\<lambda>g. g\<lparr>sg_rules := rules\<rparr>) ?m)" by (rule unmoved_trans [OF unmoved_flags(4) q1])
  show ?thesis unfolding gr_rule_def using Inr a k q
    by (auto simp: Let_def intro: unmoved_fine unmoved_fine [OF q unmoved_fine [OF q2 fine_refl]])
qed

lemma gr_second_fine: "fine m (gr_second name atts m)"
  by (auto simp: gr_second_def gr_rule_fine gr_meta_fine split: option.split intro: unmoved_fine [OF unmoved_flags(3)])

lemma gr_third_fine: "fine m (gr_third owner name atts m)"
proof -
  have "unmoved m (on_srgs (\<lambda>g. g\<lparr>sg_oneOf := True\<rparr>) m)" by (rule unmoved_srgs) simp
  then show ?thesis by (auto simp: gr_third_def intro: unmoved_fine)
qed

lemma gr_deep_fine: "fine m (gr_deep bx level name atts m)"
  by (auto simp: gr_deep_def)

lemma gr_value_fine: "gm_childs m \<noteq> [] \<Longrightarrow> \<exists>m'. gr_valueElement s m = Val m' \<and> fine m m'"
proof -
  assume c: "gm_childs m \<noteq> []"
  obtain g alt where p: "pick_alternative (gm_srgs m) = (g, alt)" by (cases "pick_alternative (gm_srgs m)")
  have n: "no_rules g \<and> alt = None" if "no_rules (gm_srgs m)"
  proof (cases "sg_currentRule (gm_srgs m) = ''''")
    case True
    with p that show ?thesis by (simp add: pick_alternative_def)
  next
    case False
    from no_rules_index [OF that] obtain rules where
      "smap_index None (sg_currentRule (gm_srgs m)) (sg_rules (gm_srgs m)) = (None, rules)"
      "no_rules (gm_srgs m\<lparr>sg_rules := rules\<rparr>)" by blast
    with False p show ?thesis by (auto simp: pick_alternative_def)
  qed
  let ?m1 = "m\<lparr>gm_srgs := g\<rparr>"
  have q1: "unmoved m ?m1" using n by (simp add: unmoved_def fine_def)
  have q2: "unmoved m (on_srgs (add_digits alt v) ?m1)" for v using n by (auto simp: unmoved_def fine_def on_srgs_def add_digits_def)
  have "fine m (gr_error 400 ''Invalid DTMF code for item'' ?m1)" by (rule unmoved_fine [OF q1 fine_error])
  moreover have "fine m (on_srgs (add_digits alt v) ?m1)" for v using q2 by (simp add: unmoved_def)
  ultimately show ?thesis using c p by (auto simp: gr_valueElement_def Let_def)
qed

lemma no_rule_entries:
  assumes ok: "smap_ok l" and n: "\<And>k r. smap_get l k \<noteq> Some (Some (r::'a))"
  shows "list_all (\<lambda>e. snd e = None) l"
proof -
  have "snd e = None" if "e \<in> set l" for e
  proof -
    from ok have "distinct (map fst l)" unfolding smap_ok_def by (metis strict_sorted_iff)
    then have "map_of l (fst e) = Some (snd e)" using that by (simp add: map_of_eq_Some_iff)
    with n [of "fst e"] show ?thesis by (cases "snd e") (auto simp: smap_get_def)
  qed
  then show ?thesis by (simp add: list_all_iff)
qed

subsection \<open>Whole grammars\<close>

text \<open>The state at a place of the document: the open elements as the stack has them, or stopped with one error.\<close>

definition place :: "string list \<Rightarrow> gmsg \<Rightarrow> bool" where
  "place ctx m \<longleftrightarrow> no_rules (gm_srgs m) \<and>
     (gm_stop m \<and> (\<exists>e. gm_errors m = [e]) \<or>
      \<not> gm_stop m \<and> gm_errors m = [] \<and> gm_childs m = ctx \<and> gm_level m = int (length ctx))"

lemma place_fine: "place ctx m \<Longrightarrow> \<not> gm_stop m \<Longrightarrow> fine m m' \<Longrightarrow> place ctx m'"
  by (auto simp: place_def fine_def)

lemma place_new: "place [] (newGrammar new_srgs)"
  by (simp add: place_def newGrammar_def new_srgs_def no_rules_def)

lemma place_start:
  assumes p: "place ctx m"
  shows "\<exists>m'. gr_startElement bx name atts m = Val m' \<and> place (ctx @ [name]) m'"
proof (cases "gm_stop m")
  case True
  with p show ?thesis by (auto simp: gr_startElement_def place_def)
next
  case False
  let ?m = "m\<lparr>gm_level := gm_level m + 1, gm_childs := gm_childs m @ [name]\<rparr>"
  from p False have q: "place (ctx @ [name]) ?m" "\<not> gm_stop ?m" "gm_childs m = ctx" "gm_level m = int (length ctx)" by (auto simp: place_def)
  have "fine ?m m' \<Longrightarrow> place (ctx @ [name]) m'" for m' using q by (blast intro: place_fine)
  note f = this [OF gr_root_fine] this [OF gr_second_fine] this [OF gr_third_fine] this [OF gr_deep_fine]
  have n: "gm_level ?m = 3 \<Longrightarrow> gm_childs m \<noteq> []" using q by auto
  show ?thesis unfolding gr_startElement_def Let_def using False f n by auto
qed

lemma place_text:
  assumes p: "place ctx m" "ctx \<noteq> []"
  shows "\<exists>m'. gr_valueElement s m = Val m' \<and> place ctx m'"
proof (cases "gm_stop m")
  case True
  with p show ?thesis by (auto simp: gr_valueElement_def)
next
  case False
  with p have "gm_childs m \<noteq> []" by (auto simp: place_def)
  from gr_value_fine [OF this] place_fine [OF p(1) False] show ?thesis by blast
qed

lemma place_end:
  assumes p: "place (ctx @ [name]) m"
  shows "\<exists>m'. gr_endElement name m = Val m' \<and> place ctx m'"
proof (cases "gm_stop m")
  case True
  with p show ?thesis by (auto simp: gr_endElement_def place_def)
next
  case False
  with p show ?thesis by (auto simp: gr_endElement_def place_def on_srgs_def Let_def)
qed

lemma gr_parse_append: "gr_parse bx (es @ fs) m = cpp_bind (gr_parse bx es m) (gr_parse bx fs)"
proof (induction es arbitrary: m)
  case (Cons e es)
  then show ?case by (cases "gr_handle bx e m") auto
qed simp

lemma place_parse:
  shows "place ctx m \<Longrightarrow> (\<exists>name atts cs. x = Elem name atts cs) \<or> ctx \<noteq> [] \<Longrightarrow> \<exists>m'. gr_parse bx (events x) m = Val m' \<and> place ctx m'"
    and "place ctx m \<Longrightarrow> ctx \<noteq> [] \<Longrightarrow> \<exists>m'. gr_parse bx (events_of xs) m = Val m' \<and> place ctx m'"
proof (induction x and xs arbitrary: ctx m and ctx m rule: events_events_of.induct)
  case (1 name atts cs)
  obtain m1 where m1: "gr_startElement bx name atts m = Val m1" "place (ctx @ [name]) m1" using place_start [OF "1.prems"(1)] by blast
  obtain m2 where m2: "gr_parse bx (events_of cs) m1 = Val m2" "place (ctx @ [name]) m2" using "1.IH" [OF m1(2)] by blast
  from place_end [OF m2(2)] m1 m2 show ?case by (auto simp: gr_parse_append)
next
  case (2 s)
  then show ?case using place_text [of ctx m s] by auto
next
  case (4 x xs)
  obtain m1 where m1: "gr_parse bx (events x) m = Val m1" "place ctx m1" using "4.IH"(1) "4.prems" by blast
  from "4.IH"(2) [OF m1(2) "4.prems"(2)] m1 show ?case by (auto simp: gr_parse_append)
qed auto

text \<open>
  C32. A grammar, whatever its elements, attributes and text, is read with defined behaviour, up to its end or to the first error; at
  most one error is reported. But no rule is ever known afterwards: the rules that the elements \<open>rule\<close> declare are made and
  not entered, so that duplicates are accepted and the digits of the items go nowhere.
\<close>

theorem grammars_have_no_rules:
  "\<exists>m. gr_parse bx (events (Elem name atts body)) (newGrammar new_srgs) = Val m \<and>
     length (gm_errors m) = (if gm_stop m then 1 else 0) \<and>
     list_all (\<lambda>e. snd e = None) (sg_rules (gm_srgs m))"
proof -
  obtain m where m: "gr_parse bx (events (Elem name atts body)) (newGrammar new_srgs) = Val m" "place [] m"
    using place_parse(1) [OF place_new] by blast
  then have "smap_ok (sg_rules (gm_srgs m))" "\<And>k r. smap_get (sg_rules (gm_srgs m)) k \<noteq> Some (Some r)"
    by (auto simp: place_def no_rules_def)
  then have "list_all (\<lambda>e. snd e = None) (sg_rules (gm_srgs m))" by (rule no_rule_entries)
  with m show ?thesis by (auto simp: place_def)
qed

end
