(* ===== verification/Spec2Isabelle.thy ===== *)
theory Spec2Isabelle
  imports Prelude StdMap MediaFrame PcmSamples UlawCodec AlawCodec GsmCodec
    CfwTransaction CfwClient CfwStack CfwParser RtpChannel
    ControlConn MediaStore Endpoint SipTransaction PackageApi Core SdpOffer CoreCalls ConfParser Monitor MixerProps IvrRun IvrGrammar
begin

text \<open>
  A verification library for the media server \<open>mediactrl\<close> (\<open>src/\<close> of the repository): a server
  that application servers control over the Media Control Channel Framework (CFW) and that
  receives, transcodes, mixes and sends the audio of calls set up by SIP.

  \<^bold>\<open>The program.\<close> \<open>MediaCtrl\<close> (\<open>src/MediaCtrl.cxx\<close>) is the core. reSIProcate calls it when a SIP session
  begins, when an offer has to be answered and when a session ends; it makes a
  \<open>MediaCtrlSipTransaction\<close> per call (\<open>src/MediaCtrlSip.cxx\<close>) with one \<open>MediaCtrlRtpChannel\<close> per medium
  (\<open>src/MediaCtrlRtp.cxx\<close>), or enters an application server into the \<open>CfwStack\<close>
  (\<open>src/CfwStack.cxx\<close>). The stack keeps a \<open>MediaCtrlClient\<close> (\<open>src/MediaCtrlClient.cxx\<close>) per
  server, cuts and parses what the server sends, runs a \<open>CfwTransaction\<close> per CONTROL request and
  hands the request to the control package it names. A package (\<open>src/packages/\<close>) finds calls and
  conferences through the stack: the core makes a \<open>MediaCtrlEndpoint\<close> (\<open>src/MediaCtrlEndpoint.cxx\<close>) for
  each, with a \<open>ControlPackageConnection\<close> (\<open>src/ControlPackage.cxx\<close>) as its face towards packages, and frames,
  DTMF and ends of connections come back to the package through it. The mixer package
  (\<open>src/packages/MixerPackage.cxx\<close>) joins connections and conferences and mixes their audio. The IVR package
  (\<open>src/packages/IvrPackage.cxx\<close>) runs a thread per dialog, which plays prompts, collects digits and
  records, as the \<open>dialog\<close> element of a request says.

  \<^bold>\<open>How code becomes definitions.\<close> Pointers are natural numbers with \<open>NULL\<close> = 0; objects live in explicit
  stores, partial maps from addresses to records, and a deleted object is an address without
  one. What C++ leaves undefined (a use of a deleted object, an access outside a buffer, the front
  of an empty list, a signed overflow, \<open>strcmp\<close> of NULL) is the result \<open>Undef\<close> of type \<open>cpp\<close>, so
  that a theorem about \<open>Val\<close> is also about the absence of it. \<open>std::map\<close> is an association
  list in key order (\<open>StdMap\<close>), and \<open>operator[]\<close> inserts a default value as in C++ (\<open>smap_index\<close>).
  Integers of 8, 16 and 32 bits that may wrap are words; samples are \<open>int\<close> with the casts and
  the ranges written out. An enumeration is the \<open>int\<close> it is in the source. Virtual calls on objects
  whose class is not in the repository, and calls that only hand something over, are recorded in
  order in a field of the state (\<open>tx_wire\<close>, \<open>st_calls\<close>, \<open>core_sip\<close>, \<open>mx_out\<close> and the lists of \<open>rtp_out\<close>).

  \<^bold>\<open>Theories.\<close>
  \<^item> \<open>Prelude\<close>, \<open>StdMap\<close>: strings, decimal numbers, \<open>atoi\<close>, searches; \<open>std::map\<close> as the locale
    \<open>std_map\<close>, interpreted on the ordered lists.
  \<^item> \<open>MediaFrame\<close>, \<open>PcmSamples\<close>, \<open>UlawCodec\<close>, \<open>AlawCodec\<close>, \<open>GsmCodec\<close>: \<open>src/MediaCtrlCodec.cxx\<close> and
    \<open>src/codecs/\<close>. The tables are transcribed and identified with the G.711 arithmetic; the locale
    \<open>audio_codec\<close> is the abstract class \<open>MediaCtrlCodec\<close>. Collector, error bounds, round trips.
  \<^item> \<open>CfwTransaction\<close>, \<open>CfwClient\<close>, \<open>CfwStack\<close>, \<open>CfwParser\<close>: the control channel. The transaction and its
    thread as a step relation (each message sent once, in order), the framing automaton, the
    book-keeping of the stack with its invariant, and \<open>parseMessage\<close> with every answer it gives.
  \<^item> \<open>RtpChannel\<close>: a media channel, its clock, lock, reassembly and DTMF buffer.
  \<^item> \<open>MediaStore\<close>, \<open>ControlConn\<close>, \<open>Endpoint\<close>, \<open>SipTransaction\<close>, \<open>PackageApi\<close>: the objects of the media side
    and the way of an event from a channel to the packages, with the refinements of a
    connection to its set of listeners and of the use counters to the number of users.
  \<^item> \<open>Core\<close>, \<open>SdpOffer\<close>, \<open>CoreCalls\<close>: the core's maps, endpoints for packages, transcoding (the locale
    \<open>transcoder\<close> extends two codecs), the negotiation of an offer, the end of calls; the invariant of
    the maps over every history.
  \<^item> \<open>ConfParser\<close>, \<open>Monitor\<close>: the search in the configuration file and the status interface
    (\<open>src/RemoteMonitor.cxx\<close>).
  \<^item> \<open>MixerNode\<close>, \<open>MixerAudio\<close>, \<open>MixerControl\<close>: the mixer, in the order of the source: nodes and their
    links, frames and the rounds of a conference's thread, the handlers of the \<open>msc-mixer\<close> documents.
  \<^item> \<open>MixerLinks\<close>, \<open>MixerContract\<close>: the abstraction of the mixer to a graph (\<open>faces\<close>, \<open>link\<close>) and what
    each operation does to it; the abstract class \<open>MixerNode\<close> as the locale \<open>mixer_node\<close>, interpreted
    on connections and on conferences.
  \<^item> \<open>MixerRequests\<close>, \<open>MixerHistory\<close>, \<open>MixerAnswers\<close>, \<open>MixerRounds\<close>, \<open>MixerDemo\<close>, \<open>MixerProps\<close>: every handler
    keeps the invariant \<open>mixer_ok\<close>; histories of requests, frames, rounds and ends of connections
    (\<open>mixer_reach\<close>); one answer to each request; rounds return; an example; the properties.
  \<^item> \<open>IvrValues\<close>, \<open>IvrDialog\<close>: the IVR package's readers of times, percentages and digits and the files that
    speak a value; the members of a dialog, its parameters, the time line of prompts with its refinement to
    a list of steps, streams, what a DTMF tone does.
  \<^item> \<open>IvrCollect\<close>, \<open>IvrPlayback\<close>, \<open>IvrRecord\<close>: the parts of a dialog's thread, each waiting loop a function of its
    turns (what the timers show, what other threads do meanwhile): what is reported of the
    keys typed, tracks of one length and the VCR controls, the recorded file; when the loops end.
  \<^item> \<open>IvrRun\<close>: the whole thread, its iterations and the event \<open>dialogexit\<close>; the relation \<open>goes\<close> holds of every step.
  \<^item> \<open>IvrGrammar\<close>: the handlers of SRGS grammars, over the events of a whole document.

  \<^bold>\<open>Histories and steps.\<close> Invariants are stated over everything that can happen between two uses of a mutex:
  \<open>CfwTransaction\<close> interleaves the thread's check, its section under the mutex and the operations of
  others; \<open>CfwStack\<close>, \<open>Endpoint\<close>, \<open>CoreCalls\<close> and \<open>MixerHistory\<close> interleave whole operations. A
  section under a mutex is one step. Accesses of the code that are not under a mutex are steps of
  their own only in \<open>CfwTransaction\<close>; elsewhere a race between two operations is not visible.

  \<^bold>\<open>Bounds and fuel.\<close> The recursive queries of an endpoint take a depth; wrappers own channels and channels
  own nothing, so depth two is enough, which is proved. \<open>root10\<close>, the tenth root by halving, runs
  32 rounds for a result below \<open>2 ^ 32\<close>. A random conference identifier is drawn from a list of
  random numbers; its end stands for a loop that goes on. A call that never returns is a value of
  its own (\<open>Forever\<close>, or \<open>None\<close> of the reader). Use counters of packages are 16-bit words.

  \<^bold>\<open>Parameters.\<close> Code outside the repository is an argument: Boost's matcher and tokenizer (record \<open>boost\<close>),
  sockets and OpenSSL (what they deliver), GNU CommonC++ timers (their readings), oRTP (packets,
  payload type, ports), libgsm, the codec factories that were loaded, reSIProcate's parse of an
  offer (\<open>sip_env\<close>), name resolution, random numbers, libcurl's uploads and the file system (\<open>run_env\<close>: what
  \<open>fopen\<close>, \<open>fwrite\<close> and \<open>stat\<close> give), Boost's matcher without \<open>icase\<close> (\<open>ie_exact\<close>), what libav finds in the prompts. eXpat is the events of a tree in document
  order. \<open>pow\<close> on multiples of a tenth is exact.

  \<^bold>\<open>Approximations.\<close> Memory is available. Fields that a constructor leaves unset hold 0. Where \<open>detach\<close> of a
  conference reads the key of the entry it has just erased, the key is still there. \<open>long\<close> has
  32 bits in the mixing thread, as its \<open>memset\<close> of 640 bytes for 160 elements needs, and fewer than
  65536 frames are summed. The text that is only printed is left out.

  \<^bold>\<open>Not modelled.\<close> Of the IVR package, the registry of dialogs and messages, the handlers of the \<open>msc-ivr\<close> element
  around the dialog and those of the elements inside prompts, and the download, decoding and
  mixing of prompts, which is libcurl's and libav's work; the example package (it only logs and
  answers 200); loading of plug-ins and packages (\<open>dlopen\<close>), \<open>main\<close> (\<open>src/prototype.cxx\<close>: options and
  signals), the set-up of TLS, SIP and sockets, the loops of the threads with their waits: calls into
  libraries and the operating system without logic of their own. What one turn of a thread does is
  modelled with its component.
\<close>

end
